(* ===== verification/Prelude.thy ===== *)
theory Prelude
  imports Main "HOL-Library.DAList" "HOL-Library.Sublist" "HOL-Library.List_Lexorder"
    "HOL-Library.Char_ord" "HOL-Library.Word" "HOL-Library.Multiset"
begin

section \<open>Shared types, Go maps, Go strings and time\<close>

text \<open>
  What every component of the model uses of the Go language and its standard library.
  A Go string is the list of its bytes (\<open>string\<close>, a \<open>char list\<close>); a byte slice is a list of
  8-bit words. A Go map is an association list with distinct keys
  (\<open>HOL-Library.DAList\<close>): it is finite, lookups and updates are the map operations, and a
  \<open>range\<close> loop visits the entries of \<open>gm_entries\<close>. Go leaves the order of a \<open>range\<close> open, so
  a loop whose outcome depends on it takes the order as an argument (see \<open>range_order\<close>).
  A time is the number of nanoseconds since Go's zero time (year 1, UTC), so that
  \<open>IsZero\<close> is equality with 0; a duration is a signed 64-bit number of nanoseconds, and the
  difference of two times saturates at its bounds, as \<open>Time.Sub\<close> does.
\<close>

named_theorems model_defs \<open>definitions of the modelled operations, for unfolding\<close>
named_theorems gomap_simps \<open>rewrite rules for Go maps\<close>

type_synonym byte = "8 word"
type_synonym bytes = "byte list"
type_synonym path = string
type_synonym time = int
type_synonym duration = int

subsection \<open>Go maps\<close>

type_synonym ('k, 'v) gomap = "('k, 'v) alist"

abbreviation gm_empty :: "('k, 'v) gomap" where
  "gm_empty \<equiv> DAList.empty"

abbreviation gm_get :: "('k, 'v) gomap \<Rightarrow> 'k \<Rightarrow> 'v option" where
  "gm_get \<equiv> DAList.lookup"

abbreviation gm_put :: "'k \<Rightarrow> 'v \<Rightarrow> ('k, 'v) gomap \<Rightarrow> ('k, 'v) gomap" where
  "gm_put \<equiv> DAList.update"

abbreviation gm_del :: "'k \<Rightarrow> ('k, 'v) gomap \<Rightarrow> ('k, 'v) gomap" where
  "gm_del \<equiv> DAList.delete"

abbreviation gm_entries :: "('k, 'v) gomap \<Rightarrow> ('k \<times> 'v) list" where
  "gm_entries \<equiv> alist.impl_of"

definition gm_keys :: "('k, 'v) gomap \<Rightarrow> 'k list" where
  "gm_keys m = map fst (gm_entries m)"

definition gm_len :: "('k, 'v) gomap \<Rightarrow> nat" where
  "gm_len m = length (gm_entries m)"

text \<open>Deleting every key of a list, the effect of a loop of \<open>delete\<close> calls.\<close>

definition gm_del_all :: "'k list \<Rightarrow> ('k, 'v) gomap \<Rightarrow> ('k, 'v) gomap" where
  "gm_del_all ks m = fold gm_del ks m"

lemma gm_get_put [gomap_simps]:
  "gm_get (gm_put k v m) k' = (if k = k' then Some v else gm_get m k')"
  by (rule lookup_update)

lemma gm_get_del [gomap_simps]:
  "gm_get (gm_del k m) k' = (if k = k' then None else gm_get m k')"
  by (simp add: lookup_delete)

lemma gm_get_iff_entry: "gm_get m k = Some v \<longleftrightarrow> (k, v) \<in> set (gm_entries m)"
  by transfer (simp add: map_of_eq_Some_iff)

lemma gm_keys_distinct [simp, intro]: "distinct (gm_keys m)"
  by (simp add: gm_keys_def)

lemma gm_keys_iff: "k \<in> set (gm_keys m) \<longleftrightarrow> gm_get m k \<noteq> None"
  unfolding gm_keys_def by transfer (force simp: map_of_eq_None_iff)

lemma gm_keys_dom: "set (gm_keys m) = dom (gm_get m)"
  using gm_keys_iff by fastforce

lemma gm_keys_SomeI [intro]: "gm_get m k = Some v \<Longrightarrow> k \<in> set (gm_keys m)"
  by (simp add: gm_keys_iff)

lemma gm_entries_empty [simp]: "gm_entries gm_empty = []"
  by transfer simp

lemma gm_keys_empty [simp]: "gm_keys gm_empty = []"
  by (simp add: gm_keys_def)

lemma gm_len_keys: "gm_len m = card (dom (gm_get m))"
proof -
  have "gm_len m = length (gm_keys m)" by (simp add: gm_len_def gm_keys_def)
  also have "\<dots> = card (set (gm_keys m))" by (simp add: distinct_card)
  finally show ?thesis by (simp add: gm_keys_dom)
qed

lemma finite_dom_gm_get [simp, intro]: "finite (dom (gm_get m))"
  by (simp flip: gm_keys_dom)

lemma gm_get_del_all [gomap_simps]:
  "gm_get (gm_del_all ks m) k = (if k \<in> set ks then None else gm_get m k)"
  unfolding gm_del_all_def
  by (induction ks arbitrary: m) (auto simp: gm_get_del)

lemma gm_eq_iff_entries: "m = m' \<longleftrightarrow> gm_entries m = gm_entries m'"
  by (rule alist_eq_iff)

subsection \<open>The order of a range loop\<close>

text \<open>
  The Go specification leaves the iteration order of a map open. Where a loop's outcome can
  depend on it, the model takes a function that permutes the entries; \<open>range_order\<close> is the
  whole of what the language promises of it.
\<close>

definition range_order :: "('a list \<Rightarrow> 'a list) \<Rightarrow> bool" where
  "range_order ord \<longleftrightarrow> (\<forall>xs. mset (ord xs) = mset xs)"

lemma range_order_id [simp]: "range_order id"
  by (simp add: range_order_def)

lemma range_order_rev [simp]: "range_order rev"
  by (simp add: range_order_def)

lemma range_order_mset [simp]: "range_order ord \<Longrightarrow> mset (ord xs) = mset xs"
  by (simp add: range_order_def)

lemma range_order_set [simp]: "range_order ord \<Longrightarrow> set (ord xs) = set xs"
  by (metis range_order_def set_mset_mset)

lemma range_order_length [simp]: "range_order ord \<Longrightarrow> length (ord xs) = length xs"
  by (metis range_order_def size_mset)

lemma range_order_distinct [simp]: "range_order ord \<Longrightarrow> distinct (ord xs) = distinct xs"
  by (metis range_order_def mset_eq_imp_distinct_iff)

subsection \<open>Sorting (\<open>sort.Strings\<close>)\<close>

text \<open>
  \<open>sort.Strings\<close> sorts bytewise lexicographically: \<open>HOL-Library.List_Lexorder\<close> and
  \<open>HOL-Library.Char_ord\<close> give \<open>string\<close> that order. A list of distinct keys has one sorted
  arrangement, so the result does not depend on the order the keys were collected in.
\<close>

lemma sort_perm_eq: "mset xs = mset ys \<Longrightarrow> sort xs = sort (ys :: 'a :: linorder list)"
  by (metis properties_for_sort sorted_sort mset_sort)

lemma sort_set_eq:
  "distinct xs \<Longrightarrow> distinct ys \<Longrightarrow> set xs = set ys \<Longrightarrow> sort xs = sort (ys :: 'a :: linorder list)"
  by (metis set_eq_iff_mset_eq_distinct sort_perm_eq)

subsection \<open>Lists\<close>

lemma list_update_ball:
  "\<forall>x \<in> set xs. P x \<Longrightarrow> P y \<Longrightarrow> \<forall>x \<in> set (xs[i := y]). P x"
  using set_update_subset_insert [of xs i y] by blast

subsection \<open>Strings\<close>

text \<open>\<open>strings.HasPrefix(s, p)\<close>, \<open>strings.TrimPrefix(s, p)\<close> and \<open>strings.Contains(s, t)\<close>.\<close>

definition has_prefix :: "string \<Rightarrow> string \<Rightarrow> bool" where
  "has_prefix s p = prefix p s"

definition trim_prefix :: "string \<Rightarrow> string \<Rightarrow> string" where
  "trim_prefix s p = (if has_prefix s p then drop (length p) s else s)"

definition str_contains :: "string \<Rightarrow> string \<Rightarrow> bool" where
  "str_contains s t = sublist t s"

lemma has_prefix_empty [simp]: "has_prefix s []"
  by (simp add: has_prefix_def)

lemma has_prefix_append [simp]: "has_prefix (p @ s) p"
  by (simp add: has_prefix_def)

lemma trim_prefix_append [simp]: "trim_prefix (p @ s) p = s"
  by (simp add: trim_prefix_def)

text \<open>\<open>strings.Split(s, c)\<close> and \<open>strings.Join(parts, c)\<close> for a one-byte separator.\<close>

fun split_on :: "'a \<Rightarrow> 'a list \<Rightarrow> 'a list list" where
  "split_on c [] = [[]]"
| "split_on c (x # xs) =
     (if x = c then [] # split_on c xs
      else (case split_on c xs of [] \<Rightarrow> [[x]] | y # ys \<Rightarrow> (x # y) # ys))"

fun join_on :: "'a \<Rightarrow> 'a list list \<Rightarrow> 'a list" where
  "join_on c [] = []"
| "join_on c [x] = x"
| "join_on c (x # y # ys) = x @ c # join_on c (y # ys)"

lemma split_on_neq_Nil [simp]: "split_on c s \<noteq> []"
  by (induction s) (auto split: list.splits)

lemma join_split_on [simp]: "join_on c (split_on c s) = s"
proof (induction s)
  case (Cons x xs)
  then show ?case
    by (cases "split_on c xs"; cases "tl (split_on c xs)") (auto split: list.splits)
qed simp

lemma split_on_parts: "p \<in> set (split_on c s) \<Longrightarrow> c \<notin> set p"
  by (induction s arbitrary: p) (fastforce split: if_splits list.splits)+

lemma split_on_free: "c \<notin> set x \<Longrightarrow> split_on c x = [x]"
  by (induction x) auto

lemma split_on_append:
  "c \<notin> set x \<Longrightarrow> split_on c (x @ c # s) = x # split_on c s"
  by (induction x) auto

text \<open>What follows a separator contributes its own parts.\<close>

lemma split_on_tail_tl: "set (split_on c rest) \<subseteq> set (tl (split_on c (us @ c # rest)))"
  by (induction us) (auto split: list.splits)

lemma split_on_tail: "set (split_on c rest) \<subseteq> set (split_on c (us @ c # rest))"
  by (meson split_on_tail_tl list.set_sel(2) split_on_neq_Nil subset_iff)

lemma split_join_on:
  "xs \<noteq> [] \<Longrightarrow> \<forall>x \<in> set xs. c \<notin> set x \<Longrightarrow> split_on c (join_on c xs) = xs"
  by (induction c xs rule: join_on.induct) (auto simp: split_on_free split_on_append)

lemma join_on_eq_Nil: "join_on c xs = [] \<longleftrightarrow> xs = [] \<or> xs = [[]]"
  by (induction c xs rule: join_on.induct) auto

lemma join_on_Cons: "xs \<noteq> [] \<Longrightarrow> join_on c (x # xs) = x @ c # join_on c xs"
  by (cases xs) auto

lemma join_on_append:
  "xs \<noteq> [] \<Longrightarrow> ys \<noteq> [] \<Longrightarrow> join_on c (xs @ ys) = join_on c xs @ c # join_on c ys"
  by (induction c xs rule: join_on.induct) (auto simp: join_on_Cons)

subsection \<open>Time\<close>

definition maxDuration :: duration where
  "maxDuration = 2 ^ 63 - 1"

definition minDuration :: duration where
  "minDuration = - (2 ^ 63)"

definition is_zero_time :: "time \<Rightarrow> bool" where
  "is_zero_time t \<longleftrightarrow> t = 0"

text \<open>\<open>t.Sub(u)\<close> (and with it \<open>time.Since\<close>, \<open>time.Until\<close>): the difference, saturated.\<close>

definition time_sub :: "time \<Rightarrow> time \<Rightarrow> duration" where
  "time_sub t u = max minDuration (min maxDuration (t - u))"

definition second :: duration where
  "second = 1000000000"

lemma time_sub_bounds: "minDuration \<le> time_sub t u" "time_sub t u \<le> maxDuration"
  by (auto simp: time_sub_def minDuration_def maxDuration_def)

lemma time_sub_exact:
  "\<bar>t - u\<bar> \<le> maxDuration \<Longrightarrow> time_sub t u = t - u"
  by (auto simp: time_sub_def minDuration_def maxDuration_def)

lemma time_sub_le_0: "time_sub t u \<le> 0 \<longleftrightarrow> t \<le> u"
  by (auto simp: time_sub_def minDuration_def maxDuration_def)

lemma time_sub_less_0: "time_sub t u < 0 \<longleftrightarrow> t < u"
  by (auto simp: time_sub_def minDuration_def maxDuration_def)

subsection \<open>Numbers in text\<close>

fun decimal_nat :: "nat \<Rightarrow> string" where
  "decimal_nat n = (if n < 10 then [] else decimal_nat (n div 10)) @ [char_of (48 + n mod 10)]"

declare decimal_nat.simps [simp del]

text \<open>\<open>%d\<close> of package \<open>fmt\<close>.\<close>

definition decimal :: "int \<Rightarrow> string" where
  "decimal i = (if i < 0 then CHR ''-'' # decimal_nat (nat (- i)) else decimal_nat (nat i))"

subsection \<open>Dynamic values\<close>

text \<open>The values of type \<open>any\<close>; \<open>AnyOpaque\<close> is a value JSON cannot represent.\<close>

datatype any =
    AnyNil
  | AnyBool bool
  | AnyNumber int
  | AnyString string
  | AnySlice "any list"
  | AnyMap "(string \<times> any) list"
  | AnyOpaque nat

end
