(* ===== verification/ObjectTypes.thy ===== *)
theory ObjectTypes
  imports Prelude
begin

section \<open>Package \<open>object\<close>: errors, options, object metadata, features\<close>

text \<open>
  The data that the backends, the copy helpers and the sync engine exchange:
  \<open>object/errors.go\<close>, \<open>object/options.go\<close>, \<open>object/object_info.go\<close> and
  \<open>object/features.go\<close>. An \<open>error\<close> result of Go is an \<open>object_error option\<close> (\<open>None\<close> is nil), a
  pair of a value and an error is a sum with the error on the left.
\<close>

subsection \<open>Errors\<close>

text \<open>
  The sentinels of \<open>object/errors.go\<close>, the errors of \<open>context\<close> and \<open>io\<close> that the code returns,
  and the shapes it builds: \<open>Errorf\<close> for a message without a cause, \<open>Wrapf\<close> for one with \<open>%w\<close>,
  \<open>RetryError\<close> (\<open>object/sync/retry.go\<close>) and \<open>MultiError\<close> (\<open>object/multi/writer.go\<close>).
\<close>

datatype object_error =
    ErrNotFound
  | ErrAlreadyExists
  | ErrPermissionDenied
  | ErrBackendClosed
  | ErrWriterClosed
  | ErrReaderClosed
  | ErrInvalidPath
  | ErrNotSupported
  | ErrUnknownBackend
  | ContextCanceled
  | ContextDeadlineExceeded
  | EOF
  | ErrUnexpectedEOF
  | ErrClosedPipe
  | Errorf string
  | Wrapf string object_error
  | RetryError int object_error
  | MultiError "object_error list"

type_synonym 'a res = "object_error + 'a"

text \<open>\<open>errors.Unwrap\<close>: the cause of an error; a \<open>MultiError\<close> unwraps to its first error.\<close>

fun unwrap :: "object_error \<Rightarrow> object_error option" where
  "unwrap (Wrapf _ e) = Some e"
| "unwrap (RetryError _ e) = Some e"
| "unwrap (MultiError (e # _)) = Some e"
| "unwrap _ = None"

text \<open>\<open>errors.Is(err, target)\<close>: the error or something in its chain of causes is the target.\<close>

fun errors_is :: "object_error \<Rightarrow> object_error \<Rightarrow> bool" where
  "errors_is (Wrapf m e) t \<longleftrightarrow> Wrapf m e = t \<or> errors_is e t"
| "errors_is (RetryError n e) t \<longleftrightarrow> RetryError n e = t \<or> errors_is e t"
| "errors_is (MultiError (e # es)) t \<longleftrightarrow> MultiError (e # es) = t \<or> errors_is e t"
| "errors_is e t \<longleftrightarrow> e = t"

definition IsNotFound :: "object_error \<Rightarrow> bool" where
  "IsNotFound err \<longleftrightarrow> errors_is err ErrNotFound"

definition IsPermissionDenied :: "object_error \<Rightarrow> bool" where
  "IsPermissionDenied err \<longleftrightarrow> errors_is err ErrPermissionDenied"

definition IsNotSupported :: "object_error \<Rightarrow> bool" where
  "IsNotSupported err \<longleftrightarrow> errors_is err ErrNotSupported"

lemma errors_is_refl [simp]: "errors_is e e"
  by (cases e rule: unwrap.cases) auto

lemma errors_is_unwrap: "unwrap e = Some c \<Longrightarrow> errors_is c t \<Longrightarrow> errors_is e t"
  by (cases e rule: unwrap.cases) auto

subsection \<open>Options\<close>

text \<open>
  An option is a function that changes one field of a configuration; \<open>Apply...Options\<close> starts
  from the zero configuration and runs the options in order. A nil metadata map and an empty
  one are read alike by the code and are the same here.
\<close>

record WriterConfig =
  wcBufferSize :: int
  wcContentType :: string
  wcMetadata :: "(string, string) gomap"

type_synonym WriterOption = "WriterConfig \<Rightarrow> WriterConfig"

definition zeroWriterConfig :: WriterConfig where
  "zeroWriterConfig = \<lparr>wcBufferSize = 0, wcContentType = [], wcMetadata = gm_empty\<rparr>"

definition WithBufferSize :: "int \<Rightarrow> WriterOption" where
  "WithBufferSize sz c = c\<lparr>wcBufferSize := sz\<rparr>"

definition WithContentType :: "string \<Rightarrow> WriterOption" where
  "WithContentType contentType c = c\<lparr>wcContentType := contentType\<rparr>"

definition WithMetadata :: "(string, string) gomap \<Rightarrow> WriterOption" where
  "WithMetadata metadata c = c\<lparr>wcMetadata := metadata\<rparr>"

definition ApplyWriterOptions :: "WriterOption list \<Rightarrow> WriterConfig" where
  "ApplyWriterOptions opts = fold (\<lambda>opt config. opt config) opts zeroWriterConfig"

record ReaderConfig =
  rcBufferSize :: int
  rcOffset :: int
  rcLimit :: int

type_synonym ReaderOption = "ReaderConfig \<Rightarrow> ReaderConfig"

definition zeroReaderConfig :: ReaderConfig where
  "zeroReaderConfig = \<lparr>rcBufferSize = 0, rcOffset = 0, rcLimit = 0\<rparr>"

definition WithReaderBufferSize :: "int \<Rightarrow> ReaderOption" where
  "WithReaderBufferSize sz c = c\<lparr>rcBufferSize := sz\<rparr>"

definition WithOffset :: "int \<Rightarrow> ReaderOption" where
  "WithOffset offset c = c\<lparr>rcOffset := offset\<rparr>"

definition WithLimit :: "int \<Rightarrow> ReaderOption" where
  "WithLimit limit c = c\<lparr>rcLimit := limit\<rparr>"

definition ApplyReaderOptions :: "ReaderOption list \<Rightarrow> ReaderConfig" where
  "ApplyReaderOptions opts = fold (\<lambda>opt config. opt config) opts zeroReaderConfig"

lemmas option_defs = WithBufferSize_def WithContentType_def WithMetadata_def
  WithReaderBufferSize_def WithOffset_def WithLimit_def
  ApplyWriterOptions_def ApplyReaderOptions_def

lemma ApplyWriterOptions_Nil [simp]: "ApplyWriterOptions [] = zeroWriterConfig"
  by (simp add: ApplyWriterOptions_def)

lemma ApplyWriterOptions_snoc [simp]:
  "ApplyWriterOptions (opts @ [opt]) = opt (ApplyWriterOptions opts)"
  by (simp add: ApplyWriterOptions_def)

lemma ApplyReaderOptions_Nil [simp]: "ApplyReaderOptions [] = zeroReaderConfig"
  by (simp add: ApplyReaderOptions_def)

lemma ApplyReaderOptions_snoc [simp]:
  "ApplyReaderOptions (opts @ [opt]) = opt (ApplyReaderOptions opts)"
  by (simp add: ApplyReaderOptions_def)

subsection \<open>Hash types and object metadata\<close>

type_synonym HashType = string

definition HashNone :: HashType where "HashNone = ''''"

definition HashMD5 :: HashType where "HashMD5 = ''md5''"

definition HashSHA1 :: HashType where "HashSHA1 = ''sha1''"

definition HashSHA256 :: HashType where "HashSHA256 = ''sha256''"

definition HashCRC32C :: HashType where "HashCRC32C = ''crc32c''"

lemmas hash_names = HashNone_def HashMD5_def HashSHA1_def HashSHA256_def HashCRC32C_def

definition SupportedHashes :: "HashType list" where
  "SupportedHashes = [HashMD5, HashSHA1, HashSHA256, HashCRC32C]"

text \<open>
  \<open>BasicObjectInfo\<close> of \<open>object/object_info.go\<close>; its accessors are the record's fields, but for
  \<open>Hash\<close>, which reads a missing or nil hash map as the empty string.
\<close>

record ObjectInfo =
  ObjectPath :: path
  ObjectSize :: int
  ObjectModTime :: time
  ObjectIsDir :: bool
  ObjectContentType :: string
  ObjectHashes :: "(HashType, string) gomap"
  ObjectMetadata :: "(string, string) gomap"

definition info_Hash :: "ObjectInfo \<Rightarrow> HashType \<Rightarrow> string" where
  "info_Hash info t = (case gm_get (ObjectHashes info) t of None \<Rightarrow> [] | Some h \<Rightarrow> h)"

subsection \<open>Features\<close>

record Features =
  fCopy :: bool
  fMove :: bool
  fMkdir :: bool
  fRmdir :: bool
  fStat :: bool
  fHashes :: "HashType list"
  fCanStream :: bool
  fServerSideEncryption :: bool
  fVersioning :: bool
  fRangeRead :: bool
  fListPrefix :: bool
  fSetModTime :: bool
  fCustomMetadata :: bool

definition SupportsHash :: "Features \<Rightarrow> HashType \<Rightarrow> bool" where
  "SupportsHash f t \<longleftrightarrow> list_ex (\<lambda>h. h = t) (fHashes f)"

definition preferenceOrder :: "HashType list" where
  "preferenceOrder = [HashSHA256, HashSHA1, HashMD5, HashCRC32C]"

text \<open>The loop of both functions: the first type of the preference order that passes the test.\<close>

fun first_hash :: "(HashType \<Rightarrow> bool) \<Rightarrow> HashType list \<Rightarrow> HashType" where
  "first_hash P [] = HashNone"
| "first_hash P (t # ts) = (if P t then t else first_hash P ts)"

definition PreferredHash :: "Features \<Rightarrow> HashType" where
  "PreferredHash f = first_hash (SupportsHash f) preferenceOrder"

definition CommonHash :: "Features \<Rightarrow> Features \<Rightarrow> HashType" where
  "CommonHash f other =
     first_hash (\<lambda>t. SupportsHash f t \<and> SupportsHash other t) preferenceOrder"

lemma SupportsHash_iff: "SupportsHash f t \<longleftrightarrow> t \<in> set (fHashes f)"
  by (auto simp: SupportsHash_def list_ex_iff)

lemma first_hash_Some: "first_hash P ts \<noteq> HashNone \<Longrightarrow> first_hash P ts \<in> set ts \<and> P (first_hash P ts)"
  by (induction ts) (auto split: if_splits)

lemma first_hash_None:
  "HashNone \<notin> set ts \<Longrightarrow> first_hash P ts = HashNone \<longleftrightarrow> (\<forall>t \<in> set ts. \<not> P t)"
  by (induction ts) (auto split: if_splits)

lemma HashNone_preferenceOrder [simp]: "HashNone \<notin> set preferenceOrder"
  by (simp add: preferenceOrder_def hash_names)

lemma preferenceOrder_Supported: "set preferenceOrder = set SupportedHashes"
  by (auto simp: preferenceOrder_def SupportedHashes_def)

text \<open>The first type that passes comes before every other type that passes.\<close>

lemma first_hash_first:
  assumes "distinct ts" "i < length ts" "P (ts ! i)" "HashNone \<notin> set ts"
  shows "\<exists>j \<le> i. first_hash P ts = ts ! j"
  using assms
proof (induction ts arbitrary: i)
  case (Cons t ts)
  show ?case
  proof (cases "P t")
    case False
    with Cons.prems obtain i' where "i = Suc i'" by (cases i) auto
    with Cons False obtain j where "j \<le> i'" "first_hash P ts = ts ! j" by fastforce
    with False \<open>i = Suc i'\<close> show ?thesis by (intro exI [of _ "Suc j"]) simp
  qed (auto intro: exI [of _ 0])
qed simp

end
