(* ===== verification/Registry.thy ===== *)
theory Registry
  imports ObjectTypes
begin

section \<open>The registry of backends (\<open>object/registry.go\<close>)\<close>

text \<open>
  The package variable \<open>backends\<close> is the state; a nil factory is \<open>None\<close>; a panic is the message
  on the left of a sum. A factory builds a backend or an error from the configuration, and may change
  the world \<open>'w\<close> (it may connect); the type \<open>'b\<close> is whatever the factories build.
\<close>

type_synonym ('w, 'b) BackendFactory = "(string, string) gomap \<Rightarrow> 'w \<Rightarrow> 'b res \<times> 'w"
type_synonym ('w, 'b) registry = "(string, ('w, 'b) BackendFactory) gomap"

definition Register ::
  "string \<Rightarrow> ('w, 'b) BackendFactory option \<Rightarrow> ('w, 'b) registry \<Rightarrow> string + ('w, 'b) registry" where
  "Register name factory backends =
     (case factory of
        None \<Rightarrow> Inl ''omnistorage: Register factory is nil''
      | Some f \<Rightarrow>
          (case gm_get backends name of
             Some dup \<Rightarrow> Inl (''omnistorage: Register called twice for backend '' @ name)
           | None \<Rightarrow> Inr (gm_put name f backends)))"

definition Open :: "string \<Rightarrow> (string, string) gomap \<Rightarrow> ('w, 'b) registry \<Rightarrow> 'w \<Rightarrow> 'b res \<times> 'w" where
  "Open name config backends w =
     (case gm_get backends name of
        None \<Rightarrow> (Inl (Wrapf name ErrUnknownBackend), w)
      | Some factory \<Rightarrow> factory config w)"

definition Backends :: "('w, 'b) registry \<Rightarrow> string list" where
  "Backends backends = sort (gm_keys backends)"

definition IsRegistered :: "string \<Rightarrow> ('w, 'b) registry \<Rightarrow> bool" where
  "IsRegistered name backends = (gm_get backends name \<noteq> None)"

definition Unregister :: "string \<Rightarrow> ('w, 'b) registry \<Rightarrow> bool \<times> ('w, 'b) registry" where
  "Unregister name backends =
     (case gm_get backends name of
        Some _ \<Rightarrow> (True, gm_del name backends)
      | None \<Rightarrow> (False, backends))"

lemmas registry_defs [model_defs] = Register_def Open_def Backends_def IsRegistered_def Unregister_def

lemma Backends_set: "set (Backends r) = {name. IsRegistered name r}"
  by (auto simp: Backends_def IsRegistered_def gm_keys_iff)

lemma Backends_sorted: "sorted (Backends r)" "distinct (Backends r)"
  by (simp_all add: Backends_def)

lemma Open_unknown_iff: "\<not> IsRegistered name r \<Longrightarrow> Open name config r w = (Inl (Wrapf name ErrUnknownBackend), w)"
  by (simp add: Open_def IsRegistered_def)

lemma Register_Inr:
  "Register name f r = Inr r' \<longleftrightarrow>
     (\<exists>g. f = Some g \<and> \<not> IsRegistered name r \<and> r' = gm_put name g r)"
  by (auto simp: Register_def IsRegistered_def split: option.splits)

lemma Open_put: "Open name' config (gm_put name g r) w = (if name = name' then g config w else Open name' config r w)"
  by (simp add: Open_def gomap_simps)

lemma Open_del:
  "Open name' config (gm_del name r) w =
     (if name = name' then (Inl (Wrapf name ErrUnknownBackend), w) else Open name' config r w)"
  by (simp add: Open_def gomap_simps)

lemma Unregister_iff: "fst (Unregister name r) = IsRegistered name r"
  by (auto simp: Unregister_def IsRegistered_def split: option.splits)

lemma gm_get_Unregister: "gm_get (snd (Unregister name r)) n = (if n = name then None else gm_get r n)"
  by (auto simp: Unregister_def gomap_simps split: option.splits)

subsection \<open>Properties\<close>

text \<open>Registering a new name makes \<open>Open\<close> call that factory for the name and leaves every other
  name alone; a second registration of the name panics and a nil factory always does;
  \<open>Backends\<close> gains exactly the name, sorted; unregistering it makes it unknown again.\<close>

theorem registry_lifecycle:
  assumes "\<not> IsRegistered name r"
  shows "\<exists>r'. Register name (Some f) r = Inr r' \<and> Open name config r' = f config \<and>
    (\<forall>n. n \<noteq> name \<longrightarrow> Open n config r' = Open n config r) \<and>
    (\<forall>g r''. Register name g r' \<noteq> Inr r'') \<and> (\<forall>n r''. Register n None r' \<noteq> Inr r'') \<and>
    set (Backends r') = insert name (set (Backends r)) \<and> sorted (Backends r') \<and> distinct (Backends r') \<and>
    fst (Unregister name r') \<and>
    Open name config (snd (Unregister name r')) w = (Inl (Wrapf name ErrUnknownBackend), w) \<and>
    (\<forall>n. n \<noteq> name \<longrightarrow> Open n config (snd (Unregister name r')) = Open n config r)"
proof -
  have "Register name (Some f) r = Inr (gm_put name f r)"
    using assms by (simp add: Register_Inr)
  moreover have "IsRegistered name (gm_put name f r)" by (simp add: IsRegistered_def gomap_simps)
  ultimately show ?thesis
    using Backends_sorted [of "gm_put name f r"]
    by (intro exI [of _ "gm_put name f r"])
      (auto simp: fun_eq_iff Open_put Open_del Register_Inr Backends_set Unregister_iff IsRegistered_def gomap_simps
        Open_def gm_get_Unregister)
qed

theorem registry_lifecycle_witness:
  "\<exists>r'. Register ''memory'' (Some (\<lambda>c w. (Inr (1 :: nat), w))) gm_empty = Inr r' \<and> Open ''memory'' gm_empty r' () = (Inr 1, ())"
  using registry_lifecycle [of "''memory''" gm_empty "\<lambda>c w. (Inr (1 :: nat), w)" gm_empty "()"]
  by (auto simp: IsRegistered_def)

end
