(* ===== verification/GoPath.thy ===== *)
theory GoPath
  imports Prelude
begin

section \<open>Slash-separated paths (\<open>path.Clean\<close>, \<open>path.Join\<close>, \<open>filepath.Base\<close>)\<close>

text \<open>
  The part of Go's \<open>path\<close> package that the backends and the sync engine call. \<open>path.Clean\<close>
  is modelled by its documented rules, component by component: empty and \<open>.\<close> components are
  dropped, an inner \<open>..\<close> removes the component before it, a \<open>..\<close> that begins a rooted path is
  dropped, and the empty result is \<open>.\<close>. The lemmas show that cleaning is idempotent and that a
  cleaned path is a normal form: leading \<open>..\<close> components (none in a rooted path) followed by
  proper names.
\<close>

abbreviation slash :: char where "slash \<equiv> CHR 0x2F"

abbreviation dot :: string where "dot \<equiv> ''.''"

abbreviation dotdot :: string where "dotdot \<equiv> ''..''"

text \<open>One component on the reversed stack of the components kept so far.\<close>

definition clean_step :: "bool \<Rightarrow> string list \<Rightarrow> string \<Rightarrow> string list" where
  "clean_step rooted out c =
     (if c = [] \<or> c = dot then out
      else if c = dotdot then
        (case out of
           [] \<Rightarrow> if rooted then [] else [dotdot]
         | t # ts \<Rightarrow> if t = dotdot then dotdot # out else ts)
      else c # out)"

definition clean_comps :: "bool \<Rightarrow> string list \<Rightarrow> string list" where
  "clean_comps rooted cs = rev (foldl (clean_step rooted) [] cs)"

definition is_rooted :: "path \<Rightarrow> bool" where
  "is_rooted p \<longleftrightarrow> has_prefix p [slash]"

definition path_clean :: "path \<Rightarrow> path" where
  "path_clean p =
     (let body = join_on slash (clean_comps (is_rooted p) (split_on slash p))
      in if is_rooted p then slash # body
         else if body = [] then dot else body)"

text \<open>\<open>path.Join\<close>: empty elements are ignored, the rest joined with slashes and cleaned.\<close>

definition path_join :: "path list \<Rightarrow> path" where
  "path_join elems =
     (let es = filter (\<lambda>e. e \<noteq> []) elems
      in if es = [] then [] else path_clean (join_on slash es))"

text \<open>\<open>filepath.Base\<close> (on a slash system): the last component, trailing slashes removed.\<close>

definition strip_trailing_slashes :: "path \<Rightarrow> path" where
  "strip_trailing_slashes p = rev (dropWhile (\<lambda>c. c = slash) (rev p))"

definition path_base :: "path \<Rightarrow> path" where
  "path_base p =
     (if p = [] then dot
      else if strip_trailing_slashes p = [] then [slash]
      else last (split_on slash (strip_trailing_slashes p)))"

subsection \<open>Normal forms\<close>

definition proper_name :: "string \<Rightarrow> bool" where
  "proper_name c \<longleftrightarrow> c \<noteq> [] \<and> c \<noteq> dot \<and> c \<noteq> dotdot \<and> slash \<notin> set c"

text \<open>The reversed stack: proper names on top of leading \<open>..\<close> components.\<close>

fun clean_stack :: "bool \<Rightarrow> string list \<Rightarrow> bool" where
  "clean_stack rooted [] = True"
| "clean_stack rooted (t # ts) =
     (if t = dotdot then \<not> rooted \<and> (\<forall>u \<in> set ts. u = dotdot)
      else proper_name t \<and> clean_stack rooted ts)"

definition canonical :: "bool \<Rightarrow> string list \<Rightarrow> bool" where
  "canonical rooted cs \<longleftrightarrow> clean_stack rooted (rev cs)"

lemma clean_stack_dotdots: "\<not> rooted \<Longrightarrow> \<forall>u \<in> set ts. u = dotdot \<Longrightarrow> clean_stack rooted ts"
  by (induction ts) auto

lemma clean_step_stack:
  assumes "clean_stack rooted out" "slash \<notin> set c"
  shows "clean_stack rooted (clean_step rooted out c)"
  using assms
  by (cases out)
    (auto simp: clean_step_def proper_name_def intro: clean_stack_dotdots split: if_splits)

lemma clean_fold_stack:
  "clean_stack rooted out \<Longrightarrow> \<forall>c \<in> set cs. slash \<notin> set c \<Longrightarrow>
   clean_stack rooted (foldl (clean_step rooted) out cs)"
  by (induction cs arbitrary: out) (auto intro: clean_step_stack)

lemma clean_comps_canonical:
  "\<forall>c \<in> set cs. slash \<notin> set c \<Longrightarrow> canonical rooted (clean_comps rooted cs)"
  by (simp add: canonical_def clean_comps_def clean_fold_stack)

lemma clean_fold_names:
  "\<forall>n \<in> set ns. proper_name n \<Longrightarrow> foldl (clean_step rooted) out ns = rev ns @ out"
  by (induction ns arbitrary: out) (auto simp: clean_step_def proper_name_def)

lemma clean_fold_dotdots:
  "foldl (clean_step False) (replicate j dotdot) (replicate k dotdot) = replicate (k + j) dotdot"
proof (induction k arbitrary: j)
  case (Suc k)
  have "clean_step False (replicate j dotdot) dotdot = replicate (Suc j) dotdot"
    by (cases j) (auto simp: clean_step_def)
  then show ?case using Suc [of "Suc j"] by simp
qed simp

lemma clean_stack_split:
  "clean_stack rooted out \<Longrightarrow>
   \<exists>ns k. out = ns @ replicate k dotdot \<and> (\<forall>n \<in> set ns. proper_name n) \<and> (rooted \<longrightarrow> k = 0)"
proof (induction out)
  case Nil
  then show ?case by (intro exI [of _ "[]"] exI [of _ 0]) simp
next
  case (Cons t ts)
  show ?case
  proof (cases "t = dotdot")
    case True
    with Cons.prems have "t # ts = [] @ replicate (Suc (length ts)) dotdot" "\<not> rooted"
      by (auto simp: replicate_length_same)
    then show ?thesis by fastforce
  next
    case False
    with Cons obtain ns k where "ts = ns @ replicate k dotdot" "\<forall>n \<in> set ns. proper_name n"
      "rooted \<longrightarrow> k = 0" "proper_name t"
      by auto
    then show ?thesis by (intro exI [of _ "t # ns"] exI [of _ k]) simp
  qed
qed

lemma canonicalE:
  assumes "canonical rooted cs"
  obtains k ns where "cs = replicate k dotdot @ ns" "\<forall>n \<in> set ns. proper_name n"
    "rooted \<longrightarrow> k = 0"
proof -
  from assms obtain ns k where "rev cs = ns @ replicate k dotdot"
    "\<forall>n \<in> set ns. proper_name n" "rooted \<longrightarrow> k = 0"
    unfolding canonical_def using clean_stack_split by blast
  moreover from this(1) have "cs = replicate k dotdot @ rev ns"
    by (metis rev_append rev_replicate rev_rev_ident)
  ultimately show ?thesis using that [of k "rev ns"] by simp
qed

lemma clean_comps_id:
  assumes "canonical rooted cs"
  shows "clean_comps rooted cs = cs"
proof -
  obtain k ns where cs: "cs = replicate k dotdot @ ns" "\<forall>n \<in> set ns. proper_name n"
    "rooted \<longrightarrow> k = 0"
    using assms by (rule canonicalE)
  show ?thesis
  proof (cases rooted)
    case True
    with cs show ?thesis by (simp add: clean_comps_def clean_fold_names)
  next
    case False
    with cs show ?thesis
      using clean_fold_dotdots [of 0 k]
      by (simp add: clean_comps_def clean_fold_names foldl_append)
  qed
qed

lemma canonical_parts:
  assumes "canonical rooted cs" "c \<in> set cs"
  shows "c \<noteq> []" "c \<noteq> dot" "slash \<notin> set c" "rooted \<Longrightarrow> c \<noteq> dotdot"
proof -
  obtain k ns where cs: "cs = replicate k dotdot @ ns" "\<forall>n \<in> set ns. proper_name n"
    "rooted \<longrightarrow> k = 0"
    using assms(1) by (rule canonicalE)
  then have "c = dotdot \<and> k > 0 \<or> proper_name c"
    using assms(2) by auto
  then show "c \<noteq> []" "c \<noteq> dot" "slash \<notin> set c" "rooted \<Longrightarrow> c \<noteq> dotdot"
    using cs(3) by (auto simp: proper_name_def)
qed

lemma canonical_join_not_rooted:
  assumes "canonical rooted cs"
  shows "\<not> is_rooted (join_on slash cs)"
proof (cases cs)
  case (Cons c cs')
  then have "c \<noteq> []" "slash \<notin> set c" using canonical_parts assms by auto
  then obtain x xs where "c = x # xs" "x \<noteq> slash" by (cases c) auto
  then show ?thesis
    using Cons by (cases cs') (auto simp: is_rooted_def has_prefix_def)
qed (simp add: is_rooted_def has_prefix_def)


subsection \<open>Cleaning\<close>

lemma split_slash_free: "\<forall>c \<in> set (split_on slash p). slash \<notin> set c"
  using split_on_parts by fast

abbreviation cleaned :: "path \<Rightarrow> string list" where
  "cleaned p \<equiv> clean_comps (is_rooted p) (split_on slash p)"

lemma cleaned_canonical: "canonical (is_rooted p) (cleaned p)"
  using clean_comps_canonical [OF split_slash_free] .

lemma join_canonical_eq_Nil:
  "canonical rooted cs \<Longrightarrow> join_on slash cs = [] \<longleftrightarrow> cs = []"
  using canonical_parts(1) by (fastforce simp: join_on_eq_Nil)

lemma split_canonical:
  "canonical rooted cs \<Longrightarrow> cs \<noteq> [] \<Longrightarrow> split_on slash (join_on slash cs) = cs"
  using canonical_parts(3) by (blast intro: split_join_on)

lemma clean_fold_Nil_comp: "clean_comps rooted ([] # cs) = clean_comps rooted cs"
  by (simp add: clean_comps_def clean_step_def)

lemma is_rooted_slash [simp]: "is_rooted (slash # p)"
  by (simp add: is_rooted_def has_prefix_def)

lemma path_clean_rooted:
  "is_rooted p \<Longrightarrow> path_clean p = slash # join_on slash (cleaned p)"
  by (simp add: path_clean_def)

lemma path_clean_relative:
  "\<not> is_rooted p \<Longrightarrow> cleaned p \<noteq> [] \<Longrightarrow> path_clean p = join_on slash (cleaned p)"
  using join_canonical_eq_Nil [OF cleaned_canonical [of p]] by (simp add: path_clean_def Let_def)

lemma path_clean_dot:
  "\<not> is_rooted p \<Longrightarrow> cleaned p = [] \<Longrightarrow> path_clean p = dot"
  by (simp add: path_clean_def)

text \<open>Cleaning a canonical component list gives it back, rooted or not.\<close>

lemma path_clean_join_relative:
  assumes "canonical False cs" "cs \<noteq> []"
  shows "path_clean (join_on slash cs) = join_on slash cs"
proof -
  have "\<not> is_rooted (join_on slash cs)" using assms(1) by (rule canonical_join_not_rooted)
  then have "cleaned (join_on slash cs) = cs"
    using assms by (simp add: split_canonical clean_comps_id)
  with \<open>\<not> is_rooted (join_on slash cs)\<close> assms(2) show ?thesis
    by (simp add: path_clean_relative)
qed

lemma path_clean_join_rooted:
  assumes "canonical True cs"
  shows "path_clean (slash # join_on slash cs) = slash # join_on slash cs"
proof (cases "cs = []")
  case True
  then show ?thesis by (simp add: path_clean_def clean_comps_def clean_step_def)
next
  case False
  have "split_on slash (slash # join_on slash cs) = [] # cs"
    using assms False by (simp add: split_canonical)
  then show ?thesis
    using assms by (simp add: path_clean_rooted clean_fold_Nil_comp clean_comps_id)
qed

lemma path_clean_idem [simp]: "path_clean (path_clean p) = path_clean p"
proof (cases "is_rooted p")
  case True
  then have "canonical True (cleaned p)" using cleaned_canonical [of p] by simp
  then have "path_clean (slash # join_on slash (cleaned p)) = slash # join_on slash (cleaned p)"
    by (rule path_clean_join_rooted)
  with True show ?thesis by (simp only: path_clean_rooted)
next
  case False
  show ?thesis
  proof (cases "cleaned p = []")
    case True
    with False have "path_clean p = dot" by (rule path_clean_dot)
    moreover have "path_clean dot = dot" by code_simp
    ultimately show ?thesis by simp
  next
    case nonempty: False
    have "canonical False (cleaned p)" using False cleaned_canonical [of p] by simp
    then have "path_clean (join_on slash (cleaned p)) = join_on slash (cleaned p)"
      using nonempty by (rule path_clean_join_relative)
    then show ?thesis using path_clean_relative [OF False nonempty] by simp
  qed
qed

lemma path_clean_neq_Nil [simp]: "path_clean p \<noteq> []"
  by (auto simp: path_clean_def Let_def)

subsection \<open>Plain keys\<close>

text \<open>
  A plain key is what the backends store and list: a relative path of proper names. Cleaning
  leaves it alone, and joining a plain base and a plain relative path is concatenation.
\<close>

definition plain_key :: "path \<Rightarrow> bool" where
  "plain_key p \<longleftrightarrow> (\<forall>c \<in> set (split_on slash p). proper_name c)"

lemma not_plain_Nil [simp]: "\<not> plain_key []"
  by (simp add: plain_key_def proper_name_def)

lemma plain_key_neq_Nil: "plain_key p \<Longrightarrow> p \<noteq> []"
  by (cases p) simp_all

lemma clean_stack_names: "\<forall>n \<in> set xs. proper_name n \<Longrightarrow> clean_stack rooted xs"
  by (induction xs) (auto simp: proper_name_def)

lemma names_canonical: "\<forall>n \<in> set ns. proper_name n \<Longrightarrow> canonical rooted ns"
  unfolding canonical_def by (rule clean_stack_names) simp

lemma plain_key_canonical: "plain_key p \<Longrightarrow> canonical rooted (split_on slash p)"
  by (simp add: plain_key_def names_canonical)

lemma plain_key_join:
  "\<forall>n \<in> set ns. proper_name n \<Longrightarrow> ns \<noteq> [] \<Longrightarrow> plain_key (join_on slash ns)"
  using split_canonical [OF names_canonical, of ns] by (simp add: plain_key_def)

lemma plain_key_not_rooted: "plain_key p \<Longrightarrow> \<not> is_rooted p"
  using canonical_join_not_rooted [OF plain_key_canonical, of p] by simp

lemma path_clean_plain [simp]: "plain_key p \<Longrightarrow> path_clean p = p"
  using path_clean_join_relative [OF plain_key_canonical, of p] by simp

lemma plain_key_append:
  assumes "plain_key p" "plain_key q"
  shows "plain_key (p @ slash # q)"
proof -
  have "p @ slash # q = join_on slash (split_on slash p @ split_on slash q)"
    by (simp add: join_on_append)
  moreover have "plain_key (join_on slash (split_on slash p @ split_on slash q))"
    using assms by (intro plain_key_join) (auto simp: plain_key_def)
  ultimately show ?thesis by simp
qed

lemma path_join_plain:
  "plain_key p \<Longrightarrow> plain_key q \<Longrightarrow> path_join [p, q] = p @ slash # q"
  using plain_key_append [of p q] plain_key_neq_Nil by (auto simp: path_join_def)

lemma path_join_empty_plain [simp]: "plain_key q \<Longrightarrow> path_join [[], q] = q"
  using plain_key_neq_Nil by (auto simp: path_join_def)

end
