(* ===== verification/MemoryBackend.thy ===== *)
theory MemoryBackend
  imports GoPath ObjectTypes
begin

section \<open>The in-memory object backend (\<open>object/backend/memory/backend.go\<close>)\<close>

text \<open>
  The backend is a map from normalised paths to objects and a closed flag; every exported
  method is one definition, with the guards in the code's order. A context is the sequence of
  answers its \<open>Err\<close> gives at the polls of one call, \<open>time.Now()\<close> is an argument. After
  \<open>Close\<close> the map is nil, which reads as the empty map; every method returns at
  \<open>checkClosed\<close> before it would write it. The mutex makes each method atomic.
\<close>

type_synonym ctx = "nat \<Rightarrow> object_error option"

abbreviation background :: ctx where
  "background \<equiv> \<lambda>_. None"

record mem_object =
  odata :: bytes
  ocontentType :: string
  omodTime :: time
  oisDir :: bool

record mem_backend =
  objects :: "(path, mem_object) gomap"
  mclosed :: bool

definition mem_New :: mem_backend where
  "mem_New = \<lparr>objects = gm_empty, mclosed = False\<rparr>"

text \<open>The early returns \<open>if err := ...; err != nil { return err }\<close> of a method, in order.\<close>

fun first_error :: "object_error option list \<Rightarrow> object_error option" where
  "first_error [] = None"
| "first_error (None # es) = first_error es"
| "first_error (Some e # es) = Some e"

definition mem_checkClosed :: "mem_backend \<Rightarrow> object_error option" where
  "mem_checkClosed b = (if mclosed b then Some ErrBackendClosed else None)"

definition mem_validatePath :: "path \<Rightarrow> object_error option" where
  "mem_validatePath p =
     (if p = [] then Some ErrInvalidPath
      else let c = path_clean p
           in if has_prefix c dotdot \<or> str_contains c ''/../'' then Some ErrInvalidPath else None)"

definition normalizePath :: "path \<Rightarrow> path" where
  "normalizePath p =
     (if p = [] then []
      else let q = trim_prefix (path_clean p) [slash]
           in if q = dot then [] else q)"

subsection \<open>Writers\<close>

record memoryWriter =
  mwPath :: path
  mwBuffer :: bytes
  mwContentType :: string
  mwClosed :: bool

definition mem_NewWriter ::
  "ctx \<Rightarrow> path \<Rightarrow> WriterOption list \<Rightarrow> mem_backend \<Rightarrow> memoryWriter res" where
  "mem_NewWriter ctx p opts b =
     (case first_error [mem_checkClosed b, ctx 0, mem_validatePath p] of
        Some e \<Rightarrow> Inl e
      | None \<Rightarrow> Inr \<lparr>mwPath = normalizePath p, mwBuffer = [],
                   mwContentType = wcContentType (ApplyWriterOptions opts), mwClosed = False\<rparr>)"

text \<open>\<open>Write\<close> returns the number of bytes written and the error; it only fills the buffer.\<close>

definition mw_Write :: "bytes \<Rightarrow> memoryWriter \<Rightarrow> (nat \<times> object_error option) \<times> memoryWriter" where
  "mw_Write p w =
     (if mwClosed w then ((0, Some ErrWriterClosed), w)
      else ((length p, None), w\<lparr>mwBuffer := mwBuffer w @ p\<rparr>))"

text \<open>\<open>Close\<close> stores the buffer, once; a second \<open>Close\<close> does nothing.\<close>

definition mw_Close ::
  "time \<Rightarrow> memoryWriter \<Rightarrow> mem_backend \<Rightarrow> object_error option \<times> memoryWriter \<times> mem_backend" where
  "mw_Close now w b =
     (if mwClosed w then (None, w, b)
      else let w' = w\<lparr>mwClosed := True\<rparr>
           in if mclosed b then (Some ErrBackendClosed, w', b)
              else (None, w',
                    b\<lparr>objects := gm_put (mwPath w)
                        \<lparr>odata = mwBuffer w, ocontentType = mwContentType w,
                         omodTime = now, oisDir = False\<rparr> (objects b)\<rparr>))"

subsection \<open>Readers\<close>

record memoryReader =
  mrRest :: bytes
  mrClosed :: bool

text \<open>The byte range that \<open>WithOffset\<close> and \<open>WithLimit\<close> select.\<close>

definition read_range :: "ReaderConfig \<Rightarrow> bytes \<Rightarrow> bytes" where
  "read_range config bs =
     (let d = (if rcOffset config > 0
               then (if rcOffset config \<ge> int (length bs) then []
                     else drop (nat (rcOffset config)) bs)
               else bs)
      in if rcLimit config > 0 \<and> int (length d) > rcLimit config
         then take (nat (rcLimit config)) d else d)"

definition mem_NewReader ::
  "ctx \<Rightarrow> path \<Rightarrow> ReaderOption list \<Rightarrow> mem_backend \<Rightarrow> memoryReader res" where
  "mem_NewReader ctx p opts b =
     (case first_error [mem_checkClosed b, ctx 0, mem_validatePath p] of
        Some e \<Rightarrow> Inl e
      | None \<Rightarrow>
          (case gm_get (objects b) (normalizePath p) of
             None \<Rightarrow> Inl ErrNotFound
           | Some obj \<Rightarrow>
               if oisDir obj then Inl (Errorf (''cannot read directory: '' @ p))
               else Inr \<lparr>mrRest = read_range (ApplyReaderOptions opts) (odata obj),
                         mrClosed = False\<rparr>))"

text \<open>
  \<open>Read\<close> into a buffer of \<open>n\<close> bytes. At the end of the data, \<open>bytes.Reader\<close> reports
  \<open>io.EOF\<close>; otherwise it delivers what fits.
\<close>

definition mr_Read :: "nat \<Rightarrow> memoryReader \<Rightarrow> (bytes \<times> object_error option) \<times> memoryReader" where
  "mr_Read n r =
     (if mrClosed r then (([], Some ErrReaderClosed), r)
      else if mrRest r = [] then (([], Some EOF), r)
      else ((take n (mrRest r), None), r\<lparr>mrRest := drop n (mrRest r)\<rparr>))"

definition mr_Close :: "memoryReader \<Rightarrow> object_error option \<times> memoryReader" where
  "mr_Close r = (None, r\<lparr>mrClosed := True\<rparr>)"

subsection \<open>Keys: existence, deletion, listing\<close>

definition mem_Exists :: "ctx \<Rightarrow> path \<Rightarrow> mem_backend \<Rightarrow> bool res" where
  "mem_Exists ctx p b =
     (case first_error [mem_checkClosed b, ctx 0, mem_validatePath p] of
        Some e \<Rightarrow> Inl e
      | None \<Rightarrow> Inr (gm_get (objects b) (normalizePath p) \<noteq> None))"

definition mem_Delete :: "ctx \<Rightarrow> path \<Rightarrow> mem_backend \<Rightarrow> object_error option \<times> mem_backend" where
  "mem_Delete ctx p b =
     (case first_error [mem_checkClosed b, ctx 0, mem_validatePath p] of
        Some e \<Rightarrow> (Some e, b)
      | None \<Rightarrow> (None, b\<lparr>objects := gm_del (normalizePath p) (objects b)\<rparr>))"

definition list_match :: "path \<Rightarrow> path \<Rightarrow> bool" where
  "list_match normalPrefix p \<longleftrightarrow>
     normalPrefix = [] \<or> has_prefix p normalPrefix \<or> has_prefix p (normalPrefix @ [slash])"

text \<open>The loop of \<open>List\<close>: the context is polled before every entry.\<close>

fun mem_list_loop :: "ctx \<Rightarrow> nat \<Rightarrow> path \<Rightarrow> (path \<times> mem_object) list \<Rightarrow> path list \<Rightarrow> path list res" where
  "mem_list_loop ctx i normalPrefix [] paths = Inr paths"
| "mem_list_loop ctx i normalPrefix ((p, obj) # es) paths =
     (case ctx i of
        Some e \<Rightarrow> Inl e
      | None \<Rightarrow>
          if oisDir obj then mem_list_loop ctx (Suc i) normalPrefix es paths
          else if list_match normalPrefix p then mem_list_loop ctx (Suc i) normalPrefix es (paths @ [p])
          else mem_list_loop ctx (Suc i) normalPrefix es paths)"

definition mem_List :: "ctx \<Rightarrow> path \<Rightarrow> mem_backend \<Rightarrow> path list res" where
  "mem_List ctx pre b =
     (case first_error [mem_checkClosed b, ctx 0] of
        Some e \<Rightarrow> Inl e
      | None \<Rightarrow>
          (case mem_list_loop ctx 1 (normalizePath pre) (gm_entries (objects b)) [] of
             Inl e \<Rightarrow> Inl e
           | Inr paths \<Rightarrow> Inr (sort paths)))"

definition mem_Close :: "mem_backend \<Rightarrow> object_error option \<times> mem_backend" where
  "mem_Close b = (None, b\<lparr>mclosed := True, objects := gm_empty\<rparr>)"

subsection \<open>Extended operations\<close>

definition mem_Stat :: "ctx \<Rightarrow> path \<Rightarrow> mem_backend \<Rightarrow> ObjectInfo res" where
  "mem_Stat ctx p b =
     (case first_error [mem_checkClosed b, ctx 0, mem_validatePath p] of
        Some e \<Rightarrow> Inl e
      | None \<Rightarrow>
          (case gm_get (objects b) (normalizePath p) of
             None \<Rightarrow> Inl ErrNotFound
           | Some obj \<Rightarrow>
               Inr \<lparr>ObjectPath = normalizePath p,
                    ObjectSize = (if oisDir obj then 0 else int (length (odata obj))),
                    ObjectModTime = omodTime obj,
                    ObjectIsDir = oisDir obj,
                    ObjectContentType = ocontentType obj,
                    ObjectHashes = gm_empty,
                    ObjectMetadata = gm_empty\<rparr>))"

text \<open>The directories \<open>Mkdir\<close> visits: every non-empty prefix of the path's components.\<close>

definition parent_dirs :: "path \<Rightarrow> path list" where
  "parent_dirs p =
     (let parts = split_on slash p
      in map (\<lambda>i. join_on slash (take (Suc i) parts)) [0..<length parts])"

fun mkdir_loop :: "(nat \<Rightarrow> time) \<Rightarrow> nat \<Rightarrow> path list \<Rightarrow> (path, mem_object) gomap \<Rightarrow> (path, mem_object) gomap" where
  "mkdir_loop now i [] objs = objs"
| "mkdir_loop now i (d # ds) objs =
     mkdir_loop now (Suc i) ds
       (case gm_get objs d of
          Some _ \<Rightarrow> objs
        | None \<Rightarrow> gm_put d \<lparr>odata = [], ocontentType = [], omodTime = now i, oisDir = True\<rparr> objs)"

definition mem_Mkdir :: "(nat \<Rightarrow> time) \<Rightarrow> ctx \<Rightarrow> path \<Rightarrow> mem_backend \<Rightarrow> object_error option \<times> mem_backend" where
  "mem_Mkdir now ctx p b =
     (case first_error [mem_checkClosed b, ctx 0, mem_validatePath p] of
        Some e \<Rightarrow> (Some e, b)
      | None \<Rightarrow> (None, b\<lparr>objects := mkdir_loop now 0 (parent_dirs (normalizePath p)) (objects b)\<rparr>))"

definition mem_Rmdir :: "ctx \<Rightarrow> path \<Rightarrow> mem_backend \<Rightarrow> object_error option \<times> mem_backend" where
  "mem_Rmdir ctx p b =
     (case first_error [mem_checkClosed b, ctx 0, mem_validatePath p] of
        Some e \<Rightarrow> (Some e, b)
      | None \<Rightarrow>
          (case gm_get (objects b) (normalizePath p) of
             None \<Rightarrow> (Some ErrNotFound, b)
           | Some obj \<Rightarrow>
               if \<not> oisDir obj then (Some (Errorf (''not a directory: '' @ p)), b)
               else if list_ex (\<lambda>q. has_prefix q (normalizePath p @ [slash])) (gm_keys (objects b))
                    then (Some (Errorf (''directory not empty: '' @ p)), b)
               else (None, b\<lparr>objects := gm_del (normalizePath p) (objects b)\<rparr>)))"

definition mem_Copy :: "time \<Rightarrow> ctx \<Rightarrow> path \<Rightarrow> path \<Rightarrow> mem_backend \<Rightarrow> object_error option \<times> mem_backend" where
  "mem_Copy now ctx src dst b =
     (case first_error [mem_checkClosed b, ctx 0, mem_validatePath src, mem_validatePath dst] of
        Some e \<Rightarrow> (Some e, b)
      | None \<Rightarrow>
          (case gm_get (objects b) (normalizePath src) of
             None \<Rightarrow> (Some ErrNotFound, b)
           | Some obj \<Rightarrow>
               if oisDir obj then (Some (Errorf (''cannot copy directory: '' @ src)), b)
               else (None, b\<lparr>objects := gm_put (normalizePath dst)
                                \<lparr>odata = odata obj, ocontentType = ocontentType obj,
                                 omodTime = now, oisDir = False\<rparr> (objects b)\<rparr>)))"

definition mem_Move :: "time \<Rightarrow> ctx \<Rightarrow> path \<Rightarrow> path \<Rightarrow> mem_backend \<Rightarrow> object_error option \<times> mem_backend" where
  "mem_Move now ctx src dst b =
     (case first_error [mem_checkClosed b, ctx 0, mem_validatePath src, mem_validatePath dst] of
        Some e \<Rightarrow> (Some e, b)
      | None \<Rightarrow>
          (case gm_get (objects b) (normalizePath src) of
             None \<Rightarrow> (Some ErrNotFound, b)
           | Some obj \<Rightarrow>
               if oisDir obj then (Some (Errorf (''cannot move directory: '' @ src)), b)
               else (None, b\<lparr>objects := gm_del (normalizePath src)
                                (gm_put (normalizePath dst)
                                   \<lparr>odata = odata obj, ocontentType = ocontentType obj,
                                    omodTime = now, oisDir = False\<rparr> (objects b))\<rparr>)))"

definition mem_Features :: Features where
  "mem_Features =
     \<lparr>fCopy = True, fMove = True, fMkdir = True, fRmdir = True, fStat = True, fHashes = [],
      fCanStream = True, fServerSideEncryption = False, fVersioning = False,
      fRangeRead = True, fListPrefix = True, fSetModTime = False, fCustomMetadata = False\<rparr>"

definition mem_Size :: "mem_backend \<Rightarrow> int" where
  "mem_Size b = sum_list (map (\<lambda>(p, obj). int (length (odata obj))) (gm_entries (objects b)))"

definition mem_Count :: "mem_backend \<Rightarrow> nat" where
  "mem_Count b = length (filter (\<lambda>(p, obj). \<not> oisDir obj) (gm_entries (objects b)))"

definition mem_Clear :: "mem_backend \<Rightarrow> mem_backend" where
  "mem_Clear b = b\<lparr>objects := gm_empty\<rparr>"

lemmas mem_ops [model_defs] = mem_NewWriter_def mw_Write_def mw_Close_def mem_NewReader_def
  mem_Exists_def mem_Delete_def mem_List_def mem_Close_def mem_Stat_def mem_Mkdir_def mem_Rmdir_def mem_Copy_def mem_Move_def mem_Clear_def


subsection \<open>Guards and keys\<close>

lemma first_error_None: "first_error es = None \<longleftrightarrow> (\<forall>e \<in> set es. e = None)"
  by (induction es rule: first_error.induct) auto

lemma first_error_split:
  "first_error (e # es) = (case e of None \<Rightarrow> first_error es | Some x \<Rightarrow> Some x)"
  by (cases e) auto

lemma mem_checkClosed_None [simp]: "mem_checkClosed b = None \<longleftrightarrow> \<not> mclosed b"
  by (simp add: mem_checkClosed_def)

text \<open>
  The keys of the store: the root key \<open>""\<close> (the normal form of \<open>"/"\<close> and \<open>"."\<close>) or a plain
  key, a relative path whose components are proper names.
\<close>

definition store_key :: "path \<Rightarrow> bool" where
  "store_key k \<longleftrightarrow> k = [] \<or> plain_key k"

lemma trim_slash_rooted [simp]: "trim_prefix (slash # p) [slash] = p"
  by (simp add: trim_prefix_def has_prefix_def)

lemma trim_slash_relative: "\<not> is_rooted p \<Longrightarrow> trim_prefix p [slash] = p"
  by (simp add: trim_prefix_def is_rooted_def)

lemma has_prefix_join_dotdot:
  "has_prefix (join_on slash (replicate (Suc k) dotdot @ ns)) dotdot"
  by (cases k; cases ns) (auto simp: has_prefix_def)

lemma canonical_plain:
  assumes "canonical rooted cs" "cs \<noteq> []" "\<not> has_prefix (join_on slash cs) dotdot"
  shows "plain_key (join_on slash cs)"
proof -
  obtain k ns where cs: "cs = replicate k dotdot @ ns" "\<forall>n \<in> set ns. proper_name n"
    "rooted \<longrightarrow> k = 0"
    using assms(1) by (rule canonicalE)
  then have "k = 0" using assms(3) has_prefix_join_dotdot by (cases k) auto
  with cs assms(2) show ?thesis by (simp add: plain_key_join)
qed

lemma rooted_plain:
  assumes "canonical True cs" "cs \<noteq> []"
  shows "plain_key (join_on slash cs)"
proof -
  obtain k ns where "cs = replicate k dotdot @ ns" "\<forall>n \<in> set ns. proper_name n" "k = 0"
    using assms(1) by (rule canonicalE) auto
  with assms(2) show ?thesis by (simp add: plain_key_join)
qed

lemma not_plain_dot [simp]: "\<not> plain_key dot"
  by (simp add: plain_key_def proper_name_def)

lemma plain_key_not_dot: "plain_key p \<Longrightarrow> p \<noteq> dot"
  by (cases "p = dot") simp_all

lemma normalizePath_store_key:
  assumes "mem_validatePath p = None"
  shows "store_key (normalizePath p)"
proof -
  from assms have p: "p \<noteq> []" "\<not> has_prefix (path_clean p) dotdot"
    by (auto simp: mem_validatePath_def Let_def split: if_splits)
  consider (root) "is_rooted p" | (empty) "\<not> is_rooted p" "cleaned p = []"
    | (rel) "\<not> is_rooted p" "cleaned p \<noteq> []" by blast
  then show ?thesis
  proof cases
    case root
    then have "canonical True (cleaned p)" using cleaned_canonical [of p] by simp
    with root p show ?thesis
      using rooted_plain plain_key_not_dot
      by (cases "cleaned p = []") (auto simp: normalizePath_def path_clean_rooted store_key_def)
  next
    case empty
    with p show ?thesis
      by (simp add: normalizePath_def path_clean_dot trim_prefix_def has_prefix_def store_key_def)
  next
    case rel
    then have c: "canonical False (cleaned p)" using cleaned_canonical [of p] by simp
    then have "plain_key (join_on slash (cleaned p))"
      using rel p canonical_plain path_clean_relative by metis
    with rel p c show ?thesis
      by (simp add: normalizePath_def path_clean_relative trim_slash_relative
          canonical_join_not_rooted store_key_def Let_def)
  qed
qed

lemma normalizePath_Nil [simp]: "normalizePath [] = []"
  by (simp add: normalizePath_def)

lemma normalizePath_plain [simp]: "plain_key k \<Longrightarrow> normalizePath k = k"
  using plain_key_not_dot [of k] plain_key_neq_Nil [of k]
  by (simp add: normalizePath_def trim_slash_relative plain_key_not_rooted)

lemma normalizePath_key [simp]: "store_key k \<Longrightarrow> normalizePath k = k"
  by (auto simp: store_key_def)

lemma plain_has_no_dotdot_inside:
  assumes "str_contains p ''/../''"
  shows "dotdot \<in> set (split_on slash p)"
proof -
  from assms obtain us vs where p: "p = us @ slash # dotdot @ slash # vs"
    by (auto simp: str_contains_def sublist_def)
  have "dotdot \<in> set (split_on slash (dotdot @ slash # vs))"
    by (simp add: split_on_append)
  then have "dotdot \<in> set (split_on slash (us @ slash # dotdot @ slash # vs))"
    by (rule subsetD [OF split_on_tail])
  then show ?thesis by (simp only: p)
qed


subsection \<open>The files of a backend\<close>

text \<open>
  The abstraction of a backend: the data of its files by key. Every operation that changes the
  store is a map operation on it, directories do not show.
\<close>

definition mem_files :: "mem_backend \<Rightarrow> path \<Rightarrow> bytes option" where
  "mem_files b k =
     (case gm_get (objects b) k of
        None \<Rightarrow> None
      | Some obj \<Rightarrow> if oisDir obj then None else Some (odata obj))"

lemma mem_files_Some:
  "mem_files b k = Some d \<longleftrightarrow>
   (\<exists>obj. gm_get (objects b) k = Some obj \<and> \<not> oisDir obj \<and> odata obj = d)"
  by (auto simp: mem_files_def split: option.splits if_splits)

lemma mem_files_put:
  "mem_files (b\<lparr>objects := gm_put k obj (objects b)\<rparr>) =
   (mem_files b)(k := (if oisDir obj then None else Some (odata obj)))"
  by (auto simp: mem_files_def gomap_simps)

lemma mem_files_del:
  "mem_files (b\<lparr>objects := gm_del k (objects b)\<rparr>) = (mem_files b)(k := None)"
  by (auto simp: mem_files_def gomap_simps)

lemma mem_files_move:
  "mem_files (b\<lparr>objects := gm_del s (gm_put k obj (objects b))\<rparr>) =
   (mem_files b)(k := (if oisDir obj then None else Some (odata obj)), s := None)"
  by (auto simp: mem_files_def gomap_simps)

lemma mem_files_empty [simp]: "mem_files (b\<lparr>objects := gm_empty\<rparr>) = Map.empty"
  by (auto simp: mem_files_def)

subsection \<open>Operations whose guards pass\<close>

text \<open>What the guards of an operation ask: an open backend, a live context, a valid path.\<close>

definition mem_ready :: "mem_backend \<Rightarrow> ctx \<Rightarrow> path list \<Rightarrow> bool" where
  "mem_ready b ctx ps \<longleftrightarrow> \<not> mclosed b \<and> ctx 0 = None \<and> (\<forall>p \<in> set ps. mem_validatePath p = None)"

lemma mem_ready_guards:
  "mem_ready b ctx [] \<longleftrightarrow> first_error [mem_checkClosed b, ctx 0] = None"
  "mem_ready b ctx [p] \<longleftrightarrow> first_error [mem_checkClosed b, ctx 0, mem_validatePath p] = None"
  "mem_ready b ctx [p, q] \<longleftrightarrow>
     first_error [mem_checkClosed b, ctx 0, mem_validatePath p, mem_validatePath q] = None"
  by (auto simp: mem_ready_def first_error_None)

lemma mem_Exists_ready:
  "mem_ready b ctx [p] \<Longrightarrow>
   mem_Exists ctx p b = Inr (gm_get (objects b) (normalizePath p) \<noteq> None)"
  by (simp add: mem_Exists_def mem_ready_guards)

lemma mem_Delete_ready:
  "mem_ready b ctx [p] \<Longrightarrow>
   mem_Delete ctx p b = (None, b\<lparr>objects := gm_del (normalizePath p) (objects b)\<rparr>)"
  by (simp add: mem_Delete_def mem_ready_guards)

lemma mem_Delete_files:
  "mem_ready b ctx [p] \<Longrightarrow>
   mem_files (snd (mem_Delete ctx p b)) = (mem_files b)(normalizePath p := None)"
  by (simp add: mem_Delete_ready mem_files_del)

lemma mem_NewReader_ready:
  "mem_ready b ctx [p] \<Longrightarrow>
   mem_NewReader ctx p opts b =
     (case mem_files b (normalizePath p) of
        Some d \<Rightarrow> Inr \<lparr>mrRest = read_range (ApplyReaderOptions opts) d, mrClosed = False\<rparr>
      | None \<Rightarrow> Inl (if gm_get (objects b) (normalizePath p) = None then ErrNotFound
                    else Errorf (''cannot read directory: '' @ p)))"
  by (auto simp: mem_NewReader_def mem_ready_guards mem_files_def split: option.splits)

lemma mem_NewWriter_ready:
  "mem_ready b ctx [p] \<Longrightarrow>
   mem_NewWriter ctx p opts b =
     Inr \<lparr>mwPath = normalizePath p, mwBuffer = [],
          mwContentType = wcContentType (ApplyWriterOptions opts), mwClosed = False\<rparr>"
  by (simp add: mem_NewWriter_def mem_ready_guards)

lemma read_range_zero [simp]: "read_range zeroReaderConfig bs = bs"
  by (simp add: read_range_def zeroReaderConfig_def)

text \<open>A writer that is open and is written a list of chunks, then closed.\<close>

definition mw_Write_all :: "bytes list \<Rightarrow> memoryWriter \<Rightarrow> memoryWriter" where
  "mw_Write_all chunks w = fold (\<lambda>c w. snd (mw_Write c w)) chunks w"

lemma mw_Write_all_open:
  "\<not> mwClosed w \<Longrightarrow> mw_Write_all chunks w = w\<lparr>mwBuffer := mwBuffer w @ concat chunks\<rparr>"
  unfolding mw_Write_all_def
  by (induction chunks arbitrary: w) (auto simp: mw_Write_def)

lemma mw_Close_open:
  "\<not> mwClosed w \<Longrightarrow> \<not> mclosed b \<Longrightarrow>
   mw_Close now w b =
     (None, w\<lparr>mwClosed := True\<rparr>,
      b\<lparr>objects := gm_put (mwPath w)
          \<lparr>odata = mwBuffer w, ocontentType = mwContentType w, omodTime = now, oisDir = False\<rparr>
          (objects b)\<rparr>)"
  by (simp add: mw_Close_def)

subsection \<open>Listing\<close>

lemma list_match_iff: "list_match pre p \<longleftrightarrow> has_prefix p pre"
  by (auto simp: list_match_def has_prefix_def dest: append_prefixD)

lemma mem_list_loop_live:
  "(\<And>i. ctx i = None) \<Longrightarrow>
   mem_list_loop ctx i pre es paths =
     Inr (paths @ map fst (filter (\<lambda>(p, obj). \<not> oisDir obj \<and> list_match pre p) es))"
  by (induction ctx i pre es paths rule: mem_list_loop.induct) auto

lemma mem_list_loop_cancelled:
  "ctx j = Some e \<Longrightarrow> i \<le> j \<Longrightarrow> j < i + length es \<Longrightarrow> \<exists>e'. mem_list_loop ctx i pre es paths = Inl e'"
proof (induction ctx i pre es paths rule: mem_list_loop.induct)
  case (2 ctx i pre p obj es paths)
  then show ?case by (cases "i = j") (auto split: option.splits)
qed simp

definition mem_listing :: "path \<Rightarrow> mem_backend \<Rightarrow> path list" where
  "mem_listing pre b =
     sort (map fst (filter (\<lambda>(p, obj). \<not> oisDir obj \<and> list_match pre p) (gm_entries (objects b))))"

lemma mem_List_live:
  "\<not> mclosed b \<Longrightarrow> (\<And>i. ctx i = None) \<Longrightarrow>
   mem_List ctx pre b = Inr (mem_listing (normalizePath pre) b)"
  by (simp add: mem_List_def mem_listing_def mem_checkClosed_def mem_list_loop_live)

lemma mem_listing_set: "p \<in> set (mem_listing pre b) \<longleftrightarrow> mem_files b p \<noteq> None \<and> has_prefix p pre"
  by (force simp: mem_listing_def mem_files_def list_match_iff gm_get_iff_entry
      simp flip: gm_get_iff_entry split: option.splits if_splits)

lemma mem_listing_sorted: "sorted (mem_listing pre b)" "distinct (mem_listing pre b)"
  by (simp_all add: mem_listing_def distinct_map_filter)


subsection \<open>Directories\<close>

lemma gm_get_mkdir_loop_Some:
  "gm_get objs k = Some obj \<Longrightarrow> gm_get (mkdir_loop now i ds objs) k = Some obj"
  by (induction now i ds objs rule: mkdir_loop.induct) (auto simp: gomap_simps split: option.splits)

lemma gm_get_mkdir_loop_None:
  "gm_get objs k = None \<Longrightarrow> k \<notin> set ds \<Longrightarrow> gm_get (mkdir_loop now i ds objs) k = None"
  by (induction now i ds objs rule: mkdir_loop.induct) (auto simp: gomap_simps split: option.splits)

lemma gm_get_mkdir_loop_new:
  "gm_get objs k = None \<Longrightarrow> k \<in> set ds \<Longrightarrow>
   \<exists>t. gm_get (mkdir_loop now i ds objs) k =
        Some \<lparr>odata = [], ocontentType = [], omodTime = t, oisDir = True\<rparr>"
proof (induction now i ds objs rule: mkdir_loop.induct)
  case (2 now i d ds objs)
  show ?case
  proof (cases "k = d")
    case True
    with "2.prems" show ?thesis by (auto simp: gm_get_mkdir_loop_Some gomap_simps)
  next
    case False
    with 2 show ?thesis by (auto simp: gomap_simps split: option.splits)
  qed
qed simp

lemma mem_Mkdir_ready:
  "mem_ready b ctx [p] \<Longrightarrow>
   mem_Mkdir now ctx p b =
     (None, b\<lparr>objects := mkdir_loop now 0 (parent_dirs (normalizePath p)) (objects b)\<rparr>)"
  by (simp add: mem_Mkdir_def mem_ready_guards)

lemma mem_files_mkdir:
  "mem_files (b\<lparr>objects := mkdir_loop now i ds (objects b)\<rparr>) = mem_files b"
proof
  fix k
  show "mem_files (b\<lparr>objects := mkdir_loop now i ds (objects b)\<rparr>) k = mem_files b k"
  proof (cases "gm_get (objects b) k")
    case None
    then show ?thesis
      using gm_get_mkdir_loop_None [OF None, of ds now i]
        gm_get_mkdir_loop_new [OF None, of ds now i]
      by (cases "k \<in> set ds") (auto simp: mem_files_def)
  next
    case (Some obj)
    then show ?thesis by (simp add: mem_files_def gm_get_mkdir_loop_Some)
  qed
qed

lemma take_Suc_parts:
  assumes "plain_key p" "i < length (split_on slash p)"
  shows "plain_key (join_on slash (take (Suc i) (split_on slash p)))"
proof (rule plain_key_join)
  show "\<forall>n \<in> set (take (Suc i) (split_on slash p)). proper_name n"
    using assms(1) set_take_subset by (fastforce simp: plain_key_def)
  show "take (Suc i) (split_on slash p) \<noteq> []" using assms(2) by (cases "split_on slash p") auto
qed

lemma parent_dirs_store_key:
  "store_key p \<Longrightarrow> d \<in> set (parent_dirs p) \<Longrightarrow> store_key d"
  by (auto simp: parent_dirs_def store_key_def take_Suc_parts Let_def)

lemma parent_dirs_self: "p \<in> set (parent_dirs p)"
proof -
  have "length (split_on slash p) - 1 < length (split_on slash p)"
    using split_on_neq_Nil [of slash p] by (cases "split_on slash p") auto
  moreover have "join_on slash (take (Suc (length (split_on slash p) - 1)) (split_on slash p)) = p"
    by simp
  ultimately show ?thesis unfolding parent_dirs_def Let_def
    by (metis (no_types, lifting) atLeastLessThan_iff image_eqI list.set_map set_upt zero_le)
qed

subsection \<open>The invariant of the store and its reachable states\<close>

text \<open>
  Well-formedness: every key is a store key, directories hold no data, a closed backend holds
  nothing. The state of the system is a backend with the writers its clients have opened; a
  step is one call of an operation that can change it, with any arguments.
\<close>

definition mem_wf :: "mem_backend \<Rightarrow> bool" where
  "mem_wf b \<longleftrightarrow>
     (\<forall>k obj. gm_get (objects b) k = Some obj \<longrightarrow> store_key k \<and> (oisDir obj \<longrightarrow> odata obj = [])) \<and>
     (mclosed b \<longrightarrow> objects b = gm_empty)"

lemma mem_wfD:
  "mem_wf b \<Longrightarrow> gm_get (objects b) k = Some obj \<Longrightarrow> store_key k"
  "mem_wf b \<Longrightarrow> gm_get (objects b) k = Some obj \<Longrightarrow> oisDir obj \<Longrightarrow> odata obj = []"
  "mem_wf b \<Longrightarrow> mclosed b \<Longrightarrow> objects b = gm_empty"
  by (auto simp: mem_wf_def)

lemma mem_wf_New [simp]: "mem_wf mem_New"
  by (simp add: mem_wf_def mem_New_def)

lemma mem_wf_put:
  "mem_wf b \<Longrightarrow> \<not> mclosed b \<Longrightarrow> store_key k \<Longrightarrow> (oisDir obj \<Longrightarrow> odata obj = []) \<Longrightarrow>
   mem_wf (b\<lparr>objects := gm_put k obj (objects b)\<rparr>)"
  by (auto simp: mem_wf_def gomap_simps)

lemma mem_wf_del:
  "mem_wf b \<Longrightarrow> \<not> mclosed b \<Longrightarrow> mem_wf (b\<lparr>objects := gm_del k (objects b)\<rparr>)"
  by (auto simp: mem_wf_def gomap_simps)

lemma mem_wf_put_del:
  "mem_wf b \<Longrightarrow> \<not> mclosed b \<Longrightarrow> store_key k \<Longrightarrow> (oisDir obj \<Longrightarrow> odata obj = []) \<Longrightarrow>
   mem_wf (b\<lparr>objects := gm_del k' (gm_put k obj (objects b))\<rparr>)"
  by (auto simp: mem_wf_def gomap_simps)

lemma mem_wf_mkdir:
  assumes "mem_wf b" "\<not> mclosed b" "\<forall>d \<in> set ds. store_key d"
  shows "mem_wf (b\<lparr>objects := mkdir_loop now i ds (objects b)\<rparr>)"
proof -
  have "store_key k \<and> (oisDir obj \<longrightarrow> odata obj = [])"
    if "gm_get (mkdir_loop now i ds (objects b)) k = Some obj" for k obj
  proof (cases "gm_get (objects b) k")
    case None
    then show ?thesis
      using that assms(3) gm_get_mkdir_loop_None [OF None, of ds now i]
        gm_get_mkdir_loop_new [OF None, of ds now i]
      by (cases "k \<in> set ds") auto
  next
    case (Some obj')
    then show ?thesis using that assms(1) gm_get_mkdir_loop_Some mem_wfD by fastforce
  qed
  then show ?thesis using assms(2) by (simp add: mem_wf_def)
qed

record mem_sys =
  sys_backend :: mem_backend
  sys_writers :: "memoryWriter list"

definition mem_sys_init :: mem_sys where
  "mem_sys_init = \<lparr>sys_backend = mem_New, sys_writers = []\<rparr>"

inductive mem_step :: "mem_sys \<Rightarrow> mem_sys \<Rightarrow> bool" where
  open_writer: "mem_NewWriter ctx p opts (sys_backend s) = Inr w \<Longrightarrow>
    mem_step s (s\<lparr>sys_writers := sys_writers s @ [w]\<rparr>)"
| write_chunk: "i < length (sys_writers s) \<Longrightarrow>
    mem_step s (s\<lparr>sys_writers := (sys_writers s)[i := snd (mw_Write c (sys_writers s ! i))]\<rparr>)"
| close_writer: "i < length (sys_writers s) \<Longrightarrow>
    mw_Close now (sys_writers s ! i) (sys_backend s) = (err, w, b) \<Longrightarrow>
    mem_step s (s\<lparr>sys_backend := b, sys_writers := (sys_writers s)[i := w]\<rparr>)"
| do_delete: "mem_step s (s\<lparr>sys_backend := snd (mem_Delete ctx p (sys_backend s))\<rparr>)"
| do_mkdir: "mem_step s (s\<lparr>sys_backend := snd (mem_Mkdir nows ctx p (sys_backend s))\<rparr>)"
| do_rmdir: "mem_step s (s\<lparr>sys_backend := snd (mem_Rmdir ctx p (sys_backend s))\<rparr>)"
| do_copy: "mem_step s (s\<lparr>sys_backend := snd (mem_Copy now ctx p q (sys_backend s))\<rparr>)"
| do_move: "mem_step s (s\<lparr>sys_backend := snd (mem_Move now ctx p q (sys_backend s))\<rparr>)"
| do_close: "mem_step s (s\<lparr>sys_backend := snd (mem_Close (sys_backend s))\<rparr>)"
| do_clear: "mem_step s (s\<lparr>sys_backend := mem_Clear (sys_backend s)\<rparr>)"

inductive mem_reachable :: "mem_sys \<Rightarrow> bool" where
  init: "mem_reachable mem_sys_init"
| step: "mem_reachable s \<Longrightarrow> mem_step s t \<Longrightarrow> mem_reachable t"

lemma mem_guard_cases:
  "first_error [mem_checkClosed b, ctx 0, mem_validatePath p] = None \<Longrightarrow>
   \<not> mclosed b \<and> store_key (normalizePath p)"
  "first_error [mem_checkClosed b, ctx 0, mem_validatePath p, mem_validatePath q] = None \<Longrightarrow>
   \<not> mclosed b \<and> store_key (normalizePath p) \<and> store_key (normalizePath q)"
  by (auto simp: first_error_None normalizePath_store_key)

lemma mem_wf_Delete: "mem_wf b \<Longrightarrow> mem_wf (snd (mem_Delete ctx p b))"
  using mem_guard_cases(1) [of b ctx p]
  by (auto simp: mem_Delete_def mem_wf_del split: option.splits)

lemma mem_wf_Mkdir: "mem_wf b \<Longrightarrow> mem_wf (snd (mem_Mkdir now ctx p b))"
  using mem_guard_cases(1) [of b ctx p] parent_dirs_store_key
  by (auto simp: mem_Mkdir_def intro: mem_wf_mkdir split: option.splits)

lemma mem_wf_Rmdir: "mem_wf b \<Longrightarrow> mem_wf (snd (mem_Rmdir ctx p b))"
  using mem_guard_cases(1) [of b ctx p]
  by (auto simp: mem_Rmdir_def mem_wf_del split: option.splits)

lemma mem_wf_Copy: "mem_wf b \<Longrightarrow> mem_wf (snd (mem_Copy now ctx p q b))"
  using mem_guard_cases(2) [of b ctx p q]
  by (auto simp: mem_Copy_def intro: mem_wf_put split: option.splits)

lemma mem_wf_Move: "mem_wf b \<Longrightarrow> mem_wf (snd (mem_Move now ctx p q b))"
  using mem_guard_cases(2) [of b ctx p q]
  by (auto simp: mem_Move_def intro: mem_wf_put_del split: option.splits)

lemma mem_wf_Close: "mem_wf (snd (mem_Close b))"
  by (simp add: mem_Close_def mem_wf_def)

lemma mem_wf_Clear: "mem_wf (mem_Clear b)"
  by (simp add: mem_Clear_def mem_wf_def)

lemmas mem_wf_ops = mem_wf_Delete mem_wf_Mkdir mem_wf_Rmdir mem_wf_Copy mem_wf_Move
  mem_wf_Close mem_wf_Clear

lemma mem_wf_mw_Close:
  "mem_wf b \<Longrightarrow> store_key (mwPath w) \<Longrightarrow> mw_Close now w b = (err, w', b') \<Longrightarrow>
   mem_wf b' \<and> mwPath w' = mwPath w"
  by (auto simp: mw_Close_def Let_def intro: mem_wf_put split: if_splits)

lemma mwPath_mw_Write [simp]: "mwPath (snd (mw_Write c w)) = mwPath w"
  by (simp add: mw_Write_def)

lemma mem_step_wf:
  "mem_step s t \<Longrightarrow> mem_wf (sys_backend s) \<Longrightarrow> \<forall>w \<in> set (sys_writers s). store_key (mwPath w) \<Longrightarrow>
   mem_wf (sys_backend t) \<and> (\<forall>w \<in> set (sys_writers t). store_key (mwPath w))"
proof (induction rule: mem_step.induct)
  case (open_writer ctx p opts s w)
  then have "mwPath w = normalizePath p \<and> store_key (normalizePath p)"
    using mem_guard_cases(1) [of "sys_backend s" ctx p]
    by (auto simp: mem_NewWriter_def split: option.splits)
  with open_writer show ?case by auto
next
  case (write_chunk i s c)
  have "\<forall>w \<in> set ((sys_writers s)[i := snd (mw_Write c (sys_writers s ! i))]). store_key (mwPath w)"
    by (rule list_update_ball) (use write_chunk in simp_all)
  with write_chunk show ?case by simp
next
  case (close_writer i s now err w b)
  then have "mem_wf b \<and> store_key (mwPath w)"
    using mem_wf_mw_Close [of "sys_backend s" "sys_writers s ! i" now err w b] by simp
  moreover have "\<forall>v \<in> set ((sys_writers s)[i := w]). store_key (mwPath v)"
    by (rule list_update_ball) (use close_writer \<open>mem_wf b \<and> store_key (mwPath w)\<close> in simp_all)
  ultimately show ?case by simp
qed (simp_all add: mem_wf_ops)

lemma mem_reachable_wf:
  "mem_reachable s \<Longrightarrow>
   mem_wf (sys_backend s) \<and> (\<forall>w \<in> set (sys_writers s). store_key (mwPath w))"
proof (induction rule: mem_reachable.induct)
  case init
  show ?case by (simp add: mem_sys_init_def)
next
  case (step s t)
  then show ?case using mem_step_wf by blast
qed

section \<open>Properties of the memory backend\<close>

text \<open>C18: A writer that is opened on an open backend with a valid path, is written any chunks and is closed
  stores the concatenation of the chunks under the normalised path and changes no other file; a
  reader opened afterwards delivers the byte range of it that its options select.\<close>

theorem memory_write_then_read:
  assumes "mem_ready b ctx [p]"
  shows "\<exists>w b'. mem_NewWriter ctx p opts b = Inr w \<and>
    mw_Close now (mw_Write_all chunks w) b = (None, (mw_Write_all chunks w)\<lparr>mwClosed := True\<rparr>, b') \<and>
    mem_files b' = (mem_files b)(normalizePath p := Some (concat chunks)) \<and>
    mem_NewReader ctx p ropts b' =
      Inr \<lparr>mrRest = read_range (ApplyReaderOptions ropts) (concat chunks), mrClosed = False\<rparr>"
proof -
  define w where "w = \<lparr>mwPath = normalizePath p, mwBuffer = [],
    mwContentType = wcContentType (ApplyWriterOptions opts), mwClosed = False\<rparr>"
  define obj where "obj = \<lparr>odata = concat chunks, ocontentType = mwContentType w, omodTime = now, oisDir = False\<rparr>"
  define b' where "b' = b\<lparr>objects := gm_put (normalizePath p) obj (objects b)\<rparr>"
  have w: "mem_NewWriter ctx p opts b = Inr w" by (simp add: mem_NewWriter_ready [OF assms] w_def)
  have c: "mw_Close now (mw_Write_all chunks w) b = (None, (mw_Write_all chunks w)\<lparr>mwClosed := True\<rparr>, b')"
    using assms by (simp add: mw_Close_open mw_Write_all_open w_def b'_def obj_def mem_ready_def)
  have f: "mem_files b' = (mem_files b)(normalizePath p := Some (concat chunks))"
    by (simp add: b'_def mem_files_put obj_def)
  have "mem_ready b' ctx [p]" using assms by (simp add: mem_ready_def b'_def)
  from mem_NewReader_ready [OF this, of ropts] w c f show ?thesis by auto
qed

theorem memory_write_then_read_witness:
  "\<exists>w b'. mem_NewWriter background ''a/./b'' [] mem_New = Inr w \<and>
    mw_Close 7 (mw_Write_all [[1, 2], [3]] w) mem_New =
      (None, (mw_Write_all [[1, 2], [3]] w)\<lparr>mwClosed := True\<rparr>, b') \<and>
    mem_files b' = (mem_files mem_New)(normalizePath ''a/./b'' := Some (concat [[1, 2], [3]])) \<and>
    mem_NewReader background ''a/./b'' [WithOffset 1] b' =
      Inr \<lparr>mrRest = read_range (ApplyReaderOptions [WithOffset 1]) (concat [[1, 2], [3]]), mrClosed = False\<rparr>"
proof (rule memory_write_then_read)
  have "mem_validatePath ''a/./b'' = None" by code_simp
  then show "mem_ready mem_New background [''a/./b'']" by (simp add: mem_ready_def mem_New_def)
qed



text \<open>On an open backend and a live context \<open>List\<close> returns, sorted and without duplicates, exactly the
  files whose key starts with the normalised prefix (as a string: \<open>a\<close> also lists \<open>ab\<close>).\<close>

theorem memory_list_exact:
  assumes "\<not> mclosed b" "\<And>i. ctx i = None"
  shows "\<exists>ps. mem_List ctx pre b = Inr ps \<and> sorted ps \<and> distinct ps \<and>
    (\<forall>p. p \<in> set ps \<longleftrightarrow> mem_files b p \<noteq> None \<and> has_prefix p (normalizePath pre))"
  using mem_List_live [of b ctx, OF assms] mem_listing_sorted mem_listing_set by blast

theorem memory_list_exact_witness:
  "\<exists>ps. mem_List background ''a'' (snd (mem_Mkdir (\<lambda>i. 1) background ''ab'' mem_New)) = Inr ps \<and> sorted ps \<and> distinct ps \<and>
    (\<forall>p. p \<in> set ps \<longleftrightarrow> mem_files (snd (mem_Mkdir (\<lambda>i. 1) background ''ab'' mem_New)) p \<noteq> None \<and>
       has_prefix p (normalizePath ''a''))"
  by (rule memory_list_exact) (simp_all add: mem_Mkdir_def mem_New_def split: option.splits)

text \<open>\<open>Move\<close> of a file stores its data under the destination and removes the source. When both paths
  normalise to the same key the removal comes last: the object is gone.\<close>

theorem memory_move:
  assumes "mem_ready b ctx [src, dst]" "mem_files b (normalizePath src) = Some d"
  shows "fst (mem_Move now ctx src dst b) = None \<and>
    mem_files (snd (mem_Move now ctx src dst b)) =
      (mem_files b)(normalizePath dst := Some d, normalizePath src := None) \<and>
    (normalizePath src = normalizePath dst \<longrightarrow>
       mem_files (snd (mem_Move now ctx src dst b)) (normalizePath dst) = None)"
proof -
  obtain obj where obj: "gm_get (objects b) (normalizePath src) = Some obj" "\<not> oisDir obj" "odata obj = d"
    using assms(2) by (auto simp: mem_files_Some)
  let ?new = "\<lparr>odata = odata obj, ocontentType = ocontentType obj, omodTime = now, oisDir = False\<rparr>"
  have "mem_Move now ctx src dst b =
      (None, b\<lparr>objects := gm_del (normalizePath src) (gm_put (normalizePath dst) ?new (objects b))\<rparr>)"
    using assms(1) obj by (simp add: mem_Move_def mem_ready_guards)
  then show ?thesis by (simp add: mem_files_move obj(3))
qed

definition witness_backend :: mem_backend where
  "witness_backend =
     \<lparr>objects = gm_put ''a'' \<lparr>odata = [5], ocontentType = [], omodTime = 1, oisDir = False\<rparr> gm_empty,
      mclosed = False\<rparr>"

lemma witness_backend_files: "mem_files witness_backend = [''a'' \<mapsto> [5]]"
  by (auto simp: mem_files_def witness_backend_def gomap_simps)

theorem memory_move_witness:
  "fst (mem_Move 2 background ''a'' ''./a'' witness_backend) = None \<and>
   mem_files (snd (mem_Move 2 background ''a'' ''./a'' witness_backend)) ''a'' = None"
proof -
  have "mem_validatePath ''a'' = None" "mem_validatePath ''./a'' = None" by code_simp+
  then have r: "mem_ready witness_backend background [''a'', ''./a'']"
    by (simp add: mem_ready_def witness_backend_def)
  have n: "normalizePath ''a'' = ''a''" "normalizePath ''./a'' = ''a''" by code_simp+
  then have "mem_files witness_backend (normalizePath ''a'') = Some [5]"
    by (simp add: witness_backend_files)
  from memory_move [OF r this, of 2] show ?thesis using n by simp
qed

text \<open>A path that passes validation cannot leave the store: its key is the root or a relative path of
  proper names, so no component is empty, a dot or two dots, and normalising it again changes
  nothing.\<close>

theorem memory_paths_confined:
  assumes "mem_validatePath p = None"
  shows "store_key (normalizePath p) \<and> normalizePath (normalizePath p) = normalizePath p \<and>
    dotdot \<notin> set (split_on slash (normalizePath p)) \<and> \<not> is_rooted (normalizePath p)"
proof -
  have k: "store_key (normalizePath p)" using normalizePath_store_key [OF assms] .
  moreover have "dotdot \<notin> set (split_on slash (normalizePath p)) \<and> \<not> is_rooted (normalizePath p)"
  proof (cases "plain_key (normalizePath p)")
    case True
    have "\<not> proper_name dotdot" by (simp add: proper_name_def)
    with True show ?thesis using plain_key_not_rooted [OF True] unfolding plain_key_def by blast
  next
    case False
    with k have "normalizePath p = []" by (simp add: store_key_def)
    then show ?thesis by (simp add: is_rooted_def has_prefix_def)
  qed
  ultimately show ?thesis by simp
qed

theorem memory_paths_confined_witness:
  "store_key (normalizePath ''/a//b/../c'') \<and>
   normalizePath (normalizePath ''/a//b/../c'') = normalizePath ''/a//b/../c'' \<and>
   dotdot \<notin> set (split_on slash (normalizePath ''/a//b/../c'')) \<and> \<not> is_rooted (normalizePath ''/a//b/../c'')"
proof (rule memory_paths_confined)
  show "mem_validatePath ''/a//b/../c'' = None" by code_simp
qed

text \<open>The guarded slicing of \<open>NewReader\<close> is the window of the data that starts at the offset and has at
  most the limit's length; a zero or negative offset or limit does not cut anything, and no
  offset or limit beyond the data is an error.\<close>

theorem reader_window:
  "read_range config bs =
     (if rcLimit config > 0 then take (nat (rcLimit config)) (drop (nat (rcOffset config)) bs)
      else drop (nat (rcOffset config)) bs)"
  by (auto simp: read_range_def Let_def)

text \<open>After \<open>Close\<close> every operation that takes a path is refused with \<open>ErrBackendClosed\<close> and changes
  nothing, and closing a writer that was still open is refused as well.\<close>

theorem memory_closed_refuses:
  assumes "mclosed b"
  shows "mem_NewWriter ctx p opts b = Inl ErrBackendClosed \<and> mem_NewReader ctx p ropts b = Inl ErrBackendClosed \<and>
    mem_Exists ctx p b = Inl ErrBackendClosed \<and> mem_List ctx p b = Inl ErrBackendClosed \<and>
    mem_Stat ctx p b = Inl ErrBackendClosed \<and> mem_Delete ctx p b = (Some ErrBackendClosed, b) \<and>
    mem_Mkdir nows ctx p b = (Some ErrBackendClosed, b) \<and> mem_Rmdir ctx p b = (Some ErrBackendClosed, b) \<and>
    mem_Copy now ctx p q b = (Some ErrBackendClosed, b) \<and> mem_Move now ctx p q b = (Some ErrBackendClosed, b) \<and>
    (\<not> mwClosed w \<longrightarrow> mw_Close now w b = (Some ErrBackendClosed, w\<lparr>mwClosed := True\<rparr>, b))"
  using assms
  by (simp add: mem_NewWriter_def mem_NewReader_def mem_Exists_def mem_List_def mem_Stat_def mem_Delete_def
      mem_Mkdir_def mem_Rmdir_def mem_Copy_def mem_Move_def mw_Close_def mem_checkClosed_def)

theorem memory_closed_refuses_witness:
  "mem_Delete background ''a'' (snd (mem_Close mem_New)) = (Some ErrBackendClosed, snd (mem_Close mem_New))"
  using memory_closed_refuses [of "snd (mem_Close mem_New)" background "''a''" "[]" "[]" "\<lambda>i. 0" 0 "''b''"
      "\<lparr>mwPath = [], mwBuffer = [], mwContentType = [], mwClosed = True\<rparr>"]
  by (simp add: mem_Close_def)

text \<open>\<open>Mkdir\<close> makes every missing directory on the way: afterwards each non-empty leading part of the
  key exists, what existed before is kept, and the files are the same.\<close>

theorem memory_mkdir:
  assumes "mem_ready b ctx [p]"
  shows "fst (mem_Mkdir nows ctx p b) = None \<and>
    (\<forall>d \<in> set (parent_dirs (normalizePath p)).
       gm_get (objects (snd (mem_Mkdir nows ctx p b))) d \<noteq> None \<and>
       (gm_get (objects b) d = None \<longrightarrow>
          (\<exists>obj. gm_get (objects (snd (mem_Mkdir nows ctx p b))) d = Some obj \<and> oisDir obj))) \<and>
    (\<forall>k obj. gm_get (objects b) k = Some obj \<longrightarrow>
       gm_get (objects (snd (mem_Mkdir nows ctx p b))) k = Some obj) \<and>
    mem_files (snd (mem_Mkdir nows ctx p b)) = mem_files b"
proof -
  note e = mem_Mkdir_ready [OF assms, of nows]
  let ?objs = "mkdir_loop nows 0 (parent_dirs (normalizePath p)) (objects b)"
  have new: "\<exists>obj. gm_get ?objs d = Some obj \<and> oisDir obj"
    if "d \<in> set (parent_dirs (normalizePath p))" "gm_get (objects b) d = None" for d
    using gm_get_mkdir_loop_new [OF that(2,1), of nows 0] by auto
  have old: "gm_get ?objs k = Some obj" if "gm_get (objects b) k = Some obj" for k obj
    using gm_get_mkdir_loop_Some [OF that] .
  have "gm_get ?objs d \<noteq> None" if "d \<in> set (parent_dirs (normalizePath p))" for d
    using new [OF that] old by (cases "gm_get (objects b) d") auto
  with new old show ?thesis unfolding e fst_conv snd_conv mem_files_mkdir by simp
qed

theorem memory_mkdir_witness:
  "fst (mem_Mkdir (\<lambda>i. 1) background ''a/b'' mem_New) = None"
proof -
  have "mem_validatePath ''a/b'' = None" by code_simp
  then have "mem_ready mem_New background [''a/b'']" by (simp add: mem_ready_def mem_New_def)
  from memory_mkdir [OF this, of "\<lambda>i. 1"] show ?thesis by blast
qed

end
