(* ===== verification/BackendInterface.thy ===== *)
theory BackendInterface
  imports ObjectTypes GoPath
begin

section \<open>The interfaces \<open>Backend\<close> and \<open>ExtendedBackend\<close>\<close>

text \<open>
  What the copy helpers, the sync engine and the multi-writer call
  (\<open>object/interfaces.go\<close>, \<open>object/extended.go\<close>). A backend value is a record of its methods over
  the state \<open>'w\<close> of everything outside the caller (the stores, the open writers, the clock); the
  test \<open>src == dst\<close> of two backend values is equality of \<open>bkId\<close>. An \<open>ExtendedBackend\<close> is a
  backend with the extended methods, which a plain one does not have (the type assertion of
  \<open>AsExtended\<close>). A reader is the sequence of chunks its \<open>Read\<close> calls deliver and the error that ends
  it (\<open>None\<close> is \<open>io.EOF\<close>); a writer is its two methods.

  The locale \<open>stores\<close> states the contract that \<open>interfaces.go\<close> promises for a family of backends
  over one world, in terms of the files each holds; \<open>extended_stores\<close> adds the extended methods.
\<close>

record Stream =
  sChunks :: "bytes list"
  sErr :: "object_error option"

record 'w WriteCloser =
  wrWrite :: "bytes \<Rightarrow> 'w \<Rightarrow> object_error option \<times> 'w"
  wrClose :: "'w \<Rightarrow> object_error option \<times> 'w"

record 'w ExtendedOps =
  exStat :: "path \<Rightarrow> 'w \<Rightarrow> ObjectInfo res"
  exMkdir :: "path \<Rightarrow> 'w \<Rightarrow> object_error option \<times> 'w"
  exRmdir :: "path \<Rightarrow> 'w \<Rightarrow> object_error option \<times> 'w"
  exCopy :: "path \<Rightarrow> path \<Rightarrow> 'w \<Rightarrow> object_error option \<times> 'w"
  exMove :: "path \<Rightarrow> path \<Rightarrow> 'w \<Rightarrow> object_error option \<times> 'w"
  exFeatures :: Features

record 'w Backend =
  bkId :: nat
  bkNewWriter :: "path \<Rightarrow> WriterOption list \<Rightarrow> 'w \<Rightarrow> 'w WriteCloser res \<times> 'w"
  bkNewReader :: "path \<Rightarrow> ReaderOption list \<Rightarrow> 'w \<Rightarrow> Stream res"
  bkExists :: "path \<Rightarrow> 'w \<Rightarrow> bool res"
  bkDelete :: "path \<Rightarrow> 'w \<Rightarrow> object_error option \<times> 'w"
  bkList :: "path \<Rightarrow> 'w \<Rightarrow> path list res"
  bkExt :: "'w ExtendedOps option"

text \<open>\<open>AsExtended\<close>: the extended methods and true, or nothing and false.\<close>

definition AsExtended :: "'w Backend \<Rightarrow> 'w ExtendedOps option" where
  "AsExtended b = bkExt b"

text \<open>\<open>MustExtended\<close> panics where \<open>AsExtended\<close> fails.\<close>

definition MustExtended :: "'w Backend \<Rightarrow> string + 'w ExtendedOps" where
  "MustExtended b =
     (case bkExt b of
        None \<Rightarrow> Inl ''omnistorage: backend does not implement ExtendedBackend''
      | Some ext \<Rightarrow> Inr ext)"

subsection \<open>\<open>io.Copy\<close>\<close>

text \<open>
  \<open>io.Copy(w, r)\<close> writes every chunk the reader delivers until a write fails, the reader ends or
  the reader fails; it returns the bytes written and the error, nil at the reader's end.
\<close>

fun io_copy_loop ::
  "'w WriteCloser \<Rightarrow> bytes list \<Rightarrow> nat \<Rightarrow> 'w \<Rightarrow> (nat \<times> object_error option) \<times> 'w" where
  "io_copy_loop wr [] n w = ((n, None), w)"
| "io_copy_loop wr (c # cs) n w =
     (case wrWrite wr c w of
        (Some e, w') \<Rightarrow> ((n, Some e), w')
      | (None, w') \<Rightarrow> io_copy_loop wr cs (n + length c) w')"

definition io_copy :: "'w WriteCloser \<Rightarrow> Stream \<Rightarrow> 'w \<Rightarrow> (nat \<times> object_error option) \<times> 'w" where
  "io_copy wr s w =
     (case io_copy_loop wr (sChunks s) 0 w of
        ((n, Some e), w') \<Rightarrow> ((n, Some e), w')
      | ((n, None), w') \<Rightarrow> ((n, sErr s), w'))"

text \<open>Reading with a buffer of \<open>n\<close> bytes delivers the data in chunks of \<open>n\<close>.\<close>

function chunk_bytes :: "nat \<Rightarrow> bytes \<Rightarrow> bytes list" where
  "chunk_bytes n bs = (if n = 0 \<or> bs = [] then [] else take n bs # chunk_bytes n (drop n bs))"
  by pat_completeness auto
termination
  by (relation "measure (\<lambda>(n, bs). length bs)") auto

declare chunk_bytes.simps [simp del]

lemma chunk_bytes_Nil [simp]: "chunk_bytes n [] = []"
  by (simp add: chunk_bytes.simps)

lemma concat_chunk_bytes [simp]: "n > 0 \<Longrightarrow> concat (chunk_bytes n bs) = bs"
proof (induction n bs rule: chunk_bytes.induct)
  case (1 n bs)
  show ?case
  proof (cases "bs = []")
    case False
    with 1 show ?thesis by (simp add: chunk_bytes.simps [of n bs])
  qed simp
qed

text \<open>\<open>io.Copy\<close> reads with a buffer of 32 kB.\<close>

definition io_copy_buffer :: nat where
  "io_copy_buffer = 32 * 1024"

lemma io_copy_buffer_pos [simp]: "io_copy_buffer > 0"
  by (simp add: io_copy_buffer_def)

subsection \<open>The contract of a family of stores\<close>

text \<open>
  \<open>files i w\<close> are the files of backend \<open>i\<close> in the world \<open>w\<close>; \<open>ok w\<close> says that the world is in
  order (the backends open). \<open>key p\<close> is a path that the store takes for a file, \<open>dirp p\<close> one that it
  takes as the base of a tree. A write that is opened, fed any chunks and closed stores their concatenation under the path and changes nothing else; reading gives the stored
  bytes; deleting removes the key. \<open>under i base p\<close> is the backend's reading of "\<open>p\<close> has the prefix
  \<open>base\<close>".
\<close>

locale stores =
  fixes B :: "nat \<Rightarrow> 'w Backend"
    and files :: "nat \<Rightarrow> 'w \<Rightarrow> path \<Rightarrow> bytes option"
    and ok :: "'w \<Rightarrow> bool"
    and key :: "path \<Rightarrow> bool"
    and dirp :: "path \<Rightarrow> bool"
    and under :: "nat \<Rightarrow> path \<Rightarrow> path \<Rightarrow> bool"
  assumes id_law: "bkId (B i) = i"
    and key_plain: "key p \<Longrightarrow> plain_key p"
    and dir_plain: "dirp a \<Longrightarrow> plain_key a"
    and key_below: "dirp b \<Longrightarrow> plain_key q \<Longrightarrow> key q \<or> (\<exists>a. dirp a \<and> key (a @ slash # q)) \<Longrightarrow> key (b @ slash # q)"
    and key_law: "ok w \<Longrightarrow> files i w p = Some d \<Longrightarrow> key p"
    and read_law: "ok w \<Longrightarrow> files i w p = Some d \<Longrightarrow>
      \<exists>s. bkNewReader (B i) p [] w = Inr s \<and> concat (sChunks s) = d \<and> sErr s = None"
    and read_missing_law: "ok w \<Longrightarrow> key p \<Longrightarrow> files i w p = None \<Longrightarrow>
      bkNewReader (B i) p [] w = Inl ErrNotFound"
    and write_law: "ok w \<Longrightarrow> key p \<Longrightarrow>
      \<exists>wr w1 w2 w3. bkNewWriter (B i) p opts w = (Inr wr, w1) \<and>
        io_copy_loop wr cs n w1 = ((n + length (concat cs), None), w2) \<and>
        wrClose wr w2 = (None, w3) \<and> ok w3 \<and>
        files i w3 = (files i w)(p := Some (concat cs)) \<and>
        (\<forall>j. j \<noteq> i \<longrightarrow> files j w3 = files j w)"
    and exists_law: "ok w \<Longrightarrow> key p \<Longrightarrow>
      bkExists (B i) p w = Inr (files i w p \<noteq> None)"
    and delete_law: "ok w \<Longrightarrow> key p \<Longrightarrow>
      \<exists>w'. bkDelete (B i) p w = (None, w') \<and> ok w' \<and>
        files i w' = (files i w)(p := None) \<and> (\<forall>j. j \<noteq> i \<longrightarrow> files j w' = files j w)"
    and list_law: "ok w \<Longrightarrow> base = [] \<or> dirp base \<Longrightarrow>
      \<exists>ps. bkList (B i) base w = Inr ps \<and> distinct ps \<and>
        set ps = {p. files i w p \<noteq> None \<and> under i base p}"
    and under_all: "under i [] p"
    and under_below: "dirp base \<Longrightarrow> plain_key r \<Longrightarrow> under i base (base @ slash # r)"
begin

lemma id_eq_iff [simp]: "bkId (B i) = bkId (B j) \<longleftrightarrow> i = j"
  by (simp add: id_law)

lemma io_copy_stores:
  assumes "ok w" "key p" "sErr s = None"
  shows "\<exists>wr w1 w2 w3. bkNewWriter (B i) p opts w = (Inr wr, w1) \<and>
    io_copy wr s w1 = ((length (concat (sChunks s)), None), w2) \<and> wrClose wr w2 = (None, w3) \<and>
    ok w3 \<and> files i w3 = (files i w)(p := Some (concat (sChunks s))) \<and>
    (\<forall>j. j \<noteq> i \<longrightarrow> files j w3 = files j w)"
  using write_law [OF assms(1,2), of i opts "sChunks s" 0] assms(3)
  unfolding io_copy_def by fastforce

end

text \<open>The extended methods of \<open>ExtendedBackend\<close>: metadata, server-side copy and move.\<close>

locale extended_stores = stores +
  fixes ext :: "nat \<Rightarrow> 'a ExtendedOps"
  assumes ext_law: "bkExt (B i) = Some (ext i)"
    and stat_law: "ok w \<Longrightarrow> files i w p = Some d \<Longrightarrow>
      \<exists>info. exStat (ext i) p w = Inr info \<and> ObjectSize info = int (length d) \<and>
        \<not> ObjectIsDir info \<and> ObjectPath info = p"
    and copy_law: "ok w \<Longrightarrow> key p \<Longrightarrow> key q \<Longrightarrow> p \<noteq> q \<Longrightarrow> files i w p = Some d \<Longrightarrow>
      \<exists>w'. exCopy (ext i) p q w = (None, w') \<and> ok w' \<and>
        files i w' = (files i w)(q := Some d) \<and> (\<forall>j. j \<noteq> i \<longrightarrow> files j w' = files j w)"
    and copy_missing_law: "ok w \<Longrightarrow> key p \<Longrightarrow> key q \<Longrightarrow> files i w p = None \<Longrightarrow>
      \<exists>w'. exCopy (ext i) p q w = (Some ErrNotFound, w') \<and> ok w' \<and>
        (\<forall>j. files j w' = files j w)"
    and move_law: "ok w \<Longrightarrow> key p \<Longrightarrow> key q \<Longrightarrow> p \<noteq> q \<Longrightarrow> files i w p = Some d \<Longrightarrow>
      \<exists>w'. exMove (ext i) p q w = (None, w') \<and> ok w' \<and>
        files i w' = (files i w)(q := Some d, p := None) \<and>
        (\<forall>j. j \<noteq> i \<longrightarrow> files j w' = files j w)"
    and features_law: "fCopy (exFeatures (ext i))" "fMove (exFeatures (ext i))"

end
