(* ===== verification/Hashing.thy ===== *)
theory Hashing
  imports ObjectTypes
begin

section \<open>Content hashes (\<open>object/hash.go\<close>)\<close>

text \<open>
  The digests themselves (MD5, SHA-1, SHA-256, CRC-32C) are a parameter \<open>digest\<close> of the model:
  a function from the hash type and the bytes to the sum. What the code adds is modelled: which
  types are supported, the hexadecimal rendering (written twice in the code, by
  \<open>hex.EncodeToString\<close> and by \<open>HashBytesFromSum\<close> of \<open>object/copy.go\<close>), and hash sets with their
  comparison on common types.
\<close>

type_synonym digest = "HashType \<Rightarrow> bytes \<Rightarrow> bytes"

text \<open>\<open>NewHash\<close> returns nil for a type outside the four it knows.\<close>

definition NewHash :: "digest \<Rightarrow> HashType \<Rightarrow> (bytes \<Rightarrow> bytes) option" where
  "NewHash digest t =
     (if t = HashMD5 then Some (digest HashMD5)
      else if t = HashSHA1 then Some (digest HashSHA1)
      else if t = HashSHA256 then Some (digest HashSHA256)
      else if t = HashCRC32C then Some (digest HashCRC32C)
      else None)"

definition hexChars :: string where
  "hexChars = ''0123456789abcdef''"

text \<open>\<open>HashBytesFromSum\<close>: two digits for every byte, the high half first.\<close>

fun HashBytesFromSum :: "bytes \<Rightarrow> string" where
  "HashBytesFromSum [] = []"
| "HashBytesFromSum (b # bs) =
     hexChars ! unat (drop_bit 4 b) # hexChars ! unat (and b 0x0f) # HashBytesFromSum bs"

text \<open>\<open>hex.EncodeToString\<close> of the standard library: the digits of \<open>b div 16\<close> and \<open>b mod 16\<close>.\<close>

definition hex_EncodeToString :: "bytes \<Rightarrow> string" where
  "hex_EncodeToString bs =
     concat (map (\<lambda>b. [hexChars ! (unat b div 16), hexChars ! (unat b mod 16)]) bs)"

text \<open>\<open>HashReader\<close> over the data a reader delivers and the error it ends with.\<close>

definition HashReader :: "digest \<Rightarrow> bytes \<times> object_error option \<Rightarrow> HashType \<Rightarrow> string res" where
  "HashReader digest r t =
     (case NewHash digest t of
        None \<Rightarrow> Inl ErrNotSupported
      | Some h \<Rightarrow>
          (case snd r of
             Some e \<Rightarrow> Inl e
           | None \<Rightarrow> Inr (hex_EncodeToString (h (fst r)))))"

definition HashBytes :: "digest \<Rightarrow> bytes \<Rightarrow> HashType \<Rightarrow> string" where
  "HashBytes digest data t =
     (case NewHash digest t of None \<Rightarrow> [] | Some h \<Rightarrow> hex_EncodeToString (h data))"

lemma NewHash_iff: "NewHash digest t \<noteq> None \<longleftrightarrow> t \<in> set SupportedHashes"
  by (auto simp: NewHash_def SupportedHashes_def)

lemma NewHash_Some: "t \<in> set SupportedHashes \<Longrightarrow> NewHash digest t = Some (digest t)"
  by (auto simp: NewHash_def SupportedHashes_def)

lemma unat_high_nibble: "unat (drop_bit 4 (b :: byte)) = unat b div 16"
  by (simp add: drop_bit_eq_div unat_div_distrib)

lemma unat_low_nibble: "unat (and (b :: byte) 0x0f) = unat b mod 16"
proof -
  have "(0x0f :: byte) = mask 4" by (simp add: mask_eq_exp_minus_1)
  then have "and b 0x0f = take_bit 4 b" by (simp add: take_bit_eq_mask)
  then show ?thesis by (simp add: take_bit_eq_mod unat_mod_distrib)
qed

lemma HashBytesFromSum_hex: "HashBytesFromSum bs = hex_EncodeToString bs"
  by (induction bs) (simp_all add: hex_EncodeToString_def unat_high_nibble unat_low_nibble)

lemma length_hex [simp]: "length (hex_EncodeToString bs) = 2 * length bs"
  by (induction bs) (simp_all add: hex_EncodeToString_def)

lemma hexChars_nth_inj:
  assumes "i < 16" "j < 16"
  shows "hexChars ! i = hexChars ! j \<longleftrightarrow> i = j"
proof -
  have "length hexChars = 16" "distinct hexChars" by (simp_all add: hexChars_def)
  with assms show ?thesis by (simp add: nth_eq_iff_index_eq)
qed

lemma hex_inj: "hex_EncodeToString bs = hex_EncodeToString cs \<longleftrightarrow> bs = cs"
proof (induction bs arbitrary: cs)
  case Nil
  then show ?case by (cases cs) (simp_all add: hex_EncodeToString_def)
next
  case (Cons b bs)
  show ?case
  proof (cases cs)
    case Nil
    then show ?thesis by (simp add: hex_EncodeToString_def)
  next
    case (Cons c cs')
    have lt: "unat b div 16 < 16" "unat c div 16 < 16"
      using unsigned_less [of b, where 'a = nat] unsigned_less [of c, where 'a = nat] by simp_all
    have bc: "(unat b div 16 = unat c div 16 \<and> unat b mod 16 = unat c mod 16) = (b = c)"
      by (metis mult_div_mod_eq word_unat_eq_iff)
    have "hex_EncodeToString (b # bs) = hex_EncodeToString (c # cs') \<longleftrightarrow>
        (unat b div 16 = unat c div 16 \<and> unat b mod 16 = unat c mod 16) \<and>
        hex_EncodeToString bs = hex_EncodeToString cs'"
      using lt by (auto simp: hex_EncodeToString_def hexChars_nth_inj)
    with Cons Cons.IH [of cs'] show ?thesis by (simp only: bc list.inject)
  qed
qed

subsection \<open>Hash sets\<close>

text \<open>A hash set is a map that may be nil (\<open>None\<close>).\<close>

type_synonym HashSet = "(HashType, string) gomap option"

definition hs_Get :: "HashSet \<Rightarrow> HashType \<Rightarrow> string" where
  "hs_Get hs t =
     (case hs of None \<Rightarrow> [] | Some m \<Rightarrow> (case gm_get m t of None \<Rightarrow> [] | Some v \<Rightarrow> v))"

definition hs_Set :: "HashSet \<Rightarrow> HashType \<Rightarrow> string \<Rightarrow> HashSet" where
  "hs_Set hs t v = (case hs of None \<Rightarrow> None | Some m \<Rightarrow> Some (gm_put t v m))"

definition hs_Has :: "HashSet \<Rightarrow> HashType \<Rightarrow> bool" where
  "hs_Has hs t \<longleftrightarrow> (case hs of None \<Rightarrow> False | Some m \<Rightarrow> gm_get m t \<noteq> None)"

text \<open>The loop of \<open>Equal\<close>, in the order in which the range visits the entries.\<close>

fun hs_equal_loop :: "(HashType \<times> string) list \<Rightarrow> (HashType, string) gomap \<Rightarrow> bool \<Rightarrow> bool" where
  "hs_equal_loop [] other foundCommon = foundCommon"
| "hs_equal_loop ((t, v) # es) other foundCommon =
     (case gm_get other t of
        Some ov \<Rightarrow> if v \<noteq> ov then False else hs_equal_loop es other True
      | None \<Rightarrow> hs_equal_loop es other foundCommon)"

definition hs_Equal ::
  "((HashType \<times> string) list \<Rightarrow> (HashType \<times> string) list) \<Rightarrow> HashSet \<Rightarrow> HashSet \<Rightarrow> bool" where
  "hs_Equal ord hs other =
     (case (hs, other) of
        (Some m, Some m') \<Rightarrow> hs_equal_loop (ord (gm_entries m)) m' False
      | _ \<Rightarrow> False)"

lemma hs_equal_loop_iff:
  "hs_equal_loop es other found \<longleftrightarrow>
     (found \<or> (\<exists>(t, v) \<in> set es. gm_get other t \<noteq> None)) \<and>
     (\<forall>(t, v) \<in> set es. \<forall>ov. gm_get other t = Some ov \<longrightarrow> v = ov)"
  by (induction es other found rule: hs_equal_loop.induct) (auto split: option.splits)

lemma hs_Equal_iff:
  "range_order ord \<Longrightarrow>
   hs_Equal ord (Some m) (Some m') \<longleftrightarrow>
     (\<exists>t. gm_get m t \<noteq> None \<and> gm_get m' t \<noteq> None) \<and>
     (\<forall>t v v'. gm_get m t = Some v \<longrightarrow> gm_get m' t = Some v' \<longrightarrow> v = v')"
  by (simp add: hs_Equal_def hs_equal_loop_iff gm_get_iff_entry [of m])
    (force simp: gm_get_iff_entry)

lemma hs_Get_Set: "hs_Get (hs_Set (Some m) t v) t' = (if t = t' then v else hs_Get (Some m) t')"
  by (simp add: hs_Get_def hs_Set_def gomap_simps)

lemma hs_Has_Set: "hs_Has (hs_Set (Some m) t v) t' \<longleftrightarrow> t = t' \<or> hs_Has (Some m) t'"
  by (simp add: hs_Has_def hs_Set_def gomap_simps)

subsection \<open>Properties\<close>

text \<open>Both hexadecimal renderings of a digest agree, have two digits for each byte, and lose nothing:
  for a supported type the hashes of two contents are equal exactly if their digests are.\<close>

theorem hash_text_faithful:
  assumes "t \<in> set SupportedHashes"
  shows "HashBytes digest d t = HashBytesFromSum (digest t d) \<and>
    HashReader digest (d, None) t = Inr (HashBytes digest d t) \<and>
    length (HashBytes digest d t) = 2 * length (digest t d) \<and>
    (HashBytes digest d t = HashBytes digest d' t \<longleftrightarrow> digest t d = digest t d')"
  using NewHash_Some [OF assms, of digest]
  by (simp add: HashBytes_def HashReader_def HashBytesFromSum_hex hex_inj)

theorem hash_text_faithful_witness:
  "HashBytes (\<lambda>t d. d) [0xab] HashMD5 = HashBytesFromSum [0xab] \<and>
   HashReader (\<lambda>t d. d) ([0xab], None) HashMD5 = Inr (HashBytes (\<lambda>t d. d) [0xab] HashMD5) \<and>
   length (HashBytes (\<lambda>t d. d) [0xab] HashMD5) = 2 * length [0xab :: byte] \<and>
   (HashBytes (\<lambda>t d. d) [0xab] HashMD5 = HashBytes (\<lambda>t d. d) [0x1b] HashMD5 \<longleftrightarrow> [0xab :: byte] = [0x1b])"
  by (rule hash_text_faithful) (simp add: SupportedHashes_def)

text \<open>Two hash sets are equal exactly if they share a type and agree on every type they share,
  whatever order the map is ranged over; a nil set equals nothing.\<close>

theorem hash_sets_equal:
  assumes "range_order ord"
  shows "(hs_Equal ord (Some m) (Some m') \<longleftrightarrow>
      (\<exists>t. hs_Has (Some m) t \<and> hs_Has (Some m') t) \<and>
      (\<forall>t. hs_Has (Some m) t \<longrightarrow> hs_Has (Some m') t \<longrightarrow> hs_Get (Some m) t = hs_Get (Some m') t)) \<and>
    \<not> hs_Equal ord None hs \<and> \<not> hs_Equal ord hs None"
proof -
  have "\<not> hs_Equal ord None hs" "\<not> hs_Equal ord hs None"
    by (simp_all add: hs_Equal_def split: option.splits)
  then show ?thesis by (auto simp: hs_Equal_iff [OF assms] hs_Has_def hs_Get_def)
qed

theorem hash_sets_equal_witness:
  "hs_Equal rev (Some (gm_put HashMD5 ''00'' gm_empty)) (Some (gm_put HashMD5 ''00'' gm_empty)) \<and>
   \<not> hs_Equal rev None None"
  using hash_sets_equal [of rev "gm_put HashMD5 ''00'' gm_empty" "gm_put HashMD5 ''00'' gm_empty" None]
  by (auto simp: hs_Has_def gomap_simps)

end
