(* ===== verification/CopyMove.thy ===== *)
theory CopyMove
  imports BackendInterface Hashing
begin

section \<open>Copying and moving objects (\<open>object/copy.go\<close>, \<open>object/move.go\<close>)\<close>

text \<open>
  The helpers that copy or move one object across any two backends by streaming it through the
  caller, and the \<open>Smart\<close> versions that try the backend's own operation first. Their correctness
  is proved once, from the contract of \<open>BackendInterface.stores\<close>.
\<close>

definition CopyPath ::
  "'w Backend \<Rightarrow> path \<Rightarrow> 'w Backend \<Rightarrow> path \<Rightarrow> WriterOption list \<Rightarrow> 'w \<Rightarrow> object_error option \<times> 'w" where
  "CopyPath srcBackend srcPath dstBackend dstPath opts w =
     (case bkNewReader srcBackend srcPath [] w of
        Inl e \<Rightarrow> (Some e, w)
      | Inr r \<Rightarrow>
          (case bkNewWriter dstBackend dstPath opts w of
             (Inl e, w1) \<Rightarrow> (Some e, w1)
           | (Inr wr, w1) \<Rightarrow>
               (case io_copy wr r w1 of
                  ((_, Some e), w2) \<Rightarrow> (Some e, snd (wrClose wr w2))
                | ((_, None), w2) \<Rightarrow> wrClose wr w2)))"

text \<open>
  \<open>CopyPathWithHash\<close> feeds the bytes it writes to a hash. The writer is opened before the hash
  type is looked up; with an unknown type it is closed again.
\<close>

definition CopyPathWithHash ::
  "digest \<Rightarrow> 'w Backend \<Rightarrow> path \<Rightarrow> 'w Backend \<Rightarrow> path \<Rightarrow> HashType \<Rightarrow> WriterOption list \<Rightarrow> 'w \<Rightarrow>
   string res \<times> 'w" where
  "CopyPathWithHash digest srcBackend srcPath dstBackend dstPath hashType opts w =
     (case bkNewReader srcBackend srcPath [] w of
        Inl e \<Rightarrow> (Inl e, w)
      | Inr r \<Rightarrow>
          (case bkNewWriter dstBackend dstPath opts w of
             (Inl e, w1) \<Rightarrow> (Inl e, w1)
           | (Inr wr, w1) \<Rightarrow>
               (case NewHash digest hashType of
                  None \<Rightarrow> (Inl ErrNotSupported, snd (wrClose wr w1))
                | Some h \<Rightarrow>
                    (case io_copy wr r w1 of
                       ((_, Some e), w2) \<Rightarrow> (Inl e, snd (wrClose wr w2))
                     | ((_, None), w2) \<Rightarrow>
                         (case wrClose wr w2 of
                            (Some e, w3) \<Rightarrow> (Inl e, w3)
                          | (None, w3) \<Rightarrow> (Inr (HashBytesFromSum (h (concat (sChunks r)))), w3))))))"

definition SmartCopy ::
  "'w Backend \<Rightarrow> path \<Rightarrow> 'w Backend \<Rightarrow> path \<Rightarrow> WriterOption list \<Rightarrow> 'w \<Rightarrow> object_error option \<times> 'w" where
  "SmartCopy srcBackend srcPath dstBackend dstPath opts w =
     (case (if bkId srcBackend = bkId dstBackend then AsExtended srcBackend else None) of
        Some ext \<Rightarrow>
          if fCopy (exFeatures ext)
          then (case exCopy ext srcPath dstPath w of
                  (err, w1) \<Rightarrow>
                    if err = None \<or> err \<noteq> Some ErrNotSupported then (err, w1)
                    else CopyPath srcBackend srcPath dstBackend dstPath opts w1)
          else CopyPath srcBackend srcPath dstBackend dstPath opts w
      | None \<Rightarrow> CopyPath srcBackend srcPath dstBackend dstPath opts w)"

definition MovePath ::
  "'w Backend \<Rightarrow> path \<Rightarrow> 'w Backend \<Rightarrow> path \<Rightarrow> WriterOption list \<Rightarrow> 'w \<Rightarrow> object_error option \<times> 'w" where
  "MovePath srcBackend srcPath dstBackend dstPath opts w =
     (case CopyPath srcBackend srcPath dstBackend dstPath opts w of
        (Some e, w1) \<Rightarrow> (Some e, w1)
      | (None, w1) \<Rightarrow> bkDelete srcBackend srcPath w1)"

definition SmartMove ::
  "'w Backend \<Rightarrow> path \<Rightarrow> 'w Backend \<Rightarrow> path \<Rightarrow> WriterOption list \<Rightarrow> 'w \<Rightarrow> object_error option \<times> 'w" where
  "SmartMove srcBackend srcPath dstBackend dstPath opts w =
     (case (if bkId srcBackend = bkId dstBackend then AsExtended srcBackend else None) of
        Some ext \<Rightarrow>
          if fMove (exFeatures ext)
          then (case exMove ext srcPath dstPath w of
                  (err, w1) \<Rightarrow>
                    if err = None \<or> err \<noteq> Some ErrNotSupported then (err, w1)
                    else MovePath srcBackend srcPath dstBackend dstPath opts w1)
          else MovePath srcBackend srcPath dstBackend dstPath opts w
      | None \<Rightarrow> MovePath srcBackend srcPath dstBackend dstPath opts w)"

lemmas copy_defs [model_defs] = CopyPath_def CopyPathWithHash_def SmartCopy_def MovePath_def SmartMove_def

subsection \<open>Correctness over any stores\<close>

context stores
begin

lemma CopyPath_stores:
  assumes "ok w" "key q" "files i w p = Some d"
  shows "\<exists>w'. CopyPath (B i) p (B j) q opts w = (None, w') \<and> ok w' \<and>
    files j w' = (files j w)(q := Some d) \<and> (\<forall>k. k \<noteq> j \<longrightarrow> files k w' = files k w)"
proof -
  obtain s where s: "bkNewReader (B i) p [] w = Inr s" "concat (sChunks s) = d" "sErr s = None"
    using read_law [OF assms(1,3)] by blast
  obtain wr w1 w2 w3 where "bkNewWriter (B j) q opts w = (Inr wr, w1)"
    "io_copy wr s w1 = ((length d, None), w2)" "wrClose wr w2 = (None, w3)"
    "ok w3" "files j w3 = (files j w)(q := Some d)" "\<forall>k. k \<noteq> j \<longrightarrow> files k w3 = files k w"
    using io_copy_stores [OF assms(1,2) s(3), of j opts] s(2) by blast
  with s show ?thesis by (simp add: CopyPath_def)
qed

lemma CopyPath_missing:
  "ok w \<Longrightarrow> key p \<Longrightarrow> files i w p = None \<Longrightarrow>
   CopyPath (B i) p (B j) q opts w = (Some ErrNotFound, w)"
  by (simp add: CopyPath_def read_missing_law)

lemma CopyPathWithHash_stores:
  assumes "ok w" "key q" "files i w p = Some d" "t \<in> set SupportedHashes"
  shows "\<exists>w'. CopyPathWithHash digest (B i) p (B j) q t opts w =
      (Inr (HashBytes digest d t), w') \<and> ok w' \<and>
    files j w' = (files j w)(q := Some d) \<and> (\<forall>k. k \<noteq> j \<longrightarrow> files k w' = files k w)"
proof -
  obtain s where s: "bkNewReader (B i) p [] w = Inr s" "concat (sChunks s) = d" "sErr s = None"
    using read_law [OF assms(1,3)] by blast
  obtain wr w1 w2 w3 where "bkNewWriter (B j) q opts w = (Inr wr, w1)"
    "io_copy wr s w1 = ((length d, None), w2)" "wrClose wr w2 = (None, w3)"
    "ok w3" "files j w3 = (files j w)(q := Some d)" "\<forall>k. k \<noteq> j \<longrightarrow> files k w3 = files k w"
    using io_copy_stores [OF assms(1,2) s(3), of j opts] s(2) by blast
  with s show ?thesis
    by (simp add: CopyPathWithHash_def NewHash_Some [OF assms(4)] HashBytes_def HashBytesFromSum_hex)
qed

text \<open>With an unknown hash type the destination has been replaced by an empty object.\<close>

lemma CopyPathWithHash_unknown:
  assumes "ok w" "key q" "files i w p = Some d" "t \<notin> set SupportedHashes"
  shows "\<exists>w'. CopyPathWithHash digest (B i) p (B j) q t opts w = (Inl ErrNotSupported, w') \<and>
    ok w' \<and> files j w' = (files j w)(q := Some []) \<and> (\<forall>k. k \<noteq> j \<longrightarrow> files k w' = files k w)"
proof -
  have "NewHash digest t = None" using assms(4) NewHash_iff by blast
  moreover obtain s where "bkNewReader (B i) p [] w = Inr s"
    using read_law [OF assms(1,3)] by blast
  moreover obtain wr w1 w3 where "bkNewWriter (B j) q opts w = (Inr wr, w1)"
    "wrClose wr w1 = (None, w3)" "ok w3" "files j w3 = (files j w)(q := Some [])"
    "\<forall>k. k \<noteq> j \<longrightarrow> files k w3 = files k w"
    using write_law [OF assms(1,2), of j opts "[]" 0] by auto
  ultimately show ?thesis by (simp add: CopyPathWithHash_def)
qed

text \<open>
  \<open>MovePath\<close> between different places moves the object; onto itself it deletes it, since the
  delete follows the copy.
\<close>

lemma MovePath_stores:
  assumes "ok w" "key q" "files i w p = Some d"
  shows "\<exists>w'. MovePath (B i) p (B j) q opts w = (None, w') \<and> ok w' \<and>
    (\<forall>k. files k w' =
       (if k = i then (if k = j then (files k w)(q := Some d, p := None) else (files k w)(p := None))
        else if k = j then (files k w)(q := Some d) else files k w))"
proof -
  obtain w1 where w1: "CopyPath (B i) p (B j) q opts w = (None, w1)" "ok w1"
    "files j w1 = (files j w)(q := Some d)" "\<forall>k. k \<noteq> j \<longrightarrow> files k w1 = files k w"
    using CopyPath_stores [OF assms] by blast
  have "key p" using key_law assms(1,3) by blast
  then obtain w2 where "bkDelete (B i) p w1 = (None, w2)" "ok w2"
    "files i w2 = (files i w1)(p := None)" "\<forall>k. k \<noteq> i \<longrightarrow> files k w2 = files k w1"
    using delete_law [OF w1(2)] by blast
  with w1 show ?thesis by (auto simp: MovePath_def)
qed

end

context extended_stores
begin

lemma AsExtended_ext [simp]: "AsExtended (B i) = Some (ext i)"
  by (simp add: AsExtended_def ext_law)

lemma SmartCopy_stores:
  assumes "ok w" "key q" "files i w p = Some d" "(i, p) \<noteq> (j, q)"
  shows "\<exists>w'. SmartCopy (B i) p (B j) q opts w = (None, w') \<and> ok w' \<and>
    files j w' = (files j w)(q := Some d) \<and> (\<forall>k. k \<noteq> j \<longrightarrow> files k w' = files k w)"
proof (cases "i = j")
  case True
  then show ?thesis
    using copy_law [OF assms(1) key_law [OF assms(1,3)] assms(2) _ assms(3)] assms(4)
    by (auto simp: SmartCopy_def features_law)
next
  case False
  then show ?thesis using CopyPath_stores [OF assms(1-3), of j opts] by (simp add: SmartCopy_def)
qed

lemma SmartMove_stores:
  assumes "ok w" "key q" "files i w p = Some d" "(i, p) \<noteq> (j, q)"
  shows "\<exists>w'. SmartMove (B i) p (B j) q opts w = (None, w') \<and> ok w' \<and>
    files j w' q = Some d \<and> files i w' p = None \<and>
    (\<forall>k r. (k, r) \<noteq> (i, p) \<longrightarrow> (k, r) \<noteq> (j, q) \<longrightarrow> files k w' r = files k w r)"
proof (cases "i = j")
  case True
  with assms(4) have "p \<noteq> q" by simp
  then obtain w' where "exMove (ext i) p q w = (None, w')" "ok w'"
    "files i w' = (files i w)(q := Some d, p := None)" "\<forall>k. k \<noteq> i \<longrightarrow> files k w' = files k w"
    using move_law [OF assms(1) key_law [OF assms(1,3)] assms(2) _ assms(3)] by blast
  moreover from this have "files k w' r = files k w r"
    if "(k, r) \<noteq> (i, p)" "(k, r) \<noteq> (j, q)" for k r
    using that True by (cases "k = i") auto
  ultimately show ?thesis using True \<open>p \<noteq> q\<close> by (simp add: SmartMove_def features_law)
next
  case False
  then show ?thesis using MovePath_stores [OF assms(1,2,3), of j opts] by (auto simp: SmartMove_def)
qed

end

end
