(* ===== verification/MemoryStore.thy ===== *)
theory MemoryStore
  imports MemoryBackend CopyMove
begin

section \<open>In-memory backends as stores\<close>

text \<open>
  A world of in-memory backends: backend \<open>i\<close>'s state, the writers its clients hold (by handle),
  and the clock, an arbitrary sequence of readings of \<open>time.Now()\<close>. \<open>mem_Backend i\<close> is the value
  of type \<open>Backend\<close> that the clients of backend \<open>i\<close> call, with a live context. The section ends
  with the interpretation of the contracts of \<open>BackendInterface\<close> on these values.
\<close>

record mworld =
  wdBackends :: "nat \<Rightarrow> mem_backend"
  wdWriters :: "(nat, memoryWriter) gomap"
  wdNext :: nat
  wdClock :: "nat \<Rightarrow> time"

definition wd_set :: "nat \<Rightarrow> mem_backend \<Rightarrow> mworld \<Rightarrow> mworld" where
  "wd_set i b W = W\<lparr>wdBackends := (wdBackends W)(i := b)\<rparr>"

text \<open>\<open>time.Now()\<close> takes the next reading.\<close>

definition wd_now :: "mworld \<Rightarrow> time" where
  "wd_now W = wdClock W 0"

definition wd_tick :: "nat \<Rightarrow> mworld \<Rightarrow> mworld" where
  "wd_tick n W = W\<lparr>wdClock := (\<lambda>k. wdClock W (n + k))\<rparr>"

text \<open>The two methods of the writer with handle \<open>h\<close> on backend \<open>i\<close>.\<close>

definition mem_wrWrite :: "nat \<Rightarrow> bytes \<Rightarrow> mworld \<Rightarrow> object_error option \<times> mworld" where
  "mem_wrWrite h c W =
     (case gm_get (wdWriters W) h of
        None \<Rightarrow> (Some ErrWriterClosed, W)
      | Some wr \<Rightarrow>
          (case mw_Write c wr of
             ((n, err), wr') \<Rightarrow> (err, W\<lparr>wdWriters := gm_put h wr' (wdWriters W)\<rparr>)))"

definition mem_wrClose :: "nat \<Rightarrow> nat \<Rightarrow> mworld \<Rightarrow> object_error option \<times> mworld" where
  "mem_wrClose i h W =
     (case gm_get (wdWriters W) h of
        None \<Rightarrow> (None, W)
      | Some wr \<Rightarrow>
          (case mw_Close (wd_now W) wr (wdBackends W i) of
             (err, wr', b') \<Rightarrow>
               (err, wd_tick 1 (wd_set i b' (W\<lparr>wdWriters := gm_put h wr' (wdWriters W)\<rparr>)))))"

definition mem_bkNewWriter ::
  "nat \<Rightarrow> path \<Rightarrow> WriterOption list \<Rightarrow> mworld \<Rightarrow> mworld WriteCloser res \<times> mworld" where
  "mem_bkNewWriter i p opts W =
     (case mem_NewWriter background p opts (wdBackends W i) of
        Inl e \<Rightarrow> (Inl e, W)
      | Inr wr \<Rightarrow>
          (Inr \<lparr>wrWrite = mem_wrWrite (wdNext W), wrClose = mem_wrClose i (wdNext W)\<rparr>,
           W\<lparr>wdWriters := gm_put (wdNext W) wr (wdWriters W), wdNext := Suc (wdNext W)\<rparr>))"

text \<open>A reader read with \<open>io.Copy\<close>'s buffer until it reports \<open>io.EOF\<close> (see \<open>mr_Read_chunks\<close>).\<close>

definition mem_bkNewReader :: "nat \<Rightarrow> path \<Rightarrow> ReaderOption list \<Rightarrow> mworld \<Rightarrow> Stream res" where
  "mem_bkNewReader i p opts W =
     (case mem_NewReader background p opts (wdBackends W i) of
        Inl e \<Rightarrow> Inl e
      | Inr r \<Rightarrow> Inr \<lparr>sChunks = chunk_bytes io_copy_buffer (mrRest r), sErr = None\<rparr>)"

text \<open>A method that changes the state of backend \<open>i\<close>.\<close>

definition wd_update ::
  "nat \<Rightarrow> (mem_backend \<Rightarrow> object_error option \<times> mem_backend) \<Rightarrow> mworld \<Rightarrow> object_error option \<times> mworld" where
  "wd_update i f W = (case f (wdBackends W i) of (err, b) \<Rightarrow> (err, wd_tick 1 (wd_set i b W)))"

definition mem_Ext :: "nat \<Rightarrow> mworld ExtendedOps" where
  "mem_Ext i =
     \<lparr>exStat = (\<lambda>p W. mem_Stat background p (wdBackends W i)),
      exMkdir = (\<lambda>p W. wd_update i (mem_Mkdir (wdClock W) background p) W),
      exRmdir = (\<lambda>p. wd_update i (mem_Rmdir background p)),
      exCopy = (\<lambda>p q W. wd_update i (mem_Copy (wd_now W) background p q) W),
      exMove = (\<lambda>p q W. wd_update i (mem_Move (wd_now W) background p q) W),
      exFeatures = mem_Features\<rparr>"

definition mem_Backend :: "nat \<Rightarrow> mworld Backend" where
  "mem_Backend i =
     \<lparr>bkId = i,
      bkNewWriter = mem_bkNewWriter i,
      bkNewReader = mem_bkNewReader i,
      bkExists = (\<lambda>p W. mem_Exists background p (wdBackends W i)),
      bkDelete = (\<lambda>p. wd_update i (mem_Delete background p)),
      bkList = (\<lambda>p W. mem_List background p (wdBackends W i)),
      bkExt = Some (mem_Ext i)\<rparr>"

subsection \<open>Worlds in order\<close>

definition wd_files :: "nat \<Rightarrow> mworld \<Rightarrow> path \<Rightarrow> bytes option" where
  "wd_files i W = mem_files (wdBackends W i)"

text \<open>
  A key the memory backend takes as it is: plain, and not rejected by \<open>validatePath\<close>, which
  refuses every relative path that starts with two dots.
\<close>

definition mem_key :: "path \<Rightarrow> bool" where
  "mem_key p \<longleftrightarrow> plain_key p \<and> \<not> has_prefix p dotdot"

definition mem_in_order :: "mem_backend \<Rightarrow> bool" where
  "mem_in_order b \<longleftrightarrow> \<not> mclosed b \<and>
     (\<forall>k obj. gm_get (objects b) k = Some obj \<longrightarrow> mem_key k \<and> \<not> oisDir obj)"

definition wd_ok :: "mworld \<Rightarrow> bool" where
  "wd_ok W \<longleftrightarrow> (\<forall>i. mem_in_order (wdBackends W i)) \<and>
     (\<forall>h. gm_get (wdWriters W) h \<noteq> None \<longrightarrow> h < wdNext W)"

definition mem_under :: "path \<Rightarrow> path \<Rightarrow> bool" where
  "mem_under base p \<longleftrightarrow> has_prefix p (normalizePath base)"

text \<open>The chunks of a stream are what successive \<open>Read\<close> calls return.\<close>

lemma mr_Read_chunks:
  assumes "0 < n" "\<not> mrClosed r"
  shows "case chunk_bytes n (mrRest r) of
           [] \<Rightarrow> mr_Read n r = (([], Some EOF), r)
         | c # cs \<Rightarrow> \<exists>r'. mr_Read n r = ((c, None), r') \<and> \<not> mrClosed r' \<and> chunk_bytes n (mrRest r') = cs"
  using assms by (cases "mrRest r = []") (simp_all add: chunk_bytes.simps [of n "mrRest r"] mr_Read_def)

lemma mem_key_valid [simp]: "mem_key p \<Longrightarrow> mem_validatePath p = None"
  using plain_has_no_dotdot_inside [of p] plain_key_neq_Nil [of p]
  by (auto simp: mem_key_def mem_validatePath_def plain_key_def proper_name_def)

lemma mem_key_normal [simp]: "mem_key p \<Longrightarrow> normalizePath p = p"
  by (simp add: mem_key_def)

lemma mem_key_below: "mem_key p \<Longrightarrow> plain_key q \<Longrightarrow> mem_key (p @ slash # q)"
  using plain_key_neq_Nil [of p] plain_key_append [of p q]
  by (cases p; cases "tl p") (auto simp: mem_key_def has_prefix_def)

lemma wd_okD:
  "wd_ok W \<Longrightarrow> mem_in_order (wdBackends W i)"
  "wd_ok W \<Longrightarrow> gm_get (wdWriters W) h = Some wr \<Longrightarrow> h < wdNext W"
  by (auto simp: wd_ok_def)

lemma in_order_ready:
  "mem_in_order b \<Longrightarrow> \<forall>p \<in> set ps. mem_key p \<Longrightarrow> mem_ready b background ps"
  by (auto simp: mem_in_order_def mem_ready_def)

lemma in_order_get:
  "mem_in_order b \<Longrightarrow> mem_files b p = map_option odata (gm_get (objects b) p)"
  by (auto simp: mem_in_order_def mem_files_def split: option.splits)

lemma in_order_key: "mem_in_order b \<Longrightarrow> mem_files b p = Some d \<Longrightarrow> mem_key p"
  by (auto simp: mem_in_order_def mem_files_Some)

lemma in_order_put:
  "mem_in_order b \<Longrightarrow> mem_key k \<Longrightarrow> \<not> oisDir obj \<Longrightarrow>
   mem_in_order (b\<lparr>objects := gm_put k obj (objects b)\<rparr>)"
  by (auto simp: mem_in_order_def gomap_simps)

lemma in_order_del: "mem_in_order b \<Longrightarrow> mem_in_order (b\<lparr>objects := gm_del k (objects b)\<rparr>)"
  by (auto simp: mem_in_order_def gomap_simps)

lemma wd_set_simps [simp]:
  "wdBackends (wd_set i b W) = (wdBackends W)(i := b)"
  "wdWriters (wd_set i b W) = wdWriters W"
  "wdNext (wd_set i b W) = wdNext W"
  "wdBackends (wd_tick n W) = wdBackends W"
  "wdWriters (wd_tick n W) = wdWriters W"
  "wdNext (wd_tick n W) = wdNext W"
  by (simp_all add: wd_set_def wd_tick_def)

lemma wd_ok_set:
  "wd_ok W \<Longrightarrow> mem_in_order b \<Longrightarrow> wd_ok (wd_tick n (wd_set i b W))"
  by (auto simp: wd_ok_def)

lemma wd_files_set:
  "wd_files j (wd_tick n (wd_set i b W)) = (if j = i then mem_files b else wd_files j W)"
  by (simp add: wd_files_def)

text \<open>What a successful update of backend \<open>i\<close> does to the world.\<close>

lemma wd_update_ok:
  assumes "f (wdBackends W i) = (None, b)" "wd_ok W" "mem_in_order b"
  shows "\<exists>W'. wd_update i f W = (None, W') \<and> wd_ok W' \<and> wd_files i W' = mem_files b \<and>
    (\<forall>j. j \<noteq> i \<longrightarrow> wd_files j W' = wd_files j W)"
  using assms by (simp add: wd_update_def wd_ok_set wd_files_set)

lemma mem_write_loop:
  assumes "gm_get (wdWriters W) h = Some wr" "\<not> mwClosed wr"
  shows "\<exists>W'. io_copy_loop \<lparr>wrWrite = mem_wrWrite h, wrClose = cl\<rparr> cs n W =
      ((n + length (concat cs), None), W') \<and>
    wdBackends W' = wdBackends W \<and> wdNext W' = wdNext W \<and> 
    gm_get (wdWriters W') h = Some (wr\<lparr>mwBuffer := mwBuffer wr @ concat cs\<rparr>) \<and>
    (\<forall>h'. h' \<noteq> h \<longrightarrow> gm_get (wdWriters W') h' = gm_get (wdWriters W) h')"
  using assms
proof (induction cs arbitrary: n W wr)
  case (Cons c cs)
  let ?wr = "wr\<lparr>mwBuffer := mwBuffer wr @ c\<rparr>"
  let ?W = "W\<lparr>wdWriters := gm_put h ?wr (wdWriters W)\<rparr>"
  have w: "mem_wrWrite h c W = (None, ?W)"
    using Cons.prems by (simp add: mem_wrWrite_def mw_Write_def)
  have "gm_get (wdWriters ?W) h = Some ?wr" "\<not> mwClosed ?wr"
    using Cons.prems by (simp_all add: gomap_simps)
  from Cons.IH [OF this, of "n + length c"] show ?case
    by (auto simp: w gomap_simps add.assoc)
qed simp

lemma mem_Backend_write:
  assumes "wd_ok W" "mem_key p"
  shows "\<exists>wr w1 w2 w3. bkNewWriter (mem_Backend i) p opts W = (Inr wr, w1) \<and>
    io_copy_loop wr cs n w1 = ((n + length (concat cs), None), w2) \<and>
    wrClose wr w2 = (None, w3) \<and> wd_ok w3 \<and>
    wd_files i w3 = (wd_files i W)(p := Some (concat cs)) \<and>
    (\<forall>j. j \<noteq> i \<longrightarrow> wd_files j w3 = wd_files j W)"
proof -
  define h where "h = wdNext W"
  define wr where "wr = \<lparr>mwPath = p, mwBuffer = [],
    mwContentType = wcContentType (ApplyWriterOptions opts), mwClosed = False\<rparr>"
  define W1 where "W1 = W\<lparr>wdWriters := gm_put h wr (wdWriters W), wdNext := Suc h\<rparr>"
  have ord: "mem_in_order (wdBackends W j)" for j using wd_okD(1) assms(1) by blast
  have new: "bkNewWriter (mem_Backend i) p opts W =
      (Inr \<lparr>wrWrite = mem_wrWrite h, wrClose = mem_wrClose i h\<rparr>, W1)"
    using in_order_ready [OF ord, of "[p]" i] assms(2)
    by (simp add: mem_Backend_def mem_bkNewWriter_def mem_NewWriter_ready W1_def wr_def h_def)
  have g: "gm_get (wdWriters W1) h = Some wr" "\<not> mwClosed wr"
    by (simp_all add: W1_def wr_def gomap_simps)
  obtain W2 where W2: "io_copy_loop \<lparr>wrWrite = mem_wrWrite h, wrClose = mem_wrClose i h\<rparr> cs n W1 =
      ((n + length (concat cs), None), W2)"
    "wdBackends W2 = wdBackends W" "wdNext W2 = Suc h"
    "gm_get (wdWriters W2) h = Some (wr\<lparr>mwBuffer := concat cs\<rparr>)"
    "\<forall>h'. h' \<noteq> h \<longrightarrow> gm_get (wdWriters W2) h' = gm_get (wdWriters W) h'"
    using mem_write_loop [OF g, of "mem_wrClose i h" cs n]
    by (auto simp: W1_def wr_def gomap_simps)
  let ?obj = "\<lparr>odata = concat cs, ocontentType = mwContentType wr, omodTime = wd_now W2, oisDir = False\<rparr>"
  let ?b = "(wdBackends W i)\<lparr>objects := gm_put p ?obj (objects (wdBackends W i))\<rparr>"
  let ?wr = "wr\<lparr>mwBuffer := concat cs, mwClosed := True\<rparr>"
  define W3 where "W3 = wd_tick 1 (wd_set i ?b (W2\<lparr>wdWriters := gm_put h ?wr (wdWriters W2)\<rparr>))"
  have cl: "mem_wrClose i h W2 = (None, W3)"
    using ord [of i] W2(2,4) by (simp add: mem_wrClose_def mw_Close_open mem_in_order_def W3_def wr_def)
  have b: "mem_in_order ?b" using ord assms(2) by (simp add: in_order_put)
  have "wd_ok (W2\<lparr>wdWriters := gm_put h ?wr (wdWriters W2)\<rparr>)"
    using assms(1) W2(2,3,5) by (fastforce simp: wd_ok_def gomap_simps h_def less_Suc_eq)
  then have ok: "wd_ok W3" unfolding W3_def using b by (rule wd_ok_set)
  have "wd_files i W3 = (wd_files i W)(p := Some (concat cs))"
    by (simp add: W3_def wd_files_set mem_files_put) (simp add: wd_files_def)
  moreover have "\<forall>j. j \<noteq> i \<longrightarrow> wd_files j W3 = wd_files j W"
    by (simp add: W3_def wd_files_def W2(2))
  ultimately show ?thesis using new W2(1) cl ok by fastforce
qed

lemma mem_Backend_read:
  assumes "wd_ok W" "wd_files i W p = Some d"
  shows "\<exists>s. bkNewReader (mem_Backend i) p [] W = Inr s \<and> concat (sChunks s) = d \<and> sErr s = None"
proof -
  have o: "mem_in_order (wdBackends W i)" using wd_okD(1) assms(1) by blast
  then have "mem_key p" using in_order_key assms(2) by (simp add: wd_files_def)
  with o assms(2) show ?thesis
    using in_order_ready [OF o, of "[p]"]
    by (simp add: mem_Backend_def mem_bkNewReader_def mem_NewReader_ready wd_files_def)
qed

lemma mem_Backend_missing:
  assumes "wd_ok W" "mem_key p" "wd_files i W p = None"
  shows "bkNewReader (mem_Backend i) p [] W = Inl ErrNotFound"
proof -
  have o: "mem_in_order (wdBackends W i)" using wd_okD(1) assms(1) by blast
  with assms(2,3) show ?thesis
    using in_order_ready [OF o, of "[p]"] in_order_get [OF o, of p]
    by (simp add: mem_Backend_def mem_bkNewReader_def mem_NewReader_ready wd_files_def)
qed

lemma mem_Backend_delete:
  assumes "wd_ok W" "mem_key p"
  shows "\<exists>W'. bkDelete (mem_Backend i) p W = (None, W') \<and> wd_ok W' \<and>
    wd_files i W' = (wd_files i W)(p := None) \<and> (\<forall>j. j \<noteq> i \<longrightarrow> wd_files j W' = wd_files j W)"
proof -
  have o: "mem_in_order (wdBackends W i)" using wd_okD(1) assms(1) by blast
  show ?thesis
    using wd_update_ok [of "mem_Delete background p" W i, OF mem_Delete_ready assms(1) in_order_del [OF o]]
      in_order_ready [OF o, of "[p]"] assms(2)
    by (simp add: mem_Backend_def mem_files_del wd_files_def)
qed

lemma mem_Backend_list:
  assumes "wd_ok W"
  shows "\<exists>ps. bkList (mem_Backend i) base W = Inr ps \<and> distinct ps \<and>
    set ps = {p. wd_files i W p \<noteq> None \<and> mem_under base p}"
  using wd_okD(1) [OF assms, of i] mem_listing_sorted(2)
  by (auto simp: mem_Backend_def mem_List_live mem_in_order_def mem_listing_set wd_files_def mem_under_def)

subsection \<open>The contracts hold\<close>

interpretation mem_stores: stores mem_Backend wd_files wd_ok mem_key mem_key "\<lambda>i. mem_under"
proof
  show "bkId (mem_Backend i) = i" for i by (simp add: mem_Backend_def)
  show "plain_key p" if "mem_key p" for p using that by (simp add: mem_key_def)
  show "mem_key (b @ slash # q)" if "mem_key b" "plain_key q" for b q
    using that by (rule mem_key_below)
  show "mem_under [] p" for p by (simp add: mem_under_def)
  show "mem_under base (base @ slash # r)" if "mem_key base" "plain_key r" for base r
    using that by (simp add: mem_under_def has_prefix_def)
  show "mem_key p" if "wd_ok W" "wd_files i W p = Some d" for W i p d
    using in_order_key [OF wd_okD(1) [OF that(1)]] that(2) by (simp add: wd_files_def)
  show "bkExists (mem_Backend i) p W = Inr (wd_files i W p \<noteq> None)" if "wd_ok W" "mem_key p" for W i p
    using in_order_ready [OF wd_okD(1) [OF that(1)], of "[p]" i] that(2)
      in_order_get [OF wd_okD(1) [OF that(1)], of i p]
    by (simp add: mem_Backend_def mem_Exists_ready wd_files_def)
qed (fact mem_Backend_write mem_Backend_read mem_Backend_missing mem_Backend_delete | rule mem_Backend_list, assumption)+

lemma mem_Backend_ext: "bkExt (mem_Backend i) = Some (mem_Ext i)"
  by (simp add: mem_Backend_def)

lemma mem_Ext_stat:
  assumes "wd_ok W" "wd_files i W p = Some d"
  shows "\<exists>info. exStat (mem_Ext i) p W = Inr info \<and> ObjectSize info = int (length d) \<and>
    \<not> ObjectIsDir info \<and> ObjectPath info = p"
proof -
  have o: "mem_in_order (wdBackends W i)" using wd_okD(1) assms(1) by blast
  have k: "mem_key p" using in_order_key [OF o] assms(2) by (simp add: wd_files_def)
  obtain obj where "gm_get (objects (wdBackends W i)) p = Some obj" "\<not> oisDir obj" "odata obj = d"
    using assms(2) by (auto simp: wd_files_def mem_files_Some)
  then show ?thesis
    using in_order_ready [OF o, of "[p]"] k
    by (simp add: mem_Ext_def mem_Stat_def mem_ready_guards)
qed

lemma mem_Ext_copy:
  assumes "wd_ok W" "mem_key p" "mem_key q" "wd_files i W p = Some d"
  shows "\<exists>W'. exCopy (mem_Ext i) p q W = (None, W') \<and> wd_ok W' \<and>
    wd_files i W' = (wd_files i W)(q := Some d) \<and> (\<forall>j. j \<noteq> i \<longrightarrow> wd_files j W' = wd_files j W)"
proof -
  have o: "mem_in_order (wdBackends W i)" using wd_okD(1) assms(1) by blast
  obtain obj where obj: "gm_get (objects (wdBackends W i)) p = Some obj" "\<not> oisDir obj" "odata obj = d"
    using assms(4) by (auto simp: wd_files_def mem_files_Some)
  let ?b = "(wdBackends W i)\<lparr>objects := gm_put q
    \<lparr>odata = odata obj, ocontentType = ocontentType obj, omodTime = wd_now W, oisDir = False\<rparr>
    (objects (wdBackends W i))\<rparr>"
  have "mem_Copy (wd_now W) background p q (wdBackends W i) = (None, ?b)"
    using in_order_ready [OF o, of "[p, q]"] assms(2,3) obj by (simp add: mem_Copy_def mem_ready_guards)
  from wd_update_ok [of "mem_Copy (wd_now W) background p q", OF this assms(1) in_order_put [OF o assms(3)]]
  show ?thesis by (simp add: mem_Ext_def mem_files_put obj(3)) (simp add: wd_files_def)
qed

lemma mem_Ext_copy_missing:
  assumes "wd_ok W" "mem_key p" "mem_key q" "wd_files i W p = None"
  shows "\<exists>W'. exCopy (mem_Ext i) p q W = (Some ErrNotFound, W') \<and> wd_ok W' \<and>
    (\<forall>j. wd_files j W' = wd_files j W)"
proof -
  have o: "mem_in_order (wdBackends W i)" using wd_okD(1) assms(1) by blast
  then show ?thesis
    using in_order_ready [OF o, of "[p, q]"] assms(2-4) in_order_get [OF o, of p]
      wd_ok_set [OF assms(1) o, of 1 i]
    by (simp add: mem_Ext_def mem_Copy_def mem_ready_guards wd_update_def wd_files_def)
qed

lemma mem_Ext_move:
  assumes "wd_ok W" "mem_key p" "mem_key q" "p \<noteq> q" "wd_files i W p = Some d"
  shows "\<exists>W'. exMove (mem_Ext i) p q W = (None, W') \<and> wd_ok W' \<and>
    wd_files i W' = (wd_files i W)(q := Some d, p := None) \<and>
    (\<forall>j. j \<noteq> i \<longrightarrow> wd_files j W' = wd_files j W)"
proof -
  have o: "mem_in_order (wdBackends W i)" using wd_okD(1) assms(1) by blast
  obtain obj where obj: "gm_get (objects (wdBackends W i)) p = Some obj" "\<not> oisDir obj" "odata obj = d"
    using assms(5) by (auto simp: wd_files_def mem_files_Some)
  let ?new = "\<lparr>odata = odata obj, ocontentType = ocontentType obj, omodTime = wd_now W, oisDir = False\<rparr>"
  let ?b = "(wdBackends W i)\<lparr>objects := gm_del p (gm_put q ?new (objects (wdBackends W i)))\<rparr>"
  have "mem_Move (wd_now W) background p q (wdBackends W i) = (None, ?b)"
    using in_order_ready [OF o, of "[p, q]"] assms(2,3) obj by (simp add: mem_Move_def mem_ready_guards)
  moreover have "mem_in_order ?b"
    using in_order_del [OF in_order_put [OF o assms(3), of ?new], of p] by simp
  ultimately show ?thesis
    using wd_update_ok [of "mem_Move (wd_now W) background p q" W i ?b] assms(1)
    by (simp add: mem_Ext_def mem_files_move obj(3)) (simp add: wd_files_def)
qed

interpretation mem_ext: extended_stores mem_Backend wd_files wd_ok mem_key mem_key "\<lambda>i. mem_under" mem_Ext
proof
  show "bkExt (mem_Backend i) = Some (mem_Ext i)" for i by (rule mem_Backend_ext)
  show "fCopy (exFeatures (mem_Ext i))" "fMove (exFeatures (mem_Ext i))" for i
    by (simp_all add: mem_Ext_def mem_Features_def)
qed (fact mem_Ext_stat mem_Ext_copy_missing mem_Ext_move | rule mem_Ext_copy, assumption+)+

subsection \<open>Properties of the copy helpers between memory backends\<close>

definition witness_world :: mworld where
  "witness_world =
     \<lparr>wdBackends = (\<lambda>i. if i = 0 then witness_backend else mem_New), wdWriters = gm_empty, wdNext = 0,
      wdClock = (\<lambda>n. 10 + int n)\<rparr>"

lemma mem_key_letter [simp]: "mem_key ''a''" "mem_key ''b''"
  unfolding mem_key_def plain_key_def by code_simp+

lemma witness_world_files: "wd_files 0 witness_world = [''a'' \<mapsto> [5]]"
  by (simp add: wd_files_def witness_world_def witness_backend_files)

lemma witness_world_ok: "wd_ok witness_world"
  by (auto simp: wd_ok_def witness_world_def mem_in_order_def witness_backend_def mem_New_def gomap_simps
      split: if_splits)

text \<open>\<open>CopyPath\<close> between two backends, or within one, succeeds and stores the source's bytes under the
  destination, whatever options it is given, and changes nothing else; for a source that does not
  exist it returns \<open>ErrNotFound\<close> and changes nothing.\<close>

theorem copy_path:
  assumes "wd_ok W" "mem_key p" "mem_key q"
  shows "case wd_files i W p of
      None \<Rightarrow> CopyPath (mem_Backend i) p (mem_Backend j) q opts W = (Some ErrNotFound, W)
    | Some d \<Rightarrow> \<exists>W'. CopyPath (mem_Backend i) p (mem_Backend j) q opts W = (None, W') \<and> wd_ok W' \<and>
        wd_files j W' = (wd_files j W)(q := Some d) \<and> (\<forall>k. k \<noteq> j \<longrightarrow> wd_files k W' = wd_files k W)"
  using mem_stores.CopyPath_stores [OF assms(1,3), of i p _ j opts]
    mem_stores.CopyPath_missing [OF assms(1,2), of i j q opts]
  by (simp split: option.split)

theorem copy_path_witness:
  "\<exists>W'. CopyPath (mem_Backend 0) ''a'' (mem_Backend 1) ''b'' [] witness_world = (None, W') \<and> wd_ok W' \<and>
    wd_files 1 W' ''b'' = Some [5] \<and> wd_files 0 W' = wd_files 0 witness_world"
  using copy_path [OF witness_world_ok, of "''a''" "''b''" 0 1 "[]"] by (auto simp: witness_world_files)

text \<open>\<open>CopyPathWithHash\<close> stores the source's bytes and returns the hash of exactly these bytes. With a
  hash type outside the supported ones it fails with \<open>ErrNotSupported\<close>, but only after it has
  replaced the destination by an empty object.\<close>

theorem copy_with_hash:
  assumes "wd_ok W" "mem_key q" "wd_files i W p = Some d"
  shows "\<exists>res W'. CopyPathWithHash digest (mem_Backend i) p (mem_Backend j) q t opts W = (res, W') \<and> wd_ok W' \<and>
    (\<forall>k. k \<noteq> j \<longrightarrow> wd_files k W' = wd_files k W) \<and>
    (if t \<in> set SupportedHashes
     then res = Inr (HashBytes digest d t) \<and> wd_files j W' = (wd_files j W)(q := Some d)
     else res = Inl ErrNotSupported \<and> wd_files j W' = (wd_files j W)(q := Some []))"
proof (cases "t \<in> set SupportedHashes")
  case True
  then show ?thesis using mem_stores.CopyPathWithHash_stores [OF assms True, of digest j opts] by auto
next
  case False
  then show ?thesis using mem_stores.CopyPathWithHash_unknown [OF assms False, of digest j opts] by auto
qed

theorem copy_with_hash_witness:
  "\<exists>W'. CopyPathWithHash (\<lambda>t d. d) (mem_Backend 0) ''a'' (mem_Backend 1) ''b'' ''sha512'' [] witness_world =
      (Inl ErrNotSupported, W') \<and>
    wd_files 1 W' ''b'' = Some []"
  using copy_with_hash [OF witness_world_ok, of "''b''" 0 "''a''" "[5]" "\<lambda>t d. d" 1 "''sha512''" "[]"]
  by (auto simp: witness_world_files SupportedHashes_def hash_names)

text \<open>Copying an object onto itself, which the contract leaves open, is covered too.\<close>

lemma mem_SmartCopy:
  assumes "wd_ok W" "mem_key q" "wd_files i W p = Some d"
  shows "\<exists>W'. SmartCopy (mem_Backend i) p (mem_Backend j) q opts W = (None, W') \<and> wd_ok W' \<and>
    wd_files j W' = (wd_files j W)(q := Some d) \<and> (\<forall>k. k \<noteq> j \<longrightarrow> wd_files k W' = wd_files k W)"
proof (cases "(i, p) = (j, q)")
  case True
  then obtain W' where "exCopy (mem_Ext j) p q W = (None, W')" "wd_ok W'" "wd_files j W' = (wd_files j W)(q := Some d)"
    "\<forall>k. k \<noteq> j \<longrightarrow> wd_files k W' = wd_files k W"
    using mem_Ext_copy [OF assms(1,2,2), of j d] assms(3) by auto
  then show ?thesis using True by (simp add: SmartCopy_def mem_ext.features_law)
qed (rule mem_ext.SmartCopy_stores [OF assms])



text \<open>\<open>MovePath\<close> copies and then deletes the source: between different places the object has moved; onto
  itself the object is lost.\<close>

theorem move_path:
  assumes "wd_ok W" "mem_key q" "wd_files i W p = Some d"
  shows "\<exists>W'. MovePath (mem_Backend i) p (mem_Backend j) q opts W = (None, W') \<and> wd_ok W' \<and>
    wd_files i W' p = None \<and> ((i, p) \<noteq> (j, q) \<longrightarrow> wd_files j W' q = Some d) \<and>
    (\<forall>k r. (k, r) \<noteq> (i, p) \<longrightarrow> (k, r) \<noteq> (j, q) \<longrightarrow> wd_files k W' r = wd_files k W r)"
proof -
  obtain W' where W': "MovePath (mem_Backend i) p (mem_Backend j) q opts W = (None, W')" "wd_ok W'"
    "\<And>k. wd_files k W' =
       (if k = i then (if k = j then (wd_files k W)(q := Some d, p := None) else (wd_files k W)(p := None))
        else if k = j then (wd_files k W)(q := Some d) else wd_files k W)"
    using mem_stores.MovePath_stores [OF assms, of j opts] by blast
  then show ?thesis by (intro exI [of _ W']) (cases "i = j"; auto)
qed

theorem move_path_witness:
  "\<exists>W'. MovePath (mem_Backend 0) ''a'' (mem_Backend 0) ''a'' [] witness_world = (None, W') \<and>
    wd_files 0 W' ''a'' = None"
  using move_path [OF witness_world_ok, of "''a''" 0 "''a''" "[5]" 0 "[]"]
  by (auto simp: witness_world_files)

end
