(* ===== verification/FileFilter.thy ===== *)
theory FileFilter
  imports GoPath
begin

section \<open>File filters (\<open>object/sync/filter/filter.go\<close>)\<close>

text \<open>
  The filter is its list of rules; the options append to it. Patterns are matched by
  \<open>path/filepath.Match\<close> of the standard library, which is modelled by its own algorithm: the
  pattern is cut into chunks at the stars, each chunk is matched at the first place it fits, and
  a star does not cross a slash. Names and patterns are of one-byte characters.
\<close>

subsection \<open>\<open>filepath.Match\<close>\<close>

text \<open>A character of a class, possibly escaped; \<open>None\<close> is a malformed pattern.\<close>

fun getEsc :: "string \<Rightarrow> (char \<times> string) option" where
  "getEsc [] = None"
| "getEsc (c # cs) =
     (if c = CHR ''-'' \<or> c = CHR '']'' then None
      else if c = CHR 0x5C
      then (case cs of [] \<Rightarrow> None | d # ds \<Rightarrow> if ds = [] then None else Some (d, ds))
      else if cs = [] then None else Some (c, cs))"

lemma getEsc_length: "getEsc cs = Some (c, ds) \<Longrightarrow> length ds < length cs"
  by (cases cs) (auto split: if_splits list.splits)

text \<open>One range of a class: whether it holds \<open>r\<close>, and what follows it.\<close>

definition class_range :: "char \<Rightarrow> string \<Rightarrow> (bool \<times> string) option" where
  "class_range r chunk =
     (case getEsc chunk of
        None \<Rightarrow> None
      | Some (lo, rest) \<Rightarrow>
          if hd rest = CHR ''-''
          then (case getEsc (tl rest) of
                  None \<Rightarrow> None
                | Some (hi, rest') \<Rightarrow> Some (lo \<le> r \<and> r \<le> hi, rest'))
          else Some (lo = r, rest))"

lemma class_range_length: "class_range r chunk = Some (b, rest) \<Longrightarrow> length rest < length chunk"
proof -
  assume a: "class_range r chunk = Some (b, rest)"
  then obtain lo rest1 where e: "getEsc chunk = Some (lo, rest1)"
    by (auto simp: class_range_def split: option.splits)
  show ?thesis
  proof (cases "hd rest1 = CHR ''-''")
    case True
    with a e obtain hi where "getEsc (tl rest1) = Some (hi, rest)"
      by (auto simp: class_range_def split: option.splits)
    then show ?thesis using getEsc_length [OF e] getEsc_length [of "tl rest1" hi rest] by simp
  next
    case False
    with a e show ?thesis using getEsc_length [OF e] by (simp add: class_range_def)
  qed
qed

text \<open>The ranges of a class up to its closing bracket: whether one holds \<open>r\<close>, and the rest.\<close>

definition starts_with :: "char \<Rightarrow> string \<Rightarrow> bool" where
  "starts_with c s = (case s of [] \<Rightarrow> False | d # ds \<Rightarrow> d = c)"

function glob_class :: "char \<Rightarrow> string \<Rightarrow> nat \<Rightarrow> bool \<Rightarrow> (bool \<times> string) option" where
  "glob_class r chunk nrange m =
     (if nrange > 0 \<and> starts_with (CHR '']'') chunk then Some (m, tl chunk)
      else (case class_range r chunk of
              None \<Rightarrow> None
            | Some (b, rest) \<Rightarrow> glob_class r rest (Suc nrange) (m \<or> b)))"
  by pat_completeness auto
termination
  by (relation "measure (\<lambda>(r, chunk, nrange, m). length chunk)") (auto dest!: class_range_length)

declare glob_class.simps [simp del]

lemma glob_class_length:
  "glob_class r chunk n m = Some (b, rest) \<Longrightarrow> length rest \<le> length chunk"
proof (induction r chunk n m rule: glob_class.induct)
  case (1 r chunk n m)
  show ?case
  proof (cases "n > 0 \<and> starts_with (CHR '']'') chunk")
    case True
    with "1.prems" show ?thesis by (auto simp: glob_class.simps [of r chunk])
  next
    case False
    with "1.prems" obtain b' rest' where c: "class_range r chunk = Some (b', rest')"
      "glob_class r rest' (Suc n) (m \<or> b') = Some (b, rest)"
      by (auto simp: glob_class.simps [of r chunk] split: option.splits)
    then show ?thesis using "1.IH" [OF False c(1) refl] class_range_length [OF c(1)] by simp
  qed
qed

text \<open>
  A chunk against the front of a name. After a mismatch the scan goes on to the end of the
  chunk to find a malformed pattern (\<open>failed\<close>).
\<close>

datatype glob_result =
    BadPattern
  | NoMatch
  | MatchRest string

function matchChunk :: "bool \<Rightarrow> string \<Rightarrow> string \<Rightarrow> glob_result" where
  "matchChunk failed [] s = (if failed then NoMatch else MatchRest s)"
| "matchChunk failed (c # chunk) s =
     (let failed = (failed \<or> s = [])
      in if c = CHR ''['' then
           (let negated = starts_with (CHR ''^'') chunk
            in case glob_class (if failed then CHR 0x00 else hd s) (if negated then tl chunk else chunk) 0 False of
                 None \<Rightarrow> BadPattern
               | Some (m, rest) \<Rightarrow> matchChunk (failed \<or> m = negated) rest (tl s))
         else if c = CHR ''?'' then matchChunk (failed \<or> hd s = slash) chunk (tl s)
         else if c = CHR 0x5C then
           (case chunk of
              [] \<Rightarrow> BadPattern
            | d # rest \<Rightarrow> matchChunk (failed \<or> d \<noteq> hd s) rest (tl s))
         else matchChunk (failed \<or> c \<noteq> hd s) chunk (tl s))"
  by pat_completeness auto
termination
  by (relation "measure (\<lambda>(f, chunk, s). length chunk)")
    (auto dest!: glob_class_length simp: less_Suc_eq_le split: if_splits intro: le_trans)

declare matchChunk.simps(2) [simp del]

text \<open>The end of a chunk: the next star outside a class.\<close>

fun chunk_end :: "bool \<Rightarrow> string \<Rightarrow> nat" where
  "chunk_end inrange [] = 0"
| "chunk_end inrange (c # cs) =
     (if c = CHR 0x5C then (case cs of [] \<Rightarrow> 1 | d # ds \<Rightarrow> 2 + chunk_end inrange ds)
      else if c = CHR ''['' then 1 + chunk_end True cs
      else if c = CHR '']'' then 1 + chunk_end False cs
      else if c = CHR ''*'' \<and> \<not> inrange then 0
      else 1 + chunk_end inrange cs)"

text \<open>\<open>scanChunk\<close>: whether stars come first, the chunk, the rest of the pattern.\<close>

definition scanChunk :: "string \<Rightarrow> bool \<times> string \<times> string" where
  "scanChunk pattern =
     (let p = dropWhile (\<lambda>c. c = CHR ''*'') pattern;
          n = chunk_end False p
      in (p \<noteq> pattern, take n p, drop n p))"

text \<open>The first place at or after the start of \<open>name\<close> that a star can skip to.\<close>

fun star_skip :: "string \<Rightarrow> bool \<Rightarrow> string \<Rightarrow> glob_result" where
  "star_skip chunk isLast [] = NoMatch"
| "star_skip chunk isLast (c # name) =
     (if c = slash then NoMatch
      else (case matchChunk False chunk name of
              MatchRest t \<Rightarrow> if isLast \<and> t \<noteq> [] then star_skip chunk isLast name else MatchRest t
            | BadPattern \<Rightarrow> BadPattern
            | NoMatch \<Rightarrow> star_skip chunk isLast name))"

text \<open>
  \<open>Match\<close>, its first result. A malformed pattern gives false, whether or not the rest of it is
  looked at. The fuel is the length of the pattern, which every chunk shortens.
\<close>

fun glob_loop :: "nat \<Rightarrow> string \<Rightarrow> string \<Rightarrow> bool" where
  "glob_loop 0 pattern name = (pattern = [] \<and> name = [])"
| "glob_loop (Suc n) pattern name =
     (if pattern = [] then name = []
      else (case scanChunk pattern of
              (star, chunk, rest) \<Rightarrow>
                if star \<and> chunk = [] then slash \<notin> set name
                else (case matchChunk False chunk name of
                        MatchRest t \<Rightarrow>
                          if t = [] \<or> rest \<noteq> [] then glob_loop n rest t
                          else if star
                          then (case star_skip chunk (rest = []) name of
                                  MatchRest t \<Rightarrow> glob_loop n rest t | _ \<Rightarrow> False)
                          else False
                      | BadPattern \<Rightarrow> False
                      | NoMatch \<Rightarrow>
                          if star
                          then (case star_skip chunk (rest = []) name of
                                  MatchRest t \<Rightarrow> glob_loop n rest t | _ \<Rightarrow> False)
                          else False)))"

definition filepath_Match :: "string \<Rightarrow> string \<Rightarrow> bool" where
  "filepath_Match pattern name = glob_loop (Suc (length pattern)) pattern name"

subsection \<open>Rules\<close>

datatype ruleType = ruleInclude | ruleExclude | ruleMinSize | ruleMaxSize | ruleMinAge | ruleMaxAge

record rule =
  rType :: ruleType
  rPattern :: string
  rSize :: int
  rDuration :: duration

text \<open>A filter; the nil filter of \<open>Options\<close> is an option.\<close>

type_synonym Filter = "rule list"
type_synonym FilterOption = "Filter \<Rightarrow> Filter"

definition zeroRule :: "ruleType \<Rightarrow> rule" where
  "zeroRule t = \<lparr>rType = t, rPattern = [], rSize = 0, rDuration = 0\<rparr>"

definition Include :: "string \<Rightarrow> FilterOption" where
  "Include pattern f = f @ [(zeroRule ruleInclude)\<lparr>rPattern := pattern\<rparr>]"

definition Exclude :: "string \<Rightarrow> FilterOption" where
  "Exclude pattern f = f @ [(zeroRule ruleExclude)\<lparr>rPattern := pattern\<rparr>]"

definition MinSize :: "int \<Rightarrow> FilterOption" where
  "MinSize sz f = f @ [(zeroRule ruleMinSize)\<lparr>rSize := sz\<rparr>]"

definition MaxSize :: "int \<Rightarrow> FilterOption" where
  "MaxSize sz f = f @ [(zeroRule ruleMaxSize)\<lparr>rSize := sz\<rparr>]"

definition MinAge :: "duration \<Rightarrow> FilterOption" where
  "MinAge d f = f @ [(zeroRule ruleMinAge)\<lparr>rDuration := d\<rparr>]"

definition MaxAge :: "duration \<Rightarrow> FilterOption" where
  "MaxAge d f = f @ [(zeroRule ruleMaxAge)\<lparr>rDuration := d\<rparr>]"

definition filter_New :: "FilterOption list \<Rightarrow> Filter" where
  "filter_New opts = fold (\<lambda>opt f. opt f) opts []"

text \<open>
  \<open>FromFile\<close>, from the lines that the scanner delivers: each is trimmed of white space, blank
  lines and comments are skipped, a plus sign includes and everything else excludes.
\<close>

definition is_space :: "char \<Rightarrow> bool" where
  "is_space c \<longleftrightarrow> c \<in> {CHR '' '', CHR 0x09, CHR 0x0A, CHR 0x0B, CHR 0x0C, CHR 0x0D}"

definition TrimSpace :: "string \<Rightarrow> string" where
  "TrimSpace s = rev (dropWhile is_space (rev (dropWhile is_space s)))"

fun parse_lines :: "string list \<Rightarrow> FilterOption list" where
  "parse_lines [] = []"
| "parse_lines (l # ls) =
     (let line = TrimSpace l
      in if line = [] \<or> has_prefix line ''#'' then parse_lines ls
         else if has_prefix line ''+ '' then Include (trim_prefix line ''+ '') # parse_lines ls
         else if has_prefix line ''- '' then Exclude (trim_prefix line ''- '') # parse_lines ls
         else Exclude line # parse_lines ls)"

definition FromFile :: "string list \<Rightarrow> FilterOption" where
  "FromFile ls f = fold (\<lambda>opt f. opt f) (parse_lines ls) f"

subsection \<open>Matching\<close>

record FilterFileInfo =
  ffiPath :: path
  ffiSize :: int
  ffiModTime :: time
  ffiIsDir :: bool

text \<open>\<open>strings.ReplaceAll(pattern, "**", "*")\<close>.\<close>

fun replace_stars :: "string \<Rightarrow> string" where
  "replace_stars (c # d # cs) =
     (if c = CHR ''*'' \<and> d = CHR ''*'' then CHR ''*'' # replace_stars cs else c # replace_stars (d # cs))"
| "replace_stars cs = cs"

definition matchPattern :: "string \<Rightarrow> path \<Rightarrow> bool" where
  "matchPattern pattern p =
     (if filepath_Match pattern p then True
      else let filename = path_base p
           in if filepath_Match pattern filename then True
              else if str_contains pattern ''**'' then
                let simplePattern = replace_stars pattern
                in filepath_Match simplePattern p \<or> filepath_Match simplePattern filename
              else False)"

text \<open>The first loop: whether there are include rules, and whether one matches.\<close>

fun include_loop :: "rule list \<Rightarrow> path \<Rightarrow> bool \<times> bool \<Rightarrow> bool \<times> bool" where
  "include_loop [] p (has, m) = (has, m)"
| "include_loop (r # rs) p (has, m) =
     (if rType r = ruleInclude then include_loop rs p (True, m \<or> matchPattern (rPattern r) p)
      else include_loop rs p (has, m))"

text \<open>The second loop; \<open>now\<close> is the time of the call.\<close>

fun constraint_loop :: "time \<Rightarrow> rule list \<Rightarrow> FilterFileInfo \<Rightarrow> bool" where
  "constraint_loop now [] fi = True"
| "constraint_loop now (r # rs) fi =
     (case rType r of
        ruleInclude \<Rightarrow> constraint_loop now rs fi
      | ruleExclude \<Rightarrow> if matchPattern (rPattern r) (ffiPath fi) then False else constraint_loop now rs fi
      | ruleMinSize \<Rightarrow> if ffiSize fi < rSize r then False else constraint_loop now rs fi
      | ruleMaxSize \<Rightarrow> if ffiSize fi > rSize r then False else constraint_loop now rs fi
      | ruleMinAge \<Rightarrow>
          if time_sub now (ffiModTime fi) < rDuration r then False else constraint_loop now rs fi
      | ruleMaxAge \<Rightarrow>
          if time_sub now (ffiModTime fi) > rDuration r then False else constraint_loop now rs fi)"

definition filter_Match :: "time \<Rightarrow> Filter option \<Rightarrow> FilterFileInfo \<Rightarrow> bool" where
  "filter_Match now f fi =
     (case f of
        None \<Rightarrow> True
      | Some rules \<Rightarrow>
          if rules = [] then True
          else (case include_loop rules (ffiPath fi) (False, False) of
                  (hasIncludes, matchesInclude) \<Rightarrow>
                    if hasIncludes \<and> \<not> matchesInclude then False else constraint_loop now rules fi))"

definition MatchPath :: "time \<Rightarrow> Filter option \<Rightarrow> path \<Rightarrow> bool" where
  "MatchPath now f p =
     filter_Match now f \<lparr>ffiPath = p, ffiSize = 0, ffiModTime = 0, ffiIsDir = False\<rparr>"

definition filter_IsEmpty :: "Filter option \<Rightarrow> bool" where
  "filter_IsEmpty f = (case f of None \<Rightarrow> True | Some rules \<Rightarrow> rules = [])"

lemmas filter_options = Include_def Exclude_def MinSize_def MaxSize_def MinAge_def MaxAge_def zeroRule_def

lemma include_loop_eq:
  "include_loop rs p (has, m) =
     (has \<or> (\<exists>r \<in> set rs. rType r = ruleInclude),
      m \<or> (\<exists>r \<in> set rs. rType r = ruleInclude \<and> matchPattern (rPattern r) p))"
  by (induction rs arbitrary: has m) auto

text \<open>What a rule that is not an include asks of a file.\<close>

definition rule_allows :: "time \<Rightarrow> rule \<Rightarrow> FilterFileInfo \<Rightarrow> bool" where
  "rule_allows now r fi =
     (case rType r of
        ruleInclude \<Rightarrow> True
      | ruleExclude \<Rightarrow> \<not> matchPattern (rPattern r) (ffiPath fi)
      | ruleMinSize \<Rightarrow> rSize r \<le> ffiSize fi
      | ruleMaxSize \<Rightarrow> ffiSize fi \<le> rSize r
      | ruleMinAge \<Rightarrow> rDuration r \<le> time_sub now (ffiModTime fi)
      | ruleMaxAge \<Rightarrow> time_sub now (ffiModTime fi) \<le> rDuration r)"

lemma constraint_loop_iff: "constraint_loop now rs fi \<longleftrightarrow> (\<forall>r \<in> set rs. rule_allows now r fi)"
  by (induction rs) (auto simp: rule_allows_def split: ruleType.splits)

lemma filter_Match_rules:
  "filter_Match now (Some rules) fi \<longleftrightarrow>
     ((\<exists>r \<in> set rules. rType r = ruleInclude) \<longrightarrow>
        (\<exists>r \<in> set rules. rType r = ruleInclude \<and> matchPattern (rPattern r) (ffiPath fi))) \<and>
     (\<forall>r \<in> set rules. rule_allows now r fi)"
  by (auto simp: filter_Match_def include_loop_eq constraint_loop_iff)

text \<open>Patterns without a special character match only themselves, or a file of that name.\<close>

definition glob_plain :: "string \<Rightarrow> bool" where
  "glob_plain p \<longleftrightarrow> set p \<inter> {CHR ''*'', CHR ''?'', CHR ''['', CHR '']'', CHR 0x5C} = {}"

lemma chunk_end_plain: "glob_plain p \<Longrightarrow> chunk_end False p = length p"
  by (induction p) (auto simp: glob_plain_def)

lemma scanChunk_plain: "glob_plain p \<Longrightarrow> scanChunk p = (False, p, [])"
proof -
  assume p: "glob_plain p"
  then have "dropWhile (\<lambda>c. c = CHR ''*'') p = p" by (cases p) (auto simp: glob_plain_def)
  with p show ?thesis by (simp add: scanChunk_def chunk_end_plain)
qed

lemma matchChunk_failed_plain: "glob_plain p \<Longrightarrow> matchChunk True p s = NoMatch"
  by (induction p arbitrary: s) (auto simp: glob_plain_def matchChunk.simps(2))

lemma matchChunk_plain:
  "glob_plain p \<Longrightarrow> matchChunk False p s = (if prefix p s then MatchRest (drop (length p) s) else NoMatch)"
proof (induction p arbitrary: s)
  case (Cons c p)
  then have "glob_plain p" "c \<noteq> CHR ''*''" "c \<noteq> CHR ''?''" "c \<noteq> CHR ''[''" "c \<noteq> CHR 0x5C"
    by (auto simp: glob_plain_def)
  then show ?case
    using Cons.IH [of "tl s"] matchChunk_failed_plain [of p "tl s"]
    by (cases s; cases "c = hd s") (simp_all add: matchChunk.simps(2))
qed simp

lemma filepath_Match_plain:
  assumes "glob_plain p" shows "filepath_Match p name \<longleftrightarrow> p = name"
proof (cases "p = []")
  case True
  then show ?thesis by (auto simp: filepath_Match_def)
next
  case False
  then obtain n where "length p = Suc n" by (cases p) auto
  then show ?thesis
    using assms False
    by (auto simp: filepath_Match_def scanChunk_plain matchChunk_plain prefix_def)
qed

lemma filepath_Match_star: "filepath_Match ''*'' name \<longleftrightarrow> slash \<notin> set name"
  by (simp add: filepath_Match_def scanChunk_def)

text \<open>A star and a suffix: the suffix must end the name, with no slash before it.\<close>

lemma star_skip_suffix:
  assumes "glob_plain e" "e \<noteq> []"
  shows "(\<exists>t. star_skip e True name = MatchRest t) \<longleftrightarrow>
      (\<exists>us. us \<noteq> [] \<and> slash \<notin> set us \<and> name = us @ e)"
    and "star_skip e True name = MatchRest t \<Longrightarrow> t = []"
proof (induction name)
  case Nil
  case 1 show ?case by simp
  case 2 then show ?case by simp
next
  case (Cons c name)
  have eq: "prefix e name \<and> drop (length e) name = [] \<longleftrightarrow> name = e" by (auto simp: prefix_def)
  have split: "(\<exists>us. us \<noteq> [] \<and> slash \<notin> set us \<and> c # name = us @ e) \<longleftrightarrow>
      c \<noteq> slash \<and> (name = e \<or> (\<exists>us. us \<noteq> [] \<and> slash \<notin> set us \<and> name = us @ e))"
  proof -
    have "(\<exists>us. us \<noteq> [] \<and> slash \<notin> set us \<and> c # name = us @ e) \<longleftrightarrow>
        c \<noteq> slash \<and> (\<exists>us. slash \<notin> set us \<and> name = us @ e)"
      by (auto simp: Cons_eq_append_conv intro: exI [of _ "c # _"])
    also have "(\<exists>us. slash \<notin> set us \<and> name = us @ e) \<longleftrightarrow>
        name = e \<or> (\<exists>us. us \<noteq> [] \<and> slash \<notin> set us \<and> name = us @ e)"
      by (metis append_Nil empty_iff empty_set)
    finally show ?thesis .
  qed
  case 1
  show ?case unfolding split using Cons.IH eq assms
    by (auto simp: matchChunk_plain split: if_splits)
  case 2
  then show ?case using Cons.IH(2) assms by (auto simp: matchChunk_plain split: if_splits)
qed

lemma filepath_Match_suffix:
  assumes "glob_plain e" "e \<noteq> []"
  shows "filepath_Match (CHR ''*'' # e) name \<longleftrightarrow> (\<exists>us. slash \<notin> set us \<and> name = us @ e)"
proof -
  obtain n where n: "length e = Suc n" using assms(2) by (cases e) auto
  have "dropWhile (\<lambda>c. c = CHR ''*'') e = e" using assms by (cases e) (auto simp: glob_plain_def)
  then have sc: "scanChunk (CHR ''*'' # e) = (True, e, [])"
    using assms(1) by (simp add: scanChunk_def chunk_end_plain)
  have gl: "glob_loop (Suc (Suc n)) [] t \<longleftrightarrow> t = []" for t by simp
  have skip: "(case star_skip e True name of MatchRest t \<Rightarrow> glob_loop (Suc (Suc n)) [] t | _ \<Rightarrow> False) \<longleftrightarrow>
      (\<exists>us. us \<noteq> [] \<and> slash \<notin> set us \<and> name = us @ e)"
    using star_skip_suffix [OF assms, of name] by (auto split: glob_result.splits)
  have "filepath_Match (CHR ''*'' # e) name \<longleftrightarrow>
      name = e \<or> (\<exists>us. us \<noteq> [] \<and> slash \<notin> set us \<and> name = us @ e)"
  proof (cases "prefix e name")
    case True
    then obtain t where t: "name = e @ t" by (auto simp: prefix_def)
    then show ?thesis
      using skip sc assms n
      by (cases "t = []") (simp_all add: filepath_Match_def matchChunk_plain del: glob_loop.simps(1))
  next
    case False
    then have "name \<noteq> e" by auto
    with False skip sc assms n show ?thesis by (simp add: filepath_Match_def matchChunk_plain)
  qed
  also have "\<dots> \<longleftrightarrow> (\<exists>us. slash \<notin> set us \<and> name = us @ e)"
    by (metis append_Nil empty_iff empty_set)
  finally show ?thesis .
qed

subsection \<open>Properties\<close>

text \<open>A filter passes a file exactly if one of its include rules matches (when there is any) and no
  exclude, size or age rule rejects it; the order of the rules does not matter, and a filter with
  no rules (or none at all) passes everything.\<close>

theorem filter_decision:
  "(filter_Match now (Some rules) fi \<longleftrightarrow>
     ((\<exists>r \<in> set rules. rType r = ruleInclude) \<longrightarrow>
        (\<exists>r \<in> set rules. rType r = ruleInclude \<and> matchPattern (rPattern r) (ffiPath fi))) \<and>
     (\<forall>r \<in> set rules. rule_allows now r fi)) \<and>
   filter_Match now (Some []) fi \<and> filter_Match now None fi"
  by (simp only: filter_Match_rules) (simp add: filter_Match_def)

theorem filter_decision_witness:
  "filter_Match 0 (Some (filter_New [Include ''*'', MaxSize 10]))
     \<lparr>ffiPath = ''a'', ffiSize = 3, ffiModTime = 0, ffiIsDir = False\<rparr>"
proof -
  have "filepath_Match ''*'' ''a''" by (simp add: filepath_Match_star)
  then show ?thesis
    by (simp only: filter_decision) (simp add: filter_New_def filter_options rule_allows_def matchPattern_def)
qed

text \<open>A pattern of the form star, suffix (such as \<open>*.txt\<close>) matches a path exactly if its last element
  ends in the suffix, or the whole path is one element that does.\<close>

theorem suffix_pattern:
  assumes "glob_plain e" "e \<noteq> []"
  shows "matchPattern (CHR ''*'' # e) p \<longleftrightarrow>
    (\<exists>us. slash \<notin> set us \<and> p = us @ e) \<or> (\<exists>us. slash \<notin> set us \<and> path_base p = us @ e)"
proof -
  have "\<not> str_contains (CHR ''*'' # e) ''**''"
  proof
    assume "str_contains (CHR ''*'' # e) ''**''"
    then obtain us vs where "CHR ''*'' # e = us @ CHR ''*'' # CHR ''*'' # vs" by (auto simp: str_contains_def sublist_def)
    then have "CHR ''*'' \<in> set e" by (cases us) auto
    with assms(1) show False by (auto simp: glob_plain_def)
  qed
  then show ?thesis using filepath_Match_suffix [OF assms] by (simp add: matchPattern_def Let_def)
qed

theorem suffix_pattern_witness:
  "matchPattern (CHR ''*'' # ''.txt'') ''dir/notes.txt'' \<longleftrightarrow>
    (\<exists>us. slash \<notin> set us \<and> ''dir/notes.txt'' = us @ ''.txt'') \<or>
    (\<exists>us. slash \<notin> set us \<and> path_base ''dir/notes.txt'' = us @ ''.txt'')"
  by (rule suffix_pattern) (simp_all add: glob_plain_def)

end
