(* ===== verification/Retry.thy ===== *)
theory Retry
  imports ObjectTypes Complex_Main
begin

section \<open>Retrying an operation (\<open>object/sync/retry.go\<close>)\<close>

text \<open>
  \<open>retryOperation\<close> over an operation on a state \<open>'w\<close>. The multiplier and the jitter, floats in the
  code, are rationals; a random number of \<open>rand.Float64()\<close> is drawn from a sequence. The context
  answers two polls in every failed attempt: \<open>ctx.Err()\<close>, and the \<open>select\<close> between its end and the
  timer. The result has, beside the error, the delays that were waited for.
\<close>

record RetryConfig =
  rtMaxRetries :: int
  rtInitialDelay :: duration
  rtMaxDelay :: duration
  rtMultiplier :: rat
  rtJitter :: rat
  rtRetryable :: "(object_error \<Rightarrow> bool) option"

definition DefaultRetryConfig :: RetryConfig where
  "DefaultRetryConfig =
     \<lparr>rtMaxRetries = 3, rtInitialDelay = second, rtMaxDelay = 30 * second, rtMultiplier = 2,
      rtJitter = 1 / 10, rtRetryable = None\<rparr>"

text \<open>The conversion of a float to an integer truncates.\<close>

definition trunc_rat :: "rat \<Rightarrow> int" where
  "trunc_rat q = (if 0 \<le> q then \<lfloor>q\<rfloor> else - \<lfloor>- q\<rfloor>)"

definition retry_defaults :: "RetryConfig \<Rightarrow> RetryConfig" where
  "retry_defaults config = config
     \<lparr>rtInitialDelay := (if rtInitialDelay config \<le> 0 then second else rtInitialDelay config),
      rtMaxDelay := (if rtMaxDelay config \<le> 0 then 30 * second else rtMaxDelay config),
      rtMultiplier := (if rtMultiplier config \<le> 0 then 2 else rtMultiplier config)\<rparr>"

definition actual_delay :: "RetryConfig \<Rightarrow> rat \<Rightarrow> duration \<Rightarrow> duration" where
  "actual_delay config r delay =
     (if rtJitter config > 0
      then delay + trunc_rat ((r * 2 - 1) * (rat_of_int delay * rtJitter config)) else delay)"

definition next_delay :: "RetryConfig \<Rightarrow> duration \<Rightarrow> duration" where
  "next_delay config delay =
     (let d = trunc_rat (rat_of_int delay * rtMultiplier config)
      in if d > rtMaxDelay config then rtMaxDelay config else d)"

definition not_retryable :: "RetryConfig \<Rightarrow> object_error \<Rightarrow> bool" where
  "not_retryable config e = (case rtRetryable config of None \<Rightarrow> False | Some f \<Rightarrow> \<not> f e)"

text \<open>The loop with \<open>n\<close> retries left, at attempt \<open>k\<close>.\<close>

fun retry_loop ::
  "nat \<Rightarrow> nat \<Rightarrow> RetryConfig \<Rightarrow> (nat \<Rightarrow> object_error option) \<Rightarrow> (nat \<Rightarrow> rat) \<Rightarrow> duration \<Rightarrow>
   ('w \<Rightarrow> object_error option \<times> 'w) \<Rightarrow> 'w \<Rightarrow> (object_error option \<times> duration list) \<times> 'w" where
  "retry_loop n k config ctx rnd delay op w =
     (case op w of
        (None, w1) \<Rightarrow> ((None, []), w1)
      | (Some e, w1) \<Rightarrow>
          if not_retryable config e then ((Some e, []), w1)
          else (case ctx (2 * k) of
                  Some c \<Rightarrow> ((Some c, []), w1)
                | None \<Rightarrow>
                    (case n of
                       0 \<Rightarrow> ((Some (RetryError (rtMaxRetries config + 1) e), []), w1)
                     | Suc m \<Rightarrow>
                         (case ctx (2 * k + 1) of
                            Some c \<Rightarrow> ((Some c, []), w1)
                          | None \<Rightarrow>
                              (case retry_loop m (Suc k) config ctx rnd (next_delay config delay) op w1 of
                                 ((r, ds), w2) \<Rightarrow> ((r, actual_delay config (rnd k) delay # ds), w2))))))"

declare retry_loop.simps [simp del]

definition retryOperation ::
  "(nat \<Rightarrow> object_error option) \<Rightarrow> (nat \<Rightarrow> rat) \<Rightarrow> RetryConfig \<Rightarrow> ('w \<Rightarrow> object_error option \<times> 'w) \<Rightarrow>
   'w \<Rightarrow> (object_error option \<times> duration list) \<times> 'w" where
  "retryOperation ctx rnd config op w =
     (if rtMaxRetries config \<le> 0 then (case op w of (e, w1) \<Rightarrow> ((e, []), w1))
      else let c = retry_defaults config
           in retry_loop (nat (rtMaxRetries c)) 0 c ctx rnd (rtInitialDelay c) op w)"

fun IsRetryError :: "object_error \<Rightarrow> bool" where
  "IsRetryError (RetryError n e) = True"
| "IsRetryError (Wrapf m e) = IsRetryError e"
| "IsRetryError (MultiError (e # es)) = IsRetryError e"
| "IsRetryError _ = False"

text \<open>
  \<open>errors.As\<close> for an interface: what the first error of the chain that has the method answers.
  \<open>temporary\<close> and \<open>timeout\<close> are the methods \<open>Temporary\<close> and \<open>Timeout\<close> of an error, \<open>None\<close> where it has none.
\<close>

fun errors_as :: "(object_error \<Rightarrow> 'a option) \<Rightarrow> object_error \<Rightarrow> 'a option" where
  "errors_as f (Wrapf m e) = (case f (Wrapf m e) of None \<Rightarrow> errors_as f e | Some x \<Rightarrow> Some x)"
| "errors_as f (RetryError n e) = (case f (RetryError n e) of None \<Rightarrow> errors_as f e | Some x \<Rightarrow> Some x)"
| "errors_as f (MultiError (e # es)) = (case f (MultiError (e # es)) of None \<Rightarrow> errors_as f e | Some x \<Rightarrow> Some x)"
| "errors_as f e = f e"

definition IsTemporaryError ::
  "(object_error \<Rightarrow> bool option) \<Rightarrow> (object_error \<Rightarrow> bool option) \<Rightarrow> object_error option \<Rightarrow> bool" where
  "IsTemporaryError temporary timeout err =
     (case err of
        None \<Rightarrow> False
      | Some e \<Rightarrow>
          (case errors_as temporary e of
             Some t \<Rightarrow> t
           | None \<Rightarrow> (case errors_as timeout e of Some t \<Rightarrow> t | None \<Rightarrow> False)))"

text \<open>Wrapping an error does not change whether it is temporary; a timeout counts only where nothing says whether it is temporary.\<close>

lemma IsTemporaryError_wrapped:
  assumes "temporary (Wrapf m e) = None" "timeout (Wrapf m e) = None"
  shows "IsTemporaryError temporary timeout (Some (Wrapf m e)) = IsTemporaryError temporary timeout (Some e)"
  using assms by (cases "errors_as temporary e") (simp_all add: IsTemporaryError_def)

subsection \<open>Attempts\<close>

text \<open>The state before attempt \<open>k\<close> and the outcome of attempt \<open>k\<close>, when every attempt is made.\<close>

fun op_state :: "('w \<Rightarrow> object_error option \<times> 'w) \<Rightarrow> 'w \<Rightarrow> nat \<Rightarrow> 'w" where
  "op_state op w 0 = w"
| "op_state op w (Suc k) = op_state op (snd (op w)) k"

definition op_result :: "('w \<Rightarrow> object_error option \<times> 'w) \<Rightarrow> 'w \<Rightarrow> nat \<Rightarrow> object_error option" where
  "op_result op w k = fst (op (op_state op w k))"

lemma op_result_0 [simp]: "op_result op w 0 = fst (op w)"
  by (simp add: op_result_def)

lemma op_result_Suc: "op_result op w (Suc k) = op_result op (snd (op w)) k"
  by (simp add: op_result_def)

text \<open>One failed attempt after which the loop goes on.\<close>

lemma retry_loop_step:
  assumes "fst (op w) = Some e" "\<not> not_retryable config e" "\<forall>i. ctx i = None"
  shows "retry_loop (Suc m) k config ctx rnd delay op w =
    (case retry_loop m (Suc k) config ctx rnd (next_delay config delay) op (snd (op w)) of
       ((r, ds), w2) \<Rightarrow> ((r, actual_delay config (rnd k) delay # ds), w2))"
  using assms by (subst retry_loop.simps) (simp add: case_prod_beta split: option.splits)

lemma retry_loop_first_success:
  assumes "\<forall>i. ctx i = None" "j \<le> n" "op_result op w j = None"
    "\<forall>i < j. \<exists>e. op_result op w i = Some e \<and> \<not> not_retryable config e"
  shows "\<exists>ds. retry_loop n k config ctx rnd delay op w = ((None, ds), op_state op w (Suc j)) \<and> length ds = j"
  using assms(2-)
proof (induction j arbitrary: n k delay w)
  case 0
  then show ?case by (cases "op w") (simp add: retry_loop.simps)
next
  case (Suc j)
  then obtain m where n: "n = Suc m" "j \<le> m" by (cases n) auto
  obtain e where e: "fst (op w) = Some e" "\<not> not_retryable config e"
    using Suc.prems(3) by (metis op_result_0 zero_less_Suc)
  have "\<forall>i < j. \<exists>e. op_result op (snd (op w)) i = Some e \<and> \<not> not_retryable config e"
    using Suc.prems(3) by (metis op_result_Suc Suc_less_eq)
  then obtain ds where "retry_loop m (Suc k) config ctx rnd (next_delay config delay) op (snd (op w)) =
      ((None, ds), op_state op (snd (op w)) (Suc j))" "length ds = j"
    using Suc.IH [OF n(2), of "snd (op w)" "Suc k" "next_delay config delay"] Suc.prems(2)
    by (auto simp: op_result_Suc)
  then show ?case using retry_loop_step [of op w e config ctx m k rnd delay, OF e assms(1)] n(1) by simp
qed

lemma retry_loop_exhausted:
  assumes "\<forall>i. ctx i = None" "\<forall>i \<le> n. \<exists>e. op_result op w i = Some e \<and> \<not> not_retryable config e"
  shows "\<exists>ds. retry_loop n k config ctx rnd delay op w =
      ((map_option (RetryError (rtMaxRetries config + 1)) (op_result op w n), ds), op_state op w (Suc n)) \<and>
    length ds = n"
  using assms(2)
proof (induction n arbitrary: k delay w)
  case 0
  then show ?case using assms(1) by (cases "op w") (auto simp: retry_loop.simps)
next
  case (Suc n)
  obtain e where e: "fst (op w) = Some e" "\<not> not_retryable config e"
    using Suc.prems by (metis op_result_0 zero_le)
  have "\<forall>i \<le> n. \<exists>e. op_result op (snd (op w)) i = Some e \<and> \<not> not_retryable config e"
    using Suc.prems by (metis op_result_Suc Suc_le_mono)
  then obtain ds where "retry_loop n (Suc k) config ctx rnd (next_delay config delay) op (snd (op w)) =
      ((map_option (RetryError (rtMaxRetries config + 1)) (op_result op (snd (op w)) n), ds),
       op_state op (snd (op w)) (Suc n))" "length ds = n"
    using Suc.IH by blast
  then show ?case using retry_loop_step [of op w e config ctx n k rnd delay, OF e assms(1)]
    by (simp add: op_result_Suc)
qed

subsection \<open>Delays\<close>

lemma next_delay_le: "next_delay config delay \<le> rtMaxDelay config"
  by (simp add: next_delay_def Let_def)

lemma next_delay_nonneg:
  "0 \<le> delay \<Longrightarrow> 0 \<le> rtMultiplier config \<Longrightarrow> 0 \<le> rtMaxDelay config \<Longrightarrow> 0 \<le> next_delay config delay"
  by (simp add: next_delay_def Let_def trunc_rat_def)

text \<open>With no jitter the waited delays are the exact geometric schedule, capped after the first.\<close>

lemma retry_loop_delays:
  assumes "rtJitter config \<le> 0"
  shows "snd (fst (retry_loop n k config ctx rnd delay op w)) \<in>
    {take j (map (\<lambda>i. (next_delay config ^^ i) delay) [0..<n]) | j. j \<le> n}"
proof (induction n arbitrary: k delay w)
  case 0
  then show ?case
    by (subst retry_loop.simps) (auto split: prod.splits option.splits)
next
  case (Suc n)
  have step: "map (\<lambda>i. (next_delay config ^^ i) delay) [0..<Suc n] =
      delay # map (\<lambda>i. (next_delay config ^^ i) (next_delay config delay)) [0..<n]"
    by (simp add: map_upt_Suc funpow_swap1 del: upt_Suc)
  have nil: "[] \<in> {take j (map (\<lambda>i. (next_delay config ^^ i) delay) [0..<Suc n]) | j. j \<le> Suc n}"
    by (intro CollectI exI [of _ 0]) simp
  obtain r ds w2 where rec: "retry_loop n (Suc k) config ctx rnd (next_delay config delay) op (snd (op w)) = ((r, ds), w2)"
    by (metis prod.collapse)
  with Suc.IH [of "Suc k" "next_delay config delay" "snd (op w)"]
  obtain j where "j \<le> n" "ds = take j (map (\<lambda>i. (next_delay config ^^ i) (next_delay config delay)) [0..<n])"
    by auto
  then have "delay # ds \<in> {take j (map (\<lambda>i. (next_delay config ^^ i) delay) [0..<Suc n]) | j. j \<le> Suc n}"
    unfolding step by (intro CollectI exI [of _ "Suc j"]) simp
  moreover have "snd (fst (retry_loop (Suc n) k config ctx rnd delay op w)) \<in> {[], delay # ds}"
    using rec assms by (cases "op w"; subst retry_loop.simps) (simp add: actual_delay_def split: option.splits)
  ultimately show ?case using nil by auto
qed

subsection \<open>Properties\<close>

text \<open>With a live context the operation is attempted until it first succeeds, as long as the failures
  before are retryable and no more than \<open>MaxRetries\<close>: the result is success, one delay was
  waited for each failure, and the state is that after exactly these attempts.\<close>

theorem retry_first_success:
  assumes "\<forall>i. ctx i = None" "int j \<le> rtMaxRetries config" "0 < rtMaxRetries config"
    "op_result op w j = None" "\<forall>i < j. \<exists>e. op_result op w i = Some e \<and> \<not> not_retryable config e"
  shows "\<exists>ds. retryOperation ctx rnd config op w = ((None, ds), op_state op w (Suc j)) \<and> length ds = j"
proof -
  have "not_retryable (retry_defaults config) = not_retryable config"
    by (rule ext) (simp add: not_retryable_def retry_defaults_def)
  then show ?thesis
    using retry_loop_first_success [of ctx j "nat (rtMaxRetries config)" op w "retry_defaults config" 0 rnd
        "rtInitialDelay (retry_defaults config)"] assms
    by (simp add: retryOperation_def Let_def retry_defaults_def)
qed

definition fail_twice :: "nat \<Rightarrow> object_error option \<times> nat" where
  "fail_twice n = (if n < 2 then Some ErrNotFound else None, Suc n)"

theorem retry_first_success_witness:
  "\<exists>ds. retryOperation (\<lambda>i. None) (\<lambda>i. 0) DefaultRetryConfig fail_twice 0 = ((None, ds), op_state fail_twice 0 (Suc 2)) \<and>
     length ds = 2"
  by (rule retry_first_success)
    (auto simp: DefaultRetryConfig_def op_result_def fail_twice_def numeral_2_eq_2 not_retryable_def less_Suc_eq)

text \<open>If every attempt fails retryably, exactly \<open>MaxRetries + 1\<close> attempts are made and the result is a
  \<open>RetryError\<close> with that number that wraps the last attempt's error.\<close>

theorem retry_exhausted:
  assumes "\<forall>i. ctx i = None" "0 < rtMaxRetries config"
    "\<forall>i \<le> nat (rtMaxRetries config). \<exists>e. op_result op w i = Some e \<and> \<not> not_retryable config e"
  shows "\<exists>e ds. op_result op w (nat (rtMaxRetries config)) = Some e \<and>
    retryOperation ctx rnd config op w =
      ((Some (RetryError (rtMaxRetries config + 1) e), ds), op_state op w (Suc (nat (rtMaxRetries config)))) \<and>
    length ds = nat (rtMaxRetries config) \<and> errors_is (RetryError (rtMaxRetries config + 1) e) e"
proof -
  have nr: "not_retryable (retry_defaults config) = not_retryable config"
    by (rule ext) (simp add: not_retryable_def retry_defaults_def)
  obtain e where "op_result op w (nat (rtMaxRetries config)) = Some e" using assms(3) by blast
  then show ?thesis
    using retry_loop_exhausted [of ctx "nat (rtMaxRetries config)" op w "retry_defaults config" 0 rnd
        "rtInitialDelay (retry_defaults config)"] assms nr
    by (simp add: retryOperation_def Let_def retry_defaults_def)
qed

theorem retry_exhausted_witness:
  "\<exists>e ds. op_result fail_twice 0 (nat 1) = Some e \<and>
    retryOperation (\<lambda>i. None) (\<lambda>i. 0) (DefaultRetryConfig\<lparr>rtMaxRetries := 1\<rparr>) fail_twice 0 =
      ((Some (RetryError (1 + 1) e), ds), op_state fail_twice 0 (Suc (nat 1))) \<and>
    length ds = nat 1 \<and> errors_is (RetryError (1 + 1) e) e"
  using retry_exhausted [of "\<lambda>i. None" "DefaultRetryConfig\<lparr>rtMaxRetries := 1\<rparr>" fail_twice 0 "\<lambda>i. 0"]
  by (simp add: DefaultRetryConfig_def op_result_def fail_twice_def not_retryable_def le_Suc_eq)

text \<open>Without jitter the delays waited for follow the exponential schedule: the first is the initial
  delay, each next one the product with the multiplier cut at the maximum, which therefore bounds
  every delay but the first.\<close>

theorem retry_schedule:
  assumes "rtJitter config \<le> 0" "ds = snd (fst (retryOperation ctx rnd config op w))" "i < length ds"
  shows "ds ! i = (next_delay (retry_defaults config) ^^ i) (rtInitialDelay (retry_defaults config)) \<and>
    (0 < i \<longrightarrow> ds ! i \<le> rtMaxDelay (retry_defaults config)) \<and> int (length ds) \<le> rtMaxRetries config"
proof -
  let ?c = "retry_defaults config"
  have m: "0 < rtMaxRetries config"
    using assms(2,3) by (cases "0 < rtMaxRetries config") (simp_all add: retryOperation_def split: prod.splits)
  have "rtJitter ?c \<le> 0" using assms(1) by (simp add: retry_defaults_def)
  from retry_loop_delays [OF this, of "nat (rtMaxRetries ?c)" 0 ctx rnd "rtInitialDelay ?c" op w]
  obtain j where j: "ds = take j (map (\<lambda>i. (next_delay ?c ^^ i) (rtInitialDelay ?c)) [0..<nat (rtMaxRetries ?c)])"
    using assms(2) m by (auto simp: retryOperation_def Let_def)
  then have "ds ! i = (next_delay ?c ^^ i) (rtInitialDelay ?c)" using assms(3) by simp
  moreover have "(next_delay ?c ^^ i) d \<le> rtMaxDelay ?c" if "0 < i" for d
    using that next_delay_le by (cases i) auto
  moreover have "int (length ds) \<le> rtMaxRetries config" using j m by (simp add: retry_defaults_def)
  ultimately show ?thesis by simp
qed

theorem retry_schedule_witness:
  "let config = DefaultRetryConfig\<lparr>rtJitter := 0\<rparr>; ds = snd (fst (retryOperation (\<lambda>i. None) (\<lambda>i. 0) config fail_twice 0))
   in ds ! 1 = (next_delay (retry_defaults config) ^^ 1) (rtInitialDelay (retry_defaults config))"
proof -
  let ?c = "DefaultRetryConfig\<lparr>rtJitter := 0\<rparr>"
  have "\<exists>ds. retryOperation (\<lambda>i. None) (\<lambda>i. 0) ?c fail_twice 0 = ((None, ds), 3) \<and> length ds = 2"
    by (simp add: retryOperation_def DefaultRetryConfig_def retry_defaults_def Let_def fail_twice_def
        retry_loop.simps not_retryable_def numeral_3_eq_3 numeral_2_eq_2)
  then have "1 < length (snd (fst (retryOperation (\<lambda>i. None) (\<lambda>i. 0) ?c fail_twice 0)))" by auto
  from retry_schedule [OF _ refl this] show ?thesis by (simp add: Let_def)
qed

end
