(* ===== verification/SyncTypes.thy ===== *)
theory SyncTypes
  imports BackendInterface FileFilter Retry
begin

section \<open>Sync options, results and comparison (\<open>object/sync/options.go\<close>)\<close>

text \<open>
  The options without the progress callback and the logger, which only observe. The comparison
  of modification times (\<open>tsync.Equal\<close>, a third-party package) is the parameter \<open>seTimeEqual\<close> of
  the environment, with the clock that the filter reads and the random numbers and context of
  the retries.
\<close>

record MetadataOptions =
  mdContentType :: bool
  mdModTime :: bool
  mdCustomMetadata :: bool

definition DefaultMetadataOptions :: MetadataOptions where
  "DefaultMetadataOptions = \<lparr>mdContentType = True, mdModTime = False, mdCustomMetadata = False\<rparr>"

record SyncOptions =
  soDeleteExtra :: bool
  soDryRun :: bool
  soChecksum :: bool
  soIgnoreExisting :: bool
  soIgnoreSize :: bool
  soIgnoreTime :: bool
  soSizeOnly :: bool
  soMaxErrors :: int
  soConcurrency :: int
  soFilter :: "Filter option"
  soDeleteExcluded :: bool
  soBandwidthLimit :: int
  soRetry :: "RetryConfig option"
  soPreserveMetadata :: "MetadataOptions option"

text \<open>The zero value \<open>Options{}\<close>, and \<open>DefaultOptions\<close>.\<close>

definition zeroOptions :: SyncOptions where
  "zeroOptions =
     \<lparr>soDeleteExtra = False, soDryRun = False, soChecksum = False, soIgnoreExisting = False,
      soIgnoreSize = False, soIgnoreTime = False, soSizeOnly = False, soMaxErrors = 0,
      soConcurrency = 0, soFilter = None, soDeleteExcluded = False, soBandwidthLimit = 0,
      soRetry = None, soPreserveMetadata = None\<rparr>"

definition DefaultOptions :: SyncOptions where
  "DefaultOptions = zeroOptions\<lparr>soConcurrency := 4\<rparr>"

record SyncEnv =
  seTimeEqual :: "time \<Rightarrow> time \<Rightarrow> bool"
  seNow :: time
  seCtx :: "nat \<Rightarrow> object_error option"
  seRand :: "nat \<Rightarrow> rat"

record FileInfo =
  fiPath :: path
  fiSize :: int
  fiModTime :: time
  fiHash :: string
  fiIsDir :: bool

record FileError =
  fePath :: path
  feOp :: string
  feErr :: object_error

record SyncResult =
  srCopied :: nat
  srUpdated :: nat
  srDeleted :: nat
  srSkipped :: nat
  srErrors :: "FileError list"
  srBytesTransferred :: int
  srDryRun :: bool

definition Success :: "SyncResult \<Rightarrow> bool" where
  "Success r \<longleftrightarrow> length (srErrors r) = 0"

record CheckResult =
  crMatch :: "path list"
  crDiffer :: "path list"
  crSrcOnly :: "path list"
  crDstOnly :: "path list"
  crErrors :: "FileError list"

definition InSync :: "CheckResult \<Rightarrow> bool" where
  "InSync r \<longleftrightarrow> length (crDiffer r) = 0 \<and> length (crSrcOnly r) = 0 \<and> length (crDstOnly r) = 0"

definition NeedsUpdate :: "SyncEnv \<Rightarrow> FileInfo \<Rightarrow> FileInfo \<Rightarrow> SyncOptions \<Rightarrow> bool" where
  "NeedsUpdate env src dst opts =
     (if soSizeOnly opts then fiSize src \<noteq> fiSize dst
      else if soChecksum opts \<and> fiHash src \<noteq> [] \<and> fiHash dst \<noteq> [] then fiHash src \<noteq> fiHash dst
      else if \<not> soIgnoreSize opts \<and> fiSize src \<noteq> fiSize dst then True
      else if \<not> soIgnoreTime opts \<and> \<not> seTimeEqual env (fiModTime src) (fiModTime dst) then True
      else False)"

text \<open>A file never needs an update from itself, if the time comparison is reflexive.\<close>

lemma NeedsUpdate_self:
  "\<forall>t. seTimeEqual env t t \<Longrightarrow> \<not> NeedsUpdate env f f opts"
  by (simp add: NeedsUpdate_def)

lemma NeedsUpdate_size:
  "fiSize src \<noteq> fiSize dst \<Longrightarrow> \<not> soIgnoreSize opts \<Longrightarrow> \<not> soChecksum opts \<Longrightarrow> NeedsUpdate env src dst opts"
  by (simp add: NeedsUpdate_def)

end
