(* ===== verification/SyncEngine.thy ===== *)
theory SyncEngine
  imports SyncTypes CopyMove
begin

section \<open>The sync engine (\<open>object/sync/sync.go\<close>)\<close>

text \<open>
  One run of \<open>Sync\<close> is: list both sides, plan the copies and deletes, transfer the planned files
  with a pool of workers, delete. The pool is a step relation over its shared state: the work
  channel, the actions in flight, the counters and errors that the workers update, the
  cancellation, and the world of the stores; a transfer is one atomic step, and steps of different
  workers come in any order. \<open>pool_run\<close> is one schedule of it that computes. The bandwidth limit
  only delays the reads (see \<open>RateLimit\<close>) and does not show here.
\<close>

subsection \<open>Listing\<close>

text \<open>A path of a listing, made relative to the base path.\<close>

definition relative_path :: "path \<Rightarrow> path \<Rightarrow> path" where
  "relative_path basePath p =
     (if basePath \<noteq> [] \<and> length p > length basePath
      then let r = drop (length basePath) p
           in if r \<noteq> [] \<and> hd r = slash then tl r else r
      else p)"

definition file_info :: "SyncOptions \<Rightarrow> 'w Backend \<Rightarrow> path \<Rightarrow> path \<Rightarrow> 'w \<Rightarrow> FileInfo" where
  "file_info opts b basePath p w =
     (let fi = \<lparr>fiPath = relative_path basePath p, fiSize = 0, fiModTime = 0, fiHash = [], fiIsDir = False\<rparr>
      in case AsExtended b of
           None \<Rightarrow> fi
         | Some ext \<Rightarrow>
             (case exStat ext p w of
                Inl e \<Rightarrow> fi
              | Inr info \<Rightarrow>
                  fi\<lparr>fiSize := ObjectSize info, fiModTime := ObjectModTime info,
                     fiIsDir := ObjectIsDir info,
                     fiHash := (if soChecksum opts then info_Hash info HashMD5 else [])\<rparr>))"

definition passes_filter :: "SyncEnv \<Rightarrow> SyncOptions \<Rightarrow> FileInfo \<Rightarrow> bool" where
  "passes_filter env opts fi \<longleftrightarrow>
     \<not> (soFilter opts \<noteq> None \<and> \<not> fiIsDir fi \<and>
        \<not> filter_Match (seNow env) (soFilter opts)
            \<lparr>ffiPath = fiPath fi, ffiSize = fiSize fi, ffiModTime = fiModTime fi, ffiIsDir = fiIsDir fi\<rparr>)"

definition listFiles ::
  "SyncEnv \<Rightarrow> SyncOptions \<Rightarrow> 'w Backend \<Rightarrow> path \<Rightarrow> 'w \<Rightarrow> FileInfo list res" where
  "listFiles env opts b basePath w =
     (case bkList b basePath w of
        Inl e \<Rightarrow> Inl e
      | Inr paths \<Rightarrow>
          Inr (filter (passes_filter env opts) (map (\<lambda>p. file_info opts b basePath p w) paths)))"

subsection \<open>Copying one file\<close>

definition buildWriterOptions ::
  "'w Backend \<Rightarrow> path \<Rightarrow> MetadataOptions option \<Rightarrow> 'w \<Rightarrow> WriterOption list" where
  "buildWriterOptions src srcPath metaOpts w =
     (case AsExtended src of
        None \<Rightarrow> []
      | Some ext \<Rightarrow>
          (case exStat ext srcPath w of
             Inl e \<Rightarrow> []
           | Inr info \<Rightarrow>
               let preserveContentType = (case metaOpts of None \<Rightarrow> True | Some m \<Rightarrow> mdContentType m);
                   preserveCustomMetadata = (case metaOpts of None \<Rightarrow> False | Some m \<Rightarrow> mdCustomMetadata m)
               in (if preserveContentType \<and> ObjectContentType info \<noteq> []
                   then [WithContentType (ObjectContentType info)] else []) @
                  (if preserveCustomMetadata \<and> gm_len (ObjectMetadata info) > 0
                   then [WithMetadata (ObjectMetadata info)] else [])))"

definition copyFileSingle ::
  "SyncOptions \<Rightarrow> 'w Backend \<Rightarrow> 'w Backend \<Rightarrow> path \<Rightarrow> path \<Rightarrow> 'w \<Rightarrow> object_error option \<times> 'w" where
  "copyFileSingle opts src dst srcPath dstPath w =
     (case (if bkId src = bkId dst then AsExtended src else None) of
        Some ext \<Rightarrow>
          if fCopy (exFeatures ext) then exCopy ext srcPath dstPath w
          else CopyPath src srcPath dst dstPath
                 (buildWriterOptions src srcPath (soPreserveMetadata opts) w) w
      | None \<Rightarrow>
          CopyPath src srcPath dst dstPath
            (buildWriterOptions src srcPath (soPreserveMetadata opts) w) w)"

definition copyFileWithContext ::
  "SyncEnv \<Rightarrow> SyncOptions \<Rightarrow> 'w Backend \<Rightarrow> 'w Backend \<Rightarrow> path \<Rightarrow> path \<Rightarrow> 'w \<Rightarrow> object_error option \<times> 'w" where
  "copyFileWithContext env opts src dst srcPath dstPath w =
     (case soRetry opts of
        None \<Rightarrow> copyFileSingle opts src dst srcPath dstPath w
      | Some config \<Rightarrow>
          if rtMaxRetries config > 0
          then (case retryOperation (seCtx env) (seRand env) config
                       (copyFileSingle opts src dst srcPath dstPath) w of
                  ((e, _), w1) \<Rightarrow> (e, w1))
          else copyFileSingle opts src dst srcPath dstPath w)"

text \<open>\<open>copyFile\<close> is the copy with the zero options.\<close>

definition copyFile :: "'w Backend \<Rightarrow> 'w Backend \<Rightarrow> path \<Rightarrow> path \<Rightarrow> 'w \<Rightarrow> object_error option \<times> 'w" where
  "copyFile = copyFileSingle zeroOptions"

subsection \<open>The plan\<close>

record copyAction =
  caFile :: FileInfo
  caIsUpdate :: bool

definition dst_map :: "FileInfo list \<Rightarrow> (path, FileInfo) gomap" where
  "dst_map fs = fold (\<lambda>f m. gm_put (fiPath f) f m) fs gm_empty"

fun plan_loop ::
  "SyncEnv \<Rightarrow> SyncOptions \<Rightarrow> FileInfo list \<Rightarrow> (path, FileInfo) gomap \<Rightarrow> copyAction list \<Rightarrow> nat \<Rightarrow>
   copyAction list \<times> nat \<times> (path, FileInfo) gomap" where
  "plan_loop env opts [] m toCopy skipped = (toCopy, skipped, m)"
| "plan_loop env opts (f # fs) m toCopy skipped =
     (if fiIsDir f then plan_loop env opts fs m toCopy skipped
      else (case gm_get m (fiPath f) of
              None \<Rightarrow>
                plan_loop env opts fs (gm_del (fiPath f) m)
                  (toCopy @ [\<lparr>caFile = f, caIsUpdate = False\<rparr>]) skipped
            | Some d \<Rightarrow>
                if \<not> fiIsDir d \<and> NeedsUpdate env f d opts then
                  (if \<not> soIgnoreExisting opts
                   then plan_loop env opts fs (gm_del (fiPath f) m)
                          (toCopy @ [\<lparr>caFile = f, caIsUpdate = True\<rparr>]) skipped
                   else plan_loop env opts fs (gm_del (fiPath f) m) toCopy (skipped + 1))
                else plan_loop env opts fs (gm_del (fiPath f) m) toCopy (skipped + 1)))"

text \<open>The extra files of the destination, in the order the range visits them.\<close>

definition plan_deletes ::
  "SyncOptions \<Rightarrow> ((path \<times> FileInfo) list \<Rightarrow> (path \<times> FileInfo) list) \<Rightarrow> (path, FileInfo) gomap \<Rightarrow> path list" where
  "plan_deletes opts ord m =
     (if soDeleteExtra opts
      then map fst (filter (\<lambda>(p, f). \<not> fiIsDir f) (ord (gm_entries m))) else [])"

subsection \<open>The worker pool\<close>

definition transfer ::
  "SyncEnv \<Rightarrow> SyncOptions \<Rightarrow> 'w Backend \<Rightarrow> 'w Backend \<Rightarrow> path \<Rightarrow> path \<Rightarrow> copyAction \<Rightarrow> 'w \<Rightarrow>
   object_error option \<times> 'w" where
  "transfer env opts src dst srcPath dstPath a w =
     (if soDryRun opts then (None, w)
      else copyFileWithContext env opts src dst
             (path_join [srcPath, fiPath (caFile a)]) (path_join [dstPath, fiPath (caFile a)]) w)"

record 'w pool =
  plQueue :: "copyAction list"
  plBusy :: "copyAction list"
  plWorkers :: nat
  plCancelled :: bool
  plCtxDone :: bool
  plErrors :: "FileError list"
  plCopied :: nat
  plUpdated :: nat
  plBytes :: int
  plWorld :: 'w

definition pool_init :: "nat \<Rightarrow> copyAction list \<Rightarrow> 'w \<Rightarrow> 'w pool" where
  "pool_init n acts w =
     \<lparr>plQueue = acts, plBusy = [], plWorkers = n, plCancelled = False, plCtxDone = False,
      plErrors = [], plCopied = 0, plUpdated = 0, plBytes = 0, plWorld = w\<rparr>"

text \<open>What a worker does after its transfer.\<close>

definition pool_ok :: "copyAction \<Rightarrow> 'w \<Rightarrow> 'w pool \<Rightarrow> 'w pool" where
  "pool_ok a w p =
     p\<lparr>plBusy := remove1 a (plBusy p), plWorld := w,
       plUpdated := (if caIsUpdate a then plUpdated p + 1 else plUpdated p),
       plCopied := (if caIsUpdate a then plCopied p else plCopied p + 1),
       plBytes := plBytes p + fiSize (caFile a)\<rparr>"

definition pool_fail :: "SyncOptions \<Rightarrow> copyAction \<Rightarrow> object_error \<Rightarrow> 'w \<Rightarrow> 'w pool \<Rightarrow> 'w pool" where
  "pool_fail opts a e w p =
     (let errors = plErrors p @ [\<lparr>fePath = fiPath (caFile a), feOp = ''copy'', feErr = e\<rparr>];
          shouldStop = (soMaxErrors opts > 0 \<and> int (length errors) \<ge> soMaxErrors opts)
      in p\<lparr>plBusy := remove1 a (plBusy p), plWorld := w, plErrors := errors,
           plCancelled := (plCancelled p \<or> shouldStop),
           plWorkers := (if shouldStop then plWorkers p - 1 else plWorkers p)\<rparr>)"

text \<open>
  The steps: a worker takes an action, or sees the cancellation and leaves; a transfer ends well
  or in an error; under cancellation it may also fail without effect; the sender may stop; the
  caller's context may end.
\<close>

inductive pool_step ::
  "SyncOptions \<Rightarrow> (copyAction \<Rightarrow> 'w \<Rightarrow> object_error option \<times> 'w) \<Rightarrow> 'w pool \<Rightarrow> 'w pool \<Rightarrow> bool"
  for opts tr where
  take: "\<not> plCancelled p \<Longrightarrow> plQueue p = a # q \<Longrightarrow> length (plBusy p) < plWorkers p \<Longrightarrow>
    pool_step opts tr p (p\<lparr>plQueue := q, plBusy := a # plBusy p\<rparr>)"
| leave: "plCancelled p \<Longrightarrow> plQueue p = a # q \<Longrightarrow> length (plBusy p) < plWorkers p \<Longrightarrow>
    pool_step opts tr p (p\<lparr>plQueue := q, plWorkers := plWorkers p - 1\<rparr>)"
| finish: "a \<in> set (plBusy p) \<Longrightarrow> tr a (plWorld p) = (None, w) \<Longrightarrow>
    pool_step opts tr p (pool_ok a w p)"
| fail: "a \<in> set (plBusy p) \<Longrightarrow> tr a (plWorld p) = (Some e, w) \<Longrightarrow>
    pool_step opts tr p (pool_fail opts a e w p)"
| abort: "a \<in> set (plBusy p) \<Longrightarrow> plCancelled p \<Longrightarrow>
    pool_step opts tr p (pool_fail opts a ContextCanceled (plWorld p) p)"
| stop_sending: "plCancelled p \<Longrightarrow> pool_step opts tr p (p\<lparr>plQueue := take k (plQueue p)\<rparr>)"
| ctx_done: "pool_step opts tr p (p\<lparr>plCancelled := True, plCtxDone := True\<rparr>)"

text \<open>The pool has finished: nothing is in flight and no worker is left that could take more.\<close>

definition pool_final :: "'w pool \<Rightarrow> bool" where
  "pool_final p \<longleftrightarrow> plBusy p = [] \<and> (plQueue p = [] \<or> plWorkers p = 0)"

text \<open>One worker at a time, in the order of the queue, until the errors cancel the rest.\<close>

fun pool_run ::
  "SyncOptions \<Rightarrow> (copyAction \<Rightarrow> 'w \<Rightarrow> object_error option \<times> 'w) \<Rightarrow> copyAction list \<Rightarrow> 'w pool \<Rightarrow> 'w pool" where
  "pool_run opts tr [] p = p\<lparr>plQueue := []\<rparr>"
| "pool_run opts tr (a # q) p =
     (if plCancelled p then p\<lparr>plQueue := []\<rparr>
      else let p1 = p\<lparr>plQueue := q, plBusy := a # plBusy p\<rparr>
           in case tr a (plWorld p1) of
                (None, w) \<Rightarrow> pool_run opts tr q (pool_ok a w p1)
              | (Some e, w) \<Rightarrow> pool_run opts tr q (pool_fail opts a e w p1))"

subsection \<open>Deletes and the whole run\<close>

fun delete_loop ::
  "(nat \<Rightarrow> object_error option) \<Rightarrow> nat \<Rightarrow> SyncOptions \<Rightarrow> 'w Backend \<Rightarrow> path \<Rightarrow> path list \<Rightarrow> SyncResult \<Rightarrow> 'w \<Rightarrow>
   (SyncResult \<times> object_error option) \<times> 'w" where
  "delete_loop ctx i opts dst dstPath [] r w = ((r, None), w)"
| "delete_loop ctx i opts dst dstPath (p # ps) r w =
     (case ctx i of
        Some e \<Rightarrow> ((r, Some e), w)
      | None \<Rightarrow>
          if soDryRun opts
          then delete_loop ctx (Suc i) opts dst dstPath ps (r\<lparr>srDeleted := srDeleted r + 1\<rparr>) w
          else (case bkDelete dst (path_join [dstPath, p]) w of
                  (Some e, w1) \<Rightarrow>
                    let r1 = r\<lparr>srErrors := srErrors r @ [\<lparr>fePath = p, feOp = ''delete'', feErr = e\<rparr>]\<rparr>
                    in if soMaxErrors opts > 0 \<and> int (length (srErrors r1)) \<ge> soMaxErrors opts
                       then ((r1, None), w1)
                       else delete_loop ctx (Suc i) opts dst dstPath ps r1 w1
                | (None, w1) \<Rightarrow>
                    delete_loop ctx (Suc i) opts dst dstPath ps (r\<lparr>srDeleted := srDeleted r + 1\<rparr>) w1))"

text \<open>What \<open>Sync\<close> does when the pool has finished.\<close>

definition sync_finish ::
  "(nat \<Rightarrow> object_error option) \<Rightarrow> SyncOptions \<Rightarrow> 'w Backend \<Rightarrow> path \<Rightarrow> path list \<Rightarrow> nat \<Rightarrow> 'w pool \<Rightarrow>
   (SyncResult \<times> object_error option) \<times> 'w" where
  "sync_finish ctx opts dst dstPath toDelete skipped p =
     (let r = \<lparr>srCopied = plCopied p, srUpdated = plUpdated p, srDeleted = 0, srSkipped = skipped,
               srErrors = plErrors p, srBytesTransferred = plBytes p, srDryRun = soDryRun opts\<rparr>
      in if plCtxDone p then ((r, Some ContextCanceled), plWorld p)
         else if soDeleteExtra opts \<and> toDelete \<noteq> []
              then delete_loop ctx 0 opts dst dstPath toDelete r (plWorld p)
              else ((r, None), plWorld p))"

text \<open>The phases before the transfers; on an error the run ends with it and no result.\<close>

definition sync_plan ::
  "SyncEnv \<Rightarrow> ((path \<times> FileInfo) list \<Rightarrow> (path \<times> FileInfo) list) \<Rightarrow> 'w Backend \<Rightarrow> 'w Backend \<Rightarrow>
   path \<Rightarrow> path \<Rightarrow> SyncOptions \<Rightarrow> 'w \<Rightarrow> (copyAction list \<times> nat \<times> path list) res" where
  "sync_plan env ord src dst srcPath dstPath opts w =
     (case listFiles env opts src srcPath w of
        Inl e \<Rightarrow> Inl e
      | Inr srcFiles \<Rightarrow>
          (case listFiles env opts dst dstPath w of
             Inl e \<Rightarrow> Inl e
           | Inr dstFiles \<Rightarrow>
               (case plan_loop env opts srcFiles (dst_map dstFiles) [] 0 of
                  (toCopy, skipped, m) \<Rightarrow> Inr (toCopy, skipped, plan_deletes opts ord m))))"

definition sync_workers :: "SyncOptions \<Rightarrow> nat" where
  "sync_workers opts = (if soConcurrency opts \<le> 0 then 4 else nat (soConcurrency opts))"

text \<open>
  The outcomes of \<open>Sync\<close> over all schedules of the pool, and the outcome of the schedule that
  computes.
\<close>

inductive sync_outcome for env ctx ord src dst srcPath dstPath opts w where
  plan_error: "sync_plan env ord src dst srcPath dstPath opts w = Inl e \<Longrightarrow>
    sync_outcome env ctx ord src dst srcPath dstPath opts w (None, Some e) w"
| ran: "sync_plan env ord src dst srcPath dstPath opts w = Inr (toCopy, skipped, toDelete) \<Longrightarrow>
    (pool_step opts (transfer env opts src dst srcPath dstPath))\<^sup>*\<^sup>*
      (pool_init (sync_workers opts) toCopy w) p \<Longrightarrow>
    pool_final p \<Longrightarrow>
    sync_finish ctx opts dst dstPath toDelete skipped p = ((r, e), w') \<Longrightarrow>
    sync_outcome env ctx ord src dst srcPath dstPath opts w (Some r, e) w'"

definition Sync ::
  "SyncEnv \<Rightarrow> (nat \<Rightarrow> object_error option) \<Rightarrow> ((path \<times> FileInfo) list \<Rightarrow> (path \<times> FileInfo) list) \<Rightarrow>
   'w Backend \<Rightarrow> 'w Backend \<Rightarrow> path \<Rightarrow> path \<Rightarrow> SyncOptions \<Rightarrow> 'w \<Rightarrow>
   (SyncResult option \<times> object_error option) \<times> 'w" where
  "Sync env ctx ord src dst srcPath dstPath opts w =
     (case sync_plan env ord src dst srcPath dstPath opts w of
        Inl e \<Rightarrow> ((None, Some e), w)
      | Inr (toCopy, skipped, toDelete) \<Rightarrow>
          (case sync_finish ctx opts dst dstPath toDelete skipped
                  (pool_run opts (transfer env opts src dst srcPath dstPath) toCopy
                     (pool_init (sync_workers opts) toCopy w)) of
             ((r, e), w') \<Rightarrow> ((Some r, e), w')))"

definition CopyDir ::
  "SyncEnv \<Rightarrow> (nat \<Rightarrow> object_error option) \<Rightarrow> ((path \<times> FileInfo) list \<Rightarrow> (path \<times> FileInfo) list) \<Rightarrow>
   'w Backend \<Rightarrow> 'w Backend \<Rightarrow> path \<Rightarrow> path \<Rightarrow> 'w \<Rightarrow> (SyncResult option \<times> object_error option) \<times> 'w" where
  "CopyDir env ctx ord src dst srcPath dstPath w = Sync env ctx ord src dst srcPath dstPath zeroOptions w"

end
