(* ===== verification/SyncCorrect.thy ===== *)
theory SyncCorrect
  imports SyncEngine
begin

section \<open>Correctness of the sync engine\<close>

text \<open>
  What holds of every schedule of the worker pool. First the facts that need no contract (the
  computing schedule is one of the pool's, a dry run changes nothing, the plan), then the effect of
  a run on the files of two stores that keep the contract of \<open>BackendInterface\<close>.
\<close>

subsection \<open>The computing schedule\<close>

lemma pool_ok_simps [simp]:
  "plQueue (pool_ok a w p) = plQueue p" "plBusy (pool_ok a w p) = remove1 a (plBusy p)"
  "plWorkers (pool_ok a w p) = plWorkers p" "plCancelled (pool_ok a w p) = plCancelled p"
  "plCtxDone (pool_ok a w p) = plCtxDone p" "plErrors (pool_ok a w p) = plErrors p"
  "plWorld (pool_ok a w p) = w"
  "plCopied (pool_ok a w p) + plUpdated (pool_ok a w p) = Suc (plCopied p + plUpdated p)"
  by (simp_all add: pool_ok_def)

lemma pool_fail_simps [simp]:
  "plQueue (pool_fail opts a e w p) = plQueue p" "plBusy (pool_fail opts a e w p) = remove1 a (plBusy p)"
  "plCtxDone (pool_fail opts a e w p) = plCtxDone p" "plWorld (pool_fail opts a e w p) = w"
  by (simp_all add: pool_fail_def Let_def)

lemma pool_run_reaches:
  assumes "plQueue p = q" "plBusy p = []" "\<not> plCancelled p \<longrightarrow> 0 < plWorkers p"
  shows "(pool_step opts tr)\<^sup>*\<^sup>* p (pool_run opts tr q p) \<and> pool_final (pool_run opts tr q p)"
  using assms
proof (induction q arbitrary: p)
  case Nil
  then have e: "p\<lparr>plQueue := []\<rparr> = p" by simp
  show ?case using Nil unfolding pool_run.simps e by (simp add: pool_final_def)
next
  case (Cons a q)
  note p = Cons.prems
  show ?case
  proof (cases "plCancelled p")
    case True
    then have "pool_step opts tr p (p\<lparr>plQueue := take 0 (plQueue p)\<rparr>)" by (rule pool_step.stop_sending)
    with True p show ?thesis by (auto simp: pool_final_def)
  next
    case False
    let ?p1 = "p\<lparr>plQueue := q, plBusy := [a]\<rparr>"
    have s1: "pool_step opts tr p ?p1"
      using pool_step.take [of p a q opts tr] False p by simp
    obtain e w where t: "tr a (plWorld p) = (e, w)" by fastforce
    define p2 where "p2 = (case e of None \<Rightarrow> pool_ok a w ?p1 | Some e \<Rightarrow> pool_fail opts a e w ?p1)"
    have s2: "pool_step opts tr ?p1 p2"
      using pool_step.finish [of a ?p1 tr w opts] pool_step.fail [of a ?p1 tr _ w opts] t
      by (auto simp: p2_def split: option.splits)
    have "plQueue p2 = q" "plBusy p2 = []" by (auto simp: p2_def split: option.splits)
    moreover have "\<not> plCancelled p2 \<longrightarrow> 0 < plWorkers p2"
      using False p by (auto simp: p2_def pool_fail_def Let_def split: option.splits)
    ultimately have "(pool_step opts tr)\<^sup>*\<^sup>* p2 (pool_run opts tr q p2)" "pool_final (pool_run opts tr q p2)"
      using Cons.IH by blast+
    moreover have "pool_run opts tr (a # q) p = pool_run opts tr q p2"
      using False p t by (simp add: p2_def split: option.splits)
    ultimately show ?thesis using s1 s2 by (metis converse_rtranclp_into_rtranclp)
  qed
qed

lemma Sync_outcome: "Sync env ctx ord src dst srcPath dstPath opts w = (r, w') \<Longrightarrow>
  sync_outcome env ctx ord src dst srcPath dstPath opts w r w'"
proof -
  assume s: "Sync env ctx ord src dst srcPath dstPath opts w = (r, w')"
  show ?thesis
  proof (cases "sync_plan env ord src dst srcPath dstPath opts w")
    case (Inl e)
    with s show ?thesis by (auto simp: Sync_def intro: sync_outcome.plan_error)
  next
    case (Inr pl)
    obtain toCopy skipped toDelete where pl: "pl = (toCopy, skipped, toDelete)" by (cases pl) auto
    have "0 < sync_workers opts" by (simp add: sync_workers_def)
    then have "(pool_step opts (transfer env opts src dst srcPath dstPath))\<^sup>*\<^sup>*
        (pool_init (sync_workers opts) toCopy w)
        (pool_run opts (transfer env opts src dst srcPath dstPath) toCopy (pool_init (sync_workers opts) toCopy w)) \<and>
      pool_final (pool_run opts (transfer env opts src dst srcPath dstPath) toCopy (pool_init (sync_workers opts) toCopy w))"
      by (intro pool_run_reaches) (simp_all add: pool_init_def)
    with s Inr pl show ?thesis
      by (auto simp: Sync_def split: prod.splits intro: sync_outcome.ran)
  qed
qed

subsection \<open>A dry run\<close>

lemma pool_step_dry:
  "pool_step opts tr p p' \<Longrightarrow> (\<And>a w. tr a w = (None, w)) \<Longrightarrow> plWorld p' = plWorld p"
  by (induction rule: pool_step.induct) simp_all

lemma delete_loop_dry:
  "soDryRun opts \<Longrightarrow> snd (delete_loop ctx i opts dst dstPath ps r w) = w"
  by (induction ctx i opts dst dstPath ps r w rule: delete_loop.induct) (simp_all split: option.splits)

lemma sync_outcome_dry:
  assumes "sync_outcome env ctx ord src dst srcPath dstPath opts w r w'" "soDryRun opts"
  shows "w' = w"
  using assms(1)
proof cases
  case (ran toCopy skipped toDelete p r' e)
  have "plWorld q = w" if "(pool_step opts (transfer env opts src dst srcPath dstPath))\<^sup>*\<^sup>*
      (pool_init (sync_workers opts) toCopy w) q" for q
    using that
  proof (induction rule: rtranclp_induct)
    case base
    show ?case by (simp add: pool_init_def)
  next
    case (step y z)
    then show ?case using pool_step_dry [OF step(2)] assms(2) by (simp add: transfer_def)
  qed
  then have "plWorld p = w" using ran by blast
  then show ?thesis
    using ran delete_loop_dry [OF assms(2), of ctx 0 dst dstPath toDelete _ w]
    by (auto simp: sync_finish_def Let_def split: if_splits) (metis snd_conv)
qed

subsection \<open>The plan\<close>

lemma dst_map_get:
  "distinct (map fiPath fs) \<Longrightarrow> gm_get (dst_map fs) k = Some f \<longleftrightarrow> f \<in> set fs \<and> fiPath f = k"
proof -
  have "distinct (map fiPath fs) \<Longrightarrow>
      gm_get (fold (\<lambda>f m. gm_put (fiPath f) f m) fs m) k = Some f \<longleftrightarrow>
      (f \<in> set fs \<and> fiPath f = k) \<or> (k \<notin> fiPath ` set fs \<and> gm_get m k = Some f)" for m
    by (induction fs arbitrary: m) (auto simp: gomap_simps)
  then show "distinct (map fiPath fs) \<Longrightarrow> ?thesis" by (simp add: dst_map_def)
qed

text \<open>What the plan says of one source file, given the map of the destination.\<close>

definition plan_action ::
  "SyncEnv \<Rightarrow> SyncOptions \<Rightarrow> (path, FileInfo) gomap \<Rightarrow> FileInfo \<Rightarrow> copyAction option" where
  "plan_action env opts m f =
     (if fiIsDir f then None
      else (case gm_get m (fiPath f) of
              None \<Rightarrow> Some \<lparr>caFile = f, caIsUpdate = False\<rparr>
            | Some d \<Rightarrow>
                if \<not> fiIsDir d \<and> NeedsUpdate env f d opts \<and> \<not> soIgnoreExisting opts
                then Some \<lparr>caFile = f, caIsUpdate = True\<rparr> else None))"

definition plan_skips :: "SyncEnv \<Rightarrow> SyncOptions \<Rightarrow> (path, FileInfo) gomap \<Rightarrow> FileInfo \<Rightarrow> bool" where
  "plan_skips env opts m f \<longleftrightarrow> \<not> fiIsDir f \<and> plan_action env opts m f = None"

definition action_list :: "SyncEnv \<Rightarrow> SyncOptions \<Rightarrow> (path, FileInfo) gomap \<Rightarrow> FileInfo list \<Rightarrow> copyAction list" where
  "action_list env opts m fs = concat (map (\<lambda>f. case plan_action env opts m f of None \<Rightarrow> [] | Some a \<Rightarrow> [a]) fs)"

lemma action_list_cong:
  "(\<And>f. f \<in> set fs \<Longrightarrow> gm_get m (fiPath f) = gm_get m' (fiPath f)) \<Longrightarrow>
   action_list env opts m fs = action_list env opts m' fs"
  unfolding action_list_def plan_action_def by (intro arg_cong [of _ _ concat] map_cong) simp_all

lemma plan_skips_cong:
  "(\<And>f. f \<in> set fs \<Longrightarrow> gm_get m (fiPath f) = gm_get m' (fiPath f)) \<Longrightarrow>
   filter (plan_skips env opts m) fs = filter (plan_skips env opts m') fs"
  unfolding plan_skips_def plan_action_def by (intro filter_cong) simp_all

lemma plan_loop_eq:
  "distinct (map fiPath fs) \<Longrightarrow>
   plan_loop env opts fs m toCopy skipped =
     (toCopy @ action_list env opts m fs,
      skipped + length (filter (plan_skips env opts m) fs),
      gm_del_all (map fiPath (filter (\<lambda>f. \<not> fiIsDir f) fs)) m)"
proof (induction fs arbitrary: m toCopy skipped)
  case Nil
  then show ?case by (simp add: action_list_def gm_del_all_def)
next
  case (Cons f fs)
  let ?m = "gm_del (fiPath f) m"
  have same: "gm_get ?m (fiPath g) = gm_get m (fiPath g)" if "g \<in> set fs" for g
  proof -
    have "fiPath g \<noteq> fiPath f" using Cons.prems that by (metis distinct.simps(2) image_eqI list.map(2) list.set_map)
    then show ?thesis by (simp add: gomap_simps)
  qed
  note eqs = action_list_cong [of fs ?m m env opts, OF same] plan_skips_cong [of fs ?m m env opts, OF same]
  show ?case
    using Cons.IH [of m toCopy skipped] Cons.IH [of ?m] Cons.prems
    by (cases "fiIsDir f"; cases "gm_get m (fiPath f)")
      (simp_all add: eqs action_list_def [of env opts m "f # fs"] action_list_def [of env opts m fs]
        plan_action_def [of env opts m f] plan_skips_def [of env opts m f] gm_del_all_def)
qed

lemma action_list_set:
  "a \<in> set (action_list env opts m fs) \<longleftrightarrow> (\<exists>f \<in> set fs. plan_action env opts m f = Some a)"
  by (force simp: action_list_def split: option.splits)

lemma plan_action_file: "plan_action env opts m f = Some a \<Longrightarrow> caFile a = f \<and> \<not> fiIsDir f"
  by (auto simp: plan_action_def split: if_splits option.splits)

lemma action_list_paths:
  "map (\<lambda>a. fiPath (caFile a)) (action_list env opts m fs) =
   map fiPath (filter (\<lambda>f. plan_action env opts m f \<noteq> None) fs)"
  by (induction fs) (auto simp: action_list_def plan_action_file split: option.splits)

lemma action_list_distinct:
  assumes "distinct (map fiPath fs)"
  shows "distinct (map (\<lambda>a. fiPath (caFile a)) (action_list env opts m fs))"
    and "distinct (action_list env opts m fs)"
proof -
  show "distinct (map (\<lambda>a. fiPath (caFile a)) (action_list env opts m fs))"
    unfolding action_list_paths using assms by (simp add: distinct_map_filter)
  then show "distinct (action_list env opts m fs)" by (simp add: distinct_map)
qed

text \<open>Every file of the source is copied, updated or skipped.\<close>

lemma action_list_count:
  "length (action_list env opts m fs) + length (filter (plan_skips env opts m) fs) =
   length (filter (\<lambda>f. \<not> fiIsDir f) fs)"
  by (induction fs) (auto simp: action_list_def plan_skips_def plan_action_file split: option.splits)

lemma plan_deletes_set:
  "range_order ord \<Longrightarrow>
   p \<in> set (plan_deletes opts ord m) \<longleftrightarrow> soDeleteExtra opts \<and> (\<exists>f. gm_get m p = Some f \<and> \<not> fiIsDir f)"
  by (force simp: plan_deletes_def gm_get_iff_entry)

subsection \<open>Counting: transfers that fail\<close>

text \<open>
  What holds of the pool whatever the transfers do: the numbers of workers and of actions, the
  errors, and when the pool can have been cancelled.
\<close>

definition pool_counts :: "SyncOptions \<Rightarrow> nat \<Rightarrow> copyAction list \<Rightarrow> 'w pool \<Rightarrow> bool" where
  "pool_counts opts n acts p \<longleftrightarrow>
     length (plBusy p) \<le> plWorkers p \<and> plWorkers p \<le> n \<and>
     (\<not> plCancelled p \<longrightarrow>
        plCopied p + plUpdated p + length (plErrors p) + length (plQueue p) + length (plBusy p) = length acts) \<and>
     (soMaxErrors opts \<le> 0 \<longrightarrow> \<not> plCtxDone p \<longrightarrow> \<not> plCancelled p \<and> plWorkers p = n) \<and>
     (0 < soMaxErrors opts \<longrightarrow> int (length (plErrors p)) + int (plWorkers p) \<le> soMaxErrors opts - 1 + int n) \<and>
     (\<forall>e \<in> set (plErrors p). feOp e = ''copy'')"

lemma length_remove1_mem: "a \<in> set xs \<Longrightarrow> Suc (length (remove1 a xs)) = length xs"
  using length_pos_if_in_set [of a xs] by (simp add: length_remove1)

lemma pool_counts_step:
  assumes "pool_step opts tr p p'" "pool_counts opts n acts p"
  shows "pool_counts opts n acts p'"
  using assms(1)
proof cases
  case (finish a w)
  then show ?thesis using assms(2) length_remove1_mem [of a "plBusy p"] by (auto simp: pool_counts_def)
next
  case (fail a e w)
  then show ?thesis using assms(2) length_remove1_mem [of a "plBusy p"]
    by (auto simp: pool_counts_def pool_fail_def Let_def)
next
  case (abort a)
  then show ?thesis using assms(2) length_remove1_mem [of a "plBusy p"]
    by (auto simp: pool_counts_def pool_fail_def Let_def)
qed (use assms(2) in \<open>auto simp: pool_counts_def\<close>)

lemma pool_counts_run:
  assumes "(pool_step opts tr)\<^sup>*\<^sup>* (pool_init n acts w) p"
  shows "pool_counts opts n acts p"
  using assms
proof (induction rule: rtranclp_induct)
  case base
  show ?case by (simp add: pool_counts_def pool_init_def)
next
  case (step y z)
  then show ?case using pool_counts_step by blast
qed

lemma delete_loop_counts:
  "delete_loop ctx i opts dst dstPath ps r w = ((r', None), w') \<Longrightarrow>
   srCopied r' = srCopied r \<and> srUpdated r' = srUpdated r \<and> srSkipped r' = srSkipped r \<and>
   (\<exists>es. srErrors r' = srErrors r @ es \<and> (\<forall>e \<in> set es. feOp e = ''delete'') \<and>
     (soMaxErrors opts \<le> 0 \<longrightarrow> srDeleted r' + length es = srDeleted r + length ps))"
proof (induction ps arbitrary: i r w)
  case (Cons p ps)
  show ?case
  proof (cases "soDryRun opts")
    case True
    with Cons show ?thesis by (fastforce split: option.splits)
  next
    case False
    obtain e w1 where d: "bkDelete dst (path_join [dstPath, p]) w = (e, w1)" by fastforce
    have c: "ctx i = None" using Cons.prems by (auto split: option.splits)
    show ?thesis
    proof (cases e)
      case None
      with Cons False d c show ?thesis by fastforce
    next
      case (Some x)
      let ?err = "\<lparr>fePath = p, feOp = ''delete'', feErr = x\<rparr>"
      let ?r = "r\<lparr>srErrors := srErrors r @ [?err]\<rparr>"
      show ?thesis
      proof (cases "soMaxErrors opts > 0 \<and> int (length (srErrors ?r)) \<ge> soMaxErrors opts")
        case True
        then have "r' = ?r" using Cons.prems False d c Some by (auto simp: Let_def)
        with True show ?thesis by (auto intro: exI [of _ "[?err]"])
      next
        case stop: False
        then have "delete_loop ctx (Suc i) opts dst dstPath ps ?r w1 = ((r', None), w')"
          using Cons.prems False d c Some by (auto simp: Let_def)
        from Cons.IH [OF this]
        obtain es where es: "srErrors r' = srErrors ?r @ es" "\<forall>e \<in> set es. feOp e = ''delete''"
          "soMaxErrors opts \<le> 0 \<longrightarrow> srDeleted r' + length es = srDeleted ?r + length ps"
          "srCopied r' = srCopied ?r" "srUpdated r' = srUpdated ?r" "srSkipped r' = srSkipped ?r"
          by blast
        then show ?thesis by (auto intro!: exI [of _ "?err # es"])
      qed
    qed
  qed
qed simp

lemma sync_finish_counts:
  assumes "sync_finish ctx opts dst dstPath dels sk p = ((r, None), w')"
  shows "\<not> plCtxDone p" "srCopied r = plCopied p" "srUpdated r = plUpdated p" "srSkipped r = sk"
    "\<exists>es. srErrors r = plErrors p @ es \<and> (\<forall>e \<in> set es. feOp e = ''delete'')"
proof -
  let ?r = "\<lparr>srCopied = plCopied p, srUpdated = plUpdated p, srDeleted = 0, srSkipped = sk,
    srErrors = plErrors p, srBytesTransferred = plBytes p, srDryRun = soDryRun opts\<rparr>"
  have c: "\<not> plCtxDone p \<and> ((r = ?r) \<or> delete_loop ctx 0 opts dst dstPath dels ?r (plWorld p) = ((r, None), w'))"
    using assms by (auto simp: sync_finish_def Let_def split: if_splits)
  then show "\<not> plCtxDone p" by simp
  show "srCopied r = plCopied p" "srUpdated r = plUpdated p" "srSkipped r = sk"
    "\<exists>es. srErrors r = plErrors p @ es \<and> (\<forall>e \<in> set es. feOp e = ''delete'')"
    using c delete_loop_counts [of ctx 0 opts dst dstPath dels ?r "plWorld p" r w'] by auto
qed

text \<open>When the computing schedule ends without an error.\<close>

lemma pool_run_ctx: "plCtxDone (pool_run opts tr q p) = plCtxDone p"
  by (induction opts tr q p rule: pool_run.induct) (auto simp: Let_def split: prod.splits option.splits)

lemma delete_loop_live: "(\<And>n. ctx n = None) \<Longrightarrow> snd (fst (delete_loop ctx i opts dst dstPath ps r w)) = None"
  by (induction ctx i opts dst dstPath ps r w rule: delete_loop.induct) (auto simp: Let_def split: prod.splits option.splits)

lemma Sync_live:
  assumes "\<And>n. ctx n = None" "sync_plan env ord src dst srcPath dstPath opts w = Inr pl"
  shows "\<exists>r w'. Sync env ctx ord src dst srcPath dstPath opts w = ((Some r, None), w')"
proof -
  obtain acts sk dels where pl: "pl = (acts, sk, dels)" by (cases pl) auto
  let ?p = "pool_run opts (transfer env opts src dst srcPath dstPath) acts (pool_init (sync_workers opts) acts w)"
  have "\<not> plCtxDone ?p" by (simp add: pool_run_ctx pool_init_def)
  then have "snd (fst (sync_finish ctx opts dst dstPath dels sk ?p)) = None"
    by (simp add: sync_finish_def Let_def delete_loop_live [of ctx, OF assms(1)])
  then obtain r w' where "sync_finish ctx opts dst dstPath dels sk ?p = ((r, None), w')"
    by (metis prod.collapse)
  then show ?thesis using assms(2) pl by (simp add: Sync_def)
qed

subsection \<open>Between two stores\<close>

lemma retryOperation_success:
  "fst (op w) = None \<Longrightarrow> retryOperation ctx rnd config op w = ((None, []), snd (op w))"
  by (cases "op w") (simp add: retryOperation_def retry_loop.simps Let_def)

lemma copyFileWithContext_success:
  "copyFileSingle opts src dst p q w = (None, w') \<Longrightarrow> copyFileWithContext env opts src dst p q w = (None, w')"
  by (simp add: copyFileWithContext_def retryOperation_success split: option.splits)

context stores
begin

lemma copyFile_stores:
  assumes "i \<noteq> j" "ok w" "key q" "files i w p = Some d"
  shows "\<exists>w'. copyFileWithContext env opts (B i) (B j) p q w = (None, w') \<and> ok w' \<and>
    files j w' = (files j w)(q := Some d) \<and> (\<forall>k. k \<noteq> j \<longrightarrow> files k w' = files k w)"
proof -
  let ?o = "buildWriterOptions (B i) p (soPreserveMetadata opts) w"
  obtain w' where w': "CopyPath (B i) p (B j) q ?o w = (None, w')" "ok w'"
    "files j w' = (files j w)(q := Some d)" "\<forall>k. k \<noteq> j \<longrightarrow> files k w' = files k w"
    using CopyPath_stores [OF assms(2-4), of j ?o] by blast
  then have "copyFileSingle opts (B i) (B j) p q w = (None, w')"
    using assms(1) by (simp add: copyFileSingle_def)
  from copyFileWithContext_success [OF this] w' show ?thesis by (intro exI [of _ w']) simp
qed

text \<open>
  The invariant of the pool: as long as the caller's context lives nothing fails, and the
  destination holds the source's data exactly where an action has been carried out.
\<close>

definition pool_good ::
  "nat \<Rightarrow> nat \<Rightarrow> (copyAction \<Rightarrow> path) \<Rightarrow> (copyAction \<Rightarrow> path) \<Rightarrow> copyAction list \<Rightarrow> 'w \<Rightarrow> 'w pool \<Rightarrow> bool" where
  "pool_good i j sf df acts w p \<longleftrightarrow>
     \<not> plCancelled p \<and> plErrors p = [] \<and> ok (plWorld p) \<and>
     distinct (plQueue p @ plBusy p) \<and> set (plQueue p @ plBusy p) \<subseteq> set acts \<and>
     (\<forall>k. k \<noteq> j \<longrightarrow> files k (plWorld p) = files k w) \<and>
     (\<forall>a \<in> set acts. a \<notin> set (plQueue p @ plBusy p) \<longrightarrow> files j (plWorld p) (df a) = files i w (sf a)) \<and>
     (\<forall>q. (\<forall>a \<in> set acts. a \<notin> set (plQueue p @ plBusy p) \<longrightarrow> q \<noteq> df a) \<longrightarrow>
        files j (plWorld p) q = files j w q) \<and>
     plCopied p + plUpdated p + length (plQueue p @ plBusy p) = length acts"

text \<open>What a finished transfer does to it.\<close>

lemma pool_good_ok:
  assumes g: "pool_good i j sf df acts w p" and busy: "a \<in> set (plBusy p)" and inj: "inj_on df (set acts)"
    and v: "ok v" "files j v = (files j (plWorld p))(df a := files i w (sf a))" "\<forall>k. k \<noteq> j \<longrightarrow> files k v = files k (plWorld p)"
  shows "pool_good i j sf df acts w (pool_ok a v p)"
proof -
  have a: "a \<in> set acts" "a \<notin> set (plQueue p)" "distinct (plBusy p)" using g busy by (auto simp: pool_good_def)
  have rest: "b \<notin> set (plQueue p @ remove1 a (plBusy p)) \<longleftrightarrow> b \<notin> set (plQueue p @ plBusy p) \<or> b = a" for b
    using a by auto
  have neq: "df b \<noteq> df a" if "b \<in> set acts" "b \<noteq> a" for b using inj that a(1) by (auto dest: inj_onD)
  have copied: "files j v (df b) = files i w (sf b)"
    if "b \<in> set acts" "b \<notin> set (plQueue p @ remove1 a (plBusy p))" for b
    using g that neq unfolding rest by (cases "b = a") (simp_all add: v(2) pool_good_def)
  have kept: "files j v q = files j w q"
    if q: "\<forall>b \<in> set acts. b \<notin> set (plQueue p @ remove1 a (plBusy p)) \<longrightarrow> q \<noteq> df b" for q
    using g q a(1) unfolding rest by (simp add: v(2) pool_good_def)
  have "Suc (length (remove1 a (plBusy p))) = length (plBusy p)"
    using busy length_pos_if_in_set [OF busy] by (simp add: length_remove1)
  moreover have "distinct (plQueue p @ remove1 a (plBusy p))" "set (plQueue p @ remove1 a (plBusy p)) \<subseteq> set acts"
    using g a(3) by (auto simp: pool_good_def distinct_remove1)
  ultimately show ?thesis
    using g v(1,3) copied kept by (simp add: pool_good_def)
qed

lemma pool_good_step:
  assumes step: "pool_step opts tr p p'"
    and good: "\<not> plCtxDone p \<Longrightarrow> pool_good i j sf df acts w p"
    and tr: "\<And>a v. ok v \<Longrightarrow> a \<in> set acts \<Longrightarrow> files i v (sf a) = files i w (sf a) \<Longrightarrow>
      \<exists>v'. tr a v = (None, v') \<and> ok v' \<and> files j v' = (files j v)(df a := files i w (sf a)) \<and>
        (\<forall>k. k \<noteq> j \<longrightarrow> files k v' = files k v)"
    and ij: "i \<noteq> j" and inj: "inj_on df (set acts)" and live: "\<not> plCtxDone p'"
  shows "pool_good i j sf df acts w p'"
proof -
  have g: "pool_good i j sf df acts w p" using step live good by cases simp_all
  then have tr_p: "\<exists>v'. tr a (plWorld p) = (None, v') \<and> ok v' \<and> files j v' = (files j (plWorld p))(df a := files i w (sf a)) \<and>
      (\<forall>k. k \<noteq> j \<longrightarrow> files k v' = files k (plWorld p))" if "a \<in> set (plBusy p)" for a
    using tr [of "plWorld p" a] that ij by (auto simp: pool_good_def)
  show ?thesis
    using step
  proof cases
    case (take a q)
    then show ?thesis using g by (auto simp: pool_good_def)
  next
    case (finish a v)
    then show ?thesis using pool_good_ok [OF g _ inj, of a v] tr_p [of a] by auto
  next
    case (fail a e v)
    then show ?thesis using tr_p [of a] by auto
  next
    case ctx_done
    with live show ?thesis by simp
  qed (use g in \<open>auto simp: pool_good_def\<close>)
qed

lemma pool_good_run:
  assumes "(pool_step opts tr)\<^sup>*\<^sup>* (pool_init n acts w) p"
    and "\<And>a v. ok v \<Longrightarrow> a \<in> set acts \<Longrightarrow> files i v (sf a) = files i w (sf a) \<Longrightarrow>
      \<exists>v'. tr a v = (None, v') \<and> ok v' \<and> files j v' = (files j v)(df a := files i w (sf a)) \<and>
        (\<forall>k. k \<noteq> j \<longrightarrow> files k v' = files k v)"
    and "i \<noteq> j" "inj_on df (set acts)" "ok w" "distinct acts"
  shows "plWorkers p \<le> n \<and> (\<not> plCtxDone p \<longrightarrow> pool_good i j sf df acts w p \<and> plWorkers p = n)"
  using assms(1)
proof (induction rule: rtranclp_induct)
  case base
  show ?case using assms(5,6) by (simp add: pool_init_def pool_good_def)
next
  case (step p p')
  have le: "plWorkers p' \<le> plWorkers p"
    using step.hyps(2) by cases (simp_all add: pool_ok_def pool_fail_def Let_def)
  show ?case
  proof (cases "plCtxDone p'")
    case True
    then show ?thesis using le step.IH by simp
  next
    case False
    have before: "\<not> plCtxDone p"
      using step.hyps(2) False by cases simp_all
    then have good: "pool_good i j sf df acts w p" "plWorkers p = n" using step.IH by simp_all
    have good': "pool_good i j sf df acts w p'"
      by (rule pool_good_step [OF step.hyps(2) _ assms(2-4) False]) (use good in simp_all)
    have c: "\<not> plCancelled p" "plErrors p' = []" using good good' by (simp_all add: pool_good_def)
    have "plWorkers p' = plWorkers p"
      using step.hyps(2)
    proof cases
      case (fail a e v)
      with c(2) show ?thesis by (simp add: pool_fail_def Let_def)
    next
      case (abort a)
      with c(1) show ?thesis by simp
    qed (use c in simp_all)
    with good good' show ?thesis by simp
  qed
qed

lemma delete_loop_stores:
  assumes "\<And>n. ctx n = None" "\<not> soDryRun opts" "ok w" "\<forall>p \<in> set ps. key (path_join [dp, p])"
  shows "\<exists>w'. delete_loop ctx n opts (B j) dp ps r w = ((r\<lparr>srDeleted := srDeleted r + length ps\<rparr>, None), w') \<and>
    ok w' \<and> (\<forall>k. k \<noteq> j \<longrightarrow> files k w' = files k w) \<and>
    files j w' = (\<lambda>q. if \<exists>p \<in> set ps. q = path_join [dp, p] then None else files j w q)"
  using assms(3,4)
proof (induction ps arbitrary: n r w)
  case Nil
  then show ?case by simp
next
  case (Cons p ps)
  obtain w1 where w1: "bkDelete (B j) (path_join [dp, p]) w = (None, w1)" "ok w1"
    "files j w1 = (files j w)(path_join [dp, p] := None)" "\<forall>k. k \<noteq> j \<longrightarrow> files k w1 = files k w"
    using delete_law [of w "path_join [dp, p]" j] Cons.prems by auto
  let ?r1 = "r\<lparr>srDeleted := srDeleted r + 1\<rparr>"
  have step: "delete_loop ctx n opts (B j) dp (p # ps) r w = delete_loop ctx (Suc n) opts (B j) dp ps ?r1 w1"
    using assms(1,2) w1(1) by simp
  have "\<forall>p \<in> set ps. key (path_join [dp, p])" using Cons.prems by simp
  from Cons.IH [OF w1(2) this, of "Suc n" ?r1]
  obtain w' where w': "delete_loop ctx (Suc n) opts (B j) dp ps ?r1 w1 =
      ((?r1\<lparr>srDeleted := srDeleted ?r1 + length ps\<rparr>, None), w')" "ok w'"
    "\<forall>k. k \<noteq> j \<longrightarrow> files k w' = files k w1"
    "files j w' = (\<lambda>q. if \<exists>p \<in> set ps. q = path_join [dp, p] then None else files j w1 q)"
    by blast
  have "files j w' = (\<lambda>q. if \<exists>p \<in> set (p # ps). q = path_join [dp, p] then None else files j w q)"
    unfolding w'(4) w1(3) by (rule ext) simp
  then show ?case unfolding step using w' w1(4) by (intro exI [of _ w']) simp
qed

text \<open>
  The effect of a run, from the two listings. \<open>to_copy f\<close>: the plan copies the source file \<open>f\<close>;
  \<open>extra f\<close>: the file \<open>f\<close> of the destination has no counterpart in the source.
\<close>

definition to_copy :: "SyncEnv \<Rightarrow> SyncOptions \<Rightarrow> FileInfo list \<Rightarrow> FileInfo \<Rightarrow> bool" where
  "to_copy env opts fsD f \<longleftrightarrow> plan_action env opts (dst_map fsD) f \<noteq> None"

definition extra :: "SyncOptions \<Rightarrow> FileInfo list \<Rightarrow> FileInfo \<Rightarrow> bool" where
  "extra opts fsS f \<longleftrightarrow> soDeleteExtra opts \<and> \<not> fiIsDir f \<and> (\<forall>g \<in> set fsS. fiIsDir g \<or> fiPath g \<noteq> fiPath f)"

text \<open>The two sets of the plan.\<close>

lemma actions_to_copy: "caFile ` set (action_list env opts (dst_map fsD) fsS) = {f \<in> set fsS. to_copy env opts fsD f}"
  using plan_action_file by (fastforce simp: to_copy_def action_list_set image_iff)

lemma plan_deletes_extra:
  assumes "range_order ord" "distinct (map fiPath fsD)"
  shows "set (plan_deletes opts ord (gm_del_all (map fiPath (filter (\<lambda>f. \<not> fiIsDir f) fsS)) (dst_map fsD))) =
    fiPath ` {f \<in> set fsD. extra opts fsS f}" (is "set ?dels = _")
proof (rule set_eqI)
  fix p
  have "(\<exists>f. gm_get (gm_del_all (map fiPath (filter (\<lambda>f. \<not> fiIsDir f) fsS)) (dst_map fsD)) p = Some f \<and> \<not> fiIsDir f)
      \<longleftrightarrow> (\<exists>f. f \<in> set fsD \<and> fiPath f = p \<and> \<not> fiIsDir f) \<and> (\<forall>g \<in> set fsS. fiIsDir g \<or> fiPath g \<noteq> p)"
    by (auto simp: gomap_simps dst_map_get [OF assms(2)] image_iff)
  then show "p \<in> set ?dels \<longleftrightarrow> p \<in> fiPath ` {f \<in> set fsD. extra opts fsS f}"
    by (auto simp: plan_deletes_set [OF assms(1)] extra_def)
qed

text \<open>The transfers, and then the deletions.\<close>

lemma pool_stores:
  assumes ij: "i \<noteq> j" and ok: "ok w" and dry: "\<not> soDryRun opts"
    and acts: "distinct (map (\<lambda>a. fiPath (caFile a)) acts)" "distinct acts"
      "\<forall>a \<in> set acts. files i w (path_join [sp, fiPath (caFile a)]) \<noteq> None \<and> key (path_join [dp, fiPath (caFile a)])"
    and inj: "inj_on (\<lambda>r. path_join [dp, r]) ((\<lambda>a. fiPath (caFile a)) ` set acts)"
    and run: "(pool_step opts (transfer env opts (B i) (B j) sp dp))\<^sup>*\<^sup>* (pool_init (sync_workers opts) acts w) p" "pool_final p" "\<not> plCtxDone p"
  shows "plErrors p = []" "ok (plWorld p)" "\<forall>k. k \<noteq> j \<longrightarrow> files k (plWorld p) = files k w"
    "\<forall>a \<in> set acts. files j (plWorld p) (path_join [dp, fiPath (caFile a)]) = files i w (path_join [sp, fiPath (caFile a)])"
    "\<forall>q. (\<forall>a \<in> set acts. q \<noteq> path_join [dp, fiPath (caFile a)]) \<longrightarrow> files j (plWorld p) q = files j w q"
    "plCopied p + plUpdated p = length acts"
proof -
  let ?sf = "\<lambda>a. path_join [sp, fiPath (caFile a)]" and ?df = "\<lambda>a. path_join [dp, fiPath (caFile a)]"
  have injdf: "inj_on ?df (set acts)"
    using comp_inj_on [OF _ inj] acts(1) by (simp add: distinct_map comp_def)
  have tr: "\<exists>v'. transfer env opts (B i) (B j) sp dp a v = (None, v') \<and> ok v' \<and> files j v' = (files j v)(?df a := files i w (?sf a)) \<and>
      (\<forall>k. k \<noteq> j \<longrightarrow> files k v' = files k v)"
    if a: "ok v" "a \<in> set acts" "files i v (?sf a) = files i w (?sf a)" for a v
  proof -
    obtain d where d: "files i w (?sf a) = Some d" "key (?df a)" using acts(3) a(2) by auto
    then show ?thesis
      using copyFile_stores [OF ij a(1) d(2), of "?sf a" d env opts] a(3) dry by (simp add: transfer_def)
  qed
  have "pool_good i j ?sf ?df acts w p \<and> plWorkers p = sync_workers opts"
    using pool_good_run [OF run(1) tr ij injdf ok acts(2)] run(3) by blast
  moreover have "0 < sync_workers opts" by (simp add: sync_workers_def)
  ultimately have "pool_good i j ?sf ?df acts w p" "plQueue p = []" "plBusy p = []"
    using run(2) by (auto simp: pool_final_def)
  then show "plErrors p = []" "ok (plWorld p)" "\<forall>k. k \<noteq> j \<longrightarrow> files k (plWorld p) = files k w"
    "\<forall>a \<in> set acts. files j (plWorld p) (?df a) = files i w (?sf a)"
    "\<forall>q. (\<forall>a \<in> set acts. q \<noteq> ?df a) \<longrightarrow> files j (plWorld p) q = files j w q" "plCopied p + plUpdated p = length acts"
    by (simp_all add: pool_good_def)
qed

lemma finish_stores:
  assumes ctx: "\<And>n. ctx n = None" and dry: "\<not> soDryRun opts" and okW: "ok (plWorld p)" and err: "plErrors p = []"
    and dels: "\<forall>q \<in> set dels. key (path_join [dp, q])" "soDeleteExtra opts \<or> dels = []"
    and fin: "sync_finish ctx opts (B j) dp dels sk p = ((r, None), w')"
  shows "ok w'" "\<forall>k. k \<noteq> j \<longrightarrow> files k w' = files k (plWorld p)" "srErrors r = []"
    "files j w' = (\<lambda>q. if \<exists>p \<in> set dels. q = path_join [dp, p] then None else files j (plWorld p) q)"
proof -
  let ?r = "\<lparr>srCopied = plCopied p, srUpdated = plUpdated p, srDeleted = 0, srSkipped = sk,
    srErrors = plErrors p, srBytesTransferred = plBytes p, srDryRun = soDryRun opts\<rparr>"
  obtain v where v: "delete_loop ctx 0 opts (B j) dp dels ?r (plWorld p) = ((?r\<lparr>srDeleted := srDeleted ?r + length dels\<rparr>, None), v)"
    "ok v" "\<forall>k. k \<noteq> j \<longrightarrow> files k v = files k (plWorld p)"
    "files j v = (\<lambda>q. if \<exists>p \<in> set dels. q = path_join [dp, p] then None else files j (plWorld p) q)"
    using delete_loop_stores [of ctx, OF ctx dry okW dels(1), where n = 0 and j = j and r = ?r] by blast
  have "(r = ?r \<and> w' = plWorld p \<and> dels = []) \<or> (r = ?r\<lparr>srDeleted := length dels\<rparr> \<and> w' = v)"
    using fin v(1) dels(2) by (auto simp: sync_finish_def Let_def split: if_splits)
  then show "ok w'" "\<forall>k. k \<noteq> j \<longrightarrow> files k w' = files k (plWorld p)" "srErrors r = []"
    "files j w' = (\<lambda>q. if \<exists>p \<in> set dels. q = path_join [dp, p] then None else files j (plWorld p) q)"
    using v okW err by auto
qed

lemma sync_stores:
  assumes ij: "i \<noteq> j" and ok: "ok w" and ord: "range_order ord"
    and lS: "listFiles env opts (B i) sp w = Inr fsS" and lD: "listFiles env opts (B j) dp w = Inr fsD"
    and dS: "distinct (map fiPath fsS)" and dD: "distinct (map fiPath fsD)"
    and S: "\<forall>f \<in> set fsS. files i w (path_join [sp, fiPath f]) \<noteq> None \<and> key (path_join [dp, fiPath f])"
    and D: "\<forall>f \<in> set fsD. key (path_join [dp, fiPath f])"
    and inj: "inj_on (\<lambda>r. path_join [dp, r]) (fiPath ` (set fsS \<union> set fsD))"
    and dry: "\<not> soDryRun opts" and ctx: "\<And>n. ctx n = None"
    and out: "sync_outcome env ctx ord (B i) (B j) sp dp opts w (Some r, None) w'"
  shows "ok w'" "\<forall>k. k \<noteq> j \<longrightarrow> files k w' = files k w" "srErrors r = []"
    "\<And>f. f \<in> set fsS \<Longrightarrow> to_copy env opts fsD f \<Longrightarrow>
      files j w' (path_join [dp, fiPath f]) = files i w (path_join [sp, fiPath f])"
    "\<And>f. f \<in> set fsD \<Longrightarrow> extra opts fsS f \<Longrightarrow> files j w' (path_join [dp, fiPath f]) = None"
    "\<And>q. (\<forall>f \<in> set fsS. to_copy env opts fsD f \<longrightarrow> q \<noteq> path_join [dp, fiPath f]) \<Longrightarrow>
      (\<forall>f \<in> set fsD. extra opts fsS f \<longrightarrow> q \<noteq> path_join [dp, fiPath f]) \<Longrightarrow> files j w' q = files j w q"
    "srCopied r + srUpdated r + srSkipped r = length (filter (\<lambda>f. \<not> fiIsDir f) fsS)"
proof -
  define acts where "acts = action_list env opts (dst_map fsD) fsS"
  define dels where "dels = plan_deletes opts ord (gm_del_all (map fiPath (filter (\<lambda>f. \<not> fiIsDir f) fsS)) (dst_map fsD))"
  define sk where "sk = length (filter (plan_skips env opts (dst_map fsD)) fsS)"
  have plan: "sync_plan env ord (B i) (B j) sp dp opts w = Inr (acts, sk, dels)"
    using plan_loop_eq [OF dS, of env opts "dst_map fsD" "[]" 0] by (simp add: sync_plan_def lS lD acts_def dels_def sk_def)
  obtain p where p: "(pool_step opts (transfer env opts (B i) (B j) sp dp))\<^sup>*\<^sup>* (pool_init (sync_workers opts) acts w) p" "pool_final p"
    "sync_finish ctx opts (B j) dp dels sk p = ((r, None), w')"
    using out plan by cases auto
  have A: "caFile ` set acts = {f \<in> set fsS. to_copy env opts fsD f}" unfolding acts_def by (rule actions_to_copy)
  have E: "set dels = fiPath ` {f \<in> set fsD. extra opts fsS f}" unfolding dels_def by (rule plan_deletes_extra [OF ord dD])
  have a: "\<forall>a \<in> set acts. files i w (path_join [sp, fiPath (caFile a)]) \<noteq> None \<and> key (path_join [dp, fiPath (caFile a)])"
    using S A by blast
  have inja: "inj_on (\<lambda>r. path_join [dp, r]) ((\<lambda>a. fiPath (caFile a)) ` set acts)"
    by (rule inj_on_subset [OF inj]) (use A in blast)
  note P = pool_stores [OF ij ok dry action_list_distinct [OF dS, of env opts "dst_map fsD", folded acts_def] a inja p(1,2) sync_finish_counts(1) [OF p(3)]]
  have d: "\<forall>q \<in> set dels. key (path_join [dp, q])" "soDeleteExtra opts \<or> dels = []"
    unfolding E using D by (auto simp: dels_def plan_deletes_def)
  note F = finish_stores [where ctx = ctx, OF ctx dry P(2,1) d p(3)]
  show "ok w'" "srErrors r = []" by (fact F)+
  show "\<forall>k. k \<noteq> j \<longrightarrow> files k w' = files k w" using F(2) P(3) by simp
  show "files j w' (path_join [dp, fiPath f]) = files i w (path_join [sp, fiPath f])"
    if f: "f \<in> set fsS" "to_copy env opts fsD f" for f
  proof -
    have "fiPath f \<noteq> fiPath g" if "g \<in> set fsD" "extra opts fsS g" for g
      using that f plan_action_file by (auto simp: extra_def to_copy_def)
    then have "path_join [dp, fiPath f] \<noteq> path_join [dp, fiPath g]" if "g \<in> set fsD" "extra opts fsS g" for g
      using that f(1) inj by (auto dest: inj_onD)
    moreover have "f \<in> caFile ` set acts" unfolding A using f by simp
    ultimately show ?thesis using P(4) by (auto simp: F(4) E)
  qed
  show "files j w' (path_join [dp, fiPath f]) = None" if "f \<in> set fsD" "extra opts fsS f" for f
    using that E by (auto simp: F(4))
  show "files j w' q = files j w q"
    if q: "\<forall>f \<in> set fsS. to_copy env opts fsD f \<longrightarrow> q \<noteq> path_join [dp, fiPath f]"
      "\<forall>f \<in> set fsD. extra opts fsS f \<longrightarrow> q \<noteq> path_join [dp, fiPath f]" for q
  proof -
    have "\<forall>a \<in> set acts. q \<noteq> path_join [dp, fiPath (caFile a)]" using q(1) A by blast
    then show ?thesis using P(5) q(2) E by (auto simp: F(4))
  qed
  show "srCopied r + srUpdated r + srSkipped r = length (filter (\<lambda>f. \<not> fiIsDir f) fsS)"
    using P(6) action_list_count [of env opts "dst_map fsD" fsS] sync_finish_counts(2-4) [OF p(3)] by (simp add: acts_def sk_def)
qed

end

subsection \<open>The tree under a base path\<close>

text \<open>
  A base path is empty or a key. What \<open>List\<close> returns for it must lie below it as a directory: a
  sibling whose name merely starts with the base path (\<open>database\<close> next to \<open>data\<close>) is listed too,
  and gets a relative path that does not lead back to it. The locale adds no assumption: it collects
  the results for pairs of stores that are synced, to be interpreted where the stores are given.
\<close>

locale synced_stores = extended_stores
begin

definition base_ok :: "path \<Rightarrow> bool" where
  "base_ok base \<longleftrightarrow> base = [] \<or> dirp base"

definition clean_under :: "nat \<Rightarrow> path \<Rightarrow> 'a \<Rightarrow> bool" where
  "clean_under i base w \<longleftrightarrow>
     (\<forall>p. files i w p \<noteq> None \<longrightarrow> under i base p \<longrightarrow> (\<exists>r. plain_key r \<and> p = path_join [base, r]))"

lemma join_base:
  "base_ok base \<Longrightarrow> plain_key r \<Longrightarrow> path_join [base, r] = (if base = [] then r else base @ slash # r)"
  using dir_plain path_join_plain by (auto simp: base_ok_def)

lemma relative_join:
  assumes "base_ok base" "plain_key r"
  shows "relative_path base (path_join [base, r]) = r"
  using join_base [OF assms] by (auto simp: relative_path_def)

lemma under_join: "base_ok base \<Longrightarrow> plain_key r \<Longrightarrow> under i base (path_join [base, r])"
  using under_all under_below by (auto simp: base_ok_def join_base)

text \<open>What the destination calls a file of the source.\<close>

lemma key_dst:
  assumes "ok w" "base_ok sp" "base_ok dp" "dp = [] \<longrightarrow> sp = []" "plain_key x" "files i w (path_join [sp, x]) \<noteq> None"
  shows "key (path_join [dp, x])"
proof -
  have k: "key (path_join [sp, x])" using key_law [OF assms(1)] assms(6) by blast
  show ?thesis
  proof (cases "dp = []")
    case False
    then have "dirp dp" "key x \<or> (\<exists>a. dirp a \<and> key (a @ slash # x))"
      using assms(2,3) k [unfolded join_base [OF assms(2,5)]] by (auto simp: base_ok_def split: if_splits)
    then show ?thesis using key_below [OF _ assms(5)] join_base [OF assms(3,5)] False by simp
  qed (use k assms(4) in simp)
qed

lemma file_info_stores:
  assumes "ok w" "files i w p = Some d"
  shows "fiPath (file_info opts (B i) base p w) = relative_path base p"
    "fiSize (file_info opts (B i) base p w) = int (length d)"
    "\<not> fiIsDir (file_info opts (B i) base p w)"
  using stat_law [OF assms] by (auto simp: file_info_def Let_def)

definition rel_info :: "SyncOptions \<Rightarrow> nat \<Rightarrow> path \<Rightarrow> path \<Rightarrow> 'a \<Rightarrow> FileInfo" where
  "rel_info opts i base r w = file_info opts (B i) base (path_join [base, r]) w"

lemma listFiles_stores:
  assumes "ok w" "base_ok base" "clean_under i base w"
  shows "\<exists>fs. listFiles env opts (B i) base w = Inr fs \<and> distinct (map fiPath fs) \<and>
    (\<forall>f. f \<in> set fs \<longleftrightarrow> (\<exists>r. plain_key r \<and> files i w (path_join [base, r]) \<noteq> None \<and>
       f = rel_info opts i base r w \<and> passes_filter env opts f)) \<and>
    (\<forall>f \<in> set fs. \<not> fiIsDir f \<and> plain_key (fiPath f) \<and> f = rel_info opts i base (fiPath f) w)"
proof -
  obtain ps where ps: "bkList (B i) base w = Inr ps" "distinct ps"
    "set ps = {p. files i w p \<noteq> None \<and> under i base p}"
    using list_law [OF assms(1)] assms(2) unfolding base_ok_def by blast
  let ?fi = "\<lambda>p. file_info opts (B i) base p w"
  let ?fs = "filter (passes_filter env opts) (map ?fi ps)"
  have pr: "\<exists>r. plain_key r \<and> p = path_join [base, r]" if "p \<in> set ps" for p
    using that ps(3) assms(3) unfolding clean_under_def by blast
  have path: "fiPath (?fi p) = relative_path base p \<and> \<not> fiIsDir (?fi p)" if "p \<in> set ps" for p
    using that ps(3) file_info_stores [OF assms(1), of i p _ opts base] by auto
  have inj: "inj_on (\<lambda>p. fiPath (?fi p)) (set ps)"
  proof (rule inj_onI)
    fix p q assume "p \<in> set ps" "q \<in> set ps" "fiPath (?fi p) = fiPath (?fi q)"
    then show "p = q" using pr path relative_join [OF assms(2)] by metis
  qed
  have mem: "p \<in> set ps \<longleftrightarrow> (\<exists>r. plain_key r \<and> files i w (path_join [base, r]) \<noteq> None \<and> p = path_join [base, r])" for p
    using pr [of p] ps(3) under_join [OF assms(2)] by blast
  have "distinct (map (\<lambda>p. fiPath (?fi p)) ps)" using ps(2) inj by (simp add: distinct_map)
  then have "distinct (map fiPath (map ?fi ps))" by (simp add: comp_def)
  then have "distinct (map fiPath ?fs)" by (rule distinct_map_filter)
  moreover have inF: "f \<in> set ?fs \<longleftrightarrow> (\<exists>r. plain_key r \<and> files i w (path_join [base, r]) \<noteq> None \<and>
       f = rel_info opts i base r w \<and> passes_filter env opts f)" (is "_ \<longleftrightarrow> ?R") for f
  proof -
    have "f \<in> set ?fs \<longleftrightarrow> passes_filter env opts f \<and> (\<exists>p \<in> set ps. f = ?fi p)" by auto
    also have "\<dots> \<longleftrightarrow> ?R" unfolding rel_info_def Bex_def mem by blast
    finally show ?thesis .
  qed
  moreover have "\<not> fiIsDir f \<and> plain_key (fiPath f) \<and> f = rel_info opts i base (fiPath f) w"
    if f: "f \<in> set ?fs" for f
  proof -
    obtain r where r: "plain_key r" "files i w (path_join [base, r]) \<noteq> None" "f = rel_info opts i base r w"
      using f unfolding inF by blast
    then have "path_join [base, r] \<in> set ps" using mem by blast
    then have "fiPath f = r" "\<not> fiIsDir f"
      using path relative_join [OF assms(2) r(1)] r(3) by (simp_all add: rel_info_def)
    with r show ?thesis by simp
  qed
  moreover have "listFiles env opts (B i) base w = Inr ?fs" by (simp add: listFiles_def ps(1))
  ultimately show ?thesis by blast
qed

text \<open>
  \<open>detects i sp j dp w\<close>: whenever both sides have a file and the data differ, the comparison of
  the two file infos asks for an update. By default it compares sizes and modification times.
\<close>

definition detects :: "SyncEnv \<Rightarrow> SyncOptions \<Rightarrow> nat \<Rightarrow> path \<Rightarrow> nat \<Rightarrow> path \<Rightarrow> 'a \<Rightarrow> bool" where
  "detects env opts i sp j dp w \<longleftrightarrow>
     (\<forall>r d d'. plain_key r \<longrightarrow> files i w (path_join [sp, r]) = Some d \<longrightarrow> files j w (path_join [dp, r]) = Some d' \<longrightarrow>
        d \<noteq> d' \<longrightarrow> NeedsUpdate env (rel_info opts i sp r w) (rel_info opts j dp r w) opts)"

lemma passes_no_filter: "soFilter opts = None \<Longrightarrow> passes_filter env opts f"
  by (simp add: passes_filter_def)

lemma rel_info_path:
  assumes "ok w" "base_ok base" "plain_key r" "files i w (path_join [base, r]) \<noteq> None"
  shows "fiPath (rel_info opts i base r w) = r" "\<not> fiIsDir (rel_info opts i base r w)"
  using assms(4) file_info_stores [OF assms(1), of i "path_join [base, r]" _ opts base]
    relative_join [OF assms(2,3)] by (auto simp: rel_info_def)

text \<open>What is listed of a tree when nothing is filtered: one entry for each file, under its relative path.\<close>

definition tree_of :: "SyncOptions \<Rightarrow> nat \<Rightarrow> path \<Rightarrow> 'a \<Rightarrow> FileInfo list \<Rightarrow> bool" where
  "tree_of opts i base w fs \<longleftrightarrow>
     distinct (map fiPath fs) \<and>
     (\<forall>f. f \<in> set fs \<longleftrightarrow> (\<exists>x. plain_key x \<and> files i w (path_join [base, x]) \<noteq> None \<and> f = rel_info opts i base x w))"

lemma listFiles_tree:
  assumes "ok w" "base_ok base" "clean_under i base w" "soFilter opts = None"
  obtains fs where "listFiles env opts (B i) base w = Inr fs" "tree_of opts i base w fs"
proof -
  obtain fs where fs: "listFiles env opts (B i) base w = Inr fs" "distinct (map fiPath fs)"
    "\<forall>f. f \<in> set fs \<longleftrightarrow> (\<exists>r. plain_key r \<and> files i w (path_join [base, r]) \<noteq> None \<and>
       f = rel_info opts i base r w \<and> passes_filter env opts f)"
    using listFiles_stores [OF assms(1-3), of env opts] by blast
  have "tree_of opts i base w fs" using fs(2,3) by (simp add: tree_of_def passes_no_filter [OF assms(4)])
  with fs(1) show thesis by (rule that)
qed

lemma tree_ofD:
  assumes "ok w" "base_ok base" "tree_of opts i base w fs"
  shows "distinct (map fiPath fs)"
    "f \<in> set fs \<Longrightarrow> plain_key (fiPath f) \<and> files i w (path_join [base, fiPath f]) \<noteq> None \<and>
      f = rel_info opts i base (fiPath f) w \<and> \<not> fiIsDir f"
    "plain_key x \<Longrightarrow> files i w (path_join [base, x]) \<noteq> None \<Longrightarrow> rel_info opts i base x w \<in> set fs"
    "fiPath ` set fs = {x. plain_key x \<and> files i w (path_join [base, x]) \<noteq> None}"
    "plain_key x \<Longrightarrow> gm_get (dst_map fs) x =
      (if files i w (path_join [base, x]) = None then None else Some (rel_info opts i base x w))"
proof -
  show d: "distinct (map fiPath fs)" using assms(3) by (simp add: tree_of_def)
  have m: "f \<in> set fs \<longleftrightarrow> (\<exists>x. plain_key x \<and> files i w (path_join [base, x]) \<noteq> None \<and> f = rel_info opts i base x w)" for f
    using assms(3) by (simp add: tree_of_def)
  have D: "plain_key (fiPath f) \<and> files i w (path_join [base, fiPath f]) \<noteq> None \<and>
      f = rel_info opts i base (fiPath f) w \<and> \<not> fiIsDir f" if "f \<in> set fs" for f
    using that rel_info_path [OF assms(1,2)] unfolding m by metis
  then show "f \<in> set fs \<Longrightarrow> plain_key (fiPath f) \<and> files i w (path_join [base, fiPath f]) \<noteq> None \<and>
      f = rel_info opts i base (fiPath f) w \<and> \<not> fiIsDir f" .
  have I: "rel_info opts i base x w \<in> set fs" if "plain_key x" "files i w (path_join [base, x]) \<noteq> None" for x
    using that unfolding m by blast
  then show "plain_key x \<Longrightarrow> files i w (path_join [base, x]) \<noteq> None \<Longrightarrow> rel_info opts i base x w \<in> set fs" .
  show paths: "fiPath ` set fs = {x. plain_key x \<and> files i w (path_join [base, x]) \<noteq> None}"
    using D I rel_info_path(1) [OF assms(1,2)] by (auto simp: image_iff) (metis option.distinct(1))
  assume x: "plain_key x"
  show "gm_get (dst_map fs) x = (if files i w (path_join [base, x]) = None then None else Some (rel_info opts i base x w))"
  proof (cases "files i w (path_join [base, x]) = None")
    case True
    then have "x \<notin> fiPath ` set fs" unfolding paths by blast
    then have "gm_get (dst_map fs) x \<noteq> Some g" for g using dst_map_get [OF d, of x g] by blast
    then show ?thesis using True by (cases "gm_get (dst_map fs) x") auto
  next
    case False
    then have "gm_get (dst_map fs) x = Some (rel_info opts i base x w)"
      using dst_map_get [OF d] I [OF x] rel_info_path(1) [OF assms(1,2) x] by simp
    then show ?thesis using False by simp
  qed
qed

text \<open>The plan for a pair of trees.\<close>

lemma to_copy_tree:
  assumes "ok w" "base_ok sp" "base_ok dp" "tree_of opts j dp w fsD" "plain_key x" "files i w (path_join [sp, x]) \<noteq> None"
  shows "to_copy env opts fsD (rel_info opts i sp x w) \<longleftrightarrow>
    files j w (path_join [dp, x]) = None \<or>
    (NeedsUpdate env (rel_info opts i sp x w) (rel_info opts j dp x w) opts \<and> \<not> soIgnoreExisting opts)"
  using rel_info_path [OF assms(1,2,5,6), of opts] tree_ofD(5) [OF assms(1,3,4,5)] rel_info_path(2) [OF assms(1,3,5), of j opts]
  by (auto simp: to_copy_def plan_action_def)

lemma extra_tree:
  assumes "ok w" "base_ok sp" "base_ok dp" "tree_of opts i sp w fsS" "tree_of opts j dp w fsD" "f \<in> set fsD"
  shows "extra opts fsS f \<longleftrightarrow> soDeleteExtra opts \<and> files i w (path_join [sp, fiPath f]) = None"
proof -
  note f = tree_ofD(2) [OF assms(1,3,5,6)]
  have "fiPath f \<in> fiPath ` set fsS \<longleftrightarrow> files i w (path_join [sp, fiPath f]) \<noteq> None"
    using f unfolding tree_ofD(4) [OF assms(1,2,4)] by blast
  then have "(\<exists>g \<in> set fsS. fiPath g = fiPath f) \<longleftrightarrow> files i w (path_join [sp, fiPath f]) \<noteq> None"
    by (metis image_iff)
  moreover have "\<forall>g \<in> set fsS. \<not> fiIsDir g" using tree_ofD(2) [OF assms(1,2,4)] by blast
  ultimately show ?thesis using f unfolding extra_def by blast
qed

lemma join_inj: "base_ok dp \<Longrightarrow> plain_key x \<Longrightarrow> plain_key y \<Longrightarrow> path_join [dp, x] = path_join [dp, y] \<Longrightarrow> x = y"
  using relative_join by metis

lemma sync_trees:
  assumes ij: "i \<noteq> j" and ok: "ok w" and ord: "range_order ord"
    and base: "base_ok sp" "base_ok dp" "dp = [] \<longrightarrow> sp = []"
    and lS: "listFiles env opts (B i) sp w = Inr fsS" "tree_of opts i sp w fsS"
    and lD: "listFiles env opts (B j) dp w = Inr fsD" "tree_of opts j dp w fsD"
    and dry: "\<not> soDryRun opts" and ctx: "\<And>n. ctx n = None"
    and out: "sync_outcome env ctx ord (B i) (B j) sp dp opts w (Some r, None) w'"
  shows "ok w'" "\<forall>k. k \<noteq> j \<longrightarrow> files k w' = files k w" "srErrors r = []"
    "\<And>x. plain_key x \<Longrightarrow> files i w (path_join [sp, x]) \<noteq> None \<Longrightarrow> to_copy env opts fsD (rel_info opts i sp x w) \<Longrightarrow>
      files j w' (path_join [dp, x]) = files i w (path_join [sp, x])"
    "\<And>x. plain_key x \<Longrightarrow> files i w (path_join [sp, x]) = None \<Longrightarrow> soDeleteExtra opts \<Longrightarrow> files j w' (path_join [dp, x]) = None"
    "\<And>q. (\<And>x. plain_key x \<Longrightarrow> q = path_join [dp, x] \<Longrightarrow>
        (files i w (path_join [sp, x]) \<noteq> None \<longrightarrow> \<not> to_copy env opts fsD (rel_info opts i sp x w)) \<and>
        (files i w (path_join [sp, x]) = None \<longrightarrow> \<not> soDeleteExtra opts)) \<Longrightarrow> files j w' q = files j w q"
proof -
  note S = tree_ofD [OF ok base(1) lS(2)] and D = tree_ofD [OF ok base(2) lD(2)]
  note ex = extra_tree [OF ok base(1,2) lS(2) lD(2)]
  have 1: "\<forall>f \<in> set fsS. files i w (path_join [sp, fiPath f]) \<noteq> None \<and> key (path_join [dp, fiPath f])"
    using S(2) key_dst [OF ok base] by blast
  have 2: "\<forall>f \<in> set fsD. key (path_join [dp, fiPath f])" using D(2) key_law [OF ok] by blast
  have "\<forall>x \<in> fiPath ` (set fsS \<union> set fsD). plain_key x" using S(2) D(2) by blast
  then have 3: "inj_on (\<lambda>r. path_join [dp, r]) (fiPath ` (set fsS \<union> set fsD))"
    using join_inj [OF base(2)] by (meson inj_onI)
  note eff = sync_stores [OF ij ok ord lS(1) lD(1) S(1) D(1) 1 2 3 dry ctx out]
  show "ok w'" "\<forall>k. k \<noteq> j \<longrightarrow> files k w' = files k w" "srErrors r = []" using eff(1-3) by blast+
  show "files j w' (path_join [dp, x]) = files i w (path_join [sp, x])"
    if "plain_key x" "files i w (path_join [sp, x]) \<noteq> None" "to_copy env opts fsD (rel_info opts i sp x w)" for x
    using eff(4) [OF S(3) [OF that(1,2)] that(3)] rel_info_path(1) [OF ok base(1) that(1,2)] by simp
  show kept: "files j w' q = files j w q"
    if q: "\<And>x. plain_key x \<Longrightarrow> q = path_join [dp, x] \<Longrightarrow>
        (files i w (path_join [sp, x]) \<noteq> None \<longrightarrow> \<not> to_copy env opts fsD (rel_info opts i sp x w)) \<and>
        (files i w (path_join [sp, x]) = None \<longrightarrow> \<not> soDeleteExtra opts)" for q
    by (rule eff(6)) (use q S(2) D(2) ex in metis)+
  show "files j w' (path_join [dp, x]) = None"
    if x: "plain_key x" "files i w (path_join [sp, x]) = None" "soDeleteExtra opts" for x
  proof (cases "files j w (path_join [dp, x]) = None")
    case True
    have "files j w' (path_join [dp, x]) = files j w (path_join [dp, x])"
      by (rule eff(6)) (use True x S(2) D(2) join_inj [OF base(2) x(1)] in metis)+
    with True show ?thesis by simp
  next
    case False
    note rp = rel_info_path(1) [OF ok base(2) x(1) False]
    show ?thesis using eff(5) [OF D(3) [OF x(1) False]] ex [OF D(3) [OF x(1) False]] x(2,3) unfolding rp by blast
  qed
qed

text \<open>The destination after a run, path by path.\<close>

lemma Sync_effect:
  assumes ij: "i \<noteq> j" and ok: "ok w" and ord: "range_order ord"
    and base: "base_ok sp" "base_ok dp" "dp = [] \<longrightarrow> sp = []"
    and clean: "clean_under i sp w" "clean_under j dp w"
    and nofilter: "soFilter opts = None" and dry: "\<not> soDryRun opts" and ctx: "\<And>n. ctx n = None"
    and out: "sync_outcome env ctx ord (B i) (B j) sp dp opts w (Some r, None) w'"
  shows "ok w'" "\<forall>k. k \<noteq> j \<longrightarrow> files k w' = files k w" "srErrors r = []"
    "\<And>x. plain_key x \<Longrightarrow> files j w' (path_join [dp, x]) =
      (case files i w (path_join [sp, x]) of
         Some d \<Rightarrow>
           if files j w (path_join [dp, x]) = None \<or>
              (NeedsUpdate env (rel_info opts i sp x w) (rel_info opts j dp x w) opts \<and> \<not> soIgnoreExisting opts)
           then Some d else files j w (path_join [dp, x])
       | None \<Rightarrow> if soDeleteExtra opts then None else files j w (path_join [dp, x]))"
    "\<And>q. \<not> (\<exists>x. plain_key x \<and> q = path_join [dp, x]) \<Longrightarrow> files j w' q = files j w q"
proof -
  obtain fsS where S: "listFiles env opts (B i) sp w = Inr fsS" "tree_of opts i sp w fsS"
    using listFiles_tree [OF ok base(1) clean(1) nofilter] .
  obtain fsD where D: "listFiles env opts (B j) dp w = Inr fsD" "tree_of opts j dp w fsD"
    using listFiles_tree [OF ok base(2) clean(2) nofilter] .
  note eff = sync_trees [where ctx = ctx, OF ij ok ord base S D dry ctx out]
  show "ok w'" "\<forall>k. k \<noteq> j \<longrightarrow> files k w' = files k w" "srErrors r = []" using eff(1-3) by blast+
  show "files j w' q = files j w q" if "\<not> (\<exists>x. plain_key x \<and> q = path_join [dp, x])" for q
    by (rule eff(6)) (use that in blast)
  show "files j w' (path_join [dp, x]) =
      (case files i w (path_join [sp, x]) of
         Some d \<Rightarrow>
           if files j w (path_join [dp, x]) = None \<or>
              (NeedsUpdate env (rel_info opts i sp x w) (rel_info opts j dp x w) opts \<and> \<not> soIgnoreExisting opts)
           then Some d else files j w (path_join [dp, x])
       | None \<Rightarrow> if soDeleteExtra opts then None else files j w (path_join [dp, x]))"
    if x: "plain_key x" for x
  proof -
    note tc = to_copy_tree [OF ok base(1,2) D(2) x, of i env]
    have kept: "files j w' (path_join [dp, x]) = files j w (path_join [dp, x])"
      if "files i w (path_join [sp, x]) \<noteq> None \<longrightarrow> \<not> to_copy env opts fsD (rel_info opts i sp x w)"
        "files i w (path_join [sp, x]) = None \<longrightarrow> \<not> soDeleteExtra opts"
      by (rule eff(6)) (use that join_inj [OF base(2) x] in metis)
    show ?thesis
      using eff(4) [OF x] eff(5) [OF x] kept tc by (cases "files i w (path_join [sp, x])") auto
  qed
qed

text \<open>A run ends, and ends well.\<close>

lemma Sync_completes:
  assumes "i \<noteq> j" "ok w" "range_order ord" "base_ok sp" "base_ok dp" "dp = [] \<longrightarrow> sp = []"
    "clean_under i sp w" "clean_under j dp w" "soFilter opts = None" "\<not> soDryRun opts" "\<And>n. ctx n = None"
  shows "\<exists>r w'. Sync env ctx ord (B i) (B j) sp dp opts w = ((Some r, None), w') \<and> Success r \<and> ok w'"
proof -
  have "\<exists>fs. listFiles env opts (B i) sp w = Inr fs" "\<exists>fs. listFiles env opts (B j) dp w = Inr fs"
    using listFiles_tree [OF assms(2,4,7,9)] listFiles_tree [OF assms(2,5,8,9)] by metis+
  then obtain pl where pl: "sync_plan env ord (B i) (B j) sp dp opts w = Inr pl"
    by (auto simp: sync_plan_def case_prod_beta)
  obtain r w' where s: "Sync env ctx ord (B i) (B j) sp dp opts w = ((Some r, None), w')"
    using Sync_live [of ctx, OF assms(11) pl] by blast
  then show ?thesis using Sync_effect(1,3) [OF assms Sync_outcome [OF s]] by (simp add: Success_def)
qed

text \<open>A mirror: with \<open>DeleteExtra\<close> the two trees are equal afterwards.\<close>

lemma Sync_mirror:
  assumes "i \<noteq> j" "ok w" "range_order ord" "base_ok sp" "base_ok dp" "dp = [] \<longrightarrow> sp = []"
    "clean_under i sp w" "clean_under j dp w" "soFilter opts = None" "\<not> soDryRun opts" "\<And>n. ctx n = None"
    "soDeleteExtra opts" "\<not> soIgnoreExisting opts" "detects env opts i sp j dp w"
    "sync_outcome env ctx ord (B i) (B j) sp dp opts w (Some r, None) w'" "plain_key x"
  shows "files j w' (path_join [dp, x]) = files i w' (path_join [sp, x])"
proof -
  note eff = Sync_effect [OF assms(1-11,15)]
  have "files i w' = files i w" using eff(2) assms(1) by blast
  moreover have "NeedsUpdate env (rel_info opts i sp x w) (rel_info opts j dp x w) opts"
    if "files i w (path_join [sp, x]) = Some d" "files j w (path_join [dp, x]) = Some d'" "d \<noteq> d'" for d d'
    using assms(14,16) that by (auto simp: detects_def)
  ultimately show ?thesis
    using eff(4) [OF assms(16)] assms(12,13)
    by (cases "files i w (path_join [sp, x])"; cases "files j w (path_join [dp, x])") auto
qed

end

subsection \<open>Properties of every run\<close>

text \<open>
  These hold for any two backends, whatever their methods do: \<open>broken\<close>, whose witnesses they need,
  is a backend over the state of a counter that lists one file and whose other methods fail.
\<close>

definition broken :: "nat \<Rightarrow> path list \<Rightarrow> nat Backend" where
  "broken i ps =
     \<lparr>bkId = i, bkNewWriter = (\<lambda>p opts w. (Inl ErrPermissionDenied, Suc w)),
      bkNewReader = (\<lambda>p opts w. Inl ErrPermissionDenied), bkExists = (\<lambda>p w. Inr (p \<in> set ps)),
      bkDelete = (\<lambda>p w. (Some ErrPermissionDenied, Suc w)), bkList = (\<lambda>p w. Inr ps), bkExt = None\<rparr>"

definition witness_env :: SyncEnv where
  "witness_env = \<lparr>seTimeEqual = (=), seNow = 0, seCtx = (\<lambda>i. None), seRand = (\<lambda>i. 0)\<rparr>"

text \<open>A dry run changes nothing: for any two backends and every schedule of the workers the world after
  \<open>Sync\<close> with \<open>DryRun\<close> is the world before.\<close>

theorem dry_run_changes_nothing:
  assumes "sync_outcome env ctx ord src dst srcPath dstPath opts w r w'" "soDryRun opts"
  shows "w' = w"
  using assms by (rule sync_outcome_dry)

theorem dry_run_changes_nothing_witness:
  "snd (Sync witness_env (\<lambda>i. None) id (broken 0 [''a'']) (broken 1 [''b'']) [] []
     (zeroOptions\<lparr>soDryRun := True, soDeleteExtra := True\<rparr>) 0) = 0"
proof -
  let ?o = "zeroOptions\<lparr>soDryRun := True, soDeleteExtra := True\<rparr>"
  have "sync_outcome witness_env (\<lambda>i. None) id (broken 0 [''a'']) (broken 1 [''b'']) [] [] ?o 0
      (fst (Sync witness_env (\<lambda>i. None) id (broken 0 [''a'']) (broken 1 [''b'']) [] [] ?o 0))
      (snd (Sync witness_env (\<lambda>i. None) id (broken 0 [''a'']) (broken 1 [''b'']) [] [] ?o 0))"
    by (rule Sync_outcome) simp
  from dry_run_changes_nothing [OF this] show ?thesis by simp
qed

text \<open>The schedule with one worker at a time, which computes, is one of the schedules of the pool, and
  with a live context it ends with a result and no error as soon as both sides can be listed.\<close>

theorem sync_returns:
  "sync_outcome env ctx ord src dst srcPath dstPath opts w
     (fst (Sync env ctx ord src dst srcPath dstPath opts w)) (snd (Sync env ctx ord src dst srcPath dstPath opts w)) \<and>
   ((\<forall>n. ctx n = None) \<and> (\<exists>fs. listFiles env opts src srcPath w = Inr fs) \<and> (\<exists>fs. listFiles env opts dst dstPath w = Inr fs)
     \<longrightarrow> (\<exists>r. fst (Sync env ctx ord src dst srcPath dstPath opts w) = (Some r, None)))"
proof -
  have "\<exists>r. fst (Sync env ctx ord src dst srcPath dstPath opts w) = (Some r, None)"
    if a: "\<forall>n. ctx n = None" "\<exists>fs. listFiles env opts src srcPath w = Inr fs" "\<exists>fs. listFiles env opts dst dstPath w = Inr fs"
  proof -
    obtain pl where "sync_plan env ord src dst srcPath dstPath opts w = Inr pl"
      using a(2,3) by (auto simp: sync_plan_def case_prod_beta)
    then show ?thesis using Sync_live [of ctx] a(1) by fastforce
  qed
  moreover have "sync_outcome env ctx ord src dst srcPath dstPath opts w
     (fst (Sync env ctx ord src dst srcPath dstPath opts w)) (snd (Sync env ctx ord src dst srcPath dstPath opts w))"
    by (rule Sync_outcome) simp
  ultimately show ?thesis by blast
qed

theorem sync_returns_witness:
  "\<exists>r. fst (Sync witness_env (\<lambda>i. None) id (broken 0 [''a'']) (broken 1 []) [] [] zeroOptions 0) = (Some r, None)"
  using sync_returns [of witness_env "\<lambda>i. None" id "broken 0 [''a'']" "broken 1 []" "[]" "[]" zeroOptions 0]
  by (simp add: listFiles_def broken_def)





end
