(* ===== verification/SyncMemory.thy ===== *)
theory SyncMemory
  imports SyncCorrect MemoryStore
begin

section \<open>Syncing in-memory backends\<close>

text \<open>
  The results of \<open>SyncCorrect\<close> on the model of the memory backend, through its interpretation of the
  contract: what a run of \<open>Sync\<close> between two backends does to the files of both, for every schedule
  of the workers. The notions the statements need are given here for memory worlds.
\<close>

definition mem_base_ok :: "path \<Rightarrow> bool" where
  "mem_base_ok base \<longleftrightarrow> base = [] \<or> mem_key base"

text \<open>
  No file of the backend has a key that merely starts with the base path (\<open>database\<close> next to the
  directory \<open>data\<close>): the prefix of \<open>List\<close> is one of strings.
\<close>

definition mem_clean_under :: "nat \<Rightarrow> path \<Rightarrow> mworld \<Rightarrow> bool" where
  "mem_clean_under i base W \<longleftrightarrow>
     (\<forall>p. wd_files i W p \<noteq> None \<longrightarrow> mem_under base p \<longrightarrow> (\<exists>r. plain_key r \<and> p = path_join [base, r]))"

definition mem_info :: "SyncOptions \<Rightarrow> nat \<Rightarrow> path \<Rightarrow> path \<Rightarrow> mworld \<Rightarrow> FileInfo" where
  "mem_info opts i base r W = file_info opts (mem_Backend i) base (path_join [base, r]) W"

text \<open>The comparison sees every difference in content: sizes or times (or hashes) tell files apart.\<close>

definition mem_detects :: "SyncEnv \<Rightarrow> SyncOptions \<Rightarrow> nat \<Rightarrow> path \<Rightarrow> nat \<Rightarrow> path \<Rightarrow> mworld \<Rightarrow> bool" where
  "mem_detects env opts i sp j dp W \<longleftrightarrow>
     (\<forall>r d d'. plain_key r \<longrightarrow> wd_files i W (path_join [sp, r]) = Some d \<longrightarrow>
        wd_files j W (path_join [dp, r]) = Some d' \<longrightarrow> d \<noteq> d' \<longrightarrow>
        NeedsUpdate env (mem_info opts i sp r W) (mem_info opts j dp r W) opts)"

interpretation mem_sync: synced_stores mem_Backend wd_files wd_ok mem_key mem_key "\<lambda>i. mem_under" mem_Ext
  by unfold_locales

lemma mem_base_ok_eq: "mem_sync.base_ok = mem_base_ok"
  by (rule ext) (simp add: mem_base_ok_def mem_sync.base_ok_def)

lemma mem_clean_under_eq: "mem_sync.clean_under = mem_clean_under"
  by (intro ext) (simp add: mem_clean_under_def mem_sync.clean_under_def)

lemma mem_info_eq: "mem_sync.rel_info = mem_info"
  by (intro ext) (simp add: mem_info_def mem_sync.rel_info_def)

lemma mem_detects_eq: "mem_sync.detects = mem_detects"
  by (intro ext) (simp add: mem_detects_def mem_sync.detects_def mem_info_eq)

lemmas mem_sync_eqs = mem_base_ok_eq mem_clean_under_eq mem_info_eq mem_detects_eq

definition sync_setting ::
  "nat \<Rightarrow> nat \<Rightarrow> path \<Rightarrow> path \<Rightarrow> SyncOptions \<Rightarrow> mworld \<Rightarrow> bool" where
  "sync_setting i j sp dp opts W \<longleftrightarrow>
     i \<noteq> j \<and> wd_ok W \<and> mem_base_ok sp \<and> mem_base_ok dp \<and> (dp = [] \<longrightarrow> sp = []) \<and>
     mem_clean_under i sp W \<and> mem_clean_under j dp W \<and> soFilter opts = None \<and> \<not> soDryRun opts"

lemma mem_Sync_effect:
  assumes "sync_setting i j sp dp opts W" "range_order ord" "\<And>n. ctx n = None"
    "sync_outcome env ctx ord (mem_Backend i) (mem_Backend j) sp dp opts W (Some r, None) W'"
  shows "wd_ok W'" "\<forall>k. k \<noteq> j \<longrightarrow> wd_files k W' = wd_files k W" "srErrors r = []"
    "\<And>x. plain_key x \<Longrightarrow> wd_files j W' (path_join [dp, x]) =
      (case wd_files i W (path_join [sp, x]) of
         Some d \<Rightarrow>
           if wd_files j W (path_join [dp, x]) = None \<or>
              (NeedsUpdate env (mem_info opts i sp x W) (mem_info opts j dp x W) opts \<and> \<not> soIgnoreExisting opts)
           then Some d else wd_files j W (path_join [dp, x])
       | None \<Rightarrow> if soDeleteExtra opts then None else wd_files j W (path_join [dp, x]))"
    "\<And>q. \<not> (\<exists>x. plain_key x \<and> q = path_join [dp, x]) \<Longrightarrow> wd_files j W' q = wd_files j W q"
proof -
  note a = assms(1) [unfolded sync_setting_def]
  have p: "i \<noteq> j" "wd_ok W" "mem_sync.base_ok sp" "mem_sync.base_ok dp" "dp = [] \<longrightarrow> sp = []"
    "mem_sync.clean_under i sp W" "mem_sync.clean_under j dp W" "soFilter opts = None" "\<not> soDryRun opts"
    unfolding mem_sync_eqs using a by blast+
  note eff = mem_sync.Sync_effect [OF p(1,2) assms(2) p(3-9) assms(3,4), unfolded mem_sync_eqs]
  show "wd_ok W'" "\<forall>k. k \<noteq> j \<longrightarrow> wd_files k W' = wd_files k W" "srErrors r = []"
    using eff(1-3) by blast+
  show "wd_files j W' q = wd_files j W q" if "\<not> (\<exists>x. plain_key x \<and> q = path_join [dp, x])" for q
    using eff(5) [OF that] .
  show "wd_files j W' (path_join [dp, x]) =
      (case wd_files i W (path_join [sp, x]) of
         Some d \<Rightarrow>
           if wd_files j W (path_join [dp, x]) = None \<or>
              (NeedsUpdate env (mem_info opts i sp x W) (mem_info opts j dp x W) opts \<and> \<not> soIgnoreExisting opts)
           then Some d else wd_files j W (path_join [dp, x])
       | None \<Rightarrow> if soDeleteExtra opts then None else wd_files j W (path_join [dp, x]))"
    if "plain_key x" for x
    using eff(4) [OF that] .
qed

lemma mem_listFiles_ok:
  assumes "sync_setting i j sp dp opts W"
  shows "\<exists>fs. listFiles env opts (mem_Backend i) sp W = Inr fs" "\<exists>fs. listFiles env opts (mem_Backend j) dp W = Inr fs"
  using assms mem_sync.listFiles_stores [of W sp i env opts] mem_sync.listFiles_stores [of W dp j env opts]
  unfolding sync_setting_def mem_sync_eqs by blast+

text \<open>The world of the witnesses: backend 0 has \<open>a\<close> with one byte, backend 1 is empty.\<close>

lemma plain_key_join_Nil: "plain_key r \<Longrightarrow> path_join [[], r] = r"
  using mem_sync.join_base [of "[]" r] by (simp add: mem_sync.base_ok_def)

lemma witness_setting: "sync_setting 0 1 [] [] (zeroOptions\<lparr>soDeleteExtra := True\<rparr>) witness_world"
proof -
  have "mem_clean_under (Suc 0) [] witness_world"
    by (simp add: mem_clean_under_def wd_files_def witness_world_def mem_New_def mem_files_def)
  moreover have "mem_clean_under 0 [] witness_world"
    unfolding mem_clean_under_def witness_world_files
    using mem_key_letter(1) plain_key_join_Nil [of "''a''"] by (auto simp: mem_key_def split: if_splits)
  ultimately show ?thesis
    using witness_world_ok by (simp add: sync_setting_def mem_base_ok_def zeroOptions_def)
qed

lemma witness_outcome:
  "\<exists>r W'. sync_outcome witness_env (\<lambda>n. None) id (mem_Backend 0) (mem_Backend 1) [] []
     (zeroOptions\<lparr>soDeleteExtra := True\<rparr>) witness_world (Some r, None) W'"
proof -
  let ?S = "Sync witness_env (\<lambda>n. None) id (mem_Backend 0) (mem_Backend 1) [] []
     (zeroOptions\<lparr>soDeleteExtra := True\<rparr>) witness_world"
  obtain pl where pl: "sync_plan witness_env id (mem_Backend 0) (mem_Backend 1) [] []
     (zeroOptions\<lparr>soDeleteExtra := True\<rparr>) witness_world = Inr pl"
    using mem_listFiles_ok [OF witness_setting, of witness_env] by (auto simp: sync_plan_def case_prod_beta)
  obtain r W' where s: "?S = ((Some r, None), W')" using Sync_live [of "\<lambda>n. None", OF refl pl] by blast
  show ?thesis using Sync_outcome [OF s] by (intro exI)
qed

subsection \<open>Properties\<close>

text \<open>C2: The effect of a run, path by path, for every schedule of the workers: a file of the source is
  copied when the destination lacks it or the comparison asks for an update and existing files are
  not to be ignored; a file only the destination has is deleted with \<open>DeleteExtra\<close>; everything
  else, in the destination and in every other backend, the source included, is untouched, and no
  error is recorded.\<close>

theorem sync_effect:
  assumes "sync_setting i j sp dp opts W" "range_order ord" "\<And>n. ctx n = None"
    "sync_outcome env ctx ord (mem_Backend i) (mem_Backend j) sp dp opts W (Some r, None) W'"
  shows "srErrors r = [] \<and> wd_ok W' \<and> (\<forall>k. k \<noteq> j \<longrightarrow> wd_files k W' = wd_files k W) \<and>
    (\<forall>q. (\<nexists>x. plain_key x \<and> q = path_join [dp, x]) \<longrightarrow> wd_files j W' q = wd_files j W q) \<and>
    (\<forall>x. plain_key x \<longrightarrow> wd_files j W' (path_join [dp, x]) =
      (case wd_files i W (path_join [sp, x]) of
         Some d \<Rightarrow>
           if wd_files j W (path_join [dp, x]) = None \<or>
              (NeedsUpdate env (mem_info opts i sp x W) (mem_info opts j dp x W) opts \<and> \<not> soIgnoreExisting opts)
           then Some d else wd_files j W (path_join [dp, x])
       | None \<Rightarrow> if soDeleteExtra opts then None else wd_files j W (path_join [dp, x])))"
  using mem_Sync_effect [of i j sp dp opts W ord ctx env r W', OF assms] by blast

theorem sync_effect_witness:
  "\<exists>r W'. sync_outcome witness_env (\<lambda>n. None) id (mem_Backend 0) (mem_Backend 1) [] []
     (zeroOptions\<lparr>soDeleteExtra := True\<rparr>) witness_world (Some r, None) W' \<and>
     srErrors r = [] \<and> wd_files 1 W' ''a'' = Some [5]"
proof -
  obtain r W' where o: "sync_outcome witness_env (\<lambda>n. None) id (mem_Backend 0) (mem_Backend 1) [] []
     (zeroOptions\<lparr>soDeleteExtra := True\<rparr>) witness_world (Some r, None) W'"
    using witness_outcome by blast
  have n: "wd_files 1 witness_world ''a'' = None"
    by (simp add: wd_files_def witness_world_def mem_New_def mem_files_def)
  have k: "plain_key ''a''" using mem_key_letter(1) by (simp add: mem_key_def)
  have e: "srErrors r = []" and x: "wd_files 1 W' (path_join [[], ''a'']) = Some [5]"
    using sync_effect [OF witness_setting range_order_id refl o] k n
    by (simp_all add: witness_world_files plain_key_join_Nil)
  then show ?thesis using o plain_key_join_Nil [OF k] by auto
qed

text \<open>C1: Mirroring: with \<open>DeleteExtra\<close>, existing files not ignored, and a comparison that sees every
  difference in content, the destination tree equals the source tree afterwards, for every
  schedule.\<close>

theorem sync_mirror:
  assumes "sync_setting i j sp dp opts W" "range_order ord" "\<And>n. ctx n = None"
    "soDeleteExtra opts" "\<not> soIgnoreExisting opts" "mem_detects env opts i sp j dp W"
    "sync_outcome env ctx ord (mem_Backend i) (mem_Backend j) sp dp opts W (Some r, None) W'" "plain_key x"
  shows "wd_files j W' (path_join [dp, x]) = wd_files i W' (path_join [sp, x])"
  using assms(1) unfolding sync_setting_def
  by (elim conjE)
    (rule mem_sync.Sync_mirror [unfolded mem_sync_eqs, OF _ _ assms(2) _ _ _ _ _ _ _ assms(3-8)])

theorem sync_mirror_witness:
  "\<exists>r W'. sync_outcome witness_env (\<lambda>n. None) id (mem_Backend 0) (mem_Backend 1) [] []
     (zeroOptions\<lparr>soDeleteExtra := True\<rparr>) witness_world (Some r, None) W' \<and>
     wd_files 1 W' ''a'' = wd_files 0 W' ''a''"
proof -
  let ?o = "zeroOptions\<lparr>soDeleteExtra := True\<rparr>"
  obtain r W' where o: "sync_outcome witness_env (\<lambda>n. None) id (mem_Backend 0) (mem_Backend 1) [] []
     ?o witness_world (Some r, None) W'"
    using witness_outcome by blast
  have d: "mem_detects witness_env ?o 0 [] 1 [] witness_world"
    by (simp add: mem_detects_def wd_files_def witness_world_def mem_New_def mem_files_def)
  have e: "soDeleteExtra ?o" "\<not> soIgnoreExisting ?o" by (simp_all add: zeroOptions_def)
  have k: "plain_key ''a''" using mem_key_letter(1) by (simp add: mem_key_def)
  have "wd_files 1 W' (path_join [[], ''a'']) = wd_files 0 W' (path_join [[], ''a''])"
    by (rule sync_mirror [OF witness_setting range_order_id refl e d o k])
  then show ?thesis using o plain_key_join_Nil [OF k] by auto
qed



end
