(* ===== verification/RateLimit.thy ===== *)
theory RateLimit
  imports BackendInterface
begin

section \<open>Bandwidth limiting (\<open>object/sync/ratelimit.go\<close>)\<close>

text \<open>
  The token bucket and the reader that draws on it. The refill computes with floats in the code,
  here with exact fractions (the product of nanoseconds and rate, divided by \<open>10^9\<close> and cut
  to an integer). \<open>wait\<close> sleeps and tries again until there are enough tokens; the model takes the
  readings of the clock as a sequence \<open>clk\<close>, one per refill, and a fuel, so that not returning is
  \<open>None\<close> for every fuel. The mutex makes each refill, consumption and return atomic; between them
  other goroutines may run, which the step relation \<open>tb_reach\<close> covers.
\<close>

record tokenBucket =
  tbRate :: int
  tbTokens :: int
  tbMax :: int
  tbLast :: time

definition newTokenBucket :: "time \<Rightarrow> int \<Rightarrow> tokenBucket option" where
  "newTokenBucket now bytesPerSecond =
     (if bytesPerSecond \<le> 0 then None
      else Some \<lparr>tbRate = bytesPerSecond, tbTokens = bytesPerSecond, tbMax = bytesPerSecond, tbLast = now\<rparr>)"

text \<open>Conversion of a quotient to an integer truncates towards zero.\<close>

definition trunc_div :: "int \<Rightarrow> int \<Rightarrow> int" where
  "trunc_div a b = (if 0 \<le> a then a div b else - ((- a) div b))"

definition tb_refill :: "time \<Rightarrow> tokenBucket \<Rightarrow> tokenBucket" where
  "tb_refill now tb =
     (let elapsed = time_sub now (tbLast tb);
          tokens = tbTokens tb + trunc_div (elapsed * tbRate tb) second
      in tb\<lparr>tbLast := now, tbTokens := (if tokens > tbMax tb then tbMax tb else tokens)\<rparr>)"

text \<open>The time a caller sleeps for the tokens it lacks.\<close>

definition waitDuration :: "int \<Rightarrow> tokenBucket \<Rightarrow> duration" where
  "waitDuration needed tb = (needed - tbTokens tb) * second div tbRate tb"

fun wait_loop :: "nat \<Rightarrow> (nat \<Rightarrow> time) \<Rightarrow> nat \<Rightarrow> int \<Rightarrow> tokenBucket \<Rightarrow> (tokenBucket \<times> nat) option" where
  "wait_loop 0 clk k needed tb = None"
| "wait_loop (Suc fuel) clk k needed tb =
     (if tbTokens tb < needed then wait_loop fuel clk (Suc k) needed (tb_refill (clk k) tb)
      else Some (tb\<lparr>tbTokens := tbTokens tb - needed\<rparr>, k))"

definition tb_wait :: "nat \<Rightarrow> (nat \<Rightarrow> time) \<Rightarrow> nat \<Rightarrow> nat \<Rightarrow> tokenBucket \<Rightarrow> (tokenBucket \<times> nat) option" where
  "tb_wait fuel clk k n tb =
     (if tbRate tb = 0 then Some (tb, k)
      else wait_loop fuel clk (Suc k) (int n) (tb_refill (clk k) tb))"

definition returnTokens :: "int \<Rightarrow> tokenBucket \<Rightarrow> tokenBucket" where
  "returnTokens n tb =
     (if n \<le> 0 then tb
      else let tokens = tbTokens tb + n
           in tb\<lparr>tbTokens := (if tokens > tbMax tb then tbMax tb else tokens)\<rparr>)"

definition rl_chunkSize :: nat where
  "rl_chunkSize = 64 * 1024"

text \<open>
  \<open>Read\<close> into a buffer of \<open>n\<close> bytes. The inner reader is a function of the buffer size and its
  state. The nil bucket reads straight through.
\<close>

definition rl_Read ::
  "nat \<Rightarrow> (nat \<Rightarrow> time) \<Rightarrow> nat \<Rightarrow> (nat \<Rightarrow> 'r \<Rightarrow> (bytes \<times> object_error option) \<times> 'r) \<Rightarrow> nat \<Rightarrow>
   tokenBucket option \<Rightarrow> 'r \<Rightarrow> ((bytes \<times> object_error option) \<times> tokenBucket option \<times> nat \<times> 'r) option" where
  "rl_Read fuel clk k rd n bucket r =
     (case bucket of
        None \<Rightarrow> (case rd n r of (res, r') \<Rightarrow> Some (res, None, k, r'))
      | Some tb \<Rightarrow>
          if tbRate tb = 0 then (case rd n r of (res, r') \<Rightarrow> Some (res, Some tb, k, r'))
          else let toRead = (if n > rl_chunkSize then rl_chunkSize else n)
               in case tb_wait fuel clk k toRead tb of
                    None \<Rightarrow> None
                  | Some (tb1, k1) \<Rightarrow>
                      (case rd toRead r of
                         ((bs, err), r') \<Rightarrow>
                           Some ((bs, err),
                             Some (if length bs < toRead then returnTokens (int toRead - int (length bs)) tb1 else tb1),
                             k1, r')))"

subsection \<open>The limit holds\<close>

definition tb_wf :: "tokenBucket \<Rightarrow> bool" where
  "tb_wf tb \<longleftrightarrow> 0 < tbRate tb \<and> 0 \<le> tbTokens tb \<and> tbTokens tb \<le> tbMax tb"

lemma tb_refill_simps [simp]:
  "tbRate (tb_refill now tb) = tbRate tb" "tbMax (tb_refill now tb) = tbMax tb"
  "tbLast (tb_refill now tb) = now"
  by (simp_all add: tb_refill_def Let_def)

lemma tb_refill_le_max: "tbTokens (tb_refill now tb) \<le> tbMax tb"
  by (simp add: tb_refill_def Let_def)

text \<open>Between monotone readings a refill adds no more than the elapsed time allows.\<close>

lemma tb_refill_gain:
  assumes "tb_wf tb" "tbLast tb \<le> now"
  shows "tb_wf (tb_refill now tb)"
    and "tbTokens (tb_refill now tb) * second \<le> tbTokens tb * second + (now - tbLast tb) * tbRate tb"
proof -
  let ?e = "time_sub now (tbLast tb)"
  have e: "0 \<le> ?e" "?e \<le> now - tbLast tb"
    using assms(2) by (auto simp: time_sub_def minDuration_def maxDuration_def)
  have r: "0 < tbRate tb" using assms(1) by (simp add: tb_wf_def)
  have p: "0 \<le> ?e * tbRate tb" using e(1) r by simp
  then have t: "trunc_div (?e * tbRate tb) second = ?e * tbRate tb div second" by (simp add: trunc_div_def)
  have d: "0 \<le> ?e * tbRate tb div second" using p by (simp add: second_def pos_imp_zdiv_nonneg_iff)
  show "tb_wf (tb_refill now tb)"
    using assms(1) d by (simp add: tb_wf_def tb_refill_def Let_def t)
  have "(?e * tbRate tb div second) * second \<le> ?e * tbRate tb"
    by (simp add: second_def)
  also have "\<dots> \<le> (now - tbLast tb) * tbRate tb" using e(2) r by simp
  finally have g: "(?e * tbRate tb div second) * second \<le> (now - tbLast tb) * tbRate tb" .
  have "tbTokens (tb_refill now tb) \<le> tbTokens tb + ?e * tbRate tb div second"
    by (simp add: tb_refill_def Let_def t)
  then have "tbTokens (tb_refill now tb) * second \<le> (tbTokens tb + ?e * tbRate tb div second) * second"
    by (simp add: second_def)
  then show "tbTokens (tb_refill now tb) * second \<le> tbTokens tb * second + (now - tbLast tb) * tbRate tb"
    using g by (simp add: algebra_simps)
qed

text \<open>
  Any interleaving of the atomic sections of \<open>wait\<close> and \<open>returnTokens\<close>: the state is the bucket
  and the number of tokens taken and not returned since it was made at \<open>t0\<close>.
\<close>

inductive tb_reach :: "time \<Rightarrow> int \<Rightarrow> tokenBucket \<Rightarrow> int \<Rightarrow> bool" for t0 rate where
  new: "newTokenBucket t0 rate = Some tb \<Longrightarrow> tb_reach t0 rate tb 0"
| refill: "tb_reach t0 rate tb c \<Longrightarrow> tbLast tb \<le> now \<Longrightarrow> tb_reach t0 rate (tb_refill now tb) c"
| consume: "tb_reach t0 rate tb c \<Longrightarrow> 0 \<le> n \<Longrightarrow> n \<le> tbTokens tb \<Longrightarrow>
    tb_reach t0 rate (tb\<lparr>tbTokens := tbTokens tb - n\<rparr>) (c + n)"
| give_back: "tb_reach t0 rate tb c \<Longrightarrow> 0 \<le> n \<Longrightarrow> tb_reach t0 rate (returnTokens n tb) (c - n)"

lemma tb_reach_inv:
  "tb_reach t0 rate tb c \<Longrightarrow>
   tb_wf tb \<and> tbRate tb = rate \<and> tbMax tb = rate \<and>
   (c + tbTokens tb) * second \<le> rate * second + (tbLast tb - t0) * rate"
proof (induction rule: tb_reach.induct)
  case (new tb)
  then show ?case by (auto simp: newTokenBucket_def tb_wf_def split: if_splits)
next
  case (refill tb c now)
  then have "tb_wf (tb_refill now tb)"
    "tbTokens (tb_refill now tb) * second \<le> tbTokens tb * second + (now - tbLast tb) * rate"
    using tb_refill_gain [of tb now] by auto
  with refill show ?case by (simp add: algebra_simps)
next
  case (consume tb c n)
  then show ?case by (simp add: tb_wf_def)
next
  case (give_back tb c n)
  then have "tbTokens (returnTokens n tb) \<le> tbTokens tb + n \<and> tb_wf (returnTokens n tb)"
    "tbRate (returnTokens n tb) = rate \<and> tbMax (returnTokens n tb) = rate \<and> tbLast (returnTokens n tb) = tbLast tb"
    by (auto simp: returnTokens_def Let_def tb_wf_def)
  moreover from this have "(c - n + tbTokens (returnTokens n tb)) * second \<le> (c + tbTokens tb) * second"
    by (simp add: second_def)
  ultimately show ?case using give_back.IH by (simp del: mult_le_cancel_right)
qed

lemma wait_loop_reach:
  "wait_loop fuel clk k needed tb = Some (tb', k') \<Longrightarrow> tb_reach t0 rate tb c \<Longrightarrow> 0 \<le> needed \<Longrightarrow>
   tbLast tb \<le> clk k \<Longrightarrow> (\<forall>i. clk i \<le> clk (Suc i)) \<Longrightarrow> tb_reach t0 rate tb' (c + needed)"
proof (induction fuel clk k needed tb rule: wait_loop.induct)
  case (2 fuel clk k needed tb)
  show ?case
  proof (cases "tbTokens tb < needed")
    case True
    have "tb_reach t0 rate (tb_refill (clk k) tb) c"
      using "2.prems"(2,4) by (rule tb_reach.refill)
    with 2 True show ?thesis by simp
  next
    case False
    then show ?thesis using "2.prems" tb_reach.consume [of t0 rate tb c needed] by auto
  qed
qed simp

subsection \<open>When a wait returns\<close>

lemma wait_loop_stalls: "tbTokens tb < needed \<Longrightarrow> tbMax tb < needed \<Longrightarrow> wait_loop fuel clk k needed tb = None"
proof (induction fuel arbitrary: k tb)
  case (Suc fuel)
  have "tbTokens (tb_refill (clk k) tb) < needed"
    using tb_refill_le_max [of "clk k" tb] Suc.prems(2) by linarith
  with Suc show ?case by simp
qed simp

text \<open>A sleep that lasts longer than the code asked for brings enough tokens.\<close>

lemma tb_refill_enough:
  assumes "tb_wf tb" "needed \<le> tbMax tb" "tbTokens tb < needed" "tbLast tb + waitDuration needed tb < now"
    "now - tbLast tb \<le> maxDuration"
  shows "needed \<le> tbTokens (tb_refill now tb)"
proof -
  let ?d = "(needed - tbTokens tb) * second" and ?r = "tbRate tb" and ?e = "now - tbLast tb"
  have r: "0 < ?r" using assms(1) by (simp add: tb_wf_def)
  have d0: "0 \<le> ?d" using assms(3) by (simp add: second_def)
  have "0 \<le> ?d div ?r" using d0 r by (simp add: pos_imp_zdiv_nonneg_iff)
  moreover have "?d div ?r < ?e" using assms(4) by (simp add: waitDuration_def)
  ultimately have e: "0 < ?e" "time_sub now (tbLast tb) = ?e"
    using time_sub_exact [of now "tbLast tb"] assms(5) by auto
  have "?d < (?d div ?r + 1) * ?r"
    using r by (metis distrib_right mult_1 div_mult_mod_eq pos_mod_bound add_strict_left_mono)
  also have "\<dots> \<le> ?e * ?r" using \<open>?d div ?r < ?e\<close> r by simp
  finally have "?d < ?e * ?r" .
  then have "?d div second \<le> ?e * ?r div second" by (simp add: second_def zdiv_mono1)
  then have "needed - tbTokens tb \<le> ?e * ?r div second" by (simp add: second_def)
  moreover have "trunc_div (?e * ?r) second = ?e * ?r div second"
    using e(1) r by (simp add: trunc_div_def)
  ultimately show ?thesis using assms(2) by (simp add: tb_refill_def Let_def e(2))
qed

subsection \<open>Properties\<close>



text \<open>A wait for no more than the bucket holds returns, as soon as one sleep has lasted longer than the
  code asked for, with the tokens taken and the bucket never overdrawn.\<close>

theorem wait_returns:
  assumes "tb_wf tb" "int n \<le> tbMax tb" "tbLast tb \<le> clk k"
    "clk k + waitDuration (int n) (tb_refill (clk k) tb) < clk (Suc k)" "clk (Suc k) - clk k \<le> maxDuration"
  shows "\<exists>tb' k'. tb_wait (Suc (Suc fuel)) clk k n tb = Some (tb', k') \<and> 0 \<le> tbTokens tb' \<and> k' \<le> Suc (Suc k)"
proof -
  let ?t1 = "tb_refill (clk k) tb"
  have w1: "tb_wf ?t1" using tb_refill_gain(1) [OF assms(1,3)] .
  have r: "tbRate tb \<noteq> 0" using assms(1) by (simp add: tb_wf_def)
  show ?thesis
  proof (cases "tbTokens ?t1 < int n")
    case True
    have "int n \<le> tbTokens (tb_refill (clk (Suc k)) ?t1)"
      using tb_refill_enough [OF w1 _ True] assms(2,4,5) by simp
    with True r show ?thesis by (simp add: tb_wait_def)
  next
    case False
    with r w1 show ?thesis by (simp add: tb_wait_def)
  qed
qed

theorem wait_returns_witness:
  "\<exists>tb' k'. tb_wait (Suc (Suc 0)) (\<lambda>i. if i = 0 then 0 else second) 0 60
      \<lparr>tbRate = 100, tbTokens = 0, tbMax = 100, tbLast = 0\<rparr> = Some (tb', k') \<and> 0 \<le> tbTokens tb' \<and> k' \<le> Suc (Suc 0)"
  by (rule wait_returns)
    (simp_all add: tb_wf_def waitDuration_def tb_refill_def Let_def time_sub_def trunc_div_def second_def
      minDuration_def maxDuration_def)

text \<open>C40: A wait for more than the bucket can ever hold does not return, however long it runs: with a rate
  below the chunk a single \<open>Read\<close> asks for, that \<open>Read\<close> never finishes.\<close>

theorem wait_stalls:
  assumes "0 < tbRate tb" "tbMax tb < int n"
  shows "tb_wait fuel clk k n tb = None \<and>
    (n \<le> rl_chunkSize \<longrightarrow> rl_Read fuel clk k rd n (Some tb) r = None)"
proof -
  have "tb_wait fuel clk k n tb = None"
    using wait_loop_stalls [of "tb_refill (clk k) tb" "int n" fuel clk "Suc k"]
      tb_refill_le_max [of "clk k" tb] assms by (simp add: tb_wait_def)
  with assms(1) show ?thesis by (simp add: rl_Read_def)
qed

theorem wait_stalls_witness:
  "tb_wait 7 (\<lambda>i. int i * second) 0 32768 \<lparr>tbRate = 10000, tbTokens = 10000, tbMax = 10000, tbLast = 0\<rparr> = None \<and>
   rl_Read 7 (\<lambda>i. int i * second) 0 (\<lambda>n s. (([], None), s)) 32768
     (Some \<lparr>tbRate = 10000, tbTokens = 10000, tbMax = 10000, tbLast = 0\<rparr>) () = None"
  using wait_stalls [of "\<lparr>tbRate = 10000, tbTokens = 10000, tbMax = 10000, tbLast = 0\<rparr>" 32768 7
      "\<lambda>i. int i * second" 0 "\<lambda>n s. (([], None), s)" "()"]
  by (simp add: rl_chunkSize_def)

end
