(* ===== verification/Kvs.thy ===== *)
theory Kvs
  imports Prelude
begin

section \<open>The key-value store interface (\<open>kvs/kvs.go\<close>)\<close>

text \<open>
  \<open>Store\<close> and \<open>ListableStore\<close> as a record of their methods over the state \<open>'s\<close> of a store. The
  argument \<open>now\<close> of a method is what \<open>time.Now()\<close> returns during the call; a time-to-live is a
  duration, 0 for none. The locale states the contract of the interface's comments: a value that
  was set is read back until its time-to-live has passed (\<open>lasts t0 ttl t\<close>: a value set at \<open>t0\<close> is
  still there at \<open>t\<close>), a deleted key is gone; \<open>kv_listable\<close> adds that a listing is the live keys under the prefix.
\<close>

datatype kvs_error =
    KvsNotFound
  | KvsClosed
  | KvsOther string

record 's KVStore =
  ksGet :: "time \<Rightarrow> string \<Rightarrow> 's \<Rightarrow> (kvs_error + bytes) \<times> 's"
  ksSet :: "time \<Rightarrow> string \<Rightarrow> bytes \<Rightarrow> duration \<Rightarrow> 's \<Rightarrow> kvs_error option \<times> 's"
  ksDelete :: "time \<Rightarrow> string \<Rightarrow> 's \<Rightarrow> kvs_error option \<times> 's"
  ksList :: "time \<Rightarrow> string \<Rightarrow> 's \<Rightarrow> (kvs_error + string list) \<times> 's"
  ksClose :: "'s \<Rightarrow> kvs_error option \<times> 's"

text \<open>\<open>DocumentStore\<close>, which nothing implements yet, and the configuration of the drivers.\<close>

record Document =
  docID :: string
  docData :: "(string, any) gomap"
  docMetadata :: "(string, string) gomap"
  docCreatedAt :: time
  docUpdatedAt :: time

record 's DocumentStore = "'s KVStore" +
  dsPut :: "string \<Rightarrow> Document \<Rightarrow> 's \<Rightarrow> kvs_error option \<times> 's"
  dsQuery :: "string \<Rightarrow> (string, any) gomap \<Rightarrow> 's \<Rightarrow> (kvs_error + Document list) \<times> 's"
  dsDeleteDoc :: "string \<Rightarrow> string \<Rightarrow> 's \<Rightarrow> kvs_error option \<times> 's"

record kvsConfig =
  kcType :: string
  kcPath :: string
  kcTableName :: string
  kcRegion :: string

text \<open>\<open>live t s k\<close> is the value that \<open>Get\<close> finds for \<open>k\<close> at time \<open>t\<close> in the state \<open>s\<close>.\<close>

locale kv_store =
  fixes K :: "'s KVStore"
    and live :: "time \<Rightarrow> 's \<Rightarrow> string \<Rightarrow> bytes option"
    and ok :: "'s \<Rightarrow> bool"
    and lasts :: "time \<Rightarrow> duration \<Rightarrow> time \<Rightarrow> bool"
  assumes get_law: "ok s \<Longrightarrow>
      \<exists>s'. ksGet K now k s = ((case live now s k of None \<Rightarrow> Inl KvsNotFound | Some v \<Rightarrow> Inr v), s') \<and>
        ok s' \<and> (\<forall>t \<ge> now. live t s' = live t s)"
    and set_law: "ok s \<Longrightarrow> 0 \<le> now \<Longrightarrow>
      \<exists>s'. ksSet K now k v ttl s = (None, s') \<and> ok s' \<and>
        (\<forall>t \<ge> now. live t s' = (live t s)(k := if lasts now ttl t then Some v else None))"
    and delete_law: "ok s \<Longrightarrow>
      \<exists>s'. ksDelete K now k s = (None, s') \<and> ok s' \<and> (\<forall>t \<ge> now. live t s' = (live t s)(k := None))"
    and lasts_law: "t \<le> now + ttl \<or> ttl \<le> 0 \<Longrightarrow> lasts now ttl t"
begin

lemma lasts_now [simp]: "lasts now ttl now"
  using lasts_law [of now now ttl] by (cases "ttl \<le> 0") auto

text \<open>A value is read back, and no other key is touched.\<close>

lemma get_after_set:
  assumes "ok s" "0 \<le> now" "now \<le> t" "t \<le> now + ttl \<or> ttl \<le> 0"
  shows "\<exists>s'. ksSet K now k v ttl s = (None, s') \<and> ok s' \<and> fst (ksGet K t k s') = Inr v \<and>
    (\<forall>k'. k' \<noteq> k \<longrightarrow> fst (ksGet K t k' s') = fst (ksGet K t k' s))"
proof -
  obtain s' where s': "ksSet K now k v ttl s = (None, s')" "ok s'"
    "\<forall>t \<ge> now. live t s' = (live t s)(k := if lasts now ttl t then Some v else None)"
    using set_law assms(1,2) by blast
  have get: "fst (ksGet K t k' u) = (case live t u k' of None \<Rightarrow> Inl KvsNotFound | Some v \<Rightarrow> Inr v)"
    if "ok u" for u k' using get_law [OF that, of t k'] by auto
  show ?thesis using s' assms(1,3,4) lasts_law by (auto simp: get)
qed

lemma get_after_delete:
  assumes "ok s" "now \<le> t"
  shows "\<exists>s'. ksDelete K now k s = (None, s') \<and> ok s' \<and> fst (ksGet K t k s') = Inl KvsNotFound \<and>
    (\<forall>k'. k' \<noteq> k \<longrightarrow> fst (ksGet K t k' s') = fst (ksGet K t k' s))"
proof -
  obtain s' where s': "ksDelete K now k s = (None, s')" "ok s'"
    "\<forall>t \<ge> now. live t s' = (live t s)(k := None)"
    using delete_law assms(1) by blast
  have get: "fst (ksGet K t k' u) = (case live t u k' of None \<Rightarrow> Inl KvsNotFound | Some v \<Rightarrow> Inr v)"
    if "ok u" for u k' using get_law [OF that, of t k'] by auto
  show ?thesis using s' assms by (auto simp: get)
qed

end

text \<open>\<open>ListableStore\<close>: the keys under the prefix, each once.\<close>

locale kv_listable = kv_store K live ok lasts
  for K :: "'s KVStore" and live and ok and lasts +
  assumes list_law: "ok s \<Longrightarrow>
      \<exists>ks s'. ksList K now p s = (Inr ks, s') \<and> ok s' \<and> (\<forall>t \<ge> now. live t s' = live t s) \<and>
        distinct ks \<and> set ks = {k. live now s k \<noteq> None \<and> has_prefix k p}"

end
