(* ===== verification/KvsMemory.thy ===== *)
theory KvsMemory
  imports Kvs
begin

section \<open>The in-memory key-value store (\<open>kvs/backend/memory/memory.go\<close>)\<close>

text \<open>
  The store is a map from keys to entries and a closed flag (the channel \<open>closeCh\<close> only stops the
  cleanup goroutine, whose loop runs \<open>removeExpired\<close> at every tick until then). An entry that
  does not expire has the zero time. Values are copied on the way in and out, which is invisible
  for immutable lists.
\<close>

record kv_entry =
  kvValue :: bytes
  kvExpiresAt :: time

record kv_mem =
  kvData :: "(string, kv_entry) gomap"
  kvClosed :: bool

definition kvm_New :: kv_mem where
  "kvm_New = \<lparr>kvData = gm_empty, kvClosed = False\<rparr>"

definition kv_expired :: "time \<Rightarrow> kv_entry \<Rightarrow> bool" where
  "kv_expired now e \<longleftrightarrow> \<not> is_zero_time (kvExpiresAt e) \<and> now > kvExpiresAt e"

definition kvm_Get :: "time \<Rightarrow> string \<Rightarrow> kv_mem \<Rightarrow> kvs_error + bytes" where
  "kvm_Get now k s =
     (if kvClosed s then Inl KvsClosed
      else (case gm_get (kvData s) k of
              None \<Rightarrow> Inl KvsNotFound
            | Some e \<Rightarrow> if kv_expired now e then Inl KvsNotFound else Inr (kvValue e)))"

definition kvm_Set :: "time \<Rightarrow> string \<Rightarrow> bytes \<Rightarrow> duration \<Rightarrow> kv_mem \<Rightarrow> kvs_error option \<times> kv_mem" where
  "kvm_Set now k v ttl s =
     (if kvClosed s then (Some KvsClosed, s)
      else let e = \<lparr>kvValue = v, kvExpiresAt = (if ttl > 0 then now + ttl else 0)\<rparr>
           in (None, s\<lparr>kvData := gm_put k e (kvData s)\<rparr>))"

definition kvm_Delete :: "string \<Rightarrow> kv_mem \<Rightarrow> kvs_error option \<times> kv_mem" where
  "kvm_Delete k s =
     (if kvClosed s then (Some KvsClosed, s) else (None, s\<lparr>kvData := gm_del k (kvData s)\<rparr>))"

text \<open>The loop of \<open>List\<close>.\<close>

fun kvm_list_loop :: "time \<Rightarrow> string \<Rightarrow> (string \<times> kv_entry) list \<Rightarrow> string list \<Rightarrow> string list" where
  "kvm_list_loop now p [] ks = ks"
| "kvm_list_loop now p ((k, e) # es) ks =
     (if kv_expired now e then kvm_list_loop now p es ks
      else if p = [] \<or> has_prefix k p then kvm_list_loop now p es (ks @ [k])
      else kvm_list_loop now p es ks)"

definition kvm_List :: "time \<Rightarrow> string \<Rightarrow> kv_mem \<Rightarrow> kvs_error + string list" where
  "kvm_List now p s =
     (if kvClosed s then Inl KvsClosed
      else Inr (sort (kvm_list_loop now p (gm_entries (kvData s)) [])))"

definition kvm_Close :: "kv_mem \<Rightarrow> kvs_error option \<times> kv_mem" where
  "kvm_Close s = (if kvClosed s then (None, s) else (None, \<lparr>kvData = gm_empty, kvClosed = True\<rparr>))"

text \<open>\<open>removeExpired\<close>: the range over the map deletes entries as it goes.\<close>

fun kvm_expire_loop ::
  "time \<Rightarrow> (string \<times> kv_entry) list \<Rightarrow> (string, kv_entry) gomap \<Rightarrow> (string, kv_entry) gomap" where
  "kvm_expire_loop now [] m = m"
| "kvm_expire_loop now ((k, e) # es) m =
     kvm_expire_loop now es (if kv_expired now e then gm_del k m else m)"

definition kvm_removeExpired :: "time \<Rightarrow> kv_mem \<Rightarrow> kv_mem" where
  "kvm_removeExpired now s =
     (if kvClosed s then s
      else s\<lparr>kvData := kvm_expire_loop now (gm_entries (kvData s)) (kvData s)\<rparr>)"

definition kvm_Len :: "kv_mem \<Rightarrow> nat" where
  "kvm_Len s = gm_len (kvData s)"

definition kvm_store :: "kv_mem KVStore" where
  "kvm_store =
     \<lparr>ksGet = (\<lambda>now k s. (kvm_Get now k s, s)),
      ksSet = kvm_Set,
      ksDelete = (\<lambda>now. kvm_Delete),
      ksList = (\<lambda>now p s. (kvm_List now p s, s)),
      ksClose = kvm_Close\<rparr>"

lemmas kvm_ops [model_defs] = kvm_Get_def kvm_Set_def kvm_Delete_def kvm_List_def kvm_Close_def
  kvm_removeExpired_def

subsection \<open>What a reader sees\<close>

definition kvm_live :: "time \<Rightarrow> kv_mem \<Rightarrow> string \<Rightarrow> bytes option" where
  "kvm_live t s k =
     (case gm_get (kvData s) k of
        None \<Rightarrow> None | Some e \<Rightarrow> if kv_expired t e then None else Some (kvValue e))"

definition kvm_lasts :: "time \<Rightarrow> duration \<Rightarrow> time \<Rightarrow> bool" where
  "kvm_lasts now ttl t \<longleftrightarrow> ttl \<le> 0 \<or> t \<le> now + ttl"

lemma kvm_Get_live:
  "\<not> kvClosed s \<Longrightarrow>
   kvm_Get now k s = (case kvm_live now s k of None \<Rightarrow> Inl KvsNotFound | Some v \<Rightarrow> Inr v)"
  by (simp add: kvm_Get_def kvm_live_def split: option.splits)

lemma kvm_list_loop_eq:
  "kvm_list_loop now p es ks =
   ks @ map fst (filter (\<lambda>(k, e). \<not> kv_expired now e \<and> has_prefix k p) es)"
  by (induction now p es ks rule: kvm_list_loop.induct) auto

lemma kvm_list_loop_set:
  "k \<in> set (kvm_list_loop now p (gm_entries (kvData s)) []) \<longleftrightarrow> kvm_live now s k \<noteq> None \<and> has_prefix k p"
  by (force simp: kvm_list_loop_eq kvm_live_def gm_get_iff_entry simp flip: gm_get_iff_entry
      split: option.splits if_splits)

lemma kvm_list_loop_distinct: "distinct (kvm_list_loop now p (gm_entries (kvData s)) [])"
  by (simp add: kvm_list_loop_eq distinct_map_filter)

lemma kvm_live_Set:
  "\<not> kvClosed s \<Longrightarrow> 0 \<le> now \<Longrightarrow>
   kvm_live t (snd (kvm_Set now k v ttl s)) =
     (kvm_live t s)(k := if kvm_lasts now ttl t then Some v else None)"
  by (auto simp: kvm_live_def kvm_Set_def kvm_lasts_def kv_expired_def is_zero_time_def gomap_simps)

lemma kvm_live_Delete:
  "\<not> kvClosed s \<Longrightarrow> kvm_live t (snd (kvm_Delete k s)) = (kvm_live t s)(k := None)"
  by (auto simp: kvm_live_def kvm_Delete_def gomap_simps)

text \<open>The cleanup is invisible: it removes exactly what no later read would return.\<close>

lemma kvm_expire_loop_get:
  "distinct (map fst es) \<Longrightarrow>
   gm_get (kvm_expire_loop now es m) k =
     (if \<exists>e. (k, e) \<in> set es \<and> kv_expired now e then None else gm_get m k)"
  by (induction now es m rule: kvm_expire_loop.induct) (auto simp: gomap_simps)

lemma kvm_removeExpired_get:
  "\<not> kvClosed s \<Longrightarrow>
   gm_get (kvData (kvm_removeExpired now s)) k =
     (case gm_get (kvData s) k of
        Some e \<Rightarrow> if kv_expired now e then None else Some e | None \<Rightarrow> None)"
  by (auto simp: kvm_removeExpired_def kvm_expire_loop_get gm_get_iff_entry [symmetric]
      split: option.splits)

lemma kv_expired_mono: "kv_expired now e \<Longrightarrow> now \<le> t \<Longrightarrow> kv_expired t e"
  by (simp add: kv_expired_def)

lemma kvm_live_removeExpired: "now \<le> t \<Longrightarrow> kvm_live t (kvm_removeExpired now s) = kvm_live t s"
proof (cases "kvClosed s")
  case True
  then show ?thesis by (simp add: kvm_removeExpired_def)
next
  case False
  assume "now \<le> t"
  with False show ?thesis
    by (auto simp: kvm_live_def kvm_removeExpired_get kv_expired_mono split: option.splits)
qed

interpretation kvm: kv_listable kvm_store kvm_live "\<lambda>s. \<not> kvClosed s" kvm_lasts
proof
  show "\<exists>s'. ksGet kvm_store now k s =
      ((case kvm_live now s k of None \<Rightarrow> Inl KvsNotFound | Some v \<Rightarrow> Inr v), s') \<and>
      \<not> kvClosed s' \<and> (\<forall>t \<ge> now. kvm_live t s' = kvm_live t s)" if "\<not> kvClosed s" for s now k
    using that by (simp add: kvm_store_def kvm_Get_live)
  show "\<exists>s'. ksSet kvm_store now k v ttl s = (None, s') \<and> \<not> kvClosed s' \<and>
      (\<forall>t \<ge> now. kvm_live t s' = (kvm_live t s)(k := if kvm_lasts now ttl t then Some v else None))"
    if "\<not> kvClosed s" "0 \<le> now" for s now k v ttl
    using that kvm_live_Set [OF that, of _ k v ttl] by (simp add: kvm_store_def kvm_Set_def Let_def)
  show "\<exists>s'. ksDelete kvm_store now k s = (None, s') \<and> \<not> kvClosed s' \<and>
      (\<forall>t \<ge> now. kvm_live t s' = (kvm_live t s)(k := None))" if "\<not> kvClosed s" for s now k
    using that kvm_live_Delete [OF that, of _ k] by (simp add: kvm_store_def kvm_Delete_def)
  show "\<exists>ks s'. ksList kvm_store now p s = (Inr ks, s') \<and> \<not> kvClosed s' \<and>
      (\<forall>t \<ge> now. kvm_live t s' = kvm_live t s) \<and> distinct ks \<and>
      set ks = {k. kvm_live now s k \<noteq> None \<and> has_prefix k p}" if "\<not> kvClosed s" for s now p
    using that kvm_list_loop_distinct kvm_list_loop_set by (auto simp: kvm_store_def kvm_List_def)
  show "kvm_lasts now ttl t" if "t \<le> now + ttl \<or> ttl \<le> 0" for now ttl t
    using that by (auto simp: kvm_lasts_def)
qed

subsection \<open>Properties\<close>

text \<open>After a set the key reads as the value until its time to live has passed (for ever without one)
  and as not found from then on; after a delete it is not found; other keys read as before. The
  cleanup, whenever it runs, changes no read at its time or later.\<close>

theorem kvs_reads:
  assumes "\<not> kvClosed s" "0 \<le> now"
  shows "kvm_Get t k' (snd (kvm_Set now k v ttl s)) =
      (if k' = k then (if ttl \<le> 0 \<or> t \<le> now + ttl then Inr v else Inl KvsNotFound) else kvm_Get t k' s) \<and>
    kvm_Get t k' (snd (kvm_Delete k s)) = (if k' = k then Inl KvsNotFound else kvm_Get t k' s) \<and>
    (now \<le> t \<longrightarrow> kvm_Get t k' (kvm_removeExpired now s) = kvm_Get t k' s)"
proof -
  have c: "\<not> kvClosed (snd (kvm_Set now k v ttl s))" "\<not> kvClosed (snd (kvm_Delete k s))"
    "\<not> kvClosed (kvm_removeExpired now s)"
    using assms(1) by (simp_all add: kvm_Set_def Let_def kvm_Delete_def kvm_removeExpired_def)
  show ?thesis
    using assms c kvm_live_Set [OF assms, of t k v ttl] kvm_live_Delete [OF assms(1), of t k]
      kvm_live_removeExpired [of now t s]
    by (auto simp: kvm_Get_live kvm_lasts_def)
qed

theorem kvs_reads_witness:
  "kvm_Get 12 ''a'' (snd (kvm_Set 10 ''a'' [1] 5 kvm_New)) = Inr [1] \<and>
   kvm_Get 16 ''a'' (snd (kvm_Set 10 ''a'' [1] 5 kvm_New)) = Inl KvsNotFound"
  using kvs_reads [of kvm_New 10 12 "''a''" "''a''" "[1]" 5]
    kvs_reads [of kvm_New 10 16 "''a''" "''a''" "[1]" 5]
  by (simp add: kvm_New_def)

text \<open>\<open>List\<close> returns, sorted and without duplicates, exactly the keys with the prefix that a \<open>Get\<close> at
  that time would find.\<close>

theorem kvs_list_exact:
  assumes "\<not> kvClosed s"
  shows "\<exists>ks. kvm_List now p s = Inr ks \<and> sorted ks \<and> distinct ks \<and>
    (\<forall>k. k \<in> set ks \<longleftrightarrow> has_prefix k p \<and> (\<exists>v. kvm_Get now k s = Inr v))"
  using assms kvm_list_loop_distinct [of now p s] kvm_list_loop_set [of _ now p s]
  by (auto simp: kvm_List_def kvm_Get_live split: option.splits)

theorem kvs_list_exact_witness:
  "\<exists>ks. kvm_List 12 ''a'' (snd (kvm_Set 10 ''ab'' [1] 5 kvm_New)) = Inr ks \<and> sorted ks \<and> distinct ks \<and>
    (\<forall>k. k \<in> set ks \<longleftrightarrow> has_prefix k ''a'' \<and> (\<exists>v. kvm_Get 12 k (snd (kvm_Set 10 ''ab'' [1] 5 kvm_New)) = Inr v))"
  by (rule kvs_list_exact) (simp add: kvm_Set_def kvm_New_def)

end
