(* ===== verification/Session.thy ===== *)
theory Session
  imports Hashing Kvs
begin

section \<open>Sessions (\<open>session/session.go\<close>, \<open>session/errors.go\<close>)\<close>

text \<open>
  The session record and its expiry, identifiers and their validation, the store interface with
  its errors, and the exchange sort that both stores use for listing. A user identifier is a
  128-bit word; its text form (\<open>uuid.UUID.String\<close>, a third-party package) is a parameter \<open>us\<close>
  wherever the code uses it. SHA-256 is a parameter too. \<open>encoding/json\<close> appears as a pair of
  parameters for marshalling and unmarshalling.
\<close>

type_synonym uuid = "128 word"

record Session =
  sID :: string
  sUserID :: uuid
  sSiteID :: string
  sOrganizationID :: "uuid option"
  sData :: "(string \<times> any) list option"
  sCreatedAt :: time
  sUpdatedAt :: time
  sLastAccessedAt :: time
  sExpiresAt :: time
  sIPAddress :: string
  sUserAgent :: string

record SessionConfig =
  cfgSiteID :: string
  cfgMaxSessionSize :: int
  cfgMaxSessionsPerUser :: int
  cfgDefaultTTL :: duration
  cfgCleanupInterval :: duration
  cfgKeyPrefix :: string

definition DefaultConfig :: SessionConfig where
  "DefaultConfig =
     \<lparr>cfgSiteID = [], cfgMaxSessionSize = 1024 * 1024, cfgMaxSessionsPerUser = 0,
      cfgDefaultTTL = 24 * 60 * 60 * second, cfgCleanupInterval = 5 * 60 * second,
      cfgKeyPrefix = ''session:''\<rparr>"

subsection \<open>Expiry\<close>

definition IsExpired :: "time \<Rightarrow> Session \<Rightarrow> bool" where
  "IsExpired now s \<longleftrightarrow> \<not> is_zero_time (sExpiresAt s) \<and> now > sExpiresAt s"

definition TTL :: "time \<Rightarrow> Session \<Rightarrow> duration" where
  "TTL now s =
     (if is_zero_time (sExpiresAt s) then 0
      else let ttl = time_sub (sExpiresAt s) now in if ttl < 0 then 0 else ttl)"

lemma TTL_nonneg: "0 \<le> TTL now s"
  by (simp add: TTL_def Let_def)

text \<open>A session with an expiry has time left exactly until that moment.\<close>

lemma TTL_pos_iff: "0 < TTL now s \<longleftrightarrow> \<not> is_zero_time (sExpiresAt s) \<and> now < sExpiresAt s"
  using time_sub_le_0 [of "sExpiresAt s" now] time_sub_less_0 [of "sExpiresAt s" now]
  by (auto simp: TTL_def Let_def)

lemma IsExpired_TTL: "IsExpired now s \<Longrightarrow> TTL now s = 0"
  using time_sub_less_0 [of "sExpiresAt s" now] by (simp add: IsExpired_def TTL_def)

lemma IsExpired_mono: "IsExpired now s \<Longrightarrow> now \<le> t \<Longrightarrow> IsExpired t s"
  by (simp add: IsExpired_def)

subsection \<open>Identifiers\<close>

definition MaxSessionIDLength :: nat where
  "MaxSessionIDLength = 256"

definition SessionIDLength :: nat where
  "SessionIDLength = 32"

definition session_id_char :: "char \<Rightarrow> bool" where
  "session_id_char c \<longleftrightarrow>
     (CHR ''A'' \<le> c \<and> c \<le> CHR ''Z'') \<or> (CHR ''a'' \<le> c \<and> c \<le> CHR ''z'') \<or>
     (CHR ''0'' \<le> c \<and> c \<le> CHR ''9'') \<or> c = CHR ''-'' \<or> c = CHR ''_'' \<or> c = CHR ''.''"

definition ValidSessionID :: "string \<Rightarrow> bool" where
  "ValidSessionID i =
     (if i = [] \<or> length i > MaxSessionIDLength then False else list_all session_id_char i)"

text \<open>\<open>SessionRef\<close>: the first four bytes of the digest in hexadecimal.\<close>

definition str_bytes :: "string \<Rightarrow> bytes" where
  "str_bytes s = map (\<lambda>c. word_of_nat (of_char c)) s"

definition SessionRef :: "(bytes \<Rightarrow> bytes) \<Rightarrow> string \<Rightarrow> string" where
  "SessionRef sha256 i = (if i = [] then [] else hex_EncodeToString (take 4 (sha256 (str_bytes i))))"

text \<open>\<open>base64.RawURLEncoding\<close>: six bits to a character, no padding.\<close>

definition b64_alphabet :: string where
  "b64_alphabet = ''ABCDEFGHIJKLMNOPQRSTUVWXYZabcdefghijklmnopqrstuvwxyz0123456789-_''"

definition b64_char :: "nat \<Rightarrow> char" where
  "b64_char n = b64_alphabet ! n"

fun b64_nats :: "nat list \<Rightarrow> nat list" where
  "b64_nats [] = []"
| "b64_nats [a] = [a div 4, (a mod 4) * 16]"
| "b64_nats [a, b] = [a div 4, (a mod 4) * 16 + b div 16, (b mod 16) * 4]"
| "b64_nats (a # b # c # rest) =
     a div 4 # ((a mod 4) * 16 + b div 16) # ((b mod 16) * 4 + c div 64) # (c mod 64) # b64_nats rest"

definition b64_EncodeToString :: "bytes \<Rightarrow> string" where
  "b64_EncodeToString bs = map b64_char (b64_nats (map unat bs))"

text \<open>\<open>GenerateSessionID\<close>; the argument is what \<open>crypto/rand\<close> delivers for the 32 bytes asked.\<close>

definition GenerateSessionID :: "string + bytes \<Rightarrow> string + string" where
  "GenerateSessionID r = (case r of Inl e \<Rightarrow> Inl e | Inr bs \<Rightarrow> Inr (b64_EncodeToString bs))"

definition NewSession :: "string + bytes \<Rightarrow> time \<Rightarrow> uuid \<Rightarrow> duration \<Rightarrow> string + Session" where
  "NewSession r now userID ttl =
     (case GenerateSessionID r of
        Inl e \<Rightarrow> Inl e
      | Inr i \<Rightarrow>
          Inr \<lparr>sID = i, sUserID = userID, sSiteID = [], sOrganizationID = None, sData = Some [],
               sCreatedAt = now, sUpdatedAt = now, sLastAccessedAt = now,
               sExpiresAt = (if ttl > 0 then now + ttl else 0), sIPAddress = [], sUserAgent = []\<rparr>)"

lemma length_b64_nats: "length (b64_nats ns) = (length ns * 4 + 2) div 3"
  by (induction ns rule: b64_nats.induct) simp_all

lemma b64_nats_less: "\<forall>n \<in> set ns. n < 256 \<Longrightarrow> n \<in> set (b64_nats ns) \<Longrightarrow> n < 64"
  by (induction ns rule: b64_nats.induct) auto

lemma b64_char_valid:
  assumes "n < 64" shows "session_id_char (b64_char n)"
proof -
  have "list_all session_id_char b64_alphabet" by code_simp
  moreover have "length b64_alphabet = 64" by (simp add: b64_alphabet_def)
  ultimately show ?thesis using assms by (simp add: b64_char_def list_all_length)
qed

lemma b64_char_inj: "m < 64 \<Longrightarrow> n < 64 \<Longrightarrow> b64_char m = b64_char n \<longleftrightarrow> m = n"
  unfolding b64_char_def by (rule nth_eq_iff_index_eq) (simp_all add: b64_alphabet_def)

lemma div_mod_eq_iff: "(a::nat) = b \<longleftrightarrow> a div n = b div n \<and> a mod n = b mod n"
  by (metis div_mult_mod_eq)

lemma digit_eq:
  assumes "(x::nat) < n" "x' < n" "a * n + x = a' * n + x'"
  shows "a = a'" "x = x'"
proof -
  have "(a * n + x) div n = a" "(a' * n + x') div n = a'"
    "(a * n + x) mod n = x" "(a' * n + x') mod n = x'" using assms(1,2) by auto
  with assms(3) show "a = a'" "x = x'" by auto
qed

lemma digit_eq_iff:
  "(x::nat) < n \<Longrightarrow> x' < n \<Longrightarrow> a * n + x = a' * n + x' \<longleftrightarrow> a = a' \<and> x = x'"
  using digit_eq by blast

lemma sextet_eq:
  assumes "(b::nat) < 256" "b' < 256"
  shows "(a mod 4) * 16 + b div 16 = (a' mod 4) * 16 + b' div 16 \<longleftrightarrow>
      a mod 4 = a' mod 4 \<and> b div 16 = b' div 16"
    and "(a mod 16) * 4 + b div 64 = (a' mod 16) * 4 + b' div 64 \<longleftrightarrow>
      a mod 16 = a' mod 16 \<and> b div 64 = b' div 64"
proof -
  have "b div 16 < 16" "b' div 16 < 16" "b div 64 < 4" "b' div 64 < 4" using assms by simp_all
  then show "(a mod 4) * 16 + b div 16 = (a' mod 4) * 16 + b' div 16 \<longleftrightarrow>
      a mod 4 = a' mod 4 \<and> b div 16 = b' div 16"
    and "(a mod 16) * 4 + b div 64 = (a' mod 16) * 4 + b' div 64 \<longleftrightarrow>
      a mod 16 = a' mod 16 \<and> b div 64 = b' div 64"
    by (simp_all only: digit_eq_iff)
qed

lemma b64_nats_inj:
  "length ms = length ns \<Longrightarrow> b64_nats ms = b64_nats ns \<Longrightarrow>
   \<forall>n \<in> set ms. n < 256 \<Longrightarrow> \<forall>n \<in> set ns. n < 256 \<Longrightarrow> ms = ns"
proof (induction ms arbitrary: ns rule: b64_nats.induct)
  case 1
  then show ?case by simp
next
  case (2 a)
  then show ?case by (cases ns) (auto simp: div_mod_eq_iff [of a _ 4])
next
  case (3 a b)
  then obtain a' b' where ns: "ns = [a', b']" by (cases ns; cases "tl ns") auto
  from "3.prems"(2) have e: "a div 4 = a' div 4"
    "(a mod 4) * 16 + b div 16 = (a' mod 4) * 16 + b' div 16" "(b mod 16) * 4 = (b' mod 16) * 4"
    by (simp_all only: ns b64_nats.simps list.inject)
  have lt: "b < 256" "b' < 256" using "3.prems"(3,4) ns by simp_all
  have "b mod 16 = b' mod 16" using e(3) by simp
  with e(1,2) sextet_eq(1) [OF lt, of a a'] show ?case
    by (simp only: ns list.inject div_mod_eq_iff [of a a' 4] div_mod_eq_iff [of b b' 16])
next
  case (4 a b c rest)
  then obtain a' b' c' rest' where ns: "ns = a' # b' # c' # rest'" "length rest = length rest'"
    by (cases ns; cases "tl ns"; cases "tl (tl ns)") auto
  from "4.prems"(2) have e: "a div 4 = a' div 4"
    "(a mod 4) * 16 + b div 16 = (a' mod 4) * 16 + b' div 16"
    "(b mod 16) * 4 + c div 64 = (b' mod 16) * 4 + c' div 64" "c mod 64 = c' mod 64"
    "b64_nats rest = b64_nats rest'"
    by (simp_all only: ns b64_nats.simps list.inject)
  have lt: "b < 256" "b' < 256" "c < 256" "c' < 256" using "4.prems"(3,4) ns by simp_all
  have "rest = rest'" using "4.IH" [OF ns(2) e(5)] "4.prems"(3,4) ns by simp
  with e(1,2,3,4) sextet_eq(1) [OF lt(1,2), of a a'] sextet_eq(2) [OF lt(3,4), of b b'] show ?case
    by (simp only: ns list.inject div_mod_eq_iff [of a a' 4] div_mod_eq_iff [of b b' 16] div_mod_eq_iff [of c c' 64])
qed

lemma unat_byte_less [simp]: "unat (b :: byte) < 256"
  using unsigned_less [of b, where 'a = nat] by simp

lemma b64_valid:
  assumes "bs \<noteq> []" "length bs \<le> 192"
  shows "ValidSessionID (b64_EncodeToString bs)"
proof -
  have "length (b64_EncodeToString bs) = (length bs * 4 + 2) div 3"
    by (simp add: b64_EncodeToString_def length_b64_nats)
  moreover have "\<forall>n \<in> set (b64_nats (map unat bs)). n < 64" using b64_nats_less [of "map unat bs"] by auto
  then have "list_all session_id_char (b64_EncodeToString bs)"
    by (simp add: b64_EncodeToString_def list_all_iff b64_char_valid)
  moreover have "(length bs * 4 + 2) div 3 > 0" using assms(1) by (cases bs) auto
  moreover have "(length bs * 4 + 2) div 3 \<le> 256" using assms(2) by simp
  ultimately show ?thesis by (auto simp: ValidSessionID_def MaxSessionIDLength_def)
qed

lemma b64_inj:
  assumes "length bs = length cs" "b64_EncodeToString bs = b64_EncodeToString cs"
  shows "bs = cs"
proof -
  have "\<forall>n \<in> set (b64_nats (map unat xs)). n < 64" for xs :: bytes
    using b64_nats_less [of "map unat xs"] by auto
  moreover have "map b64_char ms = map b64_char ns \<Longrightarrow>
      \<forall>n \<in> set ms. n < 64 \<Longrightarrow> \<forall>n \<in> set ns. n < 64 \<Longrightarrow> ms = ns" for ms ns
    by (induction ms arbitrary: ns) (auto simp: b64_char_inj Cons_eq_map_conv)
  ultimately have "b64_nats (map unat bs) = b64_nats (map unat cs)"
    using assms(2) unfolding b64_EncodeToString_def by blast
  then have "map unat bs = map unat cs" 
    by (rule b64_nats_inj [rotated]) (simp_all add: assms(1))
  moreover have "inj (unat :: byte \<Rightarrow> nat)" by (rule injI) (simp add: word_unat_eq_iff)
  ultimately show ?thesis by (simp only: inj_map_eq_map)
qed

subsection \<open>Errors\<close>

text \<open>
  The sentinels of \<open>session.go\<close>, a context's error, an error of the key-value store wrapped with a
  message, and the structured \<open>SessionError\<close> with its code, message, details (an empty map for nil) and cause.
\<close>

datatype session_error =
    SessNotFound
  | SessExpired
  | SessInvalid
  | SessSizeLimitExceeded
  | SessLimitExceeded
  | SessSiteMismatch
  | SessClosed
  | SessCanceled
  | SessErrorf string
  | SessKvs string kvs_error
  | SessWrapf string session_error
  | SessionError string string "(string, any) gomap" "session_error option"

definition ErrCodeInvalidSession :: string where
  "ErrCodeInvalidSession = ''SESSION_INVALID''"

definition ErrCodeSizeLimitExceeded :: string where
  "ErrCodeSizeLimitExceeded = ''SESSION_SIZE_EXCEEDED''"

definition ErrCodeNotSerializable :: string where
  "ErrCodeNotSerializable = ''SESSION_NOT_SERIALIZABLE''"

definition ErrCodeNotFound :: string where
  "ErrCodeNotFound = ''SESSION_NOT_FOUND''"

definition ErrCodeExpired :: string where
  "ErrCodeExpired = ''SESSION_EXPIRED''"

definition ErrCodeStoreClosed :: string where
  "ErrCodeStoreClosed = ''STORE_CLOSED''"

definition ErrCodeSessionLimitExceeded :: string where
  "ErrCodeSessionLimitExceeded = ''SESSION_LIMIT_EXCEEDED''"

definition ErrCodeSiteMismatch :: string where
  "ErrCodeSiteMismatch = ''SESSION_SITE_MISMATCH''"

lemmas err_codes = ErrCodeInvalidSession_def ErrCodeSizeLimitExceeded_def ErrCodeNotSerializable_def
  ErrCodeNotFound_def ErrCodeExpired_def ErrCodeStoreClosed_def ErrCodeSessionLimitExceeded_def
  ErrCodeSiteMismatch_def

text \<open>The sentinel that the switch of \<open>SessionError.Is\<close> compares a code with.\<close>

definition code_sentinel :: "string \<Rightarrow> session_error option" where
  "code_sentinel c =
     (if c = ErrCodeNotFound then Some SessNotFound
      else if c = ErrCodeExpired then Some SessExpired
      else if c = ErrCodeInvalidSession then Some SessInvalid
      else if c = ErrCodeSizeLimitExceeded then Some SessSizeLimitExceeded
      else if c = ErrCodeStoreClosed then Some SessClosed
      else if c = ErrCodeSessionLimitExceeded then Some SessLimitExceeded
      else if c = ErrCodeSiteMismatch then Some SessSiteMismatch
      else None)"

text \<open>
  \<open>errors.Is(err, target)\<close>: equal, or \<open>err\<close>'s own \<open>Is\<close> method says so, or something in its chain of
  causes matches. \<open>SessionError.Is\<close> asks the question the other way round: whether the target
  matches the sentinel of the code.
\<close>

lemma code_sentinel_size: "code_sentinel c = Some x \<Longrightarrow> size x = 0"
  by (auto simp: code_sentinel_def split: if_splits)

function sess_is :: "session_error \<Rightarrow> session_error \<Rightarrow> bool" where
  "sess_is (SessionError c m details cause) t \<longleftrightarrow>
     SessionError c m details cause = t \<or>
     (case code_sentinel c of None \<Rightarrow> False | Some x \<Rightarrow> sess_is t x) \<or>
     (case cause of None \<Rightarrow> False | Some e \<Rightarrow> sess_is e t)"
| "sess_is (SessWrapf m e) t \<longleftrightarrow> SessWrapf m e = t \<or> sess_is e t"
| "sess_is SessNotFound t \<longleftrightarrow> SessNotFound = t"
| "sess_is SessExpired t \<longleftrightarrow> SessExpired = t"
| "sess_is SessInvalid t \<longleftrightarrow> SessInvalid = t"
| "sess_is SessSizeLimitExceeded t \<longleftrightarrow> SessSizeLimitExceeded = t"
| "sess_is SessLimitExceeded t \<longleftrightarrow> SessLimitExceeded = t"
| "sess_is SessSiteMismatch t \<longleftrightarrow> SessSiteMismatch = t"
| "sess_is SessClosed t \<longleftrightarrow> SessClosed = t"
| "sess_is SessCanceled t \<longleftrightarrow> SessCanceled = t"
| "sess_is (SessErrorf m) t \<longleftrightarrow> SessErrorf m = t"
| "sess_is (SessKvs m e) t \<longleftrightarrow> SessKvs m e = t"
  by pat_completeness auto
termination
  by (relation "measure (\<lambda>(e, t). size e + size t)") (auto dest: code_sentinel_size)

text \<open>\<open>ErrorCode\<close>: the code of the first \<open>SessionError\<close> in the chain of causes.\<close>

fun ErrorCode :: "session_error \<Rightarrow> string" where
  "ErrorCode (SessionError c m details cause) = c"
| "ErrorCode (SessWrapf m e) = ErrorCode e"
| "ErrorCode _ = []"

fun ErrorDetails :: "session_error \<Rightarrow> (string, any) gomap" where
  "ErrorDetails (SessionError c m details cause) = details"
| "ErrorDetails (SessWrapf m e) = ErrorDetails e"
| "ErrorDetails _ = gm_empty"

definition NewSessionError :: "string \<Rightarrow> string \<Rightarrow> (string, any) gomap \<Rightarrow> session_error option \<Rightarrow> session_error" where
  [simp]: "NewSessionError c m details cause = SessionError c m details cause"

lemma sess_is_sentinel [simp]:
  "sess_is e e"
  by (cases e) simp_all

lemma sess_is_code: "code_sentinel c = Some x \<Longrightarrow> sess_is (SessionError c m details cause) x"
  by simp

subsection \<open>The order of a listing\<close>

text \<open>
  The two nested loops with which both stores sort the sessions of a user by creation time:
  every pair of positions \<open>i < j\<close> is compared and exchanged if out of order. \<open>sort_inner xs i js\<close>
  is the inner loop over the remaining values \<open>js\<close> of \<open>j\<close>.
\<close>

fun sort_inner :: "Session list \<Rightarrow> nat \<Rightarrow> nat list \<Rightarrow> Session list" where
  "sort_inner xs i [] = xs"
| "sort_inner xs i (j # js) =
     (if sCreatedAt (xs ! j) < sCreatedAt (xs ! i)
      then sort_inner (xs[i := xs ! j, j := xs ! i]) i js
      else sort_inner xs i js)"

fun sort_outer :: "Session list \<Rightarrow> nat list \<Rightarrow> Session list" where
  "sort_outer xs [] = xs"
| "sort_outer xs (i # is) = sort_outer (sort_inner xs i [i + 1..<length xs]) is"

definition sort_sessions :: "Session list \<Rightarrow> Session list" where
  "sort_sessions xs = sort_outer xs [0..<length xs - 1]"

lemma mset_sort_inner: "i < length xs \<Longrightarrow> \<forall>j \<in> set js. j < length xs \<Longrightarrow> mset (sort_inner xs i js) = mset xs"
  by (induction xs i js rule: sort_inner.induct) (auto simp: mset_swap)

lemma length_sort_inner [simp]: "length (sort_inner xs i js) = length xs"
  by (induction xs i js rule: sort_inner.induct) auto

lemma mset_sort_outer: "\<forall>i \<in> set is. i < length xs \<Longrightarrow> mset (sort_outer xs is) = mset xs"
  by (induction xs "is" rule: sort_outer.induct) (auto simp: mset_sort_inner)

lemma mset_sort_sessions [simp]: "mset (sort_sessions xs) = mset xs"
  unfolding sort_sessions_def by (rule mset_sort_outer) auto

lemma set_sort_sessions [simp]: "set (sort_sessions xs) = set xs"
  by (metis mset_sort_sessions set_mset_mset)

lemma length_sort_sessions [simp]: "length (sort_sessions xs) = length xs"
  by (metis mset_sort_sessions size_mset)

text \<open>The inner loop brings the oldest of the rest to position \<open>i\<close> and leaves what precedes it.\<close>

lemma sort_inner_min:
  assumes "i < j" "j \<le> length xs" "\<forall>k. i < k \<longrightarrow> k < j \<longrightarrow> sCreatedAt (xs ! i) \<le> sCreatedAt (xs ! k)"
  shows "\<forall>k. i < k \<longrightarrow> k < length xs \<longrightarrow>
    sCreatedAt (sort_inner xs i [j..<length xs] ! i) \<le> sCreatedAt (sort_inner xs i [j..<length xs] ! k)"
  using assms
proof (induction "length xs - j" arbitrary: xs j)
  case 0
  then show ?case by simp
next
  case (Suc m)
  then have j: "[j..<length xs] = j # [Suc j..<length xs]" "m = length xs - Suc j"
    by (simp_all add: upt_conv_Cons)
  show ?case
  proof (cases "sCreatedAt (xs ! j) < sCreatedAt (xs ! i)")
    case True
    let ?ys = "xs[i := xs ! j, j := xs ! i]"
    have "j < length xs" using Suc.hyps(2) by simp
    have "sCreatedAt (?ys ! i) \<le> sCreatedAt (?ys ! k)" if "i < k" "k < Suc j" for k
    proof (cases "k = j")
      case True
      then show ?thesis using \<open>sCreatedAt (xs ! j) < _\<close> \<open>j < length xs\<close> Suc.prems(1) by simp
    next
      case False
      then have "sCreatedAt (xs ! i) \<le> sCreatedAt (xs ! k)" using that Suc.prems(3) by simp
      then show ?thesis using False True that \<open>j < length xs\<close> Suc.prems(1) by simp
    qed
    with Suc.hyps(1) [of ?ys "Suc j"] Suc.prems Suc.hyps(2) True j show ?thesis by simp
  next
    case False
    with Suc.prems have "\<forall>k. i < k \<longrightarrow> k < Suc j \<longrightarrow> sCreatedAt (xs ! i) \<le> sCreatedAt (xs ! k)"
      by (auto simp: less_Suc_eq)
    with Suc.hyps(1) [of xs "Suc j"] Suc.prems Suc.hyps(2) False j show ?thesis by simp
  qed
qed

lemma sort_inner_prefix:
  "\<forall>j \<in> set js. i < j \<Longrightarrow> k < i \<Longrightarrow> sort_inner xs i js ! k = xs ! k"
  by (induction xs i js rule: sort_inner.induct) auto

lemma sort_inner_drop:
  assumes "\<forall>j \<in> set js. i < j \<and> j < length xs" "i < length xs"
  shows "set (drop i (sort_inner xs i js)) = set (drop i xs)"
proof -
  have "take i (sort_inner xs i js) = take i xs"
    using assms by (intro nth_take_lemma) (auto simp: sort_inner_prefix)
  moreover have "mset (sort_inner xs i js) = mset xs" using assms by (simp add: mset_sort_inner)
  ultimately have "mset (drop i (sort_inner xs i js)) = mset (drop i xs)"
    by (metis add_left_cancel append_take_drop_id mset_append)
  then show ?thesis by (metis set_mset_mset)
qed

definition sorted_upto :: "nat \<Rightarrow> Session list \<Rightarrow> bool" where
  "sorted_upto i xs \<longleftrightarrow>
     (\<forall>k l. k < i \<longrightarrow> k \<le> l \<longrightarrow> l < length xs \<longrightarrow> sCreatedAt (xs ! k) \<le> sCreatedAt (xs ! l))"

lemma sort_inner_sorted_upto:
  assumes "sorted_upto i xs" "i < length xs"
  shows "sorted_upto (Suc i) (sort_inner xs i [i + 1..<length xs])"
    (is "sorted_upto _ ?ys")
  unfolding sorted_upto_def
proof (intro allI impI)
  fix k l assume kl: "k < Suc i" "k \<le> l" "l < length ?ys"
  have pre: "?ys ! m = xs ! m" if "m < i" for m using that by (simp add: sort_inner_prefix)
  consider "k = l" | "k = i" "i < l" | "k < i" "l < i" | "k < i" "i \<le> l" using kl by linarith
  then show "sCreatedAt (?ys ! k) \<le> sCreatedAt (?ys ! l)"
  proof cases
    case 2
    then show ?thesis using sort_inner_min [of i "i + 1" xs] assms(2) kl by auto
  next
    case 3
    then show ?thesis using pre assms kl by (simp add: sorted_upto_def)
  next
    case 4
    have "drop i ?ys ! (l - i) = ?ys ! l" "l - i < length (drop i ?ys)" using 4 kl(3) by auto
    then have "?ys ! l \<in> set (drop i ?ys)" by (metis nth_mem)
    also have "set (drop i ?ys) = set (drop i xs)" using assms(2) by (intro sort_inner_drop) auto
    finally obtain m where "m < length (drop i xs)" "drop i xs ! m = ?ys ! l"
      by (auto simp: in_set_conv_nth)
    then have "i + m < length xs" "?ys ! l = xs ! (i + m)" by auto
    then show ?thesis using assms(1) 4 pre [of k] by (simp add: sorted_upto_def)
  qed simp
qed

lemma sort_outer_sorted_upto:
  "sorted_upto i xs \<Longrightarrow> i \<le> n \<Longrightarrow> n < length xs \<Longrightarrow> sorted_upto n (sort_outer xs [i..<n])"
proof (induction "n - i" arbitrary: i xs)
  case (Suc m)
  then have "[i..<n] = i # [Suc i..<n]" "m = n - Suc i" by (simp_all add: upt_conv_Cons)
  with Suc sort_inner_sorted_upto [of i xs] show ?case by simp
qed simp

lemma sorted_sort_sessions: "sorted (map sCreatedAt (sort_sessions xs))"
proof (cases "xs = []")
  case True
  then show ?thesis by (simp add: sort_sessions_def)
next
  case False
  then have "sorted_upto (length xs - 1) (sort_sessions xs)"
    unfolding sort_sessions_def by (intro sort_outer_sorted_upto) (auto simp: sorted_upto_def)
  then have "sCreatedAt (sort_sessions xs ! k) \<le> sCreatedAt (sort_sessions xs ! l)"
    if "k \<le> l" "l < length xs" for k l
    using that by (cases "k = l") (simp_all add: sorted_upto_def)
  then show ?thesis by (simp add: sorted_iff_nth_mono)
qed

subsection \<open>Properties\<close>

text \<open>A generated identifier is 43 characters long and passes validation, and two identifiers are
  equal only if the random bytes were: no entropy is lost in the encoding.\<close>

theorem session_ids:
  assumes "length r = SessionIDLength" "length r' = SessionIDLength"
  shows "\<exists>i i'. GenerateSessionID (Inr r) = Inr i \<and> GenerateSessionID (Inr r') = Inr i' \<and>
    length i = 43 \<and> ValidSessionID i \<and> (i = i' \<longleftrightarrow> r = r')"
proof -
  have "length (b64_EncodeToString r) = 43"
    using assms(1) by (simp add: b64_EncodeToString_def length_b64_nats SessionIDLength_def)
  moreover have "ValidSessionID (b64_EncodeToString r)"
    using assms(1) by (intro b64_valid) (auto simp: SessionIDLength_def)
  moreover have "b64_EncodeToString r = b64_EncodeToString r' \<longleftrightarrow> r = r'"
    using b64_inj [of r r'] assms by auto
  ultimately show ?thesis by (simp add: GenerateSessionID_def)
qed

theorem session_ids_witness:
  "\<exists>i i'. GenerateSessionID (Inr (replicate 32 0)) = Inr i \<and> GenerateSessionID (Inr (replicate 32 255)) = Inr i' \<and>
    length i = 43 \<and> ValidSessionID i \<and> (i = i' \<longleftrightarrow> replicate 32 (0 :: byte) = replicate 32 255)"
  by (rule session_ids) (simp_all add: SessionIDLength_def)

text \<open>The two nested loops of the listing sort: the result is a permutation of the sessions in order of
  creation time.\<close>

theorem listing_sorted:
  "sorted (map sCreatedAt (sort_sessions xs)) \<and> mset (sort_sessions xs) = mset xs"
  by (simp add: sorted_sort_sessions)

text \<open>Expiry and time to live agree: an expired session has none left, a session has time left exactly
  before its expiry, it stays expired, and without an expiry it never does.\<close>

theorem expiry_ttl:
  "(0 < TTL now s \<longleftrightarrow> sExpiresAt s \<noteq> 0 \<and> now < sExpiresAt s) \<and> 0 \<le> TTL now s \<and>
   \<not> (IsExpired now s \<and> TTL now s \<noteq> 0) \<and>
   (IsExpired now s \<longleftrightarrow> sExpiresAt s \<noteq> 0 \<and> sExpiresAt s < now)"
  using TTL_pos_iff [of now s] TTL_nonneg [of now s] IsExpired_TTL [of now s]
  by (auto simp: is_zero_time_def IsExpired_def)

text \<open>A structured error matches, with \<open>errors.Is\<close>, the sentinel of its code as well as its cause, also
  when it is wrapped further.\<close>

theorem structured_errors_match:
  assumes "code_sentinel c = Some x"
  shows "sess_is (NewSessionError c m details cause) x \<and> sess_is (SessWrapf m' (NewSessionError c m details cause)) x \<and>
    (\<forall>e. cause = Some e \<longrightarrow> sess_is (SessWrapf m' (NewSessionError c m details cause)) e) \<and>
    ErrorCode (SessWrapf m' (NewSessionError c m details cause)) = c \<and>
    ErrorDetails (SessWrapf m' (NewSessionError c m details cause)) = details"
  using assms by (simp add: NewSessionError_def)

theorem structured_errors_match_witness:
  "sess_is (SessWrapf ''create'' (NewSessionError ErrCodeExpired ''m'' gm_empty (Some SessCanceled))) SessExpired \<and>
   sess_is (SessWrapf ''create'' (NewSessionError ErrCodeExpired ''m'' gm_empty (Some SessCanceled))) SessCanceled"
  using structured_errors_match [of ErrCodeExpired SessExpired "''m''" gm_empty "Some SessCanceled" "''create''"]
  by (simp add: code_sentinel_def err_codes)

end
