(* ===== verification/SessionStore.thy ===== *)
theory SessionStore
  imports Session
begin

section \<open>The session store interface (\<open>session.Store\<close>, \<open>session.SessionLister\<close>)\<close>

text \<open>
  The methods of a store over its state \<open>'s\<close>; the argument \<open>now\<close> is the clock's reading during
  the call. A session pointer that may be nil is an option. \<open>Update\<close> also changes the session
  it is given, which its result returns. A store that implements \<open>SessionLister\<close> has a listing
  method; the type assertion of the wrapper is a case on \<open>ssList\<close>.
\<close>

record 's SessionStore =
  ssCreate :: "time \<Rightarrow> Session option \<Rightarrow> 's \<Rightarrow> session_error option \<times> 's"
  ssGet :: "time \<Rightarrow> string \<Rightarrow> 's \<Rightarrow> (session_error + Session) \<times> 's"
  ssUpdate :: "time \<Rightarrow> Session option \<Rightarrow> 's \<Rightarrow> session_error option \<times> Session option \<times> 's"
  ssDelete :: "time \<Rightarrow> string \<Rightarrow> 's \<Rightarrow> session_error option \<times> 's"
  ssDeleteByUserID :: "time \<Rightarrow> string \<Rightarrow> 's \<Rightarrow> (nat \<times> session_error option) \<times> 's"
  ssTouch :: "time \<Rightarrow> string \<Rightarrow> 's \<Rightarrow> session_error option \<times> 's"
  ssClose :: "'s \<Rightarrow> session_error option \<times> 's"
  ssList :: "(time \<Rightarrow> string \<Rightarrow> 's \<Rightarrow> (session_error + Session list) \<times> 's) option"

text \<open>
  The contract. \<open>holds s i\<close> is the session stored under \<open>i\<close>, expired or not. A read finds exactly
  the stored sessions that have not expired and may drop one that has; a listing of a user holds
  every live session of the user and no other user's. \<open>expired_gone now h h'\<close>: what \<open>h'\<close> lacks
  of \<open>h\<close> is expired at \<open>now\<close>.
\<close>

definition expired_gone ::
  "time \<Rightarrow> (string \<Rightarrow> Session option) \<Rightarrow> (string \<Rightarrow> Session option) \<Rightarrow> bool" where
  "expired_gone now h h' \<longleftrightarrow>
     (\<forall>i. h' i = h i \<or> (h' i = None \<and> (\<exists>x. h i = Some x \<and> IsExpired now x)))"

lemma expired_gone_refl [simp]: "expired_gone now h h"
  by (simp add: expired_gone_def)

lemma expired_gone_trans:
  "expired_gone now h h' \<Longrightarrow> expired_gone now h' h'' \<Longrightarrow> expired_gone now h h''"
  unfolding expired_gone_def by metis

lemma expired_gone_live:
  "expired_gone now h h' \<Longrightarrow> h i = Some x \<Longrightarrow> \<not> IsExpired now x \<Longrightarrow> h' i = Some x"
  unfolding expired_gone_def by (metis option.inject)

lemma expired_gone_Some: "expired_gone now h h' \<Longrightarrow> h' i = Some x \<Longrightarrow> h i = Some x"
  unfolding expired_gone_def by (metis option.distinct(1))

locale session_store =
  fixes S :: "'s SessionStore"
    and holds :: "'s \<Rightarrow> string \<Rightarrow> Session option"
    and ok :: "'s \<Rightarrow> bool"
    and us :: "uuid \<Rightarrow> string"
  assumes id_law: "ok s \<Longrightarrow> holds s i = Some x \<Longrightarrow> sID x = i"
    and get_law: "ok s \<Longrightarrow> ssGet S now i s = (r, s') \<Longrightarrow>
      ok s' \<and> expired_gone now (holds s) (holds s') \<and>
      r = (case holds s i of None \<Rightarrow> Inl SessNotFound
            | Some x \<Rightarrow> if IsExpired now x then Inl SessExpired else Inr x)"
    and create_law: "ok s \<Longrightarrow> ValidSessionID (sID x) \<Longrightarrow>
      (case holds s (sID x) of None \<Rightarrow> True | Some y \<Rightarrow> sUserID y = sUserID x) \<Longrightarrow>
      \<exists>s'. ssCreate S now (Some x) s = (None, s') \<and> ok s' \<and> holds s' = (holds s)(sID x := Some x)"
    and update_law: "ok s \<Longrightarrow> ValidSessionID (sID x) \<Longrightarrow>
      (case holds s (sID x) of None \<Rightarrow> False | Some y \<Rightarrow> sUserID y = sUserID x) \<Longrightarrow>
      \<exists>s'. ssUpdate S now (Some x) s = (None, Some (x\<lparr>sUpdatedAt := now\<rparr>), s') \<and> ok s' \<and>
        holds s' = (holds s)(sID x := Some (x\<lparr>sUpdatedAt := now\<rparr>))"
    and delete_law: "ok s \<Longrightarrow>
      \<exists>s'. ssDelete S now i s = (None, s') \<and> ok s' \<and> holds s' = (holds s)(i := None)"
    and touch_law: "ok s \<Longrightarrow> ssTouch S now i s = (e, s') \<Longrightarrow>
      ok s' \<and> (\<forall>j. j \<noteq> i \<longrightarrow> holds s' j = holds s j) \<and>
      (case holds s' i of None \<Rightarrow> True
        | Some y \<Rightarrow> \<exists>x. holds s i = Some x \<and> sSiteID y = sSiteID x \<and> sUserID y = sUserID x)"
    and list_law: "ok s \<Longrightarrow>
      \<exists>list xs s'. ssList S = Some list \<and> list now u s = (Inr xs, s') \<and> ok s' \<and>
        expired_gone now (holds s) (holds s') \<and> distinct (map sID xs) \<and>
        sorted (map sCreatedAt xs) \<and>
        (\<forall>x \<in> set xs. holds s' (sID x) = Some x \<and> us (sUserID x) = u) \<and>
        (\<forall>i x. holds s i = Some x \<longrightarrow> us (sUserID x) = u \<longrightarrow> \<not> IsExpired now x \<longrightarrow> x \<in> set xs)"

subsection \<open>Sample values, for the witnesses\<close>

definition witness_session :: "string \<Rightarrow> uuid \<Rightarrow> time \<Rightarrow> time \<Rightarrow> Session" where
  "witness_session i u created expires =
     \<lparr>sID = i, sUserID = u, sSiteID = [], sOrganizationID = None, sData = None, sCreatedAt = created,
      sUpdatedAt = created, sLastAccessedAt = created, sExpiresAt = expires, sIPAddress = [], sUserAgent = []\<rparr>"

definition witness_us :: "uuid \<Rightarrow> string" where
  "witness_us u = replicate (unat u) (CHR ''u'')"

end
