(* ===== verification/SessionControl.thy ===== *)
theory SessionControl
  imports SessionStore
begin

section \<open>The controlled session store (\<open>session/wrapper.go\<close>)\<close>

text \<open>
  \<open>ControlledStore\<close> wraps a store with validation, a size limit, a limit on the sessions of a user
  and the isolation of sites. Its state is the state of the wrapped store and the list of the
  violations reported so far (what the log and the handler get; the message text is left out).
  The packages the code calls are parameters in a record: SHA-256, the text form of a user
  identifier, and \<open>encoding/json\<close> (marshalling the data or the session gives an error text or
  bytes, unmarshalling the data gives an error text or nothing).
\<close>

record SessionLibs =
  libSha256 :: "bytes \<Rightarrow> bytes"
  libUUIDString :: "uuid \<Rightarrow> string"
  libMarshalData :: "(string \<times> any) list \<Rightarrow> string + bytes"
  libUnmarshalData :: "bytes \<Rightarrow> string option"
  libMarshal :: "Session \<Rightarrow> string + bytes"

datatype ViolationType =
    ViolationSizeExceeded
  | ViolationNotSerializable
  | ViolationInvalidSession
  | ViolationSessionLimitExceeded
  | ViolationSiteMismatch

record ViolationEvent =
  veType :: ViolationType
  veSessionRef :: string
  veUserID :: uuid
  veSiteID :: string
  veSize :: int
  veLimit :: int

record 's ControlledStore =
  csStore :: "'s SessionStore"
  csConfig :: SessionConfig
  csLibs :: SessionLibs

record 's controlled_state =
  ctStore :: 's
  ctViolations :: "ViolationEvent list"

definition WithControls :: "SessionLibs \<Rightarrow> 's SessionStore \<Rightarrow> SessionConfig \<Rightarrow> 's ControlledStore" where
  "WithControls libs store cfg = \<lparr>csStore = store, csConfig = cfg, csLibs = libs\<rparr>"

definition reportViolation :: "ViolationEvent \<Rightarrow> 's controlled_state \<Rightarrow> 's controlled_state" where
  "reportViolation ev c = c\<lparr>ctViolations := ctViolations c @ [ev]\<rparr>"

text \<open>An event with the fields a call sets; the others are zero.\<close>

definition violation :: "ViolationType \<Rightarrow> ViolationEvent" where
  "violation t =
     \<lparr>veType = t, veSessionRef = [], veUserID = 0, veSiteID = [], veSize = 0, veLimit = 0\<rparr>"

definition cs_ref :: "'s ControlledStore \<Rightarrow> string \<Rightarrow> string" where
  "cs_ref C = SessionRef (libSha256 (csLibs C))"

text \<open>The details of an error: a session appears by its reference, never by its identifier.\<close>

definition cs_user :: "'s ControlledStore \<Rightarrow> Session \<Rightarrow> any" where
  "cs_user C x = AnyString (libUUIDString (csLibs C) (sUserID x))"

definition cs_details :: "'s ControlledStore \<Rightarrow> Session \<Rightarrow> (string, any) gomap" where
  "cs_details C x =
     gm_put ''user_id'' (cs_user C x) (gm_put ''session_ref'' (AnyString (cs_ref C (sID x))) gm_empty)"

definition validateSession ::
  "'s ControlledStore \<Rightarrow> Session option \<Rightarrow> 's controlled_state \<Rightarrow> session_error option \<times> 's controlled_state" where
  "validateSession C sess c =
     (case sess of
        None \<Rightarrow>
          (Some (NewSessionError ErrCodeInvalidSession ''session is nil'' gm_empty (Some SessInvalid)),
           reportViolation (violation ViolationInvalidSession) c)
      | Some x \<Rightarrow>
          if sID x = [] then
            (Some (NewSessionError ErrCodeInvalidSession ''empty session ID''
               (gm_put ''user_id'' (cs_user C x) gm_empty) (Some SessInvalid)),
             reportViolation ((violation ViolationInvalidSession)\<lparr>veUserID := sUserID x\<rparr>) c)
          else if sUserID x = 0 then
            (Some (NewSessionError ErrCodeInvalidSession ''empty user ID''
               (gm_put ''session_ref'' (AnyString (cs_ref C (sID x))) gm_empty) (Some SessInvalid)),
             reportViolation ((violation ViolationInvalidSession)\<lparr>veSessionRef := cs_ref C (sID x)\<rparr>) c)
          else (None, c))"

definition validateSerializable ::
  "'s ControlledStore \<Rightarrow> Session \<Rightarrow> 's controlled_state \<Rightarrow> session_error option \<times> 's controlled_state" where
  "validateSerializable C x c =
     (let ev = (violation ViolationNotSerializable)
                 \<lparr>veSessionRef := cs_ref C (sID x), veUserID := sUserID x\<rparr>
      in case sData x of
           None \<Rightarrow> (None, c)
         | Some d \<Rightarrow>
             (case libMarshalData (csLibs C) d of
                Inl e \<Rightarrow>
                  (Some (NewSessionError ErrCodeNotSerializable ''session data is not JSON-serializable''
                     (gm_put ''error'' (AnyString e) (cs_details C x)) (Some (SessErrorf e))), reportViolation ev c)
              | Inr bs \<Rightarrow>
                  (case libUnmarshalData (csLibs C) bs of
                     Some e \<Rightarrow>
                       (Some (NewSessionError ErrCodeNotSerializable ''session data JSON is malformed''
                          (gm_put ''error'' (AnyString e) (cs_details C x)) (Some (SessErrorf e))), reportViolation ev c)
                   | None \<Rightarrow> (None, c))))"

definition checkSizeLimit ::
  "'s ControlledStore \<Rightarrow> Session \<Rightarrow> 's controlled_state \<Rightarrow> session_error option \<times> 's controlled_state" where
  "checkSizeLimit C x c =
     (if cfgMaxSessionSize (csConfig C) \<le> 0 then (None, c)
      else (case libMarshal (csLibs C) x of
              Inl e \<Rightarrow>
                (Some (NewSessionError ErrCodeNotSerializable ''failed to serialize session for size check''
                   (gm_put ''session_ref'' (AnyString (cs_ref C (sID x))) gm_empty) (Some (SessErrorf e))), c)
            | Inr bs \<Rightarrow>
                if int (length bs) > cfgMaxSessionSize (csConfig C) then
                  (Some (NewSessionError ErrCodeSizeLimitExceeded
                     (''session size '' @ decimal (int (length bs)) @ '' bytes exceeds limit '' @
                      decimal (cfgMaxSessionSize (csConfig C)) @ '' bytes'')
                     (gm_put ''limit'' (AnyNumber (cfgMaxSessionSize (csConfig C)))
                       (gm_put ''size'' (AnyNumber (int (length bs))) (cs_details C x)))
                     (Some SessSizeLimitExceeded)),
                   reportViolation ((violation ViolationSizeExceeded)
                     \<lparr>veSessionRef := cs_ref C (sID x), veUserID := sUserID x,
                      veSize := int (length bs), veLimit := cfgMaxSessionSize (csConfig C)\<rparr>) c)
                else (None, c)))"

text \<open>A call of a method of the wrapped store.\<close>

definition on_store :: "('s \<Rightarrow> 'r \<times> 's) \<Rightarrow> 's controlled_state \<Rightarrow> 'r \<times> 's controlled_state" where
  "on_store f c = (case f (ctStore c) of (r, s) \<Rightarrow> (r, c\<lparr>ctStore := s\<rparr>))"

subsection \<open>The limit on the sessions of a user\<close>

definition site_filter :: "string \<Rightarrow> Session list \<Rightarrow> Session list" where
  "site_filter site xs = (if site = [] then xs else filter (\<lambda>x. sSiteID x = site) xs)"

text \<open>The eviction loop; an error of \<open>Delete\<close> is logged and the loop goes on.\<close>

fun evict_loop ::
  "'s ControlledStore \<Rightarrow> time \<Rightarrow> Session list \<Rightarrow> 's controlled_state \<Rightarrow> 's controlled_state" where
  "evict_loop C now [] c = c"
| "evict_loop C now (x # xs) c =
     evict_loop C now xs (snd (on_store (ssDelete (csStore C) now (sID x)) c))"

definition enforceSessionLimit ::
  "'s ControlledStore \<Rightarrow> time \<Rightarrow> Session \<Rightarrow> 's controlled_state \<Rightarrow> 's controlled_state" where
  "enforceSessionLimit C now x c =
     (if cfgMaxSessionsPerUser (csConfig C) \<le> 0 then c
      else (case ssList (csStore C) of
              None \<Rightarrow> c
            | Some list \<Rightarrow>
                (case on_store (list now (libUUIDString (csLibs C) (sUserID x))) c of
                   (Inl e, c1) \<Rightarrow> c1
                 | (Inr allSessions, c1) \<Rightarrow>
                     let sessions = site_filter (cfgSiteID (csConfig C)) allSessions;
                         n = int (length sessions) - cfgMaxSessionsPerUser (csConfig C) + 1
                     in if n \<le> 0 then c1
                        else evict_loop C now (take (nat n) sessions)
                               (reportViolation ((violation ViolationSessionLimitExceeded)
                                  \<lparr>veSessionRef := cs_ref C (sID x), veUserID := sUserID x,
                                   veSiteID := cfgSiteID (csConfig C), veSize := int (length sessions),
                                   veLimit := cfgMaxSessionsPerUser (csConfig C)\<rparr>) c1))))"

subsection \<open>The methods\<close>

definition stamp_site :: "'s ControlledStore \<Rightarrow> Session \<Rightarrow> Session" where
  "stamp_site C x =
     (if cfgSiteID (csConfig C) \<noteq> [] then x\<lparr>sSiteID := cfgSiteID (csConfig C)\<rparr> else x)"

definition cs_Create ::
  "'s ControlledStore \<Rightarrow> time \<Rightarrow> Session option \<Rightarrow> 's controlled_state \<Rightarrow>
   session_error option \<times> Session option \<times> 's controlled_state" where
  "cs_Create C now sess c =
     (case validateSession C sess c of
        (Some e, c1) \<Rightarrow> (Some e, sess, c1)
      | (None, c1) \<Rightarrow>
          let x = stamp_site C (the sess)
          in case validateSerializable C x c1 of
               (Some e, c2) \<Rightarrow> (Some e, Some x, c2)
             | (None, c2) \<Rightarrow>
                 (case checkSizeLimit C x c2 of
                    (Some e, c3) \<Rightarrow> (Some e, Some x, c3)
                  | (None, c3) \<Rightarrow>
                      (case on_store (ssCreate (csStore C) now (Some x)) (enforceSessionLimit C now x c3) of
                         (e, c4) \<Rightarrow> (e, Some x, c4))))"

definition checkSite ::
  "'s ControlledStore \<Rightarrow> Session \<Rightarrow> 's controlled_state \<Rightarrow> session_error option \<times> 's controlled_state" where
  "checkSite C x c =
     (if cfgSiteID (csConfig C) = [] \<or> sSiteID x = cfgSiteID (csConfig C) then (None, c)
      else (Some SessNotFound,
            reportViolation ((violation ViolationSiteMismatch)
              \<lparr>veSessionRef := cs_ref C (sID x), veUserID := sUserID x, veSiteID := sSiteID x\<rparr>) c))"

definition cs_Get ::
  "'s ControlledStore \<Rightarrow> time \<Rightarrow> string \<Rightarrow> 's controlled_state \<Rightarrow> (session_error + Session) \<times> 's controlled_state" where
  "cs_Get C now i c =
     (case on_store (ssGet (csStore C) now i) c of
        (Inl e, c1) \<Rightarrow> (Inl e, c1)
      | (Inr x, c1) \<Rightarrow>
          (case checkSite C x c1 of (Some e, c2) \<Rightarrow> (Inl e, c2) | (None, c2) \<Rightarrow> (Inr x, c2)))"

definition verifyOwnership ::
  "'s ControlledStore \<Rightarrow> time \<Rightarrow> string \<Rightarrow> 's controlled_state \<Rightarrow> session_error option \<times> 's controlled_state" where
  "verifyOwnership C now i c =
     (if cfgSiteID (csConfig C) = [] then (None, c)
      else (case on_store (ssGet (csStore C) now i) c of
              (Inl e, c1) \<Rightarrow> (Some e, c1)
            | (Inr x, c1) \<Rightarrow> checkSite C x c1))"

definition cs_Update ::
  "'s ControlledStore \<Rightarrow> time \<Rightarrow> Session option \<Rightarrow> 's controlled_state \<Rightarrow>
   session_error option \<times> Session option \<times> 's controlled_state" where
  "cs_Update C now sess c =
     (case validateSession C sess c of
        (Some e, c1) \<Rightarrow> (Some e, sess, c1)
      | (None, c1) \<Rightarrow>
          (case verifyOwnership C now (sID (the sess)) c1 of
             (Some e, c2) \<Rightarrow> (Some e, sess, c2)
           | (None, c2) \<Rightarrow>
               let x = stamp_site C (the sess)
               in case validateSerializable C x c2 of
                    (Some e, c3) \<Rightarrow> (Some e, Some x, c3)
                  | (None, c3) \<Rightarrow>
                      (case checkSizeLimit C x c3 of
                         (Some e, c4) \<Rightarrow> (Some e, Some x, c4)
                       | (None, c4) \<Rightarrow>
                           (case ssUpdate (csStore C) now (Some x) (ctStore c4) of
                              (e, x', s) \<Rightarrow> (e, x', c4\<lparr>ctStore := s\<rparr>)))))"

definition cs_Delete ::
  "'s ControlledStore \<Rightarrow> time \<Rightarrow> string \<Rightarrow> 's controlled_state \<Rightarrow> session_error option \<times> 's controlled_state" where
  "cs_Delete C now i c =
     (case verifyOwnership C now i c of
        (Some e, c1) \<Rightarrow> (if sess_is e SessNotFound then (None, c1) else (Some e, c1))
      | (None, c1) \<Rightarrow> on_store (ssDelete (csStore C) now i) c1)"

fun delete_user_loop ::
  "'s ControlledStore \<Rightarrow> time \<Rightarrow> string \<Rightarrow> Session list \<Rightarrow> nat \<Rightarrow> 's controlled_state \<Rightarrow>
   (nat \<times> session_error option) \<times> 's controlled_state" where
  "delete_user_loop C now u [] n c = ((n, None), c)"
| "delete_user_loop C now u (x # xs) n c =
     (if sSiteID x \<noteq> cfgSiteID (csConfig C) then delete_user_loop C now u xs n c
      else (case on_store (ssDelete (csStore C) now (sID x)) c of
              (Some e, c1) \<Rightarrow> ((n, Some (SessWrapf (''delete session for user '' @ u) e)), c1)
            | (None, c1) \<Rightarrow> delete_user_loop C now u xs (n + 1) c1))"

definition cs_DeleteByUserID ::
  "'s ControlledStore \<Rightarrow> time \<Rightarrow> string \<Rightarrow> 's controlled_state \<Rightarrow>
   (nat \<times> session_error option) \<times> 's controlled_state" where
  "cs_DeleteByUserID C now u c =
     (if cfgSiteID (csConfig C) = [] then on_store (ssDeleteByUserID (csStore C) now u) c
      else (case ssList (csStore C) of
              None \<Rightarrow> ((0, Some (SessErrorf ''underlying store does not implement SessionLister'')), c)
            | Some list \<Rightarrow>
                (case on_store (list now u) c of
                   (Inl e, c1) \<Rightarrow> ((0, Some e), c1)
                 | (Inr xs, c1) \<Rightarrow> delete_user_loop C now u xs 0 c1)))"

definition cs_Touch ::
  "'s ControlledStore \<Rightarrow> time \<Rightarrow> string \<Rightarrow> 's controlled_state \<Rightarrow> session_error option \<times> 's controlled_state" where
  "cs_Touch C now i c =
     (case verifyOwnership C now i c of
        (Some e, c1) \<Rightarrow> (Some e, c1)
      | (None, c1) \<Rightarrow> on_store (ssTouch (csStore C) now i) c1)"

definition cs_Close :: "'s ControlledStore \<Rightarrow> 's controlled_state \<Rightarrow> session_error option \<times> 's controlled_state" where
  "cs_Close C c = on_store (ssClose (csStore C)) c"

definition cs_Unwrap :: "'s ControlledStore \<Rightarrow> 's SessionStore" where
  "cs_Unwrap C = csStore C"

definition cs_ListByUserID ::
  "'s ControlledStore \<Rightarrow> time \<Rightarrow> string \<Rightarrow> 's controlled_state \<Rightarrow>
   (session_error + Session list) \<times> 's controlled_state" where
  "cs_ListByUserID C now u c =
     (case ssList (csStore C) of
        None \<Rightarrow> (Inl (SessErrorf ''underlying store does not implement SessionLister''), c)
      | Some list \<Rightarrow>
          (case on_store (list now u) c of
             (Inl e, c1) \<Rightarrow> (Inl e, c1)
           | (Inr xs, c1) \<Rightarrow> (Inr (site_filter (cfgSiteID (csConfig C)) xs), c1)))"

lemmas cs_ops [model_defs] = cs_Create_def cs_Get_def cs_Update_def cs_Delete_def
  cs_DeleteByUserID_def cs_Touch_def cs_Close_def cs_ListByUserID_def verifyOwnership_def checkSite_def

subsection \<open>What the checks change\<close>

lemma ctStore_reportViolation [simp]: "ctStore (reportViolation ev c) = ctStore c"
  by (simp add: reportViolation_def)

lemma ctStore_checks_snd [simp]:
  "ctStore (snd (validateSession C sess c)) = ctStore c"
  "ctStore (snd (validateSerializable C x c)) = ctStore c"
  "ctStore (snd (checkSizeLimit C x c)) = ctStore c"
  "ctStore (snd (checkSite C x c)) = ctStore c"
  by (auto simp: validateSession_def validateSerializable_def checkSizeLimit_def checkSite_def Let_def
      split: option.splits sum.splits)

lemma ctStore_checks:
  "validateSession C sess c = (e, c') \<Longrightarrow> ctStore c' = ctStore c"
  "validateSerializable C x c = (e, c') \<Longrightarrow> ctStore c' = ctStore c"
  "checkSizeLimit C x c = (e, c') \<Longrightarrow> ctStore c' = ctStore c"
  "checkSite C x c = (e, c') \<Longrightarrow> ctStore c' = ctStore c"
  using ctStore_checks_snd by (metis snd_conv)+

lemma validateSession_None:
  "validateSession C sess c = (None, c') \<longleftrightarrow>
     c' = c \<and> (\<exists>x. sess = Some x \<and> sID x \<noteq> [] \<and> sUserID x \<noteq> 0)"
  by (auto simp: validateSession_def split: option.splits)

lemma checkSizeLimit_None:
  "checkSizeLimit C x c = (None, c') \<Longrightarrow> 0 < cfgMaxSessionSize (csConfig C) \<Longrightarrow>
   \<exists>bs. libMarshal (csLibs C) x = Inr bs \<and> int (length bs) \<le> cfgMaxSessionSize (csConfig C)"
  by (auto simp: checkSizeLimit_def split: sum.splits if_splits)

lemma on_store_eq: "on_store f c = (r, c') \<longleftrightarrow> (\<exists>s. f (ctStore c) = (r, s) \<and> c' = c\<lparr>ctStore := s\<rparr>)"
  by (auto simp: on_store_def split: prod.splits)

lemma stamp_site_simps [simp]:
  "sID (stamp_site C x) = sID x" "sUserID (stamp_site C x) = sUserID x"
  "sExpiresAt (stamp_site C x) = sExpiresAt x"
  "cfgSiteID (csConfig C) \<noteq> [] \<Longrightarrow> sSiteID (stamp_site C x) = cfgSiteID (csConfig C)"
  by (simp_all add: stamp_site_def)

lemma IsExpired_stamp [simp]: "IsExpired now (stamp_site C x) = IsExpired now x"
  by (simp add: IsExpired_def)

lemma set_site_filter [simp]:
  "x \<in> set (site_filter site xs) \<longleftrightarrow> x \<in> set xs \<and> (site = [] \<or> sSiteID x = site)"
  by (auto simp: site_filter_def)

definition own_sessions :: "'s ControlledStore \<Rightarrow> Session list \<Rightarrow> Session list" where
  "own_sessions C xs = filter (\<lambda>x. sSiteID x = cfgSiteID (csConfig C)) xs"

text \<open>The sessions that count against the limit when \<open>x\<close> is created.\<close>

definition same_owner :: "'s ControlledStore \<Rightarrow> Session \<Rightarrow> Session \<Rightarrow> bool" where
  "same_owner C x y \<longleftrightarrow>
     libUUIDString (csLibs C) (sUserID y) = libUUIDString (csLibs C) (sUserID x) \<and>
     (cfgSiteID (csConfig C) = [] \<or> sSiteID y = cfgSiteID (csConfig C))"

lemma map_site_filter_distinct: "distinct (map sID xs) \<Longrightarrow> distinct (map sID (site_filter site xs))"
  by (auto simp: site_filter_def distinct_map_filter)

subsection \<open>Correctness over any store that keeps the contract\<close>

text \<open>The locale adds no assumption; it collects the results on the wrapper, to be interpreted with the store.\<close>

locale controlled_sessions = session_store S holds ok us
  for S :: "'s SessionStore" and holds and ok and us
begin

text \<open>The read of the wrapper is the read of the store, cut down to the site.\<close>

lemma cs_Get_correct:
  assumes "ok (ctStore c)" "csStore C = S"
  shows "fst (cs_Get C now i c) =
      (case holds (ctStore c) i of
         None \<Rightarrow> Inl SessNotFound
       | Some x \<Rightarrow>
           if IsExpired now x then Inl SessExpired
           else if cfgSiteID (csConfig C) = [] \<or> sSiteID x = cfgSiteID (csConfig C) then Inr x
           else Inl SessNotFound)"
    and "expired_gone now (holds (ctStore c)) (holds (ctStore (snd (cs_Get C now i c))))"
    and "ok (ctStore (snd (cs_Get C now i c)))"
proof -
  obtain r s where g: "ssGet S now i (ctStore c) = (r, s)" by fastforce
  note law = get_law [OF assms(1) g]
  have st: "on_store (ssGet (csStore C) now i) c = (r, c\<lparr>ctStore := s\<rparr>)"
    using g assms(2) by (simp add: on_store_eq)
  show "fst (cs_Get C now i c) =
      (case holds (ctStore c) i of
         None \<Rightarrow> Inl SessNotFound
       | Some x \<Rightarrow>
           if IsExpired now x then Inl SessExpired
           else if cfgSiteID (csConfig C) = [] \<or> sSiteID x = cfgSiteID (csConfig C) then Inr x
           else Inl SessNotFound)"
    using law by (auto simp: cs_Get_def st checkSite_def split: option.splits)
  have "ctStore (snd (cs_Get C now i c)) = s"
    by (auto simp: cs_Get_def st checkSite_def split: sum.splits)
  with law show "expired_gone now (holds (ctStore c)) (holds (ctStore (snd (cs_Get C now i c))))"
    "ok (ctStore (snd (cs_Get C now i c)))" by auto
qed

lemma verifyOwnership_correct:
  assumes "ok (ctStore c)" "csStore C = S" "verifyOwnership C now i c = (e, c')"
  shows "ok (ctStore c') \<and> expired_gone now (holds (ctStore c)) (holds (ctStore c')) \<and>
    e = (if cfgSiteID (csConfig C) = [] then None
         else case holds (ctStore c) i of
           None \<Rightarrow> Some SessNotFound
         | Some x \<Rightarrow> if IsExpired now x then Some SessExpired
                    else if sSiteID x = cfgSiteID (csConfig C) then None else Some SessNotFound)"
proof (cases "cfgSiteID (csConfig C) = []")
  case True
  then show ?thesis using assms by (auto simp: verifyOwnership_def)
next
  case False
  obtain r s where g: "ssGet S now i (ctStore c) = (r, s)" by fastforce
  note law = get_law [OF assms(1) g]
  have st: "on_store (ssGet (csStore C) now i) c = (r, c\<lparr>ctStore := s\<rparr>)"
    using g assms(2) by (simp add: on_store_eq)
  show ?thesis
    using law False assms(3)
    by (auto simp: verifyOwnership_def st checkSite_def split: option.splits if_splits)
qed

text \<open>The loops of \<open>Delete\<close> calls.\<close>

lemma on_store_delete:
  assumes "ok (ctStore c)" "csStore C = S"
  shows "\<exists>c'. on_store (ssDelete (csStore C) now i) c = (None, c') \<and> ok (ctStore c') \<and>
    holds (ctStore c') = (holds (ctStore c))(i := None)"
  using delete_law [OF assms(1), of now i] assms(2) by (auto simp: on_store_def)

lemma evict_loop_correct:
  assumes "ok (ctStore c)" "csStore C = S"
  shows "ok (ctStore (evict_loop C now xs c)) \<and>
    holds (ctStore (evict_loop C now xs c)) =
      (\<lambda>i. if i \<in> sID ` set xs then None else holds (ctStore c) i)"
  using assms(1)
proof (induction xs arbitrary: c)
  case (Cons x xs)
  obtain c' where "on_store (ssDelete (csStore C) now (sID x)) c = (None, c')" "ok (ctStore c')"
    "holds (ctStore c') = (holds (ctStore c))(sID x := None)"
    using on_store_delete [OF Cons.prems assms(2)] by blast
  with Cons.IH [of c'] show ?case by auto
qed simp

lemma delete_user_loop_correct:
  assumes "ok (ctStore c)" "csStore C = S"
  shows "\<exists>c'. delete_user_loop C now u xs n c = ((n + length (own_sessions C xs), None), c') \<and> ok (ctStore c') \<and>
    holds (ctStore c') = (\<lambda>i. if i \<in> sID ` set (own_sessions C xs) then None else holds (ctStore c) i)"
  using assms(1)
proof (induction xs arbitrary: c n)
  case (Cons x xs)
  obtain c' where c': "on_store (ssDelete (csStore C) now (sID x)) c = (None, c')" "ok (ctStore c')"
    "holds (ctStore c') = (holds (ctStore c))(sID x := None)"
    using on_store_delete [OF Cons.prems assms(2)] by blast
  show ?case
    using Cons.IH [of c' "n + 1"] Cons.IH [of c n] Cons.prems c' by (fastforce simp: own_sessions_def)
qed (simp add: own_sessions_def)

lemma ctStore_evict_loop_report:
  "ctStore (evict_loop C now xs (reportViolation ev c)) = ctStore (evict_loop C now xs c)"
proof -
  have "ctStore c = ctStore d \<Longrightarrow> ctStore (evict_loop C now xs c) = ctStore (evict_loop C now xs d)" for c d
    by (induction xs arbitrary: c d) (simp_all add: on_store_def case_prod_beta)
  then show ?thesis by (metis ctStore_reportViolation)
qed

text \<open>
  The eviction as one step: the sessions listed for the owner, oldest first, lose their first
  \<open>n\<close> members, where \<open>n\<close> leaves room for one more.
\<close>

lemma enforce_shape:
  assumes "ok (ctStore c)" "csStore C = S" "libUUIDString (csLibs C) = us"
    "0 < cfgMaxSessionsPerUser (csConfig C)"
  obtains xs s where "ok s" "expired_gone now (holds (ctStore c)) (holds s)"
    "distinct (map sID xs)" "sorted (map sCreatedAt xs)"
    "\<forall>y \<in> set xs. holds s (sID y) = Some y \<and> same_owner C x y"
    "\<forall>i y. holds (ctStore c) i = Some y \<longrightarrow> same_owner C x y \<longrightarrow> \<not> IsExpired now y \<longrightarrow> y \<in> set xs"
    "ok (ctStore (enforceSessionLimit C now x c))"
    "holds (ctStore (enforceSessionLimit C now x c)) =
       (\<lambda>i. if i \<in> sID ` set (take (nat (int (length xs) - cfgMaxSessionsPerUser (csConfig C) + 1)) xs)
            then None else holds s i)"
proof -
  let ?u = "us (sUserID x)" and ?site = "cfgSiteID (csConfig C)"
  obtain list all s where l: "ssList S = Some list" "list now ?u (ctStore c) = (Inr all, s)" "ok s"
    "expired_gone now (holds (ctStore c)) (holds s)" "distinct (map sID all)"
    "sorted (map sCreatedAt all)"
    "\<forall>x \<in> set all. holds s (sID x) = Some x \<and> us (sUserID x) = ?u"
    "\<forall>i x. holds (ctStore c) i = Some x \<longrightarrow> us (sUserID x) = ?u \<longrightarrow> \<not> IsExpired now x \<longrightarrow> x \<in> set all"
    using list_law [OF assms(1), of now ?u] by blast
  let ?xs = "site_filter ?site all"
  let ?n = "nat (int (length ?xs) - cfgMaxSessionsPerUser (csConfig C) + 1)"
  let ?c1 = "c\<lparr>ctStore := s\<rparr>"
  have st: "ctStore (enforceSessionLimit C now x c) = ctStore (evict_loop C now (take ?n ?xs) ?c1)"
    using assms l(1,2)
    by (simp add: enforceSessionLimit_def on_store_def Let_def ctStore_evict_loop_report)
  have ev: "ok (ctStore (evict_loop C now (take ?n ?xs) ?c1)) \<and>
    holds (ctStore (evict_loop C now (take ?n ?xs) ?c1)) =
      (\<lambda>i. if i \<in> sID ` set (take ?n ?xs) then None else holds (ctStore ?c1) i)"
    by (rule evict_loop_correct) (simp_all add: l(3) assms(2))
  show ?thesis
  proof (rule that [of s ?xs])
    show "sorted (map sCreatedAt ?xs)" using l(6) by (simp add: site_filter_def sorted_filter)
    show "\<forall>y \<in> set ?xs. holds s (sID y) = Some y \<and> same_owner C x y"
      using l(7) assms(3) by (simp add: same_owner_def)
    show "\<forall>i y. holds (ctStore c) i = Some y \<longrightarrow> same_owner C x y \<longrightarrow> \<not> IsExpired now y \<longrightarrow> y \<in> set ?xs"
      using l(8) assms(3) by (simp add: same_owner_def)
    show "ok (ctStore (enforceSessionLimit C now x c))" using st ev by simp
    show "holds (ctStore (enforceSessionLimit C now x c)) =
        (\<lambda>i. if i \<in> sID ` set (take ?n ?xs) then None else holds s i)"
      using st ev by (simp cong: if_cong)
  qed (fact l(3) l(4) map_site_filter_distinct [OF l(5), of ?site])+
qed

definition live_owned :: "'s ControlledStore \<Rightarrow> time \<Rightarrow> Session \<Rightarrow> 's \<Rightarrow> string set" where
  "live_owned C now x s = {i. \<exists>y. holds s i = Some y \<and> same_owner C x y \<and> \<not> IsExpired now y}"

lemma enforce_room:
  assumes "ok (ctStore c)" "csStore C = S" "libUUIDString (csLibs C) = us"
    "0 < cfgMaxSessionsPerUser (csConfig C)"
  shows "finite (live_owned C now x (ctStore (enforceSessionLimit C now x c)))"
    and "int (card (live_owned C now x (ctStore (enforceSessionLimit C now x c)))) <
      cfgMaxSessionsPerUser (csConfig C)"
proof -
  let ?m = "cfgMaxSessionsPerUser (csConfig C)"
  obtain xs s where "ok s" and e1: "expired_gone now (holds (ctStore c)) (holds s)"
    and "distinct (map sID xs)" "sorted (map sCreatedAt xs)"
      "\<forall>y \<in> set xs. holds s (sID y) = Some y \<and> same_owner C x y"
    and e2: "\<forall>i y. holds (ctStore c) i = Some y \<longrightarrow> same_owner C x y \<longrightarrow> \<not> IsExpired now y \<longrightarrow> y \<in> set xs"
    and "ok (ctStore (enforceSessionLimit C now x c))"
    and e3: "holds (ctStore (enforceSessionLimit C now x c)) =
       (\<lambda>i. if i \<in> sID ` set (take (nat (int (length xs) - ?m + 1)) xs) then None else holds s i)"
    by (rule enforce_shape [OF assms, of now x])
  let ?n = "nat (int (length xs) - ?m + 1)"
  have "live_owned C now x (ctStore (enforceSessionLimit C now x c)) \<subseteq> sID ` set (drop ?n xs)"
  proof
    fix i assume "i \<in> live_owned C now x (ctStore (enforceSessionLimit C now x c))"
    then obtain y where y: "holds s i = Some y" "same_owner C x y" "\<not> IsExpired now y"
      "i \<notin> sID ` set (take ?n xs)"
      by (auto simp: live_owned_def e3 split: if_splits)
    then have h: "holds (ctStore c) i = Some y" using expired_gone_Some [OF e1] by blast
    then have "y \<in> set xs" "sID y = i" using e2 y(2,3) id_law [OF assms(1)] by auto
    moreover have "set xs = set (take ?n xs) \<union> set (drop ?n xs)"
      by (metis append_take_drop_id set_append)
    ultimately show "i \<in> sID ` set (drop ?n xs)" using y(4) by auto
  qed
  moreover have "card (sID ` set (drop ?n xs)) \<le> length xs - ?n"
    by (metis card_image_le card_length finite_set le_trans length_drop)
  moreover have fin: "finite (sID ` set (drop ?n xs))" by simp
  ultimately have "card (live_owned C now x (ctStore (enforceSessionLimit C now x c))) \<le> length xs - ?n"
    and "finite (live_owned C now x (ctStore (enforceSessionLimit C now x c)))"
    using card_mono [OF fin] finite_subset [OF _ fin] le_trans by blast+
  then show "finite (live_owned C now x (ctStore (enforceSessionLimit C now x c)))"
    "int (card (live_owned C now x (ctStore (enforceSessionLimit C now x c)))) < ?m"
    using assms(4) by linarith+
qed

text \<open>The eviction touches only live sessions of the owner, and takes the oldest.\<close>

text \<open>
  What an eviction leaves of the sessions \<open>h\<close>: nothing new, every live session of other owners, and
  of the owner none that is older than one that went.
\<close>

definition evicts_oldest ::
  "'b ControlledStore \<Rightarrow> time \<Rightarrow> Session \<Rightarrow> (string \<Rightarrow> Session option) \<Rightarrow> (string \<Rightarrow> Session option) \<Rightarrow> bool" where
  "evicts_oldest C now x h h' \<longleftrightarrow>
     (\<forall>i y. h' i = Some y \<longrightarrow> h i = Some y) \<and>
     (\<forall>i y. h i = Some y \<longrightarrow> \<not> IsExpired now y \<longrightarrow> \<not> same_owner C x y \<longrightarrow> h' i = Some y) \<and>
     (\<forall>i y j z. h i = Some y \<longrightarrow> \<not> IsExpired now y \<longrightarrow> h' i = None \<longrightarrow>
        h' j = Some z \<longrightarrow> same_owner C x z \<longrightarrow> \<not> IsExpired now z \<longrightarrow> sCreatedAt y \<le> sCreatedAt z)"

lemma evict_frame:
  assumes ids: "\<And>i y. h i = Some y \<Longrightarrow> sID y = i" and e1: "expired_gone now h hs"
    and d: "sorted (map sCreatedAt xs)" "\<forall>y \<in> set xs. hs (sID y) = Some y \<and> same_owner C x y"
    and e2: "\<forall>i y. h i = Some y \<longrightarrow> same_owner C x y \<longrightarrow> \<not> IsExpired now y \<longrightarrow> y \<in> set xs"
    and h': "h' = (\<lambda>i. if i \<in> sID ` set (take n xs) then None else hs i)"
  shows "evicts_oldest C now x h h'"
proof -
  have sub: "h i = Some y" if "h' i = Some y" for i y
    using that expired_gone_Some [OF e1] by (simp add: h' split: if_splits)
  have gone: "y \<in> set (take n xs)" if a: "h i = Some y" "\<not> IsExpired now y" "h' i = None" for i y
  proof -
    have k: "hs i = Some y" using expired_gone_live [OF e1] a(1,2) by blast
    then obtain w where w: "w \<in> set (take n xs)" "i = sID w" using a(3) by (auto simp: h' split: if_splits)
    then have "hs i = Some w" using d(2) in_set_takeD by metis
    with k w(1) show ?thesis by simp
  qed
  have foreign: "h' i = Some y" if "h i = Some y" "\<not> IsExpired now y" "\<not> same_owner C x y" for i y
  proof (cases "h' i")
    case None
    then show ?thesis using gone [OF that(1,2)] d(2) that(3) in_set_takeD by metis
  next
    case (Some z)
    then show ?thesis using sub that(1) by fastforce
  qed
  have old: "sCreatedAt y \<le> sCreatedAt z"
    if "h i = Some y" "\<not> IsExpired now y" "h' i = None" "h' j = Some z" "same_owner C x z" "\<not> IsExpired now z" for i y j z
  proof -
    have "z \<in> set xs" "sID z = j" using e2 that(5,6) ids sub [OF that(4)] by auto
    moreover have "z \<notin> set (take n xs)" using that(4) \<open>sID z = j\<close> by (auto simp: h' split: if_splits)
    ultimately have "z \<in> set (drop n xs)" by (metis Un_iff append_take_drop_id set_append)
    moreover have "sorted (map sCreatedAt (take n xs) @ map sCreatedAt (drop n xs))"
      using d(1) by (metis append_take_drop_id map_append)
    ultimately show ?thesis using gone [OF that(1-3)] by (auto simp: sorted_append)
  qed
  show ?thesis unfolding evicts_oldest_def using sub foreign old by blast
qed

lemma enforce_frame:
  assumes "ok (ctStore c)" "csStore C = S" "libUUIDString (csLibs C) = us"
  shows "ok (ctStore (enforceSessionLimit C now x c))"
    and "holds (ctStore (enforceSessionLimit C now x c)) i = Some y \<Longrightarrow> holds (ctStore c) i = Some y"
    and "holds (ctStore c) i = Some y \<Longrightarrow> \<not> IsExpired now y \<Longrightarrow> \<not> same_owner C x y \<Longrightarrow>
      holds (ctStore (enforceSessionLimit C now x c)) i = Some y"
    and "holds (ctStore c) i = Some y \<Longrightarrow> \<not> IsExpired now y \<Longrightarrow>
      holds (ctStore (enforceSessionLimit C now x c)) i = None \<Longrightarrow>
      holds (ctStore (enforceSessionLimit C now x c)) j = Some z \<Longrightarrow> same_owner C x z \<Longrightarrow>
      \<not> IsExpired now z \<Longrightarrow> sCreatedAt y \<le> sCreatedAt z"
proof -
  let ?c' = "enforceSessionLimit C now x c"
  have *: "ok (ctStore ?c') \<and> evicts_oldest C now x (holds (ctStore c)) (holds (ctStore ?c'))"
  proof (cases "0 < cfgMaxSessionsPerUser (csConfig C)")
    case False
    then have "?c' = c" by (simp add: enforceSessionLimit_def)
    with assms(1) show ?thesis by (auto simp: evicts_oldest_def)
  next
    case True
    obtain xs s where "ok s" and e: "expired_gone now (holds (ctStore c)) (holds s)" "sorted (map sCreatedAt xs)"
        "\<forall>y \<in> set xs. holds s (sID y) = Some y \<and> same_owner C x y"
        "\<forall>i y. holds (ctStore c) i = Some y \<longrightarrow> same_owner C x y \<longrightarrow> \<not> IsExpired now y \<longrightarrow> y \<in> set xs"
      and ok': "ok (ctStore ?c')"
      and h': "holds (ctStore ?c') =
         (\<lambda>i. if i \<in> sID ` set (take (nat (int (length xs) - cfgMaxSessionsPerUser (csConfig C) + 1)) xs)
              then None else holds s i)"
      by (rule enforce_shape [OF assms True, of now x])
    show ?thesis using ok' evict_frame [OF id_law [OF assms(1)] e h'] by blast
  qed
  then show "ok (ctStore ?c')" by blast
  show "holds (ctStore ?c') i = Some y \<Longrightarrow> holds (ctStore c) i = Some y"
    "holds (ctStore c) i = Some y \<Longrightarrow> \<not> IsExpired now y \<Longrightarrow> \<not> same_owner C x y \<Longrightarrow> holds (ctStore ?c') i = Some y"
    "holds (ctStore c) i = Some y \<Longrightarrow> \<not> IsExpired now y \<Longrightarrow> holds (ctStore ?c') i = None \<Longrightarrow>
      holds (ctStore ?c') j = Some z \<Longrightarrow> same_owner C x z \<Longrightarrow> \<not> IsExpired now z \<Longrightarrow> sCreatedAt y \<le> sCreatedAt z"
    using * unfolding evicts_oldest_def by blast+
qed

lemma same_owner_stamp [simp]: "same_owner C (stamp_site C x) y = same_owner C x y"
  by (simp add: same_owner_def)

lemma same_owner_self: "cfgSiteID (csConfig C) \<noteq> [] \<Longrightarrow> same_owner C x (stamp_site C x)"
  by (simp add: same_owner_def)

text \<open>Creating a session: what is stored, within which limits, and what is left alone.\<close>

lemma cs_Create_shape:
  assumes "cs_Create C now sess c = (None, sess', c')" "csStore C = S"
  obtains x c3 where "sess = Some x" "sID x \<noteq> []" "sUserID x \<noteq> 0" "sess' = Some (stamp_site C x)"
    "ctStore c3 = ctStore c" "0 < cfgMaxSessionSize (csConfig C) \<Longrightarrow>
      \<exists>bs. libMarshal (csLibs C) (stamp_site C x) = Inr bs \<and> int (length bs) \<le> cfgMaxSessionSize (csConfig C)"
    "on_store (ssCreate S now (Some (stamp_site C x))) (enforceSessionLimit C now (stamp_site C x) c3) = (None, c')"
proof -
  obtain e c1 where v: "validateSession C sess c = (e, c1)" by fastforce
  have "e = None" using assms(1) v by (cases e) (simp_all add: cs_Create_def)
  then obtain x where x: "sess = Some x" "sID x \<noteq> []" "sUserID x \<noteq> 0" "validateSession C sess c = (None, c)"
    using v validateSession_None [of C sess c c1] by blast
  obtain c2 where c2: "validateSerializable C (stamp_site C x) c = (None, c2)"
    using assms(1) x
    by (cases "validateSerializable C (stamp_site C x) c") (auto simp: cs_Create_def Let_def split: option.splits)
  obtain c3 where c3: "checkSizeLimit C (stamp_site C x) c2 = (None, c3)"
    using assms(1) x c2
    by (cases "checkSizeLimit C (stamp_site C x) c2") (auto simp: cs_Create_def Let_def split: option.splits)
  have "on_store (ssCreate S now (Some (stamp_site C x))) (enforceSessionLimit C now (stamp_site C x) c3) = (None, c')
      \<and> sess' = Some (stamp_site C x)"
    using assms x c2 c3 by (auto simp: cs_Create_def Let_def split: prod.splits)
  moreover have "ctStore c3 = ctStore c" using ctStore_checks(2) [OF c2] ctStore_checks(3) [OF c3] by simp
  ultimately show ?thesis using that x checkSizeLimit_None [OF c3] by blast
qed

definition user_kept :: "Session \<Rightarrow> 's \<Rightarrow> bool" where
  "user_kept x s \<longleftrightarrow> (case holds s (sID x) of None \<Rightarrow> True | Some y \<Rightarrow> sUserID y = sUserID x)"

lemma cs_Create_correct:
  assumes "ok (ctStore c)" "csStore C = S" "libUUIDString (csLibs C) = us"
    "ValidSessionID (sID x)" "user_kept x (ctStore c)"
    "cs_Create C now (Some x) c = (None, sess', c')"
  shows "ok (ctStore c')" "holds (ctStore c') (sID x) = Some (stamp_site C x)"
    "sess' = Some (stamp_site C x)"
    "0 < cfgMaxSessionSize (csConfig C) \<Longrightarrow>
      \<exists>bs. libMarshal (csLibs C) (stamp_site C x) = Inr bs \<and> int (length bs) \<le> cfgMaxSessionSize (csConfig C)"
    "0 < cfgMaxSessionsPerUser (csConfig C) \<Longrightarrow>
      int (card (live_owned C now x (ctStore c'))) \<le> cfgMaxSessionsPerUser (csConfig C)"
    "holds (ctStore c) i = Some y \<Longrightarrow> \<not> IsExpired now y \<Longrightarrow> \<not> same_owner C x y \<Longrightarrow> i \<noteq> sID x \<Longrightarrow>
      holds (ctStore c') i = Some y"
    "holds (ctStore c) i = Some y \<Longrightarrow> \<not> IsExpired now y \<Longrightarrow> holds (ctStore c') i = None \<Longrightarrow>
      holds (ctStore c') j = Some z \<Longrightarrow> j \<noteq> sID x \<Longrightarrow> same_owner C x z \<Longrightarrow> \<not> IsExpired now z \<Longrightarrow>
      sCreatedAt y \<le> sCreatedAt z"
proof -
  let ?x = "stamp_site C x"
  obtain c3 where c3: "ctStore c3 = ctStore c" "sess' = Some ?x"
    "0 < cfgMaxSessionSize (csConfig C) \<Longrightarrow>
      \<exists>bs. libMarshal (csLibs C) ?x = Inr bs \<and> int (length bs) \<le> cfgMaxSessionSize (csConfig C)"
    "on_store (ssCreate S now (Some ?x)) (enforceSessionLimit C now ?x c3) = (None, c')"
    by (rule cs_Create_shape [OF assms(6,2)]) auto
  let ?e = "enforceSessionLimit C now ?x c3"
  have "ok (ctStore c3)" using c3(1) assms(1) by simp
  note fr = enforce_frame [OF this assms(2,3), where now = now and x = ?x]
  have "case holds (ctStore ?e) (sID ?x) of None \<Rightarrow> True | Some y \<Rightarrow> sUserID y = sUserID ?x"
    using assms(5) fr(2) c3(1) by (auto simp: user_kept_def split: option.splits)
  then obtain s where s: "ssCreate S now (Some ?x) (ctStore ?e) = (None, s)" "ok s"
    "holds s = (holds (ctStore ?e))(sID x := Some ?x)"
    using create_law [OF fr(1), of ?x now] assms(4) by auto
  with c3(4) have c': "ctStore c' = s" by (auto simp: on_store_def)
  show "ok (ctStore c')" "holds (ctStore c') (sID x) = Some ?x" using s c' by simp_all
  show "sess' = Some ?x" by (rule c3(2))
  show "0 < cfgMaxSessionSize (csConfig C) \<Longrightarrow>
      \<exists>bs. libMarshal (csLibs C) ?x = Inr bs \<and> int (length bs) \<le> cfgMaxSessionSize (csConfig C)"
    by (rule c3(3))
  show "holds (ctStore c) i = Some y \<Longrightarrow> \<not> IsExpired now y \<Longrightarrow> \<not> same_owner C x y \<Longrightarrow> i \<noteq> sID x \<Longrightarrow>
      holds (ctStore c') i = Some y"
    using fr(3) c3(1) s c' by simp
  show "holds (ctStore c) i = Some y \<Longrightarrow> \<not> IsExpired now y \<Longrightarrow> holds (ctStore c') i = None \<Longrightarrow>
      holds (ctStore c') j = Some z \<Longrightarrow> j \<noteq> sID x \<Longrightarrow> same_owner C x z \<Longrightarrow> \<not> IsExpired now z \<Longrightarrow>
      sCreatedAt y \<le> sCreatedAt z"
    using fr(4) [of i y j z] c3(1) s c' by (simp split: if_splits)
  show "int (card (live_owned C now x (ctStore c'))) \<le> cfgMaxSessionsPerUser (csConfig C)"
    if m: "0 < cfgMaxSessionsPerUser (csConfig C)"
  proof -
    have "live_owned C now x (ctStore c') \<subseteq> insert (sID x) (live_owned C now ?x (ctStore ?e))"
      using s c' by (auto simp: live_owned_def)
    moreover have fin: "finite (live_owned C now ?x (ctStore ?e))"
      and lt: "int (card (live_owned C now ?x (ctStore ?e))) < cfgMaxSessionsPerUser (csConfig C)"
      using enforce_room [OF \<open>ok (ctStore c3)\<close> assms(2,3) m, of now ?x] by simp_all
    ultimately have "card (live_owned C now x (ctStore c')) \<le>
        card (insert (sID x) (live_owned C now ?x (ctStore ?e)))"
      by (intro card_mono) simp_all
    also have "\<dots> \<le> Suc (card (live_owned C now ?x (ctStore ?e)))"
      using fin by (simp add: card_insert_if)
    finally show ?thesis using lt by linarith
  qed
qed

text \<open>
  Site isolation: no method of the wrapper changes or removes a live session of another site
  (for \<open>Create\<close> and \<open>Update\<close> see above and below: they write under the identifier they are given).
\<close>

definition foreign_kept :: "'s ControlledStore \<Rightarrow> time \<Rightarrow> 's \<Rightarrow> 's \<Rightarrow> bool" where
  "foreign_kept C now s s' \<longleftrightarrow>
     (\<forall>i y. holds s i = Some y \<longrightarrow> \<not> IsExpired now y \<longrightarrow> sSiteID y \<noteq> cfgSiteID (csConfig C) \<longrightarrow>
        holds s' i = Some y)"

lemma foreign_kept_gone: "expired_gone now (holds s) (holds s') \<Longrightarrow> foreign_kept C now s s'"
  using expired_gone_live unfolding foreign_kept_def by blast

lemma foreign_kept_trans:
  "foreign_kept C now s s' \<Longrightarrow> foreign_kept C now s' s'' \<Longrightarrow> foreign_kept C now s s''"
  unfolding foreign_kept_def by blast

lemma foreign_kept_own:
  "holds s i = Some x \<Longrightarrow> sSiteID x = cfgSiteID (csConfig C) \<Longrightarrow>
   \<forall>j. j \<noteq> i \<longrightarrow> holds s' j = holds s j \<Longrightarrow> foreign_kept C now s s'"
  unfolding foreign_kept_def by (metis option.inject)

text \<open>What a passed ownership check says.\<close>

lemma verifyOwnership_own:
  assumes "ok (ctStore c)" "csStore C = S" "cfgSiteID (csConfig C) \<noteq> []"
    "verifyOwnership C now i c = (None, c')"
  shows "\<exists>x. holds (ctStore c') i = Some x \<and> sSiteID x = cfgSiteID (csConfig C)"
  using verifyOwnership_correct [OF assms(1,2,4)] assms(3) expired_gone_live
  by (fastforce split: option.splits if_splits)

lemma cs_Delete_foreign:
  assumes "ok (ctStore c)" "csStore C = S" "cfgSiteID (csConfig C) \<noteq> []"
  shows "foreign_kept C now (ctStore c) (ctStore (snd (cs_Delete C now i c)))"
proof -
  obtain e c1 where v: "verifyOwnership C now i c = (e, c1)" by fastforce
  note vc = verifyOwnership_correct [OF assms(1,2) v]
  have k: "foreign_kept C now (ctStore c) (ctStore c1)" using foreign_kept_gone vc by blast
  show ?thesis
  proof (cases e)
    case None
    obtain x where x: "holds (ctStore c1) i = Some x" "sSiteID x = cfgSiteID (csConfig C)"
      using verifyOwnership_own [OF assms] v None by blast
    obtain c2 where "on_store (ssDelete (csStore C) now i) c1 = (None, c2)"
      "holds (ctStore c2) = (holds (ctStore c1))(i := None)"
      using on_store_delete [of c1 C now i] vc assms(2) by blast
    with v None foreign_kept_own [OF x, of "ctStore c2" now] k show ?thesis
      by (simp add: cs_Delete_def) (meson foreign_kept_trans)
  qed (use k v in \<open>simp add: cs_Delete_def\<close>)
qed

lemma cs_Touch_foreign:
  assumes "ok (ctStore c)" "csStore C = S" "cfgSiteID (csConfig C) \<noteq> []"
  shows "foreign_kept C now (ctStore c) (ctStore (snd (cs_Touch C now i c)))"
proof -
  obtain e c1 where v: "verifyOwnership C now i c = (e, c1)" by fastforce
  note vc = verifyOwnership_correct [OF assms(1,2) v]
  have k: "foreign_kept C now (ctStore c) (ctStore c1)" using foreign_kept_gone vc by blast
  show ?thesis
  proof (cases e)
    case None
    obtain x where x: "holds (ctStore c1) i = Some x" "sSiteID x = cfgSiteID (csConfig C)"
      using verifyOwnership_own [OF assms] v None by blast
    obtain e' s where t: "ssTouch S now i (ctStore c1) = (e', s)" by fastforce
    then have "\<forall>j. j \<noteq> i \<longrightarrow> holds s j = holds (ctStore c1) j" using touch_law vc by blast
    with v None t foreign_kept_own [OF x] k assms(2) show ?thesis
      by (simp add: cs_Touch_def on_store_def) (meson foreign_kept_trans)
  qed (use k v in \<open>simp add: cs_Touch_def\<close>)
qed

lemma cs_DeleteByUserID_correct:
  assumes "ok (ctStore c)" "csStore C = S" "cfgSiteID (csConfig C) \<noteq> []"
  shows "\<exists>n c'. cs_DeleteByUserID C now u c = ((n, None), c') \<and> ok (ctStore c') \<and>
    foreign_kept C now (ctStore c) (ctStore c') \<and>
    (\<forall>i y. holds (ctStore c) i = Some y \<longrightarrow> us (sUserID y) \<noteq> u \<longrightarrow> \<not> IsExpired now y \<longrightarrow>
      holds (ctStore c') i = Some y) \<and>
    (\<forall>i y. holds (ctStore c') i = Some y \<longrightarrow> us (sUserID y) = u \<longrightarrow> \<not> IsExpired now y \<longrightarrow>
      sSiteID y \<noteq> cfgSiteID (csConfig C))"
proof -
  obtain list xs s where l: "ssList S = Some list" "list now u (ctStore c) = (Inr xs, s)" "ok s"
    "expired_gone now (holds (ctStore c)) (holds s)"
    "\<forall>x \<in> set xs. holds s (sID x) = Some x \<and> us (sUserID x) = u"
    "\<forall>i x. holds (ctStore c) i = Some x \<longrightarrow> us (sUserID x) = u \<longrightarrow> \<not> IsExpired now x \<longrightarrow> x \<in> set xs"
    using list_law [OF assms(1), of now u] by blast
  let ?c1 = "c\<lparr>ctStore := s\<rparr>"
  let ?own = "set (own_sessions C xs)"
  obtain c' where c': "delete_user_loop C now u xs 0 ?c1 = ((length (own_sessions C xs), None), c')"
    "ok (ctStore c')" "holds (ctStore c') = (\<lambda>i. if i \<in> sID ` ?own then None else holds s i)"
    using delete_user_loop_correct [of ?c1 C now u xs 0] l(3) assms(2) by (auto cong: if_cong)
  have own: "y \<in> ?own \<longleftrightarrow> y \<in> set xs \<and> sSiteID y = cfgSiteID (csConfig C)" for y
    by (simp add: own_sessions_def)
  have kept: "holds (ctStore c') i = Some y"
    if "holds (ctStore c) i = Some y" "\<not> IsExpired now y" "y \<notin> ?own" for i y
  proof -
    have "holds s i = Some y" using expired_gone_live [OF l(4)] that by blast
    moreover have "i \<notin> sID ` ?own" using l(5) own that(3) calculation by fastforce
    ultimately show ?thesis by (simp add: c'(3))
  qed
  have "sSiteID y \<noteq> cfgSiteID (csConfig C)"
    if "holds (ctStore c') i = Some y" "us (sUserID y) = u" "\<not> IsExpired now y" for i y
  proof -
    have "holds s i = Some y" "i \<notin> sID ` ?own" using that by (auto simp: c'(3) split: if_splits)
    moreover from this have "holds (ctStore c) i = Some y" using expired_gone_Some [OF l(4)] by blast
    ultimately show ?thesis using l(6) that own id_law [OF assms(1)] by blast
  qed
  moreover have "cs_DeleteByUserID C now u c = ((length (own_sessions C xs), None), c')"
    using c'(1) l(1,2) assms(2,3) by (simp add: cs_DeleteByUserID_def on_store_def)
  moreover have "foreign_kept C now (ctStore c) (ctStore c')"
    unfolding foreign_kept_def using kept own by blast
  moreover have "\<forall>i y. holds (ctStore c) i = Some y \<longrightarrow> us (sUserID y) \<noteq> u \<longrightarrow> \<not> IsExpired now y \<longrightarrow>
      holds (ctStore c') i = Some y"
    using kept own l(5) by blast
  ultimately show ?thesis using c'(2) by blast
qed

lemma cs_Update_correct:
  assumes "ok (ctStore c)" "csStore C = S" "cfgSiteID (csConfig C) \<noteq> []" "ValidSessionID (sID x)"
    "user_kept x (ctStore c)" "cs_Update C now (Some x) c = (e, x', c')"
  shows "foreign_kept C now (ctStore c) (ctStore c')"
    and "e = None \<Longrightarrow> holds (ctStore c') (sID x) = Some ((stamp_site C x)\<lparr>sUpdatedAt := now\<rparr>)"
proof -
  let ?x = "stamp_site C x"
  obtain e1 c1 where v: "verifyOwnership C now (sID x) c = (e1, c1)" by fastforce
  note vc = verifyOwnership_correct [OF assms(1,2) v]
  have k: "foreign_kept C now (ctStore c) (ctStore c1)" using foreign_kept_gone vc by blast
  have "foreign_kept C now (ctStore c) (ctStore c') \<and>
    (e = None \<longrightarrow> holds (ctStore c') (sID x) = Some (?x\<lparr>sUpdatedAt := now\<rparr>))"
  proof (cases "fst (validateSession C (Some x) c) = None \<and> e1 = None \<and>
      fst (validateSerializable C ?x c1) = None \<and>
      fst (checkSizeLimit C ?x (snd (validateSerializable C ?x c1))) = None")
    case True
    obtain y where y: "holds (ctStore c1) (sID x) = Some y" "sSiteID y = cfgSiteID (csConfig C)"
      using verifyOwnership_own [OF assms(1-3)] v True by blast
    have "holds (ctStore c) (sID x) = Some y" using expired_gone_Some y(1) vc by blast
    then have "sUserID y = sUserID x" using assms(5) by (simp add: user_kept_def)
    then obtain s where s: "ssUpdate S now (Some ?x) (ctStore c1) = (None, Some (?x\<lparr>sUpdatedAt := now\<rparr>), s)"
      "holds s = (holds (ctStore c1))(sID x := Some (?x\<lparr>sUpdatedAt := now\<rparr>))"
      using update_law [of "ctStore c1" ?x now] vc assms(4) y(1) by auto
    have "fst (validateSession C (Some x) c) = None" using True by blast
    then have "validateSession C (Some x) c = (None, c)"
      using validateSession_None [of C "Some x" c "snd (validateSession C (Some x) c)"]
      by (metis prod.collapse)
    then have "e = None \<and> ctStore c' = s"
      using assms(2,6) v True s(1)
      by (cases "validateSerializable C ?x c1"; cases "checkSizeLimit C ?x (snd (validateSerializable C ?x c1))")
        (auto simp: cs_Update_def Let_def ctStore_checks(2,3))
    then show ?thesis
      using s(2) foreign_kept_own [OF y, of s now] k foreign_kept_trans by simp
  next
    case False
    have "e \<noteq> None \<and> (ctStore c' = ctStore c \<or> ctStore c' = ctStore c1)"
      using False assms(6) v
      by (cases "validateSession C (Some x) c"; cases "validateSerializable C ?x c1";
          cases "checkSizeLimit C ?x (snd (validateSerializable C ?x c1))")
        (auto simp: cs_Update_def Let_def ctStore_checks validateSession_None split: option.splits)
    then show ?thesis using k foreign_kept_gone by auto
  qed
  then show "foreign_kept C now (ctStore c) (ctStore c')"
    "e = None \<Longrightarrow> holds (ctStore c') (sID x) = Some (?x\<lparr>sUpdatedAt := now\<rparr>)" by auto
qed

end

end
