(* ===== verification/SessionMemory.thy ===== *)
theory SessionMemory
  imports SessionStore
begin

section \<open>The in-memory session store (\<open>session/backend/memory/memory.go\<close>)\<close>

text \<open>
  The store is the map of sessions by identifier, the index of session identifiers by user
  (a map of sets, each a map to the unit value), the configuration and a closed flag; \<open>Close\<close>
  sets both maps to nil, which read as empty. The context of a call answers its one poll with
  \<open>cerr\<close>; \<open>us\<close> is \<open>uuid.UUID.String\<close>. Sessions are stored and returned as copies, except that
  \<open>Touch\<close> writes to the stored one.
\<close>

record sess_mem =
  smSessions :: "(string, Session) gomap"
  smUserIndex :: "(string, (string, unit) gomap) gomap"
  smConfig :: SessionConfig
  smClosed :: bool

definition sm_New :: "SessionConfig \<Rightarrow> sess_mem" where
  "sm_New cfg = \<lparr>smSessions = gm_empty, smUserIndex = gm_empty, smConfig = cfg, smClosed = False\<rparr>"

text \<open>\<open>sess == nil || sess.ID == ""\<close>\<close>

definition sm_invalid :: "Session option \<Rightarrow> bool" where
  "sm_invalid sess = (case sess of None \<Rightarrow> True | Some x \<Rightarrow> sID x = [])"

definition sm_Create ::
  "(uuid \<Rightarrow> string) \<Rightarrow> session_error option \<Rightarrow> Session option \<Rightarrow> sess_mem \<Rightarrow> session_error option \<times> sess_mem" where
  "sm_Create us cerr sess s =
     (case cerr of
        Some e \<Rightarrow> (Some e, s)
      | None \<Rightarrow>
          if sm_invalid sess then (Some SessInvalid, s)
          else if smClosed s then (Some SessClosed, s)
          else let x = the sess;
                   userID = us (sUserID x);
                   ids = (case gm_get (smUserIndex s) userID of None \<Rightarrow> gm_empty | Some ids \<Rightarrow> ids)
               in (None, s\<lparr>smSessions := gm_put (sID x) x (smSessions s),
                           smUserIndex := gm_put userID (gm_put (sID x) () ids) (smUserIndex s)\<rparr>))"

definition deleteSessionLocked :: "(uuid \<Rightarrow> string) \<Rightarrow> string \<Rightarrow> sess_mem \<Rightarrow> sess_mem" where
  "deleteSessionLocked us i s =
     (case gm_get (smSessions s) i of
        None \<Rightarrow> s
      | Some sess \<Rightarrow>
          let userID = us (sUserID sess);
              idx = (case gm_get (smUserIndex s) userID of
                       None \<Rightarrow> smUserIndex s
                     | Some ids \<Rightarrow>
                         let ids' = gm_del i ids
                         in if gm_len ids' = 0 then gm_del userID (smUserIndex s)
                            else gm_put userID ids' (smUserIndex s))
          in s\<lparr>smUserIndex := idx, smSessions := gm_del i (smSessions s)\<rparr>)"

definition sm_Get ::
  "(uuid \<Rightarrow> string) \<Rightarrow> session_error option \<Rightarrow> time \<Rightarrow> string \<Rightarrow> sess_mem \<Rightarrow>
   (session_error + Session) \<times> sess_mem" where
  "sm_Get us cerr now i s =
     (case cerr of
        Some e \<Rightarrow> (Inl e, s)
      | None \<Rightarrow>
          (case gm_get (smSessions s) i of
             None \<Rightarrow> (Inl SessNotFound, s)
           | Some sess \<Rightarrow>
               if smClosed s then (Inl SessClosed, s)
               else if IsExpired now sess then (Inl SessExpired, deleteSessionLocked us i s)
               else (Inr sess, s)))"

definition sm_Update ::
  "session_error option \<Rightarrow> time \<Rightarrow> Session option \<Rightarrow> sess_mem \<Rightarrow>
   session_error option \<times> Session option \<times> sess_mem" where
  "sm_Update cerr now sess s =
     (case cerr of
        Some e \<Rightarrow> (Some e, sess, s)
      | None \<Rightarrow>
          if sm_invalid sess then (Some SessInvalid, sess, s)
          else if smClosed s then (Some SessClosed, sess, s)
          else (case gm_get (smSessions s) (sID (the sess)) of
                  None \<Rightarrow> (Some SessNotFound, sess, s)
                | Some _ \<Rightarrow>
                    let x = (the sess)\<lparr>sUpdatedAt := now\<rparr>
                    in (None, Some x, s\<lparr>smSessions := gm_put (sID x) x (smSessions s)\<rparr>)))"

definition sm_Delete ::
  "(uuid \<Rightarrow> string) \<Rightarrow> session_error option \<Rightarrow> string \<Rightarrow> sess_mem \<Rightarrow> session_error option \<times> sess_mem" where
  "sm_Delete us cerr i s =
     (case cerr of
        Some e \<Rightarrow> (Some e, s)
      | None \<Rightarrow> if smClosed s then (Some SessClosed, s) else (None, deleteSessionLocked us i s))"

definition sm_DeleteByUserID ::
  "session_error option \<Rightarrow> string \<Rightarrow> sess_mem \<Rightarrow> (nat \<times> session_error option) \<times> sess_mem" where
  "sm_DeleteByUserID cerr userID s =
     (case cerr of
        Some e \<Rightarrow> ((0, Some e), s)
      | None \<Rightarrow>
          if smClosed s then ((0, Some SessClosed), s)
          else (case gm_get (smUserIndex s) userID of
                  None \<Rightarrow> ((0, None), s)
                | Some ids \<Rightarrow>
                    ((gm_len ids, None),
                     s\<lparr>smSessions := gm_del_all (gm_keys ids) (smSessions s),
                       smUserIndex := gm_del userID (smUserIndex s)\<rparr>)))"

definition sm_Touch ::
  "session_error option \<Rightarrow> time \<Rightarrow> string \<Rightarrow> sess_mem \<Rightarrow> session_error option \<times> sess_mem" where
  "sm_Touch cerr now i s =
     (case cerr of
        Some e \<Rightarrow> (Some e, s)
      | None \<Rightarrow>
          if smClosed s then (Some SessClosed, s)
          else (case gm_get (smSessions s) i of
                  None \<Rightarrow> (Some SessNotFound, s)
                | Some sess \<Rightarrow>
                    (None, s\<lparr>smSessions := gm_put i (sess\<lparr>sLastAccessedAt := now\<rparr>) (smSessions s)\<rparr>)))"

definition sm_Close :: "sess_mem \<Rightarrow> session_error option \<times> sess_mem" where
  "sm_Close s =
     (if smClosed s then (None, s)
      else (None, s\<lparr>smClosed := True, smSessions := gm_empty, smUserIndex := gm_empty\<rparr>))"

text \<open>\<open>removeExpired\<close>, which the cleanup goroutine runs at every tick.\<close>

fun sm_expire_loop :: "(uuid \<Rightarrow> string) \<Rightarrow> time \<Rightarrow> (string \<times> Session) list \<Rightarrow> sess_mem \<Rightarrow> sess_mem" where
  "sm_expire_loop us now [] s = s"
| "sm_expire_loop us now ((i, sess) # es) s =
     sm_expire_loop us now es
       (if \<not> is_zero_time (sExpiresAt sess) \<and> now > sExpiresAt sess
        then deleteSessionLocked us i s else s)"

definition sm_removeExpired :: "(uuid \<Rightarrow> string) \<Rightarrow> time \<Rightarrow> sess_mem \<Rightarrow> sess_mem" where
  "sm_removeExpired us now s =
     (if smClosed s then s else sm_expire_loop us now (gm_entries (smSessions s)) s)"

definition sm_Len :: "sess_mem \<Rightarrow> nat" where
  "sm_Len s = gm_len (smSessions s)"

text \<open>The loop of \<open>ListByUserID\<close> that collects the sessions.\<close>

definition sm_collect :: "string list \<Rightarrow> sess_mem \<Rightarrow> Session list" where
  "sm_collect ids s = concat (map (\<lambda>i. case gm_get (smSessions s) i of None \<Rightarrow> [] | Some x \<Rightarrow> [x]) ids)"

definition sm_ListByUserID ::
  "(string list \<Rightarrow> string list) \<Rightarrow> session_error option \<Rightarrow> string \<Rightarrow> sess_mem \<Rightarrow> session_error + Session list" where
  "sm_ListByUserID ord cerr userID s =
     (case cerr of
        Some e \<Rightarrow> Inl e
      | None \<Rightarrow>
          if smClosed s then Inl SessClosed
          else (case gm_get (smUserIndex s) userID of
                  None \<Rightarrow> Inr []
                | Some ids \<Rightarrow> Inr (sort_sessions (sm_collect (ord (gm_keys ids)) s))))"

text \<open>The store as a value of the interface, called with a live context.\<close>

definition sm_store ::
  "(uuid \<Rightarrow> string) \<Rightarrow> (string list \<Rightarrow> string list) \<Rightarrow> sess_mem SessionStore" where
  "sm_store us ord =
     \<lparr>ssCreate = (\<lambda>now. sm_Create us None),
      ssGet = sm_Get us None,
      ssUpdate = sm_Update None,
      ssDelete = (\<lambda>now. sm_Delete us None),
      ssDeleteByUserID = (\<lambda>now. sm_DeleteByUserID None),
      ssTouch = sm_Touch None,
      ssClose = sm_Close,
      ssList = Some (\<lambda>now u s. (sm_ListByUserID ord None u s, s))\<rparr>"

lemmas sm_ops [model_defs] = sm_Create_def sm_Get_def sm_Update_def sm_Delete_def
  sm_DeleteByUserID_def sm_Touch_def sm_Close_def sm_removeExpired_def sm_ListByUserID_def

subsection \<open>The invariant: the index and the sessions agree\<close>

text \<open>
  Every session is stored under its own identifier and is in the index of its user, every
  identifier in the index of a user is a session of that user, and no index entry is empty.
\<close>

definition sm_indexed :: "sess_mem \<Rightarrow> string \<Rightarrow> string \<Rightarrow> bool" where
  "sm_indexed s u i \<longleftrightarrow>
     (case gm_get (smUserIndex s) u of None \<Rightarrow> False | Some ids \<Rightarrow> gm_get ids i \<noteq> None)"

definition sm_inv :: "(uuid \<Rightarrow> string) \<Rightarrow> sess_mem \<Rightarrow> bool" where
  "sm_inv us s \<longleftrightarrow>
     (\<forall>i x. gm_get (smSessions s) i = Some x \<longrightarrow> sID x = i) \<and>
     (\<forall>u i. sm_indexed s u i \<longleftrightarrow> (\<exists>x. gm_get (smSessions s) i = Some x \<and> us (sUserID x) = u)) \<and>
     (\<forall>u ids. gm_get (smUserIndex s) u = Some ids \<longrightarrow> gm_len ids \<noteq> 0)"

lemma sm_invD:
  assumes "sm_inv us s"
  shows "gm_get (smSessions s) i = Some x \<Longrightarrow> sID x = i"
    and "sm_indexed s u i \<longleftrightarrow> (\<exists>x. gm_get (smSessions s) i = Some x \<and> us (sUserID x) = u)"
    and "gm_get (smUserIndex s) u = Some ids \<Longrightarrow> gm_len ids \<noteq> 0"
  using assms by (auto simp: sm_inv_def)

lemma gm_len_0_iff: "gm_len m = 0 \<longleftrightarrow> (\<forall>k. gm_get m k = None)"
  by (simp add: gm_len_keys card_eq_0_iff fun_eq_iff)

lemma sm_inv_New [simp]: "sm_inv us (sm_New cfg)"
  by (simp add: sm_inv_def sm_New_def sm_indexed_def)

text \<open>What the index says after each of the three ways the code changes it.\<close>

lemma sm_indexed_add:
  "sm_indexed (s\<lparr>smSessions := m,
     smUserIndex := gm_put u (gm_put i () (case gm_get (smUserIndex s) u of None \<Rightarrow> gm_empty | Some ids \<Rightarrow> ids))
       (smUserIndex s)\<rparr>) u' i' \<longleftrightarrow> (u = u' \<and> i = i') \<or> sm_indexed s u' i'"
  by (auto simp: sm_indexed_def gomap_simps split: option.splits)

lemma sm_sessions_delete:
  "gm_get (smSessions (deleteSessionLocked us i s)) j = (if j = i then None else gm_get (smSessions s) j)"
  by (auto simp: deleteSessionLocked_def Let_def gomap_simps split: option.splits)

lemma sm_indexed_delete:
  assumes "gm_get (smSessions s) i = Some x"
  shows "sm_indexed (deleteSessionLocked us i s) u j \<longleftrightarrow>
    sm_indexed s u j \<and> \<not> (u = us (sUserID x) \<and> j = i)"
  using assms
  by (auto simp: deleteSessionLocked_def Let_def sm_indexed_def gomap_simps gm_len_0_iff
      split: option.splits if_splits)

lemma sm_index_nonempty_delete:
  assumes "\<forall>u ids. gm_get (smUserIndex s) u = Some ids \<longrightarrow> gm_len ids \<noteq> 0"
    "gm_get (smUserIndex (deleteSessionLocked us i s)) u = Some ids"
  shows "gm_len ids \<noteq> 0"
  using assms
  by (auto simp: deleteSessionLocked_def Let_def gomap_simps split: option.splits if_splits)

lemma sm_closed_delete [simp]: "smClosed (deleteSessionLocked us i s) = smClosed s"
  by (auto simp: deleteSessionLocked_def Let_def split: option.splits)

lemma sm_inv_delete:
  assumes "sm_inv us s"
  shows "sm_inv us (deleteSessionLocked us i s)"
proof (cases "gm_get (smSessions s) i")
  case None
  then show ?thesis using assms by (simp add: deleteSessionLocked_def)
next
  case (Some x)
  have "sm_indexed (deleteSessionLocked us i s) u j \<longleftrightarrow>
      (\<exists>x. gm_get (smSessions (deleteSessionLocked us i s)) j = Some x \<and> us (sUserID x) = u)" for u j
    using Some by (auto simp: sm_indexed_delete [OF Some] sm_sessions_delete sm_invD(2) [OF assms])
  then show ?thesis
    using assms sm_index_nonempty_delete [of s us i] unfolding sm_inv_def
    by (auto simp: sm_sessions_delete)
qed

text \<open>
  Storing a session keeps the invariant when the identifier is new or keeps its user; the store
  does not check that.
\<close>

definition sm_user_stable :: "(uuid \<Rightarrow> string) \<Rightarrow> Session \<Rightarrow> sess_mem \<Rightarrow> bool" where
  "sm_user_stable us x s \<longleftrightarrow>
     (case gm_get (smSessions s) (sID x) of None \<Rightarrow> True | Some y \<Rightarrow> us (sUserID y) = us (sUserID x))"

lemma sm_inv_Create:
  assumes "sm_inv us s" "sm_user_stable us x s"
  shows "sm_inv us (snd (sm_Create us cerr (Some x) s))"
proof (cases "cerr = None \<and> sID x \<noteq> [] \<and> \<not> smClosed s")
  case True
  let ?idx = "gm_put (us (sUserID x))
    (gm_put (sID x) () (case gm_get (smUserIndex s) (us (sUserID x)) of None \<Rightarrow> gm_empty | Some ids \<Rightarrow> ids))
    (smUserIndex s)"
  let ?s = "s\<lparr>smSessions := gm_put (sID x) x (smSessions s), smUserIndex := ?idx\<rparr>"
  have "sm_indexed ?s u j \<longleftrightarrow> (\<exists>y. gm_get (smSessions ?s) j = Some y \<and> us (sUserID y) = u)" for u j
    unfolding sm_indexed_add sm_invD(2) [OF assms(1)]
    using assms(2) by (auto simp: gomap_simps sm_user_stable_def split: option.splits)
  moreover have "gm_len ids \<noteq> 0" if "gm_get ?idx u = Some ids" for u ids
    using that sm_invD(3) [OF assms(1)] by (auto simp: gomap_simps gm_len_0_iff split: if_splits option.splits)
  ultimately have "sm_inv us ?s" using sm_invD(1) [OF assms(1)] by (simp add: sm_inv_def gomap_simps)
  with True show ?thesis by (simp add: sm_Create_def sm_invalid_def Let_def)
qed (auto simp: sm_Create_def sm_invalid_def Let_def assms(1) split: option.splits)

lemma sm_indexed_update [simp]:
  "sm_indexed (s\<lparr>smSessions := m\<rparr>) u i = sm_indexed s u i"
  by (simp add: sm_indexed_def)

lemma sm_inv_put:
  assumes "sm_inv us s" "gm_get (smSessions s) i = Some y" "sID x = i" "us (sUserID y) = us (sUserID x)"
  shows "sm_inv us (s\<lparr>smSessions := gm_put i x (smSessions s)\<rparr>)"
  using assms(2-) sm_invD [OF assms(1)] by (auto simp: sm_inv_def gomap_simps)

lemma sm_inv_Update:
  assumes "sm_inv us s" "sm_user_stable us x s"
  shows "sm_inv us (snd (snd (sm_Update cerr now (Some x) s)))"
  using assms sm_inv_put [OF assms(1), of "sID x" _ "x\<lparr>sUpdatedAt := now\<rparr>"]
  by (auto simp: sm_Update_def Let_def sm_user_stable_def split: option.splits)

lemma sm_inv_Touch: "sm_inv us s \<Longrightarrow> sm_inv us (snd (sm_Touch cerr now i s))"
  using sm_inv_put sm_invD(1) by (fastforce simp: sm_Touch_def split: option.splits)

lemma sm_inv_Get: "sm_inv us s \<Longrightarrow> sm_inv us (snd (sm_Get us cerr now i s))"
  by (auto simp: sm_Get_def sm_inv_delete split: option.splits)

lemma sm_inv_Delete: "sm_inv us s \<Longrightarrow> sm_inv us (snd (sm_Delete us cerr i s))"
  by (auto simp: sm_Delete_def sm_inv_delete split: option.splits)

lemma sm_inv_Close: "sm_inv us s \<Longrightarrow> sm_inv us (snd (sm_Close s))"
  by (auto simp: sm_Close_def sm_inv_def sm_indexed_def)

lemma sm_inv_expire_loop: "sm_inv us s \<Longrightarrow> sm_inv us (sm_expire_loop us now es s)"
  by (induction us now es s rule: sm_expire_loop.induct) (simp_all add: sm_inv_delete)

lemma sm_inv_removeExpired: "sm_inv us s \<Longrightarrow> sm_inv us (sm_removeExpired us now s)"
  by (simp add: sm_removeExpired_def sm_inv_expire_loop)

lemma sm_indexed_keys:
  "gm_get (smUserIndex s) u = Some ids \<Longrightarrow> i \<in> set (gm_keys ids) \<longleftrightarrow> sm_indexed s u i"
  by (simp add: sm_indexed_def gm_keys_iff)

lemma sm_inv_DeleteByUserID:
  assumes "sm_inv us s"
  shows "sm_inv us (snd (sm_DeleteByUserID cerr u s))"
proof (cases "cerr = None \<and> \<not> smClosed s \<and> gm_get (smUserIndex s) u \<noteq> None")
  case True
  then obtain ids where ids: "gm_get (smUserIndex s) u = Some ids" by auto
  let ?s = "s\<lparr>smSessions := gm_del_all (gm_keys ids) (smSessions s), smUserIndex := gm_del u (smUserIndex s)\<rparr>"
  have "sm_indexed ?s v j \<longleftrightarrow> v \<noteq> u \<and> sm_indexed s v j" for v j
    by (simp add: sm_indexed_def gomap_simps)
  then have "sm_indexed ?s v j \<longleftrightarrow> (\<exists>y. gm_get (smSessions ?s) j = Some y \<and> us (sUserID y) = v)" for v j
    by (auto simp: gomap_simps sm_indexed_keys [OF ids] sm_invD(2) [OF assms])
  then have "sm_inv us ?s" using sm_invD(1,3) [OF assms] by (simp add: sm_inv_def gomap_simps)
  with True ids show ?thesis by (simp add: sm_DeleteByUserID_def)
qed (auto simp: sm_DeleteByUserID_def assms split: option.splits)

text \<open>Deleting a user's sessions: all of them, no others, and their number is returned.\<close>

definition sm_user_ids :: "(uuid \<Rightarrow> string) \<Rightarrow> string \<Rightarrow> sess_mem \<Rightarrow> string set" where
  "sm_user_ids us u s = {i. \<exists>x. gm_get (smSessions s) i = Some x \<and> us (sUserID x) = u}"

lemma sm_user_ids_index:
  assumes "sm_inv us s"
  shows "sm_user_ids us u s =
    (case gm_get (smUserIndex s) u of None \<Rightarrow> {} | Some ids \<Rightarrow> set (gm_keys ids))"
proof -
  have "sm_user_ids us u s = {i. sm_indexed s u i}" by (simp add: sm_user_ids_def sm_invD(2) [OF assms])
  also have "\<dots> = (case gm_get (smUserIndex s) u of None \<Rightarrow> {} | Some ids \<Rightarrow> set (gm_keys ids))"
    by (auto simp: sm_indexed_def gm_keys_iff split: option.splits)
  finally show ?thesis .
qed

lemma sm_DeleteByUserID_sessions:
  assumes "sm_inv us s" "\<not> smClosed s"
  shows "fst (sm_DeleteByUserID None u s) = (card (sm_user_ids us u s), None)"
    and "gm_get (smSessions (snd (sm_DeleteByUserID None u s))) i =
      (if i \<in> sm_user_ids us u s then None else gm_get (smSessions s) i)"
proof -
  show "fst (sm_DeleteByUserID None u s) = (card (sm_user_ids us u s), None)"
    using assms(2)
    by (simp add: sm_DeleteByUserID_def sm_user_ids_index [OF assms(1)] gm_len_keys gm_keys_dom
        split: option.splits)
  show "gm_get (smSessions (snd (sm_DeleteByUserID None u s))) i =
      (if i \<in> sm_user_ids us u s then None else gm_get (smSessions s) i)"
    using assms(2)
    by (simp add: sm_DeleteByUserID_def sm_user_ids_index [OF assms(1)] gomap_simps split: option.splits)
qed

subsection \<open>Expiry\<close>

lemma sm_expire_loop_sessions:
  "gm_get (smSessions (sm_expire_loop us now es s)) i =
     (if \<exists>x. (i, x) \<in> set es \<and> IsExpired now x then None else gm_get (smSessions s) i)"
  by (induction us now es s rule: sm_expire_loop.induct) (auto simp: sm_sessions_delete IsExpired_def)

lemma sm_removeExpired_sessions:
  "\<not> smClosed s \<Longrightarrow>
   gm_get (smSessions (sm_removeExpired us now s)) i =
     (case gm_get (smSessions s) i of
        None \<Rightarrow> None | Some x \<Rightarrow> if IsExpired now x then None else Some x)"
  by (auto simp: sm_removeExpired_def sm_expire_loop_sessions gm_get_iff_entry [symmetric]
      split: option.splits)

subsection \<open>Listing\<close>

lemma sm_collect_set:
  "x \<in> set (sm_collect ids s) \<longleftrightarrow> (\<exists>i \<in> set ids. gm_get (smSessions s) i = Some x)"
  by (force simp: sm_collect_def split: option.splits)

lemma sm_collect_ids:
  "\<forall>i x. gm_get (smSessions s) i = Some x \<longrightarrow> sID x = i \<Longrightarrow>
   map sID (sm_collect ids s) = filter (\<lambda>i. gm_get (smSessions s) i \<noteq> None) ids"
  by (induction ids) (auto simp: sm_collect_def split: option.splits)

lemma sm_ListByUserID_ok:
  assumes "sm_inv us s" "\<not> smClosed s" "range_order ord"
  shows "\<exists>xs. sm_ListByUserID ord None u s = Inr xs \<and> distinct (map sID xs) \<and>
    sorted (map sCreatedAt xs) \<and>
    set xs = {x. gm_get (smSessions s) (sID x) = Some x \<and> us (sUserID x) = u}"
proof (cases "gm_get (smUserIndex s) u")
  case None
  then have "sm_user_ids us u s = {}" by (simp add: sm_user_ids_index [OF assms(1)])
  then show ?thesis using None assms(2) by (auto simp: sm_ListByUserID_def sm_user_ids_def)
next
  case (Some ids)
  let ?xs = "sm_collect (ord (gm_keys ids)) s"
  have ids: "set (gm_keys ids) = sm_user_ids us u s"
    using Some by (simp add: sm_user_ids_index [OF assms(1)])
  have "map sID ?xs = filter (\<lambda>i. gm_get (smSessions s) i \<noteq> None) (ord (gm_keys ids))"
    using sm_invD(1) [OF assms(1)] by (intro sm_collect_ids) blast
  then have "distinct (map sID ?xs)" using assms(3) by simp
  moreover have "mset (map sID (sort_sessions ?xs)) = mset (map sID ?xs)"
    by (simp only: mset_map mset_sort_sessions)
  ultimately have "distinct (map sID (sort_sessions ?xs))" by (metis mset_eq_imp_distinct_iff)
  moreover have "set ?xs = {x. gm_get (smSessions s) (sID x) = Some x \<and> us (sUserID x) = u}"
    using sm_invD(1) [OF assms(1)] assms(3) by (fastforce simp: sm_collect_set ids sm_user_ids_def)
  ultimately show ?thesis
    using Some assms(2) by (simp add: sm_ListByUserID_def sorted_sort_sessions)
qed

subsection \<open>The contract holds\<close>

definition sm_holds :: "sess_mem \<Rightarrow> string \<Rightarrow> Session option" where
  "sm_holds s i = gm_get (smSessions s) i"

definition sm_ok :: "(uuid \<Rightarrow> string) \<Rightarrow> sess_mem \<Rightarrow> bool" where
  "sm_ok us s \<longleftrightarrow> sm_inv us s \<and> \<not> smClosed s"

lemma sm_okD: "sm_ok us s \<Longrightarrow> sm_inv us s" "sm_ok us s \<Longrightarrow> \<not> smClosed s"
  by (simp_all add: sm_ok_def)

lemma ValidSessionID_Nil [simp]: "\<not> ValidSessionID []"
  by (simp add: ValidSessionID_def)

lemma sm_store_get:
  assumes "sm_ok us s" "ssGet (sm_store us ord) now i s = (r, s')"
  shows "sm_ok us s' \<and> expired_gone now (sm_holds s) (sm_holds s') \<and>
    r = (case sm_holds s i of None \<Rightarrow> Inl SessNotFound
          | Some x \<Rightarrow> if IsExpired now x then Inl SessExpired else Inr x)"
  using assms sm_inv_delete [of us s i]
  by (auto simp: sm_store_def sm_Get_def sm_ok_def sm_holds_def expired_gone_def sm_sessions_delete
      split: option.splits if_splits)

lemma sm_store_create:
  assumes "sm_ok us s" "ValidSessionID (sID x)"
    "case sm_holds s (sID x) of None \<Rightarrow> True | Some y \<Rightarrow> sUserID y = sUserID x"
  shows "\<exists>s'. ssCreate (sm_store us ord) now (Some x) s = (None, s') \<and> sm_ok us s' \<and>
    sm_holds s' = (sm_holds s)(sID x := Some x)"
proof -
  have "sm_user_stable us x s" "sID x \<noteq> []"
    using assms(2,3) by (auto simp: sm_user_stable_def sm_holds_def split: option.splits)
  then show ?thesis
    using sm_inv_Create [of us s x None] assms(1)
    by (auto simp: sm_store_def sm_Create_def sm_invalid_def Let_def sm_ok_def sm_holds_def gomap_simps)
qed

lemma sm_store_update:
  assumes "sm_ok us s" "ValidSessionID (sID x)"
    "case sm_holds s (sID x) of None \<Rightarrow> False | Some y \<Rightarrow> sUserID y = sUserID x"
  shows "\<exists>s'. ssUpdate (sm_store us ord) now (Some x) s = (None, Some (x\<lparr>sUpdatedAt := now\<rparr>), s') \<and>
    sm_ok us s' \<and> sm_holds s' = (sm_holds s)(sID x := Some (x\<lparr>sUpdatedAt := now\<rparr>))"
proof -
  obtain y where "gm_get (smSessions s) (sID x) = Some y" "sm_user_stable us x s" "sID x \<noteq> []"
    using assms(2,3) by (cases "sID x = []") (auto simp: sm_user_stable_def sm_holds_def split: option.splits)
  then show ?thesis
    using sm_inv_Update [of us s x None now] assms(1)
    by (auto simp: sm_store_def sm_Update_def sm_invalid_def Let_def sm_ok_def sm_holds_def gomap_simps)
qed

lemma sm_store_touch:
  assumes "sm_ok us s" "ssTouch (sm_store us ord) now i s = (e, s')"
  shows "sm_ok us s' \<and> (\<forall>j. j \<noteq> i \<longrightarrow> sm_holds s' j = sm_holds s j) \<and>
    (case sm_holds s' i of None \<Rightarrow> True
      | Some y \<Rightarrow> \<exists>x. sm_holds s i = Some x \<and> sSiteID y = sSiteID x \<and> sUserID y = sUserID x)"
  using assms sm_inv_Touch [of us s None now i]
  by (auto simp: sm_store_def sm_Touch_def sm_ok_def sm_holds_def gomap_simps split: option.splits)

interpretation sm: session_store "sm_store us id" sm_holds "sm_ok us" us for us
proof
  show "sID x = i" if "sm_ok us s" "sm_holds s i = Some x" for s i x
    using that sm_invD(1) [OF sm_okD(1) [OF that(1)]] by (simp add: sm_holds_def)
  show "\<exists>s'. ssDelete (sm_store us id) now i s = (None, s') \<and> sm_ok us s' \<and>
      sm_holds s' = (sm_holds s)(i := None)" if "sm_ok us s" for s now i
    using that sm_inv_delete [of us s i]
    by (auto simp: sm_store_def sm_Delete_def sm_ok_def sm_holds_def sm_sessions_delete)
  show "\<exists>list xs s'. ssList (sm_store us id) = Some list \<and> list now u s = (Inr xs, s') \<and> sm_ok us s' \<and>
        expired_gone now (sm_holds s) (sm_holds s') \<and> distinct (map sID xs) \<and>
        sorted (map sCreatedAt xs) \<and>
        (\<forall>x \<in> set xs. sm_holds s' (sID x) = Some x \<and> us (sUserID x) = u) \<and>
        (\<forall>i x. sm_holds s i = Some x \<longrightarrow> us (sUserID x) = u \<longrightarrow> \<not> IsExpired now x \<longrightarrow> x \<in> set xs)"
    if "sm_ok us s" for s now u
    using sm_ListByUserID_ok [OF sm_okD [OF that] range_order_id, of u] that sm_invD(1) [OF sm_okD(1) [OF that]]
    by (auto simp: sm_store_def sm_holds_def)
qed (fact sm_store_get sm_store_create sm_store_update sm_store_touch)+

subsection \<open>Properties\<close>


definition witness_store :: sess_mem where
  "witness_store = snd (sm_Create witness_us None (Some (witness_session ''a'' 1 5 100)) (sm_New DefaultConfig))"

lemma witness_store_ok: "sm_inv witness_us witness_store" "\<not> smClosed witness_store"
proof -
  show "sm_inv witness_us witness_store"
    unfolding witness_store_def by (rule sm_inv_Create [OF sm_inv_New]) (simp add: sm_user_stable_def sm_New_def)
  show "\<not> smClosed witness_store"
    by (simp add: witness_store_def sm_Create_def sm_invalid_def witness_session_def Let_def sm_New_def)
qed


text \<open>\<open>DeleteByUserID\<close> removes every session of the user and no other one, and returns their number.\<close>

theorem session_delete_user:
  assumes "sm_inv us s" "\<not> smClosed s"
  shows "fst (sm_DeleteByUserID None u s) =
      (card {i. \<exists>x. gm_get (smSessions s) i = Some x \<and> us (sUserID x) = u}, None) \<and>
    gm_get (smSessions (snd (sm_DeleteByUserID None u s))) i =
      (case gm_get (smSessions s) i of
         None \<Rightarrow> None | Some x \<Rightarrow> if us (sUserID x) = u then None else Some x)"
  using sm_DeleteByUserID_sessions [OF assms, of u]
  by (auto simp: sm_user_ids_def split: option.splits)

theorem session_delete_user_witness:
  "gm_get (smSessions (snd (sm_DeleteByUserID None ''u'' witness_store))) ''a'' = None"
proof -
  have "witness_us 1 = ''u''" by (simp add: witness_us_def)
  then show ?thesis using session_delete_user [OF witness_store_ok, of "''u''" "''a''"]
    by (simp add: witness_store_def sm_Create_def sm_invalid_def witness_session_def Let_def sm_New_def gomap_simps)
qed

text \<open>A read finds a stored session until it expires. Reading it after that reports the expiry and
  removes it, the cleanup removes exactly the expired sessions, and a read of a closed store
  reports a session that is not found (never the closed store: closing empties the map that is
  looked up first).\<close>

theorem session_read_and_expiry:
  "(\<not> smClosed s \<longrightarrow>
     fst (sm_Get us None now i s) =
       (case gm_get (smSessions s) i of
          None \<Rightarrow> Inl SessNotFound
        | Some x \<Rightarrow> if IsExpired now x then Inl SessExpired else Inr x) \<and>
     gm_get (smSessions (snd (sm_Get us None now i s))) j =
       (case gm_get (smSessions s) j of
          None \<Rightarrow> None | Some x \<Rightarrow> if j = i \<and> IsExpired now x then None else Some x) \<and>
     gm_get (smSessions (sm_removeExpired us now s)) j =
       (case gm_get (smSessions s) j of
          None \<Rightarrow> None | Some x \<Rightarrow> if IsExpired now x then None else Some x) \<and>
     fst (sm_Get us None now i (snd (sm_Close s))) = Inl SessNotFound)"
  using sm_removeExpired_sessions [of s us now j]
  by (auto simp: sm_Get_def sm_sessions_delete sm_Close_def split: option.splits)

theorem session_read_and_expiry_witness:
  "fst (sm_Get witness_us None 7 ''a'' witness_store) = Inr (witness_session ''a'' 1 5 100) \<and>
   fst (sm_Get witness_us None 101 ''a'' witness_store) = Inl SessExpired"
  using session_read_and_expiry [of witness_store witness_us 7 "''a''" "''a''"]
    session_read_and_expiry [of witness_store witness_us 101 "''a''" "''a''"]
  by (simp add: witness_store_def sm_Create_def sm_invalid_def witness_session_def Let_def sm_New_def gomap_simps
      IsExpired_def is_zero_time_def)

text \<open>\<open>ListByUserID\<close> returns all sessions of the user and no other, each once, oldest first, whatever
  order the index is ranged over.\<close>

theorem session_list_user:
  assumes "sm_inv us s" "\<not> smClosed s" "range_order ord"
  shows "\<exists>xs. sm_ListByUserID ord None u s = Inr xs \<and> distinct (map sID xs) \<and> sorted (map sCreatedAt xs) \<and>
    (\<forall>x. x \<in> set xs \<longleftrightarrow> gm_get (smSessions s) (sID x) = Some x \<and> us (sUserID x) = u)"
  using sm_ListByUserID_ok [OF assms, of u] by blast

theorem session_list_user_witness:
  "\<exists>xs. sm_ListByUserID rev None ''u'' witness_store = Inr xs \<and> distinct (map sID xs) \<and> sorted (map sCreatedAt xs) \<and>
    (\<forall>x. x \<in> set xs \<longleftrightarrow> gm_get (smSessions witness_store) (sID x) = Some x \<and> witness_us (sUserID x) = ''u'')"
  by (rule session_list_user [OF witness_store_ok]) simp

end
