(* ===== verification/SessionSystem.thy ===== *)
theory SessionSystem
  imports SessionControl SessionMemory
begin

section \<open>The controlled store over the in-memory store\<close>

text \<open>
  \<open>WithControls(memory.New(cfg), cfg)\<close>: the results of \<open>SessionControl\<close> on the model of the in-memory
  session store, through its interpretation of the contract.
\<close>

interpretation cs: controlled_sessions "sm_store us id" sm_holds "sm_ok us" us for us
  by unfold_locales

definition mem_control :: "SessionLibs \<Rightarrow> SessionConfig \<Rightarrow> sess_mem ControlledStore" where
  "mem_control libs cfg = WithControls libs (sm_store (libUUIDString libs) id) cfg"

abbreviation control_ok :: "SessionLibs \<Rightarrow> sess_mem controlled_state \<Rightarrow> bool" where
  "control_ok libs c \<equiv> sm_ok (libUUIDString libs) (ctStore c)"

lemma mem_control_simps [simp]:
  "csStore (mem_control libs cfg) = sm_store (libUUIDString libs) id"
  "csConfig (mem_control libs cfg) = cfg" "csLibs (mem_control libs cfg) = libs"
  by (simp_all add: mem_control_def WithControls_def)

text \<open>The live sessions that count against the limit for the owner of \<open>x\<close>.\<close>

definition owner_live ::
  "SessionLibs \<Rightarrow> SessionConfig \<Rightarrow> time \<Rightarrow> Session \<Rightarrow> sess_mem \<Rightarrow> string set" where
  "owner_live libs cfg now x s =
     {i. \<exists>y. sm_holds s i = Some y \<and> same_owner (mem_control libs cfg) x y \<and> \<not> IsExpired now y}"

text \<open>No live session of another site is changed or lost.\<close>

definition foreign_safe :: "SessionConfig \<Rightarrow> time \<Rightarrow> sess_mem \<Rightarrow> sess_mem \<Rightarrow> bool" where
  "foreign_safe cfg now s s' \<longleftrightarrow>
     (\<forall>i y. sm_holds s i = Some y \<longrightarrow> \<not> IsExpired now y \<longrightarrow> sSiteID y \<noteq> cfgSiteID cfg \<longrightarrow> sm_holds s' i = Some y)"

lemma foreign_safe_eq: "cs.foreign_kept (mem_control libs cfg) = foreign_safe cfg"
  by (intro ext) (simp add: foreign_safe_def cs.foreign_kept_def)

lemma owner_live_eq: "cs.live_owned (mem_control libs cfg) = owner_live libs cfg"
  by (intro ext) (simp add: owner_live_def cs.live_owned_def)

text \<open>The user of a stored identifier is not changed.\<close>

definition keeps_user :: "Session \<Rightarrow> sess_mem \<Rightarrow> bool" where
  "keeps_user x s \<longleftrightarrow> (case sm_holds s (sID x) of None \<Rightarrow> True | Some y \<Rightarrow> sUserID y = sUserID x)"

lemma keeps_user_eq: "cs.user_kept = keeps_user"
  by (intro ext) (simp add: keeps_user_def cs.user_kept_def)

lemmas control_eqs = foreign_safe_eq owner_live_eq keeps_user_eq

definition witness_libs :: SessionLibs where
  "witness_libs =
     \<lparr>libSha256 = (\<lambda>bs. bs), libUUIDString = witness_us, libMarshalData = (\<lambda>d. Inr []),
      libUnmarshalData = (\<lambda>bs. None), libMarshal = (\<lambda>x. Inr (str_bytes (sID x)))\<rparr>"

definition witness_cfg :: SessionConfig where
  "witness_cfg = DefaultConfig\<lparr>cfgSiteID := ''s'', cfgMaxSessionsPerUser := 1\<rparr>"

definition witness_control :: "sess_mem controlled_state" where
  "witness_control = \<lparr>ctStore = witness_store, ctViolations = []\<rparr>"

lemma witness_control_ok: "control_ok witness_libs witness_control"
  using witness_store_ok by (simp add: sm_ok_def witness_libs_def witness_control_def)

lemma witness_holds:
  "sm_holds (ctStore witness_control) = [''a'' \<mapsto> witness_session ''a'' 1 5 100]"
  by (rule ext)
    (simp add: witness_control_def sm_holds_def witness_store_def sm_Create_def sm_invalid_def
      witness_session_def Let_def sm_New_def gomap_simps)

subsection \<open>Properties\<close>

text \<open>C13: A session that the controlled store creates is stored with the site stamped on it and within the
  size limit; the user then has at most the allowed number of live sessions on the site; no live
  session of another user or site is lost; and what was evicted is never younger than a session of
  the owner that was kept.\<close>

theorem controlled_create:
  assumes "control_ok libs c" "ValidSessionID (sID x)" "keeps_user x (ctStore c)"
    "cs_Create (mem_control libs cfg) now (Some x) c = (None, sess', c')"
  shows "control_ok libs c' \<and>
    sm_holds (ctStore c') (sID x) = Some (stamp_site (mem_control libs cfg) x) \<and>
    (0 < cfgMaxSessionSize cfg \<longrightarrow>
      (\<exists>bs. libMarshal libs (stamp_site (mem_control libs cfg) x) = Inr bs \<and> int (length bs) \<le> cfgMaxSessionSize cfg)) \<and>
    (0 < cfgMaxSessionsPerUser cfg \<longrightarrow>
      int (card (owner_live libs cfg now x (ctStore c'))) \<le> cfgMaxSessionsPerUser cfg) \<and>
    (\<forall>i y. sm_holds (ctStore c) i = Some y \<and> \<not> IsExpired now y \<and> i \<noteq> sID x \<longrightarrow>
      (\<not> same_owner (mem_control libs cfg) x y \<longrightarrow> sm_holds (ctStore c') i = Some y) \<and>
      (sm_holds (ctStore c') i = None \<longrightarrow>
        (\<forall>j z. sm_holds (ctStore c') j = Some z \<and> j \<noteq> sID x \<and> j \<in> owner_live libs cfg now x (ctStore c') \<longrightarrow>
          sCreatedAt y \<le> sCreatedAt z)))"
proof -
  have k: "cs.user_kept x (ctStore c)" using assms(3) by (simp add: control_eqs)
  note cc = cs.cs_Create_correct [OF assms(1) mem_control_simps(1) _ assms(2) k assms(4), simplified, unfolded control_eqs]
  show ?thesis using cc(1,2,4-6) cc(7) unfolding owner_live_def by fastforce
qed

theorem controlled_create_witness:
  "\<exists>sess' c'. cs_Create (mem_control witness_libs witness_cfg) 7 (Some (witness_session ''b'' 1 7 100)) witness_control =
      (None, sess', c') \<and>
    sm_holds (ctStore c') ''b'' = Some (stamp_site (mem_control witness_libs witness_cfg) (witness_session ''b'' 1 7 100))"
proof -
  let ?C = "mem_control witness_libs witness_cfg" and ?x = "witness_session ''b'' 1 7 100"
  have "fst (cs_Create ?C 7 (Some ?x) witness_control) = None" by code_simp
  then obtain sess' c' where r: "cs_Create ?C 7 (Some ?x) witness_control = (None, sess', c')"
    by (metis prod.collapse)
  have "ValidSessionID (sID ?x)" by code_simp
  moreover have "keeps_user ?x (ctStore witness_control)"
    by (simp add: keeps_user_def witness_holds witness_session_def)
  ultimately have "sm_holds (ctStore c') (sID ?x) = Some (stamp_site ?C ?x)"
    using controlled_create [OF witness_control_ok _ _ r] by blast
  then show ?thesis using r by (simp add: witness_session_def)
qed

text \<open>\<open>Create\<close> refuses a nil session, one without an identifier or a user, one whose data JSON cannot
  represent and one above the size limit, each with the error that says so, and a refused session
  leaves the store as it was.\<close>

theorem controlled_create_refuses:
  "\<exists>e sess' c'. cs_Create C now sess c = (e, sess', c') \<and>
     (sess = None \<or> (\<exists>x. sess = Some x \<and> (sID x = [] \<or> sUserID x = 0)) \<longrightarrow>
        (\<exists>e1. e = Some e1 \<and> sess_is e1 SessInvalid) \<and> ctStore c' = ctStore c) \<and>
     (\<forall>x d err. sess = Some x \<and> sID x \<noteq> [] \<and> sUserID x \<noteq> 0 \<and> sData x = Some d \<and>
        libMarshalData (csLibs C) d = Inl err \<longrightarrow>
        (\<exists>e1. e = Some e1 \<and> ErrorCode e1 = ErrCodeNotSerializable) \<and> ctStore c' = ctStore c) \<and>
     (\<forall>x bs. sess = Some x \<and> sID x \<noteq> [] \<and> sUserID x \<noteq> 0 \<and> sData x = None \<and> 0 < cfgMaxSessionSize (csConfig C) \<and>
        libMarshal (csLibs C) (stamp_site C x) = Inr bs \<and> cfgMaxSessionSize (csConfig C) < int (length bs) \<longrightarrow>
        (\<exists>e1. e = Some e1 \<and> sess_is e1 SessSizeLimitExceeded) \<and> ctStore c' = ctStore c)"
proof -
  have invalid: "\<exists>e1 c1. validateSession C sess c = (Some e1, c1) \<and> sess_is e1 SessInvalid \<and> ctStore c1 = ctStore c"
    if "sess = None \<or> (\<exists>x. sess = Some x \<and> (sID x = [] \<or> sUserID x = 0))"
    using that by (auto simp: validateSession_def)
  have stamped: "sData (stamp_site C x) = sData x" for x by (simp add: stamp_site_def)
  have valid: "validateSession C (Some x) c = (None, c)" if "sID x \<noteq> []" "sUserID x \<noteq> 0" for x
    using that by (simp add: validateSession_def)
  obtain e sess' c' where r: "cs_Create C now sess c = (e, sess', c')" by (metis prod.exhaust)
  have n1: "(\<exists>e1. e = Some e1 \<and> sess_is e1 SessInvalid) \<and> ctStore c' = ctStore c"
    if "sess = None \<or> (\<exists>x. sess = Some x \<and> (sID x = [] \<or> sUserID x = 0))"
    using invalid [OF that] r by (auto simp: cs_Create_def)
  have n2: "(\<exists>e1. e = Some e1 \<and> ErrorCode e1 = ErrCodeNotSerializable) \<and> ctStore c' = ctStore c"
    if "sess = Some x" "sID x \<noteq> []" "sUserID x \<noteq> 0" "sData x = Some d" "libMarshalData (csLibs C) d = Inl err" for x d err
    using r that valid [of x] stamped [of x] by (auto simp: cs_Create_def validateSerializable_def Let_def)
  have n3: "(\<exists>e1. e = Some e1 \<and> sess_is e1 SessSizeLimitExceeded) \<and> ctStore c' = ctStore c"
    if "sess = Some x" "sID x \<noteq> []" "sUserID x \<noteq> 0" "sData x = None" "0 < cfgMaxSessionSize (csConfig C)"
      "libMarshal (csLibs C) (stamp_site C x) = Inr bs" "cfgMaxSessionSize (csConfig C) < int (length bs)" for x bs
    using r that valid [of x] stamped [of x]
    by (auto simp: cs_Create_def validateSerializable_def checkSizeLimit_def Let_def)
  show ?thesis
    by (intro exI [of _ e] exI [of _ sess'] exI [of _ c'] conjI r allI impI) (use n1 n2 n3 in blast)+
qed

theorem controlled_create_refuses_witness:
  "\<exists>e1 sess' c'. cs_Create (mem_control witness_libs witness_cfg) 7 None witness_control = (Some e1, sess', c') \<and>
     sess_is e1 SessInvalid \<and> ctStore c' = ctStore witness_control"
  using controlled_create_refuses [of "mem_control witness_libs witness_cfg" 7 None witness_control] by auto





text \<open>Logging a user out of a site: after \<open>DeleteByUserID\<close> no live session of the user is left on the
  site, and the live sessions of every other user and of every other site are.\<close>

theorem controlled_delete_user:
  assumes "control_ok libs c" "cfgSiteID cfg \<noteq> []"
  shows "\<exists>n c'. cs_DeleteByUserID (mem_control libs cfg) now u c = ((n, None), c') \<and> control_ok libs c' \<and>
    (\<forall>i y. sm_holds (ctStore c') i = Some y \<and> \<not> IsExpired now y \<and> libUUIDString libs (sUserID y) = u \<longrightarrow>
       sSiteID y \<noteq> cfgSiteID cfg) \<and>
    (\<forall>i y. sm_holds (ctStore c) i = Some y \<and> \<not> IsExpired now y \<and>
       (libUUIDString libs (sUserID y) \<noteq> u \<or> sSiteID y \<noteq> cfgSiteID cfg) \<longrightarrow> sm_holds (ctStore c') i = Some y)"
proof -
  have site: "cfgSiteID (csConfig (mem_control libs cfg)) \<noteq> []" using assms(2) by simp
  obtain n c' where d: "cs_DeleteByUserID (mem_control libs cfg) now u c = ((n, None), c')" "control_ok libs c'"
    and f: "foreign_safe cfg now (ctStore c) (ctStore c')"
    and o1: "\<forall>i y. sm_holds (ctStore c) i = Some y \<longrightarrow> libUUIDString libs (sUserID y) \<noteq> u \<longrightarrow> \<not> IsExpired now y \<longrightarrow>
      sm_holds (ctStore c') i = Some y"
    and o2: "\<forall>i y. sm_holds (ctStore c') i = Some y \<longrightarrow> libUUIDString libs (sUserID y) = u \<longrightarrow> \<not> IsExpired now y \<longrightarrow>
      sSiteID y \<noteq> cfgSiteID cfg"
    using cs.cs_DeleteByUserID_correct [OF assms(1) mem_control_simps(1) site, of now u]
    unfolding control_eqs mem_control_simps by blast
  have "\<forall>i y. sm_holds (ctStore c') i = Some y \<and> \<not> IsExpired now y \<and> libUUIDString libs (sUserID y) = u \<longrightarrow>
       sSiteID y \<noteq> cfgSiteID cfg"
    using o2 by blast
  moreover have "\<forall>i y. sm_holds (ctStore c) i = Some y \<and> \<not> IsExpired now y \<and>
       (libUUIDString libs (sUserID y) \<noteq> u \<or> sSiteID y \<noteq> cfgSiteID cfg) \<longrightarrow> sm_holds (ctStore c') i = Some y"
  proof (intro allI impI)
    fix i y
    assume y: "sm_holds (ctStore c) i = Some y \<and> \<not> IsExpired now y \<and>
      (libUUIDString libs (sUserID y) \<noteq> u \<or> sSiteID y \<noteq> cfgSiteID cfg)"
    then have h: "sm_holds (ctStore c) i = Some y" "\<not> IsExpired now y" by blast+
    show "sm_holds (ctStore c') i = Some y"
    proof (cases "libUUIDString libs (sUserID y) = u")
      case True
      with y have "sSiteID y \<noteq> cfgSiteID cfg" by blast
      with f h show ?thesis unfolding foreign_safe_def by blast
    next
      case False
      with o1 h show ?thesis by blast
    qed
  qed
  ultimately show ?thesis using d by (intro exI [of _ n] exI [of _ c'] conjI)
qed

theorem controlled_delete_user_witness:
  "\<exists>n c'. cs_DeleteByUserID (mem_control witness_libs witness_cfg) 7 ''u'' witness_control = ((n, None), c') \<and>
    sm_holds (ctStore c') ''a'' = Some (witness_session ''a'' 1 5 100)"
proof -
  have s: "cfgSiteID witness_cfg \<noteq> []" by (simp add: witness_cfg_def)
  have w: "\<not> IsExpired 7 (witness_session ''a'' 1 5 100)" "sSiteID (witness_session ''a'' 1 5 100) \<noteq> cfgSiteID witness_cfg"
    by (simp_all add: IsExpired_def witness_session_def witness_cfg_def)
  let ?y = "witness_session ''a'' 1 5 100"
  obtain n c' where d: "cs_DeleteByUserID (mem_control witness_libs witness_cfg) 7 ''u'' witness_control = ((n, None), c')"
    and k: "\<forall>i y. sm_holds (ctStore witness_control) i = Some y \<and> \<not> IsExpired 7 y \<and>
       (libUUIDString witness_libs (sUserID y) \<noteq> ''u'' \<or> sSiteID y \<noteq> cfgSiteID witness_cfg) \<longrightarrow>
       sm_holds (ctStore c') i = Some y"
    using controlled_delete_user [OF witness_control_ok s, of 7 "''u''"] by blast
  have "sm_holds (ctStore witness_control) ''a'' = Some ?y" by (simp add: witness_holds)
  with k w have "sm_holds (ctStore c') ''a'' = Some ?y" by blast
  with d show ?thesis by blast
qed

end
