(* ===== verification/SessionKvs.thy ===== *)
theory SessionKvs
  imports SessionStore KvsMemory
begin

section \<open>The session store over a key-value store (\<open>session/backend/kvs/kvs.go\<close>)\<close>

text \<open>
  The adapter keeps each session as JSON under the prefix and its identifier, and for each user a
  JSON array of identifiers under the prefix, \<open>user:\<close> and the user. The state is the state of the
  key-value store, the configuration and the closed flag; \<open>encoding/json\<close> for a session and for a
  list of strings, and \<open>uuid.UUID.String\<close>, are parameters. The argument \<open>now\<close> is the reading of the
  clock during a call. Failures that the code only logs leave no trace.
\<close>

record KvsLibs =
  klUUIDString :: "uuid \<Rightarrow> string"
  klMarshal :: "Session \<Rightarrow> string + bytes"
  klUnmarshal :: "bytes \<Rightarrow> string + Session"
  klMarshalIDs :: "string list \<Rightarrow> string + bytes"
  klUnmarshalIDs :: "bytes \<Rightarrow> string + string list"

record 'b sess_kvs =
  skBackend :: 'b
  skConfig :: SessionConfig
  skClosed :: bool

definition sk_New :: "'b \<Rightarrow> SessionConfig \<Rightarrow> 'b sess_kvs" where
  "sk_New backend cfg =
     \<lparr>skBackend = backend,
      skConfig = (if cfgKeyPrefix cfg = [] then cfg\<lparr>cfgKeyPrefix := ''session:''\<rparr> else cfg),
      skClosed = False\<rparr>"

definition sessionKey :: "SessionConfig \<Rightarrow> string \<Rightarrow> string" where
  "sessionKey cfg i = cfgKeyPrefix cfg @ i"

definition userSessionsKey :: "SessionConfig \<Rightarrow> string \<Rightarrow> string" where
  "userSessionsKey cfg userID = cfgKeyPrefix cfg @ ''user:'' @ userID"

text \<open>The sum of two durations wraps at 64 bits.\<close>

definition duration_add :: "duration \<Rightarrow> duration \<Rightarrow> duration" where
  "duration_add a b = (a + b + 2 ^ 63) mod 2 ^ 64 - 2 ^ 63"

definition hour :: duration where
  "hour = 3600 * second"

subsection \<open>The user index\<close>

definition getUserSessionIDs ::
  "'b KVStore \<Rightarrow> KvsLibs \<Rightarrow> time \<Rightarrow> string \<Rightarrow> 'b \<Rightarrow> (session_error + string list) \<times> 'b" where
  "getUserSessionIDs K L now userKey b =
     (case ksGet K now userKey b of
        (Inl KvsNotFound, b1) \<Rightarrow> (Inr [], b1)
      | (Inl e, b1) \<Rightarrow> (Inl (SessKvs [] e), b1)
      | (Inr data, b1) \<Rightarrow>
          (case klUnmarshalIDs L data of
             Inl m \<Rightarrow> (Inl (SessErrorf m), b1)
           | Inr ids \<Rightarrow> (Inr ids, b1)))"

text \<open>An error of a \<open>Set\<close> or \<open>Delete\<close> of the index, returned as it is.\<close>

definition lift_kvs :: "string \<Rightarrow> kvs_error option \<times> 'b \<Rightarrow> session_error option \<times> 'b" where
  "lift_kvs m r = (map_option (SessKvs m) (fst r), snd r)"

definition addToUserIndex ::
  "'b KVStore \<Rightarrow> KvsLibs \<Rightarrow> time \<Rightarrow> string \<Rightarrow> string \<Rightarrow> duration \<Rightarrow> 'b \<Rightarrow> session_error option \<times> 'b" where
  "addToUserIndex K L now userKey i ttl b =
     (case getUserSessionIDs K L now userKey b of
        (Inl e, b1) \<Rightarrow> (Some (SessWrapf ''read user index'' e), b1)
      | (Inr ids, b1) \<Rightarrow>
          if list_ex (\<lambda>j. j = i) ids then (None, b1)
          else (case klMarshalIDs L (ids @ [i]) of
                  Inl m \<Rightarrow> (Some (SessErrorf m), b1)
                | Inr data \<Rightarrow> lift_kvs [] (ksSet K now userKey data (duration_add ttl hour) b1)))"

definition removeFromUserIndex ::
  "'b KVStore \<Rightarrow> KvsLibs \<Rightarrow> time \<Rightarrow> string \<Rightarrow> string \<Rightarrow> 'b \<Rightarrow> session_error option \<times> 'b" where
  "removeFromUserIndex K L now userKey i b =
     (case getUserSessionIDs K L now userKey b of
        (Inl e, b1) \<Rightarrow> (Some e, b1)
      | (Inr ids, b1) \<Rightarrow>
          if ids = [] then (None, b1)
          else let filtered = filter (\<lambda>j. j \<noteq> i) ids
               in if filtered = [] then lift_kvs [] (ksDelete K now userKey b1)
                  else (case klMarshalIDs L filtered of
                          Inl m \<Rightarrow> (Some (SessErrorf m), b1)
                        | Inr data \<Rightarrow> lift_kvs [] (ksSet K now userKey data 0 b1)))"

subsection \<open>The methods\<close>

definition sk_ttl :: "SessionConfig \<Rightarrow> time \<Rightarrow> Session \<Rightarrow> duration" where
  "sk_ttl cfg now x =
     (let ttl = TTL now x in if ttl \<le> 0 \<and> cfgDefaultTTL cfg > 0 then cfgDefaultTTL cfg else ttl)"

definition sk_invalid :: "Session option \<Rightarrow> bool" where
  "sk_invalid sess = (case sess of None \<Rightarrow> True | Some x \<Rightarrow> \<not> ValidSessionID (sID x))"

definition sk_Create ::
  "'b KVStore \<Rightarrow> KvsLibs \<Rightarrow> time \<Rightarrow> Session option \<Rightarrow> 'b sess_kvs \<Rightarrow> session_error option \<times> 'b sess_kvs" where
  "sk_Create K L now sess s =
     (if skClosed s then (Some SessClosed, s)
      else if sk_invalid sess then (Some SessInvalid, s)
      else let x = the sess
           in case klMarshal L x of
                Inl m \<Rightarrow> (Some (SessWrapf ''failed to marshal session'' (SessErrorf m)), s)
              | Inr data \<Rightarrow>
                  let ttl = sk_ttl (skConfig s) now x
                  in case ksSet K now (sessionKey (skConfig s) (sID x)) data ttl (skBackend s) of
                       (Some e, b1) \<Rightarrow> (Some (SessKvs ''failed to store session'' e), s\<lparr>skBackend := b1\<rparr>)
                     | (None, b1) \<Rightarrow>
                         (case addToUserIndex K L now
                                 (userSessionsKey (skConfig s) (klUUIDString L (sUserID x))) (sID x) ttl b1 of
                            (_, b2) \<Rightarrow> (None, s\<lparr>skBackend := b2\<rparr>)))"

definition sk_Delete ::
  "'b KVStore \<Rightarrow> KvsLibs \<Rightarrow> time \<Rightarrow> string \<Rightarrow> 'b sess_kvs \<Rightarrow> session_error option \<times> 'b sess_kvs" where
  "sk_Delete K L now i s =
     (if skClosed s then (Some SessClosed, s)
      else if \<not> ValidSessionID i then (None, s)
      else (case ksGet K now (sessionKey (skConfig s) i) (skBackend s) of
              (Inl KvsNotFound, b1) \<Rightarrow> (None, s\<lparr>skBackend := b1\<rparr>)
            | (Inl e, b1) \<Rightarrow> (Some (SessKvs ''failed to get session'' e), s\<lparr>skBackend := b1\<rparr>)
            | (Inr data, b1) \<Rightarrow>
                (case klUnmarshal L data of
                   Inl m \<Rightarrow> (None, s\<lparr>skBackend := b1\<rparr>)
                 | Inr x \<Rightarrow>
                     if sID x \<noteq> i then (None, s\<lparr>skBackend := b1\<rparr>)
                     else (case removeFromUserIndex K L now
                                  (userSessionsKey (skConfig s) (klUUIDString L (sUserID x))) i b1 of
                             (_, b2) \<Rightarrow>
                               (case ksDelete K now (sessionKey (skConfig s) i) b2 of
                                  (e, b3) \<Rightarrow> (map_option (SessKvs []) e, s\<lparr>skBackend := b3\<rparr>))))))"

definition sk_Get ::
  "'b KVStore \<Rightarrow> KvsLibs \<Rightarrow> time \<Rightarrow> string \<Rightarrow> 'b sess_kvs \<Rightarrow> (session_error + Session) \<times> 'b sess_kvs" where
  "sk_Get K L now i s =
     (if skClosed s then (Inl SessClosed, s)
      else if \<not> ValidSessionID i then (Inl SessNotFound, s)
      else (case ksGet K now (sessionKey (skConfig s) i) (skBackend s) of
              (Inl KvsNotFound, b1) \<Rightarrow> (Inl SessNotFound, s\<lparr>skBackend := b1\<rparr>)
            | (Inl e, b1) \<Rightarrow> (Inl (SessKvs ''failed to get session'' e), s\<lparr>skBackend := b1\<rparr>)
            | (Inr data, b1) \<Rightarrow>
                (case klUnmarshal L data of
                   Inl m \<Rightarrow> (Inl (SessWrapf ''failed to unmarshal session'' (SessErrorf m)), s\<lparr>skBackend := b1\<rparr>)
                 | Inr x \<Rightarrow>
                     if sID x \<noteq> i then (Inl SessNotFound, s\<lparr>skBackend := b1\<rparr>)
                     else if IsExpired now x
                          then (case sk_Delete K L now i (s\<lparr>skBackend := b1\<rparr>) of (_, s2) \<Rightarrow> (Inl SessExpired, s2))
                          else (Inr x, s\<lparr>skBackend := b1\<rparr>))))"

definition sk_Update ::
  "'b KVStore \<Rightarrow> KvsLibs \<Rightarrow> time \<Rightarrow> Session option \<Rightarrow> 'b sess_kvs \<Rightarrow>
   session_error option \<times> Session option \<times> 'b sess_kvs" where
  "sk_Update K L now sess s =
     (if skClosed s then (Some SessClosed, sess, s)
      else if sk_invalid sess then (Some SessInvalid, sess, s)
      else (case ksGet K now (sessionKey (skConfig s) (sID (the sess))) (skBackend s) of
              (Inl KvsNotFound, b1) \<Rightarrow> (Some SessNotFound, sess, s\<lparr>skBackend := b1\<rparr>)
            | (Inl e, b1) \<Rightarrow> (Some (SessKvs ''failed to check session existence'' e), sess, s\<lparr>skBackend := b1\<rparr>)
            | (Inr _, b1) \<Rightarrow>
                let x = (the sess)\<lparr>sUpdatedAt := now\<rparr>
                in case klMarshal L x of
                     Inl m \<Rightarrow>
                       (Some (SessWrapf ''failed to marshal session'' (SessErrorf m)), Some x, s\<lparr>skBackend := b1\<rparr>)
                   | Inr data \<Rightarrow>
                       (case ksSet K now (sessionKey (skConfig s) (sID x)) data (sk_ttl (skConfig s) now x) b1 of
                          (e, b2) \<Rightarrow>
                            (map_option (SessKvs ''failed to update session'') e, Some x, s\<lparr>skBackend := b2\<rparr>))))"

text \<open>The loop of \<open>DeleteByUserID\<close>: an error is logged and the identifier is not counted.\<close>

fun sk_delete_loop :: "'b KVStore \<Rightarrow> time \<Rightarrow> SessionConfig \<Rightarrow> string list \<Rightarrow> nat \<Rightarrow> 'b \<Rightarrow> nat \<times> 'b" where
  "sk_delete_loop K now cfg [] n b = (n, b)"
| "sk_delete_loop K now cfg (i # is) n b =
     (case ksDelete K now (sessionKey cfg i) b of
        (Some e, b1) \<Rightarrow> sk_delete_loop K now cfg is n b1
      | (None, b1) \<Rightarrow> sk_delete_loop K now cfg is (n + 1) b1)"

definition sk_DeleteByUserID ::
  "'b KVStore \<Rightarrow> KvsLibs \<Rightarrow> time \<Rightarrow> string \<Rightarrow> 'b sess_kvs \<Rightarrow> (nat \<times> session_error option) \<times> 'b sess_kvs" where
  "sk_DeleteByUserID K L now userID s =
     (if skClosed s then ((0, Some SessClosed), s)
      else let userKey = userSessionsKey (skConfig s) userID
           in case getUserSessionIDs K L now userKey (skBackend s) of
                (Inl e, b1) \<Rightarrow> ((0, Some e), s\<lparr>skBackend := b1\<rparr>)
              | (Inr ids, b1) \<Rightarrow>
                  (case sk_delete_loop K now (skConfig s) ids 0 b1 of
                     (n, b2) \<Rightarrow>
                       (case ksDelete K now userKey b2 of
                          (_, b3) \<Rightarrow> ((n, None), s\<lparr>skBackend := b3\<rparr>))))"

definition sk_Touch ::
  "'b KVStore \<Rightarrow> KvsLibs \<Rightarrow> time \<Rightarrow> string \<Rightarrow> 'b sess_kvs \<Rightarrow> session_error option \<times> 'b sess_kvs" where
  "sk_Touch K L now i s =
     (case sk_Get K L now i s of
        (Inl e, s1) \<Rightarrow> (Some e, s1)
      | (Inr x, s1) \<Rightarrow>
          (case sk_Update K L now (Some (x\<lparr>sLastAccessedAt := now\<rparr>)) s1 of (e, _, s2) \<Rightarrow> (e, s2)))"

definition sk_Close :: "'b KVStore \<Rightarrow> 'b sess_kvs \<Rightarrow> session_error option \<times> 'b sess_kvs" where
  "sk_Close K s =
     (if skClosed s then (None, s)
      else (case ksClose K (skBackend s) of
              (e, b1) \<Rightarrow> (map_option (SessKvs []) e, s\<lparr>skClosed := True, skBackend := b1\<rparr>)))"

text \<open>The sessions of a list of identifiers that can be read.\<close>

fun sk_fetch_loop ::
  "'b KVStore \<Rightarrow> KvsLibs \<Rightarrow> time \<Rightarrow> string list \<Rightarrow> Session list \<Rightarrow> 'b sess_kvs \<Rightarrow> Session list \<times> 'b sess_kvs" where
  "sk_fetch_loop K L now [] xs s = (xs, s)"
| "sk_fetch_loop K L now (i # is) xs s =
     (case sk_Get K L now i s of
        (Inl e, s1) \<Rightarrow> sk_fetch_loop K L now is xs s1
      | (Inr x, s1) \<Rightarrow> sk_fetch_loop K L now is (xs @ [x]) s1)"

definition sk_ListByUserID ::
  "'b KVStore \<Rightarrow> KvsLibs \<Rightarrow> time \<Rightarrow> string \<Rightarrow> 'b sess_kvs \<Rightarrow> (session_error + Session list) \<times> 'b sess_kvs" where
  "sk_ListByUserID K L now userID s =
     (if skClosed s then (Inl SessClosed, s)
      else (case getUserSessionIDs K L now (userSessionsKey (skConfig s) userID) (skBackend s) of
              (Inl e, b1) \<Rightarrow> (Inl e, s\<lparr>skBackend := b1\<rparr>)
            | (Inr ids, b1) \<Rightarrow>
                if ids = [] then (Inr [], s\<lparr>skBackend := b1\<rparr>)
                else (case sk_fetch_loop K L now ids [] (s\<lparr>skBackend := b1\<rparr>) of
                        (xs, s2) \<Rightarrow> (Inr (sort_sessions xs), s2))))"

subsection \<open>The cleanup of the index\<close>

fun sk_valid_loop ::
  "'b KVStore \<Rightarrow> time \<Rightarrow> SessionConfig \<Rightarrow> string list \<Rightarrow> string list \<Rightarrow> 'b \<Rightarrow> string list \<times> 'b" where
  "sk_valid_loop K now cfg [] vs b = (vs, b)"
| "sk_valid_loop K now cfg (i # is) vs b =
     (case ksGet K now (sessionKey cfg i) b of
        (Inl e, b1) \<Rightarrow> sk_valid_loop K now cfg is vs b1
      | (Inr d, b1) \<Rightarrow> sk_valid_loop K now cfg is (vs @ [i]) b1)"

definition sk_cleanup_key :: "'b KVStore \<Rightarrow> KvsLibs \<Rightarrow> time \<Rightarrow> SessionConfig \<Rightarrow> string \<Rightarrow> 'b \<Rightarrow> 'b" where
  "sk_cleanup_key K L now cfg k b =
     (case getUserSessionIDs K L now k b of
        (Inl e, b1) \<Rightarrow> b1
      | (Inr ids, b1) \<Rightarrow>
          (case sk_valid_loop K now cfg ids [] b1 of
             (vs, b2) \<Rightarrow>
               if vs = [] then snd (ksDelete K now
                 (userSessionsKey cfg (trim_prefix k (cfgKeyPrefix cfg @ ''user:''))) b2)
               else if length vs < length ids
                    then (case klMarshalIDs L vs of Inl m \<Rightarrow> b2 | Inr data \<Rightarrow> snd (ksSet K now k data 0 b2))
                    else b2))"

definition cleanupOrphanedIndexes :: "'b KVStore \<Rightarrow> KvsLibs \<Rightarrow> time \<Rightarrow> 'b sess_kvs \<Rightarrow> 'b sess_kvs" where
  "cleanupOrphanedIndexes K L now s =
     (case ksList K now (cfgKeyPrefix (skConfig s) @ ''user:'') (skBackend s) of
        (Inl e, b1) \<Rightarrow> s\<lparr>skBackend := b1\<rparr>
      | (Inr ks, b1) \<Rightarrow> s\<lparr>skBackend := fold (sk_cleanup_key K L now (skConfig s)) ks b1\<rparr>)"

subsection \<open>Keys\<close>

lemma valid_id_no_colon: "ValidSessionID i \<Longrightarrow> CHR '':'' \<notin> set i"
proof
  assume i: "ValidSessionID i" "CHR '':'' \<in> set i"
  then have "session_id_char (CHR '':'')"
    by (auto simp: ValidSessionID_def list_all_iff split: if_splits)
  moreover have "\<not> session_id_char (CHR '':'')" by code_simp
  ultimately show False by simp
qed

lemma sessionKey_inj [simp]: "sessionKey cfg i = sessionKey cfg j \<longleftrightarrow> i = j"
  by (simp add: sessionKey_def)

text \<open>No identifier that passes validation addresses the index of a user.\<close>

lemma sessionKey_userKey: "ValidSessionID i \<Longrightarrow> sessionKey cfg i \<noteq> userSessionsKey cfg u"
  using valid_id_no_colon [of i] by (auto simp: sessionKey_def userSessionsKey_def)

subsection \<open>Correctness over any key-value store that keeps the contract\<close>

text \<open>What \<open>Get\<close> returns, from the live values of the key-value store.\<close>

definition sk_view ::
  "KvsLibs \<Rightarrow> SessionConfig \<Rightarrow> time \<Rightarrow> (string \<Rightarrow> bytes option) \<Rightarrow> string \<Rightarrow> session_error + Session" where
  "sk_view L cfg t lv i =
     (if \<not> ValidSessionID i then Inl SessNotFound
      else (case lv (sessionKey cfg i) of
              None \<Rightarrow> Inl SessNotFound
            | Some d \<Rightarrow>
                (case klUnmarshal L d of
                   Inl m \<Rightarrow> Inl (SessWrapf ''failed to unmarshal session'' (SessErrorf m))
                 | Inr x \<Rightarrow>
                     if sID x \<noteq> i then Inl SessNotFound
                     else if IsExpired t x then Inl SessExpired else Inr x)))"

lemma sk_view_cong: "lv (sessionKey cfg i) = lv' (sessionKey cfg i) \<Longrightarrow> sk_view L cfg t lv i = sk_view L cfg t lv' i"
  by (simp add: sk_view_def)

text \<open>The time to live that \<open>Create\<close> asks for covers the life of the session.\<close>

lemma sk_ttl_lasts:
  assumes "now \<le> t" "\<not> IsExpired t x" "t \<le> now + maxDuration"
    "sExpiresAt x = 0 \<longrightarrow> cfgDefaultTTL cfg \<le> 0 \<or> t \<le> now + cfgDefaultTTL cfg"
  shows "sk_ttl cfg now x \<le> 0 \<or> t \<le> now + sk_ttl cfg now x"
proof (cases "sExpiresAt x = 0")
  case True
  then show ?thesis using assms(4) by (auto simp: sk_ttl_def TTL_def is_zero_time_def)
next
  case False
  then have "t \<le> sExpiresAt x" using assms(2) by (simp add: IsExpired_def is_zero_time_def)
  then have "TTL now x = min maxDuration (sExpiresAt x - now)"
    using False assms(1) by (simp add: TTL_def is_zero_time_def time_sub_def maxDuration_def minDuration_def Let_def)
  then show ?thesis using \<open>t \<le> sExpiresAt x\<close> assms(1,3) by (auto simp: sk_ttl_def Let_def min_def)
qed

locale session_kvs = kv_store K live ok lasts
  for K :: "'b KVStore" and live and ok and lasts +
  fixes L :: KvsLibs
begin

text \<open>\<open>frame now ks b b'\<close>: from \<open>now\<close> on, only keys of \<open>ks\<close> read differently.\<close>

definition frame :: "time \<Rightarrow> string set \<Rightarrow> 'b \<Rightarrow> 'b \<Rightarrow> bool" where
  "frame now ks b b' \<longleftrightarrow> ok b' \<and> (\<forall>t \<ge> now. \<forall>k. k \<notin> ks \<longrightarrow> live t b' k = live t b k)"

lemma frame_trans: "frame now ks b b' \<Longrightarrow> frame now ks' b' b'' \<Longrightarrow> frame now (ks \<union> ks') b b''"
  by (simp add: frame_def)

lemma frame_ok: "frame now ks b b' \<Longrightarrow> ok b'"
  by (simp add: frame_def)

lemma frame_live: "frame now ks b b' \<Longrightarrow> now \<le> t \<Longrightarrow> k \<notin> ks \<Longrightarrow> live t b' k = live t b k"
  by (simp add: frame_def)

lemma kv_get:
  assumes "ok b"
  obtains b' where "ksGet K now k b = ((case live now b k of None \<Rightarrow> Inl KvsNotFound | Some v \<Rightarrow> Inr v), b')"
    "frame now {} b b'"
  using get_law [OF assms, of now k] by (auto simp: frame_def)

lemma kv_set:
  assumes "ok b" "0 \<le> now"
  obtains b' where "ksSet K now k v ttl b = (None, b')" "frame now {k} b b'"
    "\<And>t. now \<le> t \<Longrightarrow> live t b' k = (if lasts now ttl t then Some v else None)"
  using set_law [OF assms, of k v ttl] by (auto simp: frame_def)

lemma kv_delete:
  assumes "ok b"
  obtains b' where "ksDelete K now k b = (None, b')" "frame now {k} b b'" "\<And>t. now \<le> t \<Longrightarrow> live t b' k = None"
  using delete_law [OF assms, of now k] by (auto simp: frame_def)

lemma get_ids:
  assumes "ok b"
  obtains r b' where "getUserSessionIDs K L now uk b = (r, b')" "frame now {} b b'"
    "live now b uk = None \<Longrightarrow> r = Inr []"
    "\<And>d ids. live now b uk = Some d \<Longrightarrow> klUnmarshalIDs L d = Inr ids \<Longrightarrow> r = Inr ids"
proof (rule kv_get [OF assms, of now uk])
  fix b' assume g: "ksGet K now uk b = ((case live now b uk of None \<Rightarrow> Inl KvsNotFound | Some v \<Rightarrow> Inr v), b')"
    "frame now {} b b'"
  show thesis
    by (rule that [of "fst (getUserSessionIDs K L now uk b)" b'])
      (auto simp: getUserSessionIDs_def g split: option.splits sum.splits)
qed

lemma add_index:
  assumes "ok b" "0 \<le> now"
  obtains e b' where "addToUserIndex K L now uk i ttl b = (e, b')" "frame now {uk} b b'"
proof (rule get_ids [OF assms(1), of now uk])
  fix r b1 assume g: "getUserSessionIDs K L now uk b = (r, b1)" "frame now {} b b1"
  have w: "frame now {uk} b b2" if "frame now {uk} b1 b2" for b2 using frame_trans [OF g(2) that] by simp
  have u: "frame now {uk} b b1" using g(2) by (simp add: frame_def)
  show thesis
  proof (cases "\<exists>ids data. r = Inr ids \<and> \<not> list_ex (\<lambda>j. j = i) ids \<and> klMarshalIDs L (ids @ [i]) = Inr data")
    case True
    then obtain ids data where r: "r = Inr ids" "\<not> list_ex (\<lambda>j. j = i) ids" "klMarshalIDs L (ids @ [i]) = Inr data"
      by blast
    show thesis
    proof (rule kv_set [OF frame_ok [OF g(2)] assms(2), of uk data "duration_add ttl hour"])
      fix b2 assume s: "ksSet K now uk data (duration_add ttl hour) b1 = (None, b2)" "frame now {uk} b1 b2"
      show thesis by (rule that [of None b2]) (simp_all add: addToUserIndex_def g(1) r s(1) lift_kvs_def w [OF s(2)])
    qed
  next
    case False
    then have "snd (addToUserIndex K L now uk i ttl b) = b1"
      by (auto simp: addToUserIndex_def g(1) split: sum.splits)
    then show thesis using that [OF prod.collapse [symmetric]] u by simp
  qed
qed

lemma remove_index:
  assumes "ok b" "0 \<le> now"
  obtains e b' where "removeFromUserIndex K L now uk i b = (e, b')" "frame now {uk} b b'"
proof (rule get_ids [OF assms(1), of now uk])
  fix r b1 assume g: "getUserSessionIDs K L now uk b = (r, b1)" "frame now {} b b1"
  have w: "frame now {uk} b b2" if "frame now {uk} b1 b2" for b2 using frame_trans [OF g(2) that] by simp
  have u: "frame now {uk} b b1" using g(2) by (simp add: frame_def)
  note o1 = frame_ok [OF g(2)]
  consider (err) e where "r = Inl e" | (none) "r = Inr []"
    | (last) ids where "r = Inr ids" "ids \<noteq> []" "filter (\<lambda>j. j \<noteq> i) ids = []"
    | (bad) ids m where "r = Inr ids" "ids \<noteq> []" "filter (\<lambda>j. j \<noteq> i) ids \<noteq> []" "klMarshalIDs L (filter (\<lambda>j. j \<noteq> i) ids) = Inl m"
    | (rest) ids d where "r = Inr ids" "ids \<noteq> []" "filter (\<lambda>j. j \<noteq> i) ids \<noteq> []" "klMarshalIDs L (filter (\<lambda>j. j \<noteq> i) ids) = Inr d"
    by (metis sum.exhaust)
  then show thesis
  proof cases
    case last
    show thesis
    proof (rule kv_delete [OF o1, of now uk])
      fix b2 assume s: "ksDelete K now uk b1 = (None, b2)" "frame now {uk} b1 b2"
      show thesis by (rule that [of None b2]) (simp_all add: removeFromUserIndex_def g(1) last s(1) lift_kvs_def w [OF s(2)])
    qed
  next
    case (rest ids d)
    show thesis
    proof (rule kv_set [OF o1 assms(2), of uk d 0])
      fix b2 assume s: "ksSet K now uk d 0 b1 = (None, b2)" "frame now {uk} b1 b2"
      show thesis by (rule that [of None b2])
        (simp_all only: removeFromUserIndex_def g(1) rest s(1) lift_kvs_def w [OF s(2)] Let_def prod.case sum.case if_False fst_conv snd_conv option.map)
    qed
  qed (use that [of _ b1] u in \<open>simp_all add: removeFromUserIndex_def g(1) Let_def\<close>)
qed

subsubsection \<open>The methods\<close>

lemma sk_Create_effect:
  assumes "ok (skBackend s)" "0 \<le> now" "\<not> skClosed s" "ValidSessionID (sID x)" "klMarshal L x = Inr data"
  obtains b' where "sk_Create K L now (Some x) s = (None, s\<lparr>skBackend := b'\<rparr>)"
    "frame now {sessionKey (skConfig s) (sID x), userSessionsKey (skConfig s) (klUUIDString L (sUserID x))} (skBackend s) b'"
    "\<And>t. now \<le> t \<Longrightarrow> live t b' (sessionKey (skConfig s) (sID x)) =
      (if lasts now (sk_ttl (skConfig s) now x) t then Some data else None)"
proof -
  let ?k = "sessionKey (skConfig s) (sID x)" and ?u = "userSessionsKey (skConfig s) (klUUIDString L (sUserID x))"
  let ?ttl = "sk_ttl (skConfig s) now x"
  obtain b1 where b1: "ksSet K now ?k data ?ttl (skBackend s) = (None, b1)" "frame now {?k} (skBackend s) b1"
    "\<And>t. now \<le> t \<Longrightarrow> live t b1 ?k = (if lasts now ?ttl t then Some data else None)"
    using kv_set [OF assms(1,2), of ?k data ?ttl] by blast
  obtain e b2 where b2: "addToUserIndex K L now ?u (sID x) ?ttl b1 = (e, b2)" "frame now {?u} b1 b2"
    by (rule add_index [OF frame_ok [OF b1(2)] assms(2)])
  show ?thesis
  proof (rule that [of b2])
    show "sk_Create K L now (Some x) s = (None, s\<lparr>skBackend := b2\<rparr>)"
      using assms(3-5) b1(1) b2(1) by (simp add: sk_Create_def sk_invalid_def Let_def)
    show "frame now {?k, ?u} (skBackend s) b2" using frame_trans [OF b1(2) b2(2)] by (simp add: insert_commute)
    show "live t b2 ?k = (if lasts now ?ttl t then Some data else None)" if "now \<le> t" for t
      using b1(3) [OF that] frame_live [OF b2(2) that] sessionKey_userKey [OF assms(4)] by simp
  qed
qed

lemma sk_Delete_effect:
  assumes "ok (skBackend s)" "0 \<le> now" "\<not> skClosed s" "ValidSessionID i"
    "live now (skBackend s) (sessionKey (skConfig s) i) = Some d" "klUnmarshal L d = Inr x" "sID x = i"
  obtains b' where "sk_Delete K L now i s = (None, s\<lparr>skBackend := b'\<rparr>)"
    "frame now {sessionKey (skConfig s) i, userSessionsKey (skConfig s) (klUUIDString L (sUserID x))} (skBackend s) b'"
    "\<And>t. now \<le> t \<Longrightarrow> live t b' (sessionKey (skConfig s) i) = None"
proof -
  let ?k = "sessionKey (skConfig s) i" and ?u = "userSessionsKey (skConfig s) (klUUIDString L (sUserID x))"
  obtain b1 where b1: "ksGet K now ?k (skBackend s) = (Inr d, b1)" "frame now {} (skBackend s) b1"
    by (rule kv_get [OF assms(1), of now ?k]) (simp add: assms(5))
  obtain e b2 where b2: "removeFromUserIndex K L now ?u i b1 = (e, b2)" "frame now {?u} b1 b2"
    by (rule remove_index [OF frame_ok [OF b1(2)] assms(2)])
  obtain b3 where b3: "ksDelete K now ?k b2 = (None, b3)" "frame now {?k} b2 b3" "\<And>t. now \<le> t \<Longrightarrow> live t b3 ?k = None"
    using kv_delete [OF frame_ok [OF b2(2)], of now ?k] by blast
  show ?thesis
  proof (rule that [of b3])
    show "sk_Delete K L now i s = (None, s\<lparr>skBackend := b3\<rparr>)"
      using assms(3,4,6,7) b1(1) b2(1) b3(1) by (simp add: sk_Delete_def)
    show "frame now {?k, ?u} (skBackend s) b3"
      using frame_trans [OF frame_trans [OF b1(2) b2(2)] b3(2)] by (simp add: insert_commute)
  qed (rule b3(3))
qed

lemma sk_Get_view:
  assumes "ok (skBackend s)" "0 \<le> now" "\<not> skClosed s"
  shows "fst (sk_Get K L now i s) = sk_view L (skConfig s) now (live now (skBackend s)) i"
    and "ok (skBackend (snd (sk_Get K L now i s)))"
    and "skConfig (snd (sk_Get K L now i s)) = skConfig s \<and> skClosed (snd (sk_Get K L now i s)) = skClosed s"
    and "\<exists>x. fst (sk_Get K L now i s) = Inr x \<Longrightarrow> frame now {} (skBackend s) (skBackend (snd (sk_Get K L now i s)))"
proof -
  let ?k = "sessionKey (skConfig s) i"
  obtain b1 where b1: "ksGet K now ?k (skBackend s) =
      ((case live now (skBackend s) ?k of None \<Rightarrow> Inl KvsNotFound | Some v \<Rightarrow> Inr v), b1)" "frame now {} (skBackend s) b1"
    by (rule kv_get [OF assms(1)])
  let ?s = "s\<lparr>skBackend := b1\<rparr>"
  have del: "\<exists>b2. sk_Delete K L now i ?s = (None, ?s\<lparr>skBackend := b2\<rparr>) \<and> ok b2"
    if d: "ValidSessionID i" "live now (skBackend s) ?k = Some d" "klUnmarshal L d = Inr x" "sID x = i" for d x
  proof -
    have "live now (skBackend ?s) (sessionKey (skConfig ?s) i) = Some d" using d(2) frame_live [OF b1(2), of now ?k] by simp
    then show ?thesis
      using sk_Delete_effect [of ?s now i d x] frame_ok [OF b1(2)] assms(2,3) d frame_ok by (metis sess_kvs.select_convs(1,3) sess_kvs.update_convs(1) sess_kvs.surjective)
  qed
  have "fst (sk_Get K L now i s) = sk_view L (skConfig s) now (live now (skBackend s)) i \<and>
    ok (skBackend (snd (sk_Get K L now i s))) \<and>
    skConfig (snd (sk_Get K L now i s)) = skConfig s \<and> skClosed (snd (sk_Get K L now i s)) = skClosed s \<and>
    ((\<exists>x. fst (sk_Get K L now i s) = Inr x) \<longrightarrow> frame now {} (skBackend s) (skBackend (snd (sk_Get K L now i s))))"
  proof (cases "\<exists>d x. ValidSessionID i \<and> live now (skBackend s) ?k = Some d \<and> klUnmarshal L d = Inr x \<and> sID x = i \<and> IsExpired now x")
    case True
    then obtain d x where d: "ValidSessionID i" "live now (skBackend s) ?k = Some d" "klUnmarshal L d = Inr x" "sID x = i"
      "IsExpired now x" by blast
    then obtain b2 where "sk_Delete K L now i ?s = (None, ?s\<lparr>skBackend := b2\<rparr>)" "ok b2" using del by blast
    with d b1(1) assms(3) show ?thesis by (simp add: sk_Get_def sk_view_def)
  next
    case False
    then show ?thesis using b1 assms(1,3) frame_ok [OF b1(2)]
      by (auto simp: sk_Get_def sk_view_def split: option.splits sum.splits)
  qed
  then show "fst (sk_Get K L now i s) = sk_view L (skConfig s) now (live now (skBackend s)) i"
    "ok (skBackend (snd (sk_Get K L now i s)))"
    "skConfig (snd (sk_Get K L now i s)) = skConfig s \<and> skClosed (snd (sk_Get K L now i s)) = skClosed s"
    "\<exists>x. fst (sk_Get K L now i s) = Inr x \<Longrightarrow> frame now {} (skBackend s) (skBackend (snd (sk_Get K L now i s)))"
    by blast+
qed

lemma sk_delete_loop_effect:
  assumes "ok b"
  shows "\<exists>b'. sk_delete_loop K now cfg is n b = (n + length is, b') \<and> frame now (sessionKey cfg ` set is) b b' \<and>
    (\<forall>i \<in> set is. \<forall>t \<ge> now. live t b' (sessionKey cfg i) = None)"
  using assms
proof (induction "is" arbitrary: n b)
  case Nil
  then show ?case by (simp add: frame_def)
next
  case (Cons i js)
  obtain b1 where b1: "ksDelete K now (sessionKey cfg i) b = (None, b1)" "frame now {sessionKey cfg i} b b1"
    "\<And>t. now \<le> t \<Longrightarrow> live t b1 (sessionKey cfg i) = None"
    using kv_delete [OF Cons.prems, of now "sessionKey cfg i"] by blast
  from Cons.IH [OF frame_ok [OF b1(2)], of "n + 1"] obtain b' where b':
    "sk_delete_loop K now cfg js (n + 1) b1 = (n + 1 + length js, b')" "frame now (sessionKey cfg ` set js) b1 b'"
    "\<forall>i \<in> set js. \<forall>t \<ge> now. live t b' (sessionKey cfg i) = None" by blast
  have "live t b' (sessionKey cfg i) = None" if "now \<le> t" for t
    using b'(3) b1(3) [OF that] frame_live [OF b'(2) that, of "sessionKey cfg i"] that
    by (cases "i \<in> set js") (auto simp: image_iff)
  moreover have "frame now (sessionKey cfg ` set (i # js)) b b'" using frame_trans [OF b1(2) b'(2)] by simp
  ultimately show ?case using b1(1) b' by (intro exI [of _ b']) simp
qed

lemma sk_DeleteByUserID_effect:
  assumes "ok (skBackend s)" "\<not> skClosed s"
    "live now (skBackend s) (userSessionsKey (skConfig s) u) = Some d" "klUnmarshalIDs L d = Inr ids"
  obtains b' where "sk_DeleteByUserID K L now u s = ((length ids, None), s\<lparr>skBackend := b'\<rparr>)"
    "frame now (insert (userSessionsKey (skConfig s) u) (sessionKey (skConfig s) ` set ids)) (skBackend s) b'"
    "\<And>i t. i \<in> set ids \<Longrightarrow> now \<le> t \<Longrightarrow> live t b' (sessionKey (skConfig s) i) = None"
proof -
  let ?u = "userSessionsKey (skConfig s) u"
  obtain r b1 where b1: "getUserSessionIDs K L now ?u (skBackend s) = (r, b1)" "frame now {} (skBackend s) b1"
    "r = Inr ids"
    by (rule get_ids [OF assms(1), of now ?u]) (use assms(3,4) in blast)
  obtain b2 where b2: "sk_delete_loop K now (skConfig s) ids 0 b1 = (length ids, b2)"
    "frame now (sessionKey (skConfig s) ` set ids) b1 b2"
    "\<forall>i \<in> set ids. \<forall>t \<ge> now. live t b2 (sessionKey (skConfig s) i) = None"
    using sk_delete_loop_effect [OF frame_ok [OF b1(2)], of now "skConfig s" ids 0] by auto
  obtain b3 where b3: "ksDelete K now ?u b2 = (None, b3)" "frame now {?u} b2 b3" "\<And>t. now \<le> t \<Longrightarrow> live t b3 ?u = None"
    using kv_delete [OF frame_ok [OF b2(2)], of now ?u] by blast
  show ?thesis
  proof (rule that [of b3])
    show "sk_DeleteByUserID K L now u s = ((length ids, None), s\<lparr>skBackend := b3\<rparr>)"
      using assms(2) b1(1,3) b2(1) b3(1) by (simp add: sk_DeleteByUserID_def Let_def)
    show "frame now (insert ?u (sessionKey (skConfig s) ` set ids)) (skBackend s) b3"
      using frame_trans [OF frame_trans [OF b1(2) b2(2)] b3(2)] by simp
    show "live t b3 (sessionKey (skConfig s) i) = None" if "i \<in> set ids" "now \<le> t" for i t
      using b2(3) b3(3) frame_live [OF b3(2) that(2), of "sessionKey (skConfig s) i"] that
      by (cases "sessionKey (skConfig s) i = ?u") auto
  qed
qed

text \<open>Creating a session sets the index anew, with the time to live of this session and an hour.\<close>

lemma sk_Create_index:
  assumes "ok (skBackend s)" "0 \<le> now" "\<not> skClosed s" "ValidSessionID (sID x)" "klMarshal L x = Inr data"
    "live now (skBackend s) (userSessionsKey (skConfig s) (klUUIDString L (sUserID x))) = Some d"
    "klUnmarshalIDs L d = Inr ids" "sID x \<notin> set ids" "klMarshalIDs L (ids @ [sID x]) = Inr d'" "now \<le> t"
  shows "live t (skBackend (snd (sk_Create K L now (Some x) s)))
      (userSessionsKey (skConfig s) (klUUIDString L (sUserID x))) =
    (if lasts now (duration_add (sk_ttl (skConfig s) now x) hour) t then Some d' else None)"
proof -
  let ?k = "sessionKey (skConfig s) (sID x)" and ?u = "userSessionsKey (skConfig s) (klUUIDString L (sUserID x))"
  let ?ttl = "sk_ttl (skConfig s) now x"
  obtain b1 where b1: "ksSet K now ?k data ?ttl (skBackend s) = (None, b1)" "frame now {?k} (skBackend s) b1"
    using kv_set [OF assms(1,2), of ?k data ?ttl] by blast
  have l: "live now b1 ?u = Some d"
    using frame_live [OF b1(2), of now ?u] sessionKey_userKey [OF assms(4)] assms(6) by (metis order_refl singletonD)
  obtain r b2 where b2: "getUserSessionIDs K L now ?u b1 = (r, b2)" "frame now {} b1 b2" "r = Inr ids"
    by (rule get_ids [OF frame_ok [OF b1(2)], of now ?u]) (use l assms(7) in blast)
  obtain b3 where b3: "ksSet K now ?u d' (duration_add ?ttl hour) b2 = (None, b3)"
    "\<And>t. now \<le> t \<Longrightarrow> live t b3 ?u = (if lasts now (duration_add ?ttl hour) t then Some d' else None)"
    using kv_set [OF frame_ok [OF b2(2)] assms(2), of ?u d' "duration_add ?ttl hour"] by blast
  have "\<not> list_ex (\<lambda>j. j = sID x) ids" using assms(8) by (auto simp: list_ex_iff)
  then have "skBackend (snd (sk_Create K L now (Some x) s)) = b3"
    using assms(3-5,9) b1(1) b2(1,3) b3(1)
    by (simp add: sk_Create_def sk_invalid_def Let_def addToUserIndex_def lift_kvs_def)
  then show ?thesis using b3(2) [OF assms(10)] by simp
qed

lemma sk_gone_index:
  assumes "ok (skBackend s)" "\<not> skClosed s" "live now (skBackend s) (userSessionsKey (skConfig s) u) = None"
  shows "fst (sk_ListByUserID K L now u s) = Inr []" "fst (sk_DeleteByUserID K L now u s) = (0, None)"
proof -
  obtain r b1 where b1: "getUserSessionIDs K L now (userSessionsKey (skConfig s) u) (skBackend s) = (r, b1)" "r = Inr []"
    by (rule get_ids [OF assms(1), of now "userSessionsKey (skConfig s) u"]) (use assms(3) in blast)
  then show "fst (sk_ListByUserID K L now u s) = Inr []" "fst (sk_DeleteByUserID K L now u s) = (0, None)"
    using assms(2) by (simp_all add: sk_ListByUserID_def sk_DeleteByUserID_def Let_def split: prod.split)
qed

text \<open>A session is read back unchanged, and no other identifier reads differently.\<close>

lemma Create_then_Get:
  assumes "ok (skBackend s)" "\<not> skClosed s" "0 \<le> now" "now \<le> t" "ValidSessionID (sID x)"
    "klMarshal L x = Inr d" "klUnmarshal L d = Inr x" "\<not> IsExpired t x" "t \<le> now + maxDuration"
    "sExpiresAt x = 0 \<longrightarrow> cfgDefaultTTL (skConfig s) \<le> 0 \<or> t \<le> now + cfgDefaultTTL (skConfig s)"
  shows "\<exists>s'. sk_Create K L now (Some x) s = (None, s') \<and> ok (skBackend s') \<and>
    fst (sk_Get K L t (sID x) s') = Inr x \<and>
    (\<forall>j. j \<noteq> sID x \<longrightarrow> fst (sk_Get K L t j s') = fst (sk_Get K L t j s))"
proof -
  obtain b' where c: "sk_Create K L now (Some x) s = (None, s\<lparr>skBackend := b'\<rparr>)"
    and f: "frame now {sessionKey (skConfig s) (sID x), userSessionsKey (skConfig s) (klUUIDString L (sUserID x))} (skBackend s) b'"
    and l: "live t b' (sessionKey (skConfig s) (sID x)) = (if lasts now (sk_ttl (skConfig s) now x) t then Some d else None)"
    using sk_Create_effect [OF assms(1,3,2,5,6)] assms(4) by metis
  have o: "ok (skBackend (s\<lparr>skBackend := b'\<rparr>))" using frame_ok [OF f] by simp
  have t: "0 \<le> t" using assms(3,4) by simp
  have g: "fst (sk_Get K L t j (s\<lparr>skBackend := b'\<rparr>)) = sk_view L (skConfig s) t (live t b') j" for j
    using sk_Get_view(1) [OF o t] assms(2) by simp
  have "lasts now (sk_ttl (skConfig s) now x) t" using sk_ttl_lasts [OF assms(4,8,9,10)] by (intro lasts_law) auto
  then have "fst (sk_Get K L t (sID x) (s\<lparr>skBackend := b'\<rparr>)) = Inr x"
    using l assms(5,7,8) by (simp add: g sk_view_def)
  moreover have "fst (sk_Get K L t j (s\<lparr>skBackend := b'\<rparr>)) = fst (sk_Get K L t j s)" if j: "j \<noteq> sID x" for j
  proof (cases "ValidSessionID j")
    case True
    have "live t b' (sessionKey (skConfig s) j) = live t (skBackend s) (sessionKey (skConfig s) j)"
      using frame_live [OF f assms(4)] sessionKey_userKey [OF True] j by simp
    then show ?thesis unfolding g sk_Get_view(1) [OF assms(1) t assms(2)] by (rule sk_view_cong)
  next
    case False
    then show ?thesis using assms(2) by (simp add: sk_Get_def)
  qed
  ultimately show ?thesis using c o by blast
qed

end

interpretation sk: session_kvs kvm_store kvm_live "\<lambda>s. \<not> kvClosed s" kvm_lasts L for L
  by unfold_locales

subsection \<open>Properties, over the in-memory key-value store\<close>

text \<open>A session that was created in the key-value store is read back unchanged until it expires (and for
  a session without an expiry, until the default time to live has passed), and no read of another
  identifier is changed, whatever characters the identifier has: it can address neither another
  session nor the index of a user.\<close>

theorem kvs_session_roundtrip:
  assumes "\<not> kvClosed (skBackend s)" "\<not> skClosed s" "0 \<le> now" "now \<le> t" "ValidSessionID (sID x)"
    "klMarshal L x = Inr d" "klUnmarshal L d = Inr x" "\<not> IsExpired t x" "t \<le> now + maxDuration"
    "sExpiresAt x = 0 \<longrightarrow> cfgDefaultTTL (skConfig s) \<le> 0 \<or> t \<le> now + cfgDefaultTTL (skConfig s)"
  shows "\<exists>s'. sk_Create kvm_store L now (Some x) s = (None, s') \<and>
    fst (sk_Get kvm_store L t (sID x) s') = Inr x \<and>
    (\<forall>j. j \<noteq> sID x \<longrightarrow> fst (sk_Get kvm_store L t j s') = fst (sk_Get kvm_store L t j s))"
  using sk.Create_then_Get [OF assms] by blast

text \<open>A stand-in for JSON on two sessions and on lists of identifiers, for the witnesses.\<close>

definition sample_a :: Session where
  "sample_a = witness_session ''a'' 1 5 100000000000000"

definition sample_b :: Session where
  "sample_b = witness_session ''b'' 1 5 10000000000000"

definition sample_libs :: KvsLibs where
  "sample_libs =
     \<lparr>klUUIDString = witness_us, klMarshal = (\<lambda>x. Inr (str_bytes (sID x))),
      klUnmarshal = (\<lambda>d. if d = [97] then Inr sample_a else if d = [98] then Inr sample_b else Inl ''invalid''),
      klMarshalIDs = (\<lambda>is. Inr (join_on 0 (map str_bytes is))),
      klUnmarshalIDs = (\<lambda>d. Inr (map (map (\<lambda>b. char_of (unat b))) (split_on 0 d)))\<rparr>"

definition sample_kvs :: "kv_mem sess_kvs" where
  "sample_kvs = snd (sk_Create kvm_store sample_libs 10 (Some sample_a) (sk_New kvm_New DefaultConfig))"

theorem kvs_session_roundtrip_witness:
  "\<exists>s'. sk_Create kvm_store sample_libs 10 (Some sample_a) (sk_New kvm_New DefaultConfig) = (None, s') \<and>
    fst (sk_Get kvm_store sample_libs 20 ''a'' s') = Inr sample_a"
proof -
  have v: "ValidSessionID (sID sample_a)" by code_simp
  have u: "klMarshal sample_libs sample_a = Inr [97]" by code_simp
  show ?thesis
    using kvs_session_roundtrip [of "sk_New kvm_New DefaultConfig" 10 20 sample_a sample_libs "[97]", OF _ _ _ _ v u]
    by (auto simp: sk_New_def kvm_New_def sample_libs_def sample_a_def witness_session_def IsExpired_def
        maxDuration_def is_zero_time_def)
qed

text \<open>Deleting a stored session makes its identifier read as not found from then on, and changes the
  read of no other identifier.\<close>

theorem kvs_session_delete:
  assumes "\<not> kvClosed (skBackend s)" "\<not> skClosed s" "0 \<le> now" "now \<le> t" "ValidSessionID i"
    "kvm_live now (skBackend s) (sessionKey (skConfig s) i) = Some d" "klUnmarshal L d = Inr x" "sID x = i"
  shows "\<exists>s'. sk_Delete kvm_store L now i s = (None, s') \<and>
    fst (sk_Get kvm_store L t i s') = Inl SessNotFound \<and>
    (\<forall>j. j \<noteq> i \<longrightarrow> fst (sk_Get kvm_store L t j s') = fst (sk_Get kvm_store L t j s))"
proof -
  obtain b' where c: "sk_Delete kvm_store L now i s = (None, s\<lparr>skBackend := b'\<rparr>)"
    and f: "sk.frame now {sessionKey (skConfig s) i, userSessionsKey (skConfig s) (klUUIDString L (sUserID x))} (skBackend s) b'"
    and l: "kvm_live t b' (sessionKey (skConfig s) i) = None"
    using sk.sk_Delete_effect [OF assms(1,3,2,5-8)] assms(4) by metis
  have o: "\<not> kvClosed (skBackend (s\<lparr>skBackend := b'\<rparr>))" using sk.frame_ok [OF f] by simp
  have t: "0 \<le> t" using assms(3,4) by simp
  have g: "fst (sk_Get kvm_store L t j (s\<lparr>skBackend := b'\<rparr>)) = sk_view L (skConfig s) t (kvm_live t b') j" for j
    using sk.sk_Get_view(1) [OF o t] assms(2) by simp
  have "fst (sk_Get kvm_store L t i (s\<lparr>skBackend := b'\<rparr>)) = Inl SessNotFound"
    using l by (simp add: g sk_view_def)
  moreover have "fst (sk_Get kvm_store L t j (s\<lparr>skBackend := b'\<rparr>)) = fst (sk_Get kvm_store L t j s)" if j: "j \<noteq> i" for j
  proof (cases "ValidSessionID j")
    case True
    have "kvm_live t b' (sessionKey (skConfig s) j) = kvm_live t (skBackend s) (sessionKey (skConfig s) j)"
      using sk.frame_live [OF f assms(4)] sessionKey_userKey [OF True] j by simp
    then show ?thesis unfolding g sk.sk_Get_view(1) [OF assms(1) t assms(2)] by (rule sk_view_cong)
  next
    case False
    then show ?thesis using assms(2) by (simp add: sk_Get_def)
  qed
  ultimately show ?thesis using c by blast
qed

lemma sample_kvs_facts:
  "\<not> kvClosed (skBackend sample_kvs)" "\<not> skClosed sample_kvs" "cfgKeyPrefix (skConfig sample_kvs) = ''session:''"
  "kvm_live 20 (skBackend sample_kvs) (sessionKey (skConfig sample_kvs) ''a'') = Some [97]"
  "kvm_live 20 (skBackend sample_kvs) (userSessionsKey (skConfig sample_kvs) ''u'') = Some [97]"
  by code_simp+

theorem kvs_session_delete_witness:
  "\<exists>s'. sk_Delete kvm_store sample_libs 20 ''a'' sample_kvs = (None, s') \<and>
    fst (sk_Get kvm_store sample_libs 30 ''a'' s') = Inl SessNotFound"
proof -
  have v: "ValidSessionID ''a''" by code_simp
  show ?thesis
    using kvs_session_delete [OF sample_kvs_facts(1,2) _ _ v sample_kvs_facts(4), of 30 sample_libs sample_a]
    by (auto simp: sample_libs_def sample_a_def witness_session_def)
qed

text \<open>C31: The index of a user lives only as long as the session that was added to it last: when a session
  that expires early is created after one that lasts, then an hour after the expiry of the early one
  the user has no sessions to list and none to delete, while the lasting session is still read.\<close>

theorem kvs_index_outlived:
  assumes "\<not> kvClosed (skBackend s)" "\<not> skClosed s" "0 \<le> now" "now \<le> t"
    "ValidSessionID (sID x)" "klMarshal L x = Inr dx"
    "kvm_live now (skBackend s) (userSessionsKey (skConfig s) u) = Some d" "klUnmarshalIDs L d = Inr ids"
    "klUUIDString L (sUserID x) = u" "sID x \<notin> set ids" "klMarshalIDs L (ids @ [sID x]) = Inr d'"
    "0 < duration_add (sk_ttl (skConfig s) now x) hour" "now + duration_add (sk_ttl (skConfig s) now x) hour < t"
    "i \<noteq> sID x" "fst (sk_Get kvm_store L t i s) = Inr y"
  shows "\<exists>s'. sk_Create kvm_store L now (Some x) s = (None, s') \<and> fst (sk_Get kvm_store L t i s') = Inr y \<and>
    fst (sk_ListByUserID kvm_store L t u s') = Inr [] \<and> fst (sk_DeleteByUserID kvm_store L t u s') = (0, None)"
proof -
  obtain b' where c: "sk_Create kvm_store L now (Some x) s = (None, s\<lparr>skBackend := b'\<rparr>)"
    and f: "sk.frame now {sessionKey (skConfig s) (sID x), userSessionsKey (skConfig s) (klUUIDString L (sUserID x))} (skBackend s) b'"
    using sk.sk_Create_effect [OF assms(1,3,2,5,6)] by metis
  let ?s = "s\<lparr>skBackend := b'\<rparr>"
  have o: "\<not> kvClosed (skBackend ?s)" "\<not> skClosed ?s" using sk.frame_ok [OF f] assms(2) by simp_all
  have t: "0 \<le> t" using assms(3,4) by simp
  have i: "ValidSessionID i" using assms(2,15) by (auto simp: sk_Get_def split: if_splits)
  have "kvm_live t b' (sessionKey (skConfig s) i) = kvm_live t (skBackend s) (sessionKey (skConfig s) i)"
    using sk.frame_live [OF f assms(4)] sessionKey_userKey [OF i] assms(14) by simp
  then have "sk_view L (skConfig s) t (kvm_live t b') i = sk_view L (skConfig s) t (kvm_live t (skBackend s)) i"
    by (rule sk_view_cong)
  then have "fst (sk_Get kvm_store L t i ?s) = Inr y"
    using sk.sk_Get_view(1) [OF o(1) t o(2)] sk.sk_Get_view(1) [OF assms(1) t assms(2)] assms(15) by simp
  moreover have "kvm_live t (skBackend ?s) (userSessionsKey (skConfig ?s) u) = None"
    using sk.sk_Create_index [OF assms(1,3,2,5,6) _ assms(8,10,11,4)] assms(7,9,12,13) c
    by (simp add: kvm_lasts_def)
  ultimately show ?thesis using c sk.sk_gone_index [OF o] by blast
qed

theorem kvs_index_outlived_witness:
  "\<exists>s'. sk_Create kvm_store sample_libs 20 (Some sample_b) sample_kvs = (None, s') \<and>
    fst (sk_Get kvm_store sample_libs 50000000000000 ''a'' s') = Inr sample_a \<and>
    fst (sk_DeleteByUserID kvm_store sample_libs 50000000000000 ''u'' s') = (0, None)"
proof -
  have v: "ValidSessionID (sID sample_b)" "klMarshal sample_libs sample_b = Inr [98]"
    "klUnmarshalIDs sample_libs [97] = Inr [''a'']" "klUUIDString sample_libs (sUserID sample_b) = ''u''"
    "sID sample_b \<notin> set [''a'']" "klMarshalIDs sample_libs ([''a''] @ [sID sample_b]) = Inr [97, 0, 98]"
    "0 < duration_add (sk_ttl (skConfig sample_kvs) 20 sample_b) hour"
    "20 + duration_add (sk_ttl (skConfig sample_kvs) 20 sample_b) hour < 50000000000000"
    "''a'' \<noteq> sID sample_b" "fst (sk_Get kvm_store sample_libs 50000000000000 ''a'' sample_kvs) = Inr sample_a"
    by code_simp+
  show ?thesis
    using kvs_index_outlived [OF sample_kvs_facts(1,2) _ _ v(1,2) sample_kvs_facts(5) v(3-6) v(7,8) v(9,10)] by auto
qed

end
