(* ===== verification/SyncCopy.thy ===== *)
theory SyncCopy
  imports SyncMemory
begin

section \<open>Copying and moving trees (\<open>object/sync/copy.go\<close>, \<open>Move\<close> of \<open>object/sync/sync.go\<close>)\<close>

text \<open>
  \<open>Copy\<close> decides between one file and a tree, which it leaves to \<open>Sync\<close>; \<open>TreeCopy\<close> copies file by
  file; \<open>Move\<close> is a run of \<open>Sync\<close> and a loop that deletes what the destination has. \<open>Sync\<close> stands here
  for the schedule that computes; the properties of \<open>Move\<close> are about every schedule.
\<close>

subsection \<open>One file\<close>

definition CopyFile :: "'w Backend \<Rightarrow> 'w Backend \<Rightarrow> path \<Rightarrow> path \<Rightarrow> 'w \<Rightarrow> object_error option \<times> 'w" where
  "CopyFile src dst srcPath dstPath w = copyFile src dst srcPath dstPath w"

definition copyFileWithReader ::
  "'w Backend \<Rightarrow> Stream \<Rightarrow> path \<Rightarrow> string \<Rightarrow> 'w \<Rightarrow> object_error option \<times> 'w" where
  "copyFileWithReader dst reader dstPath contentType w =
     (let writerOpts = (if contentType \<noteq> [] then [WithContentType contentType] else [])
      in case bkNewWriter dst dstPath writerOpts w of
           (Inl e, w1) \<Rightarrow> (Some e, w1)
         | (Inr wr, w1) \<Rightarrow>
             (case io_copy wr reader w1 of
                ((_, Some e), w2) \<Rightarrow> (Some e, snd (wrClose wr w2))
              | ((_, None), w2) \<Rightarrow> wrClose wr w2))"

definition CopyToPath ::
  "'w Backend \<Rightarrow> Stream \<Rightarrow> path \<Rightarrow> string \<Rightarrow> 'w \<Rightarrow> object_error option \<times> 'w" where
  "CopyToPath dst reader dstPath contentType w = copyFileWithReader dst reader dstPath contentType w"

definition CopyFromPath ::
  "'w Backend \<Rightarrow> path \<Rightarrow> 'w WriteCloser \<Rightarrow> 'w \<Rightarrow> (nat \<times> object_error option) \<times> 'w" where
  "CopyFromPath src srcPath writer w =
     (case bkNewReader src srcPath [] w of
        Inl e \<Rightarrow> ((0, Some e), w)
      | Inr reader \<Rightarrow> io_copy writer reader w)"

definition CopyBetweenPaths ::
  "'w Backend \<Rightarrow> 'w Backend \<Rightarrow> path \<Rightarrow> path \<Rightarrow> 'w \<Rightarrow> object_error option \<times> 'w" where
  "CopyBetweenPaths src dst srcPath dstPath w =
     (case (if bkId src = bkId dst then AsExtended src else None) of
        Some ext \<Rightarrow>
          if fCopy (exFeatures ext) then exCopy ext srcPath dstPath w
          else copyFile src dst srcPath dstPath w
      | None \<Rightarrow> copyFile src dst srcPath dstPath w)"

definition MoveFile :: "'w Backend \<Rightarrow> 'w Backend \<Rightarrow> path \<Rightarrow> path \<Rightarrow> 'w \<Rightarrow> object_error option \<times> 'w" where
  "MoveFile src dst srcPath dstPath w =
     (case (if bkId src = bkId dst then AsExtended src else None) of
        Some ext \<Rightarrow>
          if fMove (exFeatures ext) then exMove ext srcPath dstPath w
          else (case copyFile src dst srcPath dstPath w of
                  (Some e, w1) \<Rightarrow> (Some e, w1)
                | (None, w1) \<Rightarrow> bkDelete src srcPath w1)
      | None \<Rightarrow>
          (case copyFile src dst srcPath dstPath w of
             (Some e, w1) \<Rightarrow> (Some e, w1)
           | (None, w1) \<Rightarrow> bkDelete src srcPath w1))"

subsection \<open>\<open>Copy\<close>\<close>

definition new_result :: "SyncOptions \<Rightarrow> SyncResult" where
  "new_result opts =
     \<lparr>srCopied = 0, srUpdated = 0, srDeleted = 0, srSkipped = 0, srErrors = [], srBytesTransferred = 0,
      srDryRun = soDryRun opts\<rparr>"

text \<open>The transfer of a single file and the size that the statistics report for it.\<close>

definition copy_one ::
  "'w Backend \<Rightarrow> 'w Backend \<Rightarrow> path \<Rightarrow> path \<Rightarrow> SyncOptions \<Rightarrow> 'w \<Rightarrow> SyncResult \<times> 'w" where
  "copy_one src dst srcPath dstPath opts w =
     (case (if soDryRun opts then (None, w) else copyFile src dst srcPath dstPath w) of
        (Some e, w1) \<Rightarrow>
          ((new_result opts)\<lparr>srErrors := [\<lparr>fePath = srcPath, feOp = ''copy'', feErr = e\<rparr>]\<rparr>, w1)
      | (None, w1) \<Rightarrow>
          ((new_result opts)\<lparr>srCopied := 1,
             srBytesTransferred :=
               (case AsExtended src of
                  None \<Rightarrow> 0
                | Some ext \<Rightarrow> (case exStat ext srcPath w1 of Inl e \<Rightarrow> 0 | Inr info \<Rightarrow> ObjectSize info))\<rparr>, w1))"

definition Copy ::
  "SyncEnv \<Rightarrow> (nat \<Rightarrow> object_error option) \<Rightarrow> ((path \<times> FileInfo) list \<Rightarrow> (path \<times> FileInfo) list) \<Rightarrow>
   'w Backend \<Rightarrow> 'w Backend \<Rightarrow> path \<Rightarrow> path \<Rightarrow> SyncOptions \<Rightarrow> 'w \<Rightarrow>
   (SyncResult option \<times> object_error option) \<times> 'w" where
  "Copy env ctx ord src dst srcPath dstPath opts w =
     (case bkExists src srcPath w of
        Inl e \<Rightarrow> ((None, Some e), w)
      | Inr srcExists \<Rightarrow>
          (case bkList src srcPath w of
             Inl e \<Rightarrow> ((None, Some e), w)
           | Inr srcPaths \<Rightarrow>
               if srcExists \<and> length srcPaths = 1 \<and> srcPaths ! 0 = srcPath
               then (case (if soIgnoreExisting opts then bkExists dst dstPath w else Inr False) of
                       Inl e \<Rightarrow> ((None, Some e), w)
                     | Inr True \<Rightarrow> ((Some ((new_result opts)\<lparr>srSkipped := 1\<rparr>), None), w)
                     | Inr False \<Rightarrow>
                         (case copy_one src dst srcPath dstPath opts w of (r, w1) \<Rightarrow> ((Some r, None), w1)))
               else Sync env ctx ord src dst srcPath dstPath (opts\<lparr>soDeleteExtra := False\<rparr>) w))"

text \<open>\<open>CopyWithProgress\<close> only adds the callback; \<open>MustCopy\<close> panics with the error or the first file error.\<close>

definition CopyWithProgress ::
  "SyncEnv \<Rightarrow> (nat \<Rightarrow> object_error option) \<Rightarrow> ((path \<times> FileInfo) list \<Rightarrow> (path \<times> FileInfo) list) \<Rightarrow>
   'w Backend \<Rightarrow> 'w Backend \<Rightarrow> path \<Rightarrow> path \<Rightarrow> 'w \<Rightarrow> (SyncResult option \<times> object_error option) \<times> 'w" where
  "CopyWithProgress env ctx ord src dst srcPath dstPath w =
     Copy env ctx ord src dst srcPath dstPath zeroOptions w"

definition MustCopy ::
  "SyncEnv \<Rightarrow> (nat \<Rightarrow> object_error option) \<Rightarrow> ((path \<times> FileInfo) list \<Rightarrow> (path \<times> FileInfo) list) \<Rightarrow>
   'w Backend \<Rightarrow> 'w Backend \<Rightarrow> path \<Rightarrow> path \<Rightarrow> 'w \<Rightarrow> ((object_error + FileError) + SyncResult option) \<times> 'w" where
  "MustCopy env ctx ord src dst srcPath dstPath w =
     (case Copy env ctx ord src dst srcPath dstPath zeroOptions w of
        ((r, Some e), w1) \<Rightarrow> (Inl (Inl e), w1)
      | ((Some r, None), w1) \<Rightarrow>
          (if \<not> Success r then (Inl (Inr (srErrors r ! 0)), w1) else (Inr (Some r), w1))
      | ((None, None), w1) \<Rightarrow> (Inr None, w1))"

subsection \<open>\<open>TreeCopy\<close>\<close>

fun tree_loop ::
  "(nat \<Rightarrow> object_error option) \<Rightarrow> nat \<Rightarrow> 'w Backend \<Rightarrow> 'w Backend \<Rightarrow> path \<Rightarrow> path \<Rightarrow> SyncOptions \<Rightarrow>
   path list \<Rightarrow> SyncResult \<Rightarrow> 'w \<Rightarrow> (SyncResult \<times> object_error option) \<times> 'w" where
  "tree_loop ctx i src dst srcPath dstPath opts [] r w = ((r, None), w)"
| "tree_loop ctx i src dst srcPath dstPath opts (p # ps) r w =
     (case ctx i of
        Some e \<Rightarrow> ((r, Some e), w)
      | None \<Rightarrow>
          let fullDstPath = path_join [dstPath, relative_path srcPath p]
          in if soIgnoreExisting opts \<and> bkExists dst fullDstPath w = Inr True
             then tree_loop ctx (Suc i) src dst srcPath dstPath opts ps (r\<lparr>srSkipped := srSkipped r + 1\<rparr>) w
             else (case (if soDryRun opts then (None, w) else copyFile src dst p fullDstPath w) of
                     (Some e, w1) \<Rightarrow>
                       let r1 = r\<lparr>srErrors := srErrors r @ [\<lparr>fePath = p, feOp = ''copy'', feErr = e\<rparr>]\<rparr>
                       in if soMaxErrors opts > 0 \<and> int (length (srErrors r1)) \<ge> soMaxErrors opts
                          then ((r1, None), w1)
                          else tree_loop ctx (Suc i) src dst srcPath dstPath opts ps r1 w1
                   | (None, w1) \<Rightarrow>
                       tree_loop ctx (Suc i) src dst srcPath dstPath opts ps (r\<lparr>srCopied := srCopied r + 1\<rparr>) w1))"

definition TreeCopy ::
  "(nat \<Rightarrow> object_error option) \<Rightarrow> 'w Backend \<Rightarrow> 'w Backend \<Rightarrow> path \<Rightarrow> path \<Rightarrow> SyncOptions \<Rightarrow> 'w \<Rightarrow>
   (SyncResult option \<times> object_error option) \<times> 'w" where
  "TreeCopy ctx src dst srcPath dstPath opts w =
     (case bkList src srcPath w of
        Inl e \<Rightarrow> ((None, Some e), w)
      | Inr srcPaths \<Rightarrow>
          (case tree_loop ctx 0 src dst srcPath dstPath opts srcPaths (new_result opts) w of
             ((r, e), w1) \<Rightarrow> ((Some r, e), w1)))"

subsection \<open>\<open>Move\<close>\<close>

text \<open>The loop that deletes from the source every file the destination has by then.\<close>

fun move_loop ::
  "(nat \<Rightarrow> object_error option) \<Rightarrow> nat \<Rightarrow> 'w Backend \<Rightarrow> 'w Backend \<Rightarrow> path \<Rightarrow> path \<Rightarrow> SyncOptions \<Rightarrow>
   FileInfo list \<Rightarrow> SyncResult \<Rightarrow> 'w \<Rightarrow> (SyncResult \<times> object_error option) \<times> 'w" where
  "move_loop ctx i src dst srcPath dstPath opts [] r w = ((r, None), w)"
| "move_loop ctx i src dst srcPath dstPath opts (f # fs) r w =
     (if fiIsDir f then move_loop ctx i src dst srcPath dstPath opts fs r w
      else (case ctx i of
              Some e \<Rightarrow> ((r, Some e), w)
            | None \<Rightarrow>
                (case bkExists dst (path_join [dstPath, fiPath f]) w of
                   Inl e \<Rightarrow>
                     move_loop ctx (Suc i) src dst srcPath dstPath opts fs
                       (r\<lparr>srErrors := srErrors r @ [\<lparr>fePath = fiPath f, feOp = ''verify'', feErr = e\<rparr>]\<rparr>) w
                 | Inr False \<Rightarrow> move_loop ctx (Suc i) src dst srcPath dstPath opts fs r w
                 | Inr True \<Rightarrow>
                     (case bkDelete src (path_join [srcPath, fiPath f]) w of
                        (Some e, w1) \<Rightarrow>
                          let r1 = r\<lparr>srErrors := srErrors r @ [\<lparr>fePath = fiPath f, feOp = ''delete-source'', feErr = e\<rparr>]\<rparr>
                          in if soMaxErrors opts > 0 \<and> int (length (srErrors r1)) \<ge> soMaxErrors opts
                             then ((r1, None), w1)
                             else move_loop ctx (Suc i) src dst srcPath dstPath opts fs r1 w1
                      | (None, w1) \<Rightarrow> move_loop ctx (Suc i) src dst srcPath dstPath opts fs r w1))))"

text \<open>What follows the run of \<open>Sync\<close>, and the outcomes of \<open>Move\<close> over all its schedules.\<close>

definition move_finish ::
  "SyncEnv \<Rightarrow> (nat \<Rightarrow> object_error option) \<Rightarrow> 'w Backend \<Rightarrow> 'w Backend \<Rightarrow> path \<Rightarrow> path \<Rightarrow> SyncOptions \<Rightarrow>
   (SyncResult option \<times> object_error option) \<times> 'w \<Rightarrow> (SyncResult option \<times> object_error option) \<times> 'w" where
  "move_finish env ctx src dst srcPath dstPath opts out =
     (case out of
        ((Some r, None), w) \<Rightarrow>
          if soDryRun opts then ((Some r, None), w)
          else (case listFiles env opts src srcPath w of
                  Inl e \<Rightarrow> ((Some r, Some e), w)
                | Inr srcFiles \<Rightarrow>
                    (case move_loop ctx 0 src dst srcPath dstPath opts srcFiles r w of
                       ((r1, e), w1) \<Rightarrow> ((Some r1, e), w1)))
      | _ \<Rightarrow> out)"

definition Move ::
  "SyncEnv \<Rightarrow> (nat \<Rightarrow> object_error option) \<Rightarrow> ((path \<times> FileInfo) list \<Rightarrow> (path \<times> FileInfo) list) \<Rightarrow>
   'w Backend \<Rightarrow> 'w Backend \<Rightarrow> path \<Rightarrow> path \<Rightarrow> SyncOptions \<Rightarrow> 'w \<Rightarrow>
   (SyncResult option \<times> object_error option) \<times> 'w" where
  "Move env ctx ord src dst srcPath dstPath opts w =
     move_finish env ctx src dst srcPath dstPath (opts\<lparr>soDeleteExtra := False\<rparr>)
       (Sync env ctx ord src dst srcPath dstPath (opts\<lparr>soDeleteExtra := False\<rparr>) w)"

inductive move_outcome for env ctx ord src dst srcPath dstPath opts w where
  moved: "sync_outcome env ctx ord src dst srcPath dstPath (opts\<lparr>soDeleteExtra := False\<rparr>) w r w1 \<Longrightarrow>
    move_outcome env ctx ord src dst srcPath dstPath opts w
      (move_finish env ctx src dst srcPath dstPath (opts\<lparr>soDeleteExtra := False\<rparr>) (r, w1))"

inductive_cases move_outcomeE: "move_outcome env ctx ord src dst srcPath dstPath opts w out"

lemma move_loop_live:
  "(\<And>n. ctx n = None) \<Longrightarrow> snd (fst (move_loop ctx i src dst srcPath dstPath opts fs r w)) = None"
  by (induction ctx i src dst srcPath dstPath opts fs r w rule: move_loop.induct)
    (auto simp: Let_def split: sum.splits bool.splits prod.splits option.splits)

lemma Move_outcome: "move_outcome env ctx ord src dst srcPath dstPath opts w (Move env ctx ord src dst srcPath dstPath opts w)"
  unfolding Move_def
  by (cases "Sync env ctx ord src dst srcPath dstPath (opts\<lparr>soDeleteExtra := False\<rparr>) w")
    (simp add: move_outcome.moved Sync_outcome)

subsection \<open>Between stores that keep the contract\<close>

context stores
begin

lemma copyFile_data:
  assumes "i \<noteq> j" "ok w" "key q" "files i w p = Some d"
  shows "\<exists>w'. copyFile (B i) (B j) p q w = (None, w') \<and> ok w' \<and>
    files j w' = (files j w)(q := Some d) \<and> (\<forall>k. k \<noteq> j \<longrightarrow> files k w' = files k w)"
proof -
  have "copyFile (B i) (B j) p q w = copyFileWithContext env zeroOptions (B i) (B j) p q w" for env
    by (simp add: copyFile_def copyFileWithContext_def zeroOptions_def)
  then show ?thesis using copyFile_stores [OF assms, of undefined zeroOptions] by simp
qed

text \<open>What a tree copy leaves at the destination of a source path.\<close>

definition tree_value :: "SyncOptions \<Rightarrow> nat \<Rightarrow> nat \<Rightarrow> path \<Rightarrow> path \<Rightarrow> 'w \<Rightarrow> bytes option" where
  "tree_value opts i j p q w =
     (if soIgnoreExisting opts \<and> files j w q \<noteq> None then files j w q else files i w p)"

text \<open>One round of the loop: the file is copied, or skipped.\<close>

lemma tree_loop_step:
  assumes "i \<noteq> j" "\<And>n. ctx n = None" "\<not> soDryRun opts" "ok w" "files i w p \<noteq> None" "key (path_join [dp, relative_path sp p])"
  shows "\<exists>c s w1. tree_loop ctx n (B i) (B j) sp dp opts (p # ps) r w =
      tree_loop ctx (Suc n) (B i) (B j) sp dp opts ps (r\<lparr>srCopied := srCopied r + c, srSkipped := srSkipped r + s\<rparr>) w1 \<and>
    c + s = 1 \<and> ok w1 \<and> (\<forall>k. k \<noteq> j \<longrightarrow> files k w1 = files k w) \<and>
    files j w1 = (files j w)(path_join [dp, relative_path sp p] := tree_value opts i j p (path_join [dp, relative_path sp p]) w)"
proof -
  let ?q = "path_join [dp, relative_path sp p]"
  have ex: "bkExists (B j) ?q w = Inr (files j w ?q \<noteq> None)" using exists_law [OF assms(4,6)] .
  obtain d where d: "files i w p = Some d" using assms(5) by blast
  show ?thesis
  proof (cases "soIgnoreExisting opts \<and> files j w ?q \<noteq> None")
    case True
    then show ?thesis
      using ex assms(2,4) by (intro exI [of _ 0] exI [of _ 1] exI [of _ w]) (simp add: tree_value_def fun_upd_idem)
  next
    case False
    obtain w1 where w1: "copyFile (B i) (B j) p ?q w = (None, w1)" "ok w1"
      "files j w1 = (files j w)(?q := Some d)" "\<forall>k. k \<noteq> j \<longrightarrow> files k w1 = files k w"
      using copyFile_data [OF assms(1,4,6) d] by blast
    then show ?thesis
      using False ex assms(2,3) d
      by (intro exI [of _ 1] exI [of _ 0] exI [of _ w1]) (auto simp: tree_value_def Let_def)
  qed
qed

lemma tree_loop_stores:
  assumes "i \<noteq> j" "\<And>n. ctx n = None" "\<not> soDryRun opts" "ok w" "distinct ps"
    "\<forall>p \<in> set ps. files i w p \<noteq> None \<and> key (path_join [dp, relative_path sp p])"
    "inj_on (\<lambda>p. path_join [dp, relative_path sp p]) (set ps)"
  shows "\<exists>c s w'. tree_loop ctx n (B i) (B j) sp dp opts ps r w =
      ((r\<lparr>srCopied := srCopied r + c, srSkipped := srSkipped r + s\<rparr>, None), w') \<and> c + s = length ps \<and> ok w' \<and>
    (\<forall>k. k \<noteq> j \<longrightarrow> files k w' = files k w) \<and>
    (\<forall>p \<in> set ps. files j w' (path_join [dp, relative_path sp p]) =
       tree_value opts i j p (path_join [dp, relative_path sp p]) w) \<and>
    (\<forall>q. q \<notin> (\<lambda>p. path_join [dp, relative_path sp p]) ` set ps \<longrightarrow> files j w' q = files j w q)"
  using assms(4-7)
proof (induction ps arbitrary: n r w)
  case Nil
  show ?case using Nil.prems(1) by (intro exI [of _ 0] exI [of _ w]) simp
next
  case (Cons p ps)
  let ?g = "\<lambda>p. path_join [dp, relative_path sp p]"
  have fresh: "?g p \<notin> ?g ` set ps" and inj: "inj_on ?g (set ps)" "distinct ps" using Cons.prems(2,4) by (auto simp: inj_on_def)
  have p: "files i w p \<noteq> None" "key (?g p)" using Cons.prems(3) by simp_all
  obtain c1 s1 w1 where step: "tree_loop ctx n (B i) (B j) sp dp opts (p # ps) r w =
      tree_loop ctx (Suc n) (B i) (B j) sp dp opts ps (r\<lparr>srCopied := srCopied r + c1, srSkipped := srSkipped r + s1\<rparr>) w1"
    "c1 + s1 = 1" "ok w1" "\<forall>k. k \<noteq> j \<longrightarrow> files k w1 = files k w"
    "files j w1 = (files j w)(?g p := tree_value opts i j p (?g p) w)"
    using tree_loop_step [of i j ctx opts w p dp sp n ps r, OF assms(1,2,3) Cons.prems(1) p] by blast
  let ?r = "r\<lparr>srCopied := srCopied r + c1, srSkipped := srSkipped r + s1\<rparr>"
  have i1: "files i w1 = files i w" using step(4) assms(1) by blast
  have "\<forall>p \<in> set ps. files i w1 p \<noteq> None \<and> key (?g p)" using Cons.prems(3) i1 by simp
  from Cons.IH [OF step(3) inj(2) this inj(1), of "Suc n" ?r]
  obtain c s w' where ih: "tree_loop ctx (Suc n) (B i) (B j) sp dp opts ps ?r w1 =
      ((?r\<lparr>srCopied := srCopied ?r + c, srSkipped := srSkipped ?r + s\<rparr>, None), w')" "c + s = length ps" "ok w'"
    "\<forall>k. k \<noteq> j \<longrightarrow> files k w' = files k w1" "\<forall>p \<in> set ps. files j w' (?g p) = tree_value opts i j p (?g p) w1"
    "\<forall>q. q \<notin> ?g ` set ps \<longrightarrow> files j w' q = files j w1 q"
    by blast
  have "tree_value opts i j p' (?g p') w1 = tree_value opts i j p' (?g p') w" if "p' \<in> set ps" for p'
  proof -
    have "?g p' \<noteq> ?g p" using that fresh by (metis imageI)
    then show ?thesis using step(5) i1 by (auto simp: tree_value_def)
  qed
  then have "\<forall>p \<in> set (p # ps). files j w' (?g p) = tree_value opts i j p (?g p) w"
    using ih(5,6) fresh step(5) by simp
  moreover have "\<forall>q. q \<notin> ?g ` set (p # ps) \<longrightarrow> files j w' q = files j w q" using ih(6) step(5) by simp
  ultimately show ?case
    unfolding step(1) using ih(1-4) step(2,4)
    by (intro exI [of _ "c1 + c"] exI [of _ "s1 + s"] exI [of _ w']) (simp add: add.assoc)
qed

lemma move_loop_stores:
  assumes "i \<noteq> j" "\<And>n. ctx n = None" "ok w"
    "\<forall>f \<in> set fs. \<not> fiIsDir f \<and> key (path_join [sp, fiPath f]) \<and> key (path_join [dp, fiPath f])"
  shows "\<exists>w'. move_loop ctx n (B i) (B j) sp dp opts fs r w = ((r, None), w') \<and> ok w' \<and>
    (\<forall>k. k \<noteq> i \<longrightarrow> files k w' = files k w) \<and>
    files i w' = (\<lambda>q. if \<exists>f \<in> set fs. q = path_join [sp, fiPath f] \<and> files j w (path_join [dp, fiPath f]) \<noteq> None
                      then None else files i w q)"
  using assms(3,4)
proof (induction fs arbitrary: n w)
  case Nil
  then show ?case by simp
next
  case (Cons f fs)
  let ?s = "path_join [sp, fiPath f]" and ?d = "path_join [dp, fiPath f]"
  have k: "\<not> fiIsDir f" "key ?s" "key ?d" using Cons.prems(2) by simp_all
  have fs: "\<forall>f \<in> set fs. \<not> fiIsDir f \<and> key (path_join [sp, fiPath f]) \<and> key (path_join [dp, fiPath f])"
    using Cons.prems(2) by simp
  have ex: "bkExists (B j) ?d w = Inr (files j w ?d \<noteq> None)" using exists_law [OF Cons.prems(1) k(3)] .
  show ?case
  proof (cases "files j w ?d = None")
    case True
    have step: "move_loop ctx n (B i) (B j) sp dp opts (f # fs) r w = move_loop ctx (Suc n) (B i) (B j) sp dp opts fs r w"
      using True ex assms(2) k(1) by simp
    show ?thesis unfolding step using Cons.IH [OF Cons.prems(1) fs, of "Suc n"] True by auto
  next
    case False
    obtain w1 where w1: "bkDelete (B i) ?s w = (None, w1)" "ok w1"
      "files i w1 = (files i w)(?s := None)" "\<forall>k. k \<noteq> i \<longrightarrow> files k w1 = files k w"
      using delete_law [OF Cons.prems(1) k(2), of i] by blast
    have step: "move_loop ctx n (B i) (B j) sp dp opts (f # fs) r w = move_loop ctx (Suc n) (B i) (B j) sp dp opts fs r w1"
      using False ex assms(2) k(1) w1(1) by simp
    have j1: "files j w1 = files j w" using w1(4) assms(1) by metis
    from Cons.IH [OF w1(2) fs, of "Suc n"]
    obtain w' where ih: "move_loop ctx (Suc n) (B i) (B j) sp dp opts fs r w1 = ((r, None), w')" "ok w'"
      "\<forall>k. k \<noteq> i \<longrightarrow> files k w' = files k w1"
      "files i w' = (\<lambda>q. if \<exists>f \<in> set fs. q = path_join [sp, fiPath f] \<and> files j w1 (path_join [dp, fiPath f]) \<noteq> None
                      then None else files i w1 q)"
      by blast
    have "files i w' = (\<lambda>q. if \<exists>g \<in> set (f # fs). q = path_join [sp, fiPath g] \<and> files j w (path_join [dp, fiPath g]) \<noteq> None
                      then None else files i w q)"
      unfolding ih(4) j1 w1(3) using False by (intro ext) (auto simp del: not_None_eq)
    then show ?thesis unfolding step using ih(1-3) w1(4) by (intro exI [of _ w']) simp
  qed
qed

end

context synced_stores
begin

lemma TreeCopy_effect:
  assumes "i \<noteq> j" "ok w" "base_ok sp" "base_ok dp" "dp = [] \<longrightarrow> sp = []" "clean_under i sp w"
    "\<not> soDryRun opts" "\<And>n. ctx n = None"
  shows "\<exists>r w'. TreeCopy ctx (B i) (B j) sp dp opts w = ((Some r, None), w') \<and> srErrors r = [] \<and>
    srCopied r + srSkipped r = card {x. plain_key x \<and> files i w (path_join [sp, x]) \<noteq> None} \<and> ok w' \<and>
    (\<forall>k. k \<noteq> j \<longrightarrow> files k w' = files k w) \<and>
    (\<forall>x. plain_key x \<longrightarrow> files j w' (path_join [dp, x]) =
      (if files i w (path_join [sp, x]) = None \<or> (soIgnoreExisting opts \<and> files j w (path_join [dp, x]) \<noteq> None)
       then files j w (path_join [dp, x]) else files i w (path_join [sp, x]))) \<and>
    (\<forall>q. (\<nexists>x. plain_key x \<and> q = path_join [dp, x]) \<longrightarrow> files j w' q = files j w q)"
proof -
  obtain ps where ps: "bkList (B i) sp w = Inr ps" "distinct ps" "set ps = {p. files i w p \<noteq> None \<and> under i sp p}"
    using list_law [OF assms(2)] assms(3) unfolding base_ok_def by blast
  let ?X = "{x. plain_key x \<and> files i w (path_join [sp, x]) \<noteq> None}"
  let ?g = "\<lambda>p. path_join [dp, relative_path sp p]"
  have set: "set ps = (\<lambda>x. path_join [sp, x]) ` ?X"
    unfolding ps(3) using assms(6) under_join [OF assms(3)] unfolding clean_under_def by blast
  have rel: "relative_path sp (path_join [sp, x]) = x" if "x \<in> ?X" for x
    using that relative_join [OF assms(3)] by blast
  have keys: "\<forall>p \<in> set ps. files i w p \<noteq> None \<and> key (?g p)"
    unfolding set using rel key_dst [OF assms(2-5)] by fastforce
  have injd: "x = y" if "plain_key x" "plain_key y" "path_join [dp, x] = path_join [dp, y]" for x y
    using that relative_join [OF assms(4)] by metis
  have inj: "inj_on ?g (set ps)"
  proof (rule inj_onI)
    fix p q assume "p \<in> set ps" "q \<in> set ps" and eq: "?g p = ?g q"
    then obtain x y where xy: "x \<in> ?X" "p = path_join [sp, x]" "y \<in> ?X" "q = path_join [sp, y]" unfolding set by blast
    then show "p = q" using eq rel injd by auto
  qed
  have g: "?g ` set ps = (\<lambda>x. path_join [dp, x]) ` ?X" unfolding set image_image using rel by (intro image_cong) auto
  obtain c s w' where t: "tree_loop ctx 0 (B i) (B j) sp dp opts ps (new_result opts) w =
      (((new_result opts)\<lparr>srCopied := srCopied (new_result opts) + c, srSkipped := srSkipped (new_result opts) + s\<rparr>, None), w')"
    "c + s = length ps" "ok w'" "\<forall>k. k \<noteq> j \<longrightarrow> files k w' = files k w"
    "\<forall>p \<in> set ps. files j w' (?g p) = tree_value opts i j p (?g p) w" "\<forall>q. q \<notin> ?g ` set ps \<longrightarrow> files j w' q = files j w q"
    using tree_loop_stores [of i j ctx opts w ps dp sp 0 "new_result opts", OF assms(1,8,7,2) ps(2) keys inj] by blast
  have "length ps = card ?X"
  proof -
    have "inj_on (\<lambda>x. path_join [sp, x]) ?X" using rel by (metis (no_types, lifting) inj_onI)
    then show ?thesis using distinct_card [OF ps(2)] set by (simp add: card_image)
  qed
  moreover have "files j w' (path_join [dp, x]) =
      (if files i w (path_join [sp, x]) = None \<or> (soIgnoreExisting opts \<and> files j w (path_join [dp, x]) \<noteq> None)
       then files j w (path_join [dp, x]) else files i w (path_join [sp, x]))" if x: "plain_key x" for x
  proof (cases "x \<in> ?X")
    case True
    then have "path_join [sp, x] \<in> set ps" unfolding set by blast
    then have "files j w' (path_join [dp, x]) = tree_value opts i j (path_join [sp, x]) (path_join [dp, x]) w"
      using t(5) rel [OF True] by fastforce
    then show ?thesis using True by (auto simp: tree_value_def)
  next
    case False
    then have "path_join [dp, x] \<notin> ?g ` set ps" unfolding g using injd x by fastforce
    then show ?thesis using t(6) False x by simp
  qed
  moreover have "files j w' q = files j w q" if "\<nexists>x. plain_key x \<and> q = path_join [dp, x]" for q
  proof -
    have "q \<notin> ?g ` set ps" unfolding g using that by blast
    then show ?thesis using t(6) by blast
  qed
  ultimately show ?thesis
    using ps(1) t(1-4) by (simp add: TreeCopy_def new_result_def)
qed

lemma Move_effect:
  assumes "i \<noteq> j" "ok w" "range_order ord" "base_ok sp" "base_ok dp" "dp = [] \<longrightarrow> sp = []"
    "clean_under i sp w" "clean_under j dp w" "soFilter opts = None" "\<not> soDryRun opts" "\<And>n. ctx n = None"
    "move_outcome env ctx ord (B i) (B j) sp dp opts w ((Some r, None), w')"
  shows "ok w'" "srErrors r = []" "\<forall>k. k \<noteq> i \<longrightarrow> k \<noteq> j \<longrightarrow> files k w' = files k w"
    "\<And>x. plain_key x \<Longrightarrow> files i w' (path_join [sp, x]) = None"
    "\<And>q. \<not> (\<exists>x. plain_key x \<and> q = path_join [sp, x]) \<Longrightarrow> files i w' q = files i w q"
    "\<And>x. plain_key x \<Longrightarrow> files j w' (path_join [dp, x]) =
      (case files i w (path_join [sp, x]) of
         Some d \<Rightarrow>
           if files j w (path_join [dp, x]) = None \<or>
              (NeedsUpdate env (rel_info opts i sp x w) (rel_info opts j dp x w) opts \<and> \<not> soIgnoreExisting opts)
           then Some d else files j w (path_join [dp, x])
       | None \<Rightarrow> files j w (path_join [dp, x]))"
    "\<And>q. \<not> (\<exists>x. plain_key x \<and> q = path_join [dp, x]) \<Longrightarrow> files j w' q = files j w q"
proof -
  let ?o = "opts\<lparr>soDeleteExtra := False\<rparr>"
  have o: "soFilter ?o = None" "\<not> soDryRun ?o" using assms(9,10) by simp_all
  have info: "rel_info ?o k b x w = rel_info opts k b x w" for k b x
    by (simp add: rel_info_def file_info_def Let_def cong: sum.case_cong option.case_cong)
  have nu: "NeedsUpdate env f g ?o = NeedsUpdate env f g opts" for f g by (simp add: NeedsUpdate_def)
  obtain out w1 where out: "sync_outcome env ctx ord (B i) (B j) sp dp ?o w out w1"
    "move_finish env ctx (B i) (B j) sp dp ?o (out, w1) = ((Some r, None), w')"
    using assms(12) by (auto elim: move_outcomeE)
  obtain r0 where r0: "out = (Some r0, None)"
    using out(2) by (cases out; cases "fst out"; cases "snd out") (auto simp: move_finish_def)
  note eff = Sync_effect [of i j w ord sp dp ?o ctx env r0 w1, OF assms(1-8) o assms(11) out(1) [unfolded r0], unfolded info nu]
  have i1: "files i w1 = files i w" using eff(2) assms(1) by blast
  have clean: "clean_under i sp w1" using assms(7) i1 by (simp add: clean_under_def)
  obtain fs where fs: "listFiles env ?o (B i) sp w1 = Inr fs" "tree_of ?o i sp w1 fs"
    using listFiles_tree [OF eff(1) assms(4) clean o(1)] .
  note T = tree_ofD [OF eff(1) assms(4) fs(2), unfolded i1]
  have keys: "\<forall>f \<in> set fs. \<not> fiIsDir f \<and> key (path_join [sp, fiPath f]) \<and> key (path_join [dp, fiPath f])"
    using T(2) key_law [OF assms(2)] key_dst [OF assms(2,4-6)] by blast
  obtain w2 where w2: "move_loop ctx 0 (B i) (B j) sp dp ?o fs r0 w1 = ((r0, None), w2)" "ok w2"
    "\<forall>k. k \<noteq> i \<longrightarrow> files k w2 = files k w1"
    "files i w2 = (\<lambda>q. if \<exists>f \<in> set fs. q = path_join [sp, fiPath f] \<and> files j w1 (path_join [dp, fiPath f]) \<noteq> None
                      then None else files i w1 q)"
    using move_loop_stores [of i j ctx w1 fs sp dp 0 ?o r0, OF assms(1,11) eff(1) keys] by blast
  have rw: "r = r0" "w' = w2" using out(2) o(2) fs(1) w2(1) by (simp_all add: move_finish_def r0)
  have j2: "files j w2 = files j w1" using w2(3) assms(1) by metis
  show "ok w'" "srErrors r = []" "\<forall>k. k \<noteq> i \<longrightarrow> k \<noteq> j \<longrightarrow> files k w' = files k w"
    using w2(2,3) eff(2,3) rw by simp_all
  show "files i w' (path_join [sp, x]) = None" if x: "plain_key x" for x
  proof (cases "files i w (path_join [sp, x])")
    case (Some d)
    then have "x \<in> fiPath ` set fs" unfolding T(4) using x by simp
    then obtain f where f: "f \<in> set fs" "fiPath f = x" by blast
    have "files j w1 (path_join [dp, x]) \<noteq> None" unfolding eff(4) [OF x] using Some by auto
    then show ?thesis unfolding rw w2(4) using f by auto
  next
    case None
    then show ?thesis unfolding rw w2(4) i1 by simp
  qed
  show "files i w' q = files i w q" if q: "\<not> (\<exists>x. plain_key x \<and> q = path_join [sp, x])" for q
    unfolding rw w2(4) i1 using q T(2) by auto
  show "files j w' q = files j w q" if "\<not> (\<exists>x. plain_key x \<and> q = path_join [dp, x])" for q
    unfolding rw j2 using eff(5) [OF that] .
  show "files j w' (path_join [dp, x]) =
      (case files i w (path_join [sp, x]) of
         Some d \<Rightarrow>
           if files j w (path_join [dp, x]) = None \<or>
              (NeedsUpdate env (rel_info opts i sp x w) (rel_info opts j dp x w) opts \<and> \<not> soIgnoreExisting opts)
           then Some d else files j w (path_join [dp, x])
       | None \<Rightarrow> files j w (path_join [dp, x]))" if "plain_key x" for x
    unfolding rw j2 eff(4) [OF that] by (simp split: option.splits)
qed

end

subsection \<open>Properties, for memory backends\<close>

lemma sync_setting_extra [simp]: "sync_setting i j sp dp (opts\<lparr>soDeleteExtra := b\<rparr>) W = sync_setting i j sp dp opts W"
  by (simp add: sync_setting_def)

text \<open>A move between memory backends in order always ends well.\<close>

lemma mem_Move_live:
  assumes "sync_setting i j sp dp opts W" "range_order ord" "\<And>n. ctx n = None"
  shows "\<exists>r W'. move_outcome env ctx ord (mem_Backend i) (mem_Backend j) sp dp opts W ((Some r, None), W')"
proof -
  let ?o = "opts\<lparr>soDeleteExtra := False\<rparr>"
  have s: "sync_setting i j sp dp ?o W" using assms(1) by simp
  obtain pl where pl: "sync_plan env ord (mem_Backend i) (mem_Backend j) sp dp ?o W = Inr pl"
    using mem_listFiles_ok [OF s, of env] by (auto simp: sync_plan_def case_prod_beta)
  obtain r W1 where y: "Sync env ctx ord (mem_Backend i) (mem_Backend j) sp dp ?o W = ((Some r, None), W1)"
    using Sync_live [of ctx, OF assms(3) pl] by blast
  note eff = mem_Sync_effect [OF s assms(2,3) Sync_outcome [OF y]]
  have a: "i \<noteq> j" "mem_base_ok sp" "mem_clean_under i sp W" "\<not> soDryRun opts"
    using assms(1) by (simp_all add: sync_setting_def)
  then have "mem_clean_under i sp W1" using eff(2) by (simp add: mem_clean_under_def)
  then obtain fs where fs: "listFiles env ?o (mem_Backend i) sp W1 = Inr fs"
    using mem_sync.listFiles_stores [OF eff(1), unfolded mem_sync_eqs, OF a(2), of i env ?o] by blast
  obtain r1 W' where "move_loop ctx 0 (mem_Backend i) (mem_Backend j) sp dp ?o fs r W1 = ((r1, None), W')"
    using move_loop_live [of ctx, OF assms(3), of 0 "mem_Backend i" "mem_Backend j" sp dp ?o fs r W1] by (metis prod.collapse)
  then have "move_finish env ctx (mem_Backend i) (mem_Backend j) sp dp ?o ((Some r, None), W1) = ((Some r1, None), W')"
    using fs a(4) by (simp add: move_finish_def)
  moreover have "move_outcome env ctx ord (mem_Backend i) (mem_Backend j) sp dp opts W
      (move_finish env ctx (mem_Backend i) (mem_Backend j) sp dp ?o ((Some r, None), W1))"
    by (rule move_outcome.moved) (rule Sync_outcome [OF y])
  ultimately show ?thesis by metis
qed

text \<open>C9: \<open>Move\<close>, for every schedule of the workers: the destination is what \<open>Sync\<close> makes of it, and the
  source tree is empty afterwards. Every file of the source is deleted, also where the destination
  had a file of its own that was kept (existing files ignored, or a comparison that sees no
  difference).\<close>

theorem move_empties_source:
  assumes "sync_setting i j sp dp opts W" "range_order ord" "\<And>n. ctx n = None"
    "move_outcome env ctx ord (mem_Backend i) (mem_Backend j) sp dp opts W ((Some r, None), W')" "plain_key x"
  shows "wd_files i W' (path_join [sp, x]) = None \<and>
    wd_files j W' (path_join [dp, x]) =
      (case wd_files i W (path_join [sp, x]) of
         Some d \<Rightarrow>
           if wd_files j W (path_join [dp, x]) = None \<or>
              (NeedsUpdate env (mem_info opts i sp x W) (mem_info opts j dp x W) opts \<and> \<not> soIgnoreExisting opts)
           then Some d else wd_files j W (path_join [dp, x])
       | None \<Rightarrow> wd_files j W (path_join [dp, x]))"
proof -
  note a = assms(1) [unfolded sync_setting_def]
  have p: "i \<noteq> j" "wd_ok W" "mem_sync.base_ok sp" "mem_sync.base_ok dp" "dp = [] \<longrightarrow> sp = []"
    "mem_sync.clean_under i sp W" "mem_sync.clean_under j dp W" "soFilter opts = None" "\<not> soDryRun opts"
    unfolding mem_sync_eqs using a by blast+
  note eff = mem_sync.Move_effect [OF p(1,2) assms(2) p(3-9) assms(3,4), unfolded mem_sync_eqs]
  show ?thesis using eff(4,6) assms(5) by blast
qed

theorem move_empties_source_witness:
  "\<exists>r W'. move_outcome witness_env (\<lambda>n. None) id (mem_Backend 0) (mem_Backend 1) [] [] zeroOptions witness_world
      ((Some r, None), W') \<and> wd_files 0 W' ''a'' = None \<and> wd_files 1 W' ''a'' = Some [5]"
proof -
  have s: "sync_setting 0 1 [] [] zeroOptions witness_world" using witness_setting by simp
  obtain r W' where o: "move_outcome witness_env (\<lambda>n. None) id (mem_Backend 0) (mem_Backend 1) [] [] zeroOptions witness_world
      ((Some r, None), W')" using mem_Move_live [OF s range_order_id refl, of witness_env] by blast
  have k: "plain_key ''a''" using mem_key_letter(1) by (simp add: mem_key_def)
  have n: "wd_files 1 witness_world ''a'' = None"
    by (simp add: wd_files_def witness_world_def mem_New_def mem_files_def)
  show ?thesis
    using move_empties_source [OF s range_order_id refl o k] o n
    by (auto simp: witness_world_files plain_key_join_Nil [OF k])
qed

text \<open>\<open>TreeCopy\<close> between memory backends copies every file of the source tree to the same place below the
  destination, except those that exist there and are to be ignored; it changes nothing else and
  accounts for every file.\<close>

theorem tree_copy:
  assumes "i \<noteq> j" "wd_ok W" "mem_base_ok sp" "mem_base_ok dp" "dp = [] \<longrightarrow> sp = []" "mem_clean_under i sp W"
    "\<not> soDryRun opts" "\<And>n. ctx n = None"
  shows "\<exists>r W'. TreeCopy ctx (mem_Backend i) (mem_Backend j) sp dp opts W = ((Some r, None), W') \<and> srErrors r = [] \<and>
    srCopied r + srSkipped r = card {x. plain_key x \<and> wd_files i W (path_join [sp, x]) \<noteq> None} \<and> wd_ok W' \<and>
    (\<forall>k. k \<noteq> j \<longrightarrow> wd_files k W' = wd_files k W) \<and>
    (\<forall>x. plain_key x \<longrightarrow> wd_files j W' (path_join [dp, x]) =
      (if wd_files i W (path_join [sp, x]) = None \<or> (soIgnoreExisting opts \<and> wd_files j W (path_join [dp, x]) \<noteq> None)
       then wd_files j W (path_join [dp, x]) else wd_files i W (path_join [sp, x]))) \<and>
    (\<forall>q. (\<nexists>x. plain_key x \<and> q = path_join [dp, x]) \<longrightarrow> wd_files j W' q = wd_files j W q)"
  using assms by (rule mem_sync.TreeCopy_effect [unfolded mem_sync_eqs])

theorem tree_copy_witness:
  "\<exists>r W'. TreeCopy (\<lambda>n. None) (mem_Backend 0) (mem_Backend 1) [] [] zeroOptions witness_world = ((Some r, None), W') \<and>
    wd_files 1 W' ''a'' = Some [5]"
proof -
  have k: "plain_key ''a''" using mem_key_letter(1) by (simp add: mem_key_def)
  have z: "mem_base_ok []" "\<not> soDryRun zeroOptions" "\<not> soIgnoreExisting zeroOptions" "mem_clean_under 0 [] witness_world"
    using witness_setting by (simp_all add: zeroOptions_def mem_base_ok_def sync_setting_def)
  obtain r W' where t: "TreeCopy (\<lambda>n. None) (mem_Backend 0) (mem_Backend 1) [] [] zeroOptions witness_world = ((Some r, None), W')"
    "\<forall>x. plain_key x \<longrightarrow> wd_files 1 W' (path_join [[], x]) =
      (if wd_files 0 witness_world (path_join [[], x]) = None \<or>
          (soIgnoreExisting zeroOptions \<and> wd_files 1 witness_world (path_join [[], x]) \<noteq> None)
       then wd_files 1 witness_world (path_join [[], x]) else wd_files 0 witness_world (path_join [[], x]))"
    using tree_copy [of 0 1, OF _ witness_world_ok z(1,1) _ z(4,2) refl] by (auto simp del: not_None_eq)
  have "wd_files 1 W' ''a'' = Some [5]"
    using t(2) [rule_format, OF k] z(3) by (simp add: plain_key_join_Nil [OF k] witness_world_files)
  then show ?thesis using t(1) by blast
qed

text \<open>\<open>Copy\<close> of one file between memory backends: an existing destination is skipped if it is to be
  ignored; otherwise the file is copied and the result counts it with its size.\<close>

theorem copy_single_file:
  assumes "i \<noteq> j" "wd_ok W" "mem_key q" "wd_files i W p = Some d" "\<not> soDryRun opts"
    "\<And>p'. wd_files i W p' \<noteq> None \<Longrightarrow> mem_under p p' \<Longrightarrow> p' = p"
  shows "\<exists>r W'. Copy env ctx ord (mem_Backend i) (mem_Backend j) p q opts W = ((Some r, None), W') \<and> Success r \<and>
    (if soIgnoreExisting opts \<and> wd_files j W q \<noteq> None
     then srSkipped r = 1 \<and> srCopied r = 0 \<and> W' = W
     else srCopied r = 1 \<and> srBytesTransferred r = int (length d) \<and> wd_files j W' = (wd_files j W)(q := Some d) \<and>
          (\<forall>k. k \<noteq> j \<longrightarrow> wd_files k W' = wd_files k W))"
proof -
  have p: "mem_key p" using mem_stores.key_law [OF assms(2,4)] .
  obtain ps where ps: "bkList (mem_Backend i) p W = Inr ps" "distinct ps" "set ps = {p'. wd_files i W p' \<noteq> None \<and> mem_under p p'}"
    using mem_stores.list_law [OF assms(2)] p by blast
  have "set ps = {p}" using ps(3) assms(4,6) p by (auto simp: mem_under_def has_prefix_def)
  then have l: "ps = [p]" using ps(2) by (cases ps; cases "tl ps") auto
  have e: "bkExists (mem_Backend i) p W = Inr True" "bkExists (mem_Backend j) q W = Inr (wd_files j W q \<noteq> None)"
    using mem_stores.exists_law [OF assms(2) p] mem_stores.exists_law [OF assms(2,3)] assms(4) by simp_all
  show ?thesis
  proof (cases "soIgnoreExisting opts \<and> wd_files j W q \<noteq> None")
    case True
    then show ?thesis using ps(1) l e by (simp add: Copy_def new_result_def Success_def)
  next
    case False
    obtain W' where w': "copyFile (mem_Backend i) (mem_Backend j) p q W = (None, W')" "wd_ok W'"
      "wd_files j W' = (wd_files j W)(q := Some d)" "\<forall>k. k \<noteq> j \<longrightarrow> wd_files k W' = wd_files k W"
      using mem_stores.copyFile_data [OF assms(1-4)] by blast
    have "wd_files i W' p = Some d" using w'(4) assms(1,4) by simp
    then obtain info where "exStat (mem_Ext i) p W' = Inr info" "ObjectSize info = int (length d)"
      using mem_Ext_stat [OF w'(2)] by blast
    then have c: "copy_one (mem_Backend i) (mem_Backend j) p q opts W =
        ((new_result opts)\<lparr>srCopied := 1, srBytesTransferred := int (length d)\<rparr>, W')"
      using w'(1) assms(5) by (simp add: copy_one_def AsExtended_def mem_Backend_ext)
    have "(if soIgnoreExisting opts then bkExists (mem_Backend j) q W else Inr False) = Inr False"
      using False e(2) by auto
    then show ?thesis
      using False ps(1) l e c w'(3,4) by (auto simp: Copy_def new_result_def Success_def)
  qed
qed

theorem copy_single_file_witness:
  "\<exists>r W'. Copy witness_env (\<lambda>n. None) id (mem_Backend 0) (mem_Backend 1) ''a'' ''b'' zeroOptions witness_world = ((Some r, None), W') \<and>
    srCopied r = 1 \<and> wd_files 1 W' ''b'' = Some [5]"
proof -
  have o: "\<not> soDryRun zeroOptions" "\<not> soIgnoreExisting zeroOptions" by (simp_all add: zeroOptions_def)
  have f: "wd_files 0 witness_world ''a'' = Some [5]" by (simp add: witness_world_files)
  have u: "p' = ''a''" if "wd_files 0 witness_world p' \<noteq> None" for p'
    using that by (simp add: witness_world_files split: if_splits)
  obtain r W' where "Copy witness_env (\<lambda>n. None) id (mem_Backend 0) (mem_Backend 1) ''a'' ''b'' zeroOptions witness_world =
      ((Some r, None), W')" "srCopied r = 1" "wd_files 1 W' = (wd_files 1 witness_world)(''b'' := Some [5])"
    using copy_single_file [of 0 1, OF _ witness_world_ok mem_key_letter(2) f o(1) u, of witness_env "\<lambda>n. None" id] o(2)
    by auto
  then show ?thesis by simp
qed

end
