(* ===== verification/SyncCheck.thy ===== *)
theory SyncCheck
  imports SyncMemory
begin

section \<open>Checking and verifying (\<open>object/sync/check.go\<close>, \<open>object/sync/verify.go\<close>)\<close>

text \<open>
  \<open>Check\<close> lists both sides and puts every file in one of the lists of its result; \<open>Verify\<close> and its
  variants read that result. A reader is its remaining bytes and the error that ends it
  (\<open>io.EOF\<close> at the end of the data); \<open>io.ReadFull\<close> of the standard library fills a buffer from it.
  The last range of \<open>Check\<close>, over the map of the files only the destination has, takes its order as an
  argument.
\<close>

subsection \<open>Comparing the content of two readers\<close>

type_synonym reader = "bytes \<times> object_error"

definition open_reader :: "Stream \<Rightarrow> reader" where
  "open_reader s = (concat (sChunks s), (case sErr s of None \<Rightarrow> EOF | Some e \<Rightarrow> e))"

text \<open>\<open>io.ReadFull\<close>: nil when the buffer is full, \<open>EOF\<close> only if nothing was read.\<close>

definition read_full :: "nat \<Rightarrow> reader \<Rightarrow> bytes \<times> object_error option \<times> reader" where
  "read_full n r =
     (take n (fst r),
      (if n \<le> length (fst r) then None
       else if fst r \<noteq> [] \<and> snd r = EOF then Some ErrUnexpectedEOF else Some (snd r)),
      (drop n (fst r), snd r))"

definition compare_buffer :: nat where
  "compare_buffer = 64 * 1024"

definition is_eof :: "object_error option \<Rightarrow> bool" where
  "is_eof err \<longleftrightarrow> err = Some EOF \<or> err = Some ErrUnexpectedEOF"

function compare_loop :: "reader \<Rightarrow> reader \<Rightarrow> bool res" where
  "compare_loop srcReader dstReader =
     (case read_full compare_buffer srcReader of
        (srcBuf, srcErr, src') \<Rightarrow>
          (case read_full compare_buffer dstReader of
             (dstBuf, dstErr, dst') \<Rightarrow>
               if length srcBuf \<noteq> length dstBuf then Inr False
               else if srcBuf \<noteq> dstBuf then Inr False
               else if is_eof srcErr \<and> is_eof dstErr then Inr True
               else if is_eof srcErr \<noteq> is_eof dstErr then Inr False
               else (case srcErr of
                       Some e \<Rightarrow> Inl e
                     | None \<Rightarrow>
                         (case dstErr of
                            Some e \<Rightarrow> Inl e
                          | None \<Rightarrow> compare_loop src' dst'))))"
  by pat_completeness auto
termination
  by (relation "measure (\<lambda>(a, b). length (fst a))")
    (auto simp: read_full_def compare_buffer_def split: if_splits)

declare compare_loop.simps [simp del]

definition compareContent ::
  "'w Backend \<Rightarrow> 'w Backend \<Rightarrow> path \<Rightarrow> path \<Rightarrow> path \<Rightarrow> path \<Rightarrow> 'w \<Rightarrow> bool res" where
  "compareContent src dst srcRelPath dstRelPath srcBasePath dstBasePath w =
     (case bkNewReader src (path_join [srcBasePath, srcRelPath]) [] w of
        Inl e \<Rightarrow> Inl e
      | Inr srcReader \<Rightarrow>
          (case bkNewReader dst (path_join [dstBasePath, dstRelPath]) [] w of
             Inl e \<Rightarrow> Inl e
           | Inr dstReader \<Rightarrow> compare_loop (open_reader srcReader) (open_reader dstReader)))"

subsection \<open>Comparing two files\<close>

text \<open>The negation of a 64-bit duration: the least one is its own negation.\<close>

definition neg_duration :: "duration \<Rightarrow> duration" where
  "neg_duration d = (if d = minDuration then minDuration else - d)"

definition filesMatch ::
  "'w Backend \<Rightarrow> 'w Backend \<Rightarrow> FileInfo \<Rightarrow> FileInfo \<Rightarrow> path \<Rightarrow> path \<Rightarrow> SyncOptions \<Rightarrow> 'w \<Rightarrow> bool res" where
  "filesMatch src dst srcFile dstFile srcBasePath dstBasePath opts w =
     (if \<not> soIgnoreSize opts \<and> fiSize srcFile \<noteq> fiSize dstFile then Inr False
      else if soChecksum opts \<and> fiHash srcFile \<noteq> [] \<and> fiHash dstFile \<noteq> []
           then Inr (fiHash srcFile = fiHash dstFile)
      else if (\<not> soIgnoreTime opts \<and> \<not> soChecksum opts) \<and>
              (let timeDiff = time_sub (fiModTime srcFile) (fiModTime dstFile);
                   timeDiff = (if timeDiff < 0 then neg_duration timeDiff else timeDiff)
               in timeDiff > 1000000000)
           then Inr False
      else if soChecksum opts
           then compareContent src dst (fiPath srcFile) (fiPath dstFile) srcBasePath dstBasePath w
      else Inr True)"

subsection \<open>\<open>Check\<close> and \<open>Diff\<close>\<close>

definition zeroCheckResult :: CheckResult where
  "zeroCheckResult = \<lparr>crMatch = [], crDiffer = [], crSrcOnly = [], crDstOnly = [], crErrors = []\<rparr>"

fun check_loop ::
  "'w Backend \<Rightarrow> 'w Backend \<Rightarrow> path \<Rightarrow> path \<Rightarrow> SyncOptions \<Rightarrow> 'w \<Rightarrow> FileInfo list \<Rightarrow>
   (path, FileInfo) gomap \<Rightarrow> CheckResult \<Rightarrow> CheckResult \<times> (path, FileInfo) gomap" where
  "check_loop src dst srcPath dstPath opts w [] dstMap r = (r, dstMap)"
| "check_loop src dst srcPath dstPath opts w (f # fs) dstMap r =
     (if fiIsDir f then check_loop src dst srcPath dstPath opts w fs dstMap r
      else (case gm_get dstMap (fiPath f) of
              None \<Rightarrow>
                check_loop src dst srcPath dstPath opts w fs dstMap
                  (r\<lparr>crSrcOnly := crSrcOnly r @ [fiPath f]\<rparr>)
            | Some d \<Rightarrow>
                check_loop src dst srcPath dstPath opts w fs (gm_del (fiPath f) dstMap)
                  (case filesMatch src dst f d srcPath dstPath opts w of
                     Inl e \<Rightarrow> r\<lparr>crErrors := crErrors r @ [\<lparr>fePath = fiPath f, feOp = ''compare'', feErr = e\<rparr>]\<rparr>
                   | Inr True \<Rightarrow> r\<lparr>crMatch := crMatch r @ [fiPath f]\<rparr>
                   | Inr False \<Rightarrow> r\<lparr>crDiffer := crDiffer r @ [fiPath f]\<rparr>)))"

definition Check ::
  "SyncEnv \<Rightarrow> ((path \<times> FileInfo) list \<Rightarrow> (path \<times> FileInfo) list) \<Rightarrow> 'w Backend \<Rightarrow> 'w Backend \<Rightarrow>
   path \<Rightarrow> path \<Rightarrow> SyncOptions \<Rightarrow> 'w \<Rightarrow> CheckResult res" where
  "Check env ord src dst srcPath dstPath opts w =
     (case listFiles env opts src srcPath w of
        Inl e \<Rightarrow> Inl e
      | Inr srcFiles \<Rightarrow>
          (case listFiles env opts dst dstPath w of
             Inl e \<Rightarrow> Inl e
           | Inr dstFiles \<Rightarrow>
               (case check_loop src dst srcPath dstPath opts w srcFiles
                       (dst_map (filter (\<lambda>f. \<not> fiIsDir f) dstFiles)) zeroCheckResult of
                  (r, m) \<Rightarrow> Inr (r\<lparr>crDstOnly := crDstOnly r @ map fst (ord (gm_entries m))\<rparr>))))"

datatype DiffStatus = DiffStatusNew | DiffStatusModified | DiffStatusDeleted

record DiffEntry =
  dePath :: path
  deStatus :: DiffStatus

definition Diff ::
  "SyncEnv \<Rightarrow> ((path \<times> FileInfo) list \<Rightarrow> (path \<times> FileInfo) list) \<Rightarrow> 'w Backend \<Rightarrow> 'w Backend \<Rightarrow>
   path \<Rightarrow> path \<Rightarrow> SyncOptions \<Rightarrow> 'w \<Rightarrow> DiffEntry list res" where
  "Diff env ord src dst srcPath dstPath opts w =
     (case Check env ord src dst srcPath dstPath opts w of
        Inl e \<Rightarrow> Inl e
      | Inr r \<Rightarrow>
          Inr (map (\<lambda>p. \<lparr>dePath = p, deStatus = DiffStatusNew\<rparr>) (crSrcOnly r) @
               map (\<lambda>p. \<lparr>dePath = p, deStatus = DiffStatusModified\<rparr>) (crDiffer r) @
               map (\<lambda>p. \<lparr>dePath = p, deStatus = DiffStatusDeleted\<rparr>) (crDstOnly r)))"

subsection \<open>\<open>Verify\<close> and its variants\<close>

definition Verify ::
  "SyncEnv \<Rightarrow> ((path \<times> FileInfo) list \<Rightarrow> (path \<times> FileInfo) list) \<Rightarrow> 'w Backend \<Rightarrow> 'w Backend \<Rightarrow>
   path \<Rightarrow> path \<Rightarrow> SyncOptions \<Rightarrow> 'w \<Rightarrow> bool res" where
  "Verify env ord src dst srcPath dstPath opts w =
     (case Check env ord src dst srcPath dstPath opts w of
        Inl e \<Rightarrow> Inl e
      | Inr r \<Rightarrow> Inr (InSync r))"

definition VerifyChecksum ::
  "SyncEnv \<Rightarrow> ((path \<times> FileInfo) list \<Rightarrow> (path \<times> FileInfo) list) \<Rightarrow> 'w Backend \<Rightarrow> 'w Backend \<Rightarrow>
   path \<Rightarrow> path \<Rightarrow> 'w \<Rightarrow> bool res" where
  "VerifyChecksum env ord src dst srcPath dstPath w =
     Verify env ord src dst srcPath dstPath (zeroOptions\<lparr>soChecksum := True\<rparr>) w"

definition QuickVerify ::
  "SyncEnv \<Rightarrow> ((path \<times> FileInfo) list \<Rightarrow> (path \<times> FileInfo) list) \<Rightarrow> 'w Backend \<Rightarrow> 'w Backend \<Rightarrow>
   path \<Rightarrow> path \<Rightarrow> 'w \<Rightarrow> bool res" where
  "QuickVerify env ord src dst srcPath dstPath w =
     Verify env ord src dst srcPath dstPath (zeroOptions\<lparr>soSizeOnly := True\<rparr>) w"

text \<open>The comparison of \<open>VerifyFile\<close> before the content: sizes, then hashes, if both sides have them.\<close>

definition verify_file_meta ::
  "'w Backend \<Rightarrow> 'w Backend \<Rightarrow> path \<Rightarrow> path \<Rightarrow> 'w \<Rightarrow> bool res option" where
  "verify_file_meta src dst srcPath dstPath w =
     (case (AsExtended src, AsExtended dst) of
        (Some srcExt, Some dstExt) \<Rightarrow>
          (case exStat srcExt srcPath w of
             Inl e \<Rightarrow> Some (Inl e)
           | Inr srcInfo \<Rightarrow>
               (case exStat dstExt dstPath w of
                  Inl e \<Rightarrow> Some (Inl e)
                | Inr dstInfo \<Rightarrow>
                    if ObjectSize srcInfo \<noteq> ObjectSize dstInfo then Some (Inr False)
                    else if info_Hash srcInfo HashMD5 \<noteq> [] \<and> info_Hash dstInfo HashMD5 \<noteq> []
                         then Some (Inr (info_Hash srcInfo HashMD5 = info_Hash dstInfo HashMD5))
                    else None))
      | _ \<Rightarrow> None)"

definition VerifyFile :: "'w Backend \<Rightarrow> 'w Backend \<Rightarrow> path \<Rightarrow> path \<Rightarrow> 'w \<Rightarrow> bool res" where
  "VerifyFile src dst srcPath dstPath w =
     (case bkExists src srcPath w of
        Inl e \<Rightarrow> Inl e
      | Inr srcExists \<Rightarrow>
          if \<not> srcExists then Inl (Errorf (''source file not found: '' @ srcPath))
          else (case bkExists dst dstPath w of
                  Inl e \<Rightarrow> Inl e
                | Inr dstExists \<Rightarrow>
                    if \<not> dstExists then Inr False
                    else (case verify_file_meta src dst srcPath dstPath w of
                            Some r \<Rightarrow> r
                          | None \<Rightarrow> compareContent src dst srcPath dstPath [] [] w)))"

record VerifyResult =
  vrVerified :: bool
  vrTotalFiles :: nat
  vrMatchingFiles :: nat
  vrMismatchedFiles :: "path list"
  vrMissingInDst :: "path list"
  vrExtraInDst :: "path list"
  vrErrors :: "FileError list"

definition VerifyWithDetails ::
  "SyncEnv \<Rightarrow> ((path \<times> FileInfo) list \<Rightarrow> (path \<times> FileInfo) list) \<Rightarrow> 'w Backend \<Rightarrow> 'w Backend \<Rightarrow>
   path \<Rightarrow> path \<Rightarrow> SyncOptions \<Rightarrow> 'w \<Rightarrow> VerifyResult res" where
  "VerifyWithDetails env ord src dst srcPath dstPath opts w =
     (case Check env ord src dst srcPath dstPath opts w of
        Inl e \<Rightarrow> Inl e
      | Inr r \<Rightarrow>
          Inr \<lparr>vrVerified = InSync r,
               vrTotalFiles = length (crMatch r) + length (crDiffer r) + length (crSrcOnly r) + length (crDstOnly r),
               vrMatchingFiles = length (crMatch r), vrMismatchedFiles = crDiffer r,
               vrMissingInDst = crSrcOnly r, vrExtraInDst = crDstOnly r, vrErrors = crErrors r\<rparr>)"

definition VerifyIntegrity :: "'w Backend \<Rightarrow> path \<Rightarrow> 'w \<Rightarrow> object_error option" where
  "VerifyIntegrity b filePath w =
     (case bkNewReader b filePath [] w of
        Inl e \<Rightarrow> Some (Wrapf ''failed to open file'' e)
      | Inr s \<Rightarrow>
          (case snd (open_reader s) of
             EOF \<Rightarrow> None
           | e \<Rightarrow> Some (Wrapf (''read error at file '' @ filePath) e)))"

fun integrity_loop :: "'w Backend \<Rightarrow> path \<Rightarrow> 'w \<Rightarrow> path list \<Rightarrow> path list \<Rightarrow> path list" where
  "integrity_loop b basePath w [] corrupted = corrupted"
| "integrity_loop b basePath w (p # ps) corrupted =
     (let fullPath = (if basePath \<noteq> [] \<and> length p > length basePath then p
                      else if basePath \<noteq> [] then path_join [basePath, p] else p)
      in integrity_loop b basePath w ps
           (if VerifyIntegrity b fullPath w \<noteq> None then corrupted @ [p] else corrupted))"

definition VerifyAllIntegrity :: "'w Backend \<Rightarrow> path \<Rightarrow> 'w \<Rightarrow> path list res" where
  "VerifyAllIntegrity b basePath w =
     (case bkList b basePath w of
        Inl e \<Rightarrow> Inl e
      | Inr paths \<Rightarrow> Inr (integrity_loop b basePath w paths []))"

text \<open>\<open>%d\<close> of a count, and the report.\<close>

fun format_nat :: "nat \<Rightarrow> string" where
  "format_nat n =
     (if n < 10 then [char_of (48 + n)] else format_nat (n div 10) @ [char_of (48 + n mod 10)])"

declare format_nat.simps [simp del]

definition newline :: string where
  "newline = [CHR 0x0A]"

definition report_list :: "string \<Rightarrow> path list \<Rightarrow> string" where
  "report_list title fs =
     (if length fs > 0
      then ''  '' @ title @ '': '' @ format_nat (length fs) @ '' files'' @ newline @
           concat (map (\<lambda>f. ''    - '' @ f @ newline) fs)
      else [])"

definition VerifyAndReport ::
  "SyncEnv \<Rightarrow> ((path \<times> FileInfo) list \<Rightarrow> (path \<times> FileInfo) list) \<Rightarrow> 'w Backend \<Rightarrow> 'w Backend \<Rightarrow>
   path \<Rightarrow> path \<Rightarrow> SyncOptions \<Rightarrow> 'w \<Rightarrow> string res" where
  "VerifyAndReport env ord src dst srcPath dstPath opts w =
     (case VerifyWithDetails env ord src dst srcPath dstPath opts w of
        Inl e \<Rightarrow> Inl e
      | Inr r \<Rightarrow>
          if vrVerified r
          then Inr (''Verified: '' @ format_nat (vrMatchingFiles r) @ '' files match'')
          else Inr (''Verification failed:'' @ newline @
                    ''  Matching: '' @ format_nat (vrMatchingFiles r) @ '' files'' @ newline @
                    report_list ''Mismatched'' (vrMismatchedFiles r) @
                    report_list ''Missing in destination'' (vrMissingInDst r) @
                    report_list ''Extra in destination'' (vrExtraInDst r)))"

subsection \<open>What the comparisons decide\<close>

lemma compare_buffer_pos [simp]: "compare_buffer > 0"
  by (simp add: compare_buffer_def)

text \<open>Readers that end at the end of their data are equal exactly if the data are.\<close>

lemma take_drop_eq_iff: "xs = ys \<longleftrightarrow> take n xs = take n ys \<and> drop n xs = drop n ys"
  by (metis append_take_drop_id)

lemma compare_loop_data: "compare_loop (xs, EOF) (ys, EOF) = Inr (xs = ys)"
proof (induction "length xs" arbitrary: xs ys rule: less_induct)
  case less
  have l: "length (take compare_buffer xs) = min (length xs) compare_buffer"
    "length (take compare_buffer ys) = min (length ys) compare_buffer" by auto
  show ?case
  proof (cases "take compare_buffer xs = take compare_buffer ys")
    case False
    then show ?thesis
      by (subst compare_loop.simps) (auto simp: read_full_def)
  next
    case True
    then have m: "min (length xs) compare_buffer = min (length ys) compare_buffer"
      using l by metis
    show ?thesis
    proof (cases "compare_buffer \<le> length xs")
      case full: True
      then have y: "compare_buffer \<le> length ys" using m by linarith
      have "length (drop compare_buffer xs) < length xs" using full compare_buffer_pos by (simp add: compare_buffer_def)
      then have "compare_loop (drop compare_buffer xs, EOF) (drop compare_buffer ys, EOF) =
          Inr (drop compare_buffer xs = drop compare_buffer ys)" by (rule less)
      then show ?thesis
        using full y True by (subst compare_loop.simps) (simp add: read_full_def is_eof_def take_drop_eq_iff [of xs ys compare_buffer])
    next
      case short: False
      then have y: "\<not> compare_buffer \<le> length ys" "length xs = length ys" using m by linarith+
      then show ?thesis
        using short True by (subst compare_loop.simps) (simp add: read_full_def is_eof_def)
    qed
  qed
qed

text \<open>Whatever errors the readers end with, two contents are only called equal if they are.\<close>

lemma compare_loop_sound: "compare_loop (xs, e) (ys, e') = Inr True \<Longrightarrow> xs = ys"
proof (induction "length xs" arbitrary: xs ys rule: less_induct)
  case less
  have t: "take compare_buffer xs = take compare_buffer ys"
    using less.prems by (subst (asm) compare_loop.simps) (auto simp: read_full_def split: if_splits)
  have m: "min (length xs) compare_buffer = min (length ys) compare_buffer"
    using arg_cong [OF t, of length] by (simp add: min.commute)
  show ?case
  proof (cases "compare_buffer \<le> length xs")
    case full: True
    then have y: "compare_buffer \<le> length ys" using m by linarith
    have d: "length (drop compare_buffer xs) < length xs" using full by (simp add: compare_buffer_def)
    have "compare_loop (drop compare_buffer xs, e) (drop compare_buffer ys, e') = Inr True"
      using less.prems full y t by (subst (asm) compare_loop.simps) (simp add: read_full_def is_eof_def)
    from less.hyps [OF d this] t show ?thesis by (simp add: take_drop_eq_iff [of xs ys compare_buffer])
  next
    case False
    then have "\<not> compare_buffer \<le> length ys" using m by linarith
    with False t show ?thesis by simp
  qed
qed

lemma timeDiff_eq:
  "(let timeDiff = time_sub t u; timeDiff = (if timeDiff < 0 then neg_duration timeDiff else timeDiff)
    in timeDiff > 1000000000) \<longleftrightarrow> \<bar>t - u\<bar> > second \<and> t - u > minDuration"
  by (auto simp: time_sub_def neg_duration_def minDuration_def maxDuration_def second_def Let_def)

lemma filesMatch_times:
  "\<not> soChecksum opts \<Longrightarrow>
   filesMatch src dst f d sp dp opts w =
     Inr ((soIgnoreSize opts \<or> fiSize f = fiSize d) \<and>
          (soIgnoreTime opts \<or> \<bar>fiModTime f - fiModTime d\<bar> \<le> second \<or>
           fiModTime f - fiModTime d \<le> minDuration))"
  unfolding filesMatch_def timeDiff_eq by auto

subsection \<open>What \<open>Check\<close> finds\<close>

definition check_verdict ::
  "'w Backend \<Rightarrow> 'w Backend \<Rightarrow> path \<Rightarrow> path \<Rightarrow> SyncOptions \<Rightarrow> 'w \<Rightarrow> (path, FileInfo) gomap \<Rightarrow> FileInfo \<Rightarrow>
   bool res option" where
  "check_verdict src dst sp dp opts w m f =
     map_option (\<lambda>d. filesMatch src dst f d sp dp opts w) (gm_get m (fiPath f))"

abbreviation plain_files :: "FileInfo list \<Rightarrow> FileInfo list" where
  "plain_files fs \<equiv> filter (\<lambda>f. \<not> fiIsDir f) fs"

lemma check_verdict_cong:
  "gm_get m (fiPath f) = gm_get m' (fiPath f) \<Longrightarrow>
   check_verdict src dst sp dp opts w m f = check_verdict src dst sp dp opts w m' f"
  by (simp add: check_verdict_def)

lemma check_loop_eq:
  assumes "distinct (map fiPath (plain_files fs))"
    "check_loop src dst sp dp opts w fs m r = (r', m')"
  shows "crMatch r' = crMatch r @ map fiPath (filter (\<lambda>f. check_verdict src dst sp dp opts w m f = Some (Inr True)) (plain_files fs))"
    "crDiffer r' = crDiffer r @ map fiPath (filter (\<lambda>f. check_verdict src dst sp dp opts w m f = Some (Inr False)) (plain_files fs))"
    "crSrcOnly r' = crSrcOnly r @ map fiPath (filter (\<lambda>f. check_verdict src dst sp dp opts w m f = None) (plain_files fs))"
    "map fePath (crErrors r') = map fePath (crErrors r) @
       map fiPath (filter (\<lambda>f. \<exists>e. check_verdict src dst sp dp opts w m f = Some (Inl e)) (plain_files fs))"
    "crDstOnly r' = crDstOnly r"
    "gm_get m' p = (if p \<in> fiPath ` set (plain_files fs) then None else gm_get m p)"
proof -
  let ?V = "check_verdict src dst sp dp opts w"
  have "crMatch r' = crMatch r @ map fiPath (filter (\<lambda>f. ?V m f = Some (Inr True)) (plain_files fs)) \<and>
    crDiffer r' = crDiffer r @ map fiPath (filter (\<lambda>f. ?V m f = Some (Inr False)) (plain_files fs)) \<and>
    crSrcOnly r' = crSrcOnly r @ map fiPath (filter (\<lambda>f. ?V m f = None) (plain_files fs)) \<and>
    map fePath (crErrors r') = map fePath (crErrors r) @ map fiPath (filter (\<lambda>f. \<exists>e. ?V m f = Some (Inl e)) (plain_files fs)) \<and>
    crDstOnly r' = crDstOnly r \<and>
    (\<forall>p. gm_get m' p = (if p \<in> fiPath ` set (plain_files fs) then None else gm_get m p))"
    using assms
  proof (induction fs arbitrary: m r)
    case (Cons f fs)
    show ?case
    proof (cases "fiIsDir f")
      case True
      with Cons show ?thesis by simp
    next
      case f: False
      note d = Cons.prems(1)
      have dd: "distinct (map fiPath (plain_files fs))" using d f by simp
      have same: "?V (gm_del (fiPath f) m) g = ?V m g" if "g \<in> set (plain_files fs)" for g
      proof -
        have "fiPath g \<in> fiPath ` set (plain_files fs)" using that by (rule imageI)
        then have "fiPath f \<noteq> fiPath g" using d f by (simp del: set_filter) metis
        then show ?thesis by (intro check_verdict_cong) (simp add: gomap_simps)
      qed
      have fl: "filter (\<lambda>g. P (?V (gm_del (fiPath f) m) g)) (plain_files fs) = filter (\<lambda>g. P (?V m g)) (plain_files fs)" for P
        by (rule filter_cong) (auto simp: same)
      show ?thesis
      proof (cases "gm_get m (fiPath f)")
        case None
        then have "check_loop src dst sp dp opts w fs m (r\<lparr>crSrcOnly := crSrcOnly r @ [fiPath f]\<rparr>) = (r', m')"
          using Cons.prems(2) f by simp
        from Cons.IH [OF dd this] None f show ?thesis by (auto simp: check_verdict_def)
      next
        case (Some d)
        show ?thesis
          using Cons.IH [OF dd] Cons.prems(2) Some f
            fl [of "\<lambda>v. v = Some (Inr True)"] fl [of "\<lambda>v. v = Some (Inr False)"] fl [of "\<lambda>v. v = None"]
            fl [of "\<lambda>v. \<exists>e. v = Some (Inl e)"]
          by (cases "filesMatch src dst f d sp dp opts w")
            (fastforce simp: check_verdict_def gomap_simps split: bool.splits)+
      qed
    qed
  qed simp
  then show "crMatch r' = crMatch r @ map fiPath (filter (\<lambda>f. ?V m f = Some (Inr True)) (plain_files fs))"
    "crDiffer r' = crDiffer r @ map fiPath (filter (\<lambda>f. ?V m f = Some (Inr False)) (plain_files fs))"
    "crSrcOnly r' = crSrcOnly r @ map fiPath (filter (\<lambda>f. ?V m f = None) (plain_files fs))"
    "map fePath (crErrors r') = map fePath (crErrors r) @ map fiPath (filter (\<lambda>f. \<exists>e. ?V m f = Some (Inl e)) (plain_files fs))"
    "crDstOnly r' = crDstOnly r"
    "gm_get m' p = (if p \<in> fiPath ` set (plain_files fs) then None else gm_get m p)"
    by blast+
qed

lemma dst_map_iff:
  "gm_get (dst_map fs) p = None \<longleftrightarrow> p \<notin> fiPath ` set fs"
  unfolding dst_map_def
proof -
  have "gm_get (fold (\<lambda>f m. gm_put (fiPath f) f m) fs m) p = None \<longleftrightarrow> p \<notin> fiPath ` set fs \<and> gm_get m p = None" for m
    by (induction fs arbitrary: m) (auto simp: gomap_simps)
  then show "gm_get (fold (\<lambda>f m. gm_put (fiPath f) f m) fs gm_empty) p = None \<longleftrightarrow> p \<notin> fiPath ` set fs" by simp
qed

lemma range_map_fst:
  "range_order ord \<Longrightarrow> set (map fst (ord (gm_entries m))) = dom (gm_get m)"
  "range_order ord \<Longrightarrow> distinct (map fst (ord (gm_entries m)))"
proof -
  assume o: "range_order ord"
  then have "mset (map fst (ord (gm_entries m))) = mset (gm_keys m)" by (simp add: gm_keys_def)
  then show "set (map fst (ord (gm_entries m))) = dom (gm_get m)" "distinct (map fst (ord (gm_entries m)))"
    using gm_keys_dom gm_keys_distinct by (metis set_mset_mset, metis mset_eq_imp_distinct_iff)
qed

lemma mset_three_verdicts:
  "mset (filter (\<lambda>x. v x = Some (Inr True)) xs) + mset (filter (\<lambda>x. v x = Some (Inr False)) xs) +
   mset (filter (\<lambda>x. v x = None) xs) + mset (filter (\<lambda>x. \<exists>e. v x = Some (Inl e)) xs) = mset xs"
proof (induction xs)
  case (Cons x xs)
  then show ?case by (cases "v x"; cases "the (v x)") (auto simp: union_assoc)
qed simp

lemma Check_lists:
  assumes "listFiles env opts src sp w = Inr fs" "listFiles env opts dst dp w = Inr fd"
    "distinct (map fiPath (plain_files fs))" "range_order ord"
  defines "v \<equiv> check_verdict src dst sp dp opts w (dst_map (plain_files fd))"
  shows "\<exists>r. Check env ord src dst sp dp opts w = Inr r \<and>
    crMatch r = map fiPath (filter (\<lambda>f. v f = Some (Inr True)) (plain_files fs)) \<and>
    crDiffer r = map fiPath (filter (\<lambda>f. v f = Some (Inr False)) (plain_files fs)) \<and>
    crSrcOnly r = map fiPath (filter (\<lambda>f. v f = None) (plain_files fs)) \<and>
    map fePath (crErrors r) = map fiPath (filter (\<lambda>f. \<exists>e. v f = Some (Inl e)) (plain_files fs)) \<and>
    distinct (crDstOnly r) \<and>
    set (crDstOnly r) = fiPath ` set (plain_files fd) - fiPath ` set (plain_files fs)"
proof -
  obtain r m where l: "check_loop src dst sp dp opts w fs (dst_map (plain_files fd)) zeroCheckResult = (r, m)"
    by (cases "check_loop src dst sp dp opts w fs (dst_map (plain_files fd)) zeroCheckResult")
  note e = check_loop_eq [OF assms(3) l, folded v_def, unfolded zeroCheckResult_def CheckResult.simps append_Nil list.map]
  have "dom (gm_get m) = fiPath ` set (plain_files fd) - fiPath ` set (plain_files fs)"
    using e(6) dst_map_iff [of "plain_files fd"] by (intro set_eqI) (simp add: dom_def del: set_filter not_None_eq)
  then show ?thesis
    using l e(1-5) range_map_fst [OF assms(4), of m] by (simp add: Check_def assms(1,2) v_def)
qed

text \<open>\<open>Check\<close> puts every file of the source in exactly one of its lists (a file of which the comparison
  failed in the errors), and every file only the destination has in \<open>DstOnly\<close>, once; it works for
  any two backends whose listings name no file twice, whatever order the map is ranged over.\<close>

theorem check_partition:
  assumes "listFiles env opts src sp w = Inr fs" "listFiles env opts dst dp w = Inr fd"
    "distinct (map fiPath (plain_files fs))" "range_order ord"
  shows "\<exists>r. Check env ord src dst sp dp opts w = Inr r \<and>
    mset (crMatch r) + mset (crDiffer r) + mset (crSrcOnly r) + mset (map fePath (crErrors r)) =
      mset (map fiPath (plain_files fs)) \<and>
    set (crSrcOnly r) = fiPath ` set (plain_files fs) - fiPath ` set (plain_files fd) \<and>
    distinct (crDstOnly r) \<and>
    set (crDstOnly r) = fiPath ` set (plain_files fd) - fiPath ` set (plain_files fs)"
proof -
  let ?v = "check_verdict src dst sp dp opts w (dst_map (plain_files fd))"
  obtain r where r: "Check env ord src dst sp dp opts w = Inr r"
    "crMatch r = map fiPath (filter (\<lambda>f. ?v f = Some (Inr True)) (plain_files fs))"
    "crDiffer r = map fiPath (filter (\<lambda>f. ?v f = Some (Inr False)) (plain_files fs))"
    "crSrcOnly r = map fiPath (filter (\<lambda>f. ?v f = None) (plain_files fs))"
    "map fePath (crErrors r) = map fiPath (filter (\<lambda>f. \<exists>e. ?v f = Some (Inl e)) (plain_files fs))"
    "distinct (crDstOnly r)" "set (crDstOnly r) = fiPath ` set (plain_files fd) - fiPath ` set (plain_files fs)"
    using Check_lists [OF assms] by blast
  have "mset (crMatch r) + mset (crDiffer r) + mset (crSrcOnly r) + mset (map fePath (crErrors r)) =
      image_mset fiPath (mset (filter (\<lambda>x. ?v x = Some (Inr True)) (plain_files fs)) +
        mset (filter (\<lambda>x. ?v x = Some (Inr False)) (plain_files fs)) +
        mset (filter (\<lambda>x. ?v x = None) (plain_files fs)) + mset (filter (\<lambda>x. \<exists>e. ?v x = Some (Inl e)) (plain_files fs)))"
    unfolding r(2-5) by simp
  also have "\<dots> = mset (map fiPath (plain_files fs))" unfolding mset_three_verdicts by simp
  finally have "mset (crMatch r) + mset (crDiffer r) + mset (crSrcOnly r) + mset (map fePath (crErrors r)) =
      mset (map fiPath (plain_files fs))" .
  moreover have "set (crSrcOnly r) = fiPath ` set (plain_files fs) - fiPath ` set (plain_files fd)"
    unfolding r(4) check_verdict_def by (auto simp: dst_map_iff)
  ultimately show ?thesis using r(1,6,7) by (intro exI [of _ r]) simp
qed

theorem check_partition_witness:
  "\<exists>r. Check witness_env rev (mem_Backend 0) (mem_Backend 1) [] [] zeroOptions witness_world = Inr r \<and>
    set (crSrcOnly r) = {''a''} \<and> crDstOnly r = []"
proof -
  have l: "map_sum id (\<lambda>fs. map fiPath (plain_files fs)) (listFiles witness_env zeroOptions (mem_Backend 0) [] witness_world) =
      Inr [''a'']"
    "listFiles witness_env zeroOptions (mem_Backend 1) [] witness_world = Inr []"
    by code_simp+
  then obtain fs where fs: "listFiles witness_env zeroOptions (mem_Backend 0) [] witness_world = Inr fs"
    "map fiPath (plain_files fs) = [''a'']"
    by (cases "listFiles witness_env zeroOptions (mem_Backend 0) [] witness_world") auto
  have "fiPath ` set (plain_files fs) = {''a''}" using arg_cong [OF fs(2), of set] by (simp del: set_filter)
  then show ?thesis
    using check_partition [OF fs(1) l(2) _ range_order_rev] fs(2) by auto
qed

subsection \<open>Verifying two stores that keep the contract\<close>

context synced_stores
begin

text \<open>Where both sides have a hash it tells the contents apart, as \<open>filesMatch\<close> relies on.\<close>

definition hash_faithful :: "SyncOptions \<Rightarrow> nat \<Rightarrow> path \<Rightarrow> nat \<Rightarrow> path \<Rightarrow> 'a \<Rightarrow> bool" where
  "hash_faithful opts i sp j dp w \<longleftrightarrow>
     (\<forall>r d d'. files i w (path_join [sp, r]) = Some d \<longrightarrow> files j w (path_join [dp, r]) = Some d' \<longrightarrow>
        fiHash (rel_info opts i sp r w) \<noteq> [] \<longrightarrow> fiHash (rel_info opts j dp r w) \<noteq> [] \<longrightarrow>
        (fiHash (rel_info opts i sp r w) = fiHash (rel_info opts j dp r w) \<longleftrightarrow> d = d'))"

lemma compareContent_stores:
  assumes "ok w" "files i w (path_join [sp, r]) = Some d" "files j w (path_join [dp, r']) = Some d'"
  shows "compareContent (B i) (B j) r r' sp dp w = Inr (d = d')"
proof -
  obtain s s' where "bkNewReader (B i) (path_join [sp, r]) [] w = Inr s" "concat (sChunks s) = d" "sErr s = None"
    "bkNewReader (B j) (path_join [dp, r']) [] w = Inr s'" "concat (sChunks s') = d'" "sErr s' = None"
    using read_law [OF assms(1,2)] read_law [OF assms(1,3)] by blast
  then show ?thesis by (simp add: compareContent_def open_reader_def compare_loop_data)
qed

lemma filesMatch_stores:
  assumes "ok w" "base_ok sp" "base_ok dp" "plain_key r" "soChecksum opts" "hash_faithful opts i sp j dp w"
    "files i w (path_join [sp, r]) = Some d" "files j w (path_join [dp, r]) = Some d'"
  shows "filesMatch (B i) (B j) (rel_info opts i sp r w) (rel_info opts j dp r w) sp dp opts w = Inr (d = d')"
proof -
  have "fiPath (rel_info opts i sp r w) = r" "fiPath (rel_info opts j dp r w) = r"
    "fiSize (rel_info opts i sp r w) = int (length d)" "fiSize (rel_info opts j dp r w) = int (length d')"
    using file_info_stores [OF assms(1,7)] file_info_stores [OF assms(1,8)]
      relative_join [OF assms(2,4)] relative_join [OF assms(3,4)] by (simp_all add: rel_info_def)
  then show ?thesis
    using assms(5,6,7,8) compareContent_stores [OF assms(1,7,8)]
    by (auto simp: filesMatch_def hash_faithful_def)
qed

text \<open>What the check finds for a file of the first tree.\<close>

lemma check_verdict_tree:
  assumes "ok w" "base_ok sp" "base_ok dp" "soChecksum opts" "hash_faithful opts i sp j dp w" "tree_of opts j dp w fd"
    and "plain_key x" "files i w (path_join [sp, x]) = Some d"
  shows "check_verdict (B i) (B j) sp dp opts w (dst_map fd) (rel_info opts i sp x w) =
    map_option (\<lambda>d'. Inr (d = d')) (files j w (path_join [dp, x]))"
proof -
  have "files i w (path_join [sp, x]) \<noteq> None" using assms(8) by simp
  note p = rel_info_path(1) [OF assms(1,2,7) this, of opts]
  show ?thesis
    using tree_ofD(5) [OF assms(1,3,6,7)] filesMatch_stores [OF assms(1-3,7,4,5,8)] p
    by (auto simp: check_verdict_def split: option.splits)
qed

lemma Verify_stores:
  assumes "ok w" "base_ok sp" "base_ok dp" "clean_under i sp w" "clean_under j dp w" "soFilter opts = None"
    "soChecksum opts" "hash_faithful opts i sp j dp w" "range_order ord"
  shows "\<exists>r. Check env ord (B i) (B j) sp dp opts w = Inr r \<and> crErrors r = [] \<and>
    (InSync r \<longleftrightarrow> (\<forall>x. plain_key x \<longrightarrow> files i w (path_join [sp, x]) = files j w (path_join [dp, x])))"
proof -
  let ?S = "\<lambda>x. files i w (path_join [sp, x])" and ?D = "\<lambda>x. files j w (path_join [dp, x])"
  obtain fs where fs: "listFiles env opts (B i) sp w = Inr fs" "tree_of opts i sp w fs"
    using listFiles_tree [OF assms(1,2,4,6)] .
  obtain fd where fd: "listFiles env opts (B j) dp w = Inr fd" "tree_of opts j dp w fd"
    using listFiles_tree [OF assms(1,3,5,6)] .
  note S = tree_ofD [OF assms(1,2) fs(2)] and D = tree_ofD [OF assms(1,3) fd(2)]
  have pf: "plain_files fs = fs" "plain_files fd = fd" using S(2) D(2) by (auto simp: filter_id_conv)
  let ?v = "check_verdict (B i) (B j) sp dp opts w (dst_map fd)"
  have v: "?v f = map_option (\<lambda>d'. Inr (?S (fiPath f) = Some d')) (?D (fiPath f))" if f: "f \<in> set fs" for f
  proof -
    obtain d where d: "?S (fiPath f) = Some d" using S(2) [OF f] by blast
    have "?v (rel_info opts i sp (fiPath f) w) = map_option (\<lambda>d'. Inr (?S (fiPath f) = Some d')) (?D (fiPath f))"
      using check_verdict_tree [OF assms(1-3,7,8) fd(2) _ d] S(2) [OF f] by (simp add: d)
    then show ?thesis using S(2) [OF f] by metis
  qed
  obtain r where r: "Check env ord (B i) (B j) sp dp opts w = Inr r"
    "crDiffer r = map fiPath (filter (\<lambda>f. ?v f = Some (Inr False)) fs)"
    "crSrcOnly r = map fiPath (filter (\<lambda>f. ?v f = None) fs)"
    "map fePath (crErrors r) = map fiPath (filter (\<lambda>f. \<exists>e. ?v f = Some (Inl e)) fs)"
    "set (crDstOnly r) = fiPath ` set fd - fiPath ` set fs"
    using Check_lists [OF fs(1) fd(1), unfolded pf, OF S(1) assms(9)] by blast
  have ball: "(\<forall>f \<in> set fs. P (fiPath f)) \<longleftrightarrow> (\<forall>x. plain_key x \<longrightarrow> ?S x \<noteq> None \<longrightarrow> P x)" for P
    using S(4) by (auto simp: set_eq_iff image_iff) (metis option.distinct(1))
  have "crErrors r = []" using r(4) v by (auto simp: filter_empty_conv)
  moreover have "crDiffer r = [] \<longleftrightarrow> (\<forall>f \<in> set fs. ?D (fiPath f) \<noteq> None \<longrightarrow> ?S (fiPath f) = ?D (fiPath f))"
    using v by (auto simp: r(2) filter_empty_conv)
  moreover have "crSrcOnly r = [] \<longleftrightarrow> (\<forall>f \<in> set fs. ?D (fiPath f) \<noteq> None)"
    using v by (auto simp: r(3) filter_empty_conv)
  moreover have "crDstOnly r = [] \<longleftrightarrow> (\<forall>x. plain_key x \<longrightarrow> ?D x \<noteq> None \<longrightarrow> ?S x \<noteq> None)"
    unfolding set_empty [symmetric] r(5) S(4) D(4) by blast
  ultimately show ?thesis
    using r(1) unfolding InSync_def length_0_conv ball [of "\<lambda>x. ?D x \<noteq> None \<longrightarrow> ?S x = ?D x"] ball [of "\<lambda>x. ?D x \<noteq> None"]
    by (intro exI [of _ r]) metis
qed

end

subsection \<open>Properties, for memory backends\<close>

text \<open>A memory backend keeps no hashes, so the checksum mode reads the contents.\<close>

lemma mem_no_hash: "fiHash (mem_info opts i sp x W) = []"
  by (auto simp: mem_info_def file_info_def Let_def mem_Ext_def mem_Stat_def info_Hash_def mem_Backend_def AsExtended_def
    split: option.splits sum.splits if_splits)

lemma mem_hash_faithful: "mem_sync.hash_faithful opts i sp j dp W"
  unfolding mem_sync.hash_faithful_def mem_info_eq by (simp add: mem_no_hash)

lemma mem_VerifyChecksum:
  assumes "wd_ok W" "mem_base_ok sp" "mem_base_ok dp" "mem_clean_under i sp W" "mem_clean_under j dp W" "range_order ord"
  shows "VerifyChecksum env ord (mem_Backend i) (mem_Backend j) sp dp W =
    Inr (\<forall>x. plain_key x \<longrightarrow> wd_files i W (path_join [sp, x]) = wd_files j W (path_join [dp, x]))"
proof -
  have o: "soFilter (zeroOptions\<lparr>soChecksum := True\<rparr>) = None" "soChecksum (zeroOptions\<lparr>soChecksum := True\<rparr>)"
    by (simp_all add: zeroOptions_def)
  obtain r where "Check env ord (mem_Backend i) (mem_Backend j) sp dp (zeroOptions\<lparr>soChecksum := True\<rparr>) W = Inr r"
    "InSync r \<longleftrightarrow> (\<forall>x. plain_key x \<longrightarrow> wd_files i W (path_join [sp, x]) = wd_files j W (path_join [dp, x]))"
    using mem_sync.Verify_stores [unfolded mem_sync_eqs, OF assms(1-5) o mem_hash_faithful assms(6)] by blast
  then show ?thesis by (simp add: VerifyChecksum_def Verify_def)
qed

text \<open>C20: \<open>VerifyChecksum\<close> answers true exactly if the two trees hold the same files with the same
  contents, whatever their sizes, times and order.\<close>

theorem verify_checksum_exact:
  assumes "wd_ok W" "mem_base_ok sp" "mem_base_ok dp" "mem_clean_under i sp W" "mem_clean_under j dp W" "range_order ord"
  shows "VerifyChecksum env ord (mem_Backend i) (mem_Backend j) sp dp W =
    Inr (\<forall>x. plain_key x \<longrightarrow> wd_files i W (path_join [sp, x]) = wd_files j W (path_join [dp, x]))"
  using assms by (rule mem_VerifyChecksum)

lemma witness_clean: "mem_clean_under 0 [] witness_world" "mem_clean_under 1 [] witness_world"
  using witness_setting by (auto simp: sync_setting_def)

theorem verify_checksum_exact_witness:
  "VerifyChecksum witness_env rev (mem_Backend 0) (mem_Backend 1) [] [] witness_world = Inr False"
proof -
  have "plain_key ''a''" "wd_files 0 witness_world ''a'' \<noteq> wd_files 1 witness_world ''a''"
    using mem_key_letter(1) by (simp_all add: mem_key_def witness_world_files)
      (simp add: wd_files_def witness_world_def mem_New_def mem_files_def)
  then have "\<not> (\<forall>x. plain_key x \<longrightarrow>
      wd_files 0 witness_world (path_join [[], x]) = wd_files 1 witness_world (path_join [[], x]))"
    using plain_key_join_Nil by auto
  then show ?thesis
    using verify_checksum_exact [OF witness_world_ok _ _ witness_clean range_order_rev, of witness_env]
    by (simp add: mem_base_ok_def)
qed



lemma mem_Stat_hash: "exStat (mem_Ext i) p W = Inr info \<Longrightarrow> info_Hash info t = []"
  by (auto simp: mem_Ext_def mem_Stat_def info_Hash_def split: option.splits if_splits)

text \<open>\<open>VerifyFile\<close> on two memory backends answers whether both files hold the same bytes; a missing
  destination file is a mismatch, a missing source file an error.\<close>

theorem verify_file_exact:
  assumes "wd_ok W" "mem_key p" "mem_key q"
  shows "VerifyFile (mem_Backend i) (mem_Backend j) p q W =
    (case wd_files i W p of
       None \<Rightarrow> Inl (Errorf (''source file not found: '' @ p))
     | Some d \<Rightarrow> Inr (wd_files j W q = Some d))"
proof (cases "wd_files i W p")
  case None
  then show ?thesis using mem_stores.exists_law [OF assms(1,2)] by (simp add: VerifyFile_def)
next
  case (Some d)
  show ?thesis
  proof (cases "wd_files j W q")
    case None
    then show ?thesis
      using Some mem_stores.exists_law [OF assms(1,2)] mem_stores.exists_law [OF assms(1,3)] by (simp add: VerifyFile_def)
  next
    case d': (Some d')
    have pq: "path_join [[], p] = p" "path_join [[], q] = q"
      using assms(2,3) plain_key_join_Nil by (simp_all add: mem_key_def)
    obtain a b where ab: "exStat (mem_Ext i) p W = Inr a" "ObjectSize a = int (length d)"
      "exStat (mem_Ext j) q W = Inr b" "ObjectSize b = int (length d')"
      using mem_Ext_stat [OF assms(1) Some] mem_Ext_stat [OF assms(1) d'] by blast
    have m: "verify_file_meta (mem_Backend i) (mem_Backend j) p q W =
        (if length d \<noteq> length d' then Some (Inr False) else None)"
      using ab mem_Stat_hash [OF ab(1)] by (simp add: verify_file_meta_def AsExtended_def mem_Backend_ext)
    have c: "compareContent (mem_Backend i) (mem_Backend j) p q [] [] W = Inr (d = d')"
      by (rule mem_sync.compareContent_stores [OF assms(1)]) (simp_all add: pq Some d')
    show ?thesis
      using Some d' m c mem_stores.exists_law [OF assms(1,2)] mem_stores.exists_law [OF assms(1,3)]
      by (auto simp: VerifyFile_def)
  qed
qed

theorem verify_file_exact_witness:
  "VerifyFile (mem_Backend 0) (mem_Backend 0) ''a'' ''a'' witness_world = Inr True \<and>
   VerifyFile (mem_Backend 0) (mem_Backend 0) ''b'' ''a'' witness_world = Inl (Errorf ''source file not found: b'')"
  using verify_file_exact [OF witness_world_ok mem_key_letter(1,1), of 0 0]
    verify_file_exact [OF witness_world_ok mem_key_letter(2,1), of 0 0] by (simp add: witness_world_files)

text \<open>Without checksums two files match if their sizes agree and their times differ by at most a second, or
  if the source's is earlier by more than a 64-bit duration can express: the difference saturates at
  the least duration, whose negation is itself. So the test is not symmetric.\<close>

theorem match_tolerance:
  assumes "\<not> soChecksum opts"
  shows "filesMatch src dst f d sp dp opts w =
    Inr ((soIgnoreSize opts \<or> fiSize f = fiSize d) \<and>
         (soIgnoreTime opts \<or> \<bar>fiModTime f - fiModTime d\<bar> \<le> second \<or>
          fiModTime f - fiModTime d \<le> minDuration))"
  using assms by (rule filesMatch_times)

text \<open>A file without a time against one of the year 2024.\<close>

definition sample_file :: "time \<Rightarrow> FileInfo" where
  "sample_file t = \<lparr>fiPath = ''a'', fiSize = 1, fiModTime = t, fiHash = [], fiIsDir = False\<rparr>"

theorem match_tolerance_witness:
  "filesMatch (mem_Backend 0) (mem_Backend 1) (sample_file 0) (sample_file 63839644800000000000) [] [] zeroOptions W = Inr True \<and>
   filesMatch (mem_Backend 0) (mem_Backend 1) (sample_file 63839644800000000000) (sample_file 0) [] [] zeroOptions W = Inr False \<and>
   filesMatch (mem_Backend 0) (mem_Backend 1) (sample_file 7000000000) (sample_file 6000000000) [] [] zeroOptions W = Inr True"
proof -
  have o: "\<not> soChecksum zeroOptions" "\<not> soIgnoreTime zeroOptions" by (simp_all add: zeroOptions_def)
  show ?thesis unfolding match_tolerance [OF o(1)] using o(2) by (simp add: sample_file_def minDuration_def second_def)
qed

text \<open>A verification in which no file could be compared counts as verified: if both sides list the same
  files and every comparison fails, \<open>Verify\<close> answers true, with no matching file and one error for
  each of them in the details.\<close>

theorem verify_overlooks_errors:
  assumes "listFiles env opts src sp w = Inr fs" "listFiles env opts dst dp w = Inr fd"
    "distinct (map fiPath (plain_files fs))" "range_order ord" "distinct (map fiPath (plain_files fd))"
    "fiPath ` set (plain_files fs) = fiPath ` set (plain_files fd)"
    "\<And>f d. f \<in> set (plain_files fs) \<Longrightarrow> d \<in> set (plain_files fd) \<Longrightarrow> fiPath d = fiPath f \<Longrightarrow>
      \<exists>e. filesMatch src dst f d sp dp opts w = Inl e"
  shows "Verify env ord src dst sp dp opts w = Inr True \<and>
    (\<exists>r. VerifyWithDetails env ord src dst sp dp opts w = Inr r \<and> vrVerified r \<and> vrTotalFiles r = 0 \<and>
      length (vrErrors r) = length (plain_files fs))"
proof -
  let ?v = "check_verdict src dst sp dp opts w (dst_map (plain_files fd))"
  obtain r where r: "Check env ord src dst sp dp opts w = Inr r"
    "crMatch r = map fiPath (filter (\<lambda>f. ?v f = Some (Inr True)) (plain_files fs))"
    "crDiffer r = map fiPath (filter (\<lambda>f. ?v f = Some (Inr False)) (plain_files fs))"
    "crSrcOnly r = map fiPath (filter (\<lambda>f. ?v f = None) (plain_files fs))"
    "map fePath (crErrors r) = map fiPath (filter (\<lambda>f. \<exists>e. ?v f = Some (Inl e)) (plain_files fs))"
    "set (crDstOnly r) = fiPath ` set (plain_files fd) - fiPath ` set (plain_files fs)"
    using Check_lists [OF assms(1-4)] by blast
  have v: "\<exists>e. ?v f = Some (Inl e)" if f: "f \<in> set (plain_files fs)" for f
  proof -
    have "fiPath f \<in> fiPath ` set (plain_files fd)" using f assms(6) by blast
    then obtain d where d: "d \<in> set (plain_files fd)" "fiPath d = fiPath f" by (metis imageE)
    then have "gm_get (dst_map (plain_files fd)) (fiPath f) = Some d" using dst_map_get [OF assms(5)] by simp
    then show ?thesis using assms(7) [OF f d] by (auto simp: check_verdict_def)
  qed
  then have "crMatch r = []" "crDiffer r = []" "crSrcOnly r = []"
    unfolding r(2-4) map_is_Nil_conv filter_empty_conv by fastforce+
  moreover have "crDstOnly r = []" using r(6) assms(6) by simp
  moreover have "length (crErrors r) = length (plain_files fs)"
  proof -
    have "filter (\<lambda>f. \<exists>e. ?v f = Some (Inl e)) (plain_files fs) = plain_files fs"
      using v by (intro filter_True) blast
    with arg_cong [OF r(5), of length] show ?thesis by simp
  qed
  ultimately show ?thesis using r(1) by (simp add: Verify_def VerifyWithDetails_def InSync_def)
qed

theorem verify_overlooks_errors_witness:
  "Verify witness_env id (broken 0 [''a'']) (broken 1 [''a'']) [] [] (zeroOptions\<lparr>soChecksum := True\<rparr>) 0 = Inr True"
proof -
  let ?o = "zeroOptions\<lparr>soChecksum := True\<rparr>" and ?f = "sample_file 0\<lparr>fiSize := 0\<rparr>"
  have l: "listFiles witness_env ?o (broken i [''a'']) [] 0 = Inr [?f]" for i
    by (simp add: listFiles_def broken_def file_info_def relative_path_def AsExtended_def passes_filter_def
        zeroOptions_def sample_file_def)
  have "plain_files [?f] = [?f]" by (simp add: sample_file_def)
  moreover have "filesMatch (broken 0 [''a'']) (broken 1 [''a'']) ?f ?f [] [] ?o 0 = Inl ErrPermissionDenied"
    by (simp add: filesMatch_def compareContent_def broken_def zeroOptions_def sample_file_def)
  ultimately show ?thesis
    using verify_overlooks_errors [OF l l _ range_order_id, of 0 1] by simp
qed

text \<open>\<open>VerifyAllIntegrity\<close> of a whole backend finds nothing wrong with files that can be read. Given the
  path of a single file it looks the file up below itself and reports it as corrupted.\<close>

theorem integrity_scan:
  assumes "wd_ok W"
  shows "VerifyAllIntegrity (mem_Backend i) [] W = Inr [] \<and>
    (wd_files i W p \<noteq> None \<and> (\<forall>q. wd_files i W q \<noteq> None \<longrightarrow> mem_under p q \<longrightarrow> q = p) \<longrightarrow>
       VerifyIntegrity (mem_Backend i) p W = None \<and> VerifyAllIntegrity (mem_Backend i) p W = Inr [p])"
proof -
  have ok: "VerifyIntegrity (mem_Backend i) q W = None" if "wd_files i W q \<noteq> None" for q
  proof -
    obtain d where "wd_files i W q = Some d" using \<open>wd_files i W q \<noteq> None\<close> by blast
    from mem_stores.read_law [OF assms this] show ?thesis by (auto simp: VerifyIntegrity_def open_reader_def)
  qed
  have loop: "(\<forall>q \<in> set ps. VerifyIntegrity (mem_Backend i) q W = None) \<Longrightarrow>
      integrity_loop (mem_Backend i) [] W ps [] = []" for ps
    by (induction ps) simp_all
  obtain ps where ps: "bkList (mem_Backend i) [] W = Inr ps" "set ps = {p. wd_files i W p \<noteq> None \<and> mem_under [] p}"
    using mem_stores.list_law [OF assms, of "[]"] by blast
  have "integrity_loop (mem_Backend i) [] W ps [] = []" by (rule loop) (use ps(2) ok in blast)
  moreover have "VerifyAllIntegrity (mem_Backend i) p W = Inr [p]"
    if p: "wd_files i W p \<noteq> None" "\<forall>q. wd_files i W q \<noteq> None \<longrightarrow> mem_under p q \<longrightarrow> q = p"
  proof -
    have k: "mem_key p" using p(1) mem_stores.key_law [OF assms] by blast
    have u: "mem_under p p" "mem_under p (p @ slash # p)" using k by (simp_all add: mem_under_def has_prefix_def)
    have j: "path_join [p, p] = p @ slash # p"
      using mem_sync.join_base [of p p] k plain_key_neq_Nil [of p] by (simp add: mem_sync.base_ok_def mem_key_def)
    have n: "wd_files i W (p @ slash # p) = None" using p(2) u(2) by fastforce
    have kk: "mem_key (p @ slash # p)" using k mem_key_below [of p p] by (simp add: mem_key_def)
    have v: "VerifyIntegrity (mem_Backend i) (p @ slash # p) W \<noteq> None"
      using mem_stores.read_missing_law [OF assms kk n] by (simp add: VerifyIntegrity_def)
    obtain qs where qs: "bkList (mem_Backend i) p W = Inr qs" "distinct qs"
      "set qs = {q. wd_files i W q \<noteq> None \<and> mem_under p q}"
      using mem_stores.list_law [OF assms] k by blast
    have "set qs = {p}" using qs(3) p u(1) by auto
    then have "qs = [p]" using qs(2) by (cases qs; cases "tl qs") auto
    moreover have "p \<noteq> []" using k plain_key_neq_Nil by (simp add: mem_key_def)
    ultimately show ?thesis using qs(1) v j by (simp add: VerifyAllIntegrity_def)
  qed
  ultimately show ?thesis using ps(1) ok by (auto simp: VerifyAllIntegrity_def)
qed

theorem integrity_scan_witness:
  "VerifyAllIntegrity (mem_Backend 0) [] witness_world = Inr [] \<and>
   VerifyIntegrity (mem_Backend 0) ''a'' witness_world = None \<and>
   VerifyAllIntegrity (mem_Backend 0) ''a'' witness_world = Inr [''a'']"
  using integrity_scan [OF witness_world_ok, of 0 "''a''"] by (auto simp: witness_world_files)

end
