(* ===== verification/Bisync.thy ===== *)
theory Bisync
  imports SyncCopy SyncCheck
begin

section \<open>Bidirectional sync (\<open>object/sync/bisync.go\<close>)\<close>

text \<open>
  A run lists both sides, plans one action for every file that is on one side only or differs, and
  carries the actions out one after the other. The two range loops over the maps of files take
  their orders as arguments. The texts of the error messages are shortened; logging and progress are
  left out, and so are the branch of \<open>DeleteMissing\<close>, which only logs, and the bandwidth limit, which
  only delays.
\<close>

datatype ConflictStrategy =
    ConflictNewerWins
  | ConflictLargerWins
  | ConflictSourceWins
  | ConflictDestWins
  | ConflictKeepBoth
  | ConflictSkip
  | ConflictError
  | ConflictUnknown int

record BisyncOptions =
  boConflictStrategy :: ConflictStrategy
  boConflictSuffix :: string
  boDryRun :: bool
  boChecksum :: bool
  boDeleteMissing :: bool
  boMaxErrors :: int
  boConcurrency :: int
  boFilter :: "Filter option"
  boBandwidthLimit :: int
  boRetry :: "RetryConfig option"
  boPreserveMetadata :: "MetadataOptions option"

definition DefaultBisyncOptions :: BisyncOptions where
  "DefaultBisyncOptions =
     \<lparr>boConflictStrategy = ConflictNewerWins, boConflictSuffix = ''.conflict'', boDryRun = False,
      boChecksum = False, boDeleteMissing = False, boMaxErrors = 0, boConcurrency = 4, boFilter = None,
      boBandwidthLimit = 0, boRetry = None, boPreserveMetadata = None\<rparr>"

record Conflict =
  cfPath :: path
  cfPath1Info :: FileInfo
  cfPath2Info :: FileInfo
  cfResolution :: string
  cfError :: "object_error option"

record BisyncResult =
  brCopiedToPath2 :: nat
  brCopiedToPath1 :: nat
  brUpdatedInPath2 :: nat
  brUpdatedInPath1 :: nat
  brDeletedFromPath1 :: nat
  brDeletedFromPath2 :: nat
  brConflicts :: "Conflict list"
  brSkipped :: nat
  brErrors :: "FileError list"
  brBytesTransferred :: int
  brDryRun :: bool

definition bi_Success :: "BisyncResult \<Rightarrow> bool" where
  "bi_Success r \<longleftrightarrow> length (brErrors r) = 0"

definition TotalCopied :: "BisyncResult \<Rightarrow> nat" where
  "TotalCopied r = brCopiedToPath1 r + brCopiedToPath2 r"

definition TotalUpdated :: "BisyncResult \<Rightarrow> nat" where
  "TotalUpdated r = brUpdatedInPath1 r + brUpdatedInPath2 r"

definition TotalDeleted :: "BisyncResult \<Rightarrow> nat" where
  "TotalDeleted r = brDeletedFromPath1 r + brDeletedFromPath2 r"

subsection \<open>Conflicts\<close>

text \<open>The options of the scans and of the transfers.\<close>

definition scan_options :: "BisyncOptions \<Rightarrow> SyncOptions" where
  "scan_options opts =
     zeroOptions\<lparr>soChecksum := boChecksum opts, soFilter := boFilter opts,
       soConcurrency := (if boConcurrency opts \<le> 0 then 4 else boConcurrency opts)\<rparr>"

definition transfer_options :: "BisyncOptions \<Rightarrow> SyncOptions" where
  "transfer_options opts =
     zeroOptions\<lparr>soDryRun := boDryRun opts, soBandwidthLimit := boBandwidthLimit opts,
       soRetry := boRetry opts, soPreserveMetadata := boPreserveMetadata opts\<rparr>"

datatype CopyDirection = DirNone | DirTo1 | DirTo2 | DirBoth

type_synonym 'w resolution = "(string \<times> CopyDirection \<times> object_error option) \<times> 'w"

text \<open>One copy of a conflict: on an error the resolution ends with it and without a direction.\<close>

definition resolve_copy ::
  "SyncEnv \<Rightarrow> BisyncOptions \<Rightarrow> string \<Rightarrow> 'w Backend \<Rightarrow> 'w Backend \<Rightarrow> path \<Rightarrow> path \<Rightarrow>
   ('w \<Rightarrow> 'w resolution) \<Rightarrow> 'w \<Rightarrow> 'w resolution" where
  "resolve_copy env opts name src dst p q rest w =
     (if boDryRun opts then rest w
      else (case copyFileWithContext env (transfer_options opts) src dst p q w of
              (Some e, w1) \<Rightarrow> ((name, DirNone, Some e), w1)
            | (None, w1) \<Rightarrow> rest w1))"

definition resolved :: "string \<Rightarrow> CopyDirection \<Rightarrow> 'w \<Rightarrow> 'w resolution" where
  "resolved name d w = ((name, d, None), w)"

definition resolveConflict ::
  "SyncEnv \<Rightarrow> 'w Backend \<Rightarrow> 'w Backend \<Rightarrow> path \<Rightarrow> path \<Rightarrow> FileInfo \<Rightarrow> FileInfo \<Rightarrow> BisyncOptions \<Rightarrow> 'w \<Rightarrow>
   'w resolution" where
  "resolveConflict env backend1 backend2 path1 path2 file1 file2 opts w =
     (let srcPath1 = path_join [path1, fiPath file1];
          srcPath2 = path_join [path2, fiPath file2];
          conflictPath = fiPath file1 @ boConflictSuffix opts
      in case boConflictStrategy opts of
           ConflictNewerWins \<Rightarrow>
             if fiModTime file1 > fiModTime file2
             then resolve_copy env opts ''newer-wins:path1'' backend1 backend2 srcPath1 srcPath2
                    (resolved ''newer-wins:path1'' DirTo2) w
             else resolve_copy env opts ''newer-wins:path2'' backend2 backend1 srcPath2 srcPath1
                    (resolved ''newer-wins:path2'' DirTo1) w
         | ConflictLargerWins \<Rightarrow>
             if fiSize file1 > fiSize file2
             then resolve_copy env opts ''larger-wins:path1'' backend1 backend2 srcPath1 srcPath2
                    (resolved ''larger-wins:path1'' DirTo2) w
             else resolve_copy env opts ''larger-wins:path2'' backend2 backend1 srcPath2 srcPath1
                    (resolved ''larger-wins:path2'' DirTo1) w
         | ConflictSourceWins \<Rightarrow>
             resolve_copy env opts ''source-wins'' backend1 backend2 srcPath1 srcPath2
               (resolved ''source-wins'' DirTo2) w
         | ConflictDestWins \<Rightarrow>
             resolve_copy env opts ''dest-wins'' backend2 backend1 srcPath2 srcPath1
               (resolved ''dest-wins'' DirTo1) w
         | ConflictKeepBoth \<Rightarrow>
             if fiModTime file1 < fiModTime file2
             then resolve_copy env opts ''keep-both'' backend1 backend1 srcPath1 (path_join [path1, conflictPath])
                    (resolve_copy env opts ''keep-both'' backend2 backend1 srcPath2 srcPath1
                      (resolve_copy env opts ''keep-both'' backend1 backend2 (path_join [path1, conflictPath])
                         (path_join [path2, conflictPath]) (resolved ''keep-both'' DirBoth))) w
             else resolve_copy env opts ''keep-both'' backend2 backend2 srcPath2 (path_join [path2, conflictPath])
                    (resolve_copy env opts ''keep-both'' backend1 backend2 srcPath1 srcPath2
                      (resolve_copy env opts ''keep-both'' backend2 backend1 (path_join [path2, conflictPath])
                         (path_join [path1, conflictPath]) (resolved ''keep-both'' DirBoth))) w
         | ConflictSkip \<Rightarrow> resolved ''skipped'' DirNone w
         | ConflictError \<Rightarrow> ((''error'', DirNone, Some (Errorf (''conflict detected for '' @ fiPath file1))), w)
         | ConflictUnknown n \<Rightarrow> ((''unknown-strategy'', DirNone, Some (Errorf ''unknown conflict strategy'')), w))"

subsection \<open>The plan\<close>

datatype direction = To1 | To2 | ToConflict

record biAction =
  baFile :: FileInfo
  baDirection :: direction
  baOther :: "FileInfo option"

definition bi_action1 :: "SyncEnv \<Rightarrow> SyncOptions \<Rightarrow> (path, FileInfo) gomap \<Rightarrow> path \<times> FileInfo \<Rightarrow> biAction option" where
  "bi_action1 env syncOpts files2Map e =
     (case e of (p, f1) \<Rightarrow>
        (case gm_get files2Map p of
           None \<Rightarrow> Some \<lparr>baFile = f1, baDirection = To2, baOther = None\<rparr>
         | Some f2 \<Rightarrow>
             if NeedsUpdate env f1 f2 syncOpts \<or> NeedsUpdate env f2 f1 syncOpts
             then Some \<lparr>baFile = f1, baDirection = ToConflict, baOther = Some f2\<rparr>
             else None))"

text \<open>The two loops; the keys of the first map are the ones processed before the second loop.\<close>

fun plan1_loop ::
  "SyncEnv \<Rightarrow> SyncOptions \<Rightarrow> (path, FileInfo) gomap \<Rightarrow> (path \<times> FileInfo) list \<Rightarrow> biAction list \<Rightarrow> nat \<Rightarrow>
   biAction list \<times> nat" where
  "plan1_loop env syncOpts files2Map [] actions skipped = (actions, skipped)"
| "plan1_loop env syncOpts files2Map (e # es) actions skipped =
     (case bi_action1 env syncOpts files2Map e of
        Some a \<Rightarrow> plan1_loop env syncOpts files2Map es (actions @ [a]) skipped
      | None \<Rightarrow> plan1_loop env syncOpts files2Map es actions (skipped + 1))"

definition plan2 :: "(path, FileInfo) gomap \<Rightarrow> (path \<times> FileInfo) list \<Rightarrow> biAction list" where
  "plan2 processed es =
     map (\<lambda>(p, f2). \<lparr>baFile = f2, baDirection = To1, baOther = None\<rparr>)
       (filter (\<lambda>(p, f2). gm_get processed p = None) es)"

subsection \<open>Carrying the actions out\<close>

definition copyDirection ::
  "SyncEnv \<Rightarrow> 'w Backend \<Rightarrow> 'w Backend \<Rightarrow> path \<Rightarrow> path \<Rightarrow> BisyncOptions \<Rightarrow> FileInfo \<Rightarrow> bool \<Rightarrow>
   BisyncResult \<Rightarrow> 'w \<Rightarrow> (BisyncResult \<times> bool) \<times> 'w" where
  "copyDirection env backend1 backend2 path1 path2 opts f toPath2 r w =
     (let (srcBackend, dstBackend, srcBase, dstBase, destName) =
            (if toPath2 then (backend1, backend2, path1, path2, ''path2'')
             else (backend2, backend1, path2, path1, ''path1''))
      in case (if boDryRun opts then (None, w)
               else copyFileWithContext env (transfer_options opts) srcBackend dstBackend
                      (path_join [srcBase, fiPath f]) (path_join [dstBase, fiPath f]) w) of
           (Some e, w1) \<Rightarrow>
             ((r\<lparr>brErrors := brErrors r @ [\<lparr>fePath = fiPath f, feOp = ''copy-to-'' @ destName, feErr = e\<rparr>]\<rparr>, True), w1)
         | (None, w1) \<Rightarrow>
             (((if toPath2 then r\<lparr>brCopiedToPath2 := brCopiedToPath2 r + 1\<rparr>
                else r\<lparr>brCopiedToPath1 := brCopiedToPath1 r + 1\<rparr>)
                 \<lparr>brBytesTransferred := brBytesTransferred r + fiSize f\<rparr>, False), w1))"

text \<open>What a resolved conflict adds to the counters.\<close>

definition count_resolution :: "CopyDirection \<Rightarrow> FileInfo \<Rightarrow> FileInfo \<Rightarrow> BisyncResult \<Rightarrow> BisyncResult" where
  "count_resolution d f1 f2 r =
     (case d of
        DirTo1 \<Rightarrow> r\<lparr>brUpdatedInPath1 := brUpdatedInPath1 r + 1, brBytesTransferred := brBytesTransferred r + fiSize f2\<rparr>
      | DirTo2 \<Rightarrow> r\<lparr>brUpdatedInPath2 := brUpdatedInPath2 r + 1, brBytesTransferred := brBytesTransferred r + fiSize f1\<rparr>
      | DirBoth \<Rightarrow>
          r\<lparr>brUpdatedInPath1 := brUpdatedInPath1 r + 1, brUpdatedInPath2 := brUpdatedInPath2 r + 1,
            brBytesTransferred := brBytesTransferred r + (fiSize f1 + fiSize f2)\<rparr>
      | DirNone \<Rightarrow> r)"

definition conflict_action ::
  "SyncEnv \<Rightarrow> 'w Backend \<Rightarrow> 'w Backend \<Rightarrow> path \<Rightarrow> path \<Rightarrow> BisyncOptions \<Rightarrow> FileInfo \<Rightarrow> FileInfo \<Rightarrow>
   BisyncResult \<Rightarrow> 'w \<Rightarrow> BisyncResult \<times> 'w" where
  "conflict_action env backend1 backend2 path1 path2 opts f1 f2 r w =
     (case resolveConflict env backend1 backend2 path1 path2 f1 f2 opts w of
        ((resolution, copyDir, err), w1) \<Rightarrow>
          let r1 = (case err of
                      Some e \<Rightarrow> r\<lparr>brErrors := brErrors r @ [\<lparr>fePath = fiPath f1, feOp = ''conflict'', feErr = e\<rparr>]\<rparr>
                    | None \<Rightarrow> if boDryRun opts then r else count_resolution copyDir f1 f2 r)
          in (r1\<lparr>brConflicts := brConflicts r1 @
                [\<lparr>cfPath = fiPath f1, cfPath1Info = f1, cfPath2Info = f2, cfResolution = resolution, cfError = err\<rparr>]\<rparr>, w1))"

text \<open>One action; the flag tells that a copy failed, after which the error limit is looked at.\<close>

definition bisync_action ::
  "SyncEnv \<Rightarrow> 'w Backend \<Rightarrow> 'w Backend \<Rightarrow> path \<Rightarrow> path \<Rightarrow> BisyncOptions \<Rightarrow> biAction \<Rightarrow>
   BisyncResult \<Rightarrow> 'w \<Rightarrow> (BisyncResult \<times> bool) \<times> 'w" where
  "bisync_action env backend1 backend2 path1 path2 opts a r w =
     (case baDirection a of
        To2 \<Rightarrow> copyDirection env backend1 backend2 path1 path2 opts (baFile a) True r w
      | To1 \<Rightarrow> copyDirection env backend1 backend2 path1 path2 opts (baFile a) False r w
      | ToConflict \<Rightarrow>
          (case conflict_action env backend1 backend2 path1 path2 opts (baFile a) (the (baOther a)) r w of
             (r1, w1) \<Rightarrow> ((r1, False), w1)))"

fun bisync_loop ::
  "SyncEnv \<Rightarrow> (nat \<Rightarrow> object_error option) \<Rightarrow> nat \<Rightarrow> 'w Backend \<Rightarrow> 'w Backend \<Rightarrow> path \<Rightarrow> path \<Rightarrow>
   BisyncOptions \<Rightarrow> biAction list \<Rightarrow> BisyncResult \<Rightarrow> 'w \<Rightarrow> (BisyncResult \<times> object_error option) \<times> 'w" where
  "bisync_loop env ctx i backend1 backend2 path1 path2 opts [] r w = ((r, None), w)"
| "bisync_loop env ctx i backend1 backend2 path1 path2 opts (a # as) r w =
     (case ctx i of
        Some e \<Rightarrow> ((r, Some e), w)
      | None \<Rightarrow>
          (case bisync_action env backend1 backend2 path1 path2 opts a r w of
             ((r1, failed), w1) \<Rightarrow>
               if failed \<and> boMaxErrors opts > 0 \<and> int (length (brErrors r1)) \<ge> boMaxErrors opts
               then ((r1, None), w1)
               else bisync_loop env ctx (Suc i) backend1 backend2 path1 path2 opts as r1 w1))"

definition bi_new_result :: "BisyncOptions \<Rightarrow> nat \<Rightarrow> BisyncResult" where
  "bi_new_result opts skipped =
     \<lparr>brCopiedToPath2 = 0, brCopiedToPath1 = 0, brUpdatedInPath2 = 0, brUpdatedInPath1 = 0,
      brDeletedFromPath1 = 0, brDeletedFromPath2 = 0, brConflicts = [], brSkipped = skipped, brErrors = [],
      brBytesTransferred = 0, brDryRun = boDryRun opts\<rparr>"

definition Bisync ::
  "SyncEnv \<Rightarrow> (nat \<Rightarrow> object_error option) \<Rightarrow> ((path \<times> FileInfo) list \<Rightarrow> (path \<times> FileInfo) list) \<Rightarrow>
   ((path \<times> FileInfo) list \<Rightarrow> (path \<times> FileInfo) list) \<Rightarrow> 'w Backend \<Rightarrow> 'w Backend \<Rightarrow> path \<Rightarrow> path \<Rightarrow>
   BisyncOptions \<Rightarrow> 'w \<Rightarrow> (BisyncResult option \<times> object_error option) \<times> 'w" where
  "Bisync env ctx ord1 ord2 backend1 backend2 path1 path2 opts0 w =
     (let opts = (if boConflictSuffix opts0 = [] then opts0\<lparr>boConflictSuffix := ''.conflict''\<rparr> else opts0);
          syncOpts = scan_options opts
      in case listFiles env syncOpts backend1 path1 w of
           Inl e \<Rightarrow> ((None, Some (Wrapf ''scanning path1'' e)), w)
         | Inr files1 \<Rightarrow>
             (case listFiles env syncOpts backend2 path2 w of
                Inl e \<Rightarrow> ((None, Some (Wrapf ''scanning path2'' e)), w)
              | Inr files2 \<Rightarrow>
                  let files1Map = dst_map (filter (\<lambda>f. \<not> fiIsDir f) files1);
                      files2Map = dst_map (filter (\<lambda>f. \<not> fiIsDir f) files2);
                      (actions, skipped) = plan1_loop env syncOpts files2Map (ord1 (gm_entries files1Map)) [] 0
                  in case bisync_loop env ctx 0 backend1 backend2 path1 path2 opts
                            (actions @ plan2 files1Map (ord2 (gm_entries files2Map))) (bi_new_result opts skipped) w of
                       ((r, e), w1) \<Rightarrow> ((Some r, e), w1)))"

lemma distinct_head_neq: "distinct (map f (x # xs)) \<Longrightarrow> y \<in> set xs \<Longrightarrow> f y \<noteq> f x"
  by simp (metis imageI)

subsection \<open>A dry run\<close>

lemma resolve_copy_dry: "boDryRun opts \<Longrightarrow> resolve_copy env opts name src dst p q rest w = rest w"
  by (simp add: resolve_copy_def)

lemma resolveConflict_dry: "boDryRun opts \<Longrightarrow> snd (resolveConflict env b1 b2 p1 p2 f1 f2 opts w) = w"
  by (simp add: resolveConflict_def resolve_copy_dry resolved_def Let_def split: ConflictStrategy.split)

lemma bisync_action_dry:
  assumes "boDryRun opts"
  shows "snd (bisync_action env b1 b2 p1 p2 opts a r w) = w"
proof -
  have "snd (copyDirection env b1 b2 p1 p2 opts f b r w) = w" for f b
    using assms by (simp add: copyDirection_def Let_def)
  moreover have "snd (conflict_action env b1 b2 p1 p2 opts f f' r w) = w" for f f'
    using resolveConflict_dry [OF assms, of env b1 b2 p1 p2 f f' w]
    by (auto simp: conflict_action_def Let_def split: prod.splits)
  ultimately show ?thesis
    by (simp add: bisync_action_def case_prod_beta split: direction.split)
qed

lemma bisync_loop_dry:
  "boDryRun opts \<Longrightarrow> snd (bisync_loop env ctx i b1 b2 p1 p2 opts as r w) = w"
proof (induction as arbitrary: i r w)
  case (Cons a as)
  then show ?case
    using bisync_action_dry [of opts env b1 b2 p1 p2 a r w] by (auto split: option.split prod.split)
qed simp

subsection \<open>What a conflict becomes\<close>

text \<open>\<open>Some True\<close>: the version of the first side wins; \<open>None\<close>: neither side is copied over the other.\<close>

definition first_wins :: "ConflictStrategy \<Rightarrow> FileInfo \<Rightarrow> FileInfo \<Rightarrow> bool option" where
  "first_wins s f1 f2 =
     (case s of
        ConflictNewerWins \<Rightarrow> Some (fiModTime f1 > fiModTime f2)
      | ConflictLargerWins \<Rightarrow> Some (fiSize f1 > fiSize f2)
      | ConflictSourceWins \<Rightarrow> Some True
      | ConflictDestWins \<Rightarrow> Some False
      | _ \<Rightarrow> None)"

text \<open>The strategies that end every conflict without an error and without another file.\<close>

definition settles :: "ConflictStrategy \<Rightarrow> bool" where
  "settles s \<longleftrightarrow> s \<in> {ConflictNewerWins, ConflictLargerWins, ConflictSourceWins, ConflictDestWins, ConflictSkip}"

text \<open>The two contents of a path after an action on it.\<close>

definition act_values :: "BisyncOptions \<Rightarrow> biAction \<Rightarrow> bytes option \<times> bytes option \<Rightarrow> bytes option \<times> bytes option" where
  "act_values opts a v =
     (case baDirection a of
        To2 \<Rightarrow> (fst v, fst v)
      | To1 \<Rightarrow> (snd v, snd v)
      | ToConflict \<Rightarrow>
          (case first_wins (boConflictStrategy opts) (baFile a) (the (baOther a)) of
             Some True \<Rightarrow> (fst v, fst v)
           | Some False \<Rightarrow> (snd v, snd v)
           | None \<Rightarrow> v))"

context synced_stores
begin

text \<open>The contents of a relative path on both sides, and when an action can be carried out.\<close>

definition sides :: "nat \<Rightarrow> path \<Rightarrow> nat \<Rightarrow> path \<Rightarrow> path \<Rightarrow> 'a \<Rightarrow> bytes option \<times> bytes option" where
  "sides i p1 j p2 x w = (files i w (path_join [p1, x]), files j w (path_join [p2, x]))"

definition act_ready :: "nat \<Rightarrow> path \<Rightarrow> nat \<Rightarrow> path \<Rightarrow> 'a \<Rightarrow> biAction \<Rightarrow> bool" where
  "act_ready i p1 j p2 w a \<longleftrightarrow>
     key (path_join [p1, fiPath (baFile a)]) \<and> key (path_join [p2, fiPath (baFile a)]) \<and>
     (case baDirection a of
        To2 \<Rightarrow> fst (sides i p1 j p2 (fiPath (baFile a)) w) \<noteq> None
      | To1 \<Rightarrow> snd (sides i p1 j p2 (fiPath (baFile a)) w) \<noteq> None
      | ToConflict \<Rightarrow> fst (sides i p1 j p2 (fiPath (baFile a)) w) \<noteq> None \<and>
          snd (sides i p1 j p2 (fiPath (baFile a)) w) \<noteq> None \<and>
          fiPath (the (baOther a)) = fiPath (baFile a))"

text \<open>A world in which only the files of one path have changed, on both sides.\<close>

definition put_sides :: "nat \<Rightarrow> path \<Rightarrow> nat \<Rightarrow> path \<Rightarrow> path \<Rightarrow> bytes option \<times> bytes option \<Rightarrow> 'a \<Rightarrow> 'a \<Rightarrow> bool" where
  "put_sides i p1 j p2 x v w w' \<longleftrightarrow> ok w' \<and>
     files i w' = (files i w)(path_join [p1, x] := fst v) \<and>
     files j w' = (files j w)(path_join [p2, x] := snd v) \<and>
     (\<forall>k. k \<noteq> i \<longrightarrow> k \<noteq> j \<longrightarrow> files k w' = files k w)"

lemma copy_to2:
  assumes "i \<noteq> j" "ok w" "key (path_join [p2, x])" "fst (sides i p1 j p2 x w) = Some d"
  shows "\<exists>w'. copyFileWithContext env opts (B i) (B j) (path_join [p1, x]) (path_join [p2, x]) w = (None, w') \<and>
    put_sides i p1 j p2 x (Some d, Some d) w w'"
proof -
  have d: "files i w (path_join [p1, x]) = Some d" using assms(4) by (simp add: sides_def)
  obtain w' where "copyFileWithContext env opts (B i) (B j) (path_join [p1, x]) (path_join [p2, x]) w = (None, w')"
    "ok w'" "files j w' = (files j w)(path_join [p2, x] := Some d)" "\<forall>k. k \<noteq> j \<longrightarrow> files k w' = files k w"
    using copyFile_stores [OF assms(1-3) d, of env opts] by blast
  moreover have "files i w = (files i w)(path_join [p1, x] := Some d)" using d by auto
  ultimately show ?thesis using assms(1) unfolding put_sides_def by (intro exI [of _ w']) auto
qed

lemma copy_to1:
  assumes "i \<noteq> j" "ok w" "key (path_join [p1, x])" "snd (sides i p1 j p2 x w) = Some d"
  shows "\<exists>w'. copyFileWithContext env opts (B j) (B i) (path_join [p2, x]) (path_join [p1, x]) w = (None, w') \<and>
    put_sides i p1 j p2 x (Some d, Some d) w w'"
proof -
  have d: "files j w (path_join [p2, x]) = Some d" using assms(4) by (simp add: sides_def)
  obtain w' where "copyFileWithContext env opts (B j) (B i) (path_join [p2, x]) (path_join [p1, x]) w = (None, w')"
    "ok w'" "files i w' = (files i w)(path_join [p1, x] := Some d)" "\<forall>k. k \<noteq> i \<longrightarrow> files k w' = files k w"
    using copyFile_stores [OF assms(1) [symmetric] assms(2,3) d, of env opts] by blast
  moreover have "files j w = (files j w)(path_join [p2, x] := Some d)" using d by auto
  ultimately show ?thesis using assms(1) unfolding put_sides_def by (intro exI [of _ w']) auto
qed

lemma put_sides_refl: "ok w \<Longrightarrow> put_sides i p1 j p2 x (sides i p1 j p2 x w) w w"
  by (auto simp: put_sides_def sides_def)

lemma resolve_stores:
  assumes "i \<noteq> j" "ok w" "\<not> boDryRun opts" "settles (boConflictStrategy opts)" "act_ready i p1 j p2 w a"
    "baDirection a = ToConflict"
  shows "\<exists>s d w'. resolveConflict env (B i) (B j) p1 p2 (baFile a) (the (baOther a)) opts w = ((s, d, None), w') \<and>
    put_sides i p1 j p2 (fiPath (baFile a)) (act_values opts a (sides i p1 j p2 (fiPath (baFile a)) w)) w w'"
proof -
  let ?x = "fiPath (baFile a)"
  have k: "key (path_join [p1, ?x])" "key (path_join [p2, ?x])" "fiPath (the (baOther a)) = ?x"
    using assms(5,6) by (simp_all add: act_ready_def)
  obtain d1 d2 where d: "fst (sides i p1 j p2 ?x w) = Some d1" "snd (sides i p1 j p2 ?x w) = Some d2"
    using assms(5,6) by (auto simp: act_ready_def)
  obtain w2 where w2: "copyFileWithContext env (transfer_options opts) (B i) (B j) (path_join [p1, ?x]) (path_join [p2, ?x]) w = (None, w2)"
    "put_sides i p1 j p2 ?x (Some d1, Some d1) w w2"
    using copy_to2 [OF assms(1,2) k(2) d(1)] by blast
  obtain w1 where w1: "copyFileWithContext env (transfer_options opts) (B j) (B i) (path_join [p2, ?x]) (path_join [p1, ?x]) w = (None, w1)"
    "put_sides i p1 j p2 ?x (Some d2, Some d2) w w1"
    using copy_to1 [OF assms(1,2) k(1) d(2)] by blast
  note r = put_sides_refl [OF assms(2), of i p1 j p2 ?x]
  show ?thesis
    using assms(3,4,6) k(3) d w1 w2 r
    by (cases "boConflictStrategy opts")
      (simp_all add: settles_def resolveConflict_def resolve_copy_def resolved_def Let_def act_values_def first_wins_def)
qed

end

context synced_stores
begin

lemma put_sides_same: "put_sides i p1 j p2 x v w w' \<Longrightarrow> sides i p1 j p2 x w' = v"
  by (simp add: put_sides_def sides_def)

lemma put_sides_other:
  assumes "put_sides i p1 j p2 x v w w'" "base_ok p1" "base_ok p2" "plain_key x" "plain_key y" "x \<noteq> y"
  shows "sides i p1 j p2 y w' = sides i p1 j p2 y w"
proof -
  have "path_join [b, y] \<noteq> path_join [b, x]" if "base_ok b" for b
    using relative_join [OF that assms(4)] relative_join [OF that assms(5)] assms(6) by metis
  then show ?thesis using assms(1-3) by (simp add: put_sides_def sides_def)
qed

lemma act_ready_cong:
  "sides i p1 j p2 (fiPath (baFile a)) w' = sides i p1 j p2 (fiPath (baFile a)) w \<Longrightarrow>
   act_ready i p1 j p2 w' a = act_ready i p1 j p2 w a"
  by (simp add: act_ready_def split: direction.split)

lemma bisync_action_stores:
  assumes "i \<noteq> j" "ok w" "\<not> boDryRun opts" "settles (boConflictStrategy opts)" "act_ready i p1 j p2 w a"
  shows "\<exists>r' w'. bisync_action env (B i) (B j) p1 p2 opts a r w = ((r', False), w') \<and> brErrors r' = brErrors r \<and>
    put_sides i p1 j p2 (fiPath (baFile a)) (act_values opts a (sides i p1 j p2 (fiPath (baFile a)) w)) w w'"
proof -
  let ?x = "fiPath (baFile a)"
  have k: "key (path_join [p1, ?x])" "key (path_join [p2, ?x])" using assms(5) by (simp_all add: act_ready_def)
  show ?thesis
  proof (cases "baDirection a")
    case To2
    then obtain d where d: "fst (sides i p1 j p2 ?x w) = Some d" using assms(5) by (auto simp: act_ready_def)
    obtain w' where "copyFileWithContext env (transfer_options opts) (B i) (B j) (path_join [p1, ?x]) (path_join [p2, ?x]) w = (None, w')"
      "put_sides i p1 j p2 ?x (Some d, Some d) w w'" using copy_to2 [OF assms(1,2) k(2) d] by blast
    then show ?thesis using To2 assms(3) d by (simp add: bisync_action_def copyDirection_def act_values_def)
  next
    case To1
    then obtain d where d: "snd (sides i p1 j p2 ?x w) = Some d" using assms(5) by (auto simp: act_ready_def)
    obtain w' where "copyFileWithContext env (transfer_options opts) (B j) (B i) (path_join [p2, ?x]) (path_join [p1, ?x]) w = (None, w')"
      "put_sides i p1 j p2 ?x (Some d, Some d) w w'" using copy_to1 [OF assms(1,2) k(1) d] by blast
    then show ?thesis using To1 assms(3) d by (simp add: bisync_action_def copyDirection_def act_values_def)
  next
    case ToConflict
    obtain s d w' where "resolveConflict env (B i) (B j) p1 p2 (baFile a) (the (baOther a)) opts w = ((s, d, None), w')"
      "put_sides i p1 j p2 ?x (act_values opts a (sides i p1 j p2 ?x w)) w w'"
      using resolve_stores [OF assms ToConflict] by blast
    then show ?thesis
      using ToConflict assms(3)
      by (simp add: bisync_action_def conflict_action_def Let_def count_resolution_def split: CopyDirection.split)
  qed
qed

lemma bisync_loop_stores:
  assumes "i \<noteq> j" "\<not> boDryRun opts" "settles (boConflictStrategy opts)" "base_ok p1" "base_ok p2" "\<And>n. ctx n = None"
    "ok w" "distinct (map (\<lambda>a. fiPath (baFile a)) as)"
    "\<forall>a \<in> set as. plain_key (fiPath (baFile a)) \<and> act_ready i p1 j p2 w a"
  shows "\<exists>r' w'. bisync_loop env ctx n (B i) (B j) p1 p2 opts as r w = ((r', None), w') \<and> brErrors r' = brErrors r \<and>
    ok w' \<and> (\<forall>k. k \<noteq> i \<longrightarrow> k \<noteq> j \<longrightarrow> files k w' = files k w) \<and>
    (\<forall>a \<in> set as. sides i p1 j p2 (fiPath (baFile a)) w' = act_values opts a (sides i p1 j p2 (fiPath (baFile a)) w)) \<and>
    (\<forall>x. plain_key x \<longrightarrow> x \<notin> (\<lambda>a. fiPath (baFile a)) ` set as \<longrightarrow> sides i p1 j p2 x w' = sides i p1 j p2 x w) \<and>
    (\<forall>q. (\<nexists>x. plain_key x \<and> q = path_join [p1, x]) \<longrightarrow> files i w' q = files i w q) \<and>
    (\<forall>q. (\<nexists>x. plain_key x \<and> q = path_join [p2, x]) \<longrightarrow> files j w' q = files j w q)"
  using assms(7-9)
proof (induction as arbitrary: n r w)
  case Nil
  then show ?case by simp
next
  case (Cons a as)
  let ?x = "fiPath (baFile a)" and ?S = "sides i p1 j p2"
  have px: "plain_key ?x" and rd: "act_ready i p1 j p2 w a" using Cons.prems(3) by simp_all
  obtain r1 w1 where one: "bisync_action env (B i) (B j) p1 p2 opts a r w = ((r1, False), w1)" "brErrors r1 = brErrors r"
    "put_sides i p1 j p2 ?x (act_values opts a (?S ?x w)) w w1"
    using bisync_action_stores [OF assms(1) Cons.prems(1) assms(2,3) rd] by blast
  have ok1: "ok w1" using one(3) by (simp add: put_sides_def)
  have oth: "?S y w1 = ?S y w" if "plain_key y" "y \<noteq> ?x" for y
    using put_sides_other [OF one(3) assms(4,5) px that(1)] that(2) by metis
  have nx: "fiPath (baFile b) \<noteq> ?x" if "b \<in> set as" for b
    using distinct_head_neq [OF Cons.prems(2) that] .
  have rd1: "\<forall>b \<in> set as. plain_key (fiPath (baFile b)) \<and> act_ready i p1 j p2 w1 b"
  proof
    fix b assume b: "b \<in> set as"
    then have "plain_key (fiPath (baFile b))" "act_ready i p1 j p2 w b" using Cons.prems(3) by simp_all
    then show "plain_key (fiPath (baFile b)) \<and> act_ready i p1 j p2 w1 b"
      using act_ready_cong [of i p1 j p2 b w1 w] oth nx [OF b] by simp
  qed
  have d1: "distinct (map (\<lambda>a. fiPath (baFile a)) as)" using Cons.prems(2) by simp
  obtain r' w' where ih: "bisync_loop env ctx (Suc n) (B i) (B j) p1 p2 opts as r1 w1 = ((r', None), w')"
    "brErrors r' = brErrors r1" "ok w'" "\<forall>k. k \<noteq> i \<longrightarrow> k \<noteq> j \<longrightarrow> files k w' = files k w1"
    "\<forall>b \<in> set as. ?S (fiPath (baFile b)) w' = act_values opts b (?S (fiPath (baFile b)) w1)"
    "\<forall>x. plain_key x \<longrightarrow> x \<notin> (\<lambda>a. fiPath (baFile a)) ` set as \<longrightarrow> ?S x w' = ?S x w1"
    "\<forall>q. (\<nexists>x. plain_key x \<and> q = path_join [p1, x]) \<longrightarrow> files i w' q = files i w1 q"
    "\<forall>q. (\<nexists>x. plain_key x \<and> q = path_join [p2, x]) \<longrightarrow> files j w' q = files j w1 q"
    using Cons.IH [OF ok1 d1 rd1, of "Suc n" r1] by blast
  have step: "bisync_loop env ctx n (B i) (B j) p1 p2 opts (a # as) r w = ((r', None), w')"
    using one(1) ih(1) assms(6) by simp
  have "?S ?x w' = act_values opts a (?S ?x w)"
    using ih(6) px nx put_sides_same [OF one(3)] by (metis (no_types, lifting) imageE)
  moreover have "?S (fiPath (baFile b)) w' = act_values opts b (?S (fiPath (baFile b)) w)" if b: "b \<in> set as" for b
    using ih(5) b oth nx [OF b] rd1 by simp
  moreover have "?S x w' = ?S x w" if "plain_key x" "x \<notin> (\<lambda>a. fiPath (baFile a)) ` set (a # as)" for x
    using that ih(6) oth by simp
  moreover have "files i w' q = files i w q" if q: "\<nexists>x. plain_key x \<and> q = path_join [p1, x]" for q
    using ih(7) q one(3) px by (auto simp: put_sides_def)
  moreover have "files j w' q = files j w q" if q: "\<nexists>x. plain_key x \<and> q = path_join [p2, x]" for q
    using ih(8) q one(3) px by (auto simp: put_sides_def)
  moreover have "\<forall>k. k \<noteq> i \<longrightarrow> k \<noteq> j \<longrightarrow> files k w' = files k w" using ih(4) one(3) by (simp add: put_sides_def)
  ultimately show ?case using step ih(2,3) one(2) by simp
qed

end

subsection \<open>The plan of a run\<close>

lemma plan1_loop_eq:
  "plan1_loop env so m es acts sk =
     (acts @ List.map_filter (bi_action1 env so m) es,
      sk + length (filter (\<lambda>e. bi_action1 env so m e = None) es))"
  by (induction es arbitrary: acts sk) (auto simp: List.map_filter_def split: option.splits)

lemma bi_action1_path: "bi_action1 env so m (p, f) = Some a \<Longrightarrow> baFile a = f"
  by (auto simp: bi_action1_def split: option.splits if_splits)

lemma map_filter_paths:
  "\<forall>(p, f) \<in> set es. fiPath f = p \<Longrightarrow>
   map (\<lambda>a. fiPath (baFile a)) (List.map_filter (bi_action1 env so m) es) =
     map fst (filter (\<lambda>e. bi_action1 env so m e \<noteq> None) es)"
proof (induction es)
  case (Cons e es)
  obtain p f where e: "e = (p, f)" by (cases e)
  show ?case
  proof (cases "bi_action1 env so m (p, f)")
    case (Some a)
    then show ?thesis using Cons bi_action1_path [OF Some] e by (simp add: List.map_filter_def)
  qed (use Cons e in \<open>simp add: List.map_filter_def\<close>)
qed (simp add: List.map_filter_def)

definition bi_plan ::
  "SyncEnv \<Rightarrow> SyncOptions \<Rightarrow> ((path \<times> FileInfo) list \<Rightarrow> (path \<times> FileInfo) list) \<Rightarrow>
   ((path \<times> FileInfo) list \<Rightarrow> (path \<times> FileInfo) list) \<Rightarrow> FileInfo list \<Rightarrow> FileInfo list \<Rightarrow> biAction list" where
  "bi_plan env so ord1 ord2 fs1 fs2 =
     List.map_filter (bi_action1 env so (dst_map fs2)) (ord1 (gm_entries (dst_map fs1))) @
     plan2 (dst_map fs1) (ord2 (gm_entries (dst_map fs2)))"

lemma entries_of_files:
  assumes "distinct (map fiPath fs)" "range_order ord"
  shows "(p, f) \<in> set (ord (gm_entries (dst_map fs))) \<longleftrightarrow> f \<in> set fs \<and> fiPath f = p"
  using assms dst_map_get [OF assms(1), of p f] by (simp add: gm_get_iff_entry)

lemma bi_plan_distinct:
  assumes "distinct (map fiPath fs1)" "distinct (map fiPath fs2)" "range_order ord1" "range_order ord2"
  shows "distinct (map (\<lambda>a. fiPath (baFile a)) (bi_plan env so ord1 ord2 fs1 fs2))"
proof -
  let ?e1 = "ord1 (gm_entries (dst_map fs1))" and ?e2 = "ord2 (gm_entries (dst_map fs2))"
  have p1: "\<forall>(p, f) \<in> set ?e1. fiPath f = p" and p2: "\<forall>(p, f) \<in> set ?e2. fiPath f = p"
    using entries_of_files [OF assms(1,3)] entries_of_files [OF assms(2,4)] by auto
  have d: "distinct (map fst ?e1)" "distinct (map fst ?e2)" using range_map_fst(2) assms(3,4) by blast+
  have q2: "map (\<lambda>a. fiPath (baFile a)) (plan2 (dst_map fs1) ?e2) =
      map fst (filter (\<lambda>(p, f). gm_get (dst_map fs1) p = None) ?e2)"
    using p2 by (auto simp: plan2_def)
  have "gm_get (dst_map fs1) p = Some f" if "(p, f) \<in> set ?e1" for p f
    using that assms(3) by (simp add: gm_get_iff_entry)
  then have dj: "fst ` set (filter (\<lambda>e. bi_action1 env so (dst_map fs2) e \<noteq> None) ?e1) \<inter>
      fst ` set (filter (\<lambda>(p, f). gm_get (dst_map fs1) p = None) ?e2) = {}" by fastforce
  show ?thesis
    unfolding bi_plan_def map_append map_filter_paths [OF p1] q2 distinct_append set_map
    using d dj by (simp add: distinct_map_filter)
qed

text \<open>The actions of the plan, by the listings of both sides.\<close>

lemma bi_plan_in:
  assumes "distinct (map fiPath fs1)" "distinct (map fiPath fs2)" "range_order ord1" "range_order ord2"
  shows "a \<in> set (bi_plan env so ord1 ord2 fs1 fs2) \<longleftrightarrow>
    (\<exists>f \<in> set fs1. bi_action1 env so (dst_map fs2) (fiPath f, f) = Some a) \<or>
    (\<exists>f \<in> set fs2. fiPath f \<notin> fiPath ` set fs1 \<and> a = \<lparr>baFile = f, baDirection = To1, baOther = None\<rparr>)"
proof -
  let ?e1 = "ord1 (gm_entries (dst_map fs1))" and ?e2 = "ord2 (gm_entries (dst_map fs2))"
  have "a \<in> set (List.map_filter (bi_action1 env so (dst_map fs2)) ?e1) \<longleftrightarrow>
      (\<exists>p f. (p, f) \<in> set ?e1 \<and> bi_action1 env so (dst_map fs2) (p, f) = Some a)"
    by (force simp: List.map_filter_def)
  also have "\<dots> \<longleftrightarrow> (\<exists>f \<in> set fs1. bi_action1 env so (dst_map fs2) (fiPath f, f) = Some a)"
    unfolding entries_of_files [OF assms(1,3)] by blast
  finally have 1: "a \<in> set (List.map_filter (bi_action1 env so (dst_map fs2)) ?e1) \<longleftrightarrow>
      (\<exists>f \<in> set fs1. bi_action1 env so (dst_map fs2) (fiPath f, f) = Some a)" .
  have "a \<in> set (plan2 (dst_map fs1) ?e2) \<longleftrightarrow>
      (\<exists>p f. (p, f) \<in> set ?e2 \<and> gm_get (dst_map fs1) p = None \<and> a = \<lparr>baFile = f, baDirection = To1, baOther = None\<rparr>)"
    by (auto simp: plan2_def)
  also have "\<dots> \<longleftrightarrow> (\<exists>f \<in> set fs2. fiPath f \<notin> fiPath ` set fs1 \<and> a = \<lparr>baFile = f, baDirection = To1, baOther = None\<rparr>)"
    unfolding entries_of_files [OF assms(2,4)] dst_map_iff by blast
  finally show ?thesis using 1 by (simp add: bi_plan_def)
qed

text \<open>
  The two contents of a path after a run, from its contents and infos before: what one side lacks is
  copied there; a difference the comparison sees is settled by the strategy.
\<close>

definition merged ::
  "SyncEnv \<Rightarrow> BisyncOptions \<Rightarrow> FileInfo \<Rightarrow> FileInfo \<Rightarrow> bytes option \<times> bytes option \<Rightarrow> bytes option \<times> bytes option" where
  "merged env opts f1 f2 v =
     (case v of
        (Some d, None) \<Rightarrow> (Some d, Some d)
      | (None, Some d) \<Rightarrow> (Some d, Some d)
      | (None, None) \<Rightarrow> (None, None)
      | (Some d1, Some d2) \<Rightarrow>
          if NeedsUpdate env f1 f2 (scan_options opts) \<or> NeedsUpdate env f2 f1 (scan_options opts)
          then (case first_wins (boConflictStrategy opts) f1 f2 of
                  Some True \<Rightarrow> (Some d1, Some d1)
                | Some False \<Rightarrow> (Some d2, Some d2)
                | None \<Rightarrow> (Some d1, Some d2))
          else (Some d1, Some d2))"

context synced_stores
begin

text \<open>The action that the plan has for a relative path, if any.\<close>

definition planned :: "SyncEnv \<Rightarrow> SyncOptions \<Rightarrow> nat \<Rightarrow> path \<Rightarrow> nat \<Rightarrow> path \<Rightarrow> 'a \<Rightarrow> path \<Rightarrow> biAction option" where
  "planned env so i p1 j p2 w x =
     (let f1 = rel_info so i p1 x w; f2 = rel_info so j p2 x w
      in case sides i p1 j p2 x w of
           (None, None) \<Rightarrow> None
         | (Some _, None) \<Rightarrow> Some \<lparr>baFile = f1, baDirection = To2, baOther = None\<rparr>
         | (None, Some _) \<Rightarrow> Some \<lparr>baFile = f2, baDirection = To1, baOther = None\<rparr>
         | (Some _, Some _) \<Rightarrow>
             if NeedsUpdate env f1 f2 so \<or> NeedsUpdate env f2 f1 so
             then Some \<lparr>baFile = f1, baDirection = ToConflict, baOther = Some f2\<rparr> else None)"

lemma bi_plan_trees:
  assumes "ok w" "base_ok p1" "base_ok p2" "tree_of so i p1 w fs" "tree_of so j p2 w fd" "range_order ord1" "range_order ord2"
  shows "a \<in> set (bi_plan env so ord1 ord2 fs fd) \<longleftrightarrow> (\<exists>x. plain_key x \<and> planned env so i p1 j p2 w x = Some a)"
proof -
  note S = tree_ofD [OF assms(1,2,4)] and D = tree_ofD [OF assms(1,3,5)]
  let ?A = "\<lambda>x. files i w (path_join [p1, x])" and ?D = "\<lambda>x. files j w (path_join [p2, x])"
  have left: "bi_action1 env so (dst_map fd) (fiPath f, f) = planned env so i p1 j p2 w (fiPath f)" if f: "f \<in> set fs" for f
  proof -
    have x: "plain_key (fiPath f)" "?A (fiPath f) \<noteq> None" "rel_info so i p1 (fiPath f) w = f" "\<not> fiIsDir f" using S(2) [OF f] by auto
    show ?thesis
      using x D(5) [OF x(1)] rel_info_path [OF assms(1,3) x(1), of j so]
      by (auto simp: bi_action1_def planned_def sides_def split: option.splits)
  qed
  have "(\<exists>f \<in> set fs. bi_action1 env so (dst_map fd) (fiPath f, f) = Some a) \<longleftrightarrow>
      (\<exists>x \<in> fiPath ` set fs. planned env so i p1 j p2 w x = Some a)" using left by auto
  also have "\<dots> \<longleftrightarrow> (\<exists>x. plain_key x \<and> ?A x \<noteq> None \<and> planned env so i p1 j p2 w x = Some a)" unfolding S(4) by blast
  finally have 1: "(\<exists>f \<in> set fs. bi_action1 env so (dst_map fd) (fiPath f, f) = Some a) \<longleftrightarrow>
      (\<exists>x. plain_key x \<and> ?A x \<noteq> None \<and> planned env so i p1 j p2 w x = Some a)" .
  have right: "fiPath f \<notin> fiPath ` set fs \<and> a = \<lparr>baFile = f, baDirection = To1, baOther = None\<rparr> \<longleftrightarrow>
      ?A (fiPath f) = None \<and> planned env so i p1 j p2 w (fiPath f) = Some a" if f: "f \<in> set fd" for f
  proof -
    have x: "plain_key (fiPath f)" "?D (fiPath f) \<noteq> None" "rel_info so j p2 (fiPath f) w = f" using D(2) [OF f] by auto
    then show ?thesis unfolding S(4) by (auto simp: planned_def sides_def split: option.splits)
  qed
  have "(\<exists>f \<in> set fd. fiPath f \<notin> fiPath ` set fs \<and> a = \<lparr>baFile = f, baDirection = To1, baOther = None\<rparr>) \<longleftrightarrow>
      (\<exists>x \<in> fiPath ` set fd. ?A x = None \<and> planned env so i p1 j p2 w x = Some a)" using right by auto
  also have "\<dots> \<longleftrightarrow> (\<exists>x. plain_key x \<and> ?D x \<noteq> None \<and> ?A x = None \<and> planned env so i p1 j p2 w x = Some a)"
    unfolding D(4) by blast
  also have "\<dots> \<longleftrightarrow> (\<exists>x. plain_key x \<and> ?A x = None \<and> planned env so i p1 j p2 w x = Some a)"
    by (auto simp: planned_def sides_def Let_def split: option.splits)
  finally show ?thesis unfolding bi_plan_in [OF S(1) D(1) assms(6,7)] 1 by blast
qed

text \<open>What a planned action makes of the path, and what no action leaves.\<close>

lemma planned_act:
  assumes "ok w" "base_ok p1" "base_ok p2" "p1 = [] \<longleftrightarrow> p2 = []" "plain_key x"
    and "boConflictStrategy opts' = boConflictStrategy opts" "planned env (scan_options opts) i p1 j p2 w x = Some a"
  shows "fiPath (baFile a) = x" "act_ready i p1 j p2 w a"
    "act_values opts' a (sides i p1 j p2 x w) =
      merged env opts (rel_info (scan_options opts) i p1 x w) (rel_info (scan_options opts) j p2 x w) (sides i p1 j p2 x w)"
proof -
  let ?A = "files i w (path_join [p1, x])" and ?D = "files j w (path_join [p2, x])"
  note info = rel_info_path(1) [OF assms(1,2,5), of i "scan_options opts"] rel_info_path(1) [OF assms(1,3,5), of j "scan_options opts"]
  show p: "fiPath (baFile a) = x"
    using assms(7) info by (auto simp: planned_def sides_def Let_def split: option.splits if_splits)
  have "?A \<noteq> None \<or> ?D \<noteq> None" using assms(7) by (auto simp: planned_def sides_def Let_def split: option.splits)
  then have "key (path_join [p1, x]) \<and> key (path_join [p2, x])"
    using key_law [OF assms(1)] key_dst [OF assms(1-3) _ assms(5)] key_dst [OF assms(1,3,2) _ assms(5)] assms(4) by blast
  then show "act_ready i p1 j p2 w a" unfolding act_ready_def p
    using assms(7) info by (auto simp: planned_def sides_def Let_def split: option.splits if_splits)
  show "act_values opts' a (sides i p1 j p2 x w) =
      merged env opts (rel_info (scan_options opts) i p1 x w) (rel_info (scan_options opts) j p2 x w) (sides i p1 j p2 x w)"
    using assms(6,7) by (auto simp: planned_def act_values_def merged_def sides_def Let_def split: option.splits bool.splits if_splits)
qed

lemma planned_none:
  "planned env (scan_options opts) i p1 j p2 w x = None \<Longrightarrow>
    merged env opts (rel_info (scan_options opts) i p1 x w) (rel_info (scan_options opts) j p2 x w) (sides i p1 j p2 x w) = sides i p1 j p2 x w"
  by (auto simp: planned_def merged_def sides_def Let_def split: option.splits if_splits)

lemma Bisync_effect:
  assumes "i \<noteq> j" "ok w" "base_ok p1" "base_ok p2" "p1 = [] \<longleftrightarrow> p2 = []" "clean_under i p1 w" "clean_under j p2 w"
    "boFilter opts = None" "\<not> boDryRun opts" "settles (boConflictStrategy opts)" "\<And>n. ctx n = None"
    "range_order ord1" "range_order ord2"
  shows "\<exists>r w'. Bisync env ctx ord1 ord2 (B i) (B j) p1 p2 opts w = ((Some r, None), w') \<and> bi_Success r \<and> ok w' \<and>
    (\<forall>k. k \<noteq> i \<longrightarrow> k \<noteq> j \<longrightarrow> files k w' = files k w) \<and>
    (\<forall>x. plain_key x \<longrightarrow> sides i p1 j p2 x w' =
       merged env opts (rel_info (scan_options opts) i p1 x w) (rel_info (scan_options opts) j p2 x w) (sides i p1 j p2 x w)) \<and>
    (\<forall>q. (\<nexists>x. plain_key x \<and> q = path_join [p1, x]) \<longrightarrow> files i w' q = files i w q) \<and>
    (\<forall>q. (\<nexists>x. plain_key x \<and> q = path_join [p2, x]) \<longrightarrow> files j w' q = files j w q)"
proof -
  let ?opts = "if boConflictSuffix opts = [] then opts\<lparr>boConflictSuffix := ''.conflict''\<rparr> else opts"
  let ?so = "scan_options opts"
  have oo: "\<not> boDryRun ?opts" "settles (boConflictStrategy ?opts)" "boConflictStrategy ?opts = boConflictStrategy opts"
    "scan_options ?opts = ?so"
    using assms(9,10) by (simp_all add: scan_options_def)
  have nf: "soFilter ?so = None" using assms(8) by (simp add: scan_options_def zeroOptions_def)
  obtain fs where fs: "listFiles env ?so (B i) p1 w = Inr fs" "tree_of ?so i p1 w fs"
    using listFiles_tree [OF assms(2,3,6) nf] .
  obtain fd where fd: "listFiles env ?so (B j) p2 w = Inr fd" "tree_of ?so j p2 w fd"
    using listFiles_tree [OF assms(2,4,7) nf] .
  note S = tree_ofD [OF assms(2,3) fs(2)] and D = tree_ofD [OF assms(2,4) fd(2)]
  have pf: "plain_files fs = fs" "plain_files fd = fd" using S(2) D(2) by (auto simp: filter_id_conv)
  let ?as = "bi_plan env ?so ord1 ord2 fs fd"
  note plan = bi_plan_trees [OF assms(2-4) fs(2) fd(2) assms(12,13), where env = env]
  note act = planned_act [OF assms(2-5) _ oo(3), where env = env and i = i and j = j]
  have ready: "\<forall>a \<in> set ?as. plain_key (fiPath (baFile a)) \<and> act_ready i p1 j p2 w a"
  proof
    fix a assume "a \<in> set ?as"
    then obtain x where x: "plain_key x" "planned env ?so i p1 j p2 w x = Some a" unfolding plan by blast
    then show "plain_key (fiPath (baFile a)) \<and> act_ready i p1 j p2 w a" using act(1,2) [OF x] by simp
  qed
  let ?n = "length (filter (\<lambda>e. bi_action1 env ?so (dst_map fd) e = None) (ord1 (gm_entries (dst_map fs))))"
  obtain r w' where l: "bisync_loop env ctx 0 (B i) (B j) p1 p2 ?opts ?as (bi_new_result ?opts ?n) w = ((r, None), w')"
    "brErrors r = brErrors (bi_new_result ?opts ?n)" "ok w'" "\<forall>k. k \<noteq> i \<longrightarrow> k \<noteq> j \<longrightarrow> files k w' = files k w"
    "\<forall>a \<in> set ?as. sides i p1 j p2 (fiPath (baFile a)) w' = act_values ?opts a (sides i p1 j p2 (fiPath (baFile a)) w)"
    "\<forall>x. plain_key x \<longrightarrow> x \<notin> (\<lambda>a. fiPath (baFile a)) ` set ?as \<longrightarrow> sides i p1 j p2 x w' = sides i p1 j p2 x w"
    "\<forall>q. (\<nexists>x. plain_key x \<and> q = path_join [p1, x]) \<longrightarrow> files i w' q = files i w q"
    "\<forall>q. (\<nexists>x. plain_key x \<and> q = path_join [p2, x]) \<longrightarrow> files j w' q = files j w q"
    using bisync_loop_stores [of i j ?opts p1 p2 ctx w ?as env 0 "bi_new_result ?opts ?n",
      OF assms(1) oo(1,2) assms(3,4,11,2) bi_plan_distinct [OF S(1) D(1) assms(12,13)] ready] by blast
  have "Bisync env ctx ord1 ord2 (B i) (B j) p1 p2 opts w = ((Some r, None), w')"
    using l(1) unfolding Bisync_def Let_def oo(4)
    by (simp only: fs(1) fd(1) sum.case pf plan1_loop_eq prod.case append_Nil add_0 flip: bi_plan_def)
  moreover have "bi_Success r" using l(2) by (simp add: bi_Success_def bi_new_result_def)
  moreover have "sides i p1 j p2 x w' = merged env opts (rel_info ?so i p1 x w) (rel_info ?so j p2 x w) (sides i p1 j p2 x w)"
    if x: "plain_key x" for x
  proof (cases "planned env ?so i p1 j p2 w x")
    case None
    have "x \<notin> (\<lambda>a. fiPath (baFile a)) ` set ?as"
    proof
      assume "x \<in> (\<lambda>a. fiPath (baFile a)) ` set ?as"
      then obtain y a where y: "plain_key y" "planned env ?so i p1 j p2 w y = Some a" "x = fiPath (baFile a)" unfolding image_iff Bex_def plan by blast
      then show False using act(1) [OF y(1,2)] None by simp
    qed
    then show ?thesis using l(6) x planned_none [OF None] by metis
  next
    case (Some a)
    then have "a \<in> set ?as" unfolding plan using x by blast
    then show ?thesis using l(5) act(1,3) [OF x Some] by metis
  qed
  ultimately show ?thesis using l(3,4,7,8) by blast
qed

end

subsection \<open>Keeping both versions\<close>

context synced_stores
begin

lemma copy_same_store:
  assumes "ok w" "key p" "key q" "p \<noteq> q" "files i w p = Some d"
  shows "\<exists>w'. copyFileWithContext env opts (B i) (B i) p q w = (None, w') \<and> ok w' \<and>
    files i w' = (files i w)(q := Some d) \<and> (\<forall>k. k \<noteq> i \<longrightarrow> files k w' = files k w)"
proof -
  obtain w' where w': "exCopy (ext i) p q w = (None, w')" "ok w'" "files i w' = (files i w)(q := Some d)"
    "\<forall>k. k \<noteq> i \<longrightarrow> files k w' = files k w" using copy_law [OF assms] by blast
  have "copyFileSingle opts (B i) (B i) p q w = (None, w')"
    using w'(1) features_law by (simp add: copyFileSingle_def AsExtended_def ext_law)
  from copyFileWithContext_success [OF this] w'(2-4) show ?thesis by blast
qed

text \<open>The three copies of one resolution, from the store of the older version.\<close>

lemma keep_both_copies:
  assumes "o' \<noteq> n" "ok w" "key po" "key pn" "key co" "key cn" "co \<noteq> po" "cn \<noteq> pn"
    "files o' w po = Some dold" "files n w pn = Some dnew" "\<not> boDryRun opts"
  shows "\<exists>w'. resolve_copy env opts m (B o') (B o') po co
      (resolve_copy env opts m (B n) (B o') pn po (resolve_copy env opts m (B o') (B n) co cn (resolved m DirBoth))) w =
      ((m, DirBoth, None), w') \<and> ok w' \<and>
    files o' w' = (files o' w)(co := Some dold, po := Some dnew) \<and> files n w' = (files n w)(cn := Some dold) \<and>
    (\<forall>k. k \<noteq> o' \<longrightarrow> k \<noteq> n \<longrightarrow> files k w' = files k w)"
proof -
  let ?t = "transfer_options opts"
  obtain w1 where w1: "copyFileWithContext env ?t (B o') (B o') po co w = (None, w1)" "ok w1"
    "files o' w1 = (files o' w)(co := Some dold)" "\<forall>k. k \<noteq> o' \<longrightarrow> files k w1 = files k w"
    using copy_same_store [OF assms(2,3,5) assms(7) [symmetric] assms(9)] by blast
  have "files n w1 pn = Some dnew" using w1(4) assms(1,10) by metis
  from copyFile_stores [OF assms(1) [symmetric] w1(2) assms(3) this, of env ?t]
  obtain w2 where w2: "copyFileWithContext env ?t (B n) (B o') pn po w1 = (None, w2)" "ok w2"
    "files o' w2 = (files o' w1)(po := Some dnew)" "\<forall>k. k \<noteq> o' \<longrightarrow> files k w2 = files k w1" by blast
  have "files o' w2 co = Some dold" using w2(3) w1(3) assms(7) by simp
  from copyFile_stores [OF assms(1) w2(2) assms(6) this, of env ?t]
  obtain w3 where w3: "copyFileWithContext env ?t (B o') (B n) co cn w2 = (None, w3)" "ok w3"
    "files n w3 = (files n w2)(cn := Some dold)" "\<forall>k. k \<noteq> n \<longrightarrow> files k w3 = files k w2" by blast
  have "files o' w3 = (files o' w)(co := Some dold, po := Some dnew)" using w3(4) w2(3) w1(3) assms(1) by metis
  moreover have "files n w3 = (files n w)(cn := Some dold)" using w3(3) w2(4) w1(4) assms(1) by metis
  moreover have "\<forall>k. k \<noteq> o' \<longrightarrow> k \<noteq> n \<longrightarrow> files k w3 = files k w" using w3(4) w2(4) w1(4) by simp
  ultimately show ?thesis using w1(1) w2(1) w3(1,2) assms(11) by (simp add: resolve_copy_def resolved_def)
qed

end

context synced_stores
begin

text \<open>What a strategy that picks a side makes of a file: one of the two versions, on both sides.\<close>

lemma merged_agrees:
  assumes "settles (boConflictStrategy opts)" "boConflictStrategy opts \<noteq> ConflictSkip"
    "\<forall>u v. a = Some u \<longrightarrow> d = Some v \<longrightarrow> u \<noteq> v \<longrightarrow> NeedsUpdate env f1 f2 (scan_options opts)"
    and m: "m = merged env opts f1 f2 (a, d)"
  shows "fst m = snd m \<and> fst m \<in> {a, d} \<and> (fst m = None \<longrightarrow> a = None \<and> d = None)"
proof (cases "a = None \<or> d = None")
  case True
  then show ?thesis unfolding m by (cases a; cases d) (simp_all add: merged_def)
next
  case False
  then obtain u v where uv: "a = Some u" "d = Some v" by (cases a; cases d) auto
  have "\<exists>c. first_wins (boConflictStrategy opts) f1 f2 = Some c"
    using assms(1,2) by (auto simp: settles_def first_wins_def)
  then obtain c where "first_wins (boConflictStrategy opts) f1 f2 = Some c" ..
  then show ?thesis using assms(3) uv unfolding m uv by (cases c) (auto simp: merged_def)
qed

lemma Bisync_converges:
  assumes "i \<noteq> j" "ok w" "base_ok p1" "base_ok p2" "p1 = [] \<longleftrightarrow> p2 = []" "clean_under i p1 w" "clean_under j p2 w"
    "boFilter opts = None" "\<not> boDryRun opts" "settles (boConflictStrategy opts)" "boConflictStrategy opts \<noteq> ConflictSkip"
    "\<And>n. ctx n = None" "range_order ord1" "range_order ord2" "detects env (scan_options opts) i p1 j p2 w"
  shows "\<exists>r w'. Bisync env ctx ord1 ord2 (B i) (B j) p1 p2 opts w = ((Some r, None), w') \<and> bi_Success r \<and> ok w' \<and>
    (\<forall>x. plain_key x \<longrightarrow> files i w' (path_join [p1, x]) = files j w' (path_join [p2, x]) \<and>
      files i w' (path_join [p1, x]) \<in> {files i w (path_join [p1, x]), files j w (path_join [p2, x])} \<and>
      (files i w' (path_join [p1, x]) = None \<longrightarrow>
         files i w (path_join [p1, x]) = None \<and> files j w (path_join [p2, x]) = None))"
proof -
  obtain r w' where b: "Bisync env ctx ord1 ord2 (B i) (B j) p1 p2 opts w = ((Some r, None), w')" "bi_Success r" "ok w'"
    "\<And>x. plain_key x \<Longrightarrow> sides i p1 j p2 x w' =
       merged env opts (rel_info (scan_options opts) i p1 x w) (rel_info (scan_options opts) j p2 x w) (sides i p1 j p2 x w)"
    using Bisync_effect [of i j w p1 p2 opts ctx ord1 ord2 env, OF assms(1-10,12-14)] by blast
  have "files i w' (path_join [p1, x]) = files j w' (path_join [p2, x]) \<and>
      files i w' (path_join [p1, x]) \<in> {files i w (path_join [p1, x]), files j w (path_join [p2, x])} \<and>
      (files i w' (path_join [p1, x]) = None \<longrightarrow> files i w (path_join [p1, x]) = None \<and> files j w (path_join [p2, x]) = None)"
    if x: "plain_key x" for x
  proof -
    let ?A = "files i w (path_join [p1, x])" and ?D = "files j w (path_join [p2, x])"
    let ?f = "rel_info (scan_options opts) i p1 x w" and ?g = "rel_info (scan_options opts) j p2 x w"
    have "\<forall>u v. ?A = Some u \<longrightarrow> ?D = Some v \<longrightarrow> u \<noteq> v \<longrightarrow> NeedsUpdate env ?f ?g (scan_options opts)"
      using assms(15) x unfolding detects_def by blast
    from merged_agrees [of opts ?A ?D env ?f ?g, OF assms(10,11) this b(4) [OF x, unfolded sides_def]] show ?thesis
      unfolding fst_conv snd_conv .
  qed
  then show ?thesis using b(1-3) by blast
qed

end

subsection \<open>Properties\<close>

text \<open>A dry run of \<open>Bisync\<close> changes nothing, for any two backends and any plan.\<close>

theorem bisync_dry_run:
  assumes "boDryRun opts"
  shows "snd (Bisync env ctx ord1 ord2 b1 b2 p1 p2 opts w) = w"
  unfolding Bisync_def Let_def using assms
  by (cases "boConflictSuffix opts = []") (simp_all add: case_prod_beta bisync_loop_dry split: sum.split)

theorem bisync_dry_run_witness:
  "snd (Bisync witness_env (\<lambda>n. None) id id (broken 0 [''a'']) (broken 1 [''b'']) [] []
     (DefaultBisyncOptions\<lparr>boDryRun := True\<rparr>) 7) = 7"
  by (rule bisync_dry_run) simp

lemma mem_Bisync_effect:
  assumes "i \<noteq> j" "wd_ok W" "mem_base_ok p1" "mem_base_ok p2" "p1 = [] \<longleftrightarrow> p2 = []" "mem_clean_under i p1 W" "mem_clean_under j p2 W"
    "boFilter opts = None" "\<not> boDryRun opts" "settles (boConflictStrategy opts)" "\<And>n. ctx n = None"
    "range_order ord1" "range_order ord2"
  shows "\<exists>r W'. Bisync env ctx ord1 ord2 (mem_Backend i) (mem_Backend j) p1 p2 opts W = ((Some r, None), W') \<and> bi_Success r \<and>
    wd_ok W' \<and> (\<forall>k. k \<noteq> i \<longrightarrow> k \<noteq> j \<longrightarrow> wd_files k W' = wd_files k W) \<and>
    (\<forall>x. plain_key x \<longrightarrow> (wd_files i W' (path_join [p1, x]), wd_files j W' (path_join [p2, x])) =
       merged env opts (mem_info (scan_options opts) i p1 x W) (mem_info (scan_options opts) j p2 x W)
         (wd_files i W (path_join [p1, x]), wd_files j W (path_join [p2, x]))) \<and>
    (\<forall>q. (\<nexists>x. plain_key x \<and> q = path_join [p1, x]) \<longrightarrow> wd_files i W' q = wd_files i W q) \<and>
    (\<forall>q. (\<nexists>x. plain_key x \<and> q = path_join [p2, x]) \<longrightarrow> wd_files j W' q = wd_files j W q)"
  using assms by (rule mem_sync.Bisync_effect [unfolded mem_sync_eqs mem_sync.sides_def])


lemma witness_bisync:
  "mem_base_ok []" "boFilter DefaultBisyncOptions = None" "\<not> boDryRun DefaultBisyncOptions"
  "settles (boConflictStrategy DefaultBisyncOptions)" "boConflictStrategy DefaultBisyncOptions \<noteq> ConflictSkip"
  by (simp_all add: mem_base_ok_def DefaultBisyncOptions_def settles_def)

lemma witness_letter: "plain_key ''a''" "path_join [[], ''a''] = ''a''" "wd_files 1 witness_world ''a'' = None"
proof -
  show k: "plain_key ''a''" using mem_key_letter(1) by (simp add: mem_key_def)
  show "path_join [[], ''a''] = ''a''" using plain_key_join_Nil [OF k] .
  show "wd_files 1 witness_world ''a'' = None" by (simp add: wd_files_def witness_world_def mem_New_def mem_files_def)
qed




lemma mem_join_neq:
  assumes "mem_base_ok b" "plain_key x" "plain_key y" "x \<noteq> y"
  shows "path_join [b, x] \<noteq> path_join [b, y]"
  using mem_sync.relative_join [unfolded mem_sync_eqs, OF assms(1,2)] mem_sync.relative_join [unfolded mem_sync_eqs, OF assms(1,3)]
    assms(4) by metis

text \<open>\<open>KeepBoth\<close>: after the resolution both sides hold the newer version under the path and the older one
  under the path with the suffix; nothing else changes. A file that had that name before, on either
  side, is overwritten.\<close>

theorem keep_both:
  assumes "i \<noteq> j" "wd_ok W" "mem_base_ok p1" "mem_base_ok p2" "boConflictStrategy opts = ConflictKeepBoth" "\<not> boDryRun opts"
    "fiPath f1 = x" "fiPath f2 = x" "plain_key x" "plain_key (x @ boConflictSuffix opts)" "boConflictSuffix opts \<noteq> []"
    "mem_key (path_join [p1, x @ boConflictSuffix opts])" "mem_key (path_join [p2, x @ boConflictSuffix opts])"
    "wd_files i W (path_join [p1, x]) = Some d1" "wd_files j W (path_join [p2, x]) = Some d2"
    "dnew = (if fiModTime f1 < fiModTime f2 then d2 else d1)" "dold = (if fiModTime f1 < fiModTime f2 then d1 else d2)"
  shows "\<exists>W'. resolveConflict env (mem_Backend i) (mem_Backend j) p1 p2 f1 f2 opts W = ((''keep-both'', DirBoth, None), W') \<and>
    wd_files i W' = (wd_files i W)(path_join [p1, x] := Some dnew, path_join [p1, x @ boConflictSuffix opts] := Some dold) \<and>
    wd_files j W' = (wd_files j W)(path_join [p2, x] := Some dnew, path_join [p2, x @ boConflictSuffix opts] := Some dold) \<and>
    (\<forall>k. k \<noteq> i \<longrightarrow> k \<noteq> j \<longrightarrow> wd_files k W' = wd_files k W)"
proof -
  let ?c = "x @ boConflictSuffix opts"
  have ne: "path_join [p1, ?c] \<noteq> path_join [p1, x]" "path_join [p2, ?c] \<noteq> path_join [p2, x]"
    using mem_join_neq [OF assms(3,10,9)] mem_join_neq [OF assms(4,10,9)] assms(11) by simp_all
  have k: "mem_key (path_join [p1, x])" "mem_key (path_join [p2, x])"
    using mem_stores.key_law [OF assms(2)] assms(14,15) by blast+
  show ?thesis
  proof (cases "fiModTime f1 < fiModTime f2")
    case True
    obtain W' where "resolveConflict env (mem_Backend i) (mem_Backend j) p1 p2 f1 f2 opts W = ((''keep-both'', DirBoth, None), W')"
      "wd_files i W' = (wd_files i W)(path_join [p1, ?c] := Some d1, path_join [p1, x] := Some d2)"
      "wd_files j W' = (wd_files j W)(path_join [p2, ?c] := Some d1)" "\<forall>k. k \<noteq> i \<longrightarrow> k \<noteq> j \<longrightarrow> wd_files k W' = wd_files k W"
      using mem_sync.keep_both_copies [OF assms(1,2) k assms(12,13) ne assms(14,15,6), of env "''keep-both''"] True assms(5,7,8)
      by (auto simp: resolveConflict_def Let_def)
    then show ?thesis
      using True assms(15-17) ne by (intro exI [of _ W']) (auto simp: fun_upd_twist)
  next
    case False
    obtain W' where "resolveConflict env (mem_Backend i) (mem_Backend j) p1 p2 f1 f2 opts W = ((''keep-both'', DirBoth, None), W')"
      "wd_files j W' = (wd_files j W)(path_join [p2, ?c] := Some d2, path_join [p2, x] := Some d1)"
      "wd_files i W' = (wd_files i W)(path_join [p1, ?c] := Some d2)" "\<forall>k. k \<noteq> j \<longrightarrow> k \<noteq> i \<longrightarrow> wd_files k W' = wd_files k W"
      using mem_sync.keep_both_copies [OF assms(1) [symmetric] assms(2) k(2,1) assms(13,12) ne(2,1) assms(15,14,6), of env "''keep-both''"]
        False assms(5,7,8) by (auto simp: resolveConflict_def Let_def)
    then show ?thesis
      using False assms(14,16,17) ne by (intro exI [of _ W']) (auto simp: fun_upd_twist)
  qed
qed

text \<open>The second world of the witnesses: both backends have the file \<open>a\<close>.\<close>

definition witness_conflict :: mworld where
  "witness_conflict = witness_world\<lparr>wdBackends := (\<lambda>i. witness_backend)\<rparr>"

lemma witness_conflict_ok: "wd_ok witness_conflict" "wd_files i witness_conflict ''a'' = Some [5]"
proof -
  have "mem_in_order witness_backend" using witness_world_ok by (auto simp: wd_ok_def witness_world_def split: if_splits)
  then show "wd_ok witness_conflict" using witness_world_ok by (simp add: wd_ok_def witness_conflict_def)
  show "wd_files i witness_conflict ''a'' = Some [5]"
    by (simp add: witness_conflict_def wd_files_def witness_backend_files)
qed

theorem keep_both_witness:
  "\<exists>W'. resolveConflict witness_env (mem_Backend 0) (mem_Backend 1) [] [] (sample_file 1) (sample_file 2)
      (DefaultBisyncOptions\<lparr>boConflictStrategy := ConflictKeepBoth\<rparr>) witness_conflict =
      ((''keep-both'', DirBoth, None), W') \<and>
    wd_files 0 W' ''a'' = Some [5] \<and> wd_files 1 W' ''a.conflict'' = Some [5]"
proof -
  let ?o = "DefaultBisyncOptions\<lparr>boConflictStrategy := ConflictKeepBoth\<rparr>"
  have o: "boConflictStrategy ?o = ConflictKeepBoth" "\<not> boDryRun ?o" "boConflictSuffix ?o = ''.conflict''"
    by (simp_all add: DefaultBisyncOptions_def)
  have k: "plain_key ''a.conflict''" "mem_key ''a.conflict''" unfolding mem_key_def plain_key_def by code_simp+
  have j: "path_join [[], ''a.conflict''] = ''a.conflict''" using plain_key_join_Nil [OF k(1)] .
  have f: "fiPath (sample_file t) = ''a''" for t by (simp add: sample_file_def)
  have c: "''a'' @ boConflictSuffix ?o = ''a.conflict''" "boConflictSuffix ?o \<noteq> []" by (simp_all add: o(3))
  have d: "wd_files i witness_conflict (path_join [[], ''a'']) = Some [5]" for i
    unfolding witness_letter(2) by (rule witness_conflict_ok(2))
  from keep_both [of 0 1 witness_conflict "[]" "[]" ?o "sample_file 1" "''a''" "sample_file 2" "[5]" "[5]",
      unfolded c(1) j, OF zero_neq_one witness_conflict_ok(1) witness_bisync(1,1) o(1,2) f f witness_letter(1) k(1) c(2) k(2,2) d d refl refl, of witness_env]
  show ?thesis by - (elim exE conjE, intro exI conjI, assumption, simp_all add: witness_letter(2))
qed

end
