(* ===== verification/MultiWriter.thy ===== *)
theory MultiWriter
  imports MemoryStore
begin

section \<open>The multi-writer (\<open>object/multi/writer.go\<close>)\<close>

text \<open>
  A writer that fans out to several backends, with three modes of failure. Its own state (the open
  writers, the mode, the closed flag) is passed explicitly; the backends are values of
  \<open>BackendInterface\<close> over one world. A writer that reports no error has written all it was given, as
  \<open>io.Writer\<close> demands.
\<close>

datatype WriteMode = WriteAll | WriteBestEffort | WriteQuorum

record 'w MultiWriter =
  mlBackends :: "'w Backend list"
  mlMode :: WriteMode

type_synonym 'w MultiOption = "'w MultiWriter \<Rightarrow> 'w MultiWriter"

definition WithMode :: "WriteMode \<Rightarrow> 'w MultiOption" where
  "WithMode mode w = w\<lparr>mlMode := mode\<rparr>"

text \<open>A nil backend of the argument list is \<open>None\<close>.\<close>

definition multi_NewWriter :: "'w Backend option list \<Rightarrow> 'w MultiWriter res" where
  "multi_NewWriter backends =
     (if length backends = 0 then Inl (Errorf ''at least one backend is required'')
      else let validBackends = List.map_filter id backends
           in if length validBackends = 0 then Inl (Errorf ''no valid backends provided'')
              else Inr \<lparr>mlBackends = validBackends, mlMode = WriteAll\<rparr>)"

definition NewWriterWithOptions :: "'w Backend option list \<Rightarrow> 'w MultiOption list \<Rightarrow> 'w MultiWriter res" where
  "NewWriterWithOptions backends opts =
     (case multi_NewWriter backends of
        Inl e \<Rightarrow> Inl e
      | Inr w \<Rightarrow> Inr (fold (\<lambda>opt w. opt w) opts w))"

definition ml_Backends :: "'w MultiWriter \<Rightarrow> nat" where
  "ml_Backends w = length (mlBackends w)"

subsection \<open>Opening\<close>

record 'w multiWriteCloser =
  mcWriters :: "'w WriteCloser list"
  mcMode :: WriteMode
  mcErrs :: "object_error list"
  mcClosed :: bool

fun close_writers :: "'w WriteCloser list \<Rightarrow> 'w \<Rightarrow> 'w" where
  "close_writers [] w = w"
| "close_writers (wr # wrs) w = close_writers wrs (snd (wrClose wr w))"

text \<open>The loop over the backends; with \<open>WriteAll\<close> the first failure ends it.\<close>

fun open_loop ::
  "WriteMode \<Rightarrow> path \<Rightarrow> WriterOption list \<Rightarrow> 'w Backend list \<Rightarrow> 'w WriteCloser list \<Rightarrow> object_error list \<Rightarrow> 'w \<Rightarrow>
   ('w WriteCloser list \<times> object_error list) res \<times> 'w" where
  "open_loop mode p opts [] writers errs w = (Inr (writers, errs), w)"
| "open_loop mode p opts (b # bs) writers errs w =
     (case bkNewWriter b p opts w of
        (Inl e, w1) \<Rightarrow>
          if mode = WriteAll then (Inl (MultiError (errs @ [e])), close_writers writers w1)
          else open_loop mode p opts bs writers (errs @ [e]) w1
      | (Inr wr, w1) \<Rightarrow> open_loop mode p opts bs (writers @ [wr]) errs w1)"

definition ml_NewWriter ::
  "'w MultiWriter \<Rightarrow> path \<Rightarrow> WriterOption list \<Rightarrow> 'w \<Rightarrow> 'w multiWriteCloser res \<times> 'w" where
  "ml_NewWriter m p opts w =
     (case open_loop (mlMode m) p opts (mlBackends m) [] [] w of
        (Inl e, w1) \<Rightarrow> (Inl e, w1)
      | (Inr (writers, errs), w1) \<Rightarrow>
          if mlMode m = WriteQuorum \<and> length writers \<le> length (mlBackends m) div 2
          then (Inl (MultiError (errs @ [Errorf ''failed to achieve write quorum''])), close_writers writers w1)
          else if length writers = 0 then (Inl (MultiError errs), w1)
          else (Inr \<lparr>mcWriters = writers, mcMode = mlMode m, mcErrs = errs, mcClosed = False\<rparr>, w1))"

subsection \<open>Writing and closing\<close>

fun write_loop ::
  "WriteMode \<Rightarrow> bytes \<Rightarrow> 'w WriteCloser list \<Rightarrow> object_error list \<Rightarrow> nat \<Rightarrow> nat \<Rightarrow> 'w \<Rightarrow>
   (object_error list \<times> nat \<times> nat) res \<times> 'w" where
  "write_loop mode p [] writeErrs successCount maxN w = (Inr (writeErrs, successCount, maxN), w)"
| "write_loop mode p (wr # wrs) writeErrs successCount maxN w =
     (case wrWrite wr p w of
        (Some werr, w1) \<Rightarrow>
          if mode = WriteAll then (Inl (MultiError (writeErrs @ [werr])), w1)
          else write_loop mode p wrs (writeErrs @ [werr]) successCount maxN w1
      | (None, w1) \<Rightarrow>
          write_loop mode p wrs writeErrs (successCount + 1) (if length p > maxN then length p else maxN) w1)"

definition mc_Write :: "'w multiWriteCloser \<Rightarrow> bytes \<Rightarrow> 'w \<Rightarrow> (nat \<times> object_error option) \<times> 'w" where
  "mc_Write m p w =
     (if mcClosed m then ((0, Some ErrWriterClosed), w)
      else (case write_loop (mcMode m) p (mcWriters m) [] 0 0 w of
              (Inl e, w1) \<Rightarrow> ((0, Some e), w1)
            | (Inr (writeErrs, successCount, maxN), w1) \<Rightarrow>
                if mcMode m = WriteQuorum \<and> successCount \<le> length (mcWriters m) div 2
                then ((0, Some (MultiError (writeErrs @ [Errorf ''write quorum not achieved'']))), w1)
                else if successCount = 0 then ((0, Some (MultiError writeErrs)), w1)
                else ((maxN, None), w1)))"

fun close_loop :: "'w WriteCloser list \<Rightarrow> object_error list \<Rightarrow> 'w \<Rightarrow> object_error list \<times> 'w" where
  "close_loop [] closeErrs w = (closeErrs, w)"
| "close_loop (wr # wrs) closeErrs w =
     (case wrClose wr w of
        (Some e, w1) \<Rightarrow> close_loop wrs (closeErrs @ [e]) w1
      | (None, w1) \<Rightarrow> close_loop wrs closeErrs w1)"

definition mc_Close :: "'w multiWriteCloser \<Rightarrow> 'w \<Rightarrow> object_error option \<times> 'w multiWriteCloser \<times> 'w" where
  "mc_Close m w =
     (if mcClosed m then (None, m, w)
      else (case close_loop (mcWriters m) [] w of
              (closeErrs, w1) \<Rightarrow>
                (if length closeErrs > 0 then Some (MultiError closeErrs) else None, m\<lparr>mcClosed := True\<rparr>, w1)))"

text \<open>The accessor of \<open>MultiError\<close>; \<open>Unwrap\<close> is \<open>ObjectTypes.unwrap\<close>.\<close>

definition MultiError_All :: "object_error \<Rightarrow> object_error list" where
  "MultiError_All e = (case e of MultiError es \<Rightarrow> es | _ \<Rightarrow> [])"

subsection \<open>How many backends take part\<close>

lemma open_loop_counts:
  "open_loop mode p opts bs writers errs w = (Inr (writers', errs'), w') \<Longrightarrow>
   length writers' + length errs' = length writers + length errs + length bs \<and> (mode = WriteAll \<longrightarrow> errs' = errs)"
  by (induction mode p opts bs writers errs w rule: open_loop.induct) (auto split: prod.splits sum.splits if_splits)

text \<open>The results of the single writes, when none of them ends the loop.\<close>

fun write_results :: "bytes \<Rightarrow> 'w WriteCloser list \<Rightarrow> 'w \<Rightarrow> object_error option list \<times> 'w" where
  "write_results p [] w = ([], w)"
| "write_results p (wr # wrs) w =
     (case wrWrite wr p w of (e, w1) \<Rightarrow> (case write_results p wrs w1 of (es, w2) \<Rightarrow> (e # es, w2)))"

abbreviation successes :: "object_error option list \<Rightarrow> nat" where
  "successes rs \<equiv> length (filter (\<lambda>e. e = None) rs)"

lemma length_write_results: "length (fst (write_results p wrs w)) = length wrs"
  by (induction p wrs w rule: write_results.induct) (auto split: prod.splits)

lemma write_loop_all:
  "(\<exists>errs n k w'. write_loop WriteAll p wrs es s mx w = (Inr (errs, n, k), w')) \<longleftrightarrow>
   (\<forall>e \<in> set (fst (write_results p wrs w)). e = None)"
  by (induction p wrs w arbitrary: es s mx rule: write_results.induct) (auto split: prod.splits option.splits)

lemma write_loop_results:
  "mode \<noteq> WriteAll \<or> (\<forall>e \<in> set (fst (write_results p wrs w)). e = None) \<Longrightarrow>
   \<exists>errs. write_loop mode p wrs es s mx w =
     (Inr (errs, s + successes (fst (write_results p wrs w)),
       if successes (fst (write_results p wrs w)) = 0 then mx else max mx (length p)), snd (write_results p wrs w))"
proof (induction p wrs w arbitrary: es s mx rule: write_results.induct)
  case (2 p wr wrs w)
  obtain e w1 where e: "wrWrite wr p w = (e, w1)" by fastforce
  obtain rs w2 where r: "write_results p wrs w1 = (rs, w2)" by fastforce
  show ?case
  proof (cases e)
    case None
    have "\<exists>errs. write_loop mode p wrs es (s + 1) (if length p > mx then length p else mx) w1 =
        (Inr (errs, s + 1 + successes rs,
          if successes rs = 0 then (if length p > mx then length p else mx)
          else max (if length p > mx then length p else mx) (length p)), w2)"
      using 2(1) [OF e [symmetric], of es "s + 1"] 2(2) e r None by fastforce
    then show ?thesis using e r None by (auto simp: max_def)
  next
    case (Some x)
    then have "mode \<noteq> WriteAll" using 2(2) e r by auto
    moreover from this obtain errs where "write_loop mode p wrs (es @ [x]) s mx w1 =
        (Inr (errs, s + successes rs, if successes rs = 0 then mx else max mx (length p)), w2)"
      using 2(1) [OF e [symmetric], of "es @ [x]" s mx] r by auto
    ultimately show ?thesis using e r Some by simp
  qed
qed simp

lemma mc_Write_success:
  assumes "\<not> mcClosed m" "mcWriters m \<noteq> []" and rs_def: "rs = fst (write_results p (mcWriters m) w)"
  shows "snd (fst (mc_Write m p w)) = None \<longleftrightarrow>
      (case mcMode m of
         WriteAll \<Rightarrow> successes rs = length (mcWriters m)
       | WriteBestEffort \<Rightarrow> 0 < successes rs
       | WriteQuorum \<Rightarrow> length (mcWriters m) div 2 < successes rs)"
    "snd (fst (mc_Write m p w)) = None \<Longrightarrow> fst (fst (mc_Write m p w)) = length p"
proof -
  have l: "length rs = length (mcWriters m)" unfolding rs_def by (rule length_write_results)
  have all: "successes rs = length (mcWriters m) \<longleftrightarrow> (\<forall>e \<in> set rs. e = None)"
    using length_filter_less [of _ rs "\<lambda>e. e = None"] filter_True [of rs "\<lambda>e. e = None"] l by (metis nat_neq_iff)
  show "snd (fst (mc_Write m p w)) = None \<longleftrightarrow>
      (case mcMode m of
         WriteAll \<Rightarrow> successes rs = length (mcWriters m)
       | WriteBestEffort \<Rightarrow> 0 < successes rs
       | WriteQuorum \<Rightarrow> length (mcWriters m) div 2 < successes rs)"
    and "snd (fst (mc_Write m p w)) = None \<Longrightarrow> fst (fst (mc_Write m p w)) = length p"
  proof (atomize (full), cases "mcMode m = WriteAll \<and> \<not> (\<forall>e \<in> set rs. e = None)")
    case True
    then obtain e w1 where e: "write_loop WriteAll p (mcWriters m) [] 0 0 w = (Inl e, w1)"
      using write_loop_all [of p "mcWriters m" "[]" 0 0 w] unfolding rs_def
      by (cases "write_loop WriteAll p (mcWriters m) [] 0 0 w"; cases "fst (write_loop WriteAll p (mcWriters m) [] 0 0 w)") auto
    have "mcMode m = WriteAll" "successes rs \<noteq> length (mcWriters m)" using True all by blast+
    with e assms(1) show "(snd (fst (mc_Write m p w)) = None \<longleftrightarrow>
      (case mcMode m of
         WriteAll \<Rightarrow> successes rs = length (mcWriters m)
       | WriteBestEffort \<Rightarrow> 0 < successes rs
       | WriteQuorum \<Rightarrow> length (mcWriters m) div 2 < successes rs)) \<and>
      (snd (fst (mc_Write m p w)) = None \<longrightarrow> fst (fst (mc_Write m p w)) = length p)"
      by (simp add: mc_Write_def)
  next
    case False
    then have h: "mcMode m \<noteq> WriteAll \<or> (\<forall>e \<in> set (fst (write_results p (mcWriters m) w)). e = None)"
      unfolding rs_def by blast
    obtain errs where e: "write_loop (mcMode m) p (mcWriters m) [] 0 0 w =
        (Inr (errs, successes rs, if successes rs = 0 then 0 else length p), snd (write_results p (mcWriters m) w))"
      using write_loop_results [OF h, of "[]" 0 0] unfolding rs_def by auto
    have "mcMode m = WriteAll \<Longrightarrow> successes rs = length (mcWriters m)" using False all by blast
    then show "(snd (fst (mc_Write m p w)) = None \<longleftrightarrow>
      (case mcMode m of
         WriteAll \<Rightarrow> successes rs = length (mcWriters m)
       | WriteBestEffort \<Rightarrow> 0 < successes rs
       | WriteQuorum \<Rightarrow> length (mcWriters m) div 2 < successes rs)) \<and>
      (snd (fst (mc_Write m p w)) = None \<longrightarrow> fst (fst (mc_Write m p w)) = length p)"
      using assms(1,2) e by (cases "mcMode m") (auto simp: mc_Write_def)
  qed
qed

lemma ml_NewWriter_counts:
  assumes "ml_NewWriter M p opts w = (Inr m, w')"
  shows "mcMode m = mlMode M" "\<not> mcClosed m" "mcWriters m \<noteq> []"
    "length (mcWriters m) + length (mcErrs m) = ml_Backends M"
    "mlMode M = WriteAll \<Longrightarrow> length (mcWriters m) = ml_Backends M"
    "mlMode M = WriteQuorum \<Longrightarrow> ml_Backends M div 2 < length (mcWriters m)"
proof -
  obtain ws es where l: "open_loop (mlMode M) p opts (mlBackends M) [] [] w = (Inr (ws, es), w')"
    and m: "m = \<lparr>mcWriters = ws, mcMode = mlMode M, mcErrs = es, mcClosed = False\<rparr>"
    and q: "\<not> (mlMode M = WriteQuorum \<and> length ws \<le> length (mlBackends M) div 2)" "ws \<noteq> []"
    using assms by (auto simp: ml_NewWriter_def split: prod.splits sum.splits if_splits)
  note c = open_loop_counts [OF l]
  show "mcMode m = mlMode M" "\<not> mcClosed m" "mcWriters m \<noteq> []"
    "length (mcWriters m) + length (mcErrs m) = ml_Backends M"
    "mlMode M = WriteAll \<Longrightarrow> length (mcWriters m) = ml_Backends M"
    "mlMode M = WriteQuorum \<Longrightarrow> ml_Backends M div 2 < length (mcWriters m)"
    using c q by (simp_all add: m ml_Backends_def) auto
qed

subsection \<open>Over memory backends\<close>

text \<open>The writers with their backend and handle; a world in which all of them are open with the same content.\<close>

abbreviation mem_writers :: "(nat \<times> nat) list \<Rightarrow> mworld WriteCloser list" where
  "mem_writers hs \<equiv> map (\<lambda>(i, h). \<lparr>wrWrite = mem_wrWrite h, wrClose = mem_wrClose i h\<rparr>) hs"

definition pending :: "(nat \<times> nat) list \<Rightarrow> path \<Rightarrow> bytes \<Rightarrow> mworld \<Rightarrow> bool" where
  "pending hs p buf W \<longleftrightarrow>
     (\<forall>h \<in> snd ` set hs. \<exists>wr. gm_get (wdWriters W) h = Some wr \<and> \<not> mwClosed wr \<and> mwPath wr = p \<and> mwBuffer wr = buf)"

lemma mem_open_one:
  assumes "mem_in_order (wdBackends W i)" "mem_key p"
  shows "\<exists>wr. bkNewWriter (mem_Backend i) p opts W =
      (Inr \<lparr>wrWrite = mem_wrWrite (wdNext W), wrClose = mem_wrClose i (wdNext W)\<rparr>,
       W\<lparr>wdWriters := gm_put (wdNext W) wr (wdWriters W), wdNext := Suc (wdNext W)\<rparr>) \<and>
    \<not> mwClosed wr \<and> mwPath wr = p \<and> mwBuffer wr = []"
  using in_order_ready [OF assms(1), of "[p]"] assms(2)
  by (intro exI [of _ "\<lparr>mwPath = p, mwBuffer = [], mwContentType = wcContentType (ApplyWriterOptions opts), mwClosed = False\<rparr>"])
    (simp add: mem_Backend_def mem_bkNewWriter_def mem_NewWriter_ready)

text \<open>Another handle's change does not concern the writers that are left.\<close>

lemma pending_tail:
  assumes "pending (e # hs) p buf W" "snd e \<notin> snd ` set hs"
    "\<And>k. k \<noteq> snd e \<Longrightarrow> gm_get (wdWriters W1) k = gm_get (wdWriters W) k"
  shows "pending hs p buf W1"
  unfolding pending_def
proof
  fix k assume k: "k \<in> snd ` set hs"
  then have "gm_get (wdWriters W1) k = gm_get (wdWriters W) k" using assms(2,3) by metis
  moreover have "k \<in> snd ` set (e # hs)" using k by simp
  ultimately show "\<exists>wr. gm_get (wdWriters W1) k = Some wr \<and> \<not> mwClosed wr \<and> mwPath wr = p \<and> mwBuffer wr = buf"
    using assms(1) unfolding pending_def by metis
qed

lemma mem_open_loop:
  assumes "\<forall>i. mem_in_order (wdBackends W i)" "mem_key p"
  shows "\<exists>hs W'. open_loop mode p opts (map mem_Backend is) ws es W = (Inr (ws @ mem_writers hs, es), W') \<and>
    map fst hs = is \<and> distinct (map snd hs) \<and> pending hs p [] W' \<and> wdBackends W' = wdBackends W \<and>
    (\<forall>h \<in> snd ` set hs. wdNext W \<le> h) \<and> (\<forall>h < wdNext W. gm_get (wdWriters W') h = gm_get (wdWriters W) h)"
  using assms(1)
proof (induction "is" arbitrary: ws W)
  case Nil
  then show ?case by (simp add: pending_def)
next
  case (Cons i "is")
  obtain wr where wr: "bkNewWriter (mem_Backend i) p opts W =
      (Inr \<lparr>wrWrite = mem_wrWrite (wdNext W), wrClose = mem_wrClose i (wdNext W)\<rparr>,
       W\<lparr>wdWriters := gm_put (wdNext W) wr (wdWriters W), wdNext := Suc (wdNext W)\<rparr>)"
    "\<not> mwClosed wr" "mwPath wr = p" "mwBuffer wr = []"
    using mem_open_one [of W i, OF _ assms(2)] Cons.prems by blast
  define h where "h = wdNext W"
  define W1 where "W1 = W\<lparr>wdWriters := gm_put h wr (wdWriters W), wdNext := Suc h\<rparr>"
  let ?ws = "ws @ [\<lparr>wrWrite = mem_wrWrite h, wrClose = mem_wrClose i h\<rparr>]"
  have "\<forall>i. mem_in_order (wdBackends W1 i)" using Cons.prems by (simp add: W1_def)
  from Cons.IH [OF this, of ?ws]
  obtain hs W' where ih: "open_loop mode p opts (map mem_Backend is) ?ws es W1 = (Inr (?ws @ mem_writers hs, es), W')"
    "map fst hs = is" "distinct (map snd hs)" "pending hs p [] W'" "wdBackends W' = wdBackends W1"
    "\<forall>h \<in> snd ` set hs. wdNext W1 \<le> h" "\<forall>h < wdNext W1. gm_get (wdWriters W') h = gm_get (wdWriters W1) h"
    by blast
  have g: "gm_get (wdWriters W') h = Some wr" using ih(7) by (simp add: W1_def gomap_simps)
  have fresh: "h \<notin> snd ` set hs" using ih(6) by (auto simp: W1_def)
  have "open_loop mode p opts (map mem_Backend (i # is)) ws es W = (Inr (ws @ mem_writers ((i, h) # hs), es), W')"
    using wr(1) ih(1) by (simp add: h_def W1_def)
  moreover have "pending ((i, h) # hs) p [] W'" using ih(4) g wr(2-4) by (simp add: pending_def)
  moreover have "\<forall>k \<in> snd ` set ((i, h) # hs). wdNext W \<le> k" using ih(6) by (auto simp: W1_def h_def)
  moreover have "\<forall>k < wdNext W. gm_get (wdWriters W') k = gm_get (wdWriters W) k"
    using ih(7) by (simp add: W1_def h_def gomap_simps)
  ultimately show ?case using ih(2,3,5) fresh
    by (intro exI [of _ "(i, h) # hs"] exI [of _ W']) (simp add: W1_def)
qed

lemma mem_write_fan:
  assumes "distinct (map snd hs)" "pending hs p buf W"
  shows "\<exists>W'. write_loop mode c (mem_writers hs) es s mx W =
      (Inr (es, s + length hs, if hs = [] then mx else max mx (length c)), W') \<and>
    pending hs p (buf @ c) W' \<and> wdBackends W' = wdBackends W \<and>
    (\<forall>h. h \<notin> snd ` set hs \<longrightarrow> gm_get (wdWriters W') h = gm_get (wdWriters W) h)"
  using assms
proof (induction hs arbitrary: s mx W)
  case Nil
  then show ?case by (simp add: pending_def)
next
  case (Cons e hs)
  obtain i h where e: "e = (i, h)" by (cases e)
  obtain wr where wr: "gm_get (wdWriters W) h = Some wr" "\<not> mwClosed wr" "mwPath wr = p" "mwBuffer wr = buf"
    using Cons.prems(2) e by (auto simp: pending_def)
  define W1 where "W1 = W\<lparr>wdWriters := gm_put h (wr\<lparr>mwBuffer := buf @ c\<rparr>) (wdWriters W)\<rparr>"
  have w: "mem_wrWrite h c W = (None, W1)" using wr by (simp add: mem_wrWrite_def mw_Write_def W1_def)
  have fresh: "h \<notin> snd ` set hs" using Cons.prems(1) e by simp
  have d: "distinct (map snd hs)" using Cons.prems(1) by simp
  have "pending hs p buf W1"
    by (rule pending_tail [OF Cons.prems(2)])
      (use fresh e in \<open>auto simp: W1_def gomap_simps wd_set_def wd_tick_def\<close>)
  from Cons.IH [OF d this, of "s + 1" "if length c > mx then length c else mx"]
  obtain W' where ih: "write_loop mode c (mem_writers hs) es (s + 1) (if length c > mx then length c else mx) W1 =
      (Inr (es, s + 1 + length hs, if hs = [] then (if length c > mx then length c else mx)
         else max (if length c > mx then length c else mx) (length c)), W')"
    "pending hs p (buf @ c) W'" "wdBackends W' = wdBackends W1"
    "\<forall>h. h \<notin> snd ` set hs \<longrightarrow> gm_get (wdWriters W') h = gm_get (wdWriters W1) h" by blast
  have "gm_get (wdWriters W') h = Some (wr\<lparr>mwBuffer := buf @ c\<rparr>)" using ih(4) fresh by (simp add: W1_def gomap_simps)
  then have "pending (e # hs) p (buf @ c) W'" using ih(2) wr e by (simp add: pending_def)
  moreover have "write_loop mode c (mem_writers (e # hs)) es s mx W =
      (Inr (es, s + length (e # hs), if e # hs = [] then mx else max mx (length c)), W')"
    using ih(1) w e by (simp add: max_def)
  ultimately show ?case using ih(3,4) e by (intro exI [of _ W']) (simp add: W1_def gomap_simps)
qed

lemma mem_close_fan:
  assumes "distinct (map snd hs)" "pending hs p buf W" "\<forall>i. mem_in_order (wdBackends W i)" "mem_key p"
  shows "\<exists>W'. close_loop (mem_writers hs) es W = (es, W') \<and>
    (\<forall>i. wd_files i W' = (if i \<in> fst ` set hs then (wd_files i W)(p := Some buf) else wd_files i W))"
  using assms(1-3)
proof (induction hs arbitrary: W)
  case (Cons e hs)
  obtain i h where e: "e = (i, h)" by (cases e)
  obtain wr where wr: "gm_get (wdWriters W) h = Some wr" "\<not> mwClosed wr" "mwPath wr = p" "mwBuffer wr = buf"
    using Cons.prems(2) e by (auto simp: pending_def)
  let ?obj = "\<lparr>odata = buf, ocontentType = mwContentType wr, omodTime = wd_now W, oisDir = False\<rparr>"
  let ?b = "(wdBackends W i)\<lparr>objects := gm_put p ?obj (objects (wdBackends W i))\<rparr>"
  define W1 where "W1 = wd_tick 1 (wd_set i ?b (W\<lparr>wdWriters := gm_put h (wr\<lparr>mwClosed := True\<rparr>) (wdWriters W)\<rparr>))"
  have c: "mem_wrClose i h W = (None, W1)"
    using wr Cons.prems(3) by (simp add: mem_wrClose_def mw_Close_open mem_in_order_def W1_def)
  have fresh: "h \<notin> snd ` set hs" and d: "distinct (map snd hs)" using Cons.prems(1) e by simp_all
  have "mem_in_order ?b" using Cons.prems(3) assms(4) by (simp add: in_order_put)
  then have ord: "\<forall>k. mem_in_order (wdBackends W1 k)" using Cons.prems(3) by (simp add: W1_def)
  have "pending hs p buf W1"
    by (rule pending_tail [OF Cons.prems(2)])
      (use fresh e in \<open>auto simp: W1_def gomap_simps wd_set_def wd_tick_def\<close>)
  from Cons.IH [OF d this ord]
  obtain W' where ih: "close_loop (mem_writers hs) es W1 = (es, W')"
    "\<forall>i. wd_files i W' = (if i \<in> fst ` set hs then (wd_files i W1)(p := Some buf) else wd_files i W1)" by blast
  have "wd_files k W1 = (if k = i then (wd_files k W)(p := Some buf) else wd_files k W)" for k
    by (simp add: W1_def wd_files_set mem_files_put) (simp add: wd_files_def)
  then show ?case using ih c e by (intro exI [of _ W']) simp
qed simp

fun mc_Writes :: "'w multiWriteCloser \<Rightarrow> bytes list \<Rightarrow> 'w \<Rightarrow> (nat \<times> object_error option) list \<times> 'w" where
  "mc_Writes m [] w = ([], w)"
| "mc_Writes m (c # cs) w =
     (case mc_Write m c w of (r, w1) \<Rightarrow> (case mc_Writes m cs w1 of (rs, w2) \<Rightarrow> (r # rs, w2)))"

lemma mem_mc_Writes:
  assumes "mcWriters m = mem_writers hs" "hs \<noteq> []" "\<not> mcClosed m" "distinct (map snd hs)" "pending hs p buf W"
  shows "\<exists>W'. mc_Writes m cs W = (map (\<lambda>c. (length c, None)) cs, W') \<and> pending hs p (buf @ concat cs) W' \<and>
    wdBackends W' = wdBackends W"
  using assms(5)
proof (induction cs arbitrary: buf W)
  case (Cons c cs)
  obtain W1 where w1: "write_loop (mcMode m) c (mem_writers hs) [] 0 0 W =
      (Inr ([], length hs, length c), W1)" "pending hs p (buf @ c) W1" "wdBackends W1 = wdBackends W"
    using mem_write_fan [OF assms(4) Cons.prems, of "mcMode m" c "[]" 0 0] assms(2) by auto
  have "\<not> length hs \<le> length hs div 2" using assms(2) by (cases hs) auto
  then have "mc_Write m c W = ((length c, None), W1)" using w1(1) assms(1-3) by (simp add: mc_Write_def)
  with Cons.IH [OF w1(2)] w1(3) show ?case by auto
qed simp

subsection \<open>Properties\<close>

text \<open>C37: A writer is only handed out when its mode allows it: with \<open>WriteAll\<close> all backends have opened, with
  \<open>WriteQuorum\<close> more than half of them, otherwise at least one; and it has one open writer or one
  recorded error for each backend. A \<open>Write\<close> then succeeds exactly if all writers, more than half of
  the opened writers, or one of them succeed, and reports the full length. The quorum of a \<open>Write\<close> is
  one of the writers that opened, not of the backends.\<close>

theorem multi_quorum:
  assumes "ml_NewWriter M path opts w = (Inr m, w1)"
  shows "mcWriters m \<noteq> [] \<and> length (mcWriters m) + length (mcErrs m) = ml_Backends M \<and>
    (case mlMode M of
       WriteAll \<Rightarrow> length (mcWriters m) = ml_Backends M
     | WriteBestEffort \<Rightarrow> True
     | WriteQuorum \<Rightarrow> ml_Backends M div 2 < length (mcWriters m)) \<and>
    (snd (fst (mc_Write m p w2)) = None \<longleftrightarrow>
      (case mlMode M of
         WriteAll \<Rightarrow> successes (fst (write_results p (mcWriters m) w2)) = length (mcWriters m)
       | WriteBestEffort \<Rightarrow> 0 < successes (fst (write_results p (mcWriters m) w2))
       | WriteQuorum \<Rightarrow> length (mcWriters m) div 2 < successes (fst (write_results p (mcWriters m) w2)))) \<and>
    (snd (fst (mc_Write m p w2)) = None \<longrightarrow> fst (fst (mc_Write m p w2)) = length p)"
  using ml_NewWriter_counts [OF assms] mc_Write_success [OF ml_NewWriter_counts(2,3) [OF assms] refl, of p w2]
  by (simp split: WriteMode.split)

text \<open>A backend over a counter: it opens a writer, or not, and the writer's \<open>Write\<close> fails, or not.\<close>

definition the_writer :: "bool \<Rightarrow> nat WriteCloser" where
  "the_writer writes =
     \<lparr>wrWrite = (\<lambda>c w. (if writes then None else Some ErrPermissionDenied, Suc w)), wrClose = (\<lambda>w. (None, Suc w))\<rparr>"

definition flaky :: "bool \<Rightarrow> bool \<Rightarrow> nat Backend" where
  "flaky opens writes =
     \<lparr>bkId = 0,
      bkNewWriter = (\<lambda>p opts w. (if opens then Inr (the_writer writes)
                                 else Inl ErrPermissionDenied, Suc w)),
      bkNewReader = (\<lambda>p opts w. Inl ErrNotFound), bkExists = (\<lambda>p w. Inr False),
      bkDelete = (\<lambda>p w. (None, w)), bkList = (\<lambda>p w. Inr []), bkExt = None\<rparr>"

definition flaky_five :: "nat MultiWriter" where
  "flaky_five = \<lparr>mlBackends = [flaky True True, flaky True True, flaky True False, flaky False True, flaky False True],
                 mlMode = WriteQuorum\<rparr>"

text \<open>Two of five backends take the data, and the quorum write succeeds.\<close>

theorem multi_quorum_witness:
  "\<exists>m w1. ml_NewWriter flaky_five ''a'' [] 0 = (Inr m, w1) \<and> length (mcWriters m) = 3 \<and> ml_Backends flaky_five = 5 \<and>
    successes (fst (write_results [1, 2] (mcWriters m) w1)) = 2 \<and> fst (mc_Write m [1, 2] w1) = (2, None)"
proof -
  obtain m w1 where n: "ml_NewWriter flaky_five ''a'' [] 0 = (Inr m, w1)"
    and m: "mcWriters m = [the_writer True, the_writer True, the_writer False]"
    by (simp add: ml_NewWriter_def flaky_five_def flaky_def the_writer_def)
  have c: "ml_Backends flaky_five = 5" "mlMode flaky_five = WriteQuorum" by (simp_all add: ml_Backends_def flaky_five_def)
  have r: "successes (fst (write_results [1, 2] (mcWriters m) w1)) = 2" by (simp add: m the_writer_def)
  have "snd (fst (mc_Write m [1, 2] w1)) = None \<and> fst (fst (mc_Write m [1, 2] w1)) = length [1 :: byte, 2]"
    using multi_quorum [OF n, of "[1, 2]" w1] c(2) r m by simp
  then have "fst (mc_Write m [1, 2] w1) = (2, None)" by (simp add: prod_eq_iff)
  then show ?thesis using n m c(1) r by simp
qed

text \<open>Replication: over memory backends in order, with any mode, the writer opens, every chunk is written in
  full, \<open>Close\<close> reports no error, and afterwards every one of the backends holds the concatenated
  chunks under the path, and no other backend has changed.\<close>

theorem multi_replicates:
  assumes "wd_ok W" "mem_key p" "is \<noteq> []"
  shows "\<exists>m W1 W2 W3 m'. ml_NewWriter \<lparr>mlBackends = map mem_Backend is, mlMode = mode\<rparr> p opts W = (Inr m, W1) \<and>
    mc_Writes m cs W1 = (map (\<lambda>c. (length c, None)) cs, W2) \<and> mc_Close m W2 = (None, m', W3) \<and>
    (\<forall>i. wd_files i W3 = (if i \<in> set is then (wd_files i W)(p := Some (concat cs)) else wd_files i W))"
proof -
  let ?M = "\<lparr>mlBackends = map mem_Backend is, mlMode = mode\<rparr>"
  have ord: "\<forall>i. mem_in_order (wdBackends W i)" using wd_okD(1) assms(1) by blast
  obtain hs W1 where o: "open_loop mode p opts (map mem_Backend is) [] [] W = (Inr (mem_writers hs, []), W1)"
    "map fst hs = is" "distinct (map snd hs)" "pending hs p [] W1" "wdBackends W1 = wdBackends W"
    using mem_open_loop [OF ord assms(2), of mode opts "is" "[]" "[]"] by auto
  let ?m = "\<lparr>mcWriters = mem_writers hs, mcMode = mode, mcErrs = [], mcClosed = False\<rparr>"
  have hs: "hs \<noteq> []" "length hs = length is" using o(2) assms(3) by auto
  then have "\<not> length hs \<le> length is div 2" by (cases hs) auto
  then have n: "ml_NewWriter ?M p opts W = (Inr ?m, W1)" using o(1) hs assms(3) by (simp add: ml_NewWriter_def)
  obtain W2 where w2: "mc_Writes ?m cs W1 = (map (\<lambda>c. (length c, None)) cs, W2)" "pending hs p (concat cs) W2"
    "wdBackends W2 = wdBackends W1"
    using mem_mc_Writes [of ?m hs, OF _ hs(1) _ o(3,4), of cs] by auto
  have "\<forall>i. mem_in_order (wdBackends W2 i)" using ord w2(3) o(5) by simp
  from mem_close_fan [OF o(3) w2(2) this assms(2), of "[]"]
  obtain W3 where w3: "close_loop (mem_writers hs) [] W2 = ([], W3)"
    "\<forall>i. wd_files i W3 = (if i \<in> fst ` set hs then (wd_files i W2)(p := Some (concat cs)) else wd_files i W2)" by blast
  have "fst ` set hs = set is" using o(2) by (metis set_map)
  moreover have "wd_files i W2 = wd_files i W" for i using w2(3) o(5) by (simp add: wd_files_def)
  moreover have "mc_Close ?m W2 = (None, ?m\<lparr>mcClosed := True\<rparr>, W3)" using w3(1) by (simp add: mc_Close_def)
  ultimately show ?thesis using n w2(1) w3(2) by auto
qed

theorem multi_replicates_witness:
  "\<exists>m W1 W2 W3 m'. ml_NewWriter \<lparr>mlBackends = map mem_Backend [0, 1], mlMode = WriteQuorum\<rparr> ''b'' [] witness_world = (Inr m, W1) \<and>
    mc_Writes m [[1], [2]] W1 = (map (\<lambda>c. (length c, None)) [[1], [2]], W2) \<and> mc_Close m W2 = (None, m', W3) \<and>
    wd_files 0 W3 ''b'' = Some [1, 2] \<and> wd_files 1 W3 ''b'' = Some [1, 2] \<and> wd_files 0 W3 ''a'' = Some [5]"
  using multi_replicates [OF witness_world_ok mem_key_letter(2), of "[0, 1]" WriteQuorum "[]" "[[1], [2]]"]
  by (fastforce simp: witness_world_files)

end
