(* ===== verification/NdJson.thy ===== *)
theory NdJson
  imports MemoryStore
begin

section \<open>Newline-delimited records (\<open>object/format/ndjson\<close>)\<close>

text \<open>
  The record writer and reader with the parts of the standard library they are made of: the buffer of
  \<open>bufio.Writer\<close> with its sticky error, \<open>bytes.TrimRight\<close>, the line scanner \<open>bufio.Scanner\<close> with its
  maximal token size, and the test \<open>len(bytes.TrimSpace(line)) == 0\<close>, over UTF-8. Buffer sizes are
  positive (\<open>bufio.NewWriterSize\<close> replaces others by its default).
\<close>

definition nl :: byte where "nl = 0x0a"
definition cr :: byte where "cr = 0x0d"

definition DefaultBufferSize :: nat where
  "DefaultBufferSize = 64 * 1024"

subsection \<open>\<open>bufio.Writer\<close>\<close>

record bufio_writer =
  bwBuf :: bytes
  bwErr :: "object_error option"
  bwSize :: nat

definition bw_Flush :: "'w WriteCloser \<Rightarrow> bufio_writer \<Rightarrow> 'w \<Rightarrow> object_error option \<times> bufio_writer \<times> 'w" where
  "bw_Flush wr b w =
     (case bwErr b of
        Some e \<Rightarrow> (Some e, b, w)
      | None \<Rightarrow>
          if bwBuf b = [] then (None, b, w)
          else (case wrWrite wr (bwBuf b) w of
                  (Some e, w1) \<Rightarrow> (Some e, b\<lparr>bwErr := Some e\<rparr>, w1)
                | (None, w1) \<Rightarrow> (None, b\<lparr>bwBuf := []\<rparr>, w1)))"

text \<open>\<open>Write\<close>: what does not fit is written directly if the buffer is empty, and fills it up otherwise.\<close>

function bw_Write :: "'w WriteCloser \<Rightarrow> bytes \<Rightarrow> bufio_writer \<Rightarrow> 'w \<Rightarrow> object_error option \<times> bufio_writer \<times> 'w" where
  "bw_Write wr p b w =
     (if length p > bwSize b - length (bwBuf b) \<and> bwErr b = None
      then if bwBuf b = []
           then (case wrWrite wr p w of
                   (Some e, w1) \<Rightarrow> (Some e, b\<lparr>bwErr := Some e\<rparr>, w1)
                 | (None, w1) \<Rightarrow> (None, b, w1))
           else (case bw_Flush wr (b\<lparr>bwBuf := bwBuf b @ take (bwSize b - length (bwBuf b)) p\<rparr>) w of
                   (e, b1, w1) \<Rightarrow> bw_Write wr (drop (bwSize b - length (bwBuf b)) p) b1 w1)
      else (case bwErr b of
              Some e \<Rightarrow> (Some e, b, w)
            | None \<Rightarrow> (None, b\<lparr>bwBuf := bwBuf b @ p\<rparr>, w)))"
  by pat_completeness auto
termination
  by (relation "measures [\<lambda>(wr, p, b, w). length p, \<lambda>(wr, p, b, w). if bwErr b = None then length (bwBuf b) + 1 else 0]")
    (auto simp: bw_Flush_def split: if_splits prod.splits option.splits)

declare bw_Write.simps [simp del]

subsection \<open>The record writer\<close>

record nd_writer =
  nwW :: bufio_writer
  nwClosed :: bool

definition nd_NewWriterSize :: "nat \<Rightarrow> nd_writer" where
  "nd_NewWriterSize bufferSize = \<lparr>nwW = \<lparr>bwBuf = [], bwErr = None, bwSize = bufferSize\<rparr>, nwClosed = False\<rparr>"

definition nd_NewWriter :: nd_writer where
  "nd_NewWriter = nd_NewWriterSize DefaultBufferSize"

definition nd_Write :: "'w WriteCloser \<Rightarrow> bytes \<Rightarrow> nd_writer \<Rightarrow> 'w \<Rightarrow> object_error option \<times> nd_writer \<times> 'w" where
  "nd_Write wr data s w =
     (if nwClosed s then (Some ErrWriterClosed, s, w)
      else (case bw_Write wr data (nwW s) w of
              (Some e, b1, w1) \<Rightarrow> (Some e, s\<lparr>nwW := b1\<rparr>, w1)
            | (None, b1, w1) \<Rightarrow>
                (case bw_Write wr [nl] b1 w1 of (e, b2, w2) \<Rightarrow> (e, s\<lparr>nwW := b2\<rparr>, w2))))"

definition trim_right :: "bytes \<Rightarrow> bytes" where
  "trim_right data = rev (dropWhile (\<lambda>b. b \<in> set [0x20, 0x09, cr, nl]) (rev data))"

definition WriteJSON :: "'w WriteCloser \<Rightarrow> bytes \<Rightarrow> nd_writer \<Rightarrow> 'w \<Rightarrow> object_error option \<times> nd_writer \<times> 'w" where
  "WriteJSON wr data s w = nd_Write wr (trim_right data) s w"

definition nd_Flush :: "'w WriteCloser \<Rightarrow> nd_writer \<Rightarrow> 'w \<Rightarrow> object_error option \<times> nd_writer \<times> 'w" where
  "nd_Flush wr s w =
     (if nwClosed s then (Some ErrWriterClosed, s, w)
      else (case bw_Flush wr (nwW s) w of (e, b1, w1) \<Rightarrow> (e, s\<lparr>nwW := b1\<rparr>, w1)))"

definition nd_CloseWriter :: "'w WriteCloser \<Rightarrow> nd_writer \<Rightarrow> 'w \<Rightarrow> object_error option \<times> nd_writer \<times> 'w" where
  "nd_CloseWriter wr s w =
     (if nwClosed s then (None, s, w)
      else (case bw_Flush wr (nwW s) w of
              (Some e, b1, w1) \<Rightarrow> (Some e, s\<lparr>nwW := b1, nwClosed := True\<rparr>, snd (wrClose wr w1))
            | (None, b1, w1) \<Rightarrow>
                (case wrClose wr w1 of (e, w2) \<Rightarrow> (e, s\<lparr>nwW := b1, nwClosed := True\<rparr>, w2))))"

subsection \<open>The line scanner\<close>

text \<open>
  What is left of the data, the error the reader ends with (nil at its end), and the error that
  stopped the scan. A line with its delimiter must fit into the buffer; one that does not stops the
  scan with the full buffer, which a further call still hands out.
\<close>

record scanner =
  scRest :: bytes
  scEnd :: "object_error option"
  scStopped :: bool
  scErr :: "object_error option"
  scMax :: nat

definition ErrTooLong :: object_error where
  "ErrTooLong = Errorf ''bufio.Scanner: token too long''"

definition drop_cr :: "bytes \<Rightarrow> bytes" where
  "drop_cr line = (if line \<noteq> [] \<and> last line = cr then butlast line else line)"

definition scan :: "scanner \<Rightarrow> bytes option \<times> scanner" where
  "scan s =
     (let line = takeWhile (\<lambda>b. b \<noteq> nl) (scRest s);
          rest = dropWhile (\<lambda>b. b \<noteq> nl) (scRest s)
      in if scStopped s
         then (if scRest s = [] then (None, s) else (Some (drop_cr (scRest s)), s\<lparr>scRest := []\<rparr>))
         else if length line < scMax s
              then (case rest of
                      _ # rest' \<Rightarrow> (Some (drop_cr line), s\<lparr>scRest := rest'\<rparr>)
                    | [] \<Rightarrow>
                        let s' = s\<lparr>scRest := [], scStopped := True, scErr := scEnd s\<rparr>
                        in if line = [] then (None, s') else (Some (drop_cr line), s'))
              else (None, s\<lparr>scRest := take (scMax s) (scRest s), scStopped := True, scErr := Some ErrTooLong\<rparr>))"

text \<open>Whether \<open>bytes.TrimSpace\<close> leaves nothing: every rune of the line is a space.\<close>

fun blank :: "bytes \<Rightarrow> bool" where
  "blank [] = True"
| "blank (b # bs) =
     (if b \<in> set [0x09, 0x0a, 0x0b, 0x0c, 0x0d, 0x20] then blank bs
      else (case bs of
              [] \<Rightarrow> False
            | c # cs \<Rightarrow>
                if b = 0xc2 \<and> (c = 0x85 \<or> c = 0xa0) then blank cs
                else (case cs of
                        [] \<Rightarrow> False
                      | d # ds \<Rightarrow>
                          if b = 0xe1 \<and> c = 0x9a \<and> d = 0x80 \<or>
                             b = 0xe2 \<and> c = 0x80 \<and> (d \<le> 0x8a \<and> d \<ge> 0x80 \<or> d = 0xa8 \<or> d = 0xa9 \<or> d = 0xaf) \<or>
                             b = 0xe2 \<and> c = 0x81 \<and> d = 0x9f \<or>
                             b = 0xe3 \<and> c = 0x80 \<and> d = 0x80
                          then blank ds else False)))"

subsection \<open>The record reader\<close>

record nd_reader =
  nrScanner :: scanner
  nrClosed :: bool

definition nd_NewReaderSize :: "Stream \<Rightarrow> nat \<Rightarrow> nd_reader" where
  "nd_NewReaderSize r bufferSize =
     \<lparr>nrScanner = \<lparr>scRest = concat (sChunks r), scEnd = sErr r, scStopped = False, scErr = None, scMax = bufferSize\<rparr>,
      nrClosed = False\<rparr>"

definition nd_NewReader :: "Stream \<Rightarrow> nd_reader" where
  "nd_NewReader r = nd_NewReaderSize r DefaultBufferSize"

lemma scan_shrinks: "scan s = (Some l, s') \<Longrightarrow> length (scRest s') < length (scRest s)"
proof -
  assume a: "scan s = (Some l, s')"
  have "length (dropWhile (\<lambda>b. b \<noteq> nl) (scRest s)) \<le> length (scRest s)" by (rule length_dropWhile_le)
  then show ?thesis using a
    by (auto simp: scan_def Let_def split: if_splits list.splits)
qed

text \<open>The loop of \<open>Read\<close>, which passes over blank lines.\<close>

function read_loop :: "scanner \<Rightarrow> bytes res \<times> scanner" where
  "read_loop s =
     (case scan s of
        (Some line, s1) \<Rightarrow> if blank line then read_loop s1 else (Inr line, s1)
      | (None, s1) \<Rightarrow> (case scErr s1 of Some e \<Rightarrow> (Inl e, s1) | None \<Rightarrow> (Inl EOF, s1)))"
  by pat_completeness auto
termination
  by (relation "measure (\<lambda>s. length (scRest s))") (auto dest: scan_shrinks [OF sym])

declare read_loop.simps [simp del]

definition nd_Read :: "nd_reader \<Rightarrow> bytes res \<times> nd_reader" where
  "nd_Read r =
     (if nrClosed r then (Inl ErrReaderClosed, r)
      else (case read_loop (nrScanner r) of (x, s) \<Rightarrow> (x, r\<lparr>nrScanner := s\<rparr>)))"

text \<open>Closing closes the underlying reader, whose error it returns; a second time does nothing.\<close>

definition nd_CloseReader :: "object_error option \<Rightarrow> nd_reader \<Rightarrow> object_error option \<times> nd_reader" where
  "nd_CloseReader closeErr r = (if nrClosed r then (None, r) else (closeErr, r\<lparr>nrClosed := True\<rparr>))"

subsection \<open>What reaches the underlying writer\<close>

text \<open>The world after a sequence of writes none of which fails; a writer that no sequence of writes makes fail.\<close>

fun writes :: "'w WriteCloser \<Rightarrow> bytes list \<Rightarrow> 'w \<Rightarrow> 'w option" where
  "writes wr [] w = Some w"
| "writes wr (c # cs) w = (case wrWrite wr c w of (None, w1) \<Rightarrow> writes wr cs w1 | (Some e, w1) \<Rightarrow> None)"

definition reliable :: "'w WriteCloser \<Rightarrow> 'w \<Rightarrow> bool" where
  "reliable wr w \<longleftrightarrow> (\<forall>cs. writes wr cs w \<noteq> None)"

lemma writes_append: "writes wr (cs @ ds) w = (case writes wr cs w of None \<Rightarrow> None | Some w1 \<Rightarrow> writes wr ds w1)"
  by (induction wr cs w rule: writes.induct) (auto split: prod.splits option.splits)

lemma reliable_after: "reliable wr w \<Longrightarrow> writes wr cs w = Some w1 \<Longrightarrow> reliable wr w1"
  unfolding reliable_def by (metis option.case(2) writes_append)

lemma reliable_write: "reliable wr w \<Longrightarrow> \<exists>w1. wrWrite wr c w = (None, w1)"
  unfolding reliable_def by (drule spec [of _ "[c]"]) (auto split: prod.splits option.splits)

lemma writes_io_copy: "io_copy_loop wr cs n w = ((n + length (concat cs), None), w1) \<Longrightarrow> writes wr cs w = Some w1"
  by (induction wr cs n w rule: io_copy_loop.induct) (auto split: prod.splits option.splits simp: add.assoc)

lemma bw_Flush_ok:
  assumes "reliable wr w" "bwErr b = None"
  shows "\<exists>cs w1. bw_Flush wr b w = (None, b\<lparr>bwBuf := []\<rparr>, w1) \<and> writes wr cs w = Some w1 \<and> concat cs = bwBuf b"
proof (cases "bwBuf b = []")
  case True
  then show ?thesis using assms(2) by (intro exI [of _ "[]"]) (simp add: bw_Flush_def)
next
  case False
  obtain w1 where "wrWrite wr (bwBuf b) w = (None, w1)" using reliable_write [OF assms(1)] by blast
  then show ?thesis using assms(2) False by (intro exI [of _ "[bwBuf b]"]) (simp add: bw_Flush_def)
qed

lemma bw_Write_ok:
  "reliable wr w \<Longrightarrow> bwErr b = None \<Longrightarrow>
   \<exists>cs b1 w1. bw_Write wr p b w = (None, b1, w1) \<and> writes wr cs w = Some w1 \<and>
     concat cs @ bwBuf b1 = bwBuf b @ p \<and> bwErr b1 = None"
proof (induction wr p b w rule: bw_Write.induct)
  case (1 wr p b w)
  note rel = "1.prems"(1) and err = "1.prems"(2)
  show ?case
  proof (cases "length p > bwSize b - length (bwBuf b)")
    case fits: False
    then show ?thesis using err by (intro exI [of _ "[]"]) (simp add: bw_Write.simps)
  next
    case big: True
    show ?thesis
    proof (cases "bwBuf b = []")
      case True
      obtain w1 where "wrWrite wr p w = (None, w1)" using reliable_write [OF rel] by blast
      then show ?thesis using True big err by (intro exI [of _ "[p]"]) (simp add: bw_Write.simps)
    next
      case False
      let ?n = "bwSize b - length (bwBuf b)"
      let ?b = "b\<lparr>bwBuf := bwBuf b @ take ?n p\<rparr>"
      obtain cs w1 where f: "bw_Flush wr ?b w = (None, ?b\<lparr>bwBuf := []\<rparr>, w1)" "writes wr cs w = Some w1"
        "concat cs = bwBuf b @ take ?n p"
        using bw_Flush_ok [OF rel, of ?b] err by auto
      have c: "?n < length p \<and> bwErr b = None" using big err by simp
      obtain ds b2 w2 where r: "bw_Write wr (drop ?n p) (?b\<lparr>bwBuf := []\<rparr>) w1 = (None, b2, w2)"
        "writes wr ds w1 = Some w2" "concat ds @ bwBuf b2 = drop ?n p" "bwErr b2 = None"
        using "1.IH" [OF c False f(1) [symmetric] refl reliable_after [OF rel f(2)]] err by auto
      have "bw_Write wr p b w = (None, b2, w2)"
        using r(1) f(1) c False by (subst bw_Write.simps) simp
      moreover have "writes wr (cs @ ds) w = Some w2" using f(2) r(2) by (simp add: writes_append)
      moreover have "concat (cs @ ds) @ bwBuf b2 = bwBuf b @ p" using f(3) r(3) by simp
      ultimately show ?thesis using r(4) by blast
    qed
  qed
qed

definition nd_frame :: "bytes list \<Rightarrow> bytes" where
  "nd_frame rs = concat (map (\<lambda>r. r @ [nl]) rs)"

fun nd_Writes :: "'w WriteCloser \<Rightarrow> bytes list \<Rightarrow> nd_writer \<Rightarrow> 'w \<Rightarrow> object_error option list \<times> nd_writer \<times> 'w" where
  "nd_Writes wr [] s w = ([], s, w)"
| "nd_Writes wr (r # rs) s w =
     (case nd_Write wr r s w of
        (e, s1, w1) \<Rightarrow> (case nd_Writes wr rs s1 w1 of (es, s2, w2) \<Rightarrow> (e # es, s2, w2)))"

lemma nd_Writes_ok:
  "reliable wr w \<Longrightarrow> bwErr (nwW s) = None \<Longrightarrow> \<not> nwClosed s \<Longrightarrow>
   \<exists>cs s1 w1. nd_Writes wr rs s w = (map (\<lambda>r. None) rs, s1, w1) \<and> writes wr cs w = Some w1 \<and>
     concat cs @ bwBuf (nwW s1) = bwBuf (nwW s) @ nd_frame rs \<and> bwErr (nwW s1) = None \<and> \<not> nwClosed s1"
proof (induction rs arbitrary: s w)
  case Nil
  then show ?case by (intro exI [of _ "[]"]) (simp add: nd_frame_def)
next
  case (Cons r rs)
  obtain cs b1 w1 where 1: "bw_Write wr r (nwW s) w = (None, b1, w1)" "writes wr cs w = Some w1"
    "concat cs @ bwBuf b1 = bwBuf (nwW s) @ r" "bwErr b1 = None"
    using bw_Write_ok [OF Cons.prems(1,2)] by blast
  have r1: "reliable wr w1" using reliable_after [OF Cons.prems(1) 1(2)] .
  obtain ds b2 w2 where 2: "bw_Write wr [nl] b1 w1 = (None, b2, w2)" "writes wr ds w1 = Some w2"
    "concat ds @ bwBuf b2 = bwBuf b1 @ [nl]" "bwErr b2 = None"
    using bw_Write_ok [OF r1 1(4)] by blast
  have one: "nd_Write wr r s w = (None, s\<lparr>nwW := b2\<rparr>, w2)" using 1(1) 2(1) Cons.prems(3) by (simp add: nd_Write_def)
  obtain es s3 w3 where 3: "nd_Writes wr rs (s\<lparr>nwW := b2\<rparr>) w2 = (map (\<lambda>r. None) rs, s3, w3)" "writes wr es w2 = Some w3"
    "concat es @ bwBuf (nwW s3) = bwBuf b2 @ nd_frame rs" "bwErr (nwW s3) = None" "\<not> nwClosed s3"
    using Cons.IH [OF reliable_after [OF r1 2(2)], of "s\<lparr>nwW := b2\<rparr>"] 2(4) Cons.prems(3) by auto
  have "writes wr (cs @ ds @ es) w = Some w3" using 1(2) 2(2) 3(2) by (simp add: writes_append)
  moreover have "concat (cs @ ds @ es) @ bwBuf (nwW s3) = bwBuf (nwW s) @ nd_frame (r # rs)"
    using 1(3) 2(3) 3(3) by (simp add: nd_frame_def)
  ultimately show ?case using one 3(1,4,5) by (intro exI [of _ "cs @ ds @ es"]) auto
qed

lemma nd_CloseWriter_ok:
  assumes "reliable wr w" "bwErr (nwW s) = None" "\<not> nwClosed s"
  shows "\<exists>cs w1. writes wr cs w = Some w1 \<and> concat cs = bwBuf (nwW s) \<and>
    fst (nd_CloseWriter wr s w) = fst (wrClose wr w1) \<and> snd (snd (nd_CloseWriter wr s w)) = snd (wrClose wr w1)"
proof -
  obtain cs w1 where "bw_Flush wr (nwW s) w = (None, (nwW s)\<lparr>bwBuf := []\<rparr>, w1)" "writes wr cs w = Some w1"
    "concat cs = bwBuf (nwW s)" using bw_Flush_ok [OF assms(1,2)] by blast
  then show ?thesis using assms(3) by (intro exI [of _ cs] exI [of _ w1]) (simp add: nd_CloseWriter_def case_prod_beta)
qed

subsection \<open>Reading a frame back\<close>

definition nd_record :: "nat \<Rightarrow> bytes \<Rightarrow> bool" where
  "nd_record n r \<longleftrightarrow> nl \<notin> set r \<and> length r < n \<and> drop_cr r = r"

lemma split_line: "nl \<notin> set r \<Longrightarrow> takeWhile (\<lambda>b. b \<noteq> nl) (r @ nl # rest) = r"
  "nl \<notin> set r \<Longrightarrow> dropWhile (\<lambda>b. b \<noteq> nl) (r @ nl # rest) = nl # rest"
  by (induction r) auto

lemma scan_line:
  "scRest s = r @ nl # rest \<Longrightarrow> \<not> scStopped s \<Longrightarrow> nd_record (scMax s) r \<Longrightarrow> scan s = (Some r, s\<lparr>scRest := rest\<rparr>)"
  by (simp add: scan_def split_line nd_record_def)

lemma scan_end:
  "scRest s = [] \<Longrightarrow> \<not> scStopped s \<Longrightarrow> 0 < scMax s \<Longrightarrow> scan s = (None, s\<lparr>scStopped := True, scErr := scEnd s\<rparr>)"
  by (simp add: scan_def)

fun nd_Reads :: "nat \<Rightarrow> nd_reader \<Rightarrow> bytes res list \<times> nd_reader" where
  "nd_Reads 0 r = ([], r)"
| "nd_Reads (Suc k) r = (case nd_Read r of (x, r1) \<Rightarrow> (case nd_Reads k r1 of (xs, r2) \<Rightarrow> (x # xs, r2)))"

lemma nd_Read_next:
  assumes "scRest (nrScanner r) = x @ nl # rest" "\<not> scStopped (nrScanner r)" "\<not> nrClosed r" "nd_record (scMax (nrScanner r)) x"
  shows "nd_Read r = (if blank x then nd_Read (r\<lparr>nrScanner := (nrScanner r)\<lparr>scRest := rest\<rparr>\<rparr>)
                      else (Inr x, r\<lparr>nrScanner := (nrScanner r)\<lparr>scRest := rest\<rparr>\<rparr>))"
  using assms(3) scan_line [OF assms(1,2,4)]
  by (simp add: nd_Read_def read_loop.simps [of "nrScanner r"] case_prod_beta)

lemma nd_Reads_frame:
  assumes "scRest (nrScanner r) = nd_frame rs" "\<not> scStopped (nrScanner r)" "\<not> nrClosed r" "scEnd (nrScanner r) = None"
    "0 < scMax (nrScanner r)" "\<forall>x \<in> set rs. nd_record (scMax (nrScanner r)) x"
  shows "fst (nd_Reads (Suc (length (filter (\<lambda>x. \<not> blank x) rs))) r) = map Inr (filter (\<lambda>x. \<not> blank x) rs) @ [Inl EOF]"
  using assms
proof (induction rs arbitrary: r)
  case Nil
  then have "scan (nrScanner r) = (None, (nrScanner r)\<lparr>scStopped := True, scErr := scEnd (nrScanner r)\<rparr>)"
    by (simp add: scan_end nd_frame_def)
  then have "fst (nd_Read r) = Inl EOF"
    using Nil.prems(3,4) by (simp add: nd_Read_def read_loop.simps [of "nrScanner r"])
  then show ?case by (simp add: case_prod_beta)
next
  case (Cons x rs)
  let ?r = "r\<lparr>nrScanner := (nrScanner r)\<lparr>scRest := nd_frame rs\<rparr>\<rparr>"
  have "scRest (nrScanner r) = x @ nl # nd_frame rs" using Cons.prems(1) by (simp add: nd_frame_def)
  note n = nd_Read_next [OF this Cons.prems(2,3)]
  have ih: "fst (nd_Reads (Suc (length (filter (\<lambda>x. \<not> blank x) rs))) ?r) = map Inr (filter (\<lambda>x. \<not> blank x) rs) @ [Inl EOF]"
    using Cons.prems by (intro Cons.IH) simp_all
  have "nd_record (scMax (nrScanner r)) x" using Cons.prems(6) by simp
  note n = n [OF this]
  show ?case
  proof (cases "blank x")
    case True
    then have "nd_Reads (Suc k) r = nd_Reads (Suc k) ?r" for k using n by simp
    then show ?thesis using ih True by (simp del: nd_Reads.simps)
  next
    case False
    then show ?thesis using n ih by (simp add: case_prod_beta)
  qed
qed

subsection \<open>Properties\<close>

text \<open>C33: Records written to a memory backend and read back: with any buffer sizes, if no record contains a
  newline, ends with a carriage return or is as long as the reader's buffer, then no write fails, the
  object holds the framed records, and the reader returns exactly the records that are not blank, in
  order, and then the end of the data.\<close>

theorem ndjson_roundtrip:
  assumes "wd_ok W" "mem_key p" "0 < n" "\<forall>x \<in> set rs. nd_record n x"
  shows "\<exists>wr W1 s W2 W3 st. bkNewWriter (mem_Backend i) p opts W = (Inr wr, W1) \<and>
    nd_Writes wr rs (nd_NewWriterSize m) W1 = (map (\<lambda>r. None) rs, s, W2) \<and>
    fst (nd_CloseWriter wr s W2) = None \<and> snd (snd (nd_CloseWriter wr s W2)) = W3 \<and>
    wd_files i W3 = (wd_files i W)(p := Some (nd_frame rs)) \<and> bkNewReader (mem_Backend i) p [] W3 = Inr st \<and>
    fst (nd_Reads (Suc (length (filter (\<lambda>x. \<not> blank x) rs))) (nd_NewReaderSize st n)) =
      map Inr (filter (\<lambda>x. \<not> blank x) rs) @ [Inl EOF]"
proof -
  obtain wr W1 where o: "bkNewWriter (mem_Backend i) p opts W = (Inr wr, W1)"
    using mem_stores.write_law [OF assms(1,2), of i opts "[]" 0] by blast
  have law: "\<exists>w2 w3. writes wr cs W1 = Some w2 \<and> wrClose wr w2 = (None, w3) \<and> wd_ok w3 \<and>
      wd_files i w3 = (wd_files i W)(p := Some (concat cs))" for cs
    using mem_stores.write_law [OF assms(1,2), of i opts cs 0] o writes_io_copy [of wr cs 0 W1] by fastforce
  then have rel: "reliable wr W1" unfolding reliable_def by (metis option.distinct(1))
  obtain cs s W2 where w: "nd_Writes wr rs (nd_NewWriterSize m) W1 = (map (\<lambda>r. None) rs, s, W2)" "writes wr cs W1 = Some W2"
    "concat cs @ bwBuf (nwW s) = nd_frame rs" "bwErr (nwW s) = None" "\<not> nwClosed s"
    using nd_Writes_ok [OF rel, of "nd_NewWriterSize m" rs] by (auto simp: nd_NewWriterSize_def)
  obtain ds W2' where c: "writes wr ds W2 = Some W2'" "concat ds = bwBuf (nwW s)"
    "fst (nd_CloseWriter wr s W2) = fst (wrClose wr W2')" "snd (snd (nd_CloseWriter wr s W2)) = snd (wrClose wr W2')"
    using nd_CloseWriter_ok [OF reliable_after [OF rel w(2)] w(4,5)] by blast
  have "writes wr (cs @ ds) W1 = Some W2'" using w(2) c(1) by (simp add: writes_append)
  with law [of "cs @ ds"] obtain W3 where z: "wrClose wr W2' = (None, W3)" "wd_ok W3"
    "wd_files i W3 = (wd_files i W)(p := Some (concat (cs @ ds)))" by auto
  have f: "concat (cs @ ds) = nd_frame rs" using w(3) c(2) by simp
  then have "wd_files i W3 p = Some (nd_frame rs)" using z(3) by simp
  then obtain st where st: "bkNewReader (mem_Backend i) p [] W3 = Inr st" "concat (sChunks st) = nd_frame rs" "sErr st = None"
    using mem_stores.read_law [OF z(2)] by blast
  have "fst (nd_Reads (Suc (length (filter (\<lambda>x. \<not> blank x) rs))) (nd_NewReaderSize st n)) =
      map Inr (filter (\<lambda>x. \<not> blank x) rs) @ [Inl EOF]"
    by (rule nd_Reads_frame) (use st(2,3) assms(3,4) in \<open>simp_all add: nd_NewReaderSize_def\<close>)
  then show ?thesis using o w(1) c(3,4) z(1,3) st(1) f by (intro exI conjI) auto
qed

theorem ndjson_roundtrip_witness:
  "\<exists>wr W1 s W2 W3 st. bkNewWriter (mem_Backend 0) ''b'' [] witness_world = (Inr wr, W1) \<and>
    nd_Writes wr [[0x31], [], [0x32, 0x33]] (nd_NewWriterSize 2) W1 = ([None, None, None], s, W2) \<and>
    snd (snd (nd_CloseWriter wr s W2)) = W3 \<and> wd_files 0 W3 ''b'' = Some [0x31, nl, nl, 0x32, 0x33, nl] \<and>
    bkNewReader (mem_Backend 0) ''b'' [] W3 = Inr st \<and>
    fst (nd_Reads 3 (nd_NewReaderSize st 8)) = [Inr [0x31], Inr [0x32, 0x33], Inl EOF]"
proof -
  let ?rs = "[[0x31], [], [0x32, 0x33]] :: bytes list"
  have "\<forall>x \<in> set ?rs. nd_record 8 x" by (simp add: nd_record_def nl_def cr_def drop_cr_def)
  moreover have "filter (\<lambda>x. \<not> blank x) ?rs = [[0x31], [0x32, 0x33]]" by simp
  moreover have "nd_frame ?rs = [0x31, nl, nl, 0x32, 0x33, nl]" by (simp add: nd_frame_def)
  ultimately show ?thesis
    using ndjson_roundtrip [OF witness_world_ok mem_key_letter(2), of 8 ?rs 0 "[]" 2]
    by (simp only: list.map list.size append.simps) (auto simp: eval_nat_numeral)
qed

text \<open>A line that does not fit into the reader's buffer is an error; the read after it returns the beginning
  of that line, cut to the buffer, as if it were a record, and the error again after it.\<close>

theorem ndjson_too_long:
  assumes "concat (sChunks st) = x @ rest" "nl \<notin> set x" "length x = n" "\<not> blank (drop_cr x)" "0 < n"
  shows "fst (nd_Reads 3 (nd_NewReaderSize st n)) = [Inl ErrTooLong, Inr (drop_cr x), Inl ErrTooLong]"
proof -
  let ?s = "nrScanner (nd_NewReaderSize st n)"
  have t: "takeWhile (\<lambda>b. b \<noteq> nl) (x @ rest) = x @ takeWhile (\<lambda>b. b \<noteq> nl) rest"
    using assms(2) by (induction x) auto
  have 1: "scan ?s = (None, ?s\<lparr>scRest := x, scStopped := True, scErr := Some ErrTooLong\<rparr>)"
    using assms(1,3) t by (simp add: scan_def nd_NewReaderSize_def)
  have 2: "scan (?s\<lparr>scRest := x, scStopped := True, scErr := Some ErrTooLong\<rparr>) =
      (Some (drop_cr x), ?s\<lparr>scRest := [], scStopped := True, scErr := Some ErrTooLong\<rparr>)"
    using assms(3,5) by (auto simp: scan_def)
  have 3: "scan (?s\<lparr>scRest := [], scStopped := True, scErr := Some ErrTooLong\<rparr>) =
      (None, ?s\<lparr>scRest := [], scStopped := True, scErr := Some ErrTooLong\<rparr>)"
    by (simp add: scan_def)
  have c: "\<not> nrClosed (nd_NewReaderSize st n)" by (simp add: nd_NewReaderSize_def)
  show ?thesis
    using assms(4) c by (simp add: eval_nat_numeral nd_Read_def read_loop.simps 1 2 3)
qed

theorem ndjson_too_long_witness:
  "fst (nd_Reads 3 (nd_NewReaderSize \<lparr>sChunks = [[1, 2, 3], [4, nl, 5]], sErr = None\<rparr> 2)) =
    [Inl ErrTooLong, Inr [1, 2], Inl ErrTooLong]"
proof -
  have "drop_cr [1, 2] = [1, 2]" by (simp add: drop_cr_def cr_def)
  then show ?thesis
    using ndjson_too_long [of "\<lparr>sChunks = [[1, 2, 3], [4, nl, 5]], sErr = None\<rparr>" "[1, 2]" "[3, 4, nl, 5]" 2]
    by (simp add: nl_def)
qed

end
