(* ===== verification/ChannelBackend.thy ===== *)
theory ChannelBackend
  imports MemoryBackend
begin

section \<open>The channel backend (\<open>object/backend/channel/backend.go\<close>)\<close>

text \<open>
  Every path is a Go channel that writers send to and readers receive from. The channel records are
  shared by pointer (a writer keeps its channel when the path is deleted), so the model has them in
  a store \<open>cbInfos\<close>, and the map of the backend holds their indices. A channel of capacity at least
  one is the queue of its messages and a closed flag, which the code's own flag always equals.
  A call that can wait is split where it does: \<open>cw_begin\<close> is \<open>Write\<close> up to its last \<open>select\<close>, \<open>cw_send\<close> the
  send; a send to a full channel waits, one to a closed channel panics. Where a \<open>select\<close> has several
  cases ready, an argument \<open>sel\<close> decides. The interleavings of the clients are the step relation
  \<open>ch_step\<close> below.
\<close>

record channelInfo =
  ciQueue :: "bytes list"
  ciClosed :: bool
  ciBuffered :: "bytes list"

record ch_backend =
  cbChannels :: "(path, nat) gomap"
  cbInfos :: "channelInfo list"
  cbSize :: nat
  cbPersistent :: bool
  cbClosed :: bool

type_synonym ch_option = "ch_backend \<Rightarrow> ch_backend"

definition ch_WithBufferSize :: "nat \<Rightarrow> ch_option" where
  "ch_WithBufferSize sz b = b\<lparr>cbSize := sz\<rparr>"

definition WithPersistence :: "bool \<Rightarrow> ch_option" where
  "WithPersistence enabled b = b\<lparr>cbPersistent := enabled\<rparr>"

definition ch_New :: "ch_option list \<Rightarrow> ch_backend" where
  "ch_New opts =
     fold (\<lambda>opt b. opt b) opts
       \<lparr>cbChannels = gm_empty, cbInfos = [], cbSize = 100, cbPersistent = False, cbClosed = False\<rparr>"

text \<open>\<open>fmt.Sscanf(s, "%d", &size)\<close> is the argument \<open>sscanf\<close>.\<close>

definition ch_NewFromConfig :: "(string \<Rightarrow> int option) \<Rightarrow> (string, string) gomap \<Rightarrow> ch_backend" where
  "ch_NewFromConfig sscanf config =
     ch_New ((case gm_get config ''buffer_size'' of
                None \<Rightarrow> []
              | Some s \<Rightarrow> (case sscanf s of
                             None \<Rightarrow> []
                           | Some sz \<Rightarrow> if sz > 0 then [ch_WithBufferSize (nat sz)] else [])) @
             (case gm_get config ''persistent'' of
                None \<Rightarrow> []
              | Some s \<Rightarrow> if s = ''true'' \<or> s = ''1'' then [WithPersistence True] else []))"

definition new_info :: channelInfo where
  "new_info = \<lparr>ciQueue = [], ciClosed = False, ciBuffered = []\<rparr>"

definition getOrCreateChannel :: "path \<Rightarrow> ch_backend \<Rightarrow> nat \<times> ch_backend" where
  "getOrCreateChannel p b =
     (case gm_get (cbChannels b) p of
        Some k \<Rightarrow> (k, b)
      | None \<Rightarrow>
          (length (cbInfos b),
           b\<lparr>cbInfos := cbInfos b @ [new_info], cbChannels := gm_put p (length (cbInfos b)) (cbChannels b)\<rparr>))"

definition ch_checkClosed :: "ch_backend \<Rightarrow> object_error option" where
  "ch_checkClosed b = (if cbClosed b then Some ErrBackendClosed else None)"

text \<open>A change of one channel record.\<close>

definition info_update :: "nat \<Rightarrow> (channelInfo \<Rightarrow> channelInfo) \<Rightarrow> ch_backend \<Rightarrow> ch_backend" where
  "info_update k f b = b\<lparr>cbInfos := (cbInfos b)[k := f (cbInfos b ! k)]\<rparr>"

definition close_info :: "channelInfo \<Rightarrow> channelInfo" where
  "close_info ci = (if \<not> ciClosed ci then ci\<lparr>ciClosed := True\<rparr> else ci)"

subsection \<open>Writers\<close>

record channelWriter =
  cwInfo :: nat
  cwPath :: path
  cwClosed :: bool

definition ch_NewWriter :: "ctx \<Rightarrow> path \<Rightarrow> ch_backend \<Rightarrow> channelWriter res \<times> ch_backend" where
  "ch_NewWriter ctx p b =
     (case first_error [ch_checkClosed b, ctx 0, if p = [] then Some ErrInvalidPath else None] of
        Some e \<Rightarrow> (Inl e, b)
      | None \<Rightarrow> (case getOrCreateChannel p b of (k, b1) \<Rightarrow> (Inr \<lparr>cwInfo = k, cwPath = p, cwClosed = False\<rparr>, b1)))"

definition cw_begin :: "ctx \<Rightarrow> bytes \<Rightarrow> channelWriter \<Rightarrow> ch_backend \<Rightarrow> object_error option \<times> ch_backend" where
  "cw_begin ctx data w b =
     (if cwClosed w then (Some ErrWriterClosed, b)
      else (case ctx 0 of
              Some e \<Rightarrow> (Some e, b)
            | None \<Rightarrow>
                let b1 = (if cbPersistent b
                          then info_update (cwInfo w) (\<lambda>ci. ci\<lparr>ciBuffered := ciBuffered ci @ [data]\<rparr>) b else b)
                in if ciClosed (cbInfos b1 ! cwInfo w) then (Some ErrClosedPipe, b1) else (None, b1)))"

datatype send_outcome = Sent | SendBlocks | SendPanics

definition cw_send :: "bytes \<Rightarrow> channelWriter \<Rightarrow> ch_backend \<Rightarrow> send_outcome \<times> ch_backend" where
  "cw_send data w b =
     (let ci = cbInfos b ! cwInfo w
      in if ciClosed ci then (SendPanics, b)
         else if length (ciQueue ci) < cbSize b
              then (Sent, info_update (cwInfo w) (\<lambda>ci. ci\<lparr>ciQueue := ciQueue ci @ [data]\<rparr>) b)
              else (SendBlocks, b))"

definition cw_Close :: "channelWriter \<Rightarrow> ch_backend \<Rightarrow> channelWriter \<times> ch_backend" where
  "cw_Close w b = (if cwClosed w then (w, b) else (w\<lparr>cwClosed := True\<rparr>, info_update (cwInfo w) close_info b))"

subsection \<open>Readers\<close>

record channelReader =
  crInfo :: nat
  crPath :: path
  crBuffer :: bytes
  crCurrent :: bytes
  crOffset :: nat
  crClosed :: bool

definition ch_NewReader :: "ctx \<Rightarrow> path \<Rightarrow> ch_backend \<Rightarrow> channelReader res \<times> ch_backend" where
  "ch_NewReader ctx p b =
     (case first_error [ch_checkClosed b, ctx 0, if p = [] then Some ErrInvalidPath else None] of
        Some e \<Rightarrow> (Inl e, b)
      | None \<Rightarrow>
          (case getOrCreateChannel p b of
             (k, b1) \<Rightarrow>
               (Inr \<lparr>crInfo = k, crPath = p,
                     crBuffer = (if cbPersistent b1 then concat (ciBuffered (cbInfos b1 ! k)) else []),
                     crCurrent = [], crOffset = 0, crClosed = False\<rparr>, b1)))"

text \<open>
  \<open>Read\<close> into a buffer of \<open>n\<close> bytes returns the bytes and the error, the message it took from the
  channel if it did, and the new states; it is \<open>None\<close> when it waits. The first function is the
  receive.
\<close>

type_synonym read_result = "((bytes \<times> object_error option) \<times> bytes option \<times> channelReader \<times> ch_backend) option"

definition cr_receive :: "nat \<Rightarrow> channelReader \<Rightarrow> ch_backend \<Rightarrow> read_result" where
  "cr_receive n r b =
     (case ciQueue (cbInfos b ! crInfo r) of
        d # q \<Rightarrow>
          Some ((take n d, None), Some d, r\<lparr>crCurrent := d, crOffset := length (take n d)\<rparr>,
                info_update (crInfo r) (\<lambda>ci. ci\<lparr>ciQueue := q\<rparr>) b)
      | [] \<Rightarrow> if ciClosed (cbInfos b ! crInfo r) then Some (([], Some EOF), None, r, b) else None)"

definition cr_Read :: "ctx \<Rightarrow> bool \<Rightarrow> nat \<Rightarrow> channelReader \<Rightarrow> ch_backend \<Rightarrow> read_result" where
  "cr_Read ctx sel n r b =
     (if crClosed r then Some (([], Some ErrReaderClosed), None, r, b)
      else (case ctx 0 of
              Some e \<Rightarrow> Some (([], Some e), None, r, b)
            | None \<Rightarrow>
                if crBuffer r \<noteq> []
                then Some ((take n (crBuffer r), None), None, r\<lparr>crBuffer := drop n (crBuffer r)\<rparr>, b)
                else if crOffset r < length (crCurrent r)
                then let d = take n (drop (crOffset r) (crCurrent r))
                     in Some ((d, None), None, r\<lparr>crOffset := crOffset r + length d\<rparr>, b)
                else let ci = cbInfos b ! crInfo r;
                         ready = (ciQueue ci \<noteq> [] \<or> ciClosed ci)
                     in case ctx 1 of
                          Some e \<Rightarrow> if ready \<and> \<not> sel then cr_receive n r b else Some (([], Some e), None, r, b)
                        | None \<Rightarrow> cr_receive n r b))"

definition cr_Close :: "channelReader \<Rightarrow> channelReader" where
  "cr_Close r = r\<lparr>crClosed := True\<rparr>"

subsection \<open>The other methods\<close>

definition ch_Exists :: "ctx \<Rightarrow> path \<Rightarrow> ch_backend \<Rightarrow> bool res" where
  "ch_Exists ctx p b =
     (case first_error [ch_checkClosed b, ctx 0] of
        Some e \<Rightarrow> Inl e
      | None \<Rightarrow> Inr (gm_get (cbChannels b) p \<noteq> None))"

definition ch_Delete :: "ctx \<Rightarrow> path \<Rightarrow> ch_backend \<Rightarrow> object_error option \<times> ch_backend" where
  "ch_Delete ctx p b =
     (case first_error [ch_checkClosed b, ctx 0] of
        Some e \<Rightarrow> (Some e, b)
      | None \<Rightarrow>
          (case gm_get (cbChannels b) p of
             None \<Rightarrow> (None, b)
           | Some k \<Rightarrow> (None, (info_update k close_info b)\<lparr>cbChannels := gm_del p (cbChannels b)\<rparr>)))"

definition ch_List :: "ctx \<Rightarrow> path \<Rightarrow> ch_backend \<Rightarrow> path list res" where
  "ch_List ctx pre b =
     (case first_error [ch_checkClosed b, ctx 0] of
        Some e \<Rightarrow> Inl e
      | None \<Rightarrow> Inr (sort (filter (\<lambda>p. pre = [] \<or> has_prefix p pre) (gm_keys (cbChannels b)))))"

definition ch_Close :: "ch_backend \<Rightarrow> ch_backend" where
  "ch_Close b =
     (if cbClosed b then b
      else (fold (\<lambda>k. info_update k close_info) (map snd (gm_entries (cbChannels b))) b)
             \<lparr>cbClosed := True, cbChannels := gm_empty\<rparr>)"

text \<open>The loop of \<open>Broadcast\<close> over the channels, in the order of the range; a full channel is passed over.\<close>

fun broadcast_loop ::
  "ctx \<Rightarrow> (nat \<Rightarrow> bool) \<Rightarrow> nat \<Rightarrow> path \<Rightarrow> bytes \<Rightarrow> (path \<times> nat) list \<Rightarrow> ch_backend \<Rightarrow> object_error option \<times> ch_backend" where
  "broadcast_loop ctx sel i pre data [] b = (None, b)"
| "broadcast_loop ctx sel i pre data ((p, k) # es) b =
     (if (pre = [] \<or> has_prefix p pre) \<and> \<not> ciClosed (cbInfos b ! k)
      then let room = (length (ciQueue (cbInfos b ! k)) < cbSize b);
               b1 = (if room then info_update k (\<lambda>ci. ci\<lparr>ciQueue := ciQueue ci @ [data]\<rparr>) b else b)
           in (case ctx i of
                 Some e \<Rightarrow> if room \<and> \<not> sel i then broadcast_loop ctx sel (Suc i) pre data es b1 else (Some e, b)
               | None \<Rightarrow> broadcast_loop ctx sel (Suc i) pre data es b1)
      else broadcast_loop ctx sel i pre data es b)"

definition ch_Broadcast ::
  "ctx \<Rightarrow> (nat \<Rightarrow> bool) \<Rightarrow> ((path \<times> nat) list \<Rightarrow> (path \<times> nat) list) \<Rightarrow> path \<Rightarrow> bytes \<Rightarrow> ch_backend \<Rightarrow>
   object_error option \<times> ch_backend" where
  "ch_Broadcast ctx sel ord pre data b =
     (case ch_checkClosed b of
        Some e \<Rightarrow> (Some e, b)
      | None \<Rightarrow> broadcast_loop ctx sel 0 pre data (ord (gm_entries (cbChannels b))) b)"

definition ChannelCount :: "ch_backend \<Rightarrow> nat" where
  "ChannelCount b = gm_len (cbChannels b)"

subsection \<open>Interleavings\<close>

text \<open>
  The backend with its open writers, each with the data of a \<open>Write\<close> that has passed its checks and
  not yet sent, and readers; for every channel what was sent on it and what was received from it, in
  order; and whether a goroutine has panicked. \<open>Close\<close> of a writer waits for its \<open>Write\<close> (the
  writer's mutex).
\<close>

record ch_sys =
  csBackend :: ch_backend
  csWriters :: "(channelWriter \<times> bytes option) list"
  csReaders :: "channelReader list"
  csSent :: "nat \<Rightarrow> bytes list"
  csReceived :: "nat \<Rightarrow> bytes list"
  csPanic :: bool

definition queue :: "ch_backend \<Rightarrow> nat \<Rightarrow> bytes list" where
  "queue b k = (if k < length (cbInfos b) then ciQueue (cbInfos b ! k) else [])"

text \<open>What a step appends to the queues counts as sent.\<close>

definition sent_more :: "ch_backend \<Rightarrow> ch_backend \<Rightarrow> (nat \<Rightarrow> bytes list) \<Rightarrow> nat \<Rightarrow> bytes list" where
  "sent_more b b' sent k = sent k @ drop (length (queue b k)) (queue b' k)"

definition ch_init :: "nat \<Rightarrow> bool \<Rightarrow> ch_sys" where
  "ch_init cap pers =
     \<lparr>csBackend = ch_New [ch_WithBufferSize cap, WithPersistence pers], csWriters = [], csReaders = [], csSent = (\<lambda>k. []), csReceived = (\<lambda>k. []), csPanic = False\<rparr>"

inductive ch_step :: "ch_sys \<Rightarrow> ch_sys \<Rightarrow> bool" where
  open_writer: "ch_NewWriter ctx p (csBackend s) = (Inr w, b) \<Longrightarrow>
    ch_step s (s\<lparr>csBackend := b, csWriters := csWriters s @ [(w, None)]\<rparr>)"
| open_reader: "ch_NewReader ctx p (csBackend s) = (Inr r, b) \<Longrightarrow>
    ch_step s (s\<lparr>csBackend := b, csReaders := csReaders s @ [r]\<rparr>)"
| write_begins: "i < length (csWriters s) \<Longrightarrow> csWriters s ! i = (w, None) \<Longrightarrow>
    cw_begin ctx data w (csBackend s) = (None, b) \<Longrightarrow>
    ch_step s (s\<lparr>csBackend := b, csWriters := (csWriters s)[i := (w, Some data)]\<rparr>)"
| write_refused: "i < length (csWriters s) \<Longrightarrow> csWriters s ! i = (w, None) \<Longrightarrow>
    cw_begin ctx data w (csBackend s) = (Some e, b) \<Longrightarrow> ch_step s (s\<lparr>csBackend := b\<rparr>)"
| write_sends: "i < length (csWriters s) \<Longrightarrow> csWriters s ! i = (w, Some data) \<Longrightarrow>
    cw_send data w (csBackend s) = (Sent, b) \<Longrightarrow>
    ch_step s (s\<lparr>csBackend := b, csWriters := (csWriters s)[i := (w, None)],
                 csSent := sent_more (csBackend s) b (csSent s)\<rparr>)"
| write_cancelled: "i < length (csWriters s) \<Longrightarrow> csWriters s ! i = (w, Some data) \<Longrightarrow>
    ch_step s (s\<lparr>csWriters := (csWriters s)[i := (w, None)]\<rparr>)"
| write_panics: "i < length (csWriters s) \<Longrightarrow> csWriters s ! i = (w, Some data) \<Longrightarrow>
    cw_send data w (csBackend s) = (SendPanics, b) \<Longrightarrow> ch_step s (s\<lparr>csPanic := True\<rparr>)"
| writer_closes: "i < length (csWriters s) \<Longrightarrow> csWriters s ! i = (w, None) \<Longrightarrow> cw_Close w (csBackend s) = (w', b) \<Longrightarrow>
    ch_step s (s\<lparr>csBackend := b, csWriters := (csWriters s)[i := (w', None)]\<rparr>)"
| reads: "i < length (csReaders s) \<Longrightarrow>
    cr_Read ctx sel n (csReaders s ! i) (csBackend s) = Some (res, got, r', b) \<Longrightarrow>
    ch_step s (s\<lparr>csBackend := b, csReaders := (csReaders s)[i := r'],
                 csReceived := (case got of None \<Rightarrow> csReceived s
                                | Some d \<Rightarrow> (csReceived s)(crInfo (csReaders s ! i) := csReceived s (crInfo (csReaders s ! i)) @ [d]))\<rparr>)"
| reader_closes: "i < length (csReaders s) \<Longrightarrow>
    ch_step s (s\<lparr>csReaders := (csReaders s)[i := cr_Close (csReaders s ! i)]\<rparr>)"
| deletes: "ch_Delete ctx p (csBackend s) = (e, b) \<Longrightarrow> ch_step s (s\<lparr>csBackend := b\<rparr>)"
| closes: "ch_step s (s\<lparr>csBackend := ch_Close (csBackend s)\<rparr>)"
| broadcasts: "range_order ord \<Longrightarrow> ch_Broadcast ctx sel ord pre data (csBackend s) = (e, b) \<Longrightarrow>
    ch_step s (s\<lparr>csBackend := b, csSent := sent_more (csBackend s) b (csSent s)\<rparr>)"

definition ch_reach :: "nat \<Rightarrow> bool \<Rightarrow> ch_sys \<Rightarrow> bool" where
  "ch_reach cap pers s = (0 < cap \<and> ch_step\<^sup>*\<^sup>* (ch_init cap pers) s)"

subsection \<open>No message is lost, duplicated or reordered\<close>

text \<open>
  One backend state follows another if its queues only grew at the end, and those of closed channels
  not at all.
\<close>

definition ch_closed :: "ch_backend \<Rightarrow> nat \<Rightarrow> bool" where
  "ch_closed b k = (k < length (cbInfos b) \<and> ciClosed (cbInfos b ! k))"

definition ch_grows :: "ch_backend \<Rightarrow> ch_backend \<Rightarrow> bool" where
  "ch_grows b b' =
     (length (cbInfos b) \<le> length (cbInfos b') \<and> cbSize b' = cbSize b \<and>
      (\<forall>k. \<exists>xs. queue b' k = queue b k @ xs \<and> (ch_closed b k \<longrightarrow> xs = [] \<and> ch_closed b' k)))"

definition ch_wf :: "ch_backend \<Rightarrow> bool" where
  "ch_wf b =
     ((\<forall>k \<in> ran (gm_get (cbChannels b)). k < length (cbInfos b)) \<and> (\<forall>k. length (queue b k) \<le> cbSize b))"

lemma grows_refl [simp]: "ch_grows b b"
  by (simp add: ch_grows_def)

lemma grows_trans:
  assumes "ch_grows a b" and "ch_grows b c"
  shows "ch_grows a c"
proof -
  have "\<exists>xs. queue c k = queue a k @ xs \<and> (ch_closed a k \<longrightarrow> xs = [] \<and> ch_closed c k)" for k
  proof -
    obtain xs where "queue b k = queue a k @ xs" "ch_closed a k \<longrightarrow> xs = [] \<and> ch_closed b k"
      using assms(1) by (auto simp: ch_grows_def)
    moreover obtain ys where "queue c k = queue b k @ ys" "ch_closed b k \<longrightarrow> ys = [] \<and> ch_closed c k"
      using assms(2) by (auto simp: ch_grows_def)
    ultimately show ?thesis by (intro exI[of _ "xs @ ys"]) auto
  qed
  then show ?thesis using assms by (auto simp: ch_grows_def)
qed

lemma queue_update:
  assumes "k < length (cbInfos b)"
  shows "queue (info_update k f b) = (queue b)(k := ciQueue (f (cbInfos b ! k)))"
  using assms by (auto simp: queue_def info_update_def fun_eq_iff)

lemma closed_update:
  assumes "k < length (cbInfos b)"
  shows "ch_closed (info_update k f b) j = (if j = k then ciClosed (f (cbInfos b ! k)) else ch_closed b j)"
  using assms by (auto simp: ch_closed_def info_update_def)

lemma update_simps [simp]:
  "length (cbInfos (info_update k f b)) = length (cbInfos b)"
  "cbSize (info_update k f b) = cbSize b" "cbChannels (info_update k f b) = cbChannels b"
  "cbPersistent (info_update k f b) = cbPersistent b"
  by (simp_all add: info_update_def)

lemma queue_nth: "k < length (cbInfos b) \<Longrightarrow> ciQueue (cbInfos b ! k) = queue b k"
  by (simp add: queue_def)

lemma map_change [simp]:
  "queue (b\<lparr>cbChannels := m\<rparr>) = queue b" "queue (b\<lparr>cbClosed := c\<rparr>) = queue b"
  "ch_closed (b\<lparr>cbChannels := m\<rparr>) = ch_closed b" "ch_closed (b\<lparr>cbClosed := c\<rparr>) = ch_closed b"
  by (simp_all add: queue_def ch_closed_def fun_eq_iff)

lemma grows_map_change [simp]:
  "ch_grows b (c\<lparr>cbChannels := m\<rparr>) = ch_grows b c" "ch_grows b (c\<lparr>cbClosed := d\<rparr>) = ch_grows b c"
  by (simp_all add: ch_grows_def)

text \<open>A change of a channel record that appends to the queue, unless the channel is closed, within the capacity.\<close>

lemma update_grows:
  assumes k: "k < length (cbInfos b)" and wf: "ch_wf b"
    and q: "ciQueue (f (cbInfos b ! k)) = queue b k @ xs"
    and cl: "ciClosed (cbInfos b ! k) \<Longrightarrow> xs = [] \<and> ciClosed (f (cbInfos b ! k))"
    and len: "length (queue b k @ xs) \<le> cbSize b"
  shows "ch_grows b (info_update k f b)" "ch_wf (info_update k f b)"
proof -
  show "ch_grows b (info_update k f b)"
    unfolding ch_grows_def
  proof (intro conjI allI)
    fix j show "\<exists>ys. queue (info_update k f b) j = queue b j @ ys \<and>
        (ch_closed b j \<longrightarrow> ys = [] \<and> ch_closed (info_update k f b) j)"
      using k q cl closed_update[OF k, of f j] by (cases "j = k") (auto simp: queue_update ch_closed_def[of b])
  qed simp_all
  show "ch_wf (info_update k f b)"
    using wf k q len by (auto simp: ch_wf_def queue_update)
qed

lemma update_quiet:
  assumes "k < length (cbInfos b)" "ch_wf b" "ciQueue (f (cbInfos b ! k)) = ciQueue (cbInfos b ! k)"
    and "ciClosed (cbInfos b ! k) \<Longrightarrow> ciClosed (f (cbInfos b ! k))"
  shows "ch_grows b (info_update k f b)" "ch_wf (info_update k f b)" "queue (info_update k f b) = queue b"
  using update_grows[of k b f "[]"] assms by (simp_all add: queue_update queue_nth ch_wf_def[of b] fun_upd_idem)

lemma getOrCreate:
  assumes "ch_wf b" "getOrCreateChannel p b = (k, b1)"
  shows "ch_grows b b1 \<and> ch_wf b1 \<and> queue b1 = queue b \<and> k < length (cbInfos b1) \<and> cbPersistent b1 = cbPersistent b"
proof (cases "gm_get (cbChannels b) p")
  case None
  have b1: "b1 = b\<lparr>cbInfos := cbInfos b @ [new_info], cbChannels := gm_put p (length (cbInfos b)) (cbChannels b)\<rparr>"
    and k: "k = length (cbInfos b)"
    using assms None by (auto simp: getOrCreateChannel_def)
  have q: "queue b1 = queue b"
    by (auto simp: b1 queue_def fun_eq_iff nth_append new_info_def)
  have c: "ch_closed b1 j" if "ch_closed b j" for j
    using that by (auto simp: b1 ch_closed_def nth_append)
  have "\<forall>j \<in> ran (gm_get (cbChannels b1)). j < length (cbInfos b1)"
  proof
    fix j assume "j \<in> ran (gm_get (cbChannels b1))"
    then obtain p' where "gm_get (cbChannels b1) p' = Some j" by (auto simp: ran_def)
    then have "j = k \<or> gm_get (cbChannels b) p' = Some j"
      by (simp add: b1 k gm_get_put split: if_splits)
    then show "j < length (cbInfos b1)"
      using assms(1) ranI[of "gm_get (cbChannels b)" p' j] by (auto simp: ch_wf_def b1 k less_SucI)
  qed
  then have "ch_wf b1" using assms(1) q by (simp add: ch_wf_def) (simp add: b1)
  then show ?thesis using q c k by (simp add: ch_grows_def) (simp add: b1)
next
  case (Some j)
  then show ?thesis using assms by (auto simp: getOrCreateChannel_def ch_wf_def ranI)
qed

definition ch_quiet :: "ch_backend \<Rightarrow> ch_backend \<Rightarrow> bool" where
  "ch_quiet b b' = (ch_grows b b' \<and> ch_wf b' \<and> queue b' = queue b)"

lemma quiet_refl [simp]: "ch_wf b \<Longrightarrow> ch_quiet b b"
  by (simp add: ch_quiet_def)

lemma quiet_trans: "ch_quiet a b \<Longrightarrow> ch_quiet b c \<Longrightarrow> ch_quiet a c"
  by (auto simp: ch_quiet_def intro: grows_trans)

lemma quiet_len: "ch_quiet a b \<Longrightarrow> length (cbInfos a) \<le> length (cbInfos b)"
  by (simp add: ch_quiet_def ch_grows_def)

lemma quiet_close_info:
  "k < length (cbInfos b) \<Longrightarrow> ch_wf b \<Longrightarrow> ch_quiet b (info_update k close_info b)"
  using update_quiet[of k b close_info] by (simp add: ch_quiet_def close_info_def)

lemma ch_NewWriter_quiet:
  assumes "ch_NewWriter ctx p b = (Inr w, b')" "ch_wf b"
  shows "ch_quiet b b'" "cwInfo w < length (cbInfos b')"
  using assms getOrCreate[of b p]
  by (auto simp: ch_NewWriter_def ch_quiet_def split: option.splits prod.splits)

lemma ch_NewReader_quiet:
  assumes "ch_NewReader ctx p b = (Inr r, b')" "ch_wf b"
  shows "ch_quiet b b'" "crInfo r < length (cbInfos b')"
  using assms getOrCreate[of b p]
  by (auto simp: ch_NewReader_def ch_quiet_def split: option.splits prod.splits)

lemma cw_begin_quiet:
  assumes "cw_begin ctx data w b = (e, b')" "ch_wf b" "cwInfo w < length (cbInfos b)"
  shows "ch_quiet b b'"
proof -
  let ?f = "\<lambda>ci. ci\<lparr>ciBuffered := ciBuffered ci @ [data]\<rparr>"
  have "b' = b \<or> b' = info_update (cwInfo w) ?f b"
    using assms(1) by (auto simp: cw_begin_def Let_def split: if_splits option.splits)
  then show ?thesis
    using update_quiet[of "cwInfo w" b ?f] assms by (auto simp: ch_quiet_def)
qed

lemma cw_send_grows:
  assumes "cw_send data w b = (out, b')" "ch_wf b" "cwInfo w < length (cbInfos b)"
  shows "ch_grows b b'" "ch_wf b'"
proof -
  let ?k = "cwInfo w" let ?f = "\<lambda>ci. ci\<lparr>ciQueue := ciQueue ci @ [data]\<rparr>"
  have "b' = b \<or> (\<not> ciClosed (cbInfos b ! ?k) \<and> length (queue b ?k) < cbSize b \<and> b' = info_update ?k ?f b)"
    using assms by (auto simp: cw_send_def Let_def queue_nth split: if_splits)
  then show "ch_grows b b'" "ch_wf b'"
    using update_grows[of ?k b ?f "[data]"] assms by (auto simp: queue_nth)
qed

lemma cw_Close_quiet:
  assumes "cw_Close w b = (w', b')" "ch_wf b" "cwInfo w < length (cbInfos b)"
  shows "ch_quiet b b'" "cwInfo w' = cwInfo w"
  using assms quiet_close_info[of "cwInfo w" b] by (auto simp: cw_Close_def split: if_splits)

lemma ch_Delete_quiet:
  assumes "ch_Delete ctx p b = (e, b')" "ch_wf b"
  shows "ch_quiet b b'"
proof -
  have *: "ch_quiet b ((info_update k close_info b)\<lparr>cbChannels := gm_del p (cbChannels b)\<rparr>)"
    if "gm_get (cbChannels b) p = Some k" for k
  proof -
    let ?c = "info_update k close_info b" let ?d = "?c\<lparr>cbChannels := gm_del p (cbChannels b)\<rparr>"
    have k: "k < length (cbInfos b)"
      using assms(2) that by (auto simp: ch_wf_def intro: ranI)
    have q: "ch_quiet b ?c" by (rule quiet_close_info[OF k assms(2)])
    have "ran (gm_get (gm_del p (cbChannels b))) \<subseteq> ran (gm_get (cbChannels b))"
      by (auto simp: ran_def gm_get_del split: if_splits)
    then have "ch_wf ?d" using assms(2) q by (auto simp: ch_wf_def ch_quiet_def)
    then show ?thesis using q by (simp add: ch_quiet_def)
  qed
  then show ?thesis using assms by (auto simp: ch_Delete_def split: option.splits)
qed

lemma close_all_quiet:
  assumes "ch_wf b" "\<forall>k \<in> set ks. k < length (cbInfos b)"
  shows "ch_quiet b (fold (\<lambda>k. info_update k close_info) ks b)"
  using assms
proof (induction ks arbitrary: b)
  case (Cons k ks)
  have q: "ch_quiet b (info_update k close_info b)" using Cons.prems by (simp add: quiet_close_info)
  then have "ch_quiet (info_update k close_info b) (fold (\<lambda>k. info_update k close_info) ks (info_update k close_info b))"
    using Cons by (simp add: ch_quiet_def)
  then show ?case using quiet_trans[OF q] by simp
qed simp

lemma ch_Close_quiet:
  assumes "ch_wf b"
  shows "ch_quiet b (ch_Close b)"
proof (cases "cbClosed b")
  case False
  let ?c = "fold (\<lambda>k. info_update k close_info) (map snd (gm_entries (cbChannels b))) b"
  have "\<forall>k \<in> set (map snd (gm_entries (cbChannels b))). k < length (cbInfos b)"
    using assms by (auto simp: ch_wf_def ran_def gm_get_iff_entry)
  then have q: "ch_quiet b ?c" by (rule close_all_quiet[OF assms])
  then have "\<forall>k. length (queue ?c k) \<le> cbSize ?c" by (auto simp: ch_quiet_def ch_wf_def)
  then have "ch_wf (?c\<lparr>cbClosed := True, cbChannels := gm_empty\<rparr>)" by (simp add: ch_wf_def ran_def)
  then show ?thesis using q False by (simp add: ch_Close_def ch_quiet_def)
qed (simp add: ch_Close_def assms)

lemma broadcast_loop_grows:
  assumes "broadcast_loop ctx sel i pre data es b = (e, b')" "ch_wf b"
    and "\<forall>x \<in> set es. snd x < length (cbInfos b)"
  shows "ch_grows b b' \<and> ch_wf b'"
  using assms
proof (induction ctx sel i pre data es b arbitrary: e b' rule: broadcast_loop.induct)
  case (2 ctx sel i pre data p k es b)
  let ?f = "\<lambda>ci. ci\<lparr>ciQueue := ciQueue ci @ [data]\<rparr>"
  have k: "k < length (cbInfos b)" using "2.prems" by simp
  show ?case
  proof (cases "(pre = [] \<or> has_prefix p pre) \<and> \<not> ciClosed (cbInfos b ! k)")
    case go: True
    let ?room = "length (ciQueue (cbInfos b ! k)) < cbSize b"
    let ?b1 = "if ?room then info_update k ?f b else b"
    have g: "ch_grows b ?b1" "ch_wf ?b1" "\<forall>x \<in> set es. snd x < length (cbInfos ?b1)"
      using update_grows[of k b ?f "[data]"] k go "2.prems" by (auto simp: queue_nth)
    consider "ctx i = None \<or> (?room \<and> \<not> sel i)" "broadcast_loop ctx sel (Suc i) pre data es ?b1 = (e, b')"
      | "b' = b"
      using "2.prems"(1) go by (auto simp: Let_def split: option.splits if_splits)
    then show ?thesis
    proof cases
      case 1
      then have "ch_grows ?b1 b' \<and> ch_wf b'"
        using "2.IH"(1,2)[OF go refl refl] g by (cases "ctx i") auto
      then show ?thesis using grows_trans[OF g(1)] by blast
    next
      case 2 then show ?thesis using \<open>ch_wf b\<close> by simp
    qed
  next
    case False
    then have "broadcast_loop ctx sel i pre data es b = (e, b')" using "2.prems"(1) by (simp only: broadcast_loop.simps if_False)
    then show ?thesis using "2.IH"(3)[OF False] "2.prems" by simp
  qed
qed auto

lemma ch_Broadcast_grows:
  assumes "ch_Broadcast ctx sel ord pre data b = (e, b')" "range_order ord" "ch_wf b"
  shows "ch_grows b b'" "ch_wf b'"
proof -
  have "\<forall>x \<in> set (ord (gm_entries (cbChannels b))). snd x < length (cbInfos b)"
    using assms(2,3) by (auto simp: ch_wf_def ran_def gm_get_iff_entry)
  then show "ch_grows b b'" "ch_wf b'"
    using assms broadcast_loop_grows by (auto simp: ch_Broadcast_def ch_checkClosed_def split: if_splits)
qed

text \<open>A \<open>Read\<close> takes at most the first message of the queue, and only then changes the backend.\<close>

lemma cr_Read_step:
  assumes "cr_Read ctx sel n r b = Some (res, got, r', b')" "ch_wf b" "crInfo r < length (cbInfos b)"
  shows "crInfo r' = crInfo r \<and> ch_wf b' \<and> length (cbInfos b') = length (cbInfos b) \<and> cbSize b' = cbSize b \<and>
    ch_closed b' = ch_closed b \<and>
    (case got of None \<Rightarrow> queue b' = queue b
     | Some m \<Rightarrow> \<exists>q. queue b (crInfo r) = m # q \<and> queue b' = (queue b)(crInfo r := q))"
proof -
  let ?f = "\<lambda>q ci. ci\<lparr>ciQueue := q\<rparr>" let ?k = "crInfo r"
  have "(crInfo r' = ?k \<and> got = None \<and> b' = b) \<or>
      (\<exists>m q. crInfo r' = ?k \<and> got = Some m \<and> ciQueue (cbInfos b ! ?k) = m # q \<and> b' = info_update ?k (?f q) b)"
    using assms(1)
    by (auto simp: cr_Read_def cr_receive_def Let_def split: if_splits option.splits list.splits)
  then show ?thesis
  proof (elim disjE exE conjE)
    fix m q assume h: "crInfo r' = ?k" "got = Some m" "ciQueue (cbInfos b ! ?k) = m # q" "b' = info_update ?k (?f q) b"
    have "length (m # q) \<le> cbSize b" using assms(2,3) h(3) by (metis ch_wf_def queue_nth)
    moreover have "ch_closed b' = ch_closed b"
      using assms(3) h(4) by (auto simp: closed_update fun_eq_iff) (auto simp: ch_closed_def)
    ultimately show ?thesis
      using assms(2,3) h queue_update[OF assms(3), of "?f q"] by (auto simp: ch_wf_def queue_nth)
  qed (use assms(2) in auto)
qed

text \<open>The channels the clients hold.\<close>

definition held :: "ch_sys \<Rightarrow> nat set" where
  "held s = (\<lambda>x. cwInfo (fst x)) ` set (csWriters s) \<union> crInfo ` set (csReaders s)"

definition ch_inv :: "ch_sys \<Rightarrow> bool" where
  "ch_inv s =
     (ch_wf (csBackend s) \<and> (\<forall>k \<in> held s. k < length (cbInfos (csBackend s))) \<and>
      (\<forall>k. csSent s k = csReceived s k @ queue (csBackend s) k))"

text \<open>What a step of the system does to a closed channel.\<close>

definition ch_seals :: "ch_sys \<Rightarrow> ch_sys \<Rightarrow> bool" where
  "ch_seals s s' =
     (cbSize (csBackend s') = cbSize (csBackend s) \<and>
      (\<forall>k. ch_closed (csBackend s) k \<longrightarrow>
        ch_closed (csBackend s') k \<and> csSent s' k = csSent s k \<and>
        (queue (csBackend s) k = [] \<longrightarrow> queue (csBackend s') k = [])))"

lemma grows_queue:
  assumes "ch_grows b b'"
  shows "queue b k @ drop (length (queue b k)) (queue b' k) = queue b' k"
proof -
  obtain xs where "queue b' k = queue b k @ xs" using assms by (auto simp: ch_grows_def)
  then show ?thesis by simp
qed

lemma grows_closed:
  assumes "ch_grows b b'" "ch_closed b k"
  shows "ch_closed b' k" "queue b' k = queue b k"
  using assms by (fastforce simp: ch_grows_def)+

lemma sent_more_quiet: "queue b' = queue b \<Longrightarrow> sent_more b b' sent = sent"
  by (simp add: sent_more_def fun_eq_iff)

text \<open>
  Every step but a \<open>Read\<close> changes the backend to one that grew, counts what the queues grew by as
  sent, and keeps the channels of the clients in range.
\<close>

lemma ch_inv_grows:
  assumes inv: "ch_inv s" and g: "ch_grows (csBackend s) (csBackend s')" and wf: "ch_wf (csBackend s')"
    and sent: "csSent s' = sent_more (csBackend s) (csBackend s') (csSent s)"
    and rcv: "csReceived s' = csReceived s"
    and held: "\<forall>k \<in> held s' - held s. k < length (cbInfos (csBackend s'))"
  shows "ch_inv s' \<and> ch_seals s s'"
proof
  have len: "length (cbInfos (csBackend s)) \<le> length (cbInfos (csBackend s'))" using g by (simp add: ch_grows_def)
  have H: "\<And>k. k \<in> held s \<Longrightarrow> k < length (cbInfos (csBackend s))" using inv unfolding ch_inv_def by blast
  have "csSent s' k = csReceived s' k @ queue (csBackend s') k" for k
    using inv unfolding ch_inv_def sent sent_more_def rcv by (simp add: grows_queue[OF g])
  moreover have "k < length (cbInfos (csBackend s'))" if "k \<in> held s'" for k
    using held that less_le_trans[OF H[of k] len] by blast
  ultimately show "ch_inv s'" using wf by (simp add: ch_inv_def)
  show "ch_seals s s'"
    using grows_closed[OF g] g by (auto simp: ch_seals_def sent sent_more_def ch_grows_def[of "csBackend s" "csBackend s'"])
qed

lemma ch_inv_quiet:
  assumes "ch_inv s" "ch_quiet (csBackend s) (csBackend s')" "csSent s' = csSent s" "csReceived s' = csReceived s"
    and "\<forall>k \<in> held s' - held s. k < length (cbInfos (csBackend s'))"
  shows "ch_inv s' \<and> ch_seals s s'"
  using assms(2-4) by (intro ch_inv_grows assms(1,5)) (simp_all add: ch_quiet_def sent_more_quiet)

lemma image_update_same: "i < length xs \<Longrightarrow> f y = f (xs ! i) \<Longrightarrow> f ` set (xs[i := y]) = f ` set xs"
  by (metis list_update_id map_update set_map)

lemma held_writer:
  assumes "i < length (csWriters s)" "csWriters s ! i = (w, d)" "cwInfo w' = cwInfo w"
  shows "(\<lambda>x. cwInfo (fst x)) ` set ((csWriters s)[i := (w', d')]) = (\<lambda>x. cwInfo (fst x)) ` set (csWriters s)"
  using assms by (intro image_update_same) simp_all

lemma held_reader:
  assumes "i < length (csReaders s)" "crInfo r = crInfo (csReaders s ! i)"
  shows "crInfo ` set ((csReaders s)[i := r]) = crInfo ` set (csReaders s)"
  using assms by (intro image_update_same) simp_all

lemma writer_in_range:
  assumes "ch_inv s" "i < length (csWriters s)" "csWriters s ! i = (w, d)"
  shows "cwInfo w < length (cbInfos (csBackend s))"
proof -
  have "cwInfo w \<in> (\<lambda>x. cwInfo (fst x)) ` set (csWriters s)"
    using assms(2,3) nth_mem[of i "csWriters s"] by (intro image_eqI[of _ _ "(w, d)"]) simp_all
  then show ?thesis using assms(1) by (simp add: ch_inv_def held_def)
qed

lemma reader_in_range:
  assumes "ch_inv s" "i < length (csReaders s)"
  shows "crInfo (csReaders s ! i) < length (cbInfos (csBackend s))"
  using assms by (simp add: ch_inv_def held_def)

lemma reads_inv:
  assumes inv: "ch_inv s" and i: "i < length (csReaders s)"
    and rd: "cr_Read ctx sel n (csReaders s ! i) (csBackend s) = Some (res, got, r', b)"
    and s': "s' = s\<lparr>csBackend := b, csReaders := (csReaders s)[i := r'],
                 csReceived := (case got of None \<Rightarrow> csReceived s
                                | Some d \<Rightarrow> (csReceived s)(crInfo (csReaders s ! i) := csReceived s (crInfo (csReaders s ! i)) @ [d]))\<rparr>"
  shows "ch_inv s' \<and> ch_seals s s'"
proof -
  note R = cr_Read_step[OF rd _ reader_in_range[OF inv i]]
  have wf: "ch_wf (csBackend s)" using inv by (simp add: ch_inv_def)
  have "held s' = held s" using R[OF wf] held_reader[OF i] by (simp add: s' held_def)
  moreover have "csSent s' k = csReceived s' k @ queue b k" for k
    using R[OF wf] inv by (cases got) (auto simp: s' ch_inv_def)
  ultimately have "ch_inv s'" using R[OF wf] inv by (simp add: s' ch_inv_def)
  moreover have "ch_seals s s'"
    using R[OF wf] by (cases got) (auto simp: s' ch_seals_def)
  ultimately show ?thesis ..
qed

lemma ch_step_inv:
  assumes "ch_step s s'" and inv: "ch_inv s"
  shows "ch_inv s' \<and> ch_seals s s'"
proof -
  have wf: "ch_wf (csBackend s)" using inv by (simp add: ch_inv_def)
  show ?thesis
    using assms(1)
  proof (cases rule: ch_step.cases)
    case (open_writer ctx p w b)
    then show ?thesis
      using ch_NewWriter_quiet[OF open_writer(2) wf] by (intro ch_inv_quiet inv) (auto simp: held_def)
  next
    case (open_reader ctx p r b)
    then show ?thesis
      using ch_NewReader_quiet[OF open_reader(2) wf] by (intro ch_inv_quiet inv) (auto simp: held_def)
  next
    case (write_begins i w ctx data b)
    then show ?thesis
      using cw_begin_quiet[OF write_begins(4) wf] writer_in_range[OF inv write_begins(2,3)]
      by (intro ch_inv_quiet inv) (simp_all add: held_def held_writer)
  next
    case (write_refused i w ctx data e b)
    then show ?thesis
      using cw_begin_quiet[OF write_refused(4) wf] writer_in_range[OF inv write_refused(2,3)]
      by (intro ch_inv_quiet inv) (simp_all add: held_def)
  next
    case (write_sends i w data b)
    then show ?thesis
      using cw_send_grows[OF write_sends(4) wf] writer_in_range[OF inv write_sends(2,3)]
      by (intro ch_inv_grows inv) (simp_all add: held_def held_writer)
  next
    case (write_cancelled i w data)
    then show ?thesis using wf by (intro ch_inv_quiet inv) (simp_all add: held_def held_writer)
  next
    case (write_panics i w data b)
    then show ?thesis using wf by (intro ch_inv_quiet inv) (simp_all add: held_def)
  next
    case (writer_closes i w w' b)
    then show ?thesis
      using cw_Close_quiet[OF writer_closes(4) wf] writer_in_range[OF inv writer_closes(2,3)]
      by (intro ch_inv_quiet inv) (simp_all add: held_def held_writer)
  next
    case (reads i ctx sel n res got r' b)
    show ?thesis by (rule reads_inv[OF inv reads(2,3,1)])
  next
    case (reader_closes i)
    then show ?thesis using wf by (intro ch_inv_quiet inv) (simp_all add: held_def held_reader cr_Close_def)
  next
    case (deletes ctx p e b)
    then show ?thesis
      using ch_Delete_quiet[OF deletes(2) wf] by (intro ch_inv_quiet inv) (simp_all add: held_def)
  next
    case closes
    then show ?thesis
      using ch_Close_quiet[OF wf] by (intro ch_inv_quiet inv) (simp_all add: held_def)
  next
    case (broadcasts ord ctx sel pre data e b)
    then show ?thesis
      using ch_Broadcast_grows[OF broadcasts(3,2) wf] by (intro ch_inv_grows inv) (simp_all add: held_def)
  qed
qed

lemma ch_steps_inv: "ch_step\<^sup>*\<^sup>* s s' \<Longrightarrow> ch_inv s \<Longrightarrow> ch_inv s' \<and> ch_seals s s'"
proof (induction rule: rtranclp_induct)
  case base then show ?case by (simp add: ch_seals_def)
next
  case (step y z)
  then show ?case using ch_step_inv[of y z] by (simp add: ch_seals_def)
qed

lemma ch_init_inv: "ch_inv (ch_init cap pers)"
  by (simp add: ch_init_def ch_inv_def held_def ch_wf_def queue_def ran_def ch_New_def ch_WithBufferSize_def WithPersistence_def)

lemma ch_reach_inv:
  assumes "ch_reach cap pers s"
  shows "ch_inv s" "cbSize (csBackend s) = cap"
  using ch_steps_inv[of "ch_init cap pers" s] ch_init_inv assms
  by (simp_all add: ch_reach_def ch_seals_def) (simp add: ch_init_def ch_New_def ch_WithBufferSize_def WithPersistence_def)


text \<open>A run of the backend: a writer sends a message and closes, and a reader receives it.\<close>

definition sample_writer :: channelWriter where
  "sample_writer = \<lparr>cwInfo = 0, cwPath = ''p'', cwClosed = False\<rparr>"

definition sample_reader :: channelReader where
  "sample_reader = \<lparr>crInfo = 0, crPath = ''p'', crBuffer = [], crCurrent = [1], crOffset = 1, crClosed = False\<rparr>"

definition sample_backend :: "channelInfo \<Rightarrow> ch_backend" where
  "sample_backend ci =
     \<lparr>cbChannels = gm_put ''p'' 0 gm_empty, cbInfos = [ci], cbSize = 1, cbPersistent = False, cbClosed = False\<rparr>"

definition sample_sys :: "channelInfo \<Rightarrow> (channelWriter \<times> bytes option) list \<Rightarrow> channelReader list \<Rightarrow>
    bytes list \<Rightarrow> bytes list \<Rightarrow> ch_sys" where
  "sample_sys ci ws rs snt rcv =
     \<lparr>csBackend = sample_backend ci, csWriters = ws, csReaders = rs,
      csSent = (\<lambda>k. []) (0 := snt), csReceived = (\<lambda>k. []) (0 := rcv), csPanic = False\<rparr>"

abbreviation sample_info :: "bytes list \<Rightarrow> bool \<Rightarrow> channelInfo" where
  "sample_info q c \<equiv> \<lparr>ciQueue = q, ciClosed = c, ciBuffered = []\<rparr>"

lemmas sample_defs = sample_sys_def sample_backend_def sample_writer_def sample_reader_def

lemma sample_open:
  "ch_step\<^sup>*\<^sup>* (ch_init 1 False) (sample_sys (sample_info [] False) [(sample_writer, None)] [] [] [])"
proof -
  have "ch_NewWriter (\<lambda>_. None) ''p'' (csBackend (ch_init 1 False)) = (Inr sample_writer, sample_backend new_info)"
    by (simp add: ch_init_def ch_New_def ch_WithBufferSize_def WithPersistence_def ch_NewWriter_def ch_checkClosed_def
        getOrCreateChannel_def sample_defs)
  from ch_step.open_writer[OF this] show ?thesis
    by (intro r_into_rtranclp) (simp add: ch_init_def sample_sys_def new_info_def fun_upd_idem)
qed

lemma sample_sent:
  "sent_more (sample_backend (sample_info [] False)) (sample_backend (sample_info [[1]] False)) ((\<lambda>k. []) (0 := [])) =
   (\<lambda>k. []) (0 := [[1]])"
  by (auto simp: fun_eq_iff sent_more_def queue_def sample_backend_def)

lemma sample_send:
  "ch_step\<^sup>*\<^sup>* (sample_sys (sample_info [] False) [(sample_writer, None)] [] [] [])
     (sample_sys (sample_info [[1]] False) [(sample_writer, None)] [] [[1]] [])"
proof -
  let ?s = "sample_sys (sample_info [] False) [(sample_writer, None)] [] [] []"
  let ?t = "sample_sys (sample_info [] False) [(sample_writer, Some [1])] [] [] []"
  have 1: "ch_step ?s ?t"
    using ch_step.write_begins[of 0 ?s sample_writer "\<lambda>_. None" "[1]" "csBackend ?s"]
    by (simp add: sample_defs cw_begin_def)
  have "cw_send [1] sample_writer (csBackend ?t) = (Sent, sample_backend (sample_info [[1]] False))"
    by (simp add: sample_defs cw_send_def info_update_def)
  then have 2: "ch_step ?t (sample_sys (sample_info [[1]] False) [(sample_writer, None)] [] [[1]] [])"
    using ch_step.write_sends[of 0 ?t sample_writer "[1]"] by (simp add: sample_sys_def sample_sent)
  show ?thesis by (rule converse_rtranclp_into_rtranclp[of ch_step, OF 1 r_into_rtranclp[of ch_step, OF 2]])
qed

text \<open>The first reader of the path, the message read, and the end of the stream.\<close>

lemma sample_finish:
  "ch_step\<^sup>*\<^sup>* (sample_sys (sample_info [[1]] False) [(sample_writer, None)] [] [[1]] [])
     (sample_sys (sample_info [] True) [(sample_writer\<lparr>cwClosed := True\<rparr>, None)] [sample_reader] [[1]] [[1]])"
proof -
  let ?w = "sample_writer\<lparr>cwClosed := True\<rparr>"
  let ?r = "sample_reader\<lparr>crCurrent := [], crOffset := 0\<rparr>"
  let ?s = "sample_sys (sample_info [[1]] False) [(sample_writer, None)] [] [[1]] []"
  let ?t = "sample_sys (sample_info [[1]] True) [(?w, None)] [] [[1]] []"
  let ?u = "sample_sys (sample_info [[1]] True) [(?w, None)] [?r] [[1]] []"
  have "cw_Close sample_writer (csBackend ?s) = (?w, csBackend ?t)"
    by (simp add: sample_defs cw_Close_def info_update_def close_info_def)
  then have 1: "ch_step ?s ?t"
    using ch_step.writer_closes[of 0 ?s sample_writer] by (simp add: sample_sys_def)
  have "ch_NewReader (\<lambda>_. None) ''p'' (csBackend ?t) = (Inr ?r, csBackend ?t)"
    by (simp add: sample_defs ch_NewReader_def ch_checkClosed_def getOrCreateChannel_def gm_get_put)
  then have 2: "ch_step ?t ?u"
    using ch_step.open_reader[of "\<lambda>_. None" "''p''" ?t ?r] by (simp add: sample_sys_def)
  have "cr_Read (\<lambda>_. None) False 1 ?r (csBackend ?u) =
      Some (([1], None), Some [1], sample_reader, sample_backend (sample_info [] True))"
    by (simp add: sample_defs cr_Read_def cr_receive_def info_update_def)
  then have 3: "ch_step ?u (sample_sys (sample_info [] True) [(?w, None)] [sample_reader] [[1]] [[1]])"
    using ch_step.reads[of 0 ?u "\<lambda>_. None" False 1] by (simp add: sample_sys_def) (simp add: sample_reader_def)
  show ?thesis
    by (rule converse_rtranclp_into_rtranclp[of ch_step, OF 1
          converse_rtranclp_into_rtranclp[of ch_step, OF 2 r_into_rtranclp[of ch_step, OF 3]]])
qed

lemma sample_reach:
  "ch_reach 1 False (sample_sys (sample_info [] True) [(sample_writer\<lparr>cwClosed := True\<rparr>, None)] [sample_reader] [[1]] [[1]])"
  using rtranclp_trans[OF rtranclp_trans[OF sample_open sample_send] sample_finish] by (simp add: ch_reach_def)


lemma cr_Read_eof:
  assumes "cr_Read ctx sel n r b = Some ((d, Some EOF), got, r', b')" "\<forall>i. ctx i \<noteq> Some EOF"
  shows "ciQueue (cbInfos b ! crInfo r) = [] \<and> ciClosed (cbInfos b ! crInfo r)"
  using assms
  by (auto simp: cr_Read_def cr_receive_def Let_def split: if_splits option.splits list.splits)

text \<open>C34: A reader is told the stream is over only when it is: when \<open>Read\<close> returns \<open>io.EOF\<close> the channel is closed and everything sent on it has been received, and after any further steps of the system, by whatever writers, readers or \<open>Broadcast\<close>, nothing more has been sent on it or received from it.\<close>

theorem channel_eof_final:
  assumes "ch_reach cap pers s" and "i < length (csReaders s)"
    and "cr_Read ctx sel n (csReaders s ! i) (csBackend s) = Some ((d, Some EOF), got, r', b')"
    and "\<forall>j. ctx j \<noteq> Some EOF"
    and "ch_step\<^sup>*\<^sup>* s s'"
  shows "csReceived s (crInfo (csReaders s ! i)) = csSent s (crInfo (csReaders s ! i)) \<and>
    csSent s' (crInfo (csReaders s ! i)) = csSent s (crInfo (csReaders s ! i)) \<and>
    csReceived s' (crInfo (csReaders s ! i)) = csSent s (crInfo (csReaders s ! i))"
proof -
  let ?k = "crInfo (csReaders s ! i)"
  have inv: "ch_inv s" by (rule ch_reach_inv(1)[OF assms(1)])
  have k: "ch_closed (csBackend s) ?k" "queue (csBackend s) ?k = []"
    using cr_Read_eof[OF assms(3,4)] reader_in_range[OF inv assms(2)] by (simp_all add: ch_closed_def queue_def)
  have s': "ch_inv s'" "ch_seals s s'" using ch_steps_inv[OF assms(5) inv] by simp_all
  then have "csSent s' ?k = csSent s ?k" "queue (csBackend s') ?k = []" using k by (simp_all add: ch_seals_def)
  moreover have "csSent s ?k = csReceived s ?k" "csSent s' ?k = csReceived s' ?k @ queue (csBackend s') ?k"
    using inv s'(1) k(2) by (simp_all add: ch_inv_def)
  ultimately show ?thesis by simp
qed

text \<open>The reader of the sample run at the end of its stream, before and after the backend is closed.\<close>

theorem channel_eof_final_witness:
  "(let s = sample_sys (sample_info [] True) [(sample_writer\<lparr>cwClosed := True\<rparr>, None)] [sample_reader] [[1]] [[1]];
        s' = s\<lparr>csBackend := ch_Close (csBackend s)\<rparr>
    in csReceived s (crInfo (csReaders s ! 0)) = csSent s (crInfo (csReaders s ! 0)) \<and>
       csSent s' (crInfo (csReaders s ! 0)) = csSent s (crInfo (csReaders s ! 0)) \<and>
       csReceived s' (crInfo (csReaders s ! 0)) = csSent s (crInfo (csReaders s ! 0)))"
proof -
  let ?s = "sample_sys (sample_info [] True) [(sample_writer\<lparr>cwClosed := True\<rparr>, None)] [sample_reader] [[1]] [[1]]"
  have rd: "cr_Read (\<lambda>_. None) False 8 (csReaders ?s ! 0) (csBackend ?s) =
      Some (([], Some EOF), None, csReaders ?s ! 0, csBackend ?s)"
    by (simp add: sample_defs cr_Read_def cr_receive_def)
  show ?thesis
    unfolding Let_def
    by (rule channel_eof_final[OF sample_reach _ rd _ r_into_rtranclp[of ch_step, OF ch_step.closes]])
      (simp_all add: sample_sys_def)
qed

text \<open>C35: A \<open>Write\<close> checks that its channel is open before it sends, and holds no lock across the two: in every reachable state in which one writer is past the check and another writer of the same path is open, the second writer's \<open>Close\<close> followed by the first writer's send on the closed channel panics the goroutine.\<close>

theorem channel_send_panics:
  assumes "ch_reach cap pers s"
    and "i < length (csWriters s)" and "csWriters s ! i = (w, Some data)"
    and "j < length (csWriters s)" and "csWriters s ! j = (v, None)" and "\<not> cwClosed v"
    and "cwInfo v = cwInfo w"
  shows "\<exists>s'. ch_step\<^sup>*\<^sup>* s s' \<and> ch_reach cap pers s' \<and> csPanic s'"
proof -
  obtain v' b where cl: "cw_Close v (csBackend s) = (v', b)" by fastforce
  let ?t = "s\<lparr>csBackend := b, csWriters := (csWriters s)[j := (v', None)]\<rparr>"
  have 1: "ch_step s ?t" by (rule ch_step.writer_closes[OF assms(4,5) cl])
  have k: "cwInfo w < length (cbInfos (csBackend s))"
    by (rule writer_in_range[OF ch_reach_inv(1)[OF assms(1)] assms(2,3)])
  have "b = info_update (cwInfo w) close_info (csBackend s)"
    using cl assms(6,7) by (auto simp: cw_Close_def)
  then have "ciClosed (cbInfos b ! cwInfo w)"
    using k by (simp add: info_update_def close_info_def)
  then have "cw_send data w (csBackend ?t) = (SendPanics, b)" by (simp add: cw_send_def)
  moreover have "i \<noteq> j" using assms(3,5) by auto
  ultimately have 2: "ch_step ?t (?t\<lparr>csPanic := True\<rparr>)"
    using ch_step.write_panics[of i ?t w data b] assms(2,3) by simp
  have steps: "ch_step\<^sup>*\<^sup>* s (?t\<lparr>csPanic := True\<rparr>)"
    by (rule converse_rtranclp_into_rtranclp[of ch_step, OF 1 r_into_rtranclp[of ch_step, OF 2]])
  then show ?thesis
    using assms(1) by (intro exI[of _ "?t\<lparr>csPanic := True\<rparr>"]) (auto simp: ch_reach_def)
qed

lemma sample_pair:
  "ch_reach 1 False (sample_sys (sample_info [] False) [(sample_writer, Some [1]), (sample_writer, None)] [] [] [])"
proof -
  let ?s = "sample_sys (sample_info [] False) [(sample_writer, None)] [] [] []"
  let ?t = "sample_sys (sample_info [] False) [(sample_writer, None), (sample_writer, None)] [] [] []"
  have "ch_NewWriter (\<lambda>_. None) ''p'' (csBackend ?s) = (Inr sample_writer, csBackend ?s)"
    by (simp add: sample_defs ch_NewWriter_def ch_checkClosed_def getOrCreateChannel_def gm_get_put)
  then have 1: "ch_step ?s ?t"
    using ch_step.open_writer[of "\<lambda>_. None" "''p''" ?s sample_writer] by (simp add: sample_sys_def)
  have 2: "ch_step ?t (sample_sys (sample_info [] False) [(sample_writer, Some [1]), (sample_writer, None)] [] [] [])"
    using ch_step.write_begins[of 0 ?t sample_writer "\<lambda>_. None" "[1]" "csBackend ?t"]
    by (simp add: sample_defs cw_begin_def)
  show ?thesis
    using rtranclp_trans[OF sample_open
        converse_rtranclp_into_rtranclp[of ch_step, OF 1 r_into_rtranclp[of ch_step, OF 2]]]
    by (simp add: ch_reach_def)
qed

text \<open>Two writers of one path, the first past its check.\<close>

theorem channel_send_panics_witness:
  "\<exists>s'. ch_step\<^sup>*\<^sup>* (sample_sys (sample_info [] False) [(sample_writer, Some [1]), (sample_writer, None)] [] [] []) s' \<and>
     ch_reach 1 False s' \<and> csPanic s'"
  by (rule channel_send_panics[OF sample_pair, of 0 sample_writer "[1]" 1 sample_writer]) (simp_all add: sample_sys_def sample_writer_def)

subsection \<open>Reading to the end\<close>

text \<open>
  The client's loops, with contexts that are not cancelled: \<open>Write\<close> of several messages, \<open>None\<close> where one
  would wait or fail, and reads into a buffer of \<open>n\<close> bytes up to the first error.
\<close>

fun cw_Writes :: "bytes list \<Rightarrow> channelWriter \<Rightarrow> ch_backend \<Rightarrow> ch_backend option" where
  "cw_Writes [] w b = Some b"
| "cw_Writes (d # ds) w b =
     (case cw_begin (\<lambda>_. None) d w b of
        (None, b1) \<Rightarrow> (case cw_send d w b1 of (Sent, b2) \<Rightarrow> cw_Writes ds w b2 | _ \<Rightarrow> None)
      | _ \<Rightarrow> None)"

fun ch_drain :: "nat \<Rightarrow> nat \<Rightarrow> channelReader \<Rightarrow> ch_backend \<Rightarrow> (bytes \<times> object_error) option" where
  "ch_drain 0 n r b = None"
| "ch_drain (Suc f) n r b =
     (case cr_Read (\<lambda>_. None) False n r b of
        None \<Rightarrow> None
      | Some ((d, Some e), _) \<Rightarrow> Some (d, e)
      | Some ((d, None), _, r', b') \<Rightarrow> map_option (\<lambda>(ds, e). (d @ ds, e)) (ch_drain f n r' b'))"

definition ch_session :: "bool \<Rightarrow> nat \<Rightarrow> path \<Rightarrow> bytes list \<Rightarrow> nat \<Rightarrow> nat \<Rightarrow> (bytes \<times> object_error) option" where
  "ch_session pers cap p ds n f =
     (case ch_NewWriter (\<lambda>_. None) p (ch_New [ch_WithBufferSize cap, WithPersistence pers]) of
        (Inl e, _) \<Rightarrow> None
      | (Inr w, b1) \<Rightarrow>
          (case cw_Writes ds w b1 of
             None \<Rightarrow> None
           | Some b2 \<Rightarrow>
               (case ch_NewReader (\<lambda>_. None) p (snd (cw_Close w b2)) of
                  (Inl e, _) \<Rightarrow> None
                | (Inr r, b3) \<Rightarrow> ch_drain f n r b3)))"

definition left_over :: "channelReader \<Rightarrow> bytes" where
  "left_over r = drop (crOffset r) (crCurrent r)"

lemma ch_drain_closed:
  assumes "0 < n" "\<not> crClosed r" "ch_wf b" "crInfo r < length (cbInfos b)" "ch_closed b (crInfo r)"
    and "length (crBuffer r) + length (left_over r) + sum_list (map (\<lambda>m. Suc (length m)) (queue b (crInfo r))) < f"
  shows "ch_drain f n r b = Some (crBuffer r @ left_over r @ concat (queue b (crInfo r)), EOF)"
  using assms(2-)
proof (induction f arbitrary: r b)
  case (Suc f)
  let ?k = "crInfo r"
  consider (buffer) "crBuffer r \<noteq> []"
    | (current) "crBuffer r = []" "crOffset r < length (crCurrent r)"
    | (message) m q where "crBuffer r = []" "left_over r = []" "queue b ?k = m # q"
    | (over) "crBuffer r = []" "left_over r = []" "queue b ?k = []"
    by (cases "queue b ?k"; cases "crBuffer r = []"; cases "crOffset r < length (crCurrent r)")
      (auto simp: left_over_def)
  then show ?case
  proof cases
    case buffer
    let ?r = "r\<lparr>crBuffer := drop n (crBuffer r)\<rparr>"
    have "length (drop n (crBuffer r)) < length (crBuffer r)" using buffer assms(1) by simp
    then have "ch_drain f n ?r b = Some (crBuffer ?r @ left_over ?r @ concat (queue b (crInfo ?r)), EOF)"
      using Suc.prems by (intro Suc.IH) (simp_all add: left_over_def)
    then show ?thesis using buffer Suc.prems
      by (simp add: cr_Read_def left_over_def flip: append_assoc)
  next
    case current
    let ?r = "r\<lparr>crOffset := crOffset r + min (length (left_over r)) n\<rparr>"
    have lo: "left_over ?r = drop n (left_over r)"
      by (cases "n \<le> length (left_over r)") (auto simp: left_over_def add.commute)
    have "length (left_over ?r) < length (left_over r)"
      using current assms(1) unfolding lo by (simp add: left_over_def)
    then have "ch_drain f n ?r b = Some (crBuffer ?r @ left_over ?r @ concat (queue b (crInfo ?r)), EOF)"
      using Suc.prems by (intro Suc.IH) simp_all
    then show ?thesis using current Suc.prems
      by (simp add: cr_Read_def lo Let_def flip: left_over_def)
  next
    case (message m q)
    let ?r = "r\<lparr>crCurrent := m, crOffset := min (length m) n\<rparr>"
    let ?b = "info_update ?k (\<lambda>ci. ci\<lparr>ciQueue := q\<rparr>) b"
    have rd: "cr_Read (\<lambda>_. None) False n r b = Some ((take n m, None), Some m, ?r, ?b)"
      using message Suc.prems by (simp add: cr_Read_def cr_receive_def queue_nth left_over_def)
    have lo: "left_over ?r = drop n m" by (cases "n \<le> length m") (auto simp: left_over_def)
    have q: "queue ?b ?k = q" using Suc.prems(3) by (simp add: queue_update)
    note R = cr_Read_step[OF rd Suc.prems(2,3)]
    have "ch_drain f n ?r ?b = Some (crBuffer ?r @ left_over ?r @ concat (queue ?b (crInfo ?r)), EOF)"
      using Suc.prems R message q by (intro Suc.IH) (simp_all add: lo left_over_def[of r])
    then show ?thesis using message rd by (simp add: lo q) 
  next
    case over
    then show ?thesis using Suc.prems
      by (simp add: cr_Read_def cr_receive_def queue_nth left_over_def ch_closed_def)
  qed
qed simp

lemma cw_Writes_ok:
  assumes "cwClosed w = False" "cwInfo w = 0" "cbInfos b = [\<lparr>ciQueue = q, ciClosed = False, ciBuffered = bf\<rparr>]"
    and "length q + length ds \<le> cbSize b"
  shows "cw_Writes ds w b =
    Some (b\<lparr>cbInfos := [\<lparr>ciQueue = q @ ds, ciClosed = False, ciBuffered = (if cbPersistent b then bf @ ds else bf)\<rparr>]\<rparr>)"
  using assms
proof (induction ds arbitrary: b q bf)
  case (Cons d ds)
  let ?b = "b\<lparr>cbInfos := [\<lparr>ciQueue = q @ [d], ciClosed = False, ciBuffered = (if cbPersistent b then bf @ [d] else bf)\<rparr>]\<rparr>"
  have "cw_Writes (d # ds) w b = cw_Writes ds w ?b"
    using Cons.prems by (simp add: cw_begin_def cw_send_def info_update_def Let_def)
  then show ?case using Cons.prems by (simp add: Cons.IH)
qed simp

lemma length_concat_sum: "sum_list (map (\<lambda>m. Suc (length m)) ds) = length (concat ds) + length ds"
  by (induction ds) auto

text \<open>C36: What is written to a fresh path, closed, and then read to the end in pieces of any size is the bytes written, in order, for all messages that fit the capacity, and the reads do end. With persistence they come twice: the reader is given the buffered messages and then receives the same messages from the channel.\<close>

theorem channel_session:
  assumes "p \<noteq> []" and "length ds \<le> cap" and "0 < n"
    and "2 * length (concat ds) + length ds < f"
  shows "ch_session pers cap p ds n f = Some ((if pers then concat ds else []) @ concat ds, EOF)"
proof -
  let ?start = "ch_New [ch_WithBufferSize cap, WithPersistence pers]"
  let ?w = "\<lparr>cwInfo = 0, cwPath = p, cwClosed = False\<rparr>"
  let ?m = "gm_put p 0 gm_empty"
  let ?b = "\<lambda>c q bf. \<lparr>cbChannels = ?m, cbInfos = [\<lparr>ciQueue = q, ciClosed = c, ciBuffered = bf\<rparr>], cbSize = cap,
      cbPersistent = pers, cbClosed = False\<rparr>"
  let ?bf = "if pers then ds else []"
  let ?r = "\<lparr>crInfo = 0, crPath = p, crBuffer = concat ?bf, crCurrent = [], crOffset = 0, crClosed = False\<rparr>"
  have w: "ch_NewWriter (\<lambda>_. None) p ?start = (Inr ?w, ?b False [] [])"
    using assms(1) by (simp add: ch_New_def ch_WithBufferSize_def WithPersistence_def ch_NewWriter_def
        ch_checkClosed_def getOrCreateChannel_def new_info_def)
  have ws: "cw_Writes ds ?w (?b False [] []) = Some (?b False ds ?bf)"
    using cw_Writes_ok[of ?w "?b False [] []" "[]" "[]" ds] assms(2) by simp
  have c: "snd (cw_Close ?w (?b False ds ?bf)) = ?b True ds ?bf"
    by (simp add: cw_Close_def info_update_def close_info_def)
  have r: "ch_NewReader (\<lambda>_. None) p (?b True ds ?bf) = (Inr ?r, ?b True ds ?bf)"
    using assms(1) by (simp add: ch_NewReader_def ch_checkClosed_def getOrCreateChannel_def gm_get_put)
  have q: "queue (?b True ds ?bf) = (\<lambda>k. []) (0 := ds)" by (auto simp: queue_def fun_eq_iff)
  have "ch_wf (?b True ds ?bf)"
    using assms(2) by (simp add: ch_wf_def ran_def gm_get_put q)
  then have "ch_drain f n ?r (?b True ds ?bf) = Some (concat ?bf @ concat ds, EOF)"
    using ch_drain_closed[of n ?r "?b True ds ?bf" f] assms(3,4)
    by (simp add: q left_over_def length_concat_sum ch_closed_def split: if_splits)
  then show ?thesis
    by (simp add: ch_session_def w ws c r)
qed

text \<open>Two messages and an empty one through a channel of three, read three bytes at a time.\<close>

theorem channel_session_witness:
  "ch_session False 3 ''p'' [[1, 2, 3, 4], [], [5]] 3 20 = Some ([1, 2, 3, 4, 5], EOF) \<and>
   ch_session True 3 ''p'' [[1, 2], [3]] 2 20 = Some ([1, 2, 3, 1, 2, 3], EOF)"
  using channel_session[of "''p''" "[[1, 2, 3, 4], [], [5]]" 3 3 20 False]
    channel_session[of "''p''" "[[1, 2], [3]]" 3 2 20 True] by simp

end
