(* ===== verification/FileSystem.thy ===== *)
theory FileSystem
  imports BackendInterface
begin

section \<open>The file system behind package \<open>os\<close>\<close>

text \<open>
  What the file backend uses of packages \<open>os\<close> and \<open>path/filepath\<close>, on a tree of directories and files
  as POSIX describes it (no links, and names that are compared exactly). A location is the list of
  names from the root; a file name in a directory refers to an inode, and an open file to the inode
  and an offset, so that renaming or removing a name does not touch an open file and truncating a
  file is seen by its readers. \<open>fsFault\<close> lets the system refuse any call with any error (permissions,
  other devices, a full disk); what it reports as size and time of a directory is \<open>fsDirStat\<close>.
\<close>

datatype os_error = ENOENT | EACCES | EEXIST | ENOTDIR | EISDIR | ENOTEMPTY | EINVAL | EBADF | EXDEV | EIO

type_synonym 'a os_res = "os_error + 'a"

definition IsNotExist :: "os_error \<Rightarrow> bool" where "IsNotExist e = (e = ENOENT)"

definition IsPermission :: "os_error \<Rightarrow> bool" where "IsPermission e = (e = EACCES)"

type_synonym location = "string list"

datatype fs_node = FDir | FFile nat

datatype os_op = OpStat | OpMkdir | OpCreate | OpOpen | OpRemove | OpRename | OpReadDir

record fs_inode =
  inData :: bytes
  inTime :: time

record fs_handle =
  fhInode :: "nat option"
  fhOffset :: nat
  fhOpen :: bool

record fsys =
  fsNodes :: "(location, fs_node) gomap"
  fsInodes :: "fs_inode list"
  fsHandles :: "fs_handle list"
  fsCwd :: location
  fsNow :: time
  fsFault :: "os_op \<Rightarrow> location \<Rightarrow> os_error option"
  fsDirStat :: "location \<Rightarrow> int \<times> time"

record FileStat =
  stSize :: int
  stModTime :: time
  stIsDir :: bool

subsection \<open>Looking up\<close>

definition locate :: "fsys \<Rightarrow> path \<Rightarrow> location" where
  "locate fs p =
     clean_comps True (if is_rooted p then split_on slash p else fsCwd fs @ split_on slash p)"

definition node_at :: "fsys \<Rightarrow> location \<Rightarrow> fs_node option" where
  "node_at fs loc = (if loc = [] then Some FDir else gm_get (fsNodes fs) loc)"

text \<open>The walk along the names of a path: all but the last must be directories.\<close>

fun find_from :: "fsys \<Rightarrow> location \<Rightarrow> location \<Rightarrow> fs_node os_res" where
  "find_from fs at [] = (case node_at fs at of None \<Rightarrow> Inl ENOENT | Some n \<Rightarrow> Inr n)"
| "find_from fs at (c # cs) =
     (case node_at fs at of
        None \<Rightarrow> Inl ENOENT
      | Some (FFile _) \<Rightarrow> Inl ENOTDIR
      | Some FDir \<Rightarrow> find_from fs (at @ [c]) cs)"

abbreviation find_node :: "fsys \<Rightarrow> location \<Rightarrow> fs_node os_res" where
  "find_node fs loc \<equiv> find_from fs [] loc"

definition node_stat :: "fsys \<Rightarrow> location \<Rightarrow> fs_node \<Rightarrow> FileStat" where
  "node_stat fs loc n =
     (case n of
        FDir \<Rightarrow> \<lparr>stSize = fst (fsDirStat fs loc), stModTime = snd (fsDirStat fs loc), stIsDir = True\<rparr>
      | FFile i \<Rightarrow> \<lparr>stSize = int (length (inData (fsInodes fs ! i))), stModTime = inTime (fsInodes fs ! i), stIsDir = False\<rparr>)"

definition os_Stat :: "path \<Rightarrow> fsys \<Rightarrow> FileStat os_res" where
  "os_Stat p fs =
     (let loc = locate fs p
      in case fsFault fs OpStat loc of
           Some e \<Rightarrow> Inl e
         | None \<Rightarrow> (case find_node fs loc of Inl e \<Rightarrow> Inl e | Inr n \<Rightarrow> Inr (node_stat fs loc n)))"

definition child_names :: "fsys \<Rightarrow> location \<Rightarrow> string list" where
  "child_names fs loc = sort (map last (filter (\<lambda>k. k \<noteq> [] \<and> butlast k = loc) (gm_keys (fsNodes fs))))"

text \<open>\<open>readDirNames\<close> of \<open>filepath\<close>: the names of a directory, sorted.\<close>

definition os_ReadDirNames :: "path \<Rightarrow> fsys \<Rightarrow> string list os_res" where
  "os_ReadDirNames p fs =
     (let loc = locate fs p
      in case fsFault fs OpReadDir loc of
           Some e \<Rightarrow> Inl e
         | None \<Rightarrow>
             (case find_node fs loc of
                Inl e \<Rightarrow> Inl e
              | Inr FDir \<Rightarrow> Inr (child_names fs loc)
              | Inr (FFile _) \<Rightarrow> Inl ENOTDIR))"

subsection \<open>Directories\<close>

definition put_node :: "location \<Rightarrow> fs_node \<Rightarrow> fsys \<Rightarrow> fsys" where
  "put_node loc n fs = fs\<lparr>fsNodes := gm_put loc n (fsNodes fs)\<rparr>"

fun mkdirs_from :: "location \<Rightarrow> location \<Rightarrow> fsys \<Rightarrow> os_error option \<times> fsys" where
  "mkdirs_from at [] fs = (None, fs)"
| "mkdirs_from at (c # cs) fs =
     (case node_at fs (at @ [c]) of
        Some FDir \<Rightarrow> mkdirs_from (at @ [c]) cs fs
      | Some (FFile _) \<Rightarrow> (Some ENOTDIR, fs)
      | None \<Rightarrow>
          (case fsFault fs OpMkdir (at @ [c]) of
             Some e \<Rightarrow> (Some e, fs)
           | None \<Rightarrow> mkdirs_from (at @ [c]) cs (put_node (at @ [c]) FDir fs)))"

definition os_MkdirAll :: "path \<Rightarrow> fsys \<Rightarrow> os_error option \<times> fsys" where
  "os_MkdirAll p fs = mkdirs_from [] (locate fs p) fs"

subsection \<open>Open files\<close>

definition open_handle :: "nat option \<Rightarrow> fsys \<Rightarrow> nat \<times> fsys" where
  "open_handle i fs =
     (length (fsHandles fs), fs\<lparr>fsHandles := fsHandles fs @ [\<lparr>fhInode = i, fhOffset = 0, fhOpen = True\<rparr>]\<rparr>)"

text \<open>\<open>os.OpenFile\<close> with \<open>O_WRONLY | O_CREATE | O_TRUNC\<close>.\<close>

definition os_Create :: "path \<Rightarrow> fsys \<Rightarrow> nat os_res \<times> fsys" where
  "os_Create p fs =
     (let loc = locate fs p
      in case fsFault fs OpCreate loc of
           Some e \<Rightarrow> (Inl e, fs)
         | None \<Rightarrow>
             if loc = [] then (Inl EISDIR, fs)
             else (case find_node fs (butlast loc) of
                     Inl e \<Rightarrow> (Inl e, fs)
                   | Inr (FFile _) \<Rightarrow> (Inl ENOTDIR, fs)
                   | Inr FDir \<Rightarrow>
                       (case node_at fs loc of
                          Some FDir \<Rightarrow> (Inl EISDIR, fs)
                        | Some (FFile i) \<Rightarrow>
                            (case open_handle (Some i) (fs\<lparr>fsInodes := (fsInodes fs)[i := \<lparr>inData = [], inTime = fsNow fs\<rparr>]\<rparr>) of
                               (h, fs') \<Rightarrow> (Inr h, fs'))
                        | None \<Rightarrow>
                            (case open_handle (Some (length (fsInodes fs)))
                                    (put_node loc (FFile (length (fsInodes fs)))
                                      (fs\<lparr>fsInodes := fsInodes fs @ [\<lparr>inData = [], inTime = fsNow fs\<rparr>]\<rparr>)) of
                               (h, fs') \<Rightarrow> (Inr h, fs')))))"

definition os_Open :: "path \<Rightarrow> fsys \<Rightarrow> nat os_res \<times> fsys" where
  "os_Open p fs =
     (let loc = locate fs p
      in case fsFault fs OpOpen loc of
           Some e \<Rightarrow> (Inl e, fs)
         | None \<Rightarrow>
             (case find_node fs loc of
                Inl e \<Rightarrow> (Inl e, fs)
              | Inr n \<Rightarrow>
                  (case open_handle (case n of FDir \<Rightarrow> None | FFile i \<Rightarrow> Some i) fs of (h, fs') \<Rightarrow> (Inr h, fs'))))"

definition set_handle :: "nat \<Rightarrow> fs_handle \<Rightarrow> fsys \<Rightarrow> fsys" where
  "set_handle h x fs = fs\<lparr>fsHandles := (fsHandles fs)[h := x]\<rparr>"

definition os_Seek :: "nat \<Rightarrow> int \<Rightarrow> fsys \<Rightarrow> os_error option \<times> fsys" where
  "os_Seek h off fs =
     (let x = fsHandles fs ! h
      in if \<not> fhOpen x then (Some EBADF, fs)
         else if off < 0 then (Some EINVAL, fs)
         else (None, set_handle h (x\<lparr>fhOffset := nat off\<rparr>) fs))"

text \<open>\<open>Read\<close> into a buffer of \<open>n\<close> bytes; \<open>None\<close> as error at the end of the file is \<open>io.EOF\<close> below.\<close>

definition os_Read :: "nat \<Rightarrow> nat \<Rightarrow> fsys \<Rightarrow> (bytes \<times> object_error option) \<times> fsys" where
  "os_Read h n fs =
     (let x = fsHandles fs ! h
      in if \<not> fhOpen x then (([], Some (Errorf ''file already closed'')), fs)
         else (case fhInode x of
                 None \<Rightarrow> (([], Some (Errorf ''is a directory'')), fs)
               | Some i \<Rightarrow>
                   let d = take n (drop (fhOffset x) (inData (fsInodes fs ! i)))
                   in if d = [] \<and> 0 < n then (([], Some EOF), fs)
                      else ((d, None), set_handle h (x\<lparr>fhOffset := fhOffset x + length d\<rparr>) fs)))"

text \<open>A write at an offset; what it skips reads as zero.\<close>

definition write_at :: "nat \<Rightarrow> bytes \<Rightarrow> bytes \<Rightarrow> bytes" where
  "write_at off bs d = take off d @ replicate (off - length d) 0 @ bs @ drop (off + length bs) d"

definition os_Write :: "nat \<Rightarrow> bytes \<Rightarrow> fsys \<Rightarrow> os_error option \<times> fsys" where
  "os_Write h bs fs =
     (let x = fsHandles fs ! h
      in if \<not> fhOpen x then (Some EBADF, fs)
         else (case fhInode x of
                 None \<Rightarrow> (Some EBADF, fs)
               | Some i \<Rightarrow>
                   (None, set_handle h (x\<lparr>fhOffset := fhOffset x + length bs\<rparr>)
                      (fs\<lparr>fsInodes := (fsInodes fs)[i :=
                          \<lparr>inData = write_at (fhOffset x) bs (inData (fsInodes fs ! i)), inTime = fsNow fs\<rparr>]\<rparr>))))"

definition os_CloseFile :: "nat \<Rightarrow> fsys \<Rightarrow> os_error option \<times> fsys" where
  "os_CloseFile h fs =
     (let x = fsHandles fs ! h
      in if \<not> fhOpen x then (Some EBADF, fs) else (None, set_handle h (x\<lparr>fhOpen := False\<rparr>) fs))"

text \<open>
  \<open>io.Copy\<close> from one open file to another. The source is read to its end as it is when the copy
  starts; a source that is the destination has just been truncated.
\<close>

definition os_io_copy :: "nat \<Rightarrow> nat \<Rightarrow> fsys \<Rightarrow> os_error option \<times> fsys" where
  "os_io_copy dst src fs =
     (case fhInode (fsHandles fs ! src) of
        None \<Rightarrow> (Some EISDIR, fs)
      | Some i \<Rightarrow>
          let d = drop (fhOffset (fsHandles fs ! src)) (inData (fsInodes fs ! i))
          in if d = [] then (None, fs) else os_Write dst d fs)"

subsection \<open>Removing and renaming\<close>

definition os_Remove :: "path \<Rightarrow> fsys \<Rightarrow> os_error option \<times> fsys" where
  "os_Remove p fs =
     (let loc = locate fs p
      in case fsFault fs OpRemove loc of
           Some e \<Rightarrow> (Some e, fs)
         | None \<Rightarrow>
             (case find_node fs loc of
                Inl e \<Rightarrow> (Some e, fs)
              | Inr n \<Rightarrow>
                  if loc = [] then (Some EINVAL, fs)
                  else if n = FDir \<and> child_names fs loc \<noteq> [] then (Some ENOTEMPTY, fs)
                  else (None, fs\<lparr>fsNodes := gm_del loc (fsNodes fs)\<rparr>)))"

text \<open>A renamed directory takes everything below it along.\<close>

definition rename_nodes :: "location \<Rightarrow> location \<Rightarrow> (location, fs_node) gomap \<Rightarrow> (location, fs_node) gomap" where
  "rename_nodes src dst m =
     (let moved = filter (\<lambda>(k, n). prefix src k) (gm_entries m)
      in fold (\<lambda>(k, n). gm_put (dst @ drop (length src) k) n) moved (gm_del_all (map fst moved) m))"

definition os_Rename :: "path \<Rightarrow> path \<Rightarrow> fsys \<Rightarrow> os_error option \<times> fsys" where
  "os_Rename oldname newname fs =
     (let src = locate fs oldname; dst = locate fs newname
      in case find_node fs src of
           Inl e \<Rightarrow> (Some e, fs)
         | Inr n \<Rightarrow>
             if find_node fs dst = Inr FDir \<and> (newname = oldname \<or> src \<noteq> dst) then (Some EEXIST, fs)
             else (case fsFault fs OpRename src of
                     Some e \<Rightarrow> (Some e, fs)
                   | None \<Rightarrow>
                       if src = dst then (None, fs)
                       else (case find_node fs (butlast dst) of
                               Inl e \<Rightarrow> (Some e, fs)
                             | Inr (FFile _) \<Rightarrow> (Some ENOTDIR, fs)
                             | Inr FDir \<Rightarrow>
                                 if n = FDir \<and> prefix src dst then (Some EINVAL, fs)
                                 else if n = FDir \<and> node_at fs dst \<noteq> None then (Some ENOTDIR, fs)
                                 else (None, fs\<lparr>fsNodes := rename_nodes src dst (fsNodes fs)\<rparr>))))"

subsection \<open>Locations of paths\<close>

lemma split_on_concat: "split_on c (xs @ c # ys) = split_on c xs @ split_on c ys"
  by (induction xs) (auto split: list.splits)

text \<open>Cleaning a relative list of components first does not change where it leads.\<close>

lemma clean_fold_twice:
  assumes "\<forall>c \<in> set xs. slash \<notin> set c"
  shows "foldl (clean_step r) out (clean_comps False xs) = foldl (clean_step r) out xs"
  using assms
proof (induction xs rule: rev_induct)
  case (snoc x xs)
  let ?st = "foldl (clean_step False) [] xs"
  have IH: "foldl (clean_step r) out (rev ?st) = foldl (clean_step r) out xs"
    using snoc by (simp add: clean_comps_def)
  have st: "clean_stack False ?st" using snoc.prems by (intro clean_fold_stack) auto
  have "foldl (clean_step r) out (rev (clean_step False ?st x)) = clean_step r (foldl (clean_step r) out (rev ?st)) x"
  proof (cases "x = dotdot")
    case True
    show ?thesis
    proof (cases ?st)
      case Nil then show ?thesis using True by (simp add: clean_step_def)
    next
      case (Cons t ts)
      show ?thesis
      proof (cases "t = dotdot")
        case False
        then have "proper_name t" using st Cons by simp
        then show ?thesis using True Cons False by (simp add: clean_step_def proper_name_def)
      qed (use True Cons in \<open>simp add: clean_step_def\<close>)
    qed
  qed (auto simp: clean_step_def)
  then show ?case unfolding IH by (simp add: clean_comps_def)
qed (simp add: clean_comps_def)

lemma clean_fold_Nil: "clean_step r out [] = out" "clean_step r out dot = out"
  by (simp_all add: clean_step_def)

lemma split_cleaned:
  "split_on slash (path_clean p) =
     (if is_rooted p then [] # (if cleaned p = [] then [[]] else cleaned p)
      else if cleaned p = [] then [dot] else cleaned p)"
proof -
  have can: "canonical (is_rooted p) (cleaned p)" by (rule cleaned_canonical)
  show ?thesis
    using split_canonical[OF can] can
    by (auto simp: path_clean_rooted path_clean_relative path_clean_dot)
qed

lemma rooted_clean [simp]: "is_rooted (path_clean p) = is_rooted p"
proof (cases "is_rooted p")
  case False
  then show ?thesis
    using canonical_join_not_rooted[OF cleaned_canonical[of p]]
    by (cases "cleaned p = []") (simp_all add: path_clean_relative path_clean_dot is_rooted_def has_prefix_def)
qed (simp add: path_clean_rooted)

lemma cleaned_clean [simp]: "clean_comps (is_rooted p) (split_on slash (path_clean p)) = cleaned p"
  using cleaned_canonical[of p] clean_comps_id[OF cleaned_canonical[of p]]
  by (auto simp: split_cleaned clean_fold_Nil_comp) (auto simp: clean_comps_def clean_fold_Nil)

text \<open>A path leads to where its cleaned components lead from the current directory, or from the root.\<close>

definition base_of :: "fsys \<Rightarrow> path \<Rightarrow> location" where
  "base_of fs p = (if is_rooted p then [] else clean_comps True (fsCwd fs))"

lemma locate_cleaned:
  "locate fs p = rev (foldl (clean_step True) (rev (base_of fs p)) (cleaned p))"
proof (cases "is_rooted p")
  case True
  then show ?thesis
    using clean_comps_id[OF cleaned_canonical[of p]] by (simp add: locate_def base_of_def clean_comps_def)
next
  case False
  then show ?thesis
    using clean_fold_twice[OF split_slash_free[of p], of True "foldl (clean_step True) [] (fsCwd fs)"]
    by (simp add: locate_def base_of_def clean_comps_def)
qed

lemma locate_clean [simp]: "locate fs (path_clean p) = locate fs p"
proof -
  have "cleaned (path_clean p) = cleaned p" by simp
  then show ?thesis unfolding locate_cleaned base_of_def by (simp only: rooted_clean)
qed

text \<open>Joining a path that does not climb, or names, leads to a place below.\<close>

lemma join_two: "p \<noteq> [] \<Longrightarrow> q \<noteq> [] \<Longrightarrow> path_join [p, q] = path_clean (p @ slash # q)"
  by (simp add: path_join_def)

lemma rooted_append: "p \<noteq> [] \<Longrightarrow> is_rooted (p @ q) = is_rooted p"
  by (cases p) (simp_all add: is_rooted_def has_prefix_def)

lemma clean_join:
  assumes "p \<noteq> []" "q \<noteq> []"
  shows "cleaned (path_join [p, q]) = clean_comps (is_rooted p) (split_on slash p @ split_on slash q)"
    "is_rooted (path_join [p, q]) = is_rooted p"
  using assms cleaned_clean[of "p @ slash # q"] by (simp_all add: join_two rooted_append split_on_concat)

lemma cleaned_join_names:
  assumes "p \<noteq> []" "q \<noteq> []" "\<not> is_rooted q" "\<forall>n \<in> set (cleaned q). proper_name n"
  shows "cleaned (path_join [p, q]) = cleaned p @ cleaned q"
    "locate fs (path_join [p, q]) = locate fs p @ cleaned q"
proof -
  let ?r = "is_rooted p"
  have F: "foldl (clean_step r) out (split_on slash q) = rev (cleaned q) @ out" for r out
    using clean_fold_twice[OF split_slash_free[of q], of r out] clean_fold_names[OF assms(4), of r out] assms(3) by simp
  show 1: "cleaned (path_join [p, q]) = cleaned p @ cleaned q"
    unfolding clean_join(1)[OF assms(1,2)] clean_comps_def[of ?r] foldl_append F by simp
  have "base_of fs (path_join [p, q]) = base_of fs p"
    unfolding base_of_def clean_join(2)[OF assms(1,2)] ..
  then show "locate fs (path_join [p, q]) = locate fs p @ cleaned q"
    unfolding locate_cleaned 1 foldl_append clean_fold_names[OF assms(4)] by simp
qed

subsection \<open>File systems in order\<close>

text \<open>
  What every reachable file system has: names are proper and inside directories, a file name refers
  to an inode that exists and to no other's.
\<close>

definition tree_ok :: "(location \<Rightarrow> fs_node option) \<Rightarrow> bool" where
  "tree_ok f =
     (\<forall>loc n. loc \<noteq> [] \<longrightarrow> f loc = Some n \<longrightarrow> (\<forall>c \<in> set loc. proper_name c) \<and> f (butlast loc) = Some FDir)"

definition inodes_ok :: "(location \<Rightarrow> fs_node option) \<Rightarrow> nat \<Rightarrow> bool" where
  "inodes_ok f n =
     ((\<forall>loc i. f loc = Some (FFile i) \<longrightarrow> i < n) \<and>
      (\<forall>loc loc' i. f loc = Some (FFile i) \<longrightarrow> f loc' = Some (FFile i) \<longrightarrow> loc = loc'))"

definition fs_ok :: "fsys \<Rightarrow> bool" where
  "fs_ok fs =
     (tree_ok (node_at fs) \<and> inodes_ok (node_at fs) (length (fsInodes fs)) \<and> (\<forall>c \<in> set (fsCwd fs). slash \<notin> set c))"

definition fs_file :: "fsys \<Rightarrow> location \<Rightarrow> bytes option" where
  "fs_file fs loc = (case node_at fs loc of Some (FFile i) \<Rightarrow> Some (inData (fsInodes fs ! i)) | _ \<Rightarrow> None)"

abbreviation fs_dir :: "fsys \<Rightarrow> location \<Rightarrow> bool" where
  "fs_dir fs loc \<equiv> node_at fs loc = Some FDir"

definition faultless :: "fsys \<Rightarrow> bool" where
  "faultless fs = (\<forall>op loc. fsFault fs op loc = None)"

text \<open>No file where a directory is needed.\<close>

definition clear_way :: "fsys \<Rightarrow> location \<Rightarrow> bool" where
  "clear_way fs loc = (\<forall>l. prefix l loc \<longrightarrow> fs_file fs l = None)"

lemma clear_way_iff: "clear_way fs loc \<longleftrightarrow> (\<forall>l. prefix l loc \<longrightarrow> (\<forall>i. node_at fs l \<noteq> Some (FFile i)))"
  unfolding clear_way_def fs_file_def by (auto split: option.splits fs_node.splits)

lemma clear_wayD: "clear_way fs loc \<Longrightarrow> prefix l loc \<Longrightarrow> node_at fs l \<noteq> Some (FFile i)"
  by (simp add: clear_way_iff)

lemma not_prefix_butlast: "l \<noteq> [] \<Longrightarrow> \<not> prefix l (butlast l)"
  by (metis append_butlast_last_id not_Cons_self2 prefix_order.antisym prefixI self_append_conv)

lemma node_at_Nil [simp]: "node_at fs [] = Some FDir"
  by (simp add: node_at_def)

lemma fs_ok_names: "fs_ok fs \<Longrightarrow> node_at fs loc = Some n \<Longrightarrow> c \<in> set loc \<Longrightarrow> proper_name c"
  by (cases "loc = []") (auto simp: fs_ok_def tree_ok_def)

lemma fs_ok_parent: "fs_ok fs \<Longrightarrow> node_at fs loc = Some n \<Longrightarrow> loc \<noteq> [] \<Longrightarrow> node_at fs (butlast loc) = Some FDir"
  by (auto simp: fs_ok_def tree_ok_def)

lemma fs_ok_inode: "fs_ok fs \<Longrightarrow> node_at fs loc = Some (FFile i) \<Longrightarrow> i < length (fsInodes fs)"
  by (auto simp: fs_ok_def inodes_ok_def)

lemma fs_ok_inj: "fs_ok fs \<Longrightarrow> node_at fs loc = Some (FFile i) \<Longrightarrow> node_at fs loc' = Some (FFile i) \<Longrightarrow> loc = loc'"
  by (auto simp: fs_ok_def inodes_ok_def)

lemma inodes_ok_mono: "inodes_ok f n \<Longrightarrow> n \<le> m \<Longrightarrow> inodes_ok f m"
  unfolding inodes_ok_def by (metis less_le_trans)

text \<open>A name is added, or its node replaced by a file with a new inode.\<close>

lemma tree_ok_put:
  assumes "tree_ok f" "loc \<noteq> []" "\<forall>c \<in> set loc. proper_name c" "f (butlast loc) = Some FDir"
    and "n = FDir \<or> f loc \<noteq> Some FDir"
  shows "tree_ok (f(loc \<mapsto> n))"
  unfolding tree_ok_def
proof (intro allI impI conjI)
  fix l m assume l: "l \<noteq> []" "(f(loc \<mapsto> n)) l = Some m"
  show "\<forall>c \<in> set l. proper_name c"
    using l assms(1,3) by (cases "l = loc") (auto simp: tree_ok_def)
  have "f (butlast l) = Some FDir"
    using l assms(1,4) by (cases "l = loc") (auto simp: tree_ok_def)
  then show "(f(loc \<mapsto> n)) (butlast l) = Some FDir" using assms(5) by auto
qed

lemma inodes_ok_put_dir: "inodes_ok f k \<Longrightarrow> inodes_ok (f(loc \<mapsto> FDir)) k"
  unfolding inodes_ok_def by simp

lemma inodes_ok_put_file: "inodes_ok f k \<Longrightarrow> inodes_ok (f(loc \<mapsto> FFile k)) (Suc k)"
  unfolding inodes_ok_def by (auto simp: less_Suc_eq)

lemma dir_prefix:
  assumes "fs_ok fs" "node_at fs (xs @ ys) = Some n" "ys \<noteq> []"
  shows "node_at fs xs = Some FDir"
  using assms(2,3)
proof (induction ys arbitrary: n rule: rev_induct)
  case (snoc y ys)
  have "node_at fs (butlast (xs @ ys @ [y])) = Some FDir"
    by (rule fs_ok_parent[OF assms(1) snoc.prems(1)]) simp
  then have "node_at fs (xs @ ys) = Some FDir" by (simp add: butlast_append)
  then show ?case using snoc.IH by (cases "ys = []") auto
qed simp

lemma find_from_node: "find_from fs at cs = Inr n \<Longrightarrow> node_at fs (at @ cs) = Some n"
  by (induction fs at cs rule: find_from.induct) (auto split: option.splits fs_node.splits)

lemma find_from_ok:
  assumes "fs_ok fs" "node_at fs (at @ cs) = Some n"
  shows "find_from fs at cs = Inr n"
  using assms
proof (induction fs at cs rule: find_from.induct)
  case (2 fs at c cs)
  then have "node_at fs at = Some FDir" using dir_prefix[of fs at "c # cs"] by simp
  then show ?case using 2 by simp
qed simp

lemma find_node_iff: "fs_ok fs \<Longrightarrow> find_node fs loc = Inr n \<longleftrightarrow> node_at fs loc = Some n"
  using find_from_node[of fs "[]" loc n] find_from_ok[of fs "[]" loc n] by auto

lemma fs_ok_put_dir:
  assumes "fs_ok fs" "node_at fs at = Some FDir" "proper_name c" "node_at fs (at @ [c]) = None"
  shows "fs_ok (put_node (at @ [c]) FDir fs)"
    "node_at (put_node (at @ [c]) FDir fs) = (node_at fs)(at @ [c] \<mapsto> FDir)"
proof -
  let ?fs = "put_node (at @ [c]) FDir fs"
  show n: "node_at ?fs = (node_at fs)(at @ [c] \<mapsto> FDir)"
    by (auto simp: put_node_def node_at_def gm_get_put fun_eq_iff)
  have "fsInodes ?fs = fsInodes fs" "fsCwd ?fs = fsCwd fs" by (simp_all add: put_node_def)
  moreover have "\<forall>c \<in> set at. proper_name c" using assms(1,2) fs_ok_names by blast
  ultimately show "fs_ok ?fs"
    using assms by (simp add: fs_ok_def n tree_ok_put inodes_ok_put_dir)
qed

lemma mkdirs_effect:
  assumes "fs_ok fs" "faultless fs" "node_at fs at = Some FDir"
    and "\<forall>c \<in> set cs. proper_name c" "clear_way fs (at @ cs)"
  shows "\<exists>m. mkdirs_from at cs fs = (None, fs\<lparr>fsNodes := m\<rparr>) \<and> fs_ok (fs\<lparr>fsNodes := m\<rparr>) \<and>
    node_at (fs\<lparr>fsNodes := m\<rparr>) =
      (\<lambda>l. if prefix at l \<and> prefix l (at @ cs) then Some FDir else node_at fs l)"
  using assms
proof (induction cs arbitrary: at fs)
  case Nil
  have "node_at fs = (\<lambda>l. if prefix at l \<and> prefix l at then Some FDir else node_at fs l)"
    using Nil.prems(3) by (auto simp: fun_eq_iff dest: prefix_order.antisym)
  then show ?case using Nil.prems(1) by (intro exI[of _ "fsNodes fs"]) simp
next
  case (Cons c cs)
  have nofile: "node_at fs (at @ [c]) \<noteq> Some (FFile i)" for i
    by (rule clear_wayD[OF Cons.prems(5)]) simp
  define fs1 where "fs1 = (if node_at fs (at @ [c]) = None then put_node (at @ [c]) FDir fs else fs)"
  have two: "node_at fs (at @ [c]) = None \<or> node_at fs (at @ [c]) = Some FDir"
    using nofile by (metis fs_node.exhaust option.exhaust)
  have n1: "node_at fs1 = (node_at fs)(at @ [c] \<mapsto> FDir)" and ok1: "fs_ok fs1"
    using two fs_ok_put_dir[of fs at c] Cons.prems(1,3,4) by (auto simp: fs1_def fun_upd_idem)
  have f1: "fs1 = fs\<lparr>fsNodes := fsNodes fs1\<rparr>" by (simp add: fs1_def put_node_def)
  have step: "mkdirs_from at (c # cs) fs = mkdirs_from (at @ [c]) cs fs1"
    using two Cons.prems(2) by (auto simp: fs1_def faultless_def)
  have way: "clear_way fs1 ((at @ [c]) @ cs)"
    using Cons.prems(5) n1 by (auto simp: clear_way_iff)
  have fl: "faultless fs1" using Cons.prems(2) by (simp add: fs1_def faultless_def put_node_def)
  obtain m where m: "mkdirs_from (at @ [c]) cs fs1 = (None, fs1\<lparr>fsNodes := m\<rparr>)" "fs_ok (fs1\<lparr>fsNodes := m\<rparr>)"
    "node_at (fs1\<lparr>fsNodes := m\<rparr>) = (\<lambda>l. if prefix (at @ [c]) l \<and> prefix l ((at @ [c]) @ cs) then Some FDir else node_at fs1 l)"
    using Cons.IH[OF ok1 fl _ _ way] Cons.prems(4) n1 by auto
  have "fs1\<lparr>fsNodes := m\<rparr> = fs\<lparr>fsNodes := m\<rparr>" by (subst f1) simp
  moreover have "(\<lambda>l. if prefix (at @ [c]) l \<and> prefix l ((at @ [c]) @ cs) then Some FDir else node_at fs1 l) =
      (\<lambda>l. if prefix at l \<and> prefix l (at @ c # cs) then Some FDir else node_at fs l)"
  proof
    fix l
    have "prefix at l \<and> prefix l (at @ c # cs) \<longleftrightarrow> l = at \<or> prefix (at @ [c]) l \<and> prefix l (at @ c # cs)"
      by (auto simp: prefix_def Cons_eq_append_conv)
    then show "(if prefix (at @ [c]) l \<and> prefix l ((at @ [c]) @ cs) then Some FDir else node_at fs1 l) =
      (if prefix at l \<and> prefix l (at @ c # cs) then Some FDir else node_at fs l)"
      using Cons.prems(3) n1 by auto
  qed
  ultimately show ?case using m step by auto
qed

subsection \<open>Writing and reading a file\<close>

definition same_system :: "fsys \<Rightarrow> fsys \<Rightarrow> bool" where
  "same_system fs fs' = (fsCwd fs' = fsCwd fs \<and> fsFault fs' = fsFault fs)"

lemma same_system_refl [simp]: "same_system fs fs"
  by (simp add: same_system_def)

lemma same_system_trans: "same_system fs fs' \<Longrightarrow> same_system fs' fs'' \<Longrightarrow> same_system fs fs''"
  by (simp add: same_system_def)

lemma same_system_locate: "same_system fs fs' \<Longrightarrow> locate fs' p = locate fs p"
  by (simp add: same_system_def locate_def)

lemma same_system_faultless: "same_system fs fs' \<Longrightarrow> faultless fs' = faultless fs"
  by (simp add: same_system_def faultless_def)

text \<open>An open handle at the end of the file at a location.\<close>

definition writing :: "fsys \<Rightarrow> nat \<Rightarrow> location \<Rightarrow> bytes \<Rightarrow> bool" where
  "writing fs h loc d =
     (h < length (fsHandles fs) \<and> fs_file fs loc = Some d \<and>
      (\<exists>i. node_at fs loc = Some (FFile i) \<and>
        fsHandles fs ! h = \<lparr>fhInode = Some i, fhOffset = length d, fhOpen = True\<rparr>))"

lemma node_at_simps [simp]:
  "node_at (fs\<lparr>fsInodes := x\<rparr>) = node_at fs" "node_at (fs\<lparr>fsHandles := y\<rparr>) = node_at fs"
  "node_at (set_handle h z fs) = node_at fs"
  by (simp_all add: node_at_def set_handle_def fun_eq_iff)

lemma fs_ok_handles [simp]: "fs_ok (set_handle h z fs) = fs_ok fs" "fs_ok (fs\<lparr>fsHandles := y\<rparr>) = fs_ok fs"
  by (simp_all add: fs_ok_def) (simp add: set_handle_def)

lemma inodes_handles [simp]: "fsInodes (set_handle h z fs) = fsInodes fs" "fsInodes (fs\<lparr>fsHandles := y\<rparr>) = fsInodes fs"
  by (simp_all add: set_handle_def)

lemma fs_file_handles [simp]:
  "fs_file (set_handle h z fs) = fs_file fs" "fs_file (fs\<lparr>fsHandles := y\<rparr>) = fs_file fs"
  unfolding fs_file_def node_at_simps inodes_handles by (rule refl)+

lemma fs_ok_inodes: "fs_ok fs \<Longrightarrow> length (fsInodes fs) \<le> length x \<Longrightarrow> fs_ok (fs\<lparr>fsInodes := x\<rparr>)"
  by (auto simp: fs_ok_def intro: inodes_ok_mono)

lemma fs_file_inode:
  assumes "fs_ok fs" "node_at fs loc = Some (FFile i)"
  shows "fs_file (fs\<lparr>fsInodes := (fsInodes fs)[i := x]\<rparr>) = (fs_file fs)(loc := Some (inData x))"
proof
  fix l
  show "fs_file (fs\<lparr>fsInodes := (fsInodes fs)[i := x]\<rparr>) l = ((fs_file fs)(loc := Some (inData x))) l"
  proof (cases "l = loc")
    case True
    then show ?thesis using assms(2) fs_ok_inode[OF assms] by (simp add: fs_file_def)
  next
    case False
    then have "node_at fs l \<noteq> Some (FFile i)" using fs_ok_inj[OF assms, of l] by blast
    with False show ?thesis by (auto simp: fs_file_def nth_list_update split: option.splits fs_node.splits)
  qed
qed

lemma os_Write_effect:
  assumes "fs_ok fs" "writing fs h loc d"
  shows "\<exists>fs'. os_Write h bs fs = (None, fs') \<and> fs_ok fs' \<and> same_system fs fs' \<and> node_at fs' = node_at fs \<and>
    fs_file fs' = (fs_file fs)(loc := Some (d @ bs)) \<and> writing fs' h loc (d @ bs)"
proof -
  obtain i where i: "node_at fs loc = Some (FFile i)" "h < length (fsHandles fs)" "fs_file fs loc = Some d"
      "fsHandles fs ! h = \<lparr>fhInode = Some i, fhOffset = length d, fhOpen = True\<rparr>"
    using assms(2) by (auto simp: writing_def)
  let ?x = "\<lparr>inData = d @ bs, inTime = fsNow fs\<rparr>"
  let ?fs1 = "fs\<lparr>fsInodes := (fsInodes fs)[i := ?x]\<rparr>"
  let ?fs' = "set_handle h \<lparr>fhInode = Some i, fhOffset = length d + length bs, fhOpen = True\<rparr> ?fs1"
  have d: "inData (fsInodes fs ! i) = d" using i by (simp add: fs_file_def)
  have "os_Write h bs fs = (None, ?fs')"
    using i d by (simp add: os_Write_def write_at_def)
  moreover have "fs_ok ?fs'" using assms(1) by (simp add: fs_ok_inodes)
  moreover have "fs_file ?fs' = (fs_file fs)(loc := Some (d @ bs))"
    by (simp add: fs_file_inode[OF assms(1) i(1)])
  ultimately show ?thesis using i
    by (intro exI[of _ ?fs']) (simp add: writing_def same_system_def set_handle_def)
qed

fun os_Writes :: "nat \<Rightarrow> bytes list \<Rightarrow> fsys \<Rightarrow> os_error option \<times> fsys" where
  "os_Writes h [] fs = (None, fs)"
| "os_Writes h (c # cs) fs = (case os_Write h c fs of (Some e, fs1) \<Rightarrow> (Some e, fs1) | (None, fs1) \<Rightarrow> os_Writes h cs fs1)"

lemma os_Writes_effect:
  assumes "fs_ok fs" "writing fs h loc d"
  shows "\<exists>fs'. os_Writes h cs fs = (None, fs') \<and> fs_ok fs' \<and> same_system fs fs' \<and> node_at fs' = node_at fs \<and>
    fs_file fs' = (fs_file fs)(loc := Some (d @ concat cs)) \<and> writing fs' h loc (d @ concat cs)"
  using assms
proof (induction cs arbitrary: fs d)
  case Nil
  then show ?case by (intro exI[of _ fs]) (auto simp: writing_def fun_upd_idem)
next
  case (Cons c cs)
  obtain fs1 where 1: "os_Write h c fs = (None, fs1)" "fs_ok fs1" "same_system fs fs1" "node_at fs1 = node_at fs"
    "fs_file fs1 = (fs_file fs)(loc := Some (d @ c))" "writing fs1 h loc (d @ c)"
    using os_Write_effect[OF Cons.prems] by blast
  then obtain fs2 where "os_Writes h cs fs1 = (None, fs2)" "fs_ok fs2" "same_system fs1 fs2" "node_at fs2 = node_at fs1"
    "fs_file fs2 = (fs_file fs1)(loc := Some ((d @ c) @ concat cs))" "writing fs2 h loc ((d @ c) @ concat cs)"
    using Cons.IH by blast
  with 1 show ?case
    by (intro exI[of _ fs2] conjI) (simp_all add: same_system_def)
qed

lemma os_Close_effect:
  assumes "fs_ok fs" "writing fs h loc d"
  shows "\<exists>fs'. os_CloseFile h fs = (None, fs') \<and> fs_ok fs' \<and> same_system fs fs' \<and> node_at fs' = node_at fs \<and> fs_file fs' = fs_file fs"
  using assms by (auto simp: writing_def os_CloseFile_def same_system_def) (simp_all add: set_handle_def)

text \<open>A new name for a new, empty inode; or an old file emptied.\<close>

lemma new_file:
  assumes ok: "fs_ok fs" and loc: "loc \<noteq> []" "\<forall>c \<in> set loc. proper_name c"
    and "node_at fs (butlast loc) = Some FDir" "node_at fs loc \<noteq> Some FDir" "inData x = []"
    and fs': "fs' = put_node loc (FFile (length (fsInodes fs))) (fs\<lparr>fsInodes := fsInodes fs @ [x]\<rparr>)"
  shows "fs_ok fs'" "node_at fs' = (node_at fs)(loc \<mapsto> FFile (length (fsInodes fs)))"
    "fs_file fs' = (fs_file fs)(loc := Some [])"
proof -
  show n: "node_at fs' = (node_at fs)(loc \<mapsto> FFile (length (fsInodes fs)))"
    using loc(1) by (auto simp: fs' put_node_def node_at_def gm_get_put fun_eq_iff)
  have l: "fsInodes fs' = fsInodes fs @ [x]" and "fsCwd fs' = fsCwd fs" by (simp_all add: fs' put_node_def)
  then show "fs_ok fs'"
    using ok assms(2-5) by (simp add: fs_ok_def n tree_ok_put inodes_ok_put_file)
  show "fs_file fs' = (fs_file fs)(loc := Some [])"
  proof
    fix k
    have "(fsInodes fs @ [x]) ! i = fsInodes fs ! i" if "node_at fs k = Some (FFile i)" for i
      using fs_ok_inode[OF ok that] by (simp add: nth_append)
    then show "fs_file fs' k = ((fs_file fs)(loc := Some [])) k"
      using assms(6) by (auto simp: fs_file_def n l split: option.splits fs_node.splits)
  qed
qed

lemma os_Create_effect:
  assumes ok: "fs_ok fs" and "faultless fs" and loc: "locate fs p = loc" "loc \<noteq> []" "\<forall>c \<in> set loc. proper_name c"
    and par: "node_at fs (butlast loc) = Some FDir" and nd: "node_at fs loc \<noteq> Some FDir"
  shows "\<exists>fs' i. os_Create p fs = (Inr (length (fsHandles fs)), fs') \<and> fs_ok fs' \<and> same_system fs fs' \<and>
    node_at fs' = (node_at fs)(loc \<mapsto> FFile i) \<and> fs_file fs' = (fs_file fs)(loc := Some []) \<and>
    writing fs' (length (fsHandles fs)) loc [] \<and>
    fsHandles fs' = fsHandles fs @ [\<lparr>fhInode = Some i, fhOffset = 0, fhOpen = True\<rparr>] \<and>
    (\<forall>k. node_at fs loc = Some (FFile k) \<longrightarrow> i = k)"
proof -
  let ?x = "\<lparr>inData = [], inTime = fsNow fs\<rparr>"
  have fault: "fsFault fs OpCreate loc = None" using assms(2) by (simp add: faultless_def)
  have fp: "find_node fs (butlast loc) = Inr FDir" using find_node_iff[OF ok] par by simp
  consider (new) "node_at fs loc = None" | (old) i where "node_at fs loc = Some (FFile i)"
    using nd by (metis fs_node.exhaust option.exhaust)
  then show ?thesis
  proof cases
    case new
    let ?fs1 = "put_node loc (FFile (length (fsInodes fs))) (fs\<lparr>fsInodes := fsInodes fs @ [?x]\<rparr>)"
    note N = new_file[OF ok loc(2,3) par nd, of ?x ?fs1, simplified]
    let ?fs' = "?fs1\<lparr>fsHandles := fsHandles fs @ [\<lparr>fhInode = Some (length (fsInodes fs)), fhOffset = 0, fhOpen = True\<rparr>]\<rparr>"
    have "os_Create p fs = (Inr (length (fsHandles fs)), ?fs')"
      using loc fault fp new by (simp add: os_Create_def Let_def open_handle_def put_node_def)
    then show ?thesis using N
      by (intro exI[of _ ?fs'] exI[of _ "length (fsInodes fs)"])
        (simp add: same_system_def writing_def new, simp add: put_node_def)
  next
    case old
    let ?fs1 = "fs\<lparr>fsInodes := (fsInodes fs)[i := ?x]\<rparr>"
    let ?fs' = "?fs1\<lparr>fsHandles := fsHandles fs @ [\<lparr>fhInode = Some i, fhOffset = 0, fhOpen = True\<rparr>]\<rparr>"
    have "os_Create p fs = (Inr (length (fsHandles fs)), ?fs')"
      using loc fault fp old by (simp add: os_Create_def Let_def open_handle_def)
    then show ?thesis using fs_file_inode[OF ok old, of ?x] ok old
      by (intro exI[of _ ?fs'] exI[of _ i]) (simp add: same_system_def writing_def fs_ok_inodes fun_upd_idem)
  qed
qed

text \<open>A file is opened and read from an offset.\<close>

lemma os_Open_file:
  assumes "fs_ok fs" "faultless fs" "fs_file fs (locate fs p) = Some d"
  shows "\<exists>i. os_Open p fs =
      (Inr (length (fsHandles fs)), fs\<lparr>fsHandles := fsHandles fs @ [\<lparr>fhInode = Some i, fhOffset = 0, fhOpen = True\<rparr>]\<rparr>) \<and>
    node_at fs (locate fs p) = Some (FFile i) \<and> inData (fsInodes fs ! i) = d"
proof -
  obtain i where i: "node_at fs (locate fs p) = Some (FFile i)" "inData (fsInodes fs ! i) = d"
    using assms(3) by (auto simp: fs_file_def split: option.splits fs_node.splits)
  then have "find_node fs (locate fs p) = Inr (FFile i)" by (simp add: find_node_iff[OF assms(1)])
  then show ?thesis using i assms(2) by (auto simp: os_Open_def Let_def faultless_def open_handle_def)
qed

lemma os_Open_missing:
  assumes "find_node fs (locate fs p) = Inl e" "faultless fs"
  shows "os_Open p fs = (Inl e, fs)"
  using assms by (simp add: os_Open_def faultless_def)


lemma locate_names:
  assumes "fs_ok fs"
  shows "\<forall>c \<in> set (locate fs p). proper_name c"
proof -
  have "canonical True (locate fs p)"
    using assms split_slash_free[of p] unfolding locate_def
    by (intro clean_comps_canonical) (auto simp: fs_ok_def)
  then show ?thesis by (metis append_Nil canonicalE replicate_0)
qed


lemma os_CloseFile_keeps [simp]:
  "fs_file (snd (os_CloseFile h fs)) = fs_file fs" "fs_ok (snd (os_CloseFile h fs)) = fs_ok fs"
  "node_at (snd (os_CloseFile h fs)) = node_at fs" "same_system fs (snd (os_CloseFile h fs))"
  by (simp_all add: os_CloseFile_def Let_def same_system_def) (simp add: set_handle_def)

subsection \<open>Renaming a file\<close>

lemma singleton_list: "distinct xs \<Longrightarrow> set xs = {a} \<Longrightarrow> xs = [a]"
  using distinct_card[of xs] by (cases xs; cases "tl xs") auto

lemma rename_file_nodes:
  assumes "fs_ok fs" "node_at fs src = Some (FFile i)" "src \<noteq> []"
  shows "gm_get (rename_nodes src dst (fsNodes fs)) = (gm_get (fsNodes fs))(src := None, dst \<mapsto> FFile i)"
proof -
  let ?moved = "filter (\<lambda>(k, n). prefix src k) (gm_entries (fsNodes fs))"
  have only: "k = src \<and> n = FFile i" if "(k, n) \<in> set ?moved" for k n
  proof -
    have g: "gm_get (fsNodes fs) k = Some n" "prefix src k" using that by (auto simp: gm_get_iff_entry)
    then obtain ys where k: "k = src @ ys" by (auto simp: prefix_def)
    have "node_at fs k = Some n" using g k assms(3) by (simp add: node_at_def)
    then have "ys = []" using dir_prefix[OF assms(1), of src ys n] k assms(2) by fastforce
    then show ?thesis using k g assms(2,3) by (simp add: node_at_def)
  qed
  have "(src, FFile i) \<in> set ?moved" using assms(2,3) by (simp add: node_at_def gm_get_iff_entry)
  then have "set ?moved = {(src, FFile i)}" using only by auto
  moreover have "distinct ?moved"
    by (rule distinct_filter) (metis distinct_zipI1 zip_map_fst_snd impl_of_distinct)
  ultimately have "?moved = [(src, FFile i)]" by (intro singleton_list)
  then show ?thesis
    by (auto simp: rename_nodes_def Let_def gm_get_put gm_get_del_all fun_eq_iff)
qed

lemma fs_ok_drop:
  assumes "fs_ok fs" "node_at fs src = Some (FFile i)"
  shows "tree_ok ((node_at fs)(src := None))" "inodes_ok ((node_at fs)(src := None)) (length (fsInodes fs))"
proof -
  have "node_at fs l = None" if "butlast l = src" "l \<noteq> []" for l
    using fs_ok_parent[OF assms(1), of l] that assms(2) by (cases "node_at fs l") auto
  then show "tree_ok ((node_at fs)(src := None))" using assms(1) by (auto simp: fs_ok_def tree_ok_def)
  show "inodes_ok ((node_at fs)(src := None)) (length (fsInodes fs))"
    using assms(1) by (auto simp: fs_ok_def inodes_ok_def)
qed

lemma os_Rename_file:
  assumes ok: "fs_ok fs" and "faultless fs" and src: "fs_file fs (locate fs p) = Some d"
    and dst: "locate fs q \<noteq> []" "node_at fs (butlast (locate fs q)) = Some FDir" "node_at fs (locate fs q) \<noteq> Some FDir"
  shows "\<exists>fs'. os_Rename p q fs = (None, fs') \<and> fs_ok fs' \<and>
    fs_file fs' = (fs_file fs)(locate fs p := None, locate fs q := Some d) \<and>
    same_system fs fs' \<and> (\<forall>l. fs_dir fs' l = fs_dir fs l)"
proof -
  let ?S = "locate fs p" let ?D = "locate fs q"
  obtain i where i: "node_at fs ?S = Some (FFile i)" "inData (fsInodes fs ! i) = d"
    using src by (auto simp: fs_file_def split: option.splits fs_node.splits)
  have S: "?S \<noteq> []" using i(1) by auto
  have f: "find_node fs ?S = Inr (FFile i)" "find_node fs ?D \<noteq> Inr FDir" "find_node fs (butlast ?D) = Inr FDir"
    using find_node_iff[OF ok] i(1) dst by simp_all
  have nf: "fsFault fs OpRename ?S = None" using assms(2) by (simp add: faultless_def)
  show ?thesis
  proof (cases "?S = ?D")
    case True
    then show ?thesis using f nf ok src by (intro exI[of _ fs]) (auto simp: os_Rename_def Let_def)
  next
    case False
    let ?fs = "fs\<lparr>fsNodes := rename_nodes ?S ?D (fsNodes fs)\<rparr>"
    have n: "node_at ?fs = (node_at fs)(?S := None, ?D \<mapsto> FFile i)"
      using rename_file_nodes[OF ok i(1) S, of ?D] S dst(1) by (auto simp: node_at_def fun_eq_iff)
    have r: "os_Rename p q fs = (None, ?fs)"
      using f nf False by (simp add: os_Rename_def Let_def)
    have "tree_ok ((node_at fs)(?S := None))" by (rule fs_ok_drop(1)[OF ok i(1)])
    moreover have "butlast ?D \<noteq> ?S" using dst(2) i(1) by auto
    ultimately have t: "tree_ok ((node_at fs)(?S := None, ?D \<mapsto> FFile i))"
      using dst locate_names[OF ok, of q] by (intro tree_ok_put) auto
    have "inodes_ok ((node_at fs)(?S := None, ?D \<mapsto> FFile i)) (length (fsInodes fs))"
      using ok i(1) by (auto simp: fs_ok_def inodes_ok_def)
    then have "fs_ok ?fs" using ok t by (simp add: fs_ok_def n)
    moreover have "fs_file ?fs = (fs_file fs)(?S := None, ?D := Some d)"
    proof
      fix l show "fs_file ?fs l = ((fs_file fs)(?S := None, ?D := Some d)) l"
        using i(2) by (auto simp: fs_file_def n split: option.splits fs_node.splits)
    qed
    moreover have "fs_dir ?fs l = fs_dir fs l" for l using i(1) dst(3) by (auto simp: n)
    ultimately show ?thesis using r by (intro exI[of _ ?fs]) (simp add: same_system_def)
  qed
qed

lemma os_Remove_file:
  assumes "fs_ok fs" "faultless fs" "fs_file fs (locate fs p) = Some d"
  shows "\<exists>fs'. os_Remove p fs = (None, fs') \<and> fs_ok fs' \<and> fs_file fs' = (fs_file fs)(locate fs p := None) \<and>
    same_system fs fs' \<and> (\<forall>l. fs_dir fs' l = fs_dir fs l)"
proof -
  let ?L = "locate fs p" let ?fs' = "fs\<lparr>fsNodes := gm_del (locate fs p) (fsNodes fs)\<rparr>"
  obtain i where i: "node_at fs ?L = Some (FFile i)"
    using assms(3) by (auto simp: fs_file_def split: option.splits fs_node.splits)
  have L: "?L \<noteq> []" using i by auto
  have n: "node_at ?fs' = (node_at fs)(?L := None)" using L by (auto simp: node_at_def gomap_simps fun_eq_iff)
  have "os_Remove p fs = (None, ?fs')"
    using i L assms(2) find_node_iff[OF assms(1), of ?L "FFile i"] by (simp add: os_Remove_def Let_def faultless_def)
  moreover have "fs_ok ?fs'" using fs_ok_drop[OF assms(1) i] assms(1) by (simp add: fs_ok_def n)
  moreover have "fs_file ?fs' = (fs_file fs)(?L := None)" by (auto simp: fs_file_def n fun_eq_iff split: option.splits fs_node.splits)
  moreover have "fs_dir ?fs' l = fs_dir fs l" for l using i by (auto simp: n)
  ultimately show ?thesis by (intro exI[of _ ?fs']) (simp add: same_system_def)
qed

subsection \<open>Names in a directory\<close>

lemma child_names_iff:
  assumes "n \<in> set (child_names fs loc)"
  shows "node_at fs (loc @ [n]) \<noteq> None"
proof -
  obtain k where k: "k \<in> set (gm_keys (fsNodes fs))" "k \<noteq> []" "butlast k = loc" "last k = n"
    using assms by (auto simp: child_names_def)
  then have "loc @ [n] = k" by (metis append_butlast_last_id)
  then show ?thesis using k by (simp add: node_at_def gm_keys_iff)
qed

lemma child_names_set: "set (child_names fs loc) = {n. node_at fs (loc @ [n]) \<noteq> None}"
proof
  show "{n. node_at fs (loc @ [n]) \<noteq> None} \<subseteq> set (child_names fs loc)"
  proof
    fix n assume "n \<in> {n. node_at fs (loc @ [n]) \<noteq> None}"
    then have "loc @ [n] \<in> set (gm_keys (fsNodes fs))" by (simp add: node_at_def gm_keys_iff)
    then have "loc @ [n] \<in> set (filter (\<lambda>k. k \<noteq> [] \<and> butlast k = loc) (gm_keys (fsNodes fs)))" by simp
    then have "last (loc @ [n]) \<in> last ` set (filter (\<lambda>k. k \<noteq> [] \<and> butlast k = loc) (gm_keys (fsNodes fs)))"
      by (rule imageI)
    then show "n \<in> set (child_names fs loc)" by (simp add: child_names_def)
  qed
qed (use child_names_iff in blast)

lemma child_names_distinct: "distinct (child_names fs loc)"
proof -
  have "inj_on last (set (filter (\<lambda>k. k \<noteq> [] \<and> butlast k = loc) (gm_keys (fsNodes fs))))"
  proof (rule inj_onI)
    fix x y assume "x \<in> set (filter (\<lambda>k. k \<noteq> [] \<and> butlast k = loc) (gm_keys (fsNodes fs)))"
      "y \<in> set (filter (\<lambda>k. k \<noteq> [] \<and> butlast k = loc) (gm_keys (fsNodes fs)))" "last x = last y"
    then show "x = y" using append_butlast_last_id[of x] append_butlast_last_id[of y] by simp
  qed
  then show ?thesis by (simp add: child_names_def distinct_map)
qed

lemma os_ReadDirNames_dir:
  assumes "fs_ok fs" "faultless fs" "node_at fs (locate fs p) = Some FDir"
  shows "os_ReadDirNames p fs = Inr (child_names fs (locate fs p))"
  using assms find_node_iff[OF assms(1), of "locate fs p" FDir] by (simp add: os_ReadDirNames_def Let_def faultless_def)

lemma os_Stat_node:
  assumes "fs_ok fs" "faultless fs" "node_at fs (locate fs p) = Some n"
  shows "\<exists>st. os_Stat p fs = Inr st \<and> stIsDir st = (n = FDir)"
  using assms find_node_iff[OF assms(1), of "locate fs p" n]
  by (cases n) (simp_all add: os_Stat_def Let_def faultless_def node_stat_def)

text \<open>The depth of a tree is bounded by its number of nodes.\<close>

lemma depth_bound:
  assumes "fs_ok fs" "node_at fs k \<noteq> None"
  shows "length k \<le> gm_len (fsNodes fs)"
proof -
  have "take (Suc j) k \<in> dom (gm_get (fsNodes fs))" if "j < length k" for j
  proof -
    obtain n where n: "node_at fs (take (Suc j) k @ drop (Suc j) k) = Some n" using assms(2) by auto
    have "node_at fs (take (Suc j) k) \<noteq> None"
      using dir_prefix[OF assms(1) n] assms(2) by (cases "drop (Suc j) k = []") auto
    moreover have "take (Suc j) k \<noteq> []" using that by auto
    ultimately show ?thesis by (auto simp: node_at_def)
  qed
  then have "(\<lambda>j. take (Suc j) k) ` {..<length k} \<subseteq> dom (gm_get (fsNodes fs))" by auto
  moreover have "inj_on (\<lambda>j. take (Suc j) k) {..<length k}"
    by (rule inj_onI) (metis Suc_inject Suc_leI length_take lessThan_iff min.absorb2)
  ultimately have "card {..<length k} \<le> card (dom (gm_get (fsNodes fs)))"
    by (metis card_image card_mono finite_dom_gm_get)
  then show ?thesis by (simp add: gm_len_keys)
qed

end
