(* ===== verification/FileBackend.thy ===== *)
theory FileBackend
  imports FileSystem MemoryBackend
begin

section \<open>The file backend (\<open>object/backend/file/backend.go\<close>, \<open>extended.go\<close>)\<close>

text \<open>
  One definition for each method, over the file system of \<open>FileSystem\<close>, and the functions of
  \<open>path/filepath\<close> they call, on a system whose separator is the slash. \<open>mime.TypeByExtension\<close> is the
  argument \<open>mime\<close>; permission bits are passed to the system, which decides by \<open>fsFault\<close>.
\<close>

subsection \<open>\<open>path/filepath\<close>\<close>

definition path_dir :: "path \<Rightarrow> path" where
  "path_dir p = path_clean (rev (dropWhile (\<lambda>c. c \<noteq> slash) (rev p)))"

definition path_ext :: "path \<Rightarrow> string" where
  "path_ext p =
     (let r = takeWhile (\<lambda>c. c \<noteq> slash) (rev p)
      in if CHR ''.'' \<in> set r then CHR ''.'' # rev (takeWhile (\<lambda>c. c \<noteq> CHR ''.'') r) else [])"

fun drop_common :: "string list \<Rightarrow> string list \<Rightarrow> string list \<times> string list" where
  "drop_common (b # bs) (t # ts) = (if b = t then drop_common bs ts else (b # bs, t # ts))"
| "drop_common bs ts = (bs, ts)"

definition path_rel :: "path \<Rightarrow> path \<Rightarrow> path option" where
  "path_rel basepath targpath =
     (if is_rooted basepath \<noteq> is_rooted targpath then None
      else (case drop_common (cleaned basepath) (cleaned targpath) of
              (b, t) \<Rightarrow>
                if b \<noteq> [] \<and> hd b = dotdot then None
                else if b = [] \<and> t = [] then Some dot
                else Some (join_on slash (map (\<lambda>_. dotdot) b @ t))))"

text \<open>
  \<open>filepath.Walk\<close>: a visit of every file and directory, the names of a directory in order; the visitor
  \<open>fn\<close> gets the path, whether it is a directory and the error of reading it, and threads a state.
  The fuel bounds the depth.
\<close>

type_synonym 's visitor = "path \<Rightarrow> bool \<Rightarrow> os_error option \<Rightarrow> 's \<Rightarrow> object_error option \<times> 's"

fun walk_dir :: "nat \<Rightarrow> fsys \<Rightarrow> 's visitor \<Rightarrow> path \<Rightarrow> bool \<Rightarrow> 's \<Rightarrow> object_error option \<times> 's"
  and walk_names :: "nat \<Rightarrow> fsys \<Rightarrow> 's visitor \<Rightarrow> path \<Rightarrow> string list \<Rightarrow> 's \<Rightarrow> object_error option \<times> 's" where
  "walk_dir f fs fn p False s = fn p False None s"
| "walk_dir 0 fs fn p True s = (None, s)"
| "walk_dir (Suc f) fs fn p True s =
     (case os_ReadDirNames p fs of
        Inl e \<Rightarrow> fn p True (Some e) s
      | Inr names \<Rightarrow>
          (case fn p True None s of
             (Some e, s1) \<Rightarrow> (Some e, s1)
           | (None, s1) \<Rightarrow> walk_names f fs fn p names s1))"
| "walk_names f fs fn p [] s = (None, s)"
| "walk_names f fs fn p (n # ns) s =
     (let filename = path_join [p, n]
      in case (case os_Stat filename fs of
                 Inl e \<Rightarrow> fn filename False (Some e) s
               | Inr st \<Rightarrow> walk_dir f fs fn filename (stIsDir st) s) of
           (Some e, s1) \<Rightarrow> (Some e, s1)
         | (None, s1) \<Rightarrow> walk_names f fs fn p ns s1)"

definition Walk :: "path \<Rightarrow> 's visitor \<Rightarrow> fsys \<Rightarrow> 's \<Rightarrow> object_error option \<times> 's" where
  "Walk root fn fs s =
     (case os_Stat root fs of
        Inl e \<Rightarrow> fn root False (Some e) s
      | Inr st \<Rightarrow> walk_dir (Suc (gm_len (fsNodes fs))) fs fn root (stIsDir st) s)"

subsection \<open>The backend\<close>

record FileConfig =
  fcRoot :: path
  fcCreateDirs :: bool
  fcDirPermissions :: nat
  fcFilePermissions :: nat

definition file_DefaultConfig :: FileConfig where
  "file_DefaultConfig = \<lparr>fcRoot = dot, fcCreateDirs = True, fcDirPermissions = 493, fcFilePermissions = 420\<rparr>"

record file_backend =
  fbConfig :: FileConfig
  fbClosed :: bool

definition file_New :: "FileConfig \<Rightarrow> file_backend" where
  "file_New config =
     (let c1 = (if fcRoot config = [] then config\<lparr>fcRoot := dot\<rparr> else config);
          c2 = (if fcDirPermissions c1 = 0 then c1\<lparr>fcDirPermissions := 493\<rparr> else c1);
          c3 = (if fcFilePermissions c2 = 0 then c2\<lparr>fcFilePermissions := 420\<rparr> else c2)
      in \<lparr>fbConfig = c3, fbClosed = False\<rparr>)"

definition file_NewFromConfig :: "(string, string) gomap \<Rightarrow> file_backend" where
  "file_NewFromConfig configMap =
     (let c1 = (case gm_get configMap ''root'' of
                  Some root \<Rightarrow> if root \<noteq> [] then file_DefaultConfig\<lparr>fcRoot := root\<rparr> else file_DefaultConfig
                | None \<Rightarrow> file_DefaultConfig);
          c2 = (case gm_get configMap ''create_dirs'' of
                  Some createDirs \<Rightarrow> c1\<lparr>fcCreateDirs := (createDirs \<noteq> ''false'')\<rparr>
                | None \<Rightarrow> c1)
      in file_New c2)"

definition fb_checkClosed :: "file_backend \<Rightarrow> object_error option" where
  "fb_checkClosed b = (if fbClosed b then Some ErrBackendClosed else None)"

definition fb_validatePath :: "path \<Rightarrow> object_error option" where
  "fb_validatePath p =
     (if p = [] then Some ErrInvalidPath
      else let c = path_clean p
           in if has_prefix c dotdot \<or> str_contains c ''../'' then Some ErrInvalidPath else None)"

definition fb_fullPath :: "file_backend \<Rightarrow> path \<Rightarrow> path" where
  "fb_fullPath b p = path_join [fcRoot (fbConfig b), p]"

definition fb_Close :: "file_backend \<Rightarrow> file_backend" where
  "fb_Close b = b\<lparr>fbClosed := True\<rparr>"

text \<open>The error of a failed call, and what most methods make of it.\<close>

definition os_err :: "os_error \<Rightarrow> object_error" where
  "os_err e =
     Errorf (case e of ENOENT \<Rightarrow> ''no such file or directory'' | EACCES \<Rightarrow> ''permission denied''
             | EEXIST \<Rightarrow> ''file exists'' | ENOTDIR \<Rightarrow> ''not a directory'' | EISDIR \<Rightarrow> ''is a directory''
             | ENOTEMPTY \<Rightarrow> ''directory not empty'' | EINVAL \<Rightarrow> ''invalid argument''
             | EBADF \<Rightarrow> ''file already closed'' | EXDEV \<Rightarrow> ''invalid cross-device link'' | EIO \<Rightarrow> ''input/output error'')"

definition os_translate :: "string \<Rightarrow> os_error \<Rightarrow> object_error" where
  "os_translate msg e =
     (if IsNotExist e then ErrNotFound
      else if IsPermission e then ErrPermissionDenied
      else Wrapf msg (os_err e))"

text \<open>The parent directories of a file that is about to be made.\<close>

definition fb_parents :: "file_backend \<Rightarrow> path \<Rightarrow> fsys \<Rightarrow> object_error option \<times> fsys" where
  "fb_parents b full fs =
     (if fcCreateDirs (fbConfig b)
      then (case os_MkdirAll (path_dir full) fs of
              (Some e, fs1) \<Rightarrow> (Some (Wrapf ''creating directory'' (os_err e)), fs1)
            | (None, fs1) \<Rightarrow> (None, fs1))
      else (None, fs))"

definition fb_NewWriter :: "ctx \<Rightarrow> path \<Rightarrow> file_backend \<Rightarrow> fsys \<Rightarrow> nat res \<times> fsys" where
  "fb_NewWriter ctx p b fs =
     (case first_error [fb_checkClosed b, ctx 0, fb_validatePath p] of
        Some e \<Rightarrow> (Inl e, fs)
      | None \<Rightarrow>
          (case fb_parents b (fb_fullPath b p) fs of
             (Some e, fs1) \<Rightarrow> (Inl e, fs1)
           | (None, fs1) \<Rightarrow>
               (case os_Create (fb_fullPath b p) fs1 of
                  (Inl e, fs2) \<Rightarrow> (Inl (Wrapf ''creating file'' (os_err e)), fs2)
                | (Inr h, fs2) \<Rightarrow> (Inr h, fs2))))"

text \<open>A reader is the open file, with the bytes left of the limit if there is one.\<close>

record limitedReadCloser =
  lrFile :: nat
  lrLimit :: "int option"

definition fb_NewReader ::
  "ctx \<Rightarrow> path \<Rightarrow> ReaderOption list \<Rightarrow> file_backend \<Rightarrow> fsys \<Rightarrow> limitedReadCloser res \<times> fsys" where
  "fb_NewReader ctx p opts b fs =
     (case first_error [fb_checkClosed b, ctx 0, fb_validatePath p] of
        Some e \<Rightarrow> (Inl e, fs)
      | None \<Rightarrow>
          (case os_Open (fb_fullPath b p) fs of
             (Inl e, fs1) \<Rightarrow> (Inl (os_translate ''opening file'' e), fs1)
           | (Inr h, fs1) \<Rightarrow>
               let config = ApplyReaderOptions opts
               in case (if rcOffset config > 0 then os_Seek h (rcOffset config) fs1 else (None, fs1)) of
                    (Some e, fs2) \<Rightarrow> (Inl (Wrapf ''seeking to offset'' (os_err e)), snd (os_CloseFile h fs2))
                  | (None, fs2) \<Rightarrow>
                      (Inr \<lparr>lrFile = h, lrLimit = (if rcLimit config > 0 then Some (rcLimit config) else None)\<rparr>, fs2)))"

definition lr_Read :: "nat \<Rightarrow> limitedReadCloser \<Rightarrow> fsys \<Rightarrow> (bytes \<times> object_error option) \<times> limitedReadCloser \<times> fsys" where
  "lr_Read n r fs =
     (case lrLimit r of
        None \<Rightarrow> (case os_Read (lrFile r) n fs of (x, fs1) \<Rightarrow> (x, r, fs1))
      | Some l \<Rightarrow>
          if l \<le> 0 then (([], Some EOF), r, fs)
          else (case os_Read (lrFile r) (min n (nat l)) fs of
                  ((d, e), fs1) \<Rightarrow> ((d, e), r\<lparr>lrLimit := Some (l - int (length d))\<rparr>, fs1)))"

definition lr_Close :: "limitedReadCloser \<Rightarrow> fsys \<Rightarrow> os_error option \<times> fsys" where
  "lr_Close r fs = os_CloseFile (lrFile r) fs"

definition fb_Exists :: "ctx \<Rightarrow> path \<Rightarrow> file_backend \<Rightarrow> fsys \<Rightarrow> bool res" where
  "fb_Exists ctx p b fs =
     (case first_error [fb_checkClosed b, ctx 0, fb_validatePath p] of
        Some e \<Rightarrow> Inl e
      | None \<Rightarrow>
          (case os_Stat (fb_fullPath b p) fs of
             Inr st \<Rightarrow> Inr True
           | Inl e \<Rightarrow> if IsNotExist e then Inr False else Inl (Wrapf ''checking existence'' (os_err e))))"

definition fb_Delete :: "ctx \<Rightarrow> path \<Rightarrow> file_backend \<Rightarrow> fsys \<Rightarrow> object_error option \<times> fsys" where
  "fb_Delete ctx p b fs =
     (case first_error [fb_checkClosed b, ctx 0, fb_validatePath p] of
        Some e \<Rightarrow> (Some e, fs)
      | None \<Rightarrow>
          (case os_Remove (fb_fullPath b p) fs of
             (None, fs1) \<Rightarrow> (None, fs1)
           | (Some e, fs1) \<Rightarrow>
               if IsNotExist e then (None, fs1)
               else if IsPermission e then (Some ErrPermissionDenied, fs1)
               else (Some (Wrapf ''deleting'' (os_err e)), fs1)))"

text \<open>The visitor of \<open>List\<close>; its state is the number of polls so far, the paths, and whether the error is \<open>os.IsNotExist\<close>.\<close>

definition list_visit :: "ctx \<Rightarrow> path \<Rightarrow> (nat \<times> path list \<times> bool) visitor" where
  "list_visit ctx root p isdir err s =
     (case s of (i, paths, ne) \<Rightarrow>
        case ctx i of
          Some e \<Rightarrow> (Some e, (i, paths, False))
        | None \<Rightarrow>
            (case err of
               Some e \<Rightarrow>
                 if IsPermission e then (None, (i + 1, paths, ne))
                 else (Some (os_err e), (i + 1, paths, IsNotExist e))
             | None \<Rightarrow>
                 if isdir then (None, (i + 1, paths, ne))
                 else (case path_rel root p of
                         None \<Rightarrow> (Some (Errorf ''Rel: cannot make path relative''), (i + 1, paths, False))
                       | Some rel \<Rightarrow> (None, (i + 1, paths @ [rel], ne)))))"

definition fb_List :: "ctx \<Rightarrow> path \<Rightarrow> file_backend \<Rightarrow> fsys \<Rightarrow> path list res" where
  "fb_List ctx pre b fs =
     (case first_error [fb_checkClosed b, ctx 0] of
        Some e \<Rightarrow> Inl e
      | None \<Rightarrow>
          let root = (if pre \<noteq> [] then fb_fullPath b pre else fcRoot (fbConfig b))
          in case Walk root (list_visit ctx (fcRoot (fbConfig b))) fs (1, [], False) of
               (Some e, (_, _, ne)) \<Rightarrow> if ne then Inr [] else Inl (Wrapf ''listing'' e)
             | (None, (_, paths, _)) \<Rightarrow> Inr paths)"

subsection \<open>The extended methods\<close>

definition fb_Stat :: "(string \<Rightarrow> string) \<Rightarrow> ctx \<Rightarrow> path \<Rightarrow> file_backend \<Rightarrow> fsys \<Rightarrow> ObjectInfo res" where
  "fb_Stat mime ctx p b fs =
     (case first_error [fb_checkClosed b, ctx 0, fb_validatePath p] of
        Some e \<Rightarrow> Inl e
      | None \<Rightarrow>
          (case os_Stat (fb_fullPath b p) fs of
             Inl e \<Rightarrow> Inl (os_translate ''stat'' e)
           | Inr st \<Rightarrow>
               Inr \<lparr>ObjectPath = p, ObjectSize = stSize st, ObjectModTime = stModTime st, ObjectIsDir = stIsDir st,
                    ObjectContentType = (if \<not> stIsDir st \<and> path_ext p \<noteq> [] then mime (path_ext p) else []),
                    ObjectHashes = gm_empty, ObjectMetadata = gm_empty\<rparr>))"

definition fb_Mkdir :: "ctx \<Rightarrow> path \<Rightarrow> file_backend \<Rightarrow> fsys \<Rightarrow> object_error option \<times> fsys" where
  "fb_Mkdir ctx p b fs =
     (case first_error [fb_checkClosed b, ctx 0, fb_validatePath p] of
        Some e \<Rightarrow> (Some e, fs)
      | None \<Rightarrow>
          (case os_MkdirAll (fb_fullPath b p) fs of
             (None, fs1) \<Rightarrow> (None, fs1)
           | (Some e, fs1) \<Rightarrow>
               if IsPermission e then (Some ErrPermissionDenied, fs1) else (Some (Wrapf ''mkdir'' (os_err e)), fs1)))"

definition fb_Rmdir :: "ctx \<Rightarrow> path \<Rightarrow> file_backend \<Rightarrow> fsys \<Rightarrow> object_error option \<times> fsys" where
  "fb_Rmdir ctx p b fs =
     (case first_error [fb_checkClosed b, ctx 0, fb_validatePath p] of
        Some e \<Rightarrow> (Some e, fs)
      | None \<Rightarrow>
          (case os_Stat (fb_fullPath b p) fs of
             Inl e \<Rightarrow> (Some (os_translate ''stat'' e), fs)
           | Inr st \<Rightarrow>
               if \<not> stIsDir st then (Some (Errorf ''rmdir: not a directory''), fs)
               else (case os_Remove (fb_fullPath b p) fs of
                       (None, fs1) \<Rightarrow> (None, fs1)
                     | (Some e, fs1) \<Rightarrow>
                         if IsPermission e then (Some ErrPermissionDenied, fs1)
                         else (Some (Wrapf ''rmdir'' (os_err e)), fs1))))"

text \<open>The deferred calls close the source, and the destination where the code has not.\<close>

definition fb_copyFile :: "path \<Rightarrow> path \<Rightarrow> fsys \<Rightarrow> object_error option \<times> fsys" where
  "fb_copyFile src dst fs =
     (case os_Open src fs of
        (Inl e, fs1) \<Rightarrow> (Some (Wrapf ''open source'' (os_err e)), fs1)
      | (Inr s, fs1) \<Rightarrow>
          (case os_Create dst fs1 of
             (Inl e, fs2) \<Rightarrow> (Some (Wrapf ''create destination'' (os_err e)), snd (os_CloseFile s fs2))
           | (Inr d, fs2) \<Rightarrow>
               (case os_io_copy d s fs2 of
                  (Some e, fs3) \<Rightarrow> (Some (Wrapf ''copy data'' (os_err e)), snd (os_CloseFile s (snd (os_CloseFile d fs3))))
                | (None, fs3) \<Rightarrow>
                    (case os_CloseFile d fs3 of
                       (e, fs4) \<Rightarrow> (map_option os_err e, snd (os_CloseFile s fs4))))))"

definition fb_Copy :: "ctx \<Rightarrow> path \<Rightarrow> path \<Rightarrow> file_backend \<Rightarrow> fsys \<Rightarrow> object_error option \<times> fsys" where
  "fb_Copy ctx src dst b fs =
     (case first_error [fb_checkClosed b, ctx 0, fb_validatePath src, fb_validatePath dst] of
        Some e \<Rightarrow> (Some e, fs)
      | None \<Rightarrow>
          let srcPath = fb_fullPath b src; dstPath = fb_fullPath b dst
          in case os_Stat srcPath fs of
               Inl e \<Rightarrow> (Some (os_translate ''stat'' e), fs)
             | Inr srcInfo \<Rightarrow>
                 if stIsDir srcInfo then (Some (Errorf ''copy: source is a directory''), fs)
                 else (case fb_parents b dstPath fs of
                         (Some e, fs1) \<Rightarrow> (Some e, fs1)
                       | (None, fs1) \<Rightarrow> fb_copyFile srcPath dstPath fs1))"

definition fb_Move :: "ctx \<Rightarrow> path \<Rightarrow> path \<Rightarrow> file_backend \<Rightarrow> fsys \<Rightarrow> object_error option \<times> fsys" where
  "fb_Move ctx src dst b fs =
     (case first_error [fb_checkClosed b, ctx 0, fb_validatePath src, fb_validatePath dst] of
        Some e \<Rightarrow> (Some e, fs)
      | None \<Rightarrow>
          let srcPath = fb_fullPath b src; dstPath = fb_fullPath b dst
          in case os_Stat srcPath fs of
               Inl e \<Rightarrow> (Some (os_translate ''stat'' e), fs)
             | Inr _ \<Rightarrow>
                 (case fb_parents b dstPath fs of
                    (Some e, fs1) \<Rightarrow> (Some e, fs1)
                  | (None, fs1) \<Rightarrow>
                      (case os_Rename srcPath dstPath fs1 of
                         (None, fs2) \<Rightarrow> (None, fs2)
                       | (Some _, fs2) \<Rightarrow>
                           (case fb_copyFile srcPath dstPath fs2 of
                              (Some e, fs3) \<Rightarrow> (Some e, fs3)
                            | (None, fs3) \<Rightarrow> (case os_Remove srcPath fs3 of (e, fs4) \<Rightarrow> (map_option os_err e, fs4))))))"

definition fb_Features :: Features where
  "fb_Features =
     \<lparr>fCopy = True, fMove = True, fMkdir = True, fRmdir = True, fStat = True, fHashes = [], fCanStream = True,
      fServerSideEncryption = False, fVersioning = False, fRangeRead = True, fListPrefix = True,
      fSetModTime = False, fCustomMetadata = False\<rparr>"

text \<open>The directory of a path.\<close>

lemma path_dir_cases:
  obtains "slash \<notin> set q" "path_dir q = dot"
  | v c where "q = v @ slash # c" "slash \<notin> set c" "path_dir q = path_clean (v @ [slash])"
proof (cases "slash \<in> set q")
  case True
  then obtain v c where q: "q = v @ slash # c" "slash \<notin> set c" using split_list_last by metis
  then have "dropWhile (\<lambda>x. x \<noteq> slash) (rev q) = slash # rev v" by (auto simp: dropWhile_append)
  then have "path_dir q = path_clean (v @ [slash])" by (simp add: path_dir_def)
  with q show ?thesis using that by blast
next
  case False
  then have dw: "dropWhile (\<lambda>x. x \<noteq> slash) (rev q) = []" by (auto simp: dropWhile_eq_Nil_conv)
  have "path_clean [] = dot" by code_simp
  then have "path_dir q = dot" unfolding path_dir_def dw by simp
  with False show ?thesis using that by blast
qed

lemma locate_path_dir:
  assumes "proper_name (last (split_on slash q))"
  shows "locate fs (path_dir q) = butlast (locate fs q)"
proof (cases q rule: path_dir_cases)
  case 1
  have s: "split_on slash q = [q]" by (rule split_on_free[OF 1(1)])
  then have "proper_name q" using assms by simp
  moreover from 1(1) have "\<not> is_rooted q" by (cases q) (auto simp: is_rooted_def has_prefix_def)
  ultimately have "locate fs q = clean_comps True (fsCwd fs) @ [q]"
    using s clean_fold_names[of "[q]" True] by (simp add: locate_def clean_comps_def)
  moreover have "locate fs dot = clean_comps True (fsCwd fs)"
    by (simp add: locate_def clean_comps_def clean_step_def is_rooted_def has_prefix_def)
  ultimately show ?thesis using 1(2) by simp
next
  case (2 v c)
  have s: "split_on slash q = split_on slash v @ [c]" "split_on slash (v @ [slash]) = split_on slash v @ [[]]"
    using 2 by (simp_all add: split_on_concat split_on_free)
  have c: "proper_name c" using assms s by simp
  have r: "is_rooted q = is_rooted (v @ [slash])"
    using 2(1) by (cases v) (simp_all add: is_rooted_def has_prefix_def)
  have "locate fs q = locate fs (v @ [slash]) @ [c]"
    using clean_fold_names[of "[c]" True] c
    by (cases "is_rooted q") (simp_all add: locate_def s r clean_comps_def clean_fold_Nil)
  then show ?thesis using 2(3) by simp
qed

subsection \<open>Where paths lead\<close>

lemma valid_relative:
  assumes "fb_validatePath p = None" "\<not> is_rooted p"
  shows "p \<noteq> []" "\<forall>n \<in> set (cleaned p). proper_name n"
proof -
  show p: "p \<noteq> []" using assms(1) by (auto simp: fb_validatePath_def)
  obtain k ns where c: "cleaned p = replicate k dotdot @ ns" "\<forall>n \<in> set ns. proper_name n"
    using cleaned_canonical[of p] by (rule canonicalE)
  have "k = 0"
  proof (rule ccontr)
    assume "k \<noteq> 0"
    then obtain j where "k = Suc j" by (cases k) auto
    then have "cleaned p = dotdot # (replicate j dotdot @ ns)" using c by simp
    then have "path_clean p = join_on slash (dotdot # (replicate j dotdot @ ns))"
      using path_clean_relative[OF assms(2)] by simp
    then have "has_prefix (path_clean p) dotdot"
      by (cases "replicate j dotdot @ ns") (auto simp: has_prefix_def)
    then show False using assms(1) p by (simp add: fb_validatePath_def Let_def)
  qed
  then show "\<forall>n \<in> set (cleaned p). proper_name n" using c by simp
qed

text \<open>C30: A relative path that passes validation stays below the root: the place the operating system is sent to is the root's, extended by the path's own cleaned names, none of which is a dot, two dots or empty, whatever the root and the current directory are.\<close>

theorem file_relative_confined:
  assumes "fb_validatePath p = None" and "\<not> is_rooted p" and "fcRoot (fbConfig b) \<noteq> []"
  shows "locate fs (fb_fullPath b p) = locate fs (fcRoot (fbConfig b)) @ cleaned p \<and>
    (\<forall>n \<in> set (cleaned p). proper_name n)"
  using valid_relative[OF assms(1,2)] cleaned_join_names(2)[OF assms(3) _ assms(2)]
  by (simp add: fb_fullPath_def)

text \<open>A path with inner dots in a relative root, from a current directory.\<close>

theorem file_relative_confined_witness:
  "locate (undefined\<lparr>fsCwd := [''home'', ''me'']\<rparr>) (fb_fullPath (file_New (file_DefaultConfig\<lparr>fcRoot := ''../data''\<rparr>)) ''a/./b/../c'') =
     locate (undefined\<lparr>fsCwd := [''home'', ''me'']\<rparr>) (fcRoot (fbConfig (file_New (file_DefaultConfig\<lparr>fcRoot := ''../data''\<rparr>)))) @ [''a'', ''c''] \<and>
   proper_name ''a'' \<and> proper_name ''c''"
proof -
  have c: "cleaned ''a/./b/../c'' = [''a'', ''c'']" by code_simp
  have "fb_validatePath ''a/./b/../c'' = None" "\<not> is_rooted ''a/./b/../c''" by code_simp+
  moreover have "fcRoot (fbConfig (file_New (file_DefaultConfig\<lparr>fcRoot := ''../data''\<rparr>))) \<noteq> []" by code_simp
  ultimately show ?thesis
    using file_relative_confined[of "''a/./b/../c''" "file_New (file_DefaultConfig\<lparr>fcRoot := ''../data''\<rparr>)"
        "undefined\<lparr>fsCwd := [''home'', ''me'']\<rparr>"] unfolding c by simp
qed

text \<open>
  A rooted path is checked after it has been cleaned as a rooted one, where leading \<open>..\<close> components
  disappear, but joined to the root uncleaned, where they climb.
\<close>

definition climbing :: "nat \<Rightarrow> path \<Rightarrow> path" where
  "climbing k q = slash # concat (replicate k ''../'') @ q"

lemma split_climbing: "split_on slash (climbing k q) = [] # replicate k dotdot @ split_on slash q"
proof -
  have "split_on slash (concat (replicate k ''../'') @ q) = replicate k dotdot @ split_on slash q"
    by (induction k) simp_all
  then show ?thesis by (simp add: climbing_def)
qed

lemma fold_dotdots_rooted:
  "\<forall>n \<in> set out. proper_name n \<Longrightarrow> foldl (clean_step True) out (replicate k dotdot) = drop k out"
proof (induction k arbitrary: out)
  case (Suc k)
  have "clean_step True out dotdot = drop 1 out"
    using Suc.prems by (cases out) (auto simp: clean_step_def proper_name_def)
  then show ?case using Suc by (simp add: in_set_dropD)
qed simp

lemma clean_climbing:
  assumes "\<forall>n \<in> set out. proper_name n" "plain_key q" "length out \<le> k"
  shows "foldl (clean_step True) out (split_on slash (climbing k q)) = rev (split_on slash q)"
  using assms fold_dotdots_rooted[of out k] clean_fold_names[of "split_on slash q" True]
  by (simp add: split_climbing clean_step_def plain_key_def)

lemma join_escapes:
  assumes "is_rooted root" and "p \<noteq> []"
    and "\<And>out. \<forall>n \<in> set out. proper_name n \<Longrightarrow> length out = length (cleaned root) \<Longrightarrow>
      foldl (clean_step True) out (split_on slash p) = rev (split_on slash q)"
  shows "path_join [root, p] = slash # q"
proof -
  have root: "root \<noteq> []" using assms(1) by (auto simp: is_rooted_def has_prefix_def)
  have rc: "foldl (clean_step True) [] (split_on slash root) = rev (cleaned root)"
    using assms(1) by (simp add: clean_comps_def)
  have "\<forall>n \<in> set (rev (cleaned root)). proper_name n"
    using canonicalE[OF cleaned_canonical[of root]] assms(1) by (metis append_Nil replicate_0 set_rev)
  then have "foldl (clean_step True) [] (split_on slash root @ split_on slash p) = rev (split_on slash q)"
    unfolding foldl_append rc by (intro assms(3)) simp_all
  then have c: "cleaned (path_join [root, p]) = split_on slash q"
    unfolding clean_join(1)[OF root assms(2)] using assms(1) by (simp add: clean_comps_def)
  have "path_join [root, p] = path_clean (path_join [root, p])"
    using root assms(2) by (simp add: join_two)
  also have "\<dots> = slash # q"
    using path_clean_rooted[of "path_join [root, p]"] clean_join(2)[OF root assms(2)] assms(1) c by simp
  finally show ?thesis .
qed

text \<open>A rooted path escapes from the root: behind as many \<open>..\<close> as an absolute root has directories, any file of the system whatever passes validation and is what the operation works on.\<close>

theorem file_rooted_escapes:
  assumes "is_rooted (fcRoot (fbConfig b))" and "plain_key q" and "\<not> str_contains q ''../''"
    and "length (cleaned (fcRoot (fbConfig b))) \<le> k"
  shows "fb_validatePath (climbing k q) = None \<and> fb_fullPath b (climbing k q) = slash # q"
proof
  let ?p = "climbing k q" let ?root = "fcRoot (fbConfig b)"
  have r: "is_rooted ?p" "?p \<noteq> []" by (simp_all add: climbing_def)
  have "cleaned ?p = split_on slash q"
    using clean_climbing[of "[]" q k] assms(2) r(1) by (simp add: clean_comps_def)
  then have pc: "path_clean ?p = slash # q" using path_clean_rooted[OF r(1)] by simp
  have "\<not> has_prefix (slash # q) dotdot" by (simp add: has_prefix_def)
  moreover have "\<not> str_contains (slash # q) ''../''"
    using assms(3) by (simp add: str_contains_def sublist_Cons_right)
  ultimately show "fb_validatePath ?p = None" by (simp add: fb_validatePath_def pc r(2) Let_def)
  have "path_join [?root, ?p] = slash # q"
    using clean_climbing[OF _ assms(2)] assms(4) by (intro join_escapes[OF assms(1) r(2)]) auto
  then show "fb_fullPath b ?p = slash # q" by (simp add: fb_fullPath_def)
qed

text \<open>The password file behind a root two directories deep.\<close>

theorem file_rooted_escapes_witness:
  "fb_validatePath ''/../../etc/passwd'' = None \<and>
   fb_fullPath (file_New (file_DefaultConfig\<lparr>fcRoot := ''/srv/data''\<rparr>)) ''/../../etc/passwd'' = ''/etc/passwd''"
proof -
  have "climbing 2 ''etc/passwd'' = ''/../../etc/passwd''" by code_simp
  moreover have "plain_key ''etc/passwd''" "\<not> str_contains ''etc/passwd'' ''../''" by code_simp+
  moreover have "is_rooted (fcRoot (fbConfig (file_New (file_DefaultConfig\<lparr>fcRoot := ''/srv/data''\<rparr>))))"
    "length (cleaned (fcRoot (fbConfig (file_New (file_DefaultConfig\<lparr>fcRoot := ''/srv/data''\<rparr>))))) \<le> 2" by code_simp+
  ultimately show ?thesis
    using file_rooted_escapes[of "file_New (file_DefaultConfig\<lparr>fcRoot := ''/srv/data''\<rparr>)" "''etc/passwd''" 2] by simp
qed

subsection \<open>Writing and reading\<close>

text \<open>A backend that is open, and a path it takes: relative, valid, and not the root itself.\<close>

definition fb_takes :: "file_backend \<Rightarrow> path \<Rightarrow> bool" where
  "fb_takes b p =
     (\<not> fbClosed b \<and> fcCreateDirs (fbConfig b) \<and> fcRoot (fbConfig b) \<noteq> [] \<and>
      fb_validatePath p = None \<and> \<not> is_rooted p \<and> cleaned p \<noteq> [])"

lemma fb_takes_guards: "fb_takes b p \<Longrightarrow> first_error [fb_checkClosed b, None, fb_validatePath p] = None"
  by (simp add: fb_takes_def fb_checkClosed_def)

lemma fb_takes_location:
  assumes "fb_takes b p"
  shows "locate fs (fb_fullPath b p) = locate fs (fcRoot (fbConfig b)) @ cleaned p"
    "locate fs (fb_fullPath b p) \<noteq> []"
    "locate fs (path_dir (fb_fullPath b p)) = butlast (locate fs (fb_fullPath b p))"
proof -
  let ?root = "fcRoot (fbConfig b)"
  have p: "p \<noteq> []" "\<not> is_rooted p" "\<forall>n \<in> set (cleaned p). proper_name n" "?root \<noteq> []" "cleaned p \<noteq> []"
    using assms valid_relative[of p] by (auto simp: fb_takes_def)
  show 1: "locate fs (fb_fullPath b p) = locate fs ?root @ cleaned p"
    unfolding fb_fullPath_def using p by (intro cleaned_join_names(2)) simp_all
  then show "locate fs (fb_fullPath b p) \<noteq> []" using p by simp
  have c: "cleaned (path_join [?root, p]) = cleaned ?root @ cleaned p"
    using p by (intro cleaned_join_names(1)) simp_all
  have "path_join [?root, p] = path_clean (path_join [?root, p])" using p by (simp add: join_two)
  then have "last (split_on slash (path_join [?root, p])) = last (cleaned p)"
    using arg_cong[of _ _ "split_on slash"] split_cleaned[of "path_join [?root, p]"] p(5) unfolding c by fastforce
  then show "locate fs (path_dir (fb_fullPath b p)) = butlast (locate fs (fb_fullPath b p))"
    using p(3,5) by (intro locate_path_dir) (simp add: fb_fullPath_def)
qed

text \<open>The directories are made, and the file is created or emptied.\<close>

lemma fb_parents_effect:
  assumes "fs_ok fs" "faultless fs" "fb_takes b p" "clear_way fs (butlast (locate fs (fb_fullPath b p)))"
  shows "\<exists>fs1. fb_parents b (fb_fullPath b p) fs = (None, fs1) \<and> fs_ok fs1 \<and> same_system fs fs1 \<and>
    fsHandles fs1 = fsHandles fs \<and> fs_file fs1 = fs_file fs \<and>
    node_at fs1 = (\<lambda>l. if prefix l (butlast (locate fs (fb_fullPath b p))) then Some FDir else node_at fs l)"
proof -
  let ?L = "locate fs (fb_fullPath b p)"
  have names: "\<forall>c \<in> set (butlast ?L). proper_name c"
    using locate_names[OF assms(1)] by (meson in_set_butlastD)
  obtain m where m: "mkdirs_from [] (butlast ?L) fs = (None, fs\<lparr>fsNodes := m\<rparr>)" "fs_ok (fs\<lparr>fsNodes := m\<rparr>)"
    "node_at (fs\<lparr>fsNodes := m\<rparr>) = (\<lambda>l. if prefix l (butlast ?L) then Some FDir else node_at fs l)"
    using mkdirs_effect[OF assms(1,2), of "[]" "butlast ?L"] names assms(4) by auto
  have "fs_file (fs\<lparr>fsNodes := m\<rparr>) = fs_file fs"
  proof
    fix l
    show "fs_file (fs\<lparr>fsNodes := m\<rparr>) l = fs_file fs l"
    proof (cases "prefix l (butlast ?L)")
      case True
      then have "fs_file fs l = None" using assms(4) by (simp add: clear_way_def)
      then show ?thesis using True by (simp add: fs_file_def[of "fs\<lparr>fsNodes := m\<rparr>"] m(3))
    qed (simp add: fs_file_def m(3) split: option.splits fs_node.splits)
  qed
  moreover have "fb_parents b (fb_fullPath b p) fs = (None, fs\<lparr>fsNodes := m\<rparr>)"
    using assms(3) m(1) fb_takes_location(3)[OF assms(3)]
    by (simp add: fb_parents_def os_MkdirAll_def fb_takes_def)
  ultimately show ?thesis using m(2,3) by (intro exI[of _ "fs\<lparr>fsNodes := m\<rparr>"]) (simp add: same_system_def)
qed

text \<open>After that, the place of the file is ready to be made.\<close>

lemma fb_parents_ready:
  assumes "fs_ok fs" "faultless fs" "fb_takes b p" "clear_way fs (butlast (locate fs (fb_fullPath b p)))"
    and "\<not> fs_dir fs (locate fs (fb_fullPath b p))"
  obtains fs1 where "fb_parents b (fb_fullPath b p) fs = (None, fs1)" "fs_ok fs1" "faultless fs1" "same_system fs fs1"
    "fs_file fs1 = fs_file fs" "\<And>q. locate fs1 q = locate fs q" "locate fs (fb_fullPath b p) \<noteq> []"
    "fs_dir fs1 (butlast (locate fs (fb_fullPath b p)))" "\<not> fs_dir fs1 (locate fs (fb_fullPath b p))"
    "\<And>l. fs_dir fs1 l = (fs_dir fs l \<or> prefix l (butlast (locate fs (fb_fullPath b p))))" "fsHandles fs1 = fsHandles fs"
proof -
  let ?L = "locate fs (fb_fullPath b p)"
  obtain fs1 where 1: "fb_parents b (fb_fullPath b p) fs = (None, fs1)" "fs_ok fs1" "same_system fs fs1"
    "fsHandles fs1 = fsHandles fs" "fs_file fs1 = fs_file fs"
    and n: "node_at fs1 = (\<lambda>l. if prefix l (butlast ?L) then Some FDir else node_at fs l)"
    using fb_parents_effect[OF assms(1-4)] by blast
  have L: "?L \<noteq> []" using fb_takes_location(2)[OF assms(3)] .
  show ?thesis
    using that[OF 1(1,2) _ 1(3,5) same_system_locate[OF 1(3)] L _ _ _ 1(4)] same_system_faultless[OF 1(3)] assms(2,5)
      not_prefix_butlast[OF L] by (simp add: n)
qed

lemma fb_create_effect:
  assumes "fs_ok fs" "faultless fs" "fb_takes b p" "clear_way fs (butlast (locate fs (fb_fullPath b p)))"
    and "node_at fs (locate fs (fb_fullPath b p)) \<noteq> Some FDir"
  shows "\<exists>fs1 fs2. fb_parents b (fb_fullPath b p) fs = (None, fs1) \<and>
    os_Create (fb_fullPath b p) fs1 = (Inr (length (fsHandles fs)), fs2) \<and> fs_ok fs2 \<and> same_system fs fs2 \<and>
    fs_file fs2 = (fs_file fs)(locate fs (fb_fullPath b p) := Some []) \<and>
    writing fs2 (length (fsHandles fs)) (locate fs (fb_fullPath b p)) [] \<and>
    (\<forall>l. fs_dir fs2 l = (fs_dir fs l \<or> prefix l (butlast (locate fs (fb_fullPath b p)))))"
proof (rule fb_parents_ready[OF assms])
  let ?L = "locate fs (fb_fullPath b p)"
  fix fs1
  assume 1: "fb_parents b (fb_fullPath b p) fs = (None, fs1)" "fs_ok fs1" "faultless fs1" "same_system fs fs1"
    "fs_file fs1 = fs_file fs" "locate fs1 q = locate fs q" "?L \<noteq> []" "fs_dir fs1 (butlast ?L)" "\<not> fs_dir fs1 ?L"
    "fs_dir fs1 l = (fs_dir fs l \<or> prefix l (butlast ?L))" "fsHandles fs1 = fsHandles fs" for q l
  obtain fs2 i where "os_Create (fb_fullPath b p) fs1 = (Inr (length (fsHandles fs1)), fs2)" "fs_ok fs2"
    "same_system fs1 fs2" "fs_file fs2 = (fs_file fs1)(?L := Some [])" "writing fs2 (length (fsHandles fs1)) ?L []"
    and n: "node_at fs2 = (node_at fs1)(?L \<mapsto> FFile i)"
    using os_Create_effect[OF 1(2,3,6,7) locate_names[OF assms(1)] 1(8,9)] by blast
  moreover have "fs_dir fs2 l = (fs_dir fs l \<or> prefix l (butlast ?L))" for l using 1(9,10) by (simp add: n)
  ultimately show ?thesis using 1(1,5,11) same_system_trans[OF 1(4)]
    by (intro exI[of _ fs1] exI[of _ fs2]) simp
qed

text \<open>Reads into a buffer of \<open>n\<close> bytes up to the first error.\<close>

fun lr_ReadAll :: "nat \<Rightarrow> nat \<Rightarrow> limitedReadCloser \<Rightarrow> fsys \<Rightarrow> (bytes \<times> object_error) option" where
  "lr_ReadAll 0 n r fs = None"
| "lr_ReadAll (Suc f) n r fs =
     (case lr_Read n r fs of
        ((d, Some e), _) \<Rightarrow> Some (d, e)
      | ((d, None), r1, fs1) \<Rightarrow> map_option (\<lambda>(ds, e). (d @ ds, e)) (lr_ReadAll f n r1 fs1))"

definition lr_rest :: "limitedReadCloser \<Rightarrow> nat \<Rightarrow> bytes \<Rightarrow> bytes" where
  "lr_rest r off d = (case lrLimit r of None \<Rightarrow> drop off d | Some l \<Rightarrow> take (nat l) (drop off d))"

definition reading :: "fsys \<Rightarrow> nat \<Rightarrow> nat \<Rightarrow> bytes \<Rightarrow> bool" where
  "reading fs h off d =
     (h < length (fsHandles fs) \<and>
      (\<exists>i. fsHandles fs ! h = \<lparr>fhInode = Some i, fhOffset = off, fhOpen = True\<rparr> \<and> inData (fsInodes fs ! i) = d))"

lemma lr_ReadAll_reading:
  assumes "0 < n" "reading fs (lrFile r) off d" "length (lr_rest r off d) < f"
  shows "lr_ReadAll f n r fs = Some (lr_rest r off d, EOF)"
  using assms(2-)
proof (induction f arbitrary: r fs off)
  case (Suc f)
  let ?h = "lrFile r" let ?W = "lr_rest r off d"
  obtain i where i: "fsHandles fs ! ?h = \<lparr>fhInode = Some i, fhOffset = off, fhOpen = True\<rparr>" "inData (fsInodes fs ! i) = d"
    "?h < length (fsHandles fs)" using Suc.prems(1) by (auto simp: reading_def)
  have rd: "os_Read ?h k fs = (if take k (drop off d) = [] \<and> 0 < k then (([], Some EOF), fs)
      else ((take k (drop off d), None),
        set_handle ?h \<lparr>fhInode = Some i, fhOffset = off + length (take k (drop off d)), fhOpen = True\<rparr> fs))" for k
    using i by (auto simp: os_Read_def Let_def)
  show ?case
  proof (cases "?W = []")
    case True
    then show ?thesis using rd assms(1) by (auto simp: lr_Read_def lr_rest_def split: option.splits)
  next
    case False
    let ?m = "min n (case lrLimit r of None \<Rightarrow> n | Some l \<Rightarrow> nat l)"
    let ?t = "take ?m (drop off d)"
    let ?r = "r\<lparr>lrLimit := map_option (\<lambda>l. l - int (length ?t)) (lrLimit r)\<rparr>"
    let ?fs = "set_handle ?h \<lparr>fhInode = Some i, fhOffset = off + length ?t, fhOpen = True\<rparr> fs"
    have t: "?t \<noteq> []" "?W = ?t @ lr_rest ?r (off + length ?t) d" "lr_Read n r fs = ((?t, None), ?r, ?fs)"
    proof (atomize (full), cases "lrLimit r")
      case None
      then have "drop off d \<noteq> []" using False by (simp add: lr_rest_def)
      moreover have "drop (off + length (take n (drop off d))) d = drop n (drop off d)"
        by (cases "n \<le> length (drop off d)") (auto simp: add.commute)
      moreover have "take n (drop off d) @ drop (n + off) d = drop off d"
        by (metis append_take_drop_id drop_drop)
      ultimately show "?t \<noteq> [] \<and> ?W = ?t @ lr_rest ?r (off + length ?t) d \<and> lr_Read n r fs = ((?t, None), ?r, ?fs)"
        using None assms(1) rd by (simp add: lr_rest_def lr_Read_def)
    next
      case (Some l)
      let ?k = "min n (nat l)" let ?u = "take ?k (drop off d)"
      have l: "0 < l" "drop off d \<noteq> []" using False Some by (auto simp: lr_rest_def)
      have u: "?u \<noteq> []" using l assms(1) by simp
      have nk: "nat (l - int k) = nat l - k" for k by linarith
      have "take (nat l) (drop off d) = ?u @ take (nat (l - int (length ?u))) (drop (off + length ?u) d)"
      proof -
        have "drop (off + length ?u) d = drop ?k (drop off d)"
          by (cases "?k \<le> length (drop off d)") (auto simp: add.commute)
        moreover have "take (nat (l - int (length ?u))) (drop ?k (drop off d)) = take (nat l - ?k) (drop ?k (drop off d))"
          by (cases "?k \<le> length (drop off d)") (auto simp: nk)
        moreover have "take (nat l) (drop off d) = ?u @ take (nat l - ?k) (drop ?k (drop off d))"
          using take_add[of ?k "nat l - ?k" "drop off d"] by simp
        ultimately show ?thesis by simp
      qed
      then show "?t \<noteq> [] \<and> ?W = ?t @ lr_rest ?r (off + length ?t) d \<and> lr_Read n r fs = ((?t, None), ?r, ?fs)"
        using Some u l rd[of ?k] by (simp add: lr_rest_def lr_Read_def)
    qed
    have "length ?W = length ?t + length (lr_rest ?r (off + length ?t) d)" by (subst t(2)) (rule length_append)
    moreover have "0 < length ?t" using t(1) by (rule length_greater_0_conv[THEN iffD2])
    ultimately have "length (lr_rest ?r (off + length ?t) d) < f" using Suc.prems(2) by linarith
    moreover have "reading ?fs (lrFile ?r) (off + length ?t) d" using i by (simp add: reading_def set_handle_def)
    ultimately have "lr_ReadAll f n ?r ?fs = Some (lr_rest ?r (off + length ?t) d, EOF)"
      by (intro Suc.IH)
    then show ?thesis using t(2,3) by simp
  qed
qed simp

lemma fb_NewReader_file:
  assumes "fs_ok fs" "faultless fs" "fb_takes b p" "fs_file fs (locate fs (fb_fullPath b p)) = Some d"
    and "0 < n" "length d < f"
  shows "\<exists>r fs'. fb_NewReader background p opts b fs = (Inr r, fs') \<and>
    lr_ReadAll f n r fs' = Some (read_range (ApplyReaderOptions opts) d, EOF)"
proof -
  let ?c = "ApplyReaderOptions opts" let ?h = "length (fsHandles fs)"
  obtain i where i: "os_Open (fb_fullPath b p) fs =
      (Inr ?h, fs\<lparr>fsHandles := fsHandles fs @ [\<lparr>fhInode = Some i, fhOffset = 0, fhOpen = True\<rparr>]\<rparr>)"
    "inData (fsInodes fs ! i) = d"
    using os_Open_file[OF assms(1,2,4)] by blast
  let ?fs = "fs\<lparr>fsHandles := fsHandles fs @ [\<lparr>fhInode = Some i, fhOffset = nat (rcOffset ?c), fhOpen = True\<rparr>]\<rparr>"
  let ?r = "\<lparr>lrFile = ?h, lrLimit = (if rcLimit ?c > 0 then Some (rcLimit ?c) else None)\<rparr>"
  have rd: "fb_NewReader background p opts b fs = (Inr ?r, ?fs)"
    using i fb_takes_guards[OF assms(3)]
    by (auto simp: fb_NewReader_def Let_def os_Seek_def set_handle_def)
  have w: "lr_rest ?r (nat (rcOffset ?c)) d = read_range ?c d"
    by (auto simp: lr_rest_def read_range_def Let_def)
  moreover have l: "length (read_range ?c d) \<le> length d"
    by (auto simp: read_range_def Let_def)
  moreover have "reading ?fs (lrFile ?r) (nat (rcOffset ?c)) d" using i(2) by (simp add: reading_def)
  ultimately have "lr_ReadAll f n ?r ?fs = Some (read_range ?c d, EOF)"
    using lr_ReadAll_reading[OF assms(5), of ?fs ?r "nat (rcOffset ?c)" d f] assms(6) l unfolding w by linarith
  with rd show ?thesis by blast
qed

text \<open>What a written file is, and what was there before.\<close>

lemma fb_write_file:
  assumes "fs_ok fs" "faultless fs" "fb_takes b p" "clear_way fs (butlast (locate fs (fb_fullPath b p)))"
    "\<not> fs_dir fs (locate fs (fb_fullPath b p))"
  shows "\<exists>fs1 fs2 fs3. fb_NewWriter background p b fs = (Inr (length (fsHandles fs)), fs1) \<and>
    os_Writes (length (fsHandles fs)) cs fs1 = (None, fs2) \<and> os_CloseFile (length (fsHandles fs)) fs2 = (None, fs3) \<and>
    fs_ok fs3 \<and> same_system fs fs3 \<and> fs_file fs3 = (fs_file fs)(locate fs (fb_fullPath b p) := Some (concat cs)) \<and>
    (\<forall>l. fs_dir fs3 l = (fs_dir fs l \<or> prefix l (butlast (locate fs (fb_fullPath b p)))))"
proof -
  let ?L = "locate fs (fb_fullPath b p)" let ?h = "length (fsHandles fs)"
  obtain fs0 fs1 where c: "fb_parents b (fb_fullPath b p) fs = (None, fs0)" "os_Create (fb_fullPath b p) fs0 = (Inr ?h, fs1)"
    "fs_ok fs1" "same_system fs fs1" "fs_file fs1 = (fs_file fs)(?L := Some [])" "writing fs1 ?h ?L []"
    and d: "\<And>l. fs_dir fs1 l = (fs_dir fs l \<or> prefix l (butlast ?L))"
    using fb_create_effect[OF assms] by blast
  obtain fs2 where w: "os_Writes ?h cs fs1 = (None, fs2)" "fs_ok fs2" "same_system fs1 fs2" "node_at fs2 = node_at fs1"
    "fs_file fs2 = (fs_file fs1)(?L := Some (concat cs))" "writing fs2 ?h ?L (concat cs)"
    using os_Writes_effect[OF c(3,6), of cs] by auto
  obtain fs3 where cl: "os_CloseFile ?h fs2 = (None, fs3)" "fs_ok fs3" "same_system fs2 fs3" "node_at fs3 = node_at fs2"
    "fs_file fs3 = fs_file fs2"
    using os_Close_effect[OF w(2,6)] by blast
  have "fb_NewWriter background p b fs = (Inr ?h, fs1)"
    using c(1,2) fb_takes_guards[OF assms(3)] by (simp add: fb_NewWriter_def)
  moreover have "same_system fs fs3" using c(4) w(3) cl(3) by (simp add: same_system_def)
  ultimately show ?thesis using w(1) cl(1,2,4,5) w(4,5) c(5) d by (intro exI[of _ fs1] exI[of _ fs2] exI[of _ fs3]) simp
qed

text \<open>C22: A file that is written in any chunks and closed holds exactly their concatenation, whatever was at the path before, with the directories on the way made and every other file unchanged; a reader opened on it delivers, in pieces of any size and up to \<open>io.EOF\<close>, the same window of it as the memory backend's. The backend is open, the system refuses no call, and no file or directory is in the way.\<close>

theorem file_write_then_read:
  assumes "fs_ok fs" and "faultless fs" and "fb_takes b p"
    and "clear_way fs (butlast (locate fs (fb_fullPath b p)))"
    and "node_at fs (locate fs (fb_fullPath b p)) \<noteq> Some FDir"
    and "0 < n" and "length (concat cs) < f"
  shows "\<exists>h fs1 fs2 fs3 r fs4. fb_NewWriter background p b fs = (Inr h, fs1) \<and> os_Writes h cs fs1 = (None, fs2) \<and>
    os_CloseFile h fs2 = (None, fs3) \<and> fs_ok fs3 \<and>
    fs_file fs3 = (fs_file fs)(locate fs (fb_fullPath b p) := Some (concat cs)) \<and>
    fb_NewReader background p opts b fs3 = (Inr r, fs4) \<and>
    lr_ReadAll f n r fs4 = Some (read_range (ApplyReaderOptions opts) (concat cs), EOF)"
proof -
  let ?L = "locate fs (fb_fullPath b p)" let ?h = "length (fsHandles fs)"
  obtain fs1 fs2 fs3 where w: "fb_NewWriter background p b fs = (Inr ?h, fs1)" "os_Writes ?h cs fs1 = (None, fs2)"
    "os_CloseFile ?h fs2 = (None, fs3)" "fs_ok fs3" "same_system fs fs3" "fs_file fs3 = (fs_file fs)(?L := Some (concat cs))"
    using fb_write_file[OF assms(1-5), of cs] by blast
  have fl: "faultless fs3" using same_system_faultless[OF w(5)] assms(2) by blast
  have "fs_file fs3 (locate fs3 (fb_fullPath b p)) = Some (concat cs)"
    unfolding same_system_locate[OF w(5)] w(6) by simp
  then obtain r fs4 where "fb_NewReader background p opts b fs3 = (Inr r, fs4)"
    "lr_ReadAll f n r fs4 = Some (read_range (ApplyReaderOptions opts) (concat cs), EOF)"
    using fb_NewReader_file[OF w(4) fl assms(3) _ assms(6,7)] by blast
  then show ?thesis using w(1-4,6) by blast
qed

text \<open>A file system without files, and one with a file in the root directory.\<close>

definition empty_fs :: fsys where
  "empty_fs =
     \<lparr>fsNodes = gm_empty, fsInodes = [], fsHandles = [], fsCwd = [], fsNow = 5, fsFault = (\<lambda>_ _. None), fsDirStat = (\<lambda>_. (4096, 0))\<rparr>"

definition one_file_fs :: fsys where
  "one_file_fs = put_node [''a''] (FFile 0) (empty_fs\<lparr>fsInodes := [\<lparr>inData = [1, 2, 3], inTime = 4\<rparr>]\<rparr>)"

lemma empty_fs_node: "node_at empty_fs = [[] \<mapsto> FDir]"
  by (auto simp: node_at_def empty_fs_def fun_eq_iff)

lemma one_file_fs_node: "node_at one_file_fs = [[] \<mapsto> FDir, [''a''] \<mapsto> FFile 0]"
  by (auto simp: node_at_def one_file_fs_def put_node_def empty_fs_def gm_get_put fun_eq_iff)

lemma sample_fs_ok: "fs_ok empty_fs" "faultless empty_fs" "fs_ok one_file_fs" "faultless one_file_fs"
  by (auto simp: fs_ok_def tree_ok_def inodes_ok_def empty_fs_node one_file_fs_node proper_name_def faultless_def)
    (simp_all add: empty_fs_def one_file_fs_def put_node_def)

lemma one_file_fs_file: "fs_file one_file_fs = [[''a''] \<mapsto> [1, 2, 3]]"
  by (auto simp: fs_file_def one_file_fs_node fun_eq_iff) (simp add: one_file_fs_def put_node_def)

definition sample_fb :: file_backend where
  "sample_fb = file_New (file_DefaultConfig\<lparr>fcRoot := ''/''\<rparr>)"

lemma sample_fb_takes: "fb_takes sample_fb ''a''" "fb_takes sample_fb ''b''" "fb_takes sample_fb ''d/b''"
  by code_simp+

lemma sample_fb_location:
  "locate fs (fb_fullPath sample_fb ''a'') = [''a'']" "locate fs (fb_fullPath sample_fb ''b'') = [''b'']"
  "locate fs (fb_fullPath sample_fb ''d/b'') = [''d'', ''b'']"
proof -
  have "fb_fullPath sample_fb ''a'' = ''/a''" "fb_fullPath sample_fb ''b'' = ''/b''" "fb_fullPath sample_fb ''d/b'' = ''/d/b''"
    by code_simp+
  moreover have "clean_comps True (split_on slash ''/a'') = [''a'']" "clean_comps True (split_on slash ''/b'') = [''b'']"
    "clean_comps True (split_on slash ''/d/b'') = [''d'', ''b'']" "is_rooted ''/a''" "is_rooted ''/b''" "is_rooted ''/d/b''"
    by code_simp+
  ultimately show "locate fs (fb_fullPath sample_fb ''a'') = [''a'']" "locate fs (fb_fullPath sample_fb ''b'') = [''b'']"
    "locate fs (fb_fullPath sample_fb ''d/b'') = [''d'', ''b'']" by (simp_all add: locate_def)
qed

lemma clear_way_Nil [simp]: "clear_way fs []"
  by (simp add: clear_way_iff)

text \<open>A file in a directory that does not exist yet, read from its second byte.\<close>

theorem file_write_then_read_witness:
  "\<exists>h fs1 fs2 fs3 r fs4. fb_NewWriter background ''d/b'' sample_fb one_file_fs = (Inr h, fs1) \<and>
    os_Writes h [[7, 8], [9]] fs1 = (None, fs2) \<and> os_CloseFile h fs2 = (None, fs3) \<and> fs_ok fs3 \<and>
    fs_file fs3 = (fs_file one_file_fs)(locate one_file_fs (fb_fullPath sample_fb ''d/b'') := Some (concat [[7, 8], [9]])) \<and>
    fb_NewReader background ''d/b'' [WithOffset 1] sample_fb fs3 = (Inr r, fs4) \<and>
    lr_ReadAll 9 2 r fs4 = Some (read_range (ApplyReaderOptions [WithOffset 1]) (concat [[7, 8], [9]]), EOF)"
  by (rule file_write_then_read[OF sample_fs_ok(3,4) sample_fb_takes(3)])
    (simp_all add: sample_fb_location clear_way_iff one_file_fs_node prefix_Cons)

subsection \<open>Copying and moving\<close>

lemma fb_Stat_file:
  assumes "fs_ok fs" "faultless fs" "fs_file fs (locate fs p) = Some d"
  shows "\<exists>st. os_Stat p fs = Inr st \<and> \<not> stIsDir st \<and> stSize st = int (length d)"
proof -
  obtain i where i: "node_at fs (locate fs p) = Some (FFile i)" "inData (fsInodes fs ! i) = d"
    using assms(3) by (auto simp: fs_file_def split: option.splits fs_node.splits)
  then have "find_node fs (locate fs p) = Inr (FFile i)" by (simp add: find_node_iff[OF assms(1)])
  then show ?thesis using i(2) assms(2) by (simp add: os_Stat_def Let_def faultless_def node_stat_def)
qed

lemma open_create_copy:
  assumes "fs_ok fs" "faultless fs" "fs_file fs (locate fs src) = Some d"
    and "locate fs dst \<noteq> []" "node_at fs (butlast (locate fs dst)) = Some FDir" "node_at fs (locate fs dst) \<noteq> Some FDir"
  obtains s h fs1 fs2 fs3 where "os_Open src fs = (Inr s, fs1)" "os_Create dst fs1 = (Inr h, fs2)"
    "os_io_copy h s fs2 = (None, fs3)" "fs_ok fs3" "same_system fs fs3" "s < h" "h < length (fsHandles fs3)"
    "fhOpen (fsHandles fs3 ! h)" "fhOpen (fsHandles fs3 ! s)" "node_at fs3 (locate fs src) = node_at fs (locate fs src)"
    "fs_file fs3 = (fs_file fs)(locate fs dst := Some (if locate fs src = locate fs dst then [] else d))"
    "\<forall>l. fs_dir fs3 l = fs_dir fs l"
proof -
  let ?S = "locate fs src" let ?D = "locate fs dst" let ?s = "length (fsHandles fs)" let ?h = "Suc (length (fsHandles fs))"
  let ?x = "\<lambda>i. \<lparr>fhInode = Some i, fhOffset = 0, fhOpen = True\<rparr>"
  obtain i where o: "os_Open src fs = (Inr ?s, fs\<lparr>fsHandles := fsHandles fs @ [?x i]\<rparr>)"
    "node_at fs ?S = Some (FFile i)" "inData (fsInodes fs ! i) = d"
    using os_Open_file[OF assms(1-3)] by blast
  let ?fs1 = "fs\<lparr>fsHandles := fsHandles fs @ [?x i]\<rparr>"
  have s1: "same_system fs ?fs1" by (simp add: same_system_def)
  have 1: "fs_ok ?fs1" "faultless ?fs1" "locate ?fs1 dst = ?D" "\<forall>c \<in> set ?D. proper_name c"
    "node_at ?fs1 (butlast ?D) = Some FDir" "node_at ?fs1 ?D \<noteq> Some FDir"
    using assms locate_names[OF assms(1)] same_system_faultless[OF s1] same_system_locate[OF s1] by simp_all
  obtain fs2 j where c: "os_Create dst ?fs1 = (Inr ?h, fs2)" "fs_ok fs2" "same_system ?fs1 fs2"
    "node_at fs2 = (node_at ?fs1)(?D \<mapsto> FFile j)" "fs_file fs2 = (fs_file ?fs1)(?D := Some [])"
    "writing fs2 ?h ?D []" "fsHandles fs2 = fsHandles ?fs1 @ [?x j]" "\<forall>k. node_at ?fs1 ?D = Some (FFile k) \<longrightarrow> j = k"
    using os_Create_effect[OF 1(1-3) assms(4) 1(4-6)] by auto
  let ?e = "if ?S = ?D then [] else d"
  have S: "node_at fs2 ?S = Some (FFile i)" using o(2) c(4,8) by auto
  then have e: "inData (fsInodes fs2 ! i) = ?e" using c(5) assms(3) by (auto simp: fs_file_def[of fs2] split: if_splits dest: fun_cong[of _ _ ?S])
  have hs: "fsHandles fs2 ! ?s = ?x i" using c(7) by (simp add: nth_append)
  obtain fs3 where w: "os_io_copy ?h ?s fs2 = (None, fs3)" "fs_ok fs3" "same_system fs2 fs3" "node_at fs3 = node_at fs2"
    "fs_file fs3 = (fs_file fs2)(?D := Some ?e)" "writing fs3 ?h ?D ?e" "fsHandles fs3 ! ?s = ?x i"
  proof (cases "?e = []")
    case True
    show ?thesis using that[of fs2] True c e hs by (simp add: os_io_copy_def fun_upd_idem)
  next
    case False
    then have io: "os_io_copy ?h ?s fs2 = os_Write ?h ?e fs2" using e hs by (simp add: os_io_copy_def Let_def)
    have "fsHandles (snd (os_Write ?h ?e fs2)) ! ?s = ?x i"
      using hs by (simp add: os_Write_def Let_def set_handle_def split: option.split)
    then show ?thesis using that os_Write_effect[OF c(2,6), of ?e] io by (metis append_Nil snd_conv)
  qed
  show ?thesis
  proof (rule that[OF o(1) c(1) w(1,2)])
    show "same_system fs fs3" using c(3) w(3) by (simp add: same_system_def)
    show "?h < length (fsHandles fs3)" "fhOpen (fsHandles fs3 ! ?h)" using w(6) by (auto simp: writing_def)
    show "fs_file fs3 = (fs_file fs)(?D := Some ?e)" using w(5) c(5) by simp
    show "node_at fs3 ?S = node_at fs ?S" using w(4) S o(2) by simp
    show "\<forall>l. fs_dir fs3 l = fs_dir fs l" using w(4) c(4) assms(6) by simp
  qed (use w(7) in simp_all)
qed

lemma os_CloseFile_open: "fhOpen (fsHandles fs ! h) \<Longrightarrow> fst (os_CloseFile h fs) = None"
  by (simp add: os_CloseFile_def Let_def)

lemma os_CloseFile_other: "h' \<noteq> h \<Longrightarrow> fsHandles (snd (os_CloseFile h fs)) ! h' = fsHandles fs ! h'"
  by (simp add: os_CloseFile_def Let_def set_handle_def)

lemma fb_copyFile_effect:
  assumes "fs_ok fs" "faultless fs" "fs_file fs (locate fs src) = Some d"
    and "locate fs dst \<noteq> []" "node_at fs (butlast (locate fs dst)) = Some FDir" "node_at fs (locate fs dst) \<noteq> Some FDir"
  shows "\<exists>fs'. fb_copyFile src dst fs = (None, fs') \<and> fs_ok fs' \<and> same_system fs fs' \<and>
    fs_file fs' = (fs_file fs)(locate fs dst := Some (if locate fs src = locate fs dst then [] else d)) \<and>
    (\<forall>l. fs_dir fs' l = fs_dir fs l)"
proof (rule open_create_copy[OF assms])
  fix s h fs1 fs2 fs3
  assume o: "os_Open src fs = (Inr s, fs1)" "os_Create dst fs1 = (Inr h, fs2)" "os_io_copy h s fs2 = (None, fs3)"
    and fs3: "fs_ok fs3" "same_system fs fs3" "fhOpen (fsHandles fs3 ! h)"
      "fs_file fs3 = (fs_file fs)(locate fs dst := Some (if locate fs src = locate fs dst then [] else d))"
      "\<forall>l. fs_dir fs3 l = fs_dir fs l"
  let ?fs4 = "snd (os_CloseFile h fs3)" let ?fs5 = "snd (os_CloseFile s ?fs4)"
  have "fb_copyFile src dst fs = (None, ?fs5)"
    using os_CloseFile_open[OF fs3(3)] by (cases "os_CloseFile h fs3") (simp add: fb_copyFile_def o)
  moreover have "same_system fs ?fs5"
    using fs3(2) os_CloseFile_keeps(4)[of fs3 h] os_CloseFile_keeps(4)[of ?fs4 s] by (simp add: same_system_def)
  ultimately show ?thesis using fs3(1,4,5) by (intro exI[of _ ?fs5]) simp
qed

lemma fb_Copy_file:
  assumes "fs_ok fs" and "faultless fs" and "fb_takes b src" and "fb_takes b dst"
    and "fs_file fs (locate fs (fb_fullPath b src)) = Some d"
    and "clear_way fs (butlast (locate fs (fb_fullPath b dst)))"
    and "node_at fs (locate fs (fb_fullPath b dst)) \<noteq> Some FDir"
  shows "\<exists>fs'. fb_Copy background src dst b fs = (None, fs') \<and> fs_ok fs' \<and>
    fs_file fs' = (fs_file fs)(locate fs (fb_fullPath b dst) :=
      Some (if locate fs (fb_fullPath b src) = locate fs (fb_fullPath b dst) then [] else d)) \<and>
    same_system fs fs' \<and> (\<forall>l. fs_dir fs' l = (fs_dir fs l \<or> prefix l (butlast (locate fs (fb_fullPath b dst)))))"
proof (rule fb_parents_ready[OF assms(1,2,4,6,7)])
  let ?S = "locate fs (fb_fullPath b src)" let ?D = "locate fs (fb_fullPath b dst)"
  fix fs1
  assume 1: "fb_parents b (fb_fullPath b dst) fs = (None, fs1)" "fs_ok fs1" "faultless fs1" "same_system fs fs1"
    "fs_file fs1 = fs_file fs" "locate fs1 q = locate fs q" "?D \<noteq> []" "fs_dir fs1 (butlast ?D)" "\<not> fs_dir fs1 ?D"
    "fs_dir fs1 l = (fs_dir fs l \<or> prefix l (butlast ?D))" for q l
  obtain st where st: "os_Stat (fb_fullPath b src) fs = Inr st" "\<not> stIsDir st"
    using fb_Stat_file[OF assms(1,2,5)] by blast
  obtain fs2 where 2: "fb_copyFile (fb_fullPath b src) (fb_fullPath b dst) fs1 = (None, fs2)" "fs_ok fs2" "same_system fs1 fs2"
    "fs_file fs2 = (fs_file fs)(?D := Some (if ?S = ?D then [] else d))" "\<And>l. fs_dir fs2 l = fs_dir fs1 l"
    using fb_copyFile_effect[OF 1(2,3), of "fb_fullPath b src" d "fb_fullPath b dst", unfolded 1(6), OF _ 1(7-9)] assms(5) unfolding 1(5) by blast
  moreover have "first_error [fb_checkClosed b, None, fb_validatePath src, fb_validatePath dst] = None"
    using assms(3,4) by (simp add: fb_takes_def fb_checkClosed_def)
  ultimately show ?thesis using st 1(1,5,10) same_system_trans[OF 1(4) 2(3)] by (simp add: fb_Copy_def Let_def)
qed

text \<open>\<open>Copy\<close> of a file between different places stores its bytes under the destination and changes no other file. Copied onto itself the file is emptied: the destination is truncated after the source has been opened, and the copy then finds nothing to read, without an error.\<close>

theorem file_copy_effect:
  assumes "fs_ok fs" and "faultless fs" and "fb_takes b src" and "fb_takes b dst"
    and "fs_file fs (locate fs (fb_fullPath b src)) = Some d"
    and "clear_way fs (butlast (locate fs (fb_fullPath b dst)))"
    and "node_at fs (locate fs (fb_fullPath b dst)) \<noteq> Some FDir"
  shows "\<exists>fs'. fb_Copy background src dst b fs = (None, fs') \<and> fs_ok fs' \<and>
    fs_file fs' = (fs_file fs)(locate fs (fb_fullPath b dst) :=
      Some (if locate fs (fb_fullPath b src) = locate fs (fb_fullPath b dst) then [] else d))"
  using fb_Copy_file[OF assms] by blast

text \<open>A file copied into a new directory, and onto itself.\<close>

theorem file_copy_effect_witness:
  "(\<exists>fs'. fb_Copy background ''a'' ''d/b'' sample_fb one_file_fs = (None, fs') \<and> fs_ok fs' \<and>
      fs_file fs' = (fs_file one_file_fs)([''d'', ''b''] := Some [1, 2, 3])) \<and>
   (\<exists>fs'. fb_Copy background ''a'' ''a'' sample_fb one_file_fs = (None, fs') \<and> fs_ok fs' \<and>
      fs_file fs' = (fs_file one_file_fs)([''a''] := Some []))"
  using file_copy_effect[OF sample_fs_ok(3,4) sample_fb_takes(1,3), of "[1, 2, 3]"]
    file_copy_effect[OF sample_fs_ok(3,4) sample_fb_takes(1,1), of "[1, 2, 3]"]
  by (simp add: sample_fb_location one_file_fs_file one_file_fs_node clear_way_iff prefix_Cons)

lemma fb_Move_file:
  assumes "fs_ok fs" and "faultless fs" and "fb_takes b src" and "fb_takes b dst"
    and "fs_file fs (locate fs (fb_fullPath b src)) = Some d"
    and "clear_way fs (butlast (locate fs (fb_fullPath b dst)))"
    and "node_at fs (locate fs (fb_fullPath b dst)) \<noteq> Some FDir"
  shows "\<exists>fs'. fb_Move background src dst b fs = (None, fs') \<and> fs_ok fs' \<and>
    fs_file fs' = (fs_file fs)(locate fs (fb_fullPath b src) := None, locate fs (fb_fullPath b dst) := Some d) \<and>
    same_system fs fs' \<and> (\<forall>l. fs_dir fs' l = (fs_dir fs l \<or> prefix l (butlast (locate fs (fb_fullPath b dst)))))"
proof (rule fb_parents_ready[OF assms(1,2,4,6,7)])
  let ?S = "locate fs (fb_fullPath b src)" let ?D = "locate fs (fb_fullPath b dst)"
  fix fs1
  assume 1: "fb_parents b (fb_fullPath b dst) fs = (None, fs1)" "fs_ok fs1" "faultless fs1" "same_system fs fs1"
    "fs_file fs1 = fs_file fs" "locate fs1 q = locate fs q" "?D \<noteq> []" "fs_dir fs1 (butlast ?D)" "\<not> fs_dir fs1 ?D"
    "fs_dir fs1 l = (fs_dir fs l \<or> prefix l (butlast ?D))" for q l
  obtain st where st: "os_Stat (fb_fullPath b src) fs = Inr st" "\<not> stIsDir st"
    using fb_Stat_file[OF assms(1,2,5)] by blast
  obtain fs2 where 2: "os_Rename (fb_fullPath b src) (fb_fullPath b dst) fs1 = (None, fs2)" "fs_ok fs2" "same_system fs1 fs2"
    "fs_file fs2 = (fs_file fs)(?S := None, ?D := Some d)" "\<And>l. fs_dir fs2 l = fs_dir fs1 l"
    using os_Rename_file[OF 1(2,3), of "fb_fullPath b src" d "fb_fullPath b dst", unfolded 1(6), OF _ 1(7-9)] assms(5) unfolding 1(5) by blast
  moreover have "first_error [fb_checkClosed b, None, fb_validatePath src, fb_validatePath dst] = None"
    using assms(3,4) by (simp add: fb_takes_def fb_checkClosed_def)
  ultimately show ?thesis using st 1(1,5,10) same_system_trans[OF 1(4) 2(3)] by (simp add: fb_Move_def Let_def)
qed

text \<open>C24: \<open>Move\<close> of a file stores it under the destination and removes the source, and changes no other file; moved onto itself it stays as it is (unlike in the memory backend).\<close>

theorem file_move_effect:
  assumes "fs_ok fs" and "faultless fs" and "fb_takes b src" and "fb_takes b dst"
    and "fs_file fs (locate fs (fb_fullPath b src)) = Some d"
    and "clear_way fs (butlast (locate fs (fb_fullPath b dst)))"
    and "node_at fs (locate fs (fb_fullPath b dst)) \<noteq> Some FDir"
  shows "\<exists>fs'. fb_Move background src dst b fs = (None, fs') \<and> fs_ok fs' \<and>
    fs_file fs' = (fs_file fs)(locate fs (fb_fullPath b src) := None, locate fs (fb_fullPath b dst) := Some d)"
  using fb_Move_file[OF assms] by blast

text \<open>A file moved into a new directory.\<close>

theorem file_move_effect_witness:
  "\<exists>fs'. fb_Move background ''a'' ''d/b'' sample_fb one_file_fs = (None, fs') \<and> fs_ok fs' \<and>
     fs_file fs' = (fs_file one_file_fs)([''a''] := None, [''d'', ''b''] := Some [1, 2, 3])"
  using file_move_effect[OF sample_fs_ok(3,4) sample_fb_takes(1,3), of "[1, 2, 3]"]
  by (simp add: sample_fb_location one_file_fs_file one_file_fs_node clear_way_iff prefix_Cons)

subsection \<open>Listing\<close>

text \<open>The files below a place, relative to the root.\<close>

definition files_below :: "fsys \<Rightarrow> path \<Rightarrow> location \<Rightarrow> location set" where
  "files_below fs root r = {r'. prefix r r' \<and> fs_file fs (locate fs root @ r') \<noteq> None}"

lemma drop_common_append: "drop_common xs (xs @ ys) = ([], ys)"
  by (induction xs) (cases ys, simp_all)

text \<open>The path string of a place below the root.\<close>

definition names_place :: "path \<Rightarrow> location \<Rightarrow> path \<Rightarrow> bool" where
  "names_place root r q = (q \<noteq> [] \<and> is_rooted q = is_rooted root \<and> cleaned q = cleaned root @ r \<and> (\<forall>n \<in> set r. proper_name n))"

lemma names_place_locate: "names_place root r q \<Longrightarrow> locate fs q = locate fs root @ r"
  unfolding names_place_def locate_cleaned base_of_def by (elim conjE) (simp add: clean_fold_names)

lemma names_place_rel: "names_place root r q \<Longrightarrow> r \<noteq> [] \<Longrightarrow> path_rel root q = Some (join_on slash r)"
  unfolding names_place_def path_rel_def by (elim conjE) (simp add: drop_common_append)

lemma proper_name_cleaned: "proper_name n \<Longrightarrow> cleaned n = [n] \<and> \<not> is_rooted n \<and> n \<noteq> []"
proof -
  assume n: "proper_name n"
  then have "\<not> is_rooted n" by (cases n) (auto simp: proper_name_def is_rooted_def has_prefix_def)
  moreover have "split_on slash n = [n]" using n by (intro split_on_free) (simp add: proper_name_def)
  ultimately show ?thesis using n by (simp add: clean_comps_def clean_step_def proper_name_def)
qed

lemma names_place_join:
  assumes "root \<noteq> []" "p \<noteq> []" "\<not> is_rooted p" "\<forall>n \<in> set (cleaned p). proper_name n"
  shows "names_place root (cleaned p) (path_join [root, p])"
  using assms clean_join(2)[OF assms(1,2)] cleaned_join_names(1)[OF assms]
  unfolding names_place_def by (simp only:) (simp add: join_two)

lemma names_place_child:
  assumes "names_place root r q" "proper_name n"
  shows "names_place root (r @ [n]) (path_join [q, n])"
proof -
  have q: "q \<noteq> []" "is_rooted q = is_rooted root" "cleaned q = cleaned root @ r" "\<forall>n \<in> set r. proper_name n"
    using assms(1) unfolding names_place_def by blast+
  have n: "cleaned n = [n]" "\<not> is_rooted n" "n \<noteq> []" using proper_name_cleaned[OF assms(2)] by auto
  have "cleaned (path_join [q, n]) = cleaned q @ cleaned n"
    by (rule cleaned_join_names(1)[OF q(1) n(3,2)]) (simp add: n(1) assms(2))
  then have "cleaned (path_join [q, n]) = cleaned root @ r @ [n]" by (simp only: q(3) n(1) append_assoc)
  moreover have "is_rooted (path_join [q, n]) = is_rooted root" by (simp only: clean_join(2)[OF q(1) n(3)] q(2))
  moreover have "path_join [q, n] \<noteq> []" using q(1) n(3) by (simp add: join_two)
  ultimately show ?thesis unfolding names_place_def using q(4) assms(2) by simp
qed

definition depth_ok :: "fsys \<Rightarrow> location \<Rightarrow> nat \<Rightarrow> bool" where
  "depth_ok fs l f = (\<forall>k. node_at fs k \<noteq> None \<longrightarrow> length k < length l + f)"

lemma files_below_file:
  assumes "fs_ok fs" "node_at fs (locate fs root @ r) = Some (FFile i)"
  shows "files_below fs root r = {r}"
proof -
  have "r' = r" if r': "prefix r r'" "fs_file fs (locate fs root @ r') \<noteq> None" for r'
  proof -
    obtain ys where ys: "r' = r @ ys" using r'(1) by (auto simp: prefix_def)
    obtain j where "node_at fs ((locate fs root @ r) @ ys) = Some (FFile j)"
      using r'(2) ys by (auto simp: fs_file_def split: option.splits fs_node.splits)
    then have "ys = []" using dir_prefix[OF assms(1), of "locate fs root @ r" ys] assms(2) by fastforce
    then show ?thesis using ys by simp
  qed
  moreover have "fs_file fs (locate fs root @ r) \<noteq> None" using assms(2) by (simp add: fs_file_def)
  ultimately show ?thesis by (auto simp: files_below_def)
qed

lemma files_below_dir:
  assumes "fs_ok fs" "node_at fs (locate fs root @ r) = Some FDir"
  shows "files_below fs root r = (\<Union>n \<in> set (child_names fs (locate fs root @ r)). files_below fs root (r @ [n]))"
proof -
  have "\<exists>n. node_at fs (locate fs root @ r @ [n]) \<noteq> None \<and> prefix (r @ [n]) r'"
    if r': "prefix r r'" "fs_file fs (locate fs root @ r') \<noteq> None" for r'
  proof -
    obtain ys where ys: "r' = r @ ys" using r'(1) by (auto simp: prefix_def)
    have "ys \<noteq> []" using ys r'(2) assms(2) by (auto simp: fs_file_def)
    then obtain n zs where n: "ys = n # zs" by (cases ys) auto
    obtain m where "node_at fs ((locate fs root @ r @ [n]) @ zs) = Some m"
      using r'(2) ys n by (auto simp: fs_file_def split: option.splits)
    then have "node_at fs (locate fs root @ r @ [n]) \<noteq> None"
      using dir_prefix[OF assms(1), of "locate fs root @ r @ [n]" zs m] by (cases zs) auto
    then show ?thesis using ys n by auto
  qed
  moreover have "prefix r r'" if "prefix (r @ [n]) r'" for n r'
    using that by (auto simp: prefix_def)
  ultimately show ?thesis by (fastforce simp: files_below_def child_names_set)
qed

text \<open>What a walk with the visitor of \<open>List\<close> adds to the paths collected so far.\<close>

definition walk_result ::
  "object_error option \<times> nat \<times> path list \<times> bool \<Rightarrow> path list \<Rightarrow> bool \<Rightarrow> location set \<Rightarrow> bool" where
  "walk_result x ps ne R = (\<exists>i rs. x = (None, (i, ps @ map (join_on slash) rs, ne)) \<and> distinct rs \<and> set rs = R)"

lemma walk_names_lists:
  assumes dirs: "\<And>n i ps. n \<in> set ns \<Longrightarrow>
      \<exists>st. os_Stat (path_join [q, n]) fs = Inr st \<and>
        walk_result (walk_dir f fs fn (path_join [q, n]) (stIsDir st) (i, ps, ne)) ps ne (files_below fs root (r @ [n]))"
    and "distinct ns"
  shows "walk_result (walk_names f fs fn q ns (i, ps, ne)) ps ne (\<Union>n \<in> set ns. files_below fs root (r @ [n]))"
  using assms
proof (induction ns arbitrary: i ps)
  case Nil
  then show ?case by (simp add: walk_result_def)
next
  case (Cons n ns)
  obtain st i1 rs1 where 1: "os_Stat (path_join [q, n]) fs = Inr st"
    "walk_dir f fs fn (path_join [q, n]) (stIsDir st) (i, ps, ne) = (None, (i1, ps @ map (join_on slash) rs1, ne))"
    "distinct rs1" "set rs1 = files_below fs root (r @ [n])"
    using Cons.prems(1)[of n i ps] by (auto simp: walk_result_def)
  have "walk_result (walk_names f fs fn q ns (i1, ps @ map (join_on slash) rs1, ne)) (ps @ map (join_on slash) rs1) ne
      (\<Union>m \<in> set ns. files_below fs root (r @ [m]))"
    using Cons.IH[of i1 "ps @ map (join_on slash) rs1"] Cons.prems by simp
  then obtain i2 rs2 where 2: "walk_names f fs fn q ns (i1, ps @ map (join_on slash) rs1, ne) =
      (None, (i2, ps @ map (join_on slash) (rs1 @ rs2), ne))"
    "distinct rs2" "set rs2 = (\<Union>m \<in> set ns. files_below fs root (r @ [m]))"
    by (auto simp: walk_result_def)
  have one: "n = m" if "x \<in> files_below fs root (r @ [n])" "x \<in> files_below fs root (r @ [m])" for m x
    using that by (auto simp: files_below_def prefix_def)
  have "set rs1 \<inter> set rs2 = {}"
  proof (rule ccontr)
    assume "set rs1 \<inter> set rs2 \<noteq> {}"
    then obtain x m where "x \<in> files_below fs root (r @ [n])" "m \<in> set ns" "x \<in> files_below fs root (r @ [m])"
      unfolding 1(4) 2(3) by blast
    then show False using one[of x m] Cons.prems(2) by simp
  qed
  then have "distinct (rs1 @ rs2)" using 1(3) 2(2) by simp
  moreover have "walk_names f fs fn q (n # ns) (i, ps, ne) = (None, (i2, ps @ map (join_on slash) (rs1 @ rs2), ne))"
    by (simp add: 1(1,2) 2(1) Let_def del: map_append)
  moreover have "set (rs1 @ rs2) = (\<Union>m \<in> set (n # ns). files_below fs root (r @ [m]))"
    by (simp add: 1(4) 2(3))
  ultimately show ?case unfolding walk_result_def by (intro exI conjI)
qed

lemma walk_dir_lists:
  assumes ok: "fs_ok fs" "faultless fs" and root: "node_at fs (locate fs root) = Some FDir"
  shows "names_place root r q \<Longrightarrow> node_at fs (locate fs root @ r) = Some n \<Longrightarrow> depth_ok fs (locate fs root @ r) f \<Longrightarrow>
    walk_result (walk_dir f fs (list_visit background root) q (n = FDir) (i, ps, ne)) ps ne (files_below fs root r)"
proof (induction f arbitrary: r q n i ps)
  case 0
  then show ?case by (auto simp: depth_ok_def)
next
  case (Suc f)
  have L: "locate fs q = locate fs root @ r" by (rule names_place_locate[OF Suc.prems(1)])
  show ?case
  proof (cases n)
    case (FFile k)
    then have "r \<noteq> []" using Suc.prems(2) root by auto
    then have "path_rel root q = Some (join_on slash r)" by (rule names_place_rel[OF Suc.prems(1)])
    then have "walk_dir (Suc f) fs (list_visit background root) q (n = FDir) (i, ps, ne) = (None, (i + 1, ps @ map (join_on slash) [r], ne))"
      using FFile by (simp add: list_visit_def)
    then show ?thesis
      using files_below_file[OF ok(1)] Suc.prems(2) FFile
      unfolding walk_result_def by (intro exI[of _ "i + 1"] exI[of _ "[r]"]) simp
  next
    case FDir
    have children: "\<exists>st. os_Stat (path_join [q, c]) fs = Inr st \<and>
        walk_result (walk_dir f fs (list_visit background root) (path_join [q, c]) (stIsDir st) (j, qs, ne)) qs ne
          (files_below fs root (r @ [c]))"
      if c: "c \<in> set (child_names fs (locate fs root @ r))" for c j qs
    proof -
      obtain m where m: "node_at fs (locate fs root @ (r @ [c])) = Some m"
        using c child_names_set[of fs "locate fs root @ r"] by auto
      have "proper_name c" by (rule fs_ok_names[OF ok(1) m]) simp
      then have np: "names_place root (r @ [c]) (path_join [q, c])" by (rule names_place_child[OF Suc.prems(1)])
      then obtain st where "os_Stat (path_join [q, c]) fs = Inr st" "stIsDir st = (m = FDir)"
        using os_Stat_node[OF ok, of "path_join [q, c]" m] m names_place_locate[OF np] by auto
      moreover have "depth_ok fs (locate fs root @ (r @ [c])) f" using Suc.prems(3) by (auto simp: depth_ok_def)
      ultimately show ?thesis using Suc.IH[OF np m] by auto
    qed
    have rd: "os_ReadDirNames q fs = Inr (child_names fs (locate fs root @ r))"
      using os_ReadDirNames_dir[OF ok, of q] Suc.prems(2) FDir L by simp
    have "walk_dir (Suc f) fs (list_visit background root) q True (i, ps, ne) =
        walk_names f fs (list_visit background root) q (child_names fs (locate fs root @ r)) (i + 1, ps, ne)"
      by (simp add: rd list_visit_def)
    moreover have "walk_result (walk_names f fs (list_visit background root) q (child_names fs (locate fs root @ r)) (i + 1, ps, ne)) ps ne
        (\<Union>c \<in> set (child_names fs (locate fs root @ r)). files_below fs root (r @ [c]))"
      by (rule walk_names_lists[OF children child_names_distinct])
    ultimately show ?thesis
      using FDir files_below_dir[OF ok(1)] Suc.prems(2) by simp
  qed
qed

lemma join_names_inj:
  assumes "\<forall>n \<in> set r. proper_name n" "\<forall>n \<in> set r'. proper_name n" "r \<noteq> []" "r' \<noteq> []"
    and "join_on slash r = join_on slash r'"
  shows "r = r'"
  using split_canonical[OF names_canonical[of r]] split_canonical[OF names_canonical[of r']] assms by metis

lemma fb_List_files:
  assumes "fs_ok fs" and "faultless fs" and "\<not> fbClosed b" and "fcRoot (fbConfig b) \<noteq> []"
    and "node_at fs (locate fs (fcRoot (fbConfig b))) = Some FDir"
    and "pre = [] \<and> r = [] \<or> fb_takes b pre \<and> r = cleaned pre"
    and "node_at fs (locate fs (fcRoot (fbConfig b)) @ r) \<noteq> None"
  shows "\<exists>ps. fb_List background pre b fs = Inr ps \<and> distinct ps \<and>
    set ps = {join_on slash r' |r'. prefix r r' \<and> fs_file fs (locate fs (fcRoot (fbConfig b)) @ r') \<noteq> None}"
proof -
  let ?root = "fcRoot (fbConfig b)"
  let ?q = "if pre \<noteq> [] then fb_fullPath b pre else ?root"
  have np: "names_place ?root r ?q"
  proof (cases "pre = []")
    case True
    then have "r = []" using assms(6) by (auto simp: fb_takes_def fb_validatePath_def)
    then show ?thesis using True assms(4) by (simp add: names_place_def)
  next
    case False
    then have t: "fb_takes b pre" "r = cleaned pre" using assms(6) by auto
    have p: "\<not> is_rooted pre" "\<forall>n \<in> set (cleaned pre). proper_name n"
      using t(1) valid_relative[of pre] by (auto simp: fb_takes_def)
    show ?thesis using names_place_join[OF assms(4) False p] False t(2) by (simp add: fb_fullPath_def)
  qed
  obtain n where n: "node_at fs (locate fs ?root @ r) = Some n" using assms(7) by auto
  obtain st where st: "os_Stat ?q fs = Inr st" "stIsDir st = (n = FDir)"
    using os_Stat_node[OF assms(1,2), of ?q n] n names_place_locate[OF np] by auto
  have "depth_ok fs (locate fs ?root @ r) (Suc (gm_len (fsNodes fs)))"
    using depth_bound[OF assms(1)] unfolding depth_ok_def by (meson le_imp_less_Suc trans_less_add2)
  then obtain i rs where w: "Walk ?q (list_visit background ?root) fs (1, [], False) =
      (None, (i, map (join_on slash) rs, False))" "distinct rs" "set rs = files_below fs ?root r"
    using walk_dir_lists[OF assms(1,2,5) np n, of "Suc (gm_len (fsNodes fs))" 1 "[]" False]
    unfolding Walk_def walk_result_def st(1) by (auto simp: st(2))
  have names: "r' \<noteq> [] \<and> (\<forall>n \<in> set r'. proper_name n)" if "r' \<in> set rs" for r'
  proof -
    have f: "fs_file fs (locate fs ?root @ r') \<noteq> None" using that w(3) by (simp add: files_below_def)
    then obtain m where m: "node_at fs (locate fs ?root @ r') = Some m" by (auto simp: fs_file_def split: option.splits)
    then show ?thesis using f assms(5) fs_ok_names[OF assms(1) m] by (auto simp: fs_file_def)
  qed
  have "distinct (map (join_on slash) rs)"
    using w(2) names join_names_inj by (auto simp: distinct_map inj_on_def)
  moreover have "fb_List background pre b fs = Inr (map (join_on slash) rs)"
    using assms(3) w(1) by (simp add: fb_List_def fb_checkClosed_def Let_def split: if_splits)
  ultimately show ?thesis
    using w(3) by (intro exI[of _ "map (join_on slash) rs"]) (auto simp: files_below_def)
qed

text \<open>C23: \<open>List\<close> returns each file below the place that the prefix names, once and by its path from the root, and nothing else: a prefix is a file or directory, not a string (as \<open>a\<close> does not list \<open>ab\<close>, which the memory backend does). The depth the walk is given is enough for every tree.\<close>

theorem file_list_exact:
  assumes "fs_ok fs" and "faultless fs" and "\<not> fbClosed b" and "fcRoot (fbConfig b) \<noteq> []"
    and "node_at fs (locate fs (fcRoot (fbConfig b))) = Some FDir"
    and "pre = [] \<and> r = [] \<or> fb_takes b pre \<and> r = cleaned pre"
    and "node_at fs (locate fs (fcRoot (fbConfig b)) @ r) \<noteq> None"
  shows "\<exists>ps. fb_List background pre b fs = Inr ps \<and> distinct ps \<and>
    set ps = {join_on slash r' |r'. prefix r r' \<and> fs_file fs (locate fs (fcRoot (fbConfig b)) @ r') \<noteq> None}"
  by (rule fb_List_files[OF assms])

theorem file_list_exact_witness:
  "\<exists>ps. fb_List background [] sample_fb one_file_fs = Inr ps \<and> distinct ps \<and> set ps = {''a''}"
proof -
  have root: "fcRoot (fbConfig sample_fb) = ''/''" by (simp add: sample_fb_def file_New_def file_DefaultConfig_def Let_def)
  have loc: "locate one_file_fs ''/'' = []"
    by (simp add: locate_def is_rooted_def has_prefix_def clean_comps_def clean_step_def)
  have "\<exists>ps. fb_List background [] sample_fb one_file_fs = Inr ps \<and> distinct ps \<and>
      set ps = {join_on slash r' |r'. prefix [] r' \<and> fs_file one_file_fs (locate one_file_fs (fcRoot (fbConfig sample_fb)) @ r') \<noteq> None}"
    by (rule file_list_exact[OF sample_fs_ok(3,4)])
      (simp_all add: root loc one_file_fs_node, simp add: sample_fb_def file_New_def Let_def)
  moreover have "{join_on slash r' |r'. prefix [] r' \<and>
      fs_file one_file_fs (locate one_file_fs (fcRoot (fbConfig sample_fb)) @ r') \<noteq> None} = {''a''}"
    by (auto simp: root loc one_file_fs_file split: if_splits)
  ultimately show ?thesis by simp
qed

end
