(* ===== verification/FileStore.thy ===== *)
theory FileStore
  imports FileBackend CopyMove
begin

section \<open>File backends as stores\<close>

text \<open>
  A world of file backends, each on a file system of its own, and the clock, which every call
  reads. \<open>file_Backend mime bs i\<close> is the value of type \<open>Backend\<close> that the clients of the
  backend \<open>bs i\<close> call, with a live context. A reader is read to its end, as \<open>io.Copy\<close> does; what it
  reads does not change meanwhile, since a transfer writes to the other backend.

  A file system holds a file and a directory at different places only, so it takes every path of a
  family without further conditions only if the names of directories and of files are told apart: the
  predicate \<open>leaf\<close> stands for any such convention (names with an extension, say). On file systems
  that follow it, file backends keep the contract of \<open>BackendInterface\<close>, and the results about the
  copy helpers and the sync engine hold for them.
\<close>

record fworld =
  fwSystems :: "nat \<Rightarrow> fsys"
  fwClock :: "nat \<Rightarrow> time"

text \<open>A call on the system of backend \<open>i\<close>, which reads the clock, and one that only looks.\<close>

definition fw_now :: "nat \<Rightarrow> fworld \<Rightarrow> fsys" where
  "fw_now i W = (fwSystems W i)\<lparr>fsNow := fwClock W 0\<rparr>"

definition fw_set :: "nat \<Rightarrow> fsys \<Rightarrow> fworld \<Rightarrow> fworld" where
  "fw_set i fs W = \<lparr>fwSystems = (fwSystems W)(i := fs), fwClock = (\<lambda>n. fwClock W (Suc n))\<rparr>"

definition fw_call :: "nat \<Rightarrow> (fsys \<Rightarrow> 'r \<times> fsys) \<Rightarrow> fworld \<Rightarrow> 'r \<times> fworld" where
  "fw_call i f W = (case f (fw_now i W) of (r, fs) \<Rightarrow> (r, fw_set i fs W))"

definition file_Writer :: "nat \<Rightarrow> nat \<Rightarrow> fworld WriteCloser" where
  "file_Writer i h =
     \<lparr>wrWrite = (\<lambda>bs. fw_call i (\<lambda>fs. case os_Write h bs fs of (e, fs1) \<Rightarrow> (map_option os_err e, fs1))),
      wrClose = fw_call i (\<lambda>fs. case os_CloseFile h fs of (e, fs1) \<Rightarrow> (map_option os_err e, fs1))\<rparr>"

text \<open>The reads end when the file does, or at once when it is a directory.\<close>

definition file_Stream :: "limitedReadCloser \<Rightarrow> fsys \<Rightarrow> Stream" where
  "file_Stream r fs =
     (let n = (case fhInode (fsHandles fs ! lrFile r) of None \<Rightarrow> 0 | Some i \<Rightarrow> length (inData (fsInodes fs ! i)))
      in case lr_ReadAll (Suc n) io_copy_buffer r fs of
           None \<Rightarrow> \<lparr>sChunks = [], sErr = None\<rparr>
         | Some (d, e) \<Rightarrow> \<lparr>sChunks = chunk_bytes io_copy_buffer d, sErr = (if e = EOF then None else Some e)\<rparr>)"

definition file_Ext :: "(string \<Rightarrow> string) \<Rightarrow> file_backend \<Rightarrow> nat \<Rightarrow> fworld ExtendedOps" where
  "file_Ext mime b i =
     \<lparr>exStat = (\<lambda>p W. fb_Stat mime background p b (fw_now i W)),
      exMkdir = (\<lambda>p. fw_call i (fb_Mkdir background p b)),
      exRmdir = (\<lambda>p. fw_call i (fb_Rmdir background p b)),
      exCopy = (\<lambda>p q. fw_call i (fb_Copy background p q b)),
      exMove = (\<lambda>p q. fw_call i (fb_Move background p q b)),
      exFeatures = fb_Features\<rparr>"

definition file_Backend :: "(string \<Rightarrow> string) \<Rightarrow> (nat \<Rightarrow> file_backend) \<Rightarrow> nat \<Rightarrow> fworld Backend" where
  "file_Backend mime bs i =
     \<lparr>bkId = i,
      bkNewWriter = (\<lambda>p opts. fw_call i (\<lambda>fs.
        case fb_NewWriter background p (bs i) fs of (Inl e, fs1) \<Rightarrow> (Inl e, fs1) | (Inr h, fs1) \<Rightarrow> (Inr (file_Writer i h), fs1))),
      bkNewReader = (\<lambda>p opts W.
        case fb_NewReader background p opts (bs i) (fw_now i W) of
          (Inl e, _) \<Rightarrow> Inl e
        | (Inr r, fs1) \<Rightarrow> Inr (file_Stream r fs1)),
      bkExists = (\<lambda>p W. fb_Exists background p (bs i) (fw_now i W)),
      bkDelete = (\<lambda>p. fw_call i (fb_Delete background p (bs i))),
      bkList = (\<lambda>p W. fb_List background p (bs i) (fw_now i W)),
      bkExt = Some (file_Ext mime (bs i) i)\<rparr>"

subsection \<open>Paths that follow a convention\<close>

definition undotted :: "string \<Rightarrow> bool" where
  "undotted n = (\<not> str_contains n dotdot)"

definition file_key :: "(string \<Rightarrow> bool) \<Rightarrow> path \<Rightarrow> bool" where
  "file_key leaf p =
     (let cs = split_on slash p
      in plain_key p \<and> (\<forall>c \<in> set cs. undotted c) \<and> (\<forall>c \<in> set (butlast cs). \<not> leaf c) \<and> leaf (last cs))"

definition file_dirp :: "(string \<Rightarrow> bool) \<Rightarrow> path \<Rightarrow> bool" where
  "file_dirp leaf p = (plain_key p \<and> (\<forall>c \<in> set (split_on slash p). undotted c \<and> \<not> leaf c))"

text \<open>The files and directories below a place follow the convention.\<close>

definition shaped :: "(string \<Rightarrow> bool) \<Rightarrow> fsys \<Rightarrow> location \<Rightarrow> bool" where
  "shaped leaf fs rt =
     (\<forall>r. r \<noteq> [] \<longrightarrow>
       (fs_dir fs (rt @ r) \<longrightarrow> undotted (last r) \<and> \<not> leaf (last r)) \<and>
       (fs_file fs (rt @ r) \<noteq> None \<longrightarrow> undotted (last r) \<and> leaf (last r)))"

definition fb_root :: "file_backend \<Rightarrow> fsys \<Rightarrow> location" where
  "fb_root b fs = locate fs (fcRoot (fbConfig b))"

definition file_in_order :: "(string \<Rightarrow> bool) \<Rightarrow> file_backend \<Rightarrow> fsys \<Rightarrow> bool" where
  "file_in_order leaf b fs =
     (fs_ok fs \<and> faultless fs \<and> \<not> fbClosed b \<and> fcCreateDirs (fbConfig b) \<and> fcRoot (fbConfig b) \<noteq> [] \<and>
      fs_dir fs (fb_root b fs) \<and> shaped leaf fs (fb_root b fs))"

definition file_data :: "file_backend \<Rightarrow> fsys \<Rightarrow> path \<Rightarrow> bytes option" where
  "file_data b fs p = (if plain_key p then fs_file fs (fb_root b fs @ split_on slash p) else None)"

definition fw_ok :: "(string \<Rightarrow> bool) \<Rightarrow> (nat \<Rightarrow> file_backend) \<Rightarrow> fworld \<Rightarrow> bool" where
  "fw_ok leaf bs W = (\<forall>i. file_in_order leaf (bs i) (fwSystems W i))"

definition fw_files :: "(nat \<Rightarrow> file_backend) \<Rightarrow> nat \<Rightarrow> fworld \<Rightarrow> path \<Rightarrow> bytes option" where
  "fw_files bs i W = file_data (bs i) (fwSystems W i)"

text \<open>\<open>List\<close> takes a prefix as a place.\<close>

definition file_under :: "path \<Rightarrow> path \<Rightarrow> bool" where
  "file_under base p = (base = [] \<or> has_prefix p (base @ [slash]))"

lemma split_on_extend:
  "c \<notin> set ys \<Longrightarrow> split_on c (xs @ ys) = butlast (split_on c xs) @ [last (split_on c xs) @ ys]"
proof (induction xs)
  case Nil
  then show ?case by (simp add: split_on_free)
next
  case (Cons x xs)
  then show ?case by (auto split: list.splits)
qed

lemma undotted_valid:
  assumes "plain_key p" "\<forall>c \<in> set (split_on slash p). undotted c"
  shows "fb_validatePath p = None"
proof -
  have "\<not> has_prefix p dotdot"
  proof
    assume "has_prefix p dotdot"
    then obtain y where "p = dotdot @ y" by (auto simp: has_prefix_def prefix_def)
    then have "\<exists>z. dotdot @ z \<in> set (split_on slash p)" by (auto split: list.splits)
    then show False using assms(2) by (auto simp: undotted_def str_contains_def)
  qed
  moreover have "\<not> str_contains p ''../''"
  proof
    assume "str_contains p ''../''"
    then obtain u v where "p = u @ ''../'' @ v" by (auto simp: str_contains_def sublist_def)
    then have "p = (u @ dotdot) @ slash # v" by simp
    then have "last (split_on slash u) @ dotdot \<in> set (split_on slash p)"
      by (simp only: split_on_concat, subst split_on_extend) simp_all
    then show False using assms(2) by (auto simp: undotted_def str_contains_def)
  qed
  ultimately show ?thesis using plain_key_neq_Nil[OF assms(1)] assms(1) by (simp add: fb_validatePath_def)
qed

lemma plain_key_parts:
  assumes "plain_key p"
  shows "cleaned p = split_on slash p" "split_on slash p \<noteq> []" "join_on slash (split_on slash p) = p"
proof -
  show "cleaned p = split_on slash p"
    using clean_comps_id[OF plain_key_canonical[OF assms]] .
qed simp_all

lemma file_key_plain: "file_key leaf p \<Longrightarrow> plain_key p"
  by (simp add: file_key_def Let_def)

lemma file_key_below:
  assumes "file_dirp leaf b" "plain_key q" "file_key leaf q \<or> (\<exists>a. file_dirp leaf a \<and> file_key leaf (a @ slash # q))"
  shows "file_key leaf (b @ slash # q)"
  using assms plain_key_append[of b q]
  by (auto simp: file_dirp_def file_key_def Let_def split_on_concat butlast_append)

lemma file_key_valid: "file_key leaf p \<Longrightarrow> fb_validatePath p = None"
  using undotted_valid by (simp add: file_key_def Let_def)

subsection \<open>A file system in order\<close>

lemma clock_simps [simp]:
  "node_at (fs\<lparr>fsNow := t\<rparr>) = node_at fs" "fs_file (fs\<lparr>fsNow := t\<rparr>) = fs_file fs"
  "fb_root b (fs\<lparr>fsNow := t\<rparr>) = fb_root b fs" "faultless (fs\<lparr>fsNow := t\<rparr>) = faultless fs"
  "fs_ok (fs\<lparr>fsNow := t\<rparr>) = fs_ok fs"
proof -
  show n: "node_at (fs\<lparr>fsNow := t\<rparr>) = node_at fs" by (simp add: node_at_def fun_eq_iff)
  show "fs_file (fs\<lparr>fsNow := t\<rparr>) = fs_file fs"
    by (rule ext) (simp add: fs_file_def n split: option.split fs_node.split)
  show "fs_ok (fs\<lparr>fsNow := t\<rparr>) = fs_ok fs" by (simp add: fs_ok_def n)
qed (simp_all add: fb_root_def locate_def faultless_def)

lemma file_in_order_clock [simp]: "file_in_order leaf b (fs\<lparr>fsNow := t\<rparr>) = file_in_order leaf b fs"
  by (simp add: file_in_order_def shaped_def)

lemma file_data_clock [simp]: "file_data b (fs\<lparr>fsNow := t\<rparr>) = file_data b fs"
  by (rule ext) (simp add: file_data_def)

text \<open>The place of a key, and what is on the way to it.\<close>

lemma order_key:
  assumes "file_in_order leaf b fs" "file_key leaf p"
  shows "fb_takes b p" "locate fs (fb_fullPath b p) = fb_root b fs @ split_on slash p"
    "clear_way fs (butlast (locate fs (fb_fullPath b p)))" "\<not> fs_dir fs (locate fs (fb_fullPath b p))"
proof -
  let ?cs = "split_on slash p" let ?R = "fb_root b fs"
  note c = plain_key_parts[OF file_key_plain[OF assms(2)]]
  show t: "fb_takes b p"
    using assms file_key_valid[OF assms(2)] plain_key_not_rooted[OF file_key_plain[OF assms(2)]] c(1)
    by (simp add: fb_takes_def file_in_order_def c(2))
  show L: "locate fs (fb_fullPath b p) = ?R @ ?cs"
    using fb_takes_location(1)[OF t] c(1) by (simp add: fb_root_def)
  have sh: "shaped leaf fs ?R" "fs_dir fs ?R" "fs_ok fs" using assms(1) by (simp_all add: file_in_order_def)
  show "\<not> fs_dir fs (locate fs (fb_fullPath b p))"
    using sh(1) c(2) assms(2) by (auto simp: L shaped_def file_key_def Let_def)
  show "clear_way fs (butlast (locate fs (fb_fullPath b p)))"
    unfolding clear_way_def
  proof (intro allI impI)
    fix l assume "prefix l (butlast (locate fs (fb_fullPath b p)))"
    then have l: "prefix l (?R @ butlast ?cs)" by (simp add: L butlast_append c(2))
    show "fs_file fs l = None"
    proof (cases "prefix l ?R")
      case True
      then obtain ys where "?R = l @ ys" by (auto simp: prefix_def)
      then have "fs_dir fs l" using dir_prefix[OF sh(3), of l ys FDir] sh(2) by (cases ys) auto
      then show ?thesis by (simp add: fs_file_def)
    next
      case False
      then obtain s where s: "l = ?R @ s" "s \<noteq> []" "prefix s (butlast ?cs)" using l by (auto simp: prefix_append)
      then have "last s \<in> set (butlast ?cs)" by (meson last_in_set set_mono_prefix subsetD)
      then have "\<not> leaf (last s)" using assms(2) by (auto simp: file_key_def Let_def)
      then show ?thesis using sh(1) s(1,2) by (auto simp: shaped_def)
    qed
  qed
qed

text \<open>What changes one file keeps the order.\<close>

lemma order_change:
  assumes "file_in_order leaf b fs" "file_key leaf p" "fs_ok fs'" "same_system fs fs'"
    and dirs: "\<And>l. fs_dir fs l \<Longrightarrow> fs_dir fs' l"
      "\<And>l. fs_dir fs' l \<Longrightarrow> fs_dir fs l \<or> prefix l (butlast (locate fs (fb_fullPath b p)))"
    and files: "\<And>l. fs_file fs' l \<noteq> None \<Longrightarrow> fs_file fs l \<noteq> None \<or> l = locate fs (fb_fullPath b p)"
  shows "file_in_order leaf b fs'"
proof -
  let ?cs = "split_on slash p" let ?R = "fb_root b fs"
  have L: "locate fs (fb_fullPath b p) = ?R @ ?cs" "?cs \<noteq> []"
    using order_key(2)[OF assms(1,2)] by simp_all
  have k: "\<forall>c \<in> set ?cs. undotted c" "\<forall>c \<in> set (butlast ?cs). \<not> leaf c" "leaf (last ?cs)"
    using assms(2) by (simp_all add: file_key_def Let_def)
  have sh: "shaped leaf fs ?R" "fs_dir fs ?R" using assms(1) by (simp_all add: file_in_order_def)
  have R: "fb_root b fs' = ?R" using same_system_locate[OF assms(4)] by (simp add: fb_root_def)
  have "undotted (last r) \<and> \<not> leaf (last r)" if r: "r \<noteq> []" "fs_dir fs' (?R @ r)" for r
  proof (cases "fs_dir fs (?R @ r)")
    case True
    then show ?thesis using sh(1) r(1) by (auto simp: shaped_def)
  next
    case False
    then have "prefix r (butlast ?cs)" using dirs(2)[OF r(2)] by (simp add: L butlast_append)
    then have "last r \<in> set (butlast ?cs)" using r(1) by (meson last_in_set set_mono_prefix subsetD)
    then show ?thesis using k(1,2) in_set_butlastD by metis
  qed
  moreover have "undotted (last r) \<and> leaf (last r)" if r: "r \<noteq> []" "fs_file fs' (?R @ r) \<noteq> None" for r
    using files[OF r(2)] sh(1) r(1) k(1,3) L by (auto simp: shaped_def)
  ultimately have "shaped leaf fs' ?R" by (simp add: shaped_def)
  moreover have "faultless fs'" using same_system_faultless[OF assms(4)] assms(1) by (simp add: file_in_order_def)
  ultimately show ?thesis using assms(1,3) dirs(1)[OF sh(2)] by (simp add: file_in_order_def R)
qed

lemma file_data_put:
  assumes "same_system fs fs'" "file_key leaf p" "file_in_order leaf b fs"
    and "fs_file fs' = (fs_file fs)(locate fs (fb_fullPath b p) := x)"
  shows "file_data b fs' = (file_data b fs)(p := x)"
proof
  have R: "fb_root b fs' = fb_root b fs" using same_system_locate[OF assms(1)] by (simp add: fb_root_def)
  have "split_on slash q = split_on slash p \<longleftrightarrow> q = p" if "plain_key q" for q
    using plain_key_parts(3)[OF that] plain_key_parts(3)[OF file_key_plain[OF assms(2)]] by metis
  then show "file_data b fs' q = ((file_data b fs)(p := x)) q" for q
    using file_key_plain[OF assms(2)] by (auto simp: file_data_def R assms(4) order_key(2)[OF assms(3,2)])
qed

lemma file_data_move:
  assumes "file_in_order leaf b fs" "file_key leaf p" "file_key leaf q" "p \<noteq> q" "same_system fs fs'"
    and "fs_file fs' = (fs_file fs)(locate fs (fb_fullPath b p) := None, locate fs (fb_fullPath b q) := Some d)"
  shows "file_data b fs' = (file_data b fs)(q := Some d, p := None)"
proof
  have R: "fb_root b fs' = fb_root b fs" using same_system_locate[OF assms(5)] by (simp add: fb_root_def)
  have inj: "split_on slash x = split_on slash y \<longleftrightarrow> x = y" if "plain_key x" "plain_key y" for x y
    using that plain_key_parts(3) by metis
  show "file_data b fs' x = ((file_data b fs)(q := Some d, p := None)) x" for x
    using inj[of x p] inj[of x q] inj[of p q] file_key_plain[OF assms(2)] file_key_plain[OF assms(3)] assms(4)
    by (simp add: file_data_def R assms(6) order_key(2)[OF assms(1,2)] order_key(2)[OF assms(1,3)])
qed

lemma file_data_key:
  assumes "file_in_order leaf b fs" "file_data b fs p = Some d"
  shows "file_key leaf p" "fs_file fs (fb_root b fs @ split_on slash p) = Some d"
proof -
  let ?cs = "split_on slash p" let ?R = "fb_root b fs"
  have p: "plain_key p" using assms(2) by (simp add: file_data_def split: if_splits)
  then show f: "fs_file fs (?R @ ?cs) = Some d" using assms(2) by (simp add: file_data_def)
  have sh: "shaped leaf fs ?R" "fs_ok fs" using assms(1) by (simp_all add: file_in_order_def)
  have "undotted c \<and> \<not> leaf c" if c: "c \<in> set (butlast ?cs)" for c
  proof -
    obtain xs ys where s: "butlast ?cs = xs @ c # ys" using split_list[OF c] by blast
    then have "?cs = (xs @ [c]) @ ys @ [last ?cs]" using append_butlast_last_id[of ?cs] by simp
    moreover obtain n where "node_at fs (?R @ ?cs) = Some n" using f by (auto simp: fs_file_def split: option.splits)
    ultimately have "fs_dir fs (?R @ xs @ [c])" using dir_prefix[OF sh(2), of "?R @ xs @ [c]" "ys @ [last ?cs]" n] by simp
    then show ?thesis using sh(1) by (auto simp: shaped_def dest: spec[of _ "xs @ [c]"])
  qed
  moreover have "undotted (last ?cs) \<and> leaf (last ?cs)" using sh(1) f by (auto simp: shaped_def)
  moreover have "set ?cs = insert (last ?cs) (set (butlast ?cs))"
    using append_butlast_last_id[of ?cs] by (metis insert_is_Un list.set(1,2) set_append split_on_neq_Nil sup_commute)
  ultimately show "file_key leaf p" using p by (auto simp: file_key_def Let_def)
qed

subsection \<open>The contract holds\<close>

lemma fw_set_simps [simp]:
  "fwSystems (fw_set i fs W) = (fwSystems W)(i := fs)"
  "fw_ok leaf bs W \<Longrightarrow> fw_ok leaf bs (fw_set i fs W) = file_in_order leaf (bs i) fs"
  "fw_files bs j (fw_set i fs W) = (if j = i then file_data (bs i) fs else fw_files bs j W)"
  by (auto simp: fw_set_def fw_ok_def fw_files_def)

lemma fw_now_order: "fw_ok leaf bs W \<Longrightarrow> file_in_order leaf (bs i) (fw_now i W)"
  by (simp add: fw_ok_def fw_now_def)

lemma fw_now_data: "file_data (bs i) (fw_now i W) = fw_files bs i W"
  by (simp add: fw_files_def fw_now_def)

text \<open>Writing.\<close>

lemma io_copy_loop_file:
  assumes "fs_ok (fwSystems W i)" "writing (fwSystems W i) h loc d"
  shows "\<exists>W'. io_copy_loop (file_Writer i h) cs n W = ((n + length (concat cs), None), W') \<and>
    fs_ok (fwSystems W' i) \<and> same_system (fwSystems W i) (fwSystems W' i) \<and>
    node_at (fwSystems W' i) = node_at (fwSystems W i) \<and>
    fs_file (fwSystems W' i) = (fs_file (fwSystems W i))(loc := Some (d @ concat cs)) \<and>
    writing (fwSystems W' i) h loc (d @ concat cs) \<and> (\<forall>j. j \<noteq> i \<longrightarrow> fwSystems W' j = fwSystems W j)"
  using assms
proof (induction cs arbitrary: n W d)
  case Nil
  then show ?case by (auto simp: writing_def fun_upd_idem)
next
  case (Cons c cs)
  have "fs_ok (fw_now i W)" "writing (fw_now i W) h loc d" using Cons.prems by (simp_all add: fw_now_def writing_def)
  then obtain fs1 where 1: "os_Write h c (fw_now i W) = (None, fs1)" "fs_ok fs1" "same_system (fw_now i W) fs1"
    "node_at fs1 = node_at (fw_now i W)" "fs_file fs1 = (fs_file (fw_now i W))(loc := Some (d @ c))" "writing fs1 h loc (d @ c)"
    using os_Write_effect by blast
  let ?W = "fw_set i fs1 W"
  have "fs_ok (fwSystems ?W i)" "writing (fwSystems ?W i) h loc (d @ c)" using 1(2,6) by simp_all
  from Cons.IH[OF this, of "n + length c"] obtain W' where
    "io_copy_loop (file_Writer i h) cs (n + length c) ?W = ((n + length c + length (concat cs), None), W')"
    "fs_ok (fwSystems W' i)" "same_system fs1 (fwSystems W' i)" "node_at (fwSystems W' i) = node_at fs1"
    "fs_file (fwSystems W' i) = (fs_file fs1)(loc := Some ((d @ c) @ concat cs))"
    "writing (fwSystems W' i) h loc ((d @ c) @ concat cs)" "\<forall>j. j \<noteq> i \<longrightarrow> fwSystems W' j = fwSystems W j"
    by (auto simp: fun_upd_def)
  then show ?case
    using 1 by (intro exI[of _ W']) (simp add: file_Writer_def fw_call_def fw_now_def same_system_def)
qed

lemma file_Backend_write:
  assumes "fw_ok leaf bs W" "file_key leaf p"
  shows "\<exists>wr w1 w2 w3. bkNewWriter (file_Backend mime bs i) p opts W = (Inr wr, w1) \<and>
    io_copy_loop wr cs n w1 = ((n + length (concat cs), None), w2) \<and> wrClose wr w2 = (None, w3) \<and> fw_ok leaf bs w3 \<and>
    fw_files bs i w3 = (fw_files bs i W)(p := Some (concat cs)) \<and> (\<forall>j. j \<noteq> i \<longrightarrow> fw_files bs j w3 = fw_files bs j W)"
proof -
  let ?fs = "fw_now i W" let ?b = "bs i" let ?h = "length (fsHandles (fw_now i W))" let ?L = "locate (fw_now i W) (fb_fullPath (bs i) p)"
  have o: "file_in_order leaf ?b ?fs" by (rule fw_now_order[OF assms(1)])
  then have fs: "fs_ok ?fs" "faultless ?fs" by (simp_all add: file_in_order_def)
  note k = order_key[OF o assms(2)]
  obtain fs0 fs1 where 1: "fb_parents ?b (fb_fullPath ?b p) ?fs = (None, fs0)" "os_Create (fb_fullPath ?b p) fs0 = (Inr ?h, fs1)"
    "fs_ok fs1" "same_system ?fs fs1" "fs_file fs1 = (fs_file ?fs)(?L := Some [])" "writing fs1 ?h ?L []"
    and d1: "\<And>l. fs_dir fs1 l = (fs_dir ?fs l \<or> prefix l (butlast ?L))"
    using fb_create_effect[OF fs k(1,3,4)] by blast
  let ?W1 = "fw_set i fs1 W"
  obtain W2 where 2: "io_copy_loop (file_Writer i ?h) cs n ?W1 = ((n + length (concat cs), None), W2)"
    "fs_ok (fwSystems W2 i)" "same_system fs1 (fwSystems W2 i)" "node_at (fwSystems W2 i) = node_at fs1"
    "fs_file (fwSystems W2 i) = (fs_file fs1)(?L := Some (concat cs))" "writing (fwSystems W2 i) ?h ?L (concat cs)"
    "\<forall>j. j \<noteq> i \<longrightarrow> fwSystems W2 j = fwSystems W j"
    using io_copy_loop_file[of ?W1 i ?h ?L "[]" cs n] 1(3,6) by auto
  obtain fs3 where 3: "os_CloseFile ?h (fw_now i W2) = (None, fs3)" "fs_ok fs3" "same_system (fw_now i W2) fs3"
    "node_at fs3 = node_at (fw_now i W2)" "fs_file fs3 = fs_file (fw_now i W2)"
    using os_Close_effect[of "fw_now i W2" ?h ?L "concat cs"] 2(2,6) by (auto simp: fw_now_def writing_def)
  have ss: "same_system ?fs fs3" using 1(4) 2(3) 3(3) by (simp add: same_system_def fw_now_def)
  have f3: "fs_file fs3 = (fs_file ?fs)(?L := Some (concat cs))" using 1(5) 2(5) 3(5) by (simp add: fw_now_def)
  have d3: "fs_dir fs3 l = (fs_dir ?fs l \<or> prefix l (butlast ?L))" for l using d1[of l] 2(4) 3(4) by (simp add: fw_now_def)
  have o3: "file_in_order leaf ?b fs3"
    by (rule order_change[OF o assms(2) 3(2) ss]) (auto simp: d3 f3 split: if_splits)
  have d: "file_data ?b fs3 = (fw_files bs i W)(p := Some (concat cs))"
    using file_data_put[OF ss assms(2) o f3] by (simp add: fw_now_data)
  let ?W3 = "fw_set i fs3 W2"
  have "bkNewWriter (file_Backend mime bs i) p opts W = (Inr (file_Writer i ?h), ?W1)"
    using 1(1,2) fb_takes_guards[OF k(1)] by (simp add: file_Backend_def fw_call_def fb_NewWriter_def)
  moreover have "wrClose (file_Writer i ?h) W2 = (None, ?W3)" using 3(1) by (simp add: file_Writer_def fw_call_def)
  moreover have "fw_ok leaf bs ?W3" using assms(1) o3 2(7) by (simp add: fw_ok_def)
  moreover have "fw_files bs j ?W3 = fw_files bs j W" if "j \<noteq> i" for j using that 2(7) by (simp add: fw_files_def)
  ultimately show ?thesis using 2(1) d by (intro exI conjI) (assumption | simp)+
qed

text \<open>Reading.\<close>

lemma file_Backend_read:
  assumes "fw_ok leaf bs W" "fw_files bs i W p = Some d"
  shows "\<exists>s. bkNewReader (file_Backend mime bs i) p [] W = Inr s \<and> concat (sChunks s) = d \<and> sErr s = None"
proof -
  let ?fs = "fw_now i W" let ?b = "bs i"
  have o: "file_in_order leaf ?b ?fs" by (rule fw_now_order[OF assms(1)])
  then have fs: "fs_ok ?fs" "faultless ?fs" by (simp_all add: file_in_order_def)
  have d: "file_data ?b ?fs p = Some d" using assms(2) by (simp add: fw_now_data)
  note k = order_key[OF o file_data_key(1)[OF o d]]
  have f: "fs_file ?fs (locate ?fs (fb_fullPath ?b p)) = Some d"
    using file_data_key(2)[OF o d] k(2) by simp
  obtain j where j: "os_Open (fb_fullPath ?b p) ?fs = (Inr (length (fsHandles ?fs)),
      ?fs\<lparr>fsHandles := fsHandles ?fs @ [\<lparr>fhInode = Some j, fhOffset = 0, fhOpen = True\<rparr>]\<rparr>)" "inData (fsInodes ?fs ! j) = d"
    using os_Open_file[OF fs f] by blast
  let ?fs1 = "?fs\<lparr>fsHandles := fsHandles ?fs @ [\<lparr>fhInode = Some j, fhOffset = 0, fhOpen = True\<rparr>]\<rparr>"
  let ?r = "\<lparr>lrFile = length (fsHandles ?fs), lrLimit = None\<rparr>"
  have "fb_NewReader background p [] ?b ?fs = (Inr ?r, ?fs1)"
    using j(1) fb_takes_guards[OF k(1)] by (simp add: fb_NewReader_def Let_def ApplyReaderOptions_def zeroReaderConfig_def)
  moreover have "lr_ReadAll (Suc (length d)) io_copy_buffer ?r ?fs1 = Some (d, EOF)"
    using lr_ReadAll_reading[OF io_copy_buffer_pos, of ?fs1 ?r 0 d "Suc (length d)"] j(2) by (simp add: reading_def lr_rest_def)
  ultimately show ?thesis using j(2) by (simp add: file_Backend_def file_Stream_def Let_def)
qed

text \<open>Where there is no file, there is nothing.\<close>

lemma find_from_missing:
  "\<lbrakk>fs_dir fs p; \<And>s. prefix s cs \<Longrightarrow> fs_file fs (p @ s) = None; node_at fs (p @ cs) = None\<rbrakk> \<Longrightarrow> find_from fs p cs = Inl ENOENT"
proof (induction cs arbitrary: p)
  case (Cons c cs)
  show ?case
  proof (cases "node_at fs (p @ [c])")
    case None
    then show ?thesis using Cons.prems(1) by (cases cs) simp_all
  next
    case (Some n)
    have "fs_file fs (p @ [c]) = None" using Cons.prems(2)[of "[c]"] by simp
    then have "fs_dir fs (p @ [c])" using Some by (cases n) (simp_all add: fs_file_def)
    moreover have "fs_file fs ((p @ [c]) @ s) = None" if "prefix s cs" for s
      using Cons.prems(2)[of "c # s"] that by simp
    ultimately show ?thesis using Cons.IH[of "p @ [c]"] Cons.prems(1,3) by simp
  qed
qed simp

lemma order_missing:
  assumes "file_in_order leaf b fs" "\<And>s. prefix s cs \<Longrightarrow> fs_file fs (fb_root b fs @ s) = None"
    "\<not> fs_dir fs (fb_root b fs @ cs)"
  shows "find_node fs (fb_root b fs @ cs) = Inl ENOENT"
proof (rule find_from_missing)
  let ?R = "fb_root b fs"
  have ok: "fs_ok fs" "fs_dir fs ?R" using assms(1) by (simp_all add: file_in_order_def)
  show "fs_file fs ([] @ s) = None" if s: "prefix s (?R @ cs)" for s
  proof (cases "prefix s ?R")
    case True
    then obtain ys where "?R = s @ ys" by (auto simp: prefix_def)
    then have "fs_dir fs s" using dir_prefix[OF ok(1), of s ys FDir] ok(2) by (cases ys) auto
    then show ?thesis by (simp add: fs_file_def)
  next
    case False
    then obtain t where "s = ?R @ t" "prefix t cs" using s by (auto simp: prefix_append)
    then show ?thesis using assms(2) by simp
  qed
  have "fs_file fs (?R @ cs) = None" using assms(2)[of cs] by simp
  then show "node_at fs ([] @ ?R @ cs) = None"
    using assms(3) by (auto simp: fs_file_def split: option.splits fs_node.splits)
qed simp

lemma missing_key:
  assumes "file_in_order leaf b fs" "file_key leaf p" "file_data b fs p = None"
  shows "find_node fs (locate fs (fb_fullPath b p)) = Inl ENOENT"
proof -
  let ?cs = "split_on slash p"
  note k = order_key[OF assms(1,2)]
  have none: "fs_file fs (fb_root b fs @ ?cs) = None" using assms(3) file_key_plain[OF assms(2)] by (simp add: file_data_def)
  have "fs_file fs (fb_root b fs @ s) = None" if "prefix s ?cs" for s
  proof (cases "s = ?cs")
    case False
    then have "prefix s (butlast ?cs)" using that append_butlast_last_id[of ?cs] by (metis prefix_snoc split_on_neq_Nil)
    then show ?thesis using k(3) by (simp add: k(2) clear_way_def butlast_append)
  qed (use none in simp)
  then show ?thesis using order_missing[OF assms(1), of ?cs] k(4) by (simp add: k(2))
qed

lemma fault_free: "file_in_order leaf b fs \<Longrightarrow> fsFault fs op l = None"
  by (simp add: file_in_order_def faultless_def)

lemma file_Backend_missing:
  assumes "fw_ok leaf bs W" "file_key leaf p" "fw_files bs i W p = None"
  shows "bkNewReader (file_Backend mime bs i) p [] W = Inl ErrNotFound"
proof -
  have o: "file_in_order leaf (bs i) (fw_now i W)" by (rule fw_now_order[OF assms(1)])
  have "find_node (fw_now i W) (locate (fw_now i W) (fb_fullPath (bs i) p)) = Inl ENOENT"
    by (rule missing_key[OF o assms(2)]) (simp add: fw_now_data assms(3))
  then have "os_Open (fb_fullPath (bs i) p) (fw_now i W) = (Inl ENOENT, fw_now i W)"
    using fault_free[OF o] by (simp add: os_Open_def Let_def)
  then show ?thesis
    using fb_takes_guards[OF order_key(1)[OF o assms(2)]]
    by (simp add: file_Backend_def fb_NewReader_def os_translate_def IsNotExist_def)
qed

lemma order_Stat:
  assumes "file_in_order leaf b fs" "file_key leaf p"
  shows "case file_data b fs p of
      None \<Rightarrow> os_Stat (fb_fullPath b p) fs = Inl ENOENT
    | Some d \<Rightarrow> \<exists>st. os_Stat (fb_fullPath b p) fs = Inr st \<and> \<not> stIsDir st \<and> stSize st = int (length d)"
proof (cases "file_data b fs p")
  case None
  then show ?thesis using missing_key[OF assms None] fault_free[OF assms(1)] by (simp add: os_Stat_def Let_def)
next
  case (Some d)
  have "fs_file fs (locate fs (fb_fullPath b p)) = Some d"
    using file_data_key(2)[OF assms(1) Some] order_key(2)[OF assms] by simp
  then show ?thesis using fb_Stat_file[of fs "fb_fullPath b p" d] assms(1) Some by (simp add: file_in_order_def)
qed

lemma file_Backend_exists:
  assumes "fw_ok leaf bs W" "file_key leaf p"
  shows "bkExists (file_Backend mime bs i) p W = Inr (fw_files bs i W p \<noteq> None)"
proof -
  have o: "file_in_order leaf (bs i) (fw_now i W)" by (rule fw_now_order[OF assms(1)])
  show ?thesis
    using order_Stat[OF o assms(2)] fb_takes_guards[OF order_key(1)[OF o assms(2)]]
    by (auto simp: file_Backend_def fb_Exists_def IsNotExist_def fw_now_data split: option.splits)
qed

lemma file_Ext_stat:
  assumes "fw_ok leaf bs W" "fw_files bs i W p = Some d"
  shows "\<exists>info. exStat (file_Ext mime (bs i) i) p W = Inr info \<and> ObjectSize info = int (length d) \<and>
    \<not> ObjectIsDir info \<and> ObjectPath info = p"
proof -
  have o: "file_in_order leaf (bs i) (fw_now i W)" by (rule fw_now_order[OF assms(1)])
  have d: "file_data (bs i) (fw_now i W) p = Some d" using assms(2) by (simp add: fw_now_data)
  have k: "file_key leaf p" by (rule file_data_key(1)[OF o d])
  show ?thesis
    using order_Stat[OF o k] fb_takes_guards[OF order_key(1)[OF o k]] d
    by (auto simp: file_Ext_def fb_Stat_def)
qed

text \<open>Changing: what a call that succeeds on the file system does to the world.\<close>

lemma fw_changed:
  assumes "fw_ok leaf bs W" "file_key leaf p" "f (fw_now i W) = (r, fs')" "fs_ok fs'" "same_system (fw_now i W) fs'"
    and "\<And>l. fs_dir fs' l = (fs_dir (fw_now i W) l \<or> prefix l (butlast (locate (fw_now i W) (fb_fullPath (bs i) p)))) \<or>
      fs_dir fs' l = fs_dir (fw_now i W) l"
    and "\<And>l. fs_file fs' l \<noteq> None \<Longrightarrow> fs_file (fw_now i W) l \<noteq> None \<or> l = locate (fw_now i W) (fb_fullPath (bs i) p)"
  shows "\<exists>W'. fw_call i f W = (r, W') \<and> fw_ok leaf bs W' \<and> fw_files bs i W' = file_data (bs i) fs' \<and>
    (\<forall>j. j \<noteq> i \<longrightarrow> fw_files bs j W' = fw_files bs j W)"
proof -
  have "file_in_order leaf (bs i) fs'"
    by (rule order_change[OF fw_now_order[OF assms(1)] assms(2,4,5)]) (use assms(6,7) in blast)+
  then show ?thesis using assms(1,3) by (intro exI[of _ "fw_set i fs' W"]) (simp add: fw_call_def)
qed

lemma fw_unchanged:
  assumes "fw_ok leaf bs W" "f (fw_now i W) = (r, fw_now i W)"
  shows "\<exists>W'. fw_call i f W = (r, W') \<and> fw_ok leaf bs W' \<and> (\<forall>j. fw_files bs j W' = fw_files bs j W)"
  using assms fw_now_order[OF assms(1), of i] by (intro exI[of _ "fw_set i (fw_now i W) W"]) (simp add: fw_call_def fw_now_data)

lemma file_Backend_delete:
  assumes "fw_ok leaf bs W" "file_key leaf p"
  shows "\<exists>W'. bkDelete (file_Backend mime bs i) p W = (None, W') \<and> fw_ok leaf bs W' \<and>
    fw_files bs i W' = (fw_files bs i W)(p := None) \<and> (\<forall>j. j \<noteq> i \<longrightarrow> fw_files bs j W' = fw_files bs j W)"
proof -
  let ?fs = "fw_now i W" let ?b = "bs i"
  have o: "file_in_order leaf ?b ?fs" by (rule fw_now_order[OF assms(1)])
  then have fs: "fs_ok ?fs" "faultless ?fs" by (simp_all add: file_in_order_def)
  note k = order_key[OF o assms(2)]
  show ?thesis
  proof (cases "file_data ?b ?fs p")
    case None
    have "find_node ?fs (locate ?fs (fb_fullPath ?b p)) = Inl ENOENT" by (rule missing_key[OF o assms(2) None])
    then have "fb_Delete background p ?b ?fs = (None, ?fs)"
      using fault_free[OF o] fb_takes_guards[OF k(1)] by (simp add: fb_Delete_def os_Remove_def Let_def IsNotExist_def)
    from fw_unchanged[of leaf bs W "fb_Delete background p ?b", OF assms(1) this] show ?thesis
      using None by (auto simp: file_Backend_def fw_now_data fun_upd_idem)
  next
    case (Some d)
    have "fs_file ?fs (locate ?fs (fb_fullPath ?b p)) = Some d" using file_data_key(2)[OF o Some] k(2) by simp
    then obtain fs' where r: "os_Remove (fb_fullPath ?b p) ?fs = (None, fs')" "fs_ok fs'" "same_system ?fs fs'"
      "fs_file fs' = (fs_file ?fs)(locate ?fs (fb_fullPath ?b p) := None)" "\<And>l. fs_dir fs' l = fs_dir ?fs l"
      using os_Remove_file[OF fs] by blast
    have c: "fb_Delete background p ?b ?fs = (None, fs')" using r(1) fb_takes_guards[OF k(1)] by (simp add: fb_Delete_def)
    have "file_data ?b fs' = (fw_files bs i W)(p := None)"
      using file_data_put[OF r(3) assms(2) o r(4)] by (simp add: fw_now_data)
    moreover have "fs_file fs' l \<noteq> None \<Longrightarrow> fs_file ?fs l \<noteq> None" for l by (simp add: r(4) split: if_splits)
    ultimately show ?thesis
      using fw_changed[of leaf bs W p "fb_Delete background p ?b", OF assms c r(2,3)] r(5) by (simp add: file_Backend_def)
  qed
qed

lemma file_Ext_copy:
  assumes "fw_ok leaf bs W" "file_key leaf p" "file_key leaf q" "p \<noteq> q" "fw_files bs i W p = Some d"
  shows "\<exists>W'. exCopy (file_Ext mime (bs i) i) p q W = (None, W') \<and> fw_ok leaf bs W' \<and>
    fw_files bs i W' = (fw_files bs i W)(q := Some d) \<and> (\<forall>j. j \<noteq> i \<longrightarrow> fw_files bs j W' = fw_files bs j W)"
proof -
  let ?fs = "fw_now i W" let ?b = "bs i"
  have o: "file_in_order leaf ?b ?fs" by (rule fw_now_order[OF assms(1)])
  then have fs: "fs_ok ?fs" "faultless ?fs" by (simp_all add: file_in_order_def)
  note p = order_key[OF o assms(2)] and q = order_key[OF o assms(3)]
  have d: "file_data ?b ?fs p = Some d" using assms(5) by (simp add: fw_now_data)
  have f: "fs_file ?fs (locate ?fs (fb_fullPath ?b p)) = Some d" using file_data_key(2)[OF o d] p(2) by simp
  have ne: "locate ?fs (fb_fullPath ?b p) \<noteq> locate ?fs (fb_fullPath ?b q)"
    using assms(4) plain_key_parts(3)[OF file_key_plain] assms(2,3) unfolding p(2) q(2) by (metis same_append_eq)
  obtain fs' where c: "fb_Copy background p q ?b ?fs = (None, fs')" "fs_ok fs'" "same_system ?fs fs'"
    "fs_file fs' = (fs_file ?fs)(locate ?fs (fb_fullPath ?b q) := Some d)"
    "\<And>l. fs_dir fs' l = (fs_dir ?fs l \<or> prefix l (butlast (locate ?fs (fb_fullPath ?b q))))"
    using fb_Copy_file[OF fs p(1) q(1) f q(3,4)] ne by auto
  have "file_data ?b fs' = (fw_files bs i W)(q := Some d)"
    using file_data_put[OF c(3) assms(3) o c(4)] by (simp add: fw_now_data)
  moreover have "fs_file fs' l \<noteq> None \<Longrightarrow> fs_file ?fs l \<noteq> None \<or> l = locate ?fs (fb_fullPath ?b q)" for l
    by (simp add: c(4) split: if_splits)
  ultimately show ?thesis
    using fw_changed[of leaf bs W q "fb_Copy background p q ?b", OF assms(1,3) c(1-3)] c(5) by (simp add: file_Ext_def)
qed

lemma file_Ext_copy_missing:
  assumes "fw_ok leaf bs W" "file_key leaf p" "file_key leaf q" "fw_files bs i W p = None"
  shows "\<exists>W'. exCopy (file_Ext mime (bs i) i) p q W = (Some ErrNotFound, W') \<and> fw_ok leaf bs W' \<and>
    (\<forall>j. fw_files bs j W' = fw_files bs j W)"
proof -
  let ?fs = "fw_now i W" let ?b = "bs i"
  have o: "file_in_order leaf ?b ?fs" by (rule fw_now_order[OF assms(1)])
  have "os_Stat (fb_fullPath ?b p) ?fs = Inl ENOENT" using order_Stat[OF o assms(2)] assms(4) by (simp add: fw_now_data)
  moreover have "first_error [fb_checkClosed ?b, None, fb_validatePath p, fb_validatePath q] = None"
    using order_key(1)[OF o assms(2)] order_key(1)[OF o assms(3)] by (simp add: fb_takes_def fb_checkClosed_def)
  ultimately have "fb_Copy background p q ?b ?fs = (Some ErrNotFound, ?fs)"
    by (simp add: fb_Copy_def Let_def os_translate_def IsNotExist_def)
  from fw_unchanged[of leaf bs W "fb_Copy background p q ?b", OF assms(1) this] show ?thesis by (simp add: file_Ext_def)
qed

lemma file_Ext_move:
  assumes "fw_ok leaf bs W" "file_key leaf p" "file_key leaf q" "p \<noteq> q" "fw_files bs i W p = Some d"
  shows "\<exists>W'. exMove (file_Ext mime (bs i) i) p q W = (None, W') \<and> fw_ok leaf bs W' \<and>
    fw_files bs i W' = (fw_files bs i W)(q := Some d, p := None) \<and> (\<forall>j. j \<noteq> i \<longrightarrow> fw_files bs j W' = fw_files bs j W)"
proof -
  let ?fs = "fw_now i W" let ?b = "bs i"
  have o: "file_in_order leaf ?b ?fs" by (rule fw_now_order[OF assms(1)])
  then have fs: "fs_ok ?fs" "faultless ?fs" by (simp_all add: file_in_order_def)
  note p = order_key[OF o assms(2)] and q = order_key[OF o assms(3)]
  have d: "file_data ?b ?fs p = Some d" using assms(5) by (simp add: fw_now_data)
  have f: "fs_file ?fs (locate ?fs (fb_fullPath ?b p)) = Some d" using file_data_key(2)[OF o d] p(2) by simp
  obtain fs' where c: "fb_Move background p q ?b ?fs = (None, fs')" "fs_ok fs'" "same_system ?fs fs'"
    and ff: "fs_file fs' = (fs_file ?fs)(locate ?fs (fb_fullPath ?b p) := None, locate ?fs (fb_fullPath ?b q) := Some d)"
    and dd: "\<And>l. fs_dir fs' l = (fs_dir ?fs l \<or> prefix l (butlast (locate ?fs (fb_fullPath ?b q))))"
    using fb_Move_file[OF fs p(1) q(1) f q(3,4)] by auto
  have "file_data ?b fs' = (fw_files bs i W)(q := Some d, p := None)"
    using file_data_move[OF o assms(2-4) c(3) ff] by (simp add: fw_now_data)
  moreover have "fs_file fs' l \<noteq> None \<Longrightarrow> fs_file ?fs l \<noteq> None \<or> l = locate ?fs (fb_fullPath ?b q)" for l
    by (simp add: ff split: if_splits)
  ultimately show ?thesis
    using fw_changed[of leaf bs W q "fb_Move background p q ?b", OF assms(1,3) c] dd by (simp add: file_Ext_def)
qed

text \<open>Listing.\<close>

lemma file_under_parts:
  assumes "plain_key p" "plain_key base"
  shows "file_under base p \<longleftrightarrow> (\<exists>r. r \<noteq> [] \<and> split_on slash p = split_on slash base @ r)"
proof
  assume "file_under base p"
  then obtain q where "p = base @ slash # q"
    using plain_key_neq_Nil[OF assms(2)] by (auto simp: file_under_def has_prefix_def prefix_def)
  then show "\<exists>r. r \<noteq> [] \<and> split_on slash p = split_on slash base @ r"
    by (intro exI[of _ "split_on slash q"]) (simp add: split_on_concat)
next
  assume "\<exists>r. r \<noteq> [] \<and> split_on slash p = split_on slash base @ r"
  then obtain r where r: "r \<noteq> []" "split_on slash p = split_on slash base @ r" by blast
  have "p = join_on slash (split_on slash base @ r)" using plain_key_parts(3)[OF assms(1)] r(2) by simp
  also have "\<dots> = base @ slash # join_on slash r"
    using plain_key_parts(2,3)[OF assms(2)] r(1) by (simp add: join_on_append)
  finally show "file_under base p" by (simp add: file_under_def has_prefix_def)
qed

text \<open>The files at or below a place, which is a directory of the convention or not there at all.\<close>

definition place_of :: "path \<Rightarrow> location" where
  "place_of base = (if base = [] then [] else split_on slash base)"

lemma listed_files:
  assumes "file_in_order leaf b fs" "base = [] \<or> file_dirp leaf base"
  shows "{join_on slash r |r. prefix (place_of base) r \<and> fs_file fs (fb_root b fs @ r) \<noteq> None} =
    {p. file_data b fs p \<noteq> None \<and> file_under base p}"
proof (rule set_eqI)
  let ?R = "fb_root b fs"
  have ok: "fs_ok fs" "fs_dir fs ?R" "shaped leaf fs ?R" using assms(1) by (simp_all add: file_in_order_def)
  have nofile: "fs_file fs (?R @ place_of base) = None"
  proof (cases "base = []")
    case False
    then have "\<not> leaf (last (split_on slash base))" using assms(2) by (simp add: file_dirp_def)
    then show ?thesis using False ok(3) unfolding place_of_def shaped_def by (metis split_on_neq_Nil)
  qed (use ok(2) in \<open>simp add: place_of_def fs_file_def\<close>)
  have plain: "plain_key (join_on slash r) \<and> split_on slash (join_on slash r) = r"
    if r: "fs_file fs (?R @ r) \<noteq> None" for r
  proof -
    obtain n where n: "node_at fs (?R @ r) = Some n" using r by (auto simp: fs_file_def split: option.splits)
    have "r \<noteq> []" using r ok(2) by (auto simp: fs_file_def)
    moreover have "\<forall>c \<in> set r. proper_name c" using fs_ok_names[OF ok(1) n] by simp
    ultimately show ?thesis using plain_key_join split_canonical[OF names_canonical] by simp
  qed
  have under: "prefix (place_of base) (split_on slash p) \<longleftrightarrow> file_under base p"
    if p: "plain_key p" "fs_file fs (?R @ split_on slash p) \<noteq> None" for p
  proof (cases "base = []")
    case False
    then have "plain_key base" using assms(2) by (simp add: file_dirp_def)
    moreover have "split_on slash p \<noteq> place_of base" using p(2) nofile by metis
    ultimately show ?thesis using False file_under_parts[OF p(1)] by (auto simp: place_of_def prefix_def)
  qed (simp add: place_of_def file_under_def)
  fix p
  show "p \<in> {join_on slash r |r. prefix (place_of base) r \<and> fs_file fs (?R @ r) \<noteq> None} \<longleftrightarrow>
    p \<in> {p. file_data b fs p \<noteq> None \<and> file_under base p}"
  proof
    assume "p \<in> {join_on slash r |r. prefix (place_of base) r \<and> fs_file fs (?R @ r) \<noteq> None}"
    then obtain r where r: "p = join_on slash r" "prefix (place_of base) r" "fs_file fs (?R @ r) \<noteq> None" by blast
    then show "p \<in> {p. file_data b fs p \<noteq> None \<and> file_under base p}"
      using plain[OF r(3)] under[of p] by (simp add: file_data_def)
  next
    assume "p \<in> {p. file_data b fs p \<noteq> None \<and> file_under base p}"
    then have p: "plain_key p" "fs_file fs (?R @ split_on slash p) \<noteq> None" "file_under base p"
      by (auto simp: file_data_def split: if_splits)
    then show "p \<in> {join_on slash r |r. prefix (place_of base) r \<and> fs_file fs (?R @ r) \<noteq> None}"
      using under[OF p(1,2)] plain_key_parts(3)[OF p(1)] by (intro CollectI exI[of _ "split_on slash p"]) simp
  qed
qed

text \<open>A prefix that is not there lists nothing.\<close>

lemma fb_List_missing:
  assumes "file_in_order leaf b fs" "file_dirp leaf base" "\<not> fs_dir fs (fb_root b fs @ split_on slash base)"
  shows "fb_List background base b fs = Inr []" "{p. file_data b fs p \<noteq> None \<and> file_under base p} = {}"
proof -
  let ?R = "fb_root b fs" let ?cs = "split_on slash base"
  have ok: "fs_ok fs" "fs_dir fs ?R" "shaped leaf fs ?R" using assms(1) by (simp_all add: file_in_order_def)
  have base: "plain_key base" "fb_validatePath base = None"
    using assms(2) undotted_valid by (simp_all add: file_dirp_def)
  have nofile: "fs_file fs (?R @ s) = None" if "prefix s ?cs" for s
  proof (cases "s = []")
    case False
    then have "last s \<in> set ?cs" using that by (meson last_in_set set_mono_prefix subsetD)
    then show ?thesis using False ok(3) assms(2) by (auto simp: shaped_def file_dirp_def)
  qed (use ok(2) in \<open>simp add: fs_file_def\<close>)
  have "fb_takes b base"
    using base assms(1) plain_key_not_rooted[OF base(1)] plain_key_parts(1)[OF base(1)]
    by (simp add: fb_takes_def file_in_order_def)
  then have "locate fs (fb_fullPath b base) = ?R @ ?cs"
    using fb_takes_location(1) plain_key_parts(1)[OF base(1)] by (simp add: fb_root_def)
  then have "os_Stat (fb_fullPath b base) fs = Inl ENOENT"
    using order_missing[OF assms(1) nofile assms(3)] fault_free[OF assms(1)] by (simp add: os_Stat_def Let_def)
  then show "fb_List background base b fs = Inr []"
    using assms(1) plain_key_neq_Nil[OF base(1)]
    by (simp add: fb_List_def fb_checkClosed_def file_in_order_def Walk_def list_visit_def IsPermission_def IsNotExist_def)
  have "fs_dir fs (?R @ ?cs)" if u: "file_data b fs p \<noteq> None" "file_under base p" for p
  proof -
    have p: "plain_key p" using u(1) by (simp add: file_data_def split: if_splits)
    then obtain r where r: "r \<noteq> []" "split_on slash p = ?cs @ r" using u(2) file_under_parts base(1) by blast
    obtain d where "file_data b fs p = Some d" using u(1) by blast
    then have "fs_file fs ((?R @ ?cs) @ r) = Some d" using file_data_key(2)[OF assms(1), of p d] r(2) by simp
    then obtain n where "node_at fs ((?R @ ?cs) @ r) = Some n" by (auto simp: fs_file_def split: option.splits)
    then show ?thesis using dir_prefix[OF ok(1)] r(1) by blast
  qed
  then show "{p. file_data b fs p \<noteq> None \<and> file_under base p} = {}" using assms(3) by blast
qed

lemma file_Backend_list:
  assumes "fw_ok leaf bs W" "base = [] \<or> file_dirp leaf base"
  shows "\<exists>ps. bkList (file_Backend mime bs i) base W = Inr ps \<and> distinct ps \<and>
    set ps = {p. fw_files bs i W p \<noteq> None \<and> file_under base p}"
proof -
  let ?fs = "fw_now i W" let ?b = "bs i"
  have o: "file_in_order leaf ?b ?fs" by (rule fw_now_order[OF assms(1)])
  then have fs: "fs_ok ?fs" "faultless ?fs" "\<not> fbClosed ?b" "fcRoot (fbConfig ?b) \<noteq> []"
    "fs_dir ?fs (locate ?fs (fcRoot (fbConfig ?b)))" by (simp_all add: file_in_order_def fb_root_def)
  have "\<exists>ps. fb_List background base ?b ?fs = Inr ps \<and> distinct ps \<and>
      set ps = {p. file_data ?b ?fs p \<noteq> None \<and> file_under base p}"
  proof (cases "fs_dir ?fs (fb_root ?b ?fs @ place_of base)")
    case True
    have "base = [] \<and> place_of base = [] \<or> fb_takes ?b base \<and> place_of base = cleaned base"
      using assms(2) o undotted_valid[of base] plain_key_not_rooted[of base] plain_key_parts(1)[of base]
      by (auto simp: place_of_def fb_takes_def file_in_order_def file_dirp_def)
    then show ?thesis
      using fb_List_files[OF fs, of base "place_of base"] True listed_files[OF o assms(2)] by (simp add: fb_root_def)
  next
    case False
    then have "base \<noteq> []" using o by (auto simp: place_of_def file_in_order_def)
    then show ?thesis using fb_List_missing[OF o] assms(2) False by (simp add: place_of_def)
  qed
  then show ?thesis by (simp add: file_Backend_def fw_now_data)
qed

subsection \<open>The interpretations\<close>

interpretation file_stores: stores "file_Backend mime bs" "fw_files bs" "fw_ok leaf bs" "file_key leaf" "file_dirp leaf" "\<lambda>i. file_under"
  for mime bs leaf
proof
  show "bkId (file_Backend mime bs i) = i" for i by (simp add: file_Backend_def)
  show "plain_key p" if "file_key leaf p" for p using that by (rule file_key_plain)
  show "plain_key a" if "file_dirp leaf a" for a using that by (simp add: file_dirp_def)
  show "file_key leaf (b @ slash # q)"
    if "file_dirp leaf b" "plain_key q" "file_key leaf q \<or> (\<exists>a. file_dirp leaf a \<and> file_key leaf (a @ slash # q))" for b q
    using that by (rule file_key_below)
  show "file_key leaf p" if "fw_ok leaf bs W" "fw_files bs i W p = Some d" for W i p d
    using file_data_key(1)[OF fw_now_order[OF that(1)]] that(2) by (simp add: fw_now_data)
  show "file_under [] p" for p by (simp add: file_under_def)
  show "file_under base (base @ slash # r)" for base r by (simp add: file_under_def has_prefix_def)
qed (fact file_Backend_write file_Backend_read file_Backend_missing file_Backend_exists file_Backend_delete file_Backend_list)+

interpretation file_ext:
  extended_stores "file_Backend mime bs" "fw_files bs" "fw_ok leaf bs" "file_key leaf" "file_dirp leaf" "\<lambda>i. file_under"
    "\<lambda>i. file_Ext mime (bs i) i" for mime bs leaf
proof
  show "bkExt (file_Backend mime bs i) = Some (file_Ext mime (bs i) i)" for i by (simp add: file_Backend_def)
  show "fCopy (exFeatures (file_Ext mime (bs i) i))" "fMove (exFeatures (file_Ext mime (bs i) i))" for i
    by (simp_all add: file_Ext_def fb_Features_def)
qed (fact file_Ext_stat file_Ext_copy file_Ext_copy_missing file_Ext_move)+

end
