(* ===== verification/FileSync.thy ===== *)
theory FileSync
  imports FileStore SyncCheck Bisync
begin

section \<open>Syncing file backends\<close>

text \<open>
  The copy helpers and the sync engine between file backends, through the interpretation of the
  contract in \<open>FileStore\<close>: what \<open>SyncMemory\<close>, \<open>SyncCopy\<close> and \<open>Bisync\<close> state for memory backends holds for
  directory trees. A prefix is a place here, so that no neighbour of a base path gets in the way.
\<close>

interpretation file_sync:
  synced_stores "file_Backend mime bs" "fw_files bs" "fw_ok leaf bs" "file_key leaf" "file_dirp leaf" "\<lambda>i. file_under"
    "\<lambda>i. file_Ext mime (bs i) i" for mime bs leaf
  by unfold_locales

definition file_base :: "(string \<Rightarrow> bool) \<Rightarrow> path \<Rightarrow> bool" where
  "file_base leaf base \<longleftrightarrow> base = [] \<or> file_dirp leaf base"

definition file_FileInfo ::
  "(string \<Rightarrow> string) \<Rightarrow> (nat \<Rightarrow> file_backend) \<Rightarrow> SyncOptions \<Rightarrow> nat \<Rightarrow> path \<Rightarrow> path \<Rightarrow> fworld \<Rightarrow> FileInfo" where
  "file_FileInfo mime bs opts i base r W = file_info opts (file_Backend mime bs i) base (path_join [base, r]) W"

definition file_detects ::
  "(string \<Rightarrow> string) \<Rightarrow> (nat \<Rightarrow> file_backend) \<Rightarrow> SyncEnv \<Rightarrow> SyncOptions \<Rightarrow> nat \<Rightarrow> path \<Rightarrow> nat \<Rightarrow> path \<Rightarrow> fworld \<Rightarrow> bool" where
  "file_detects mime bs env opts i sp j dp W \<longleftrightarrow>
     (\<forall>r d d'. plain_key r \<longrightarrow> fw_files bs i W (path_join [sp, r]) = Some d \<longrightarrow>
        fw_files bs j W (path_join [dp, r]) = Some d' \<longrightarrow> d \<noteq> d' \<longrightarrow>
        NeedsUpdate env (file_FileInfo mime bs opts i sp r W) (file_FileInfo mime bs opts j dp r W) opts)"

lemma file_base_eq: "file_sync.base_ok leaf = file_base leaf"
  by (rule ext) (simp add: file_base_def file_sync.base_ok_def)

lemma file_info_eq: "file_sync.rel_info mime bs = file_FileInfo mime bs"
  by (intro ext) (simp add: file_FileInfo_def file_sync.rel_info_def)

lemma file_detects_eq: "file_sync.detects mime bs = file_detects mime bs"
  by (intro ext) (simp add: file_detects_def file_sync.detects_def file_info_eq)

lemmas file_sync_eqs = file_base_eq file_info_eq file_detects_eq

text \<open>What is listed under a base is below it.\<close>

lemma file_clean:
  assumes "file_base leaf base"
  shows "file_sync.clean_under bs i base W"
  unfolding file_sync.clean_under_def
proof (intro allI impI)
  fix p assume p: "fw_files bs i W p \<noteq> None" "file_under base p"
  then have k: "plain_key p" by (auto simp: fw_files_def file_data_def split: if_splits)
  show "\<exists>r. plain_key r \<and> p = path_join [base, r]"
  proof (cases "base = []")
    case True
    then show ?thesis using k by (intro exI[of _ p]) simp
  next
    case False
    then have b: "plain_key base" using assms by (auto simp: file_base_def file_dirp_def)
    obtain r where r: "p = base @ slash # r" using p(2) False by (auto simp: file_under_def has_prefix_def prefix_def)
    then have "plain_key r" using k by (simp add: plain_key_def split_on_concat)
    then show ?thesis using r path_join_plain[OF b] by auto
  qed
qed

text \<open>Two different backends on systems in order, and base paths, for a run without a filter that is not a dry one.\<close>

definition file_setting ::
  "(string \<Rightarrow> bool) \<Rightarrow> (nat \<Rightarrow> file_backend) \<Rightarrow> nat \<Rightarrow> nat \<Rightarrow> path \<Rightarrow> path \<Rightarrow> SyncOptions \<Rightarrow> fworld \<Rightarrow> bool" where
  "file_setting leaf bs i j sp dp opts W \<longleftrightarrow>
     i \<noteq> j \<and> fw_ok leaf bs W \<and> file_base leaf sp \<and> file_base leaf dp \<and> (dp = [] \<longrightarrow> sp = []) \<and>
     soFilter opts = None \<and> \<not> soDryRun opts"

lemma file_settingD:
  assumes "file_setting leaf bs i j sp dp opts W"
  shows "i \<noteq> j" "fw_ok leaf bs W" "file_sync.base_ok leaf sp" "file_sync.base_ok leaf dp" "dp = [] \<longrightarrow> sp = []"
    "file_sync.clean_under bs i sp W" "file_sync.clean_under bs j dp W" "soFilter opts = None" "\<not> soDryRun opts"
  using assms file_clean[of leaf] unfolding file_setting_def file_base_eq by blast+

subsection \<open>A world of two trees\<close>

definition witness_files :: fworld where
  "witness_files = \<lparr>fwSystems = (\<lambda>i. if i = 0 then one_file_fs else empty_fs), fwClock = (\<lambda>n. 10 + int n)\<rparr>"

abbreviation letter_a :: "string \<Rightarrow> bool" where
  "letter_a n \<equiv> n = ''a''"

lemma sample_root: "fb_root sample_fb fs = []"
proof -
  have "fcRoot (fbConfig sample_fb) = ''/''" by code_simp
  then show ?thesis
    by (simp add: fb_root_def locate_def is_rooted_def has_prefix_def clean_comps_def clean_step_def)
qed

lemma witness_files_ok: "fw_ok letter_a (\<lambda>_. sample_fb) witness_files"
proof -
  have b: "\<not> fbClosed sample_fb" "fcCreateDirs (fbConfig sample_fb)" "fcRoot (fbConfig sample_fb) \<noteq> []" by code_simp+
  have u: "undotted ''a''" by code_simp
  have "shaped letter_a empty_fs []" by (auto simp: shaped_def fs_file_def empty_fs_node)
  moreover have "shaped letter_a one_file_fs []"
    using u by (auto simp: shaped_def one_file_fs_node one_file_fs_file split: if_splits)
  ultimately show ?thesis
    using b sample_fs_ok by (simp add: fw_ok_def witness_files_def file_in_order_def sample_root)
qed

lemma witness_files_data:
  "fw_files (\<lambda>_. sample_fb) 0 witness_files ''a'' = Some [1, 2, 3]" "fw_files (\<lambda>_. sample_fb) 1 witness_files p = None"
proof -
  have "plain_key ''a''" by code_simp
  then show "fw_files (\<lambda>_. sample_fb) 0 witness_files ''a'' = Some [1, 2, 3]"
    by (simp add: fw_files_def witness_files_def file_data_def sample_root one_file_fs_file)
  show "fw_files (\<lambda>_. sample_fb) 1 witness_files p = None"
    by (simp add: fw_files_def witness_files_def file_data_def sample_root fs_file_def empty_fs_node)
qed

lemma witness_file_setting:
  "file_setting letter_a (\<lambda>_. sample_fb) 0 1 [] [] (zeroOptions\<lparr>soDeleteExtra := True\<rparr>) witness_files"
  using witness_files_ok by (simp add: file_setting_def file_base_def zeroOptions_def)

subsection \<open>Properties\<close>



text \<open>Bidirectional sync of two directory trees converges: with a strategy that picks a side and a comparison that sees every difference in content, it ends without an error, both trees are equal afterwards, no path is lost, and every file has the content that it had on one of the two sides.\<close>

theorem file_bisync_converges:
  assumes "i \<noteq> j" and "fw_ok leaf bs W" and "file_base leaf p1" and "file_base leaf p2" and "p1 = [] \<longleftrightarrow> p2 = []"
    and "boFilter opts = None" and "\<not> boDryRun opts"
    and "settles (boConflictStrategy opts)" and "boConflictStrategy opts \<noteq> ConflictSkip"
    and "\<And>n. ctx n = None" and "range_order ord1" and "range_order ord2"
    and "file_detects mime bs env (scan_options opts) i p1 j p2 W"
  shows "\<exists>r W'. Bisync env ctx ord1 ord2 (file_Backend mime bs i) (file_Backend mime bs j) p1 p2 opts W = ((Some r, None), W') \<and>
    bi_Success r \<and> fw_ok leaf bs W' \<and>
    (\<forall>x. plain_key x \<longrightarrow> fw_files bs i W' (path_join [p1, x]) = fw_files bs j W' (path_join [p2, x]) \<and>
      fw_files bs i W' (path_join [p1, x]) \<in> {fw_files bs i W (path_join [p1, x]), fw_files bs j W (path_join [p2, x])} \<and>
      (fw_files bs i W' (path_join [p1, x]) = None \<longrightarrow>
         fw_files bs i W (path_join [p1, x]) = None \<and> fw_files bs j W (path_join [p2, x]) = None))"
  by (rule file_sync.Bisync_converges[unfolded file_sync_eqs, where ctx = ctx, OF assms(1-5) file_clean[OF assms(3)] file_clean[OF assms(4)]
        assms(6-13)])

theorem file_bisync_converges_witness:
  "\<exists>r W'. Bisync witness_env (\<lambda>n. None) id id (file_Backend (\<lambda>e. []) (\<lambda>_. sample_fb) 1) (file_Backend (\<lambda>e. []) (\<lambda>_. sample_fb) 0)
      [] [] DefaultBisyncOptions witness_files = ((Some r, None), W') \<and> bi_Success r \<and>
    fw_files (\<lambda>_. sample_fb) 1 W' ''a'' = Some [1, 2, 3]"
proof -
  have d: "file_detects (\<lambda>e. []) (\<lambda>_. sample_fb) witness_env (scan_options DefaultBisyncOptions) 1 [] 0 [] witness_files"
    using witness_files_data(2) by (simp add: file_detects_def)
  have k: "plain_key ''a''" by code_simp
  then have j: "path_join [[], ''a''] = ''a''" by (rule path_join_empty_plain)
  obtain r W' where r: "Bisync witness_env (\<lambda>n. None) id id (file_Backend (\<lambda>e. []) (\<lambda>_. sample_fb) 1)
      (file_Backend (\<lambda>e. []) (\<lambda>_. sample_fb) 0) [] [] DefaultBisyncOptions witness_files = ((Some r, None), W')" "bi_Success r"
    and e: "\<forall>x. plain_key x \<longrightarrow> fw_files (\<lambda>_. sample_fb) 1 W' (path_join [[], x]) = fw_files (\<lambda>_. sample_fb) 0 W' (path_join [[], x]) \<and>
      fw_files (\<lambda>_. sample_fb) 1 W' (path_join [[], x]) \<in>
        {fw_files (\<lambda>_. sample_fb) 1 witness_files (path_join [[], x]), fw_files (\<lambda>_. sample_fb) 0 witness_files (path_join [[], x])} \<and>
      (fw_files (\<lambda>_. sample_fb) 1 W' (path_join [[], x]) = None \<longrightarrow>
         fw_files (\<lambda>_. sample_fb) 1 witness_files (path_join [[], x]) = None \<and>
         fw_files (\<lambda>_. sample_fb) 0 witness_files (path_join [[], x]) = None)"
    using file_bisync_converges[OF _ witness_files_ok _ _ _ witness_bisync(2-5) refl range_order_id range_order_id d]
    by (auto simp: file_base_def)
  have "fw_files (\<lambda>_. sample_fb) 1 W' ''a'' = Some [1, 2, 3]"
    using e[rule_format, OF k] witness_files_data unfolding j by auto
  then show ?thesis using r by blast
qed

end
