(* ===== verification/StoreProduct.thy ===== *)
theory StoreProduct
  imports BackendInterface
begin

section \<open>Stores of two kinds side by side\<close>

text \<open>
  A program that holds backends of two kinds (a memory store and a directory, say) has the states of
  both in its world. A backend of either kind acts on its own part of a pair and leaves the other:
  \<open>lift_Backend\<close> is the backend value as the client of both sees it, and \<open>both_Backend\<close> numbers the two
  families, the even numbers for the first. The locale \<open>two_stores\<close> takes two families that keep the
  contract of \<open>BackendInterface\<close> and shows that the family of all of them keeps it, on the paths that
  both kinds take. What is proved of every family of stores holds for a mixed one.
\<close>

type_synonym ('x, 'w) part = "('w \<Rightarrow> 'x) \<times> ('x \<Rightarrow> 'w \<Rightarrow> 'w)"

definition left_part :: "('x, 'x \<times> 'y) part" where
  "left_part = (fst, \<lambda>x w. (x, snd w))"

definition right_part :: "('y, 'x \<times> 'y) part" where
  "right_part = (snd, \<lambda>y w. (fst w, y))"

definition in_part :: "('x, 'w) part \<Rightarrow> ('x \<Rightarrow> 'r \<times> 'x) \<Rightarrow> 'w \<Rightarrow> 'r \<times> 'w" where
  "in_part p f w = (case f (fst p w) of (r, x) \<Rightarrow> (r, snd p x w))"

definition lift_Writer :: "('x, 'w) part \<Rightarrow> 'x WriteCloser \<Rightarrow> 'w WriteCloser" where
  "lift_Writer p wr = \<lparr>wrWrite = (\<lambda>bs. in_part p (wrWrite wr bs)), wrClose = in_part p (wrClose wr)\<rparr>"

definition lift_Ext :: "('x, 'w) part \<Rightarrow> 'x ExtendedOps \<Rightarrow> 'w ExtendedOps" where
  "lift_Ext p e =
     \<lparr>exStat = (\<lambda>q w. exStat e q (fst p w)),
      exMkdir = (\<lambda>q. in_part p (exMkdir e q)),
      exRmdir = (\<lambda>q. in_part p (exRmdir e q)),
      exCopy = (\<lambda>q r. in_part p (exCopy e q r)),
      exMove = (\<lambda>q r. in_part p (exMove e q r)),
      exFeatures = exFeatures e\<rparr>"

definition lift_Backend :: "('x, 'w) part \<Rightarrow> nat \<Rightarrow> 'x Backend \<Rightarrow> 'w Backend" where
  "lift_Backend p n b =
     \<lparr>bkId = n,
      bkNewWriter = (\<lambda>q opts w. case in_part p (bkNewWriter b q opts) w of
          (Inl e, w') \<Rightarrow> (Inl e, w') | (Inr wr, w') \<Rightarrow> (Inr (lift_Writer p wr), w')),
      bkNewReader = (\<lambda>q opts w. bkNewReader b q opts (fst p w)),
      bkExists = (\<lambda>q w. bkExists b q (fst p w)),
      bkDelete = (\<lambda>q. in_part p (bkDelete b q)),
      bkList = (\<lambda>q w. bkList b q (fst p w)),
      bkExt = map_option (lift_Ext p) (bkExt b)\<rparr>"

definition both_Backend :: "(nat \<Rightarrow> 'x Backend) \<Rightarrow> (nat \<Rightarrow> 'y Backend) \<Rightarrow> nat \<Rightarrow> ('x \<times> 'y) Backend" where
  "both_Backend A B n =
     (if even n then lift_Backend left_part n (A (n div 2)) else lift_Backend right_part n (B (n div 2)))"

definition both_Ext :: "(nat \<Rightarrow> 'x ExtendedOps) \<Rightarrow> (nat \<Rightarrow> 'y ExtendedOps) \<Rightarrow> nat \<Rightarrow> ('x \<times> 'y) ExtendedOps" where
  "both_Ext a b n = (if even n then lift_Ext left_part (a (n div 2)) else lift_Ext right_part (b (n div 2)))"

definition both_files ::
  "(nat \<Rightarrow> 'x \<Rightarrow> path \<Rightarrow> bytes option) \<Rightarrow> (nat \<Rightarrow> 'y \<Rightarrow> path \<Rightarrow> bytes option) \<Rightarrow> nat \<Rightarrow> 'x \<times> 'y \<Rightarrow> path \<Rightarrow> bytes option" where
  "both_files f g n w = (if even n then f (n div 2) (fst w) else g (n div 2) (snd w))"

text \<open>What is said of a number is said of the member of the one family or of the other.\<close>

definition both_under :: "(nat \<Rightarrow> path \<Rightarrow> path \<Rightarrow> bool) \<Rightarrow> (nat \<Rightarrow> path \<Rightarrow> path \<Rightarrow> bool) \<Rightarrow> nat \<Rightarrow> path \<Rightarrow> path \<Rightarrow> bool" where
  "both_under u v n = (if even n then u (n div 2) else v (n div 2))"

text \<open>Both parts are in order, and every file has a path that both kinds take.\<close>

definition both_ok ::
  "('x \<Rightarrow> bool) \<Rightarrow> ('y \<Rightarrow> bool) \<Rightarrow> (nat \<Rightarrow> 'x \<Rightarrow> path \<Rightarrow> bytes option) \<Rightarrow> (nat \<Rightarrow> 'y \<Rightarrow> path \<Rightarrow> bytes option) \<Rightarrow>
   (path \<Rightarrow> bool) \<Rightarrow> 'x \<times> 'y \<Rightarrow> bool" where
  "both_ok okx oky f g key w \<longleftrightarrow>
     okx (fst w) \<and> oky (snd w) \<and> (\<forall>n p. both_files f g n w p \<noteq> None \<longrightarrow> key p)"

lemmas part_defs = left_part_def right_part_def in_part_def

lemma even_cases:
  fixes n :: nat
  obtains (left) m where "n = 2 * m" | (right) m where "n = Suc (2 * m)"
  by (metis oddE evenE Suc_eq_plus1)

lemma both_simps [simp]:
  "both_Backend A B (2 * m) = lift_Backend left_part (2 * m) (A m)"
  "both_Backend A B (Suc (2 * m)) = lift_Backend right_part (Suc (2 * m)) (B m)"
  "both_Ext a b (2 * m) = lift_Ext left_part (a m)" "both_Ext a b (Suc (2 * m)) = lift_Ext right_part (b m)"
  "both_files f g (2 * m) w = f m (fst w)" "both_files f g (Suc (2 * m)) w = g m (snd w)"
  "both_under u v (2 * m) = u m" "both_under u v (Suc (2 * m)) = v m"
  by (simp_all add: both_Backend_def both_Ext_def both_files_def both_under_def)

text \<open>A copy loop through a lifted writer is the loop in the part, for a part that is set as it was read.\<close>

definition lawful :: "('x, 'w) part \<Rightarrow> bool" where
  "lawful p \<longleftrightarrow>
     (\<forall>x w. fst p (snd p x w) = x) \<and> (\<forall>w. snd p (fst p w) w = w) \<and> (\<forall>x y w. snd p x (snd p y w) = snd p x w)"

lemma lawful_parts: "lawful left_part" "lawful right_part"
  by (simp_all add: lawful_def part_defs)

lemma lift_io_copy_loop:
  assumes "lawful p" "io_copy_loop wr cs n (fst p w) = (r, x)"
  shows "io_copy_loop (lift_Writer p wr) cs n w = (r, snd p x w)"
  using assms(2)
proof (induction cs arbitrary: n w)
  case Nil
  then show ?case using assms(1) by (auto simp: lawful_def)
next
  case (Cons c cs)
  obtain e y where y: "wrWrite wr c (fst p w) = (e, y)" by fastforce
  show ?case
  proof (cases e)
    case None
    then have "io_copy_loop wr cs (n + length c) (fst p (snd p y w)) = (r, x)"
      using Cons.prems y assms(1) by (simp add: lawful_def)
    from Cons.IH[OF this] show ?thesis using y None assms(1) by (simp add: lift_Writer_def in_part_def lawful_def)
  qed (use Cons.prems y in \<open>auto simp: lift_Writer_def in_part_def\<close>)
qed

subsection \<open>The family of both\<close>

locale two_stores =
  lf: extended_stores A fa oka keya dira una xa + rt: extended_stores B fb okb keyb dirb unb xb
  for A :: "nat \<Rightarrow> 'x Backend" and fa oka keya dira una xa
    and B :: "nat \<Rightarrow> 'y Backend" and fb okb keyb dirb unb xb
begin

definition key2 :: "path \<Rightarrow> bool" where
  "key2 p \<longleftrightarrow> keya p \<and> keyb p"

definition dir2 :: "path \<Rightarrow> bool" where
  "dir2 p \<longleftrightarrow> dira p \<and> dirb p"

abbreviation files2 :: "nat \<Rightarrow> 'x \<times> 'y \<Rightarrow> path \<Rightarrow> bytes option" where
  "files2 \<equiv> both_files fa fb"

abbreviation ok2 :: "'x \<times> 'y \<Rightarrow> bool" where
  "ok2 \<equiv> both_ok oka okb fa fb key2"

text \<open>A call on one part that changes one store at keys keeps both parts in order.\<close>

lemma ok2_left:
  assumes "ok2 w" "oka x" "\<And>p. fa m x p \<noteq> None \<Longrightarrow> fa m (fst w) p \<noteq> None \<or> key2 p"
    "\<forall>k. k \<noteq> m \<longrightarrow> fa k x = fa k (fst w)"
  shows "ok2 (x, snd w)" "\<forall>k. k \<noteq> 2 * m \<longrightarrow> files2 k (x, snd w) = files2 k w"
proof -
  show o: "\<forall>k. k \<noteq> 2 * m \<longrightarrow> files2 k (x, snd w) = files2 k w"
    using assms(4) by (auto simp: both_files_def fun_eq_iff)
  have "key2 p" if "files2 n (x, snd w) p \<noteq> None" for n p
  proof (cases "n = 2 * m")
    case True
    then show ?thesis using that assms(3)[of p] assms(1) unfolding both_ok_def by (metis both_simps(5) fst_conv)
  next
    case False
    then show ?thesis using that o assms(1) unfolding both_ok_def by metis
  qed
  then show "ok2 (x, snd w)" using assms(1,2) unfolding both_ok_def by simp
qed

lemma ok2_right:
  assumes "ok2 w" "okb y" "\<And>p. fb m y p \<noteq> None \<Longrightarrow> fb m (snd w) p \<noteq> None \<or> key2 p"
    "\<forall>k. k \<noteq> m \<longrightarrow> fb k y = fb k (snd w)"
  shows "ok2 (fst w, y)" "\<forall>k. k \<noteq> Suc (2 * m) \<longrightarrow> files2 k (fst w, y) = files2 k w"
proof -
  show o: "\<forall>k. k \<noteq> Suc (2 * m) \<longrightarrow> files2 k (fst w, y) = files2 k w"
    using assms(4) by (auto simp: both_files_def fun_eq_iff elim!: oddE)
  have "key2 p" if "files2 n (fst w, y) p \<noteq> None" for n p
  proof (cases "n = Suc (2 * m)")
    case True
    then show ?thesis using that assms(3)[of p] assms(1) unfolding both_ok_def by (metis both_simps(6) snd_conv)
  next
    case False
    then show ?thesis using that o assms(1) unfolding both_ok_def by metis
  qed
  then show "ok2 (fst w, y)" using assms(1,2) unfolding both_ok_def by simp
qed

lemma ok2D: "ok2 w \<Longrightarrow> oka (fst w) \<and> okb (snd w)" "ok2 w \<Longrightarrow> files2 n w p = Some d \<Longrightarrow> key2 p"
  unfolding both_ok_def by auto

lemma key2D: "key2 p \<Longrightarrow> keya p" "key2 p \<Longrightarrow> keyb p"
  by (simp_all add: key2_def)

lemma write2:
  assumes "ok2 w" "key2 p"
  shows "\<exists>wr w1 w2 w3. bkNewWriter (both_Backend A B i) p opts w = (Inr wr, w1) \<and>
    io_copy_loop wr cs n w1 = ((n + length (concat cs), None), w2) \<and> wrClose wr w2 = (None, w3) \<and> ok2 w3 \<and>
    files2 i w3 = (files2 i w)(p := Some (concat cs)) \<and> (\<forall>j. j \<noteq> i \<longrightarrow> files2 j w3 = files2 j w)"
proof (cases i rule: even_cases)
  case (left m)
  obtain wr x1 x2 x3 where x: "bkNewWriter (A m) p opts (fst w) = (Inr wr, x1)"
      "io_copy_loop wr cs n x1 = ((n + length (concat cs), None), x2)" "wrClose wr x2 = (None, x3)" "oka x3"
      "fa m x3 = (fa m (fst w))(p := Some (concat cs))" "\<forall>j. j \<noteq> m \<longrightarrow> fa j x3 = fa j (fst w)"
    using lf.write_law[OF ok2D(1)[OF assms(1), THEN conjunct1] key2D(1)[OF assms(2)], of m opts cs n] by auto
  have k: "fa m (fst w) q \<noteq> None \<or> key2 q" if "fa m x3 q \<noteq> None" for q
    using that assms(2) by (auto simp: x(5) split: if_splits)
  note o = ok2_left[OF assms(1) x(4) k x(6)]
  have "bkNewWriter (both_Backend A B i) p opts w = (Inr (lift_Writer left_part wr), (x1, snd w))"
    using x(1) by (simp add: left lift_Backend_def part_defs)
  moreover have "io_copy_loop (lift_Writer left_part wr) cs n (x1, snd w) = ((n + length (concat cs), None), (x2, snd w))"
    using lift_io_copy_loop[OF lawful_parts(1), of wr cs n "(x1, snd w)"] x(2) by (simp add: part_defs)
  moreover have "wrClose (lift_Writer left_part wr) (x2, snd w) = (None, (x3, snd w))"
    using x(3) by (simp add: lift_Writer_def part_defs)
  ultimately show ?thesis using o x(5) left by auto
next
  case (right m)
  obtain wr y1 y2 y3 where y: "bkNewWriter (B m) p opts (snd w) = (Inr wr, y1)"
      "io_copy_loop wr cs n y1 = ((n + length (concat cs), None), y2)" "wrClose wr y2 = (None, y3)" "okb y3"
      "fb m y3 = (fb m (snd w))(p := Some (concat cs))" "\<forall>j. j \<noteq> m \<longrightarrow> fb j y3 = fb j (snd w)"
    using rt.write_law[OF ok2D(1)[OF assms(1), THEN conjunct2] key2D(2)[OF assms(2)], of m opts cs n] by auto
  have k: "fb m (snd w) q \<noteq> None \<or> key2 q" if "fb m y3 q \<noteq> None" for q
    using that assms(2) by (auto simp: y(5) split: if_splits)
  note o = ok2_right[OF assms(1) y(4) k y(6)]
  have "bkNewWriter (both_Backend A B i) p opts w = (Inr (lift_Writer right_part wr), (fst w, y1))"
    using y(1) by (simp add: right lift_Backend_def part_defs)
  moreover have "io_copy_loop (lift_Writer right_part wr) cs n (fst w, y1) = ((n + length (concat cs), None), (fst w, y2))"
    using lift_io_copy_loop[OF lawful_parts(2), of wr cs n "(fst w, y1)"] y(2) by (simp add: part_defs)
  moreover have "wrClose (lift_Writer right_part wr) (fst w, y2) = (None, (fst w, y3))"
    using y(3) by (simp add: lift_Writer_def part_defs)
  ultimately show ?thesis using o y(5) right by auto
qed

lemma act_left:
  assumes "ok2 w" and "\<forall>p. F p \<noteq> None \<longrightarrow> fa m (fst w) p \<noteq> None \<or> key2 p"
    and "\<exists>x. f (fst w) = (r, x) \<and> oka x \<and> fa m x = F \<and> (\<forall>j. j \<noteq> m \<longrightarrow> fa j x = fa j (fst w))"
  shows "\<exists>w'. in_part left_part f w = (r, w') \<and> ok2 w' \<and> files2 (2 * m) w' = F \<and>
    (\<forall>j. j \<noteq> 2 * m \<longrightarrow> files2 j w' = files2 j w)"
proof -
  obtain x where x: "f (fst w) = (r, x)" "oka x" "fa m x = F" "\<forall>j. j \<noteq> m \<longrightarrow> fa j x = fa j (fst w)"
    using assms(3) by blast
  note o = ok2_left[OF assms(1) x(2) assms(2)[rule_format, folded x(3)] x(4)]
  show ?thesis using x(1,3) o by (intro exI[of _ "(x, snd w)"]) (simp add: part_defs)
qed

lemma act_right:
  assumes "ok2 w" and "\<forall>p. F p \<noteq> None \<longrightarrow> fb m (snd w) p \<noteq> None \<or> key2 p"
    and "\<exists>y. f (snd w) = (r, y) \<and> okb y \<and> fb m y = F \<and> (\<forall>j. j \<noteq> m \<longrightarrow> fb j y = fb j (snd w))"
  shows "\<exists>w'. in_part right_part f w = (r, w') \<and> ok2 w' \<and> files2 (Suc (2 * m)) w' = F \<and>
    (\<forall>j. j \<noteq> Suc (2 * m) \<longrightarrow> files2 j w' = files2 j w)"
proof -
  obtain y where y: "f (snd w) = (r, y)" "okb y" "fb m y = F" "\<forall>j. j \<noteq> m \<longrightarrow> fb j y = fb j (snd w)"
    using assms(3) by blast
  note o = ok2_right[OF assms(1) y(2) assms(2)[rule_format, folded y(3)] y(4)]
  show ?thesis using y(1,3) o by (intro exI[of _ "(fst w, y)"]) (simp add: part_defs)
qed

lemma delete2:
  assumes "ok2 w" "key2 p"
  shows "\<exists>w'. bkDelete (both_Backend A B i) p w = (None, w') \<and> ok2 w' \<and> files2 i w' = (files2 i w)(p := None) \<and>
    (\<forall>j. j \<noteq> i \<longrightarrow> files2 j w' = files2 j w)"
proof (cases i rule: even_cases)
  case (left m)
  show ?thesis
    using act_left[where m = m and f = "bkDelete (A m) p", OF assms(1) _ lf.delete_law[OF ok2D(1)[OF assms(1), THEN conjunct1] key2D(1)[OF assms(2)], of m]]
    by (simp add: left lift_Backend_def)
next
  case (right m)
  show ?thesis
    using act_right[where m = m and f = "bkDelete (B m) p", OF assms(1) _ rt.delete_law[OF ok2D(1)[OF assms(1), THEN conjunct2] key2D(2)[OF assms(2)], of m]]
    by (simp add: right lift_Backend_def)
qed

lemma copy2:
  assumes "ok2 w" "key2 p" "key2 q" "p \<noteq> q" "files2 i w p = Some d"
  shows "\<exists>w'. exCopy (both_Ext xa xb i) p q w = (None, w') \<and> ok2 w' \<and> files2 i w' = (files2 i w)(q := Some d) \<and>
    (\<forall>j. j \<noteq> i \<longrightarrow> files2 j w' = files2 j w)"
proof (cases i rule: even_cases)
  case (left m)
  then have "fa m (fst w) p = Some d" using assms(5) by simp
  from act_left[where m = m and f = "exCopy (xa m) p q", OF assms(1) _ lf.copy_law[OF ok2D(1)[OF assms(1), THEN conjunct1] key2D(1)[OF assms(2)] key2D(1)[OF assms(3)] assms(4) this]]
  show ?thesis using assms(3) by (simp add: left lift_Ext_def)
next
  case (right m)
  then have "fb m (snd w) p = Some d" using assms(5) by simp
  from act_right[where m = m and f = "exCopy (xb m) p q", OF assms(1) _ rt.copy_law[OF ok2D(1)[OF assms(1), THEN conjunct2] key2D(2)[OF assms(2)] key2D(2)[OF assms(3)] assms(4) this]]
  show ?thesis using assms(3) by (simp add: right lift_Ext_def)
qed

lemma move2:
  assumes "ok2 w" "key2 p" "key2 q" "p \<noteq> q" "files2 i w p = Some d"
  shows "\<exists>w'. exMove (both_Ext xa xb i) p q w = (None, w') \<and> ok2 w' \<and> files2 i w' = (files2 i w)(q := Some d, p := None) \<and>
    (\<forall>j. j \<noteq> i \<longrightarrow> files2 j w' = files2 j w)"
proof (cases i rule: even_cases)
  case (left m)
  then have "fa m (fst w) p = Some d" using assms(5) by simp
  from act_left[where m = m and f = "exMove (xa m) p q", OF assms(1) _ lf.move_law[OF ok2D(1)[OF assms(1), THEN conjunct1] key2D(1)[OF assms(2)] key2D(1)[OF assms(3)] assms(4) this]]
  show ?thesis using assms(3) by (simp add: left lift_Ext_def)
next
  case (right m)
  then have "fb m (snd w) p = Some d" using assms(5) by simp
  from act_right[where m = m and f = "exMove (xb m) p q", OF assms(1) _ rt.move_law[OF ok2D(1)[OF assms(1), THEN conjunct2] key2D(2)[OF assms(2)] key2D(2)[OF assms(3)] assms(4) this]]
  show ?thesis using assms(3) by (simp add: right lift_Ext_def)
qed

lemma copy_missing2:
  assumes "ok2 w" "key2 p" "key2 q" "files2 i w p = None"
  shows "\<exists>w'. exCopy (both_Ext xa xb i) p q w = (Some ErrNotFound, w') \<and> ok2 w' \<and> (\<forall>j. files2 j w' = files2 j w)"
proof (cases i rule: even_cases)
  case (left m)
  then have m: "fa m (fst w) p = None" using assms(4) by simp
  have "\<exists>x. exCopy (xa m) p q (fst w) = (Some ErrNotFound, x) \<and> oka x \<and> fa m x = fa m (fst w) \<and>
      (\<forall>j. j \<noteq> m \<longrightarrow> fa j x = fa j (fst w))"
    using lf.copy_missing_law[OF ok2D(1)[OF assms(1), THEN conjunct1] key2D(1)[OF assms(2)] key2D(1)[OF assms(3)] m] by blast
  then obtain w' where w: "in_part left_part (exCopy (xa m) p q) w = (Some ErrNotFound, w')" "ok2 w'"
      "files2 (2 * m) w' = files2 (2 * m) w" "\<forall>j. j \<noteq> 2 * m \<longrightarrow> files2 j w' = files2 j w"
    using act_left[where m = m and f = "exCopy (xa m) p q", OF assms(1)] by fastforce
  have "\<forall>j. files2 j w' = files2 j w" using w(3,4) by metis
  then show ?thesis using w(1,2) by (simp add: left lift_Ext_def)
next
  case (right m)
  then have m: "fb m (snd w) p = None" using assms(4) by simp
  have "\<exists>y. exCopy (xb m) p q (snd w) = (Some ErrNotFound, y) \<and> okb y \<and> fb m y = fb m (snd w) \<and>
      (\<forall>j. j \<noteq> m \<longrightarrow> fb j y = fb j (snd w))"
    using rt.copy_missing_law[OF ok2D(1)[OF assms(1), THEN conjunct2] key2D(2)[OF assms(2)] key2D(2)[OF assms(3)] m] by blast
  then obtain w' where w: "in_part right_part (exCopy (xb m) p q) w = (Some ErrNotFound, w')" "ok2 w'"
      "files2 (Suc (2 * m)) w' = files2 (Suc (2 * m)) w" "\<forall>j. j \<noteq> Suc (2 * m) \<longrightarrow> files2 j w' = files2 j w"
    using act_right[where m = m and f = "exCopy (xb m) p q", OF assms(1)] by fastforce
  have "\<forall>j. files2 j w' = files2 j w" using w(3,4) by metis
  then show ?thesis using w(1,2) by (simp add: right lift_Ext_def)
qed

text \<open>What only looks at the world looks at its part.\<close>

lemma read2:
  assumes "ok2 w" "files2 i w p = Some d"
  shows "\<exists>s. bkNewReader (both_Backend A B i) p [] w = Inr s \<and> concat (sChunks s) = d \<and> sErr s = None"
  using assms(2) lf.read_law[OF ok2D(1)[OF assms(1), THEN conjunct1]] rt.read_law[OF ok2D(1)[OF assms(1), THEN conjunct2]]
  by (cases i rule: even_cases) (auto simp: lift_Backend_def part_defs)

lemma missing2:
  assumes "ok2 w" "key2 p" "files2 i w p = None"
  shows "bkNewReader (both_Backend A B i) p [] w = Inl ErrNotFound"
  using assms(3) lf.read_missing_law[OF ok2D(1)[OF assms(1), THEN conjunct1] key2D(1)[OF assms(2)]]
    rt.read_missing_law[OF ok2D(1)[OF assms(1), THEN conjunct2] key2D(2)[OF assms(2)]]
  by (cases i rule: even_cases) (auto simp: lift_Backend_def part_defs)

lemma exists2:
  assumes "ok2 w" "key2 p"
  shows "bkExists (both_Backend A B i) p w = Inr (files2 i w p \<noteq> None)"
  using lf.exists_law[OF ok2D(1)[OF assms(1), THEN conjunct1] key2D(1)[OF assms(2)]]
    rt.exists_law[OF ok2D(1)[OF assms(1), THEN conjunct2] key2D(2)[OF assms(2)]]
  by (cases i rule: even_cases) (auto simp: lift_Backend_def part_defs)

lemma list2:
  assumes "ok2 w" "base = [] \<or> dir2 base"
  shows "\<exists>ps. bkList (both_Backend A B i) base w = Inr ps \<and> distinct ps \<and>
    set ps = {p. files2 i w p \<noteq> None \<and> both_under una unb i base p}"
  using lf.list_law[OF ok2D(1)[OF assms(1), THEN conjunct1], of base]
    rt.list_law[OF ok2D(1)[OF assms(1), THEN conjunct2], of base] assms(2)
  by (cases i rule: even_cases) (auto simp: lift_Backend_def part_defs dir2_def)

lemma stat2:
  assumes "ok2 w" "files2 i w p = Some d"
  shows "\<exists>info. exStat (both_Ext xa xb i) p w = Inr info \<and> ObjectSize info = int (length d) \<and>
    \<not> ObjectIsDir info \<and> ObjectPath info = p"
  using assms(2) lf.stat_law[OF ok2D(1)[OF assms(1), THEN conjunct1]] rt.stat_law[OF ok2D(1)[OF assms(1), THEN conjunct2]]
  by (cases i rule: even_cases) (auto simp: lift_Ext_def part_defs)

end

sublocale two_stores \<subseteq> both:
  extended_stores "both_Backend A B" files2 ok2 key2 dir2 "both_under una unb" "both_Ext xa xb"
proof
  show "bkId (both_Backend A B i) = i" for i by (simp add: both_Backend_def lift_Backend_def)
  show "plain_key p" if "key2 p" for p using lf.key_plain key2D(1)[OF that] .
  show "plain_key a" if "dir2 a" for a using lf.dir_plain that by (simp add: dir2_def)
  show "key2 (b @ slash # q)" if "dir2 b" "plain_key q" "key2 q \<or> (\<exists>a. dir2 a \<and> key2 (a @ slash # q))" for b q
    using lf.key_below[of b q] rt.key_below[of b q] that by (auto simp: dir2_def key2_def)
  show "key2 p" if "ok2 w" "files2 i w p = Some d" for w i p d using ok2D(2)[OF that] .
  show "both_under una unb i [] p" for i p
    by (cases i rule: even_cases) (simp_all add: lf.under_all rt.under_all)
  show "both_under una unb i base (base @ slash # r)" if "dir2 base" "plain_key r" for i base r
    using that by (cases i rule: even_cases) (simp_all add: dir2_def lf.under_below rt.under_below)
  show "bkExt (both_Backend A B i) = Some (both_Ext xa xb i)" for i
    by (cases i rule: even_cases) (simp_all add: lift_Backend_def lf.ext_law rt.ext_law)
  show "fCopy (exFeatures (both_Ext xa xb i))" "fMove (exFeatures (both_Ext xa xb i))" for i
    by (cases i rule: even_cases; simp add: lift_Ext_def lf.features_law rt.features_law)+
qed (fact write2 read2 missing2 exists2 delete2 list2 stat2 copy2 copy_missing2 move2)+

end
