(* ===== verification/MixedSync.thy ===== *)
theory MixedSync
  imports StoreProduct FileSync
begin

section \<open>Syncing memory stores with directory trees\<close>

text \<open>
  Memory backends and file backends in one program: the even numbers are memory stores, the odd ones
  directory trees, through the interpretation of \<open>StoreProduct\<close> on both models. The results about the
  sync engine hold for any two of them, whatever their kinds.
\<close>

type_synonym mixed_world = "mworld \<times> fworld"

definition mixed_Backend :: "(string \<Rightarrow> string) \<Rightarrow> (nat \<Rightarrow> file_backend) \<Rightarrow> nat \<Rightarrow> mixed_world Backend" where
  "mixed_Backend mime bs = both_Backend mem_Backend (file_Backend mime bs)"

definition mixed_files :: "(nat \<Rightarrow> file_backend) \<Rightarrow> nat \<Rightarrow> mixed_world \<Rightarrow> path \<Rightarrow> bytes option" where
  "mixed_files bs = both_files wd_files (fw_files bs)"

definition mixed_ok :: "(string \<Rightarrow> bool) \<Rightarrow> (nat \<Rightarrow> file_backend) \<Rightarrow> mixed_world \<Rightarrow> bool" where
  "mixed_ok leaf bs = both_ok wd_ok (fw_ok leaf bs) wd_files (fw_files bs) (file_key leaf)"

text \<open>The names that a file system takes are names for a memory store too.\<close>

lemma undotted_climb:
  assumes "plain_key p" "\<forall>c \<in> set (split_on slash p). undotted c"
  shows "mem_key p"
  using undotted_valid[OF assms] assms(1) by (simp add: mem_key_def fb_validatePath_def split: if_splits)

lemma file_key_mem: "file_key leaf p \<Longrightarrow> mem_key p"
  by (rule undotted_climb) (simp_all add: file_key_def Let_def)

lemma file_dirp_mem: "file_dirp leaf p \<Longrightarrow> mem_key p"
  by (rule undotted_climb) (simp_all add: file_dirp_def)

interpretation mixed: two_stores mem_Backend wd_files wd_ok mem_key mem_key "\<lambda>i. mem_under" mem_Ext
    "file_Backend mime bs" "fw_files bs" "fw_ok leaf bs" "file_key leaf" "file_dirp leaf" "\<lambda>i. file_under"
    "\<lambda>i. file_Ext mime (bs i) i" for mime bs leaf
  by unfold_locales

lemma mixed_keys: "mixed.key2 leaf = file_key leaf" "mixed.dir2 leaf = file_dirp leaf"
  using file_key_mem[of leaf] file_dirp_mem[of leaf] by (auto simp: fun_eq_iff mixed.key2_def mixed.dir2_def)

interpretation mixed_sync:
  synced_stores "mixed_Backend mime bs" "mixed_files bs" "mixed_ok leaf bs" "file_key leaf" "file_dirp leaf"
    "both_under (\<lambda>i. mem_under) (\<lambda>i. file_under)" "both_Ext mem_Ext (\<lambda>i. file_Ext mime (bs i) i)" for mime bs leaf
  using mixed.both.extended_stores_axioms[of mime bs leaf]
  by (simp add: synced_stores_def mixed_keys mixed_Backend_def mixed_files_def mixed_ok_def)

definition mixed_info ::
  "(string \<Rightarrow> string) \<Rightarrow> (nat \<Rightarrow> file_backend) \<Rightarrow> SyncOptions \<Rightarrow> nat \<Rightarrow> path \<Rightarrow> path \<Rightarrow> mixed_world \<Rightarrow> FileInfo" where
  "mixed_info mime bs opts i base r w = file_info opts (mixed_Backend mime bs i) base (path_join [base, r]) w"

definition mixed_detects ::
  "(string \<Rightarrow> string) \<Rightarrow> (nat \<Rightarrow> file_backend) \<Rightarrow> SyncEnv \<Rightarrow> SyncOptions \<Rightarrow> nat \<Rightarrow> path \<Rightarrow> nat \<Rightarrow> path \<Rightarrow> mixed_world \<Rightarrow> bool" where
  "mixed_detects mime bs env opts i sp j dp w \<longleftrightarrow>
     (\<forall>r d d'. plain_key r \<longrightarrow> mixed_files bs i w (path_join [sp, r]) = Some d \<longrightarrow>
        mixed_files bs j w (path_join [dp, r]) = Some d' \<longrightarrow> d \<noteq> d' \<longrightarrow>
        NeedsUpdate env (mixed_info mime bs opts i sp r w) (mixed_info mime bs opts j dp r w) opts)"

text \<open>A memory store lists what starts with the base, which must then lie below it.\<close>

definition mixed_clean :: "nat \<Rightarrow> path \<Rightarrow> mixed_world \<Rightarrow> bool" where
  "mixed_clean n base w \<longleftrightarrow> (even n \<longrightarrow> mem_clean_under (n div 2) base (fst w))"

lemma mixed_base_eq: "mixed_sync.base_ok leaf = file_base leaf"
  by (rule ext) (simp add: file_base_def mixed_sync.base_ok_def)

lemma mixed_info_eq: "mixed_sync.rel_info mime bs = mixed_info mime bs"
  by (intro ext) (simp add: mixed_info_def mixed_sync.rel_info_def)

lemma mixed_detects_eq: "mixed_sync.detects mime bs = mixed_detects mime bs"
  by (intro ext) (simp add: mixed_detects_def mixed_sync.detects_def mixed_info_eq)

lemma mixed_clean_under:
  assumes "file_base leaf base" "mixed_clean n base w"
  shows "mixed_sync.clean_under bs n base w"
proof (cases n rule: even_cases)
  case (left m)
  then show ?thesis using assms(2)
    unfolding mixed_sync.clean_under_def by (simp add: mixed_clean_def mem_clean_under_def mixed_files_def)
next
  case (right m)
  then show ?thesis using file_clean[OF assms(1), of bs m "snd w"]
    unfolding mixed_sync.clean_under_def file_sync.clean_under_def by (simp add: mixed_files_def)
qed

lemmas mixed_sync_eqs = mixed_base_eq mixed_info_eq mixed_detects_eq

definition mixed_setting ::
  "(string \<Rightarrow> bool) \<Rightarrow> (nat \<Rightarrow> file_backend) \<Rightarrow> nat \<Rightarrow> nat \<Rightarrow> path \<Rightarrow> path \<Rightarrow> SyncOptions \<Rightarrow> mixed_world \<Rightarrow> bool" where
  "mixed_setting leaf bs i j sp dp opts w \<longleftrightarrow>
     i \<noteq> j \<and> mixed_ok leaf bs w \<and> file_base leaf sp \<and> file_base leaf dp \<and> (dp = [] \<longrightarrow> sp = []) \<and>
     mixed_clean i sp w \<and> mixed_clean j dp w \<and> soFilter opts = None \<and> \<not> soDryRun opts"

lemma mixed_settingD:
  assumes "mixed_setting leaf bs i j sp dp opts w"
  shows "i \<noteq> j" "mixed_ok leaf bs w" "mixed_sync.base_ok leaf sp" "mixed_sync.base_ok leaf dp" "dp = [] \<longrightarrow> sp = []"
    "mixed_sync.clean_under bs i sp w" "mixed_sync.clean_under bs j dp w" "soFilter opts = None" "\<not> soDryRun opts"
  using assms mixed_clean_under[of leaf] unfolding mixed_setting_def mixed_base_eq by blast+

text \<open>One run: it ends without an error and mirrors, whatever the schedule of its workers.\<close>

lemma mixed_mirror:
  assumes "mixed_setting leaf bs i j sp dp opts w" "range_order ord" "\<And>n. ctx n = None"
    and "soDeleteExtra opts" "\<not> soIgnoreExisting opts" "mixed_detects mime bs env opts i sp j dp w"
  shows "\<exists>r w'. Sync env ctx ord (mixed_Backend mime bs i) (mixed_Backend mime bs j) sp dp opts w = ((Some r, None), w') \<and> Success r"
    and "sync_outcome env ctx ord (mixed_Backend mime bs i) (mixed_Backend mime bs j) sp dp opts w (Some r, None) w' \<Longrightarrow>
      mixed_ok leaf bs w' \<and> (\<forall>k. k \<noteq> j \<longrightarrow> mixed_files bs k w' = mixed_files bs k w) \<and>
      (\<forall>x. plain_key x \<longrightarrow> mixed_files bs j w' (path_join [dp, x]) = mixed_files bs i w (path_join [sp, x]))"
proof -
  note s = mixed_settingD[OF assms(1)]
  show "\<exists>r w'. Sync env ctx ord (mixed_Backend mime bs i) (mixed_Backend mime bs j) sp dp opts w = ((Some r, None), w') \<and> Success r"
    using mixed_sync.Sync_completes[where env = env and mime = mime and ctx = ctx, OF s(1,2) assms(2) s(3-9) assms(3)] by blast
  assume o: "sync_outcome env ctx ord (mixed_Backend mime bs i) (mixed_Backend mime bs j) sp dp opts w (Some r, None) w'"
  note e = mixed_sync.Sync_effect[where ctx = ctx, OF s(1,2) assms(2) s(3-9) assms(3) o]
  have "mixed_files bs j w' (path_join [dp, x]) = mixed_files bs i w (path_join [sp, x])" if "plain_key x" for x
    using mixed_sync.Sync_mirror[where ctx = ctx, OF s(1,2) assms(2) s(3-9) assms(3-5) assms(6)[folded mixed_detects_eq] o that]
      e(2) s(1) by metis
  then show "mixed_ok leaf bs w' \<and> (\<forall>k. k \<noteq> j \<longrightarrow> mixed_files bs k w' = mixed_files bs k w) \<and>
      (\<forall>x. plain_key x \<longrightarrow> mixed_files bs j w' (path_join [dp, x]) = mixed_files bs i w (path_join [sp, x]))"
    using e(1,2) by blast
qed

subsection \<open>Backing up and restoring\<close>

text \<open>A memory store that holds nothing yet: every base is clean, and no comparison is made.\<close>

lemma mixed_empty_target:
  assumes "mixed_files bs (2 * k) w = Map.empty"
  shows "mixed_clean (2 * k) base w" "mixed_detects mime bs env opts i sp (2 * k) base w"
  using assms by (simp_all add: mixed_clean_def mem_clean_under_def mixed_files_def mixed_detects_def)

text \<open>The run of \<open>Sync\<close> between the backends \<open>i\<close> and \<open>j\<close> of the program, under some schedule of its workers.\<close>

abbreviation mixed_run where
  "mixed_run mime bs env ctx ord opts i sp j dp w r w' \<equiv>
     sync_outcome env ctx ord (mixed_Backend mime bs i) (mixed_Backend mime bs j) sp dp opts w (Some r, None) w'"

definition backup_setting ::
  "(string \<Rightarrow> bool) \<Rightarrow> (nat \<Rightarrow> file_backend) \<Rightarrow> nat \<Rightarrow> path \<Rightarrow> nat \<Rightarrow> path \<Rightarrow> nat \<Rightarrow> path \<Rightarrow> SyncOptions \<Rightarrow> mixed_world \<Rightarrow> bool" where
  "backup_setting leaf bs i sp j dp k rp opts w \<longleftrightarrow>
     i \<noteq> k \<and> mixed_setting leaf bs (2 * i) (Suc (2 * j)) sp dp opts w \<and> mixed_files bs (2 * k) w = Map.empty \<and>
     file_base leaf rp \<and> (rp = [] \<longrightarrow> dp = []) \<and> soDeleteExtra opts \<and> \<not> soIgnoreExisting opts"

lemma backup_step:
  assumes "backup_setting leaf bs i sp j dp k rp opts w" "range_order ord" "\<And>n. ctx n = None"
    and "mixed_detects mime bs env opts (2 * i) sp (Suc (2 * j)) dp w"
    and "mixed_run mime bs env ctx ord opts (2 * i) sp (Suc (2 * j)) dp w r w'"
  shows "mixed_setting leaf bs (Suc (2 * j)) (2 * k) dp rp opts w'" "mixed_files bs (2 * k) w' = Map.empty"
    "\<And>x. plain_key x \<Longrightarrow> mixed_files bs (Suc (2 * j)) w' (path_join [dp, x]) = mixed_files bs (2 * i) w (path_join [sp, x])"
proof -
  have b: "mixed_setting leaf bs (2 * i) (Suc (2 * j)) sp dp opts w" "soDeleteExtra opts" "\<not> soIgnoreExisting opts"
    using assms(1) by (simp_all add: backup_setting_def)
  have k: "2 * k \<noteq> Suc (2 * j)" by presburger
  note m = mixed_mirror(2)[where ctx = ctx, OF b(1) assms(2,3) b(2,3) assms(4,5)]
  show e: "mixed_files bs (2 * k) w' = Map.empty" using m k assms(1) by (simp add: backup_setting_def)
  show "mixed_setting leaf bs (Suc (2 * j)) (2 * k) dp rp opts w'"
    using assms(1) m k mixed_empty_target(1)[OF e, of rp]
    by (auto simp: backup_setting_def mixed_setting_def mixed_clean_def[of "Suc (2 * j)"])
  show "\<And>x. plain_key x \<Longrightarrow> mixed_files bs (Suc (2 * j)) w' (path_join [dp, x]) = mixed_files bs (2 * i) w (path_join [sp, x])"
    using m by blast
qed


definition witness_mixed :: mixed_world where
  "witness_mixed = (witness_world, witness_files)"

lemma witness_mixed_files:
  "mixed_files (\<lambda>_. sample_fb) (2 * 0) witness_mixed = [''a'' \<mapsto> [5]]"
  "mixed_files (\<lambda>_. sample_fb) (2 * 1) witness_mixed = Map.empty"
  "mixed_files (\<lambda>_. sample_fb) (Suc (2 * 1)) witness_mixed = Map.empty"
  "mixed_files (\<lambda>_. sample_fb) (Suc (2 * 0)) witness_mixed ''a'' = Some [1, 2, 3]"
  unfolding mixed_files_def both_simps using witness_world_files witness_files_data
  by (simp_all add: witness_mixed_def fun_eq_iff wd_files_def witness_world_def mem_New_def mem_files_def)

lemma witness_mixed_ok: "mixed_ok letter_a (\<lambda>_. sample_fb) witness_mixed"
proof -
  have k: "file_key letter_a ''a''" by code_simp
  have "file_key letter_a p" if f: "both_files wd_files (fw_files (\<lambda>_. sample_fb)) n witness_mixed p \<noteq> None" for n p
  proof (cases n rule: even_cases)
    case (left m)
    then have "p = ''a''" using f
      by (auto simp: witness_mixed_def wd_files_def witness_world_def mem_New_def mem_files_def witness_backend_files gomap_simps
          witness_backend_def split: if_splits)
    then show ?thesis using k by simp
  next
    case (right m)
    then show ?thesis using f file_stores.key_law[OF witness_files_ok] by (auto simp: witness_mixed_def)
  qed
  then show ?thesis
    using witness_world_ok witness_files_ok by (simp add: mixed_ok_def both_ok_def witness_mixed_def)
qed

lemma witness_backup:
  "backup_setting letter_a (\<lambda>_. sample_fb) 0 [] 1 [] 1 [] (zeroOptions\<lparr>soDeleteExtra := True\<rparr>) witness_mixed"
  using witness_mixed_ok witness_clean(1) witness_mixed_files(2)
  by (simp add: backup_setting_def mixed_setting_def file_base_def mixed_clean_def zeroOptions_def witness_mixed_def)


subsection \<open>Bidirectional sync\<close>



end
