(* ===== verification/RemoteConfig.thy ===== *)
theory RemoteConfig
  imports ObjectTypes
begin

section \<open>Settings of the remote backends (\<open>object/backend/sftp/options.go\<close>, \<open>object/backend/dropbox/options.go\<close>)\<close>

text \<open>
  The configurations, from a string map and from the environment (\<open>env\<close> is \<open>os.Getenv\<close>, which
  returns the empty string for a variable that is not set), and \<open>strconv.Atoi\<close> and its inverse.
\<close>

subsection \<open>\<open>strconv\<close>\<close>

definition digit_value :: "char \<Rightarrow> int option" where
  "digit_value c =
     (let n = of_char c :: nat in if 48 \<le> n \<and> n \<le> 57 then Some (int n - 48) else None)"

fun parse_digits :: "int \<Rightarrow> string \<Rightarrow> int option" where
  "parse_digits n [] = Some n"
| "parse_digits n (c # cs) = (case digit_value c of None \<Rightarrow> None | Some d \<Rightarrow> parse_digits (10 * n + d) cs)"

text \<open>\<open>Atoi\<close>: an optional sign and at least one digit, in the range of 64 bits.\<close>

definition Atoi :: "string \<Rightarrow> int option" where
  "Atoi s =
     (let neg = (s \<noteq> [] \<and> hd s = CHR ''-'');
          ds = (if s \<noteq> [] \<and> (hd s = CHR ''-'' \<or> hd s = CHR ''+'') then tl s else s)
      in if ds = [] then None
         else (case parse_digits 0 ds of
                 None \<Rightarrow> None
               | Some n \<Rightarrow>
                   let v = (if neg then - n else n)
                   in if - (2 ^ 63) \<le> v \<and> v < 2 ^ 63 then Some v else None))"

lemma digit_value_char: "d < 10 \<Longrightarrow> digit_value (char_of (48 + d)) = Some (int d)" for d :: nat
  by (simp add: digit_value_def Let_def)

lemma parse_digits_append:
  "parse_digits n (xs @ ys) = (case parse_digits n xs of None \<Rightarrow> None | Some m \<Rightarrow> parse_digits m ys)"
  by (induction n xs rule: parse_digits.induct) (auto split: option.splits)

lemma parse_decimal_nat: "parse_digits 0 (decimal_nat n) = Some (int n)"
proof (induction n rule: decimal_nat.induct)
  case (1 n)
  have d: "digit_value (char_of (48 + n mod 10)) = Some (int (n mod 10))" by (rule digit_value_char) simp
  show ?case
  proof (cases "n < 10")
    case True
    then show ?thesis using d by (simp add: decimal_nat.simps[of n] parse_digits_append)
  next
    case False
    then show ?thesis using 1 d
      by (simp add: decimal_nat.simps[of n] parse_digits_append del: of_nat_mod) (simp add: zmod_int zdiv_int)
  qed
qed

lemma Atoi_decimal:
  assumes "- (2 ^ 63) \<le> i" "i < 2 ^ 63"
  shows "Atoi (decimal i) = Some i"
proof -
  have ne: "decimal_nat n \<noteq> []" for n by (simp add: decimal_nat.simps[of n])
  have hd: "hd (decimal_nat n) \<noteq> CHR ''-'' \<and> hd (decimal_nat n) \<noteq> CHR ''+''" for n
  proof -
    have "digit_value (hd (decimal_nat n)) \<noteq> None"
      using parse_decimal_nat[of n] ne[of n] by (cases "decimal_nat n") (auto split: option.splits)
    then show ?thesis by (auto simp: digit_value_def Let_def)
  qed
  show ?thesis
    using assms ne hd[of "nat i"] by (auto simp: Atoi_def decimal_def parse_decimal_nat Let_def)
qed

subsection \<open>Reading settings\<close>

text \<open>\<open>if v, ok := m[k]; ok\<close>, \<open>if v := os.Getenv(k); v != ""\<close>, and a positive number.\<close>

definition from_map :: "(string, string) gomap \<Rightarrow> string \<Rightarrow> (string \<Rightarrow> 'c \<Rightarrow> 'c) \<Rightarrow> 'c \<Rightarrow> 'c" where
  "from_map m k f config = (case gm_get m k of None \<Rightarrow> config | Some v \<Rightarrow> f v config)"

definition from_env :: "(string \<Rightarrow> string) \<Rightarrow> string \<Rightarrow> (string \<Rightarrow> 'c \<Rightarrow> 'c) \<Rightarrow> 'c \<Rightarrow> 'c" where
  "from_env env k f config = (if env k \<noteq> [] then f (env k) config else config)"

definition if_positive :: "(int \<Rightarrow> 'c \<Rightarrow> 'c) \<Rightarrow> string \<Rightarrow> 'c \<Rightarrow> 'c" where
  "if_positive f v config = (case Atoi v of Some n \<Rightarrow> if n > 0 then f n config else config | None \<Rightarrow> config)"

subsection \<open>SFTP\<close>

record sftpConfig =
  scfHost :: string
  scfPort :: int
  scfUser :: string
  scfPassword :: string
  scfKeyFile :: string
  scfKeyPassphrase :: string
  scfRoot :: path
  scfKnownHostsFile :: path
  scfTimeout :: int
  scfConcurrency :: int

definition sftp_DefaultConfig :: sftpConfig where
  "sftp_DefaultConfig =
     \<lparr>scfHost = [], scfPort = 22, scfUser = [], scfPassword = [], scfKeyFile = [], scfKeyPassphrase = [],
      scfRoot = [], scfKnownHostsFile = [], scfTimeout = 30, scfConcurrency = 5\<rparr>"

definition sftp_ConfigFromEnv :: "(string \<Rightarrow> string) \<Rightarrow> sftpConfig" where
  "sftp_ConfigFromEnv env =
     (let c1 = from_env env ''OMNISTORAGE_SFTP_HOST'' (\<lambda>v. scfHost_update (\<lambda>_. v)) sftp_DefaultConfig;
          c2 = from_env env ''OMNISTORAGE_SFTP_PORT'' (if_positive (\<lambda>n. scfPort_update (\<lambda>_. n))) c1;
          c3 = from_env env ''OMNISTORAGE_SFTP_USER'' (\<lambda>v. scfUser_update (\<lambda>_. v)) c2;
          c4 = from_env env ''OMNISTORAGE_SFTP_PASSWORD'' (\<lambda>v. scfPassword_update (\<lambda>_. v)) c3;
          c5 = from_env env ''OMNISTORAGE_SFTP_KEY_FILE'' (\<lambda>v. scfKeyFile_update (\<lambda>_. v)) c4;
          c6 = from_env env ''OMNISTORAGE_SFTP_KEY_PASSPHRASE'' (\<lambda>v. scfKeyPassphrase_update (\<lambda>_. v)) c5;
          c7 = from_env env ''OMNISTORAGE_SFTP_ROOT'' (\<lambda>v. scfRoot_update (\<lambda>_. v)) c6;
          c8 = from_env env ''OMNISTORAGE_SFTP_KNOWN_HOSTS'' (\<lambda>v. scfKnownHostsFile_update (\<lambda>_. v)) c7
      in from_env env ''OMNISTORAGE_SFTP_TIMEOUT'' (if_positive (\<lambda>n. scfTimeout_update (\<lambda>_. n))) c8)"

definition sftp_ConfigFromMap :: "(string, string) gomap \<Rightarrow> sftpConfig" where
  "sftp_ConfigFromMap m =
     (let c1 = from_map m ''host'' (\<lambda>v. scfHost_update (\<lambda>_. v)) sftp_DefaultConfig;
          c2 = from_map m ''port'' (if_positive (\<lambda>n. scfPort_update (\<lambda>_. n))) c1;
          c3 = from_map m ''user'' (\<lambda>v. scfUser_update (\<lambda>_. v)) c2;
          c4 = from_map m ''pass'' (\<lambda>v. scfPassword_update (\<lambda>_. v)) c3;
          c5 = from_map m ''password'' (\<lambda>v. scfPassword_update (\<lambda>_. v)) c4;
          c6 = from_map m ''key_file'' (\<lambda>v. scfKeyFile_update (\<lambda>_. v)) c5;
          c7 = from_map m ''key_passphrase'' (\<lambda>v. scfKeyPassphrase_update (\<lambda>_. v)) c6;
          c8 = from_map m ''root'' (\<lambda>v. scfRoot_update (\<lambda>_. v)) c7;
          c9 = from_map m ''known_hosts'' (\<lambda>v. scfKnownHostsFile_update (\<lambda>_. v)) c8;
          c10 = from_map m ''timeout'' (if_positive (\<lambda>n. scfTimeout_update (\<lambda>_. n))) c9
      in from_map m ''concurrency'' (if_positive (\<lambda>n. scfConcurrency_update (\<lambda>_. n))) c10)"

definition ErrHostRequired :: object_error where "ErrHostRequired = Errorf ''sftp: host is required''"

definition ErrUserRequired :: object_error where "ErrUserRequired = Errorf ''sftp: user is required''"

definition sftp_Validate :: "sftpConfig \<Rightarrow> object_error option" where
  "sftp_Validate c =
     (if scfHost c = [] then Some ErrHostRequired
      else if scfUser c = [] then Some ErrUserRequired
      else None)"

subsection \<open>Dropbox\<close>

text \<open>The repository holds the settings of this backend only.\<close>

record dropboxConfig =
  dcfAccessToken :: string
  dcfRefreshToken :: string
  dcfAppKey :: string
  dcfAppSecret :: string
  dcfRoot :: path
  dcfChunkSize :: int
  dcfConcurrency :: int

definition dropbox_DefaultConfig :: dropboxConfig where
  "dropbox_DefaultConfig =
     \<lparr>dcfAccessToken = [], dcfRefreshToken = [], dcfAppKey = [], dcfAppSecret = [], dcfRoot = [],
      dcfChunkSize = 150 * 1024 * 1024, dcfConcurrency = 4\<rparr>"

definition dropbox_ConfigFromEnv :: "(string \<Rightarrow> string) \<Rightarrow> dropboxConfig" where
  "dropbox_ConfigFromEnv env =
     (let c1 = from_env env ''OMNISTORAGE_DROPBOX_ACCESS_TOKEN'' (\<lambda>v. dcfAccessToken_update (\<lambda>_. v)) dropbox_DefaultConfig;
          c2 = from_env env ''OMNISTORAGE_DROPBOX_REFRESH_TOKEN'' (\<lambda>v. dcfRefreshToken_update (\<lambda>_. v)) c1;
          c3 = from_env env ''OMNISTORAGE_DROPBOX_APP_KEY'' (\<lambda>v. dcfAppKey_update (\<lambda>_. v)) c2;
          c4 = from_env env ''OMNISTORAGE_DROPBOX_APP_SECRET'' (\<lambda>v. dcfAppSecret_update (\<lambda>_. v)) c3
      in from_env env ''OMNISTORAGE_DROPBOX_ROOT'' (\<lambda>v. dcfRoot_update (\<lambda>_. v)) c4)"

definition dropbox_ConfigFromMap :: "(string, string) gomap \<Rightarrow> dropboxConfig" where
  "dropbox_ConfigFromMap m =
     (let c1 = from_map m ''access_token'' (\<lambda>v. dcfAccessToken_update (\<lambda>_. v)) dropbox_DefaultConfig;
          c2 = from_map m ''refresh_token'' (\<lambda>v. dcfRefreshToken_update (\<lambda>_. v)) c1;
          c3 = from_map m ''app_key'' (\<lambda>v. dcfAppKey_update (\<lambda>_. v)) c2;
          c4 = from_map m ''app_secret'' (\<lambda>v. dcfAppSecret_update (\<lambda>_. v)) c3
      in from_map m ''root'' (\<lambda>v. dcfRoot_update (\<lambda>_. v)) c4)"

definition ErrTokenRequired :: object_error where "ErrTokenRequired = Errorf ''dropbox: access token is required''"

definition dropbox_Validate :: "dropboxConfig \<Rightarrow> object_error option" where
  "dropbox_Validate c = (if dcfAccessToken c = [] then Some ErrTokenRequired else None)"

subsection \<open>What the settings read\<close>

text \<open>The settings of a configuration, written to a map as text, are read back; a port, timeout or concurrency that is not positive is read as the default.\<close>

definition sftp_to_map :: "sftpConfig \<Rightarrow> (string, string) gomap" where
  "sftp_to_map c =
     fold (\<lambda>(k, v). gm_put k v)
       [(''host'', scfHost c), (''port'', decimal (scfPort c)), (''user'', scfUser c), (''password'', scfPassword c),
        (''key_file'', scfKeyFile c), (''key_passphrase'', scfKeyPassphrase c), (''root'', scfRoot c),
        (''known_hosts'', scfKnownHostsFile c), (''timeout'', decimal (scfTimeout c)), (''concurrency'', decimal (scfConcurrency c))] gm_empty"

theorem sftp_config_roundtrip:
  assumes "scfPort c < 2 ^ 63" and "scfTimeout c < 2 ^ 63" and "scfConcurrency c < 2 ^ 63"
    and "0 < scfPort c" and "0 < scfTimeout c" and "0 < scfConcurrency c"
  shows "sftp_ConfigFromMap (sftp_to_map c) = c"
proof -
  have "Atoi (decimal (scfPort c)) = Some (scfPort c)" "Atoi (decimal (scfTimeout c)) = Some (scfTimeout c)"
    "Atoi (decimal (scfConcurrency c)) = Some (scfConcurrency c)"
    using assms by (simp_all add: Atoi_decimal)
  then show ?thesis
    using assms(4-6) by (simp add: sftp_ConfigFromMap_def sftp_to_map_def from_map_def if_positive_def gm_get_put sftp_DefaultConfig_def Let_def)
qed

theorem sftp_config_roundtrip_witness:
  "sftp_ConfigFromMap (sftp_to_map sftp_DefaultConfig) = sftp_DefaultConfig"
  by (rule sftp_config_roundtrip) (simp_all add: sftp_DefaultConfig_def)

end
