(* ===== verification/SftpBackend.thy ===== *)
theory SftpBackend
  imports FileBackend RemoteConfig
begin

section \<open>The SFTP backend (\<open>object/backend/sftp/backend.go\<close>)\<close>

text \<open>
  The client of \<open>github.com/pkg/sftp\<close> is a parameter: a record of its calls over the state \<open>'w\<close> of
  the connection and the server. The definitions are the methods of the backend over it. What the
  server does is stated by the locale \<open>sftp_server\<close>: its files are a file system in the sense of
  \<open>FileSystem\<close>, which the calls look up and change as the calls of package \<open>os\<close> do, except that
  a rename onto an existing name fails (SFTP version 3).
\<close>

subsection \<open>The client\<close>

text \<open>What the tests of packages \<open>os\<close>, \<open>errors\<close> and \<open>net\<close> answer about an error; \<open>sePath\<close> is what they answer about the error inside an \<open>fs.PathError\<close>.\<close>

record sftp_error =
  seIsNotExist :: bool
  seIsPermission :: bool
  sePath :: "(bool \<times> bool) option"
  seNet :: bool
  seText :: string

record 'w sftp_client =
  scMkdirAll :: "path \<Rightarrow> 'w \<Rightarrow> sftp_error option \<times> 'w"
  scCreate :: "path \<Rightarrow> 'w \<Rightarrow> (sftp_error + nat) \<times> 'w"
  scOpen :: "path \<Rightarrow> 'w \<Rightarrow> (sftp_error + nat) \<times> 'w"
  scStat :: "path \<Rightarrow> 'w \<Rightarrow> sftp_error + FileStat"
  scReadDir :: "path \<Rightarrow> 'w \<Rightarrow> sftp_error + (string \<times> bool) list"
  scRemove :: "path \<Rightarrow> 'w \<Rightarrow> sftp_error option \<times> 'w"
  scRemoveDirectory :: "path \<Rightarrow> 'w \<Rightarrow> sftp_error option \<times> 'w"
  scRename :: "path \<Rightarrow> path \<Rightarrow> 'w \<Rightarrow> sftp_error option \<times> 'w"
  scSeek :: "nat \<Rightarrow> int \<Rightarrow> 'w \<Rightarrow> sftp_error option \<times> 'w"
  scRead :: "nat \<Rightarrow> nat \<Rightarrow> 'w \<Rightarrow> (bytes \<times> object_error option) \<times> 'w"
  scWrite :: "nat \<Rightarrow> bytes \<Rightarrow> 'w \<Rightarrow> sftp_error option \<times> 'w"
  scIoCopy :: "nat \<Rightarrow> nat \<Rightarrow> 'w \<Rightarrow> sftp_error option \<times> 'w"
  scCloseFile :: "nat \<Rightarrow> 'w \<Rightarrow> sftp_error option \<times> 'w"
  scClose :: "'w \<Rightarrow> sftp_error option \<times> 'w"
  scCloseSsh :: "'w \<Rightarrow> sftp_error option \<times> 'w"

definition se_err :: "sftp_error \<Rightarrow> object_error" where
  "se_err e = Errorf (seText e)"

record sftp_backend =
  sbConfig :: sftpConfig
  sbClosed :: bool

subsection \<open>Connecting\<close>

text \<open>
  The calls of \<open>New\<close> outside the package: reading and parsing a private key, the home directory,
  the \<open>known_hosts\<close> file, and the two connections; \<open>'k\<close> is a signer and \<open>'h\<close> a host key callback.
\<close>

datatype 'k auth_method = AuthPassword string | AuthPublicKeys 'k

record ('k, 'h, 'w) ssh_libs =
  slReadFile :: "path \<Rightarrow> string + bytes"
  slParsePrivateKey :: "bytes \<Rightarrow> string + 'k"
  slParsePrivateKeyWithPassphrase :: "bytes \<Rightarrow> string \<Rightarrow> string + 'k"
  slUserHomeDir :: "string + path"
  slKnownHosts :: "path \<Rightarrow> string + 'h"
  slDial :: "string \<Rightarrow> string \<Rightarrow> 'k auth_method list \<Rightarrow> duration \<Rightarrow> 'h \<Rightarrow> 'w \<Rightarrow> string option \<times> 'w"
  slNewClient :: "'w \<Rightarrow> string option \<times> 'w"
  slCloseSsh :: "'w \<Rightarrow> string option \<times> 'w"

text \<open>The product of two durations wraps at 64 bits.\<close>

definition duration_times :: "duration \<Rightarrow> duration \<Rightarrow> duration" where
  "duration_times a b = (a * b + 2 ^ 63) mod 2 ^ 64 - 2 ^ 63"

definition keyFileAuth :: "('k, 'h, 'w) ssh_libs \<Rightarrow> path \<Rightarrow> string \<Rightarrow> 'k auth_method res" where
  "keyFileAuth L keyFile passphrase =
     (case slReadFile L keyFile of
        Inl m \<Rightarrow> Inl (Wrapf ''reading key file'' (Errorf m))
      | Inr keyData \<Rightarrow>
          (case (if passphrase \<noteq> [] then slParsePrivateKeyWithPassphrase L keyData passphrase
                 else slParsePrivateKey L keyData) of
             Inl m \<Rightarrow> Inl (Wrapf ''parsing private key'' (Errorf m))
           | Inr signer \<Rightarrow> Inr (AuthPublicKeys signer)))"

text \<open>The steps of \<open>New\<close>: the defaults, the authentication methods, and the connection.\<close>

definition sb_defaults :: "sftpConfig \<Rightarrow> sftpConfig" where
  "sb_defaults cfg =
     (let c1 = (if scfPort cfg = 0 then cfg\<lparr>scfPort := 22\<rparr> else cfg)
      in if scfTimeout c1 = 0 then c1\<lparr>scfTimeout := 30\<rparr> else c1)"

definition sb_auth :: "('k, 'h, 'w) ssh_libs \<Rightarrow> sftpConfig \<Rightarrow> 'k auth_method list res" where
  "sb_auth L cfg =
     (let passwords = (if scfPassword cfg \<noteq> [] then [AuthPassword (scfPassword cfg)] else [])
      in case (if scfKeyFile cfg \<noteq> []
               then (case keyFileAuth L (scfKeyFile cfg) (scfKeyPassphrase cfg) of
                       Inl e \<Rightarrow> Inl (Wrapf ''sftp: loading key file'' e)
                     | Inr keyAuth \<Rightarrow> Inr (passwords @ [keyAuth]))
               else Inr passwords) of
           Inl e \<Rightarrow> Inl e
         | Inr authMethods \<Rightarrow>
             if authMethods = [] then Inl (Errorf ''sftp: no authentication method provided (password or key_file required)'')
             else Inr authMethods)"

definition sb_hostKeys :: "('k, 'h, 'w) ssh_libs \<Rightarrow> 'h res" where
  "sb_hostKeys L =
     (case slUserHomeDir L of
        Inl m \<Rightarrow> Inl (Wrapf ''sftp: could not determine user home directory for known_hosts'' (Errorf m))
      | Inr homeDir \<Rightarrow>
          (case slKnownHosts L (path_join [homeDir, ''.ssh'', ''known_hosts'']) of
             Inl m \<Rightarrow> Inl (Wrapf ''sftp: could not load known_hosts file'' (Errorf m))
           | Inr hostKeyCallback \<Rightarrow> Inr hostKeyCallback))"

definition sb_connect ::
  "('k, 'h, 'w) ssh_libs \<Rightarrow> sftpConfig \<Rightarrow> 'k auth_method list \<Rightarrow> 'h \<Rightarrow> 'w \<Rightarrow> object_error option \<times> 'w" where
  "sb_connect L cfg authMethods hostKeyCallback w =
     (case slDial L (scfHost cfg @ '':'' @ decimal (scfPort cfg)) (scfUser cfg) authMethods
             (duration_times (scfTimeout cfg) second) hostKeyCallback w of
        (Some m, w1) \<Rightarrow> (Some (Wrapf ''sftp: SSH connection failed'' (Errorf m)), w1)
      | (None, w1) \<Rightarrow>
          (case slNewClient L w1 of
             (Some m, w2) \<Rightarrow> (Some (Wrapf ''sftp: SFTP session failed'' (Errorf m)), snd (slCloseSsh L w2))
           | (None, w2) \<Rightarrow> (None, w2)))"

definition sb_New :: "('k, 'h, 'w) ssh_libs \<Rightarrow> sftpConfig \<Rightarrow> 'w \<Rightarrow> sftp_backend res \<times> 'w" where
  "sb_New L cfg w =
     (case sftp_Validate cfg of
        Some e \<Rightarrow> (Inl e, w)
      | None \<Rightarrow>
          let cfg' = sb_defaults cfg
          in case sb_auth L cfg' of
               Inl e \<Rightarrow> (Inl e, w)
             | Inr authMethods \<Rightarrow>
                 (case sb_hostKeys L of
                    Inl e \<Rightarrow> (Inl e, w)
                  | Inr hostKeyCallback \<Rightarrow>
                      (case sb_connect L cfg' authMethods hostKeyCallback w of
                         (Some e, w1) \<Rightarrow> (Inl e, w1)
                       | (None, w1) \<Rightarrow> (Inr \<lparr>sbConfig = cfg', sbClosed = False\<rparr>, w1))))"

definition sb_NewFromConfig :: "('k, 'h, 'w) ssh_libs \<Rightarrow> (string, string) gomap \<Rightarrow> 'w \<Rightarrow> sftp_backend res \<times> 'w" where
  "sb_NewFromConfig L configMap w = sb_New L (sftp_ConfigFromMap configMap) w"

subsection \<open>The methods\<close>

definition sb_checkClosed :: "sftp_backend \<Rightarrow> object_error option" where
  "sb_checkClosed b = (if sbClosed b then Some ErrBackendClosed else None)"

definition sb_fullPath :: "sftp_backend \<Rightarrow> path \<Rightarrow> path" where
  "sb_fullPath b p = (if scfRoot (sbConfig b) = [] then p else path_join [scfRoot (sbConfig b), p])"

definition translateError :: "sftp_error \<Rightarrow> object_error" where
  "translateError e =
     (if seIsNotExist e then ErrNotFound
      else if seIsPermission e then ErrPermissionDenied
      else (case sePath e of
              Some (notExist, permission) \<Rightarrow>
                if notExist then ErrNotFound
                else if permission then ErrPermissionDenied
                else if seNet e then Wrapf ''sftp: network error'' (se_err e)
                else Wrapf ''sftp: error'' (se_err e)
            | None \<Rightarrow> if seNet e then Wrapf ''sftp: network error'' (se_err e) else Wrapf ''sftp: error'' (se_err e)))"

definition sb_NewWriter :: "'w sftp_client \<Rightarrow> ctx \<Rightarrow> path \<Rightarrow> sftp_backend \<Rightarrow> 'w \<Rightarrow> nat res \<times> 'w" where
  "sb_NewWriter c ctx p b w =
     (case first_error [sb_checkClosed b, ctx 0] of
        Some e \<Rightarrow> (Inl e, w)
      | None \<Rightarrow>
          let full = sb_fullPath b p
          in case scMkdirAll c (path_dir full) w of
               (Some e, w1) \<Rightarrow> (Inl (Wrapf ''sftp: creating directory'' (se_err e)), w1)
             | (None, w1) \<Rightarrow>
                 (case scCreate c full w1 of
                    (Inl e, w2) \<Rightarrow> (Inl (translateError e), w2)
                  | (Inr h, w2) \<Rightarrow> (Inr h, w2)))"

text \<open>A reader is the open file, or the file with the bytes left of a limit (\<open>limitedReader\<close>).\<close>

datatype sftp_reader = SftpFile nat | LimitedReader nat int

definition sb_NewReader ::
  "'w sftp_client \<Rightarrow> ctx \<Rightarrow> path \<Rightarrow> ReaderOption list \<Rightarrow> sftp_backend \<Rightarrow> 'w \<Rightarrow> sftp_reader res \<times> 'w" where
  "sb_NewReader c ctx p opts b w =
     (case first_error [sb_checkClosed b, ctx 0] of
        Some e \<Rightarrow> (Inl e, w)
      | None \<Rightarrow>
          let cfg = ApplyReaderOptions opts
          in case scOpen c (sb_fullPath b p) w of
               (Inl e, w1) \<Rightarrow> (Inl (translateError e), w1)
             | (Inr f, w1) \<Rightarrow>
                 (case (if rcOffset cfg > 0 then scSeek c f (rcOffset cfg) w1 else (None, w1)) of
                    (Some e, w2) \<Rightarrow> (Inl (Wrapf ''sftp: seeking to offset'' (se_err e)), snd (scCloseFile c f w2))
                  | (None, w2) \<Rightarrow>
                      (Inr (if rcLimit cfg > 0 then LimitedReader f (rcLimit cfg) else SftpFile f), w2)))"

definition sr_Read :: "'w sftp_client \<Rightarrow> nat \<Rightarrow> sftp_reader \<Rightarrow> 'w \<Rightarrow> (bytes \<times> object_error option) \<times> sftp_reader \<times> 'w" where
  "sr_Read c n r w =
     (case r of
        SftpFile f \<Rightarrow> (case scRead c f n w of (x, w1) \<Rightarrow> (x, r, w1))
      | LimitedReader f remaining \<Rightarrow>
          if remaining \<le> 0 then (([], Some EOF), r, w)
          else (case scRead c f (if int n > remaining then nat remaining else n) w of
                  ((d, e), w1) \<Rightarrow> ((d, e), LimitedReader f (remaining - int (length d)), w1)))"

definition sr_Close :: "'w sftp_client \<Rightarrow> sftp_reader \<Rightarrow> 'w \<Rightarrow> sftp_error option \<times> 'w" where
  "sr_Close c r w = (case r of SftpFile f \<Rightarrow> scCloseFile c f w | LimitedReader f _ \<Rightarrow> scCloseFile c f w)"

definition sb_Exists :: "'w sftp_client \<Rightarrow> ctx \<Rightarrow> path \<Rightarrow> sftp_backend \<Rightarrow> 'w \<Rightarrow> bool res" where
  "sb_Exists c ctx p b w =
     (case first_error [sb_checkClosed b, ctx 0] of
        Some e \<Rightarrow> Inl e
      | None \<Rightarrow>
          (case scStat c (sb_fullPath b p) w of
             Inr _ \<Rightarrow> Inr True
           | Inl e \<Rightarrow> if seIsNotExist e then Inr False else Inl (translateError e)))"

definition sb_Delete :: "'w sftp_client \<Rightarrow> ctx \<Rightarrow> path \<Rightarrow> sftp_backend \<Rightarrow> 'w \<Rightarrow> object_error option \<times> 'w" where
  "sb_Delete c ctx p b w =
     (case first_error [sb_checkClosed b, ctx 0] of
        Some e \<Rightarrow> (Some e, w)
      | None \<Rightarrow>
          (case scRemove c (sb_fullPath b p) w of
             (None, w1) \<Rightarrow> (None, w1)
           | (Some e, w1) \<Rightarrow> if seIsNotExist e then (None, w1) else (Some (translateError e), w1)))"

text \<open>
  \<open>walkDir\<close>; the state is the number of polls of the context so far and the paths. The depth of the
  recursion is bounded by fuel, with \<open>None\<close> when it is used up.
\<close>

fun sb_walkDir :: "nat \<Rightarrow> 'w sftp_client \<Rightarrow> path \<Rightarrow> ctx \<Rightarrow> 'w \<Rightarrow> path \<Rightarrow> string \<Rightarrow> nat \<times> path list \<Rightarrow>
    (object_error option \<times> nat \<times> path list) option"
  and sb_walk_entries :: "nat \<Rightarrow> 'w sftp_client \<Rightarrow> path \<Rightarrow> ctx \<Rightarrow> 'w \<Rightarrow> path \<Rightarrow> string \<Rightarrow> (string \<times> bool) list \<Rightarrow>
    nat \<times> path list \<Rightarrow> (object_error option \<times> nat \<times> path list) option" where
  "sb_walkDir 0 c root ctx w dir namePrefix s = None"
| "sb_walkDir (Suc f) c root ctx w dir namePrefix (i, paths) =
     (case ctx i of
        Some e \<Rightarrow> Some (Some e, i + 1, paths)
      | None \<Rightarrow>
          (case scReadDir c dir w of
             Inl e \<Rightarrow>
               if seIsNotExist e then Some (None, i + 1, paths)
               else Some (Some (Wrapf ''sftp: listing directory'' (se_err e)), i + 1, paths)
           | Inr entries \<Rightarrow> sb_walk_entries f c root ctx w dir namePrefix entries (i + 1, paths)))"
| "sb_walk_entries f c root ctx w dir namePrefix [] s = Some (None, s)"
| "sb_walk_entries f c root ctx w dir namePrefix ((name, isdir) # entries) (i, paths) =
     (if namePrefix \<noteq> [] \<and> \<not> has_prefix name namePrefix
      then sb_walk_entries f c root ctx w dir namePrefix entries (i, paths)
      else let entryPath = path_join [dir, name];
               relPath = trim_prefix (trim_prefix entryPath root) [slash]
           in if isdir
              then (case sb_walkDir f c root ctx w entryPath [] (i, paths) of
                      None \<Rightarrow> None
                    | Some (Some e, s1) \<Rightarrow> Some (Some e, s1)
                    | Some (None, s1) \<Rightarrow> sb_walk_entries f c root ctx w dir namePrefix entries s1)
              else sb_walk_entries f c root ctx w dir namePrefix entries (i, paths @ [relPath]))"

definition sb_List :: "nat \<Rightarrow> 'w sftp_client \<Rightarrow> ctx \<Rightarrow> path \<Rightarrow> sftp_backend \<Rightarrow> 'w \<Rightarrow> path list res option" where
  "sb_List f c ctx pre b w =
     (case first_error [sb_checkClosed b, ctx 0] of
        Some e \<Rightarrow> Some (Inl e)
      | None \<Rightarrow>
          let fullPrefix = sb_fullPath b pre;
              (dir, namePrefix) =
                (case scStat c fullPrefix w of
                   Inr info \<Rightarrow> if stIsDir info then (fullPrefix, []) else (path_dir fullPrefix, path_base fullPrefix)
                 | Inl _ \<Rightarrow> (path_dir fullPrefix, path_base fullPrefix))
          in case sb_walkDir f c (scfRoot (sbConfig b)) ctx w dir namePrefix (1, []) of
               None \<Rightarrow> None
             | Some (Some e, _) \<Rightarrow> Some (Inl e)
             | Some (None, _, paths) \<Rightarrow> Some (Inr paths))"

definition sb_Close :: "'w sftp_client \<Rightarrow> sftp_backend \<Rightarrow> 'w \<Rightarrow> object_error option \<times> sftp_backend \<times> 'w" where
  "sb_Close c b w =
     (if sbClosed b then (None, b, w)
      else (case scClose c w of
              (e1, w1) \<Rightarrow>
                (case scCloseSsh c w1 of
                   (e2, w2) \<Rightarrow>
                     ((if e1 = None \<and> e2 = None then None else Some (Errorf ''sftp: close errors'')),
                      b\<lparr>sbClosed := True\<rparr>, w2))))"

definition sb_Stat :: "'w sftp_client \<Rightarrow> ctx \<Rightarrow> path \<Rightarrow> sftp_backend \<Rightarrow> 'w \<Rightarrow> ObjectInfo res" where
  "sb_Stat c ctx p b w =
     (case first_error [sb_checkClosed b, ctx 0] of
        Some e \<Rightarrow> Inl e
      | None \<Rightarrow>
          (case scStat c (sb_fullPath b p) w of
             Inl e \<Rightarrow> Inl (translateError e)
           | Inr info \<Rightarrow>
               Inr \<lparr>ObjectPath = p, ObjectSize = stSize info, ObjectModTime = stModTime info,
                    ObjectIsDir = stIsDir info, ObjectContentType = [],
                    ObjectHashes = gm_empty, ObjectMetadata = gm_empty\<rparr>))"

definition sb_Mkdir :: "'w sftp_client \<Rightarrow> ctx \<Rightarrow> path \<Rightarrow> sftp_backend \<Rightarrow> 'w \<Rightarrow> object_error option \<times> 'w" where
  "sb_Mkdir c ctx p b w =
     (case first_error [sb_checkClosed b, ctx 0] of
        Some e \<Rightarrow> (Some e, w)
      | None \<Rightarrow>
          (case scMkdirAll c (sb_fullPath b p) w of
             (Some e, w1) \<Rightarrow> (Some (Wrapf ''sftp: creating directory'' (se_err e)), w1)
           | (None, w1) \<Rightarrow> (None, w1)))"

definition sb_Rmdir :: "'w sftp_client \<Rightarrow> ctx \<Rightarrow> path \<Rightarrow> sftp_backend \<Rightarrow> 'w \<Rightarrow> object_error option \<times> 'w" where
  "sb_Rmdir c ctx p b w =
     (case first_error [sb_checkClosed b, ctx 0] of
        Some e \<Rightarrow> (Some e, w)
      | None \<Rightarrow>
          (case scReadDir c (sb_fullPath b p) w of
             Inl e \<Rightarrow> (Some (translateError e), w)
           | Inr entries \<Rightarrow>
               if entries \<noteq> [] then (Some (Errorf ''sftp: directory not empty''), w)
               else (case scRemoveDirectory c (sb_fullPath b p) w of
                       (Some e, w1) \<Rightarrow> (Some (translateError e), w1)
                     | (None, w1) \<Rightarrow> (None, w1))))"

definition sb_Copy :: "'w sftp_client \<Rightarrow> ctx \<Rightarrow> path \<Rightarrow> path \<Rightarrow> sftp_backend \<Rightarrow> 'w \<Rightarrow> object_error option \<times> 'w" where
  "sb_Copy c ctx src dst b w =
     (case first_error [sb_checkClosed b, ctx 0] of
        Some e \<Rightarrow> (Some e, w)
      | None \<Rightarrow>
          let srcPath = sb_fullPath b src; dstPath = sb_fullPath b dst
          in case scMkdirAll c (path_dir dstPath) w of
               (Some e, w1) \<Rightarrow> (Some (Wrapf ''sftp: creating directory'' (se_err e)), w1)
             | (None, w1) \<Rightarrow>
                 (case scOpen c srcPath w1 of
                    (Inl e, w2) \<Rightarrow> (Some (translateError e), w2)
                  | (Inr srcFile, w2) \<Rightarrow>
                      (case scCreate c dstPath w2 of
                         (Inl e, w3) \<Rightarrow>
                           (case scCloseFile c srcFile w3 of
                              (Some _, w4) \<Rightarrow> (Some (Wrapf ''sftp'' (translateError e)), w4)
                            | (None, w4) \<Rightarrow> (Some (translateError e), w4))
                       | (Inr dstFile, w3) \<Rightarrow>
                           (case scIoCopy c dstFile srcFile w3 of
                              (copyErr, w4) \<Rightarrow>
                                (case scCloseFile c srcFile w4 of
                                   (srcCloseErr, w5) \<Rightarrow>
                                     (case scCloseFile c dstFile w5 of
                                        (dstCloseErr, w6) \<Rightarrow>
                                          (first_error
                                             [map_option (\<lambda>e. Wrapf ''sftp: copying file'' (se_err e)) copyErr,
                                              map_option (\<lambda>e. Wrapf ''sftp: closing destination file'' (se_err e)) dstCloseErr,
                                              map_option (\<lambda>e. Wrapf ''sftp: closing source file'' (se_err e)) srcCloseErr], w6)))))))"

text \<open>The calls of \<open>Copy\<close> and \<open>Delete\<close> poll the context again: \<open>Copy\<close> is the second poll, \<open>Delete\<close> the third.\<close>

definition sb_Move :: "'w sftp_client \<Rightarrow> ctx \<Rightarrow> path \<Rightarrow> path \<Rightarrow> sftp_backend \<Rightarrow> 'w \<Rightarrow> object_error option \<times> 'w" where
  "sb_Move c ctx src dst b w =
     (case first_error [sb_checkClosed b, ctx 0] of
        Some e \<Rightarrow> (Some e, w)
      | None \<Rightarrow>
          let srcPath = sb_fullPath b src; dstPath = sb_fullPath b dst
          in case scMkdirAll c (path_dir dstPath) w of
               (Some e, w1) \<Rightarrow> (Some (Wrapf ''sftp: creating directory'' (se_err e)), w1)
             | (None, w1) \<Rightarrow>
                 (case scRename c srcPath dstPath w1 of
                    (None, w2) \<Rightarrow> (None, w2)
                  | (Some _, w2) \<Rightarrow>
                      (case sb_Copy c (\<lambda>i. ctx (i + 1)) src dst b w2 of
                         (Some e, w3) \<Rightarrow> (Some e, w3)
                       | (None, w3) \<Rightarrow> sb_Delete c (\<lambda>i. ctx (i + 2)) src b w3)))"

definition sb_Features :: Features where
  "sb_Features =
     \<lparr>fCopy = True, fMove = True, fMkdir = True, fRmdir = True, fStat = True, fHashes = [], fCanStream = False,
      fServerSideEncryption = False, fVersioning = False, fRangeRead = True, fListPrefix = True,
      fSetModTime = False, fCustomMetadata = False\<rparr>"

subsection \<open>What the server does\<close>

definition same_kind :: "os_error \<Rightarrow> sftp_error \<Rightarrow> bool" where
  "same_kind e x \<longleftrightarrow> seIsNotExist x = IsNotExist e \<and> seIsPermission x = IsPermission e"

text \<open>The result of a call agrees with that of a call on the file system, which changes the same way.\<close>

definition agrees_err :: "('w \<Rightarrow> fsys) \<Rightarrow> os_error option \<times> fsys \<Rightarrow> sftp_error option \<times> 'w \<Rightarrow> bool" where
  "agrees_err view r x \<longleftrightarrow>
     view (snd x) = snd r \<and>
     (case fst r of None \<Rightarrow> fst x = None | Some e \<Rightarrow> (\<exists>y. fst x = Some y \<and> same_kind e y))"

definition agrees_res :: "('w \<Rightarrow> fsys) \<Rightarrow> 'a os_res \<times> fsys \<Rightarrow> (sftp_error + 'a) \<times> 'w \<Rightarrow> bool" where
  "agrees_res view r x \<longleftrightarrow>
     view (snd x) = snd r \<and>
     (case fst r of Inr a \<Rightarrow> fst x = Inr a | Inl e \<Rightarrow> (\<exists>y. fst x = Inl y \<and> same_kind e y))"

definition agrees_value :: "'a os_res \<Rightarrow> (sftp_error + 'a) \<Rightarrow> bool" where
  "agrees_value r x \<longleftrightarrow> (case r of Inr a \<Rightarrow> x = Inr a | Inl e \<Rightarrow> (\<exists>y. x = Inl y \<and> same_kind e y))"

text \<open>A directory is read as its names in any order, each with whether it is a directory.\<close>

definition agrees_entries :: "fsys \<Rightarrow> path \<Rightarrow> (sftp_error + (string \<times> bool) list) \<Rightarrow> bool" where
  "agrees_entries fs p x \<longleftrightarrow>
     (case os_ReadDirNames p fs of
        Inl e \<Rightarrow> (\<exists>y. x = Inl y \<and> same_kind e y)
      | Inr names \<Rightarrow>
          (\<exists>es. x = Inr es \<and> mset (map fst es) = mset names \<and>
             (\<forall>(n, d) \<in> set es. d = (node_at fs (locate fs p @ [n]) = Some FDir))))"

locale sftp_server =
  fixes c :: "'w sftp_client"
    and view :: "'w \<Rightarrow> fsys"
  assumes mkdir_law: "agrees_err view (os_MkdirAll p (view w)) (scMkdirAll c p w)"
    and create_law: "agrees_res view (os_Create p (view w)) (scCreate c p w)"
    and open_law: "agrees_res view (os_Open p (view w)) (scOpen c p w)"
    and stat_law: "agrees_value (os_Stat p (view w)) (scStat c p w)"
    and readdir_law: "agrees_entries (view w) p (scReadDir c p w)"
    and remove_law: "agrees_err view (os_Remove p (view w)) (scRemove c p w)"
    and rename_taken_law: "node_at (view w) (locate (view w) q) \<noteq> None \<Longrightarrow>
          \<exists>e w1. scRename c p q w = (Some e, w1) \<and> view w1 = view w"
    and rename_law: "node_at (view w) (locate (view w) q) = None \<Longrightarrow>
          agrees_err view (os_Rename p q (view w)) (scRename c p q w)"
    and write_law: "agrees_err view (os_Write h bs (view w)) (scWrite c h bs w)"
    and read_law: "0 < n \<Longrightarrow> reading (view w) h off d \<Longrightarrow>
          \<exists>x e w1. scRead c h n w = ((x, e), w1) \<and> prefix x (drop off d) \<and> length x \<le> n \<and>
            (e = None \<and> x \<noteq> [] \<or> e = Some EOF \<and> x = drop off d) \<and> reading (view w1) h (off + length x) d"
    and copy_law: "agrees_err view (os_io_copy h g (view w)) (scIoCopy c h g w)"
    and close_law: "agrees_err view (os_CloseFile h (view w)) (scCloseFile c h w)"
begin

lemma agrees_ok: "agrees_err view (None, fs1) x \<Longrightarrow> \<exists>w1. x = (None, w1) \<and> view w1 = fs1"
  by (cases x) (simp add: agrees_err_def)

lemma agrees_some: "agrees_err view (Some e, fs1) x \<Longrightarrow> \<exists>y w1. x = (Some y, w1) \<and> view w1 = fs1 \<and> same_kind e y"
  by (cases x) (auto simp: agrees_err_def)

lemma agrees_inr: "agrees_res view (Inr a, fs1) x \<Longrightarrow> \<exists>w1. x = (Inr a, w1) \<and> view w1 = fs1"
  by (cases x) (simp add: agrees_res_def)

end

text \<open>
  The file system itself as a server, with one handle and error for each of its own.
\<close>

definition os_sftp_error :: "os_error \<Rightarrow> sftp_error" where
  "os_sftp_error e =
     \<lparr>seIsNotExist = IsNotExist e, seIsPermission = IsPermission e, sePath = None, seNet = False, seText = ''failure''\<rparr>"

definition lift_err :: "os_error option \<times> fsys \<Rightarrow> sftp_error option \<times> fsys" where
  "lift_err r = (map_option os_sftp_error (fst r), snd r)"

definition lift_res :: "'a os_res \<times> fsys \<Rightarrow> (sftp_error + 'a) \<times> fsys" where
  "lift_res r = ((case fst r of Inl e \<Rightarrow> Inl (os_sftp_error e) | Inr a \<Rightarrow> Inr a), snd r)"

definition lift_value :: "'a os_res \<Rightarrow> (sftp_error + 'a)" where
  "lift_value r = (case r of Inl e \<Rightarrow> Inl (os_sftp_error e) | Inr a \<Rightarrow> Inr a)"

definition fs_client :: "fsys sftp_client" where
  "fs_client =
     \<lparr>scMkdirAll = \<lambda>p fs. lift_err (os_MkdirAll p fs),
      scCreate = \<lambda>p fs. lift_res (os_Create p fs),
      scOpen = \<lambda>p fs. lift_res (os_Open p fs),
      scStat = \<lambda>p fs. lift_value (os_Stat p fs),
      scReadDir = \<lambda>p fs. lift_value (map_sum id (map (\<lambda>n. (n, node_at fs (locate fs p @ [n]) = Some FDir))) (os_ReadDirNames p fs)),
      scRemove = \<lambda>p fs. lift_err (os_Remove p fs),
      scRemoveDirectory = \<lambda>p fs. lift_err (os_Remove p fs),
      scRename = \<lambda>p q fs. if node_at fs (locate fs q) \<noteq> None then (Some (os_sftp_error EEXIST), fs) else lift_err (os_Rename p q fs),
      scSeek = \<lambda>h off fs. lift_err (os_Seek h off fs),
      scRead = os_Read,
      scWrite = \<lambda>h bs fs. lift_err (os_Write h bs fs),
      scIoCopy = \<lambda>h g fs. lift_err (os_io_copy h g fs),
      scCloseFile = \<lambda>h fs. lift_err (os_CloseFile h fs),
      scClose = Pair None,
      scCloseSsh = Pair None\<rparr>"

lemma lift_agrees [simp]:
  "agrees_err (\<lambda>fs. fs) r (lift_err r)" "agrees_res (\<lambda>fs. fs) q (lift_res q)" "agrees_value v (lift_value v)"
  by (auto simp: agrees_err_def agrees_res_def agrees_value_def lift_err_def lift_res_def lift_value_def
      same_kind_def os_sftp_error_def split: option.split sum.split)

lemma lift_entries:
  "agrees_entries fs p (lift_value (map_sum id (map (\<lambda>n. (n, node_at fs (locate fs p @ [n]) = Some FDir))) (os_ReadDirNames p fs)))"
  by (cases "os_ReadDirNames p fs")
    (auto simp: agrees_entries_def lift_value_def same_kind_def os_sftp_error_def comp_def multiset.map_comp)

lemma os_Read_reading:
  assumes "0 < n" "reading fs h off d"
  shows "\<exists>x e fs1. os_Read h n fs = ((x, e), fs1) \<and> prefix x (drop off d) \<and> length x \<le> n \<and>
    (e = None \<and> x \<noteq> [] \<or> e = Some EOF \<and> x = drop off d) \<and> reading fs1 h (off + length x) d"
  using assms by (auto simp: reading_def os_Read_def Let_def set_handle_def take_is_prefix)

interpretation fss: sftp_server fs_client "\<lambda>fs. fs"
  by unfold_locales (simp_all add: fs_client_def lift_entries os_Read_reading)

subsection \<open>Where paths lead\<close>

definition ascending :: "nat \<Rightarrow> path \<Rightarrow> path" where
  "ascending k q = concat (replicate k ''../'') @ q"

lemma fold_ascending:
  assumes "\<forall>n \<in> set out. proper_name n" "plain_key q" "length out \<le> k"
  shows "foldl (clean_step True) out (split_on slash (ascending k q)) = rev (split_on slash q)"
proof -
  have "split_on slash (slash # ascending k q) = [] # replicate k dotdot @ split_on slash q"
    using split_climbing[of k q] by (simp add: climbing_def ascending_def)
  then have "split_on slash (ascending k q) = replicate k dotdot @ split_on slash q" by simp
  then show ?thesis
    using assms fold_dotdots_rooted[of out k] clean_fold_names[of "split_on slash q" True] by (simp add: plain_key_def)
qed

text \<open>No path is validated: a relative path of as many \<open>..\<close> as the root has directories leads to any file of the server, which \<open>NewReader\<close> opens, \<open>NewWriter\<close> replaces and \<open>Delete\<close> removes.\<close>

theorem sftp_unconfined:
  assumes "is_rooted (scfRoot (sbConfig b))" and "plain_key q" and "\<not> sbClosed b"
    and "length (cleaned (scfRoot (sbConfig b))) \<le> k"
  shows "sb_NewReader c background (ascending k q) [] b w =
      (case scOpen c (slash # q) w of
         (Inl e, w1) \<Rightarrow> (Inl (translateError e), w1) | (Inr h, w1) \<Rightarrow> (Inr (SftpFile h), w1)) \<and>
    sb_NewWriter c background (ascending k q) b w =
      (case scMkdirAll c (path_dir (slash # q)) w of
         (Some e, w1) \<Rightarrow> (Inl (Wrapf ''sftp: creating directory'' (se_err e)), w1)
       | (None, w1) \<Rightarrow> (case scCreate c (slash # q) w1 of
           (Inl e, w2) \<Rightarrow> (Inl (translateError e), w2) | (Inr h, w2) \<Rightarrow> (Inr h, w2))) \<and>
    sb_Delete c background (ascending k q) b w =
      (case scRemove c (slash # q) w of
         (None, w1) \<Rightarrow> (None, w1)
       | (Some e, w1) \<Rightarrow> if seIsNotExist e then (None, w1) else (Some (translateError e), w1))"
proof -
  have q: "q \<noteq> []" using assms(2) by (rule plain_key_neq_Nil)
  have "path_join [scfRoot (sbConfig b), ascending k q] = slash # q"
    using fold_ascending[OF _ assms(2)] assms(4) q by (intro join_escapes[OF assms(1)]) (auto simp: ascending_def)
  moreover have "scfRoot (sbConfig b) \<noteq> []" using assms(1) by (auto simp: is_rooted_def has_prefix_def)
  ultimately have full: "sb_fullPath b (ascending k q) = slash # q" by (simp add: sb_fullPath_def)
  have g: "first_error [sb_checkClosed b, background 0] = None" using assms(3) by (simp add: sb_checkClosed_def)
  show ?thesis
    by (simp add: sb_NewReader_def sb_NewWriter_def sb_Delete_def g full ApplyReaderOptions_def zeroReaderConfig_def Let_def split: prod.split sum.split)
qed

definition sample_sb :: "path \<Rightarrow> sftp_backend" where
  "sample_sb root = \<lparr>sbConfig = sftp_DefaultConfig\<lparr>scfRoot := root\<rparr>, sbClosed = False\<rparr>"

text \<open>The file \<open>a\<close> of the server's root is removed through a backend below \<open>srv/data\<close>.\<close>

theorem sftp_unconfined_witness:
  "fst (sb_Delete fs_client background ''../../a'' (sample_sb ''/srv/data'') one_file_fs) = None \<and>
   snd (sb_Delete fs_client background ''../../a'' (sample_sb ''/srv/data'') one_file_fs) = snd (os_Remove ''/a'' one_file_fs)"
proof -
  have r: "is_rooted (scfRoot (sbConfig (sample_sb ''/srv/data'')))" "length (cleaned (scfRoot (sbConfig (sample_sb ''/srv/data'')))) \<le> 2"
    "\<not> sbClosed (sample_sb ''/srv/data'')" "plain_key ''a''" by code_simp+
  have "ascending 2 ''a'' = ''../../a''" by code_simp
  moreover have "locate one_file_fs ''/a'' = [''a'']" by code_simp
  moreover have "find_node one_file_fs [''a''] = Inr (FFile 0)" by (simp add: one_file_fs_node)
  moreover have "fsFault one_file_fs OpRemove [''a''] = None" using sample_fs_ok(4) by (simp add: faultless_def)
  ultimately show ?thesis
    using sftp_unconfined[OF r(1,4,3,2), of fs_client one_file_fs]
    by (simp add: fs_client_def lift_err_def os_Remove_def Let_def)
qed

subsection \<open>Copying and moving\<close>

text \<open>The file backend on the server's file system, with the same root; a path that it takes.\<close>

definition on_server :: "sftp_backend \<Rightarrow> file_backend" where
  "on_server b =
     \<lparr>fbConfig = \<lparr>fcRoot = scfRoot (sbConfig b), fcCreateDirs = True, fcDirPermissions = 0, fcFilePermissions = 0\<rparr>,
      fbClosed = sbClosed b\<rparr>"

abbreviation sb_takes :: "sftp_backend \<Rightarrow> path \<Rightarrow> bool" where
  "sb_takes b p \<equiv> fb_takes (on_server b) p"

lemma sb_takes_facts:
  assumes "sb_takes b p"
  shows "sb_fullPath b p = fb_fullPath (on_server b) p" "sb_checkClosed b = None" "scfRoot (sbConfig b) \<noteq> []"
  using assms by (auto simp: fb_takes_def on_server_def sb_fullPath_def fb_fullPath_def sb_checkClosed_def)

lemma sb_parents:
  "fb_parents (on_server b) q fs = (None, fs1) \<longleftrightarrow> os_MkdirAll (path_dir q) fs = (None, fs1)"
  by (auto simp: fb_parents_def on_server_def split: prod.splits option.splits)

context sftp_server
begin

lemma Copy_effect:
  assumes fs: "view w = fs" "fs_ok fs" "faultless fs" and t: "sb_takes b src" "sb_takes b dst"
    and d: "fs_file fs (locate fs (sb_fullPath b src)) = Some d"
    and way: "clear_way fs (butlast (locate fs (sb_fullPath b dst)))"
    and nd: "node_at fs (locate fs (sb_fullPath b dst)) \<noteq> Some FDir"
  shows "\<exists>w'. sb_Copy c background src dst b w = (None, w') \<and> fs_ok (view w') \<and> same_system fs (view w') \<and>
    fs_file (view w') = (fs_file fs)(locate fs (sb_fullPath b dst) :=
      Some (if locate fs (sb_fullPath b src) = locate fs (sb_fullPath b dst) then [] else d)) \<and>
    (\<forall>l. fs_dir (view w') l = (fs_dir fs l \<or> prefix l (butlast (locate fs (sb_fullPath b dst)))))"
proof -
  note F = sb_takes_facts[OF t(1)] sb_takes_facts(1)[OF t(2)]
  let ?S = "locate fs (sb_fullPath b src)" let ?D = "locate fs (sb_fullPath b dst)"
  obtain fs1 where p: "os_MkdirAll (path_dir (sb_fullPath b dst)) fs = (None, fs1)" "fs_ok fs1" "same_system fs fs1"
    "fs_file fs1 = fs_file fs" "node_at fs1 = (\<lambda>l. if prefix l (butlast ?D) then Some FDir else node_at fs l)"
    using fb_parents_effect[OF fs(2,3) t(2)] way unfolding F sb_parents by blast
  have L: "locate fs1 q = locate fs q" for q by (rule same_system_locate[OF p(3)])
  have D: "?D \<noteq> []" using fb_takes_location(2)[OF t(2)] F(4) by simp
  then have "\<not> prefix ?D (butlast ?D)" by (rule not_prefix_butlast)
  then have nd1: "node_at fs1 ?D \<noteq> Some FDir" "node_at fs1 (butlast ?D) = Some FDir" using nd by (simp_all add: p(5))
  have fl: "faultless fs1" using same_system_faultless[OF p(3)] fs(3) by simp
  obtain s h fs2 fs3 fs4 where o: "os_Open (sb_fullPath b src) fs1 = (Inr s, fs2)" "os_Create (sb_fullPath b dst) fs2 = (Inr h, fs3)"
    "os_io_copy h s fs3 = (None, fs4)" "fs_ok fs4" "same_system fs1 fs4" "s < h"
    "fhOpen (fsHandles fs4 ! h)" "fhOpen (fsHandles fs4 ! s)"
    "fs_file fs4 = (fs_file fs)(?D := Some (if ?S = ?D then [] else d))" "\<forall>l. fs_dir fs4 l = fs_dir fs1 l"
    using open_create_copy[OF p(2) fl, of "sb_fullPath b src" d "sb_fullPath b dst"] nd1 d D p(4) unfolding L by metis
  let ?fs5 = "snd (os_CloseFile s fs4)" let ?fs6 = "snd (os_CloseFile h ?fs5)"
  have cl: "os_CloseFile s fs4 = (None, ?fs5)" "os_CloseFile h ?fs5 = (None, ?fs6)"
    using os_CloseFile_open[OF o(8)] os_CloseFile_open[of ?fs5 h] os_CloseFile_other[of h s fs4] o(6,7)
    by (simp_all add: prod_eq_iff)
  obtain w1 where w1: "scMkdirAll c (path_dir (sb_fullPath b dst)) w = (None, w1)" "view w1 = fs1"
    using agrees_ok mkdir_law[of "path_dir (sb_fullPath b dst)" w] p(1) fs(1) by metis
  obtain w2 where w2: "scOpen c (sb_fullPath b src) w1 = (Inr s, w2)" "view w2 = fs2"
    using agrees_inr open_law[of "sb_fullPath b src" w1] o(1) w1(2) by metis
  obtain w3 where w3: "scCreate c (sb_fullPath b dst) w2 = (Inr h, w3)" "view w3 = fs3"
    using agrees_inr create_law[of "sb_fullPath b dst" w2] o(2) w2(2) by metis
  obtain w4 where w4: "scIoCopy c h s w3 = (None, w4)" "view w4 = fs4"
    using agrees_ok copy_law[of h s w3] o(3) w3(2) by metis
  obtain w5 where w5: "scCloseFile c s w4 = (None, w5)" "view w5 = ?fs5"
    using agrees_ok close_law[of s w4] cl(1) w4(2) by metis
  obtain w6 where w6: "scCloseFile c h w5 = (None, w6)" "view w6 = ?fs6"
    using agrees_ok close_law[of h w5] cl(2) w5(2) by metis
  have "sb_Copy c background src dst b w = (None, w6)"
    by (simp add: sb_Copy_def F(2) w1(1) w2(1) w3(1) w4(1) w5(1) w6(1) Let_def)
  moreover have "same_system fs ?fs6"
    using p(3) o(5) os_CloseFile_keeps(4)[of fs4 s] os_CloseFile_keeps(4)[of ?fs5 h] by (simp add: same_system_def)
  moreover have "fs_dir fs4 l = (fs_dir fs l \<or> prefix l (butlast ?D))" for l using o(10) by (simp add: p(5))
  ultimately show ?thesis using o(4,9) w6(2) by (intro exI[of _ w6]) simp
qed

end

context sftp_server
begin

lemma Move_effect:
  assumes fs: "view w = fs" "fs_ok fs" "faultless fs" and t: "sb_takes b src" "sb_takes b dst"
    and d: "fs_file fs (locate fs (sb_fullPath b src)) = Some d"
    and way: "clear_way fs (butlast (locate fs (sb_fullPath b dst)))"
    and nd: "node_at fs (locate fs (sb_fullPath b dst)) \<noteq> Some FDir"
  shows "\<exists>w'. sb_Move c background src dst b w = (None, w') \<and> fs_ok (view w') \<and>
    fs_file (view w') =
      (if locate fs (sb_fullPath b src) = locate fs (sb_fullPath b dst)
       then (fs_file fs)(locate fs (sb_fullPath b src) := None)
       else (fs_file fs)(locate fs (sb_fullPath b src) := None, locate fs (sb_fullPath b dst) := Some d)) \<and>
    same_system fs (view w') \<and> (\<forall>l. fs_dir (view w') l = (fs_dir fs l \<or> prefix l (butlast (locate fs (sb_fullPath b dst)))))"
proof -
  note F = sb_takes_facts[OF t(1)] sb_takes_facts(1)[OF t(2)]
  let ?S = "locate fs (sb_fullPath b src)" let ?D = "locate fs (sb_fullPath b dst)"
  obtain fs1 where p: "os_MkdirAll (path_dir (sb_fullPath b dst)) fs = (None, fs1)" "fs_ok fs1" "same_system fs fs1"
    "fs_file fs1 = fs_file fs" "node_at fs1 = (\<lambda>l. if prefix l (butlast ?D) then Some FDir else node_at fs l)"
    using fb_parents_effect[OF fs(2,3) t(2)] way unfolding F sb_parents by blast
  have L: "locate fs1 q = locate fs q" for q by (rule same_system_locate[OF p(3)])
  have D: "?D \<noteq> []" using fb_takes_location(2)[OF t(2)] F(4) by simp
  then have nd1: "node_at fs1 ?D = node_at fs ?D" "node_at fs1 (butlast ?D) = Some FDir"
    by (simp_all add: p(5) not_prefix_butlast)
  have fl: "faultless fs1" using same_system_faultless[OF p(3)] fs(3) by simp
  obtain w1 where w1: "scMkdirAll c (path_dir (sb_fullPath b dst)) w = (None, w1)" "view w1 = fs1"
    using agrees_ok mkdir_law[of "path_dir (sb_fullPath b dst)" w] p(1) fs(1) by metis
  show ?thesis
  proof (cases "node_at fs ?D = None")
    case True
    have ne: "?S \<noteq> ?D" using True d by (auto simp: fs_file_def)
    obtain fs2 where r: "os_Rename (sb_fullPath b src) (sb_fullPath b dst) fs1 = (None, fs2)" "fs_ok fs2"
      "fs_file fs2 = (fs_file fs)(?S := None, ?D := Some d)" "same_system fs1 fs2" "\<forall>l. fs_dir fs2 l = fs_dir fs1 l"
      using os_Rename_file[OF p(2) fl, of "sb_fullPath b src" d "sb_fullPath b dst"] nd nd1 d D unfolding L p(4) by metis
    have "agrees_err view (os_Rename (sb_fullPath b src) (sb_fullPath b dst) fs1) (scRename c (sb_fullPath b src) (sb_fullPath b dst) w1)"
      using rename_law[of w1 "sb_fullPath b dst" "sb_fullPath b src"] True nd1(1) unfolding w1(2) L by simp
    then obtain w2 where "scRename c (sb_fullPath b src) (sb_fullPath b dst) w1 = (None, w2)" "view w2 = fs2"
      using agrees_ok unfolding r(1) by blast
    then have "sb_Move c background src dst b w = (None, w2) \<and> view w2 = fs2"
      by (simp add: sb_Move_def F(2) w1(1) Let_def)
    moreover have "fs_dir fs2 l = (fs_dir fs l \<or> prefix l (butlast ?D))" for l using r(5) by (simp add: p(5))
    moreover have "same_system fs fs2" using p(3) r(4) by (simp add: same_system_def)
    ultimately show ?thesis using r(2,3) ne by (intro exI[of _ w2]) simp
  next
    case False
    have "node_at (view w1) (locate (view w1) (sb_fullPath b dst)) \<noteq> None" using False nd1(1) unfolding w1(2) L by simp
    then obtain e w2 where w2: "scRename c (sb_fullPath b src) (sb_fullPath b dst) w1 = (Some e, w2)" "view w2 = fs1"
      using rename_taken_law[of w1 "sb_fullPath b dst" "sb_fullPath b src"] w1(2) by auto
    have "clear_way fs1 (butlast ?D)" using way unfolding clear_way_def p(4) .
    then obtain w3 where w3: "sb_Copy c background src dst b w2 = (None, w3)" "fs_ok (view w3)" "same_system fs1 (view w3)"
      "fs_file (view w3) = (fs_file fs)(?D := Some (if ?S = ?D then [] else d))"
      "\<forall>l. fs_dir (view w3) l = (fs_dir fs1 l \<or> prefix l (butlast ?D))"
      using Copy_effect[OF w2(2) p(2) fl t, of d] nd nd1 d unfolding L p(4) by auto
    have L3: "locate (view w3) q = locate fs q" for q using same_system_locate[OF w3(3)] L by simp
    have fl3: "faultless (view w3)" using same_system_faultless[OF w3(3)] fl by simp
    have "\<exists>x. fs_file (view w3) ?S = Some x" using d by (auto simp: w3(4))
    then obtain fs4 where rm: "os_Remove (sb_fullPath b src) (view w3) = (None, fs4)" "fs_ok fs4"
      "fs_file fs4 = (fs_file (view w3))(?S := None)" "same_system (view w3) fs4" "\<forall>l. fs_dir fs4 l = fs_dir (view w3) l"
      using os_Remove_file[OF w3(2) fl3, of "sb_fullPath b src"] unfolding L3 by blast
    then obtain w4 where w4: "scRemove c (sb_fullPath b src) w3 = (None, w4)" "view w4 = fs4"
      using agrees_ok remove_law[of "sb_fullPath b src" w3] by metis
    have "sb_Move c background src dst b w = (None, w4)"
      using w3(1) by (simp add: sb_Move_def F(2) w1(1) w2(1) w4(1) sb_Delete_def Let_def)
    moreover have "fs_dir fs4 l = (fs_dir fs l \<or> prefix l (butlast ?D))" for l using rm(5) w3(5) by (simp add: p(5))
    moreover have "same_system fs fs4" using p(3) w3(3) rm(4) by (simp add: same_system_def)
    ultimately show ?thesis using rm(2,3) w3(4) w4(2) by (intro exI[of _ w4]) (auto simp: fun_upd_twist)
  qed
qed

end

text \<open>C25: \<open>Move\<close> over SFTP stores the file under the destination, replacing a file there, and removes the source; no other file changes. The rename is refused when the destination exists, and the copy and delete that then run destroy a file that is moved onto itself: the copy empties it, the delete removes it, and no error is returned.\<close>

theorem sftp_move_effect:
  assumes "sftp_server c view" and "fs_ok (view w)" and "faultless (view w)" and "sb_takes b src" and "sb_takes b dst"
    and "fs_file (view w) (locate (view w) (sb_fullPath b src)) = Some d"
    and "clear_way (view w) (butlast (locate (view w) (sb_fullPath b dst)))"
    and "node_at (view w) (locate (view w) (sb_fullPath b dst)) \<noteq> Some FDir"
  shows "\<exists>w'. sb_Move c background src dst b w = (None, w') \<and> fs_ok (view w') \<and>
    fs_file (view w') =
      (if locate (view w) (sb_fullPath b src) = locate (view w) (sb_fullPath b dst)
       then (fs_file (view w))(locate (view w) (sb_fullPath b src) := None)
       else (fs_file (view w))(locate (view w) (sb_fullPath b src) := None, locate (view w) (sb_fullPath b dst) := Some d))"
  using sftp_server.Move_effect[OF assms(1) refl assms(2-8)] by blast

text \<open>A file moved into a new directory, and onto itself.\<close>

lemma sample_sb_paths:
  assumes "root = ''/''" "p \<in> {''a'', ''d/b''}"
  shows "sb_takes (sample_sb root) p" "sb_fullPath (sample_sb root) p = fb_fullPath sample_fb p"
proof -
  have "fb_validatePath ''a'' = None" "\<not> is_rooted ''a''" "cleaned ''a'' \<noteq> []"
    "fb_validatePath ''d/b'' = None" "\<not> is_rooted ''d/b''" "cleaned ''d/b'' \<noteq> []" by code_simp+
  then show "sb_takes (sample_sb root) p"
    using assms by (auto simp: sample_sb_def fb_takes_def on_server_def)
  show "sb_fullPath (sample_sb root) p = fb_fullPath sample_fb p"
    by (simp add: assms(1) sb_fullPath_def sample_sb_def fb_fullPath_def sample_fb_def file_New_def Let_def)
qed

theorem sftp_move_effect_witness:
  "(\<exists>fs'. sb_Move fs_client background ''a'' ''d/b'' (sample_sb ''/'') one_file_fs = (None, fs') \<and> fs_ok fs' \<and>
      fs_file fs' = (fs_file one_file_fs)([''a''] := None, [''d'', ''b''] := Some [1, 2, 3])) \<and>
   (\<exists>fs'. sb_Move fs_client background ''a'' ''a'' (sample_sb ''/'') one_file_fs = (None, fs') \<and> fs_ok fs' \<and>
      fs_file fs' = (fs_file one_file_fs)([''a''] := None))"
  using sftp_move_effect[OF fss.sftp_server_axioms sample_fs_ok(3,4), of "sample_sb ''/''" "''a''" "''d/b''" "[1, 2, 3]"]
    sftp_move_effect[OF fss.sftp_server_axioms sample_fs_ok(3,4), of "sample_sb ''/''" "''a''" "''a''" "[1, 2, 3]"]
    sample_sb_paths[of "''/''" "''a''"] sample_sb_paths[of "''/''" "''d/b''"]
  by (simp add: sample_fb_location one_file_fs_file one_file_fs_node clear_way_iff prefix_Cons)

subsection \<open>Listing\<close>

text \<open>The directory and the last name of a path.\<close>

lemma cleaned_path_dir:
  assumes "proper_name (last (split_on slash q))"
  shows "cleaned (path_dir q) = butlast (cleaned q)" "is_rooted (path_dir q) = is_rooted q"
proof -
  have "cleaned (path_dir q) = butlast (cleaned q) \<and> is_rooted (path_dir q) = is_rooted q"
  proof (cases q rule: path_dir_cases)
    case 1
    have s: "split_on slash q = [q]" by (rule split_on_free[OF 1(1)])
    have r: "\<not> is_rooted q" using 1(1) by (cases q) (auto simp: is_rooted_def has_prefix_def)
    have "cleaned dot = []" "\<not> is_rooted dot" by code_simp+
    then show ?thesis using 1(2) r s assms by (simp add: clean_comps_def clean_step_def proper_name_def)
  next
    case (2 v c)
    have s: "split_on slash q = split_on slash v @ [c]" "split_on slash (v @ [slash]) = split_on slash v @ [[]]"
      using 2 by (simp_all add: split_on_concat split_on_free)
    have c: "proper_name c" using assms s by simp
    have r: "is_rooted q = is_rooted (v @ [slash])"
      using 2(1) by (cases v) (simp_all add: is_rooted_def has_prefix_def)
    have "cleaned q = cleaned (v @ [slash]) @ [c]"
      using clean_fold_names[of "[c]" "is_rooted q"] c r by (simp add: s clean_comps_def clean_fold_Nil)
    then show ?thesis using 2(3) r by simp
  qed
  then show "cleaned (path_dir q) = butlast (cleaned q)" "is_rooted (path_dir q) = is_rooted q" by blast+
qed

lemma clean_path_shape:
  assumes "path_clean q = q" "cleaned q \<noteq> []"
  shows "q = (if is_rooted q then slash # join_on slash (cleaned q) else join_on slash (cleaned q))"
    "last (split_on slash q) = last (cleaned q)"
proof -
  show 1: "q = (if is_rooted q then slash # join_on slash (cleaned q) else join_on slash (cleaned q))"
    using assms path_clean_rooted[of q] path_clean_relative[of q] by (cases "is_rooted q") simp_all
  obtain cs where cs: "cleaned q = cs" by blast
  have "split_on slash q = (if is_rooted q then [] # cs else cs)"
    using split_cleaned[of q] assms(2) unfolding cs assms(1) by simp
  then show "last (split_on slash q) = last (cleaned q)" using assms(2) unfolding cs by simp
qed

lemma path_base_clean:
  assumes "path_clean q = q" "cleaned q \<noteq> []" "proper_name (last (cleaned q))"
  shows "path_base q = last (cleaned q)"
proof -
  have l: "last (split_on slash q) = last (cleaned q)" by (rule clean_path_shape(2)[OF assms(1,2)])
  have ne: "q \<noteq> []" using assms(1) path_clean_neq_Nil[of q] by auto
  have "last q \<noteq> slash"
  proof
    assume "last q = slash"
    then obtain v where "q = v @ [slash]" using ne by (metis append_butlast_last_id)
    then have "last (split_on slash q) = []" by (simp add: split_on_concat)
    then show False using l assms(3) by (simp add: proper_name_def)
  qed
  then have "strip_trailing_slashes q = q"
    using ne by (cases q rule: rev_cases) (simp_all add: strip_trailing_slashes_def)
  then show ?thesis using ne l by (simp add: path_base_def)
qed

text \<open>What remains of a clean path below a clean root when the root is cut off.\<close>

lemma trim_root:
  assumes "names_place root r q" "path_clean root = root" "path_clean q = q" "root \<noteq> dot" "r \<noteq> []"
  shows "trim_prefix (trim_prefix q root) [slash] = join_on slash r"
proof -
  have n: "is_rooted q = is_rooted root" "cleaned q = cleaned root @ r" "\<forall>n \<in> set r. proper_name n"
    using assms(1) unfolding names_place_def by blast+
  have q: "q = (if is_rooted root then slash # join_on slash (cleaned root @ r) else join_on slash (cleaned root @ r))"
  proof -
    have "cleaned q \<noteq> []" unfolding n(2) using assms(5) by simp
    then show ?thesis using clean_path_shape(1)[OF assms(3)] unfolding n(2) unfolding n(1) by blast
  qed
  obtain x xs where x: "join_on slash r = x # xs" "x \<noteq> slash"
  proof -
    obtain m ms where m: "r = m # ms" "m \<noteq> []" "slash \<notin> set m"
      using assms(5) n(3) by (cases r) (auto simp: proper_name_def)
    then show ?thesis using that by (cases m; cases ms) auto
  qed
  have t: "trim_prefix (join_on slash r) [slash] = join_on slash r"
    using x(2) by (simp add: trim_prefix_def has_prefix_def x(1) eq_commute)
  show ?thesis
  proof (cases "cleaned root = []")
    case True
    then have "root = [slash] \<and> is_rooted root"
      using assms(2,4) path_clean_rooted[of root] path_clean_dot[of root] by (cases "is_rooted root") simp_all
    then have "q = [slash] @ join_on slash r" "root = [slash]" using q unfolding True by simp_all
    then show ?thesis using t by (simp only: trim_prefix_append)
  next
    case False
    have "root = (if is_rooted root then slash # join_on slash (cleaned root) else join_on slash (cleaned root))"
      by (rule clean_path_shape(1)[OF assms(2) False])
    then have "q = root @ slash # join_on slash r"
      using q join_on_append[OF False assms(5), of slash] by (metis append_Cons)
    then show ?thesis using trim_prefix_append[of "[slash]" "join_on slash r"] by simp
  qed
qed

text \<open>What a walk adds to the paths collected so far.\<close>

definition sb_result :: "(object_error option \<times> nat \<times> path list) option \<Rightarrow> path list \<Rightarrow> location set \<Rightarrow> bool" where
  "sb_result x ps R = (\<exists>i rs. x = Some (None, i, ps @ map (join_on slash) rs) \<and> distinct rs \<and> set rs = R)"

lemma sb_walk_entries_lists:
  assumes entries: "\<And>n d i ps. (n, d) \<in> set es \<Longrightarrow>
      (if d then sb_result (sb_walkDir f c root background w (path_join [q, n]) [] (i, ps)) ps (files_below fs root (r @ [n]))
       else trim_prefix (trim_prefix (path_join [q, n]) root) [slash] = join_on slash (r @ [n]) \<and>
         files_below fs root (r @ [n]) = {r @ [n]})"
    and "distinct (map fst es)"
  shows "sb_result (sb_walk_entries f c root background w q np es (i, ps)) ps
    (\<Union>n \<in> {n \<in> fst ` set es. has_prefix n np}. files_below fs root (r @ [n]))"
  using assms
proof (induction es arbitrary: i ps)
  case Nil
  then show ?case by (simp add: sb_result_def)
next
  case (Cons e es)
  obtain n d where e: "e = (n, d)" by (cases e)
  have rest: "sb_result (sb_walk_entries f c root background w q np es (j, qs)) qs
      (\<Union>n \<in> {n \<in> fst ` set es. has_prefix n np}. files_below fs root (r @ [n]))" for j qs
    by (rule Cons.IH, rule Cons.prems(1)) (use Cons.prems(2) in simp_all)
  show ?case
  proof (cases "has_prefix n np")
    case False
    then have "np \<noteq> [] \<and> \<not> has_prefix n np" by auto
    moreover have "{m \<in> fst ` set (e # es). has_prefix m np} = {m \<in> fst ` set es. has_prefix m np}"
      using False e by auto
    ultimately show ?thesis using rest[of i ps] by (simp add: e)
  next
    case True
    obtain j rs1 where 1: "distinct rs1" "set rs1 = files_below fs root (r @ [n])"
      "sb_walk_entries f c root background w q np (e # es) (i, ps) =
        sb_walk_entries f c root background w q np es (j, ps @ map (join_on slash) rs1)"
    proof (cases d)
      case dir: True
      then obtain j rs1 where "sb_walkDir f c root background w (path_join [q, n]) [] (i, ps) =
          Some (None, j, ps @ map (join_on slash) rs1)" "distinct rs1" "set rs1 = files_below fs root (r @ [n])"
        using Cons.prems(1)[of n d i ps] e by (auto simp: sb_result_def)
      then show ?thesis using that[of rs1 j] True dir by (simp add: e Let_def)
    next
      case False
      then have "trim_prefix (trim_prefix (path_join [q, n]) root) [slash] = join_on slash (r @ [n])"
        "files_below fs root (r @ [n]) = {r @ [n]}" using Cons.prems(1)[of n d i ps] e by auto
      then show ?thesis using that[of "[r @ [n]]" i] True False by (simp add: e Let_def)
    qed
    obtain j2 rs2 where 2: "sb_walk_entries f c root background w q np es (j, ps @ map (join_on slash) rs1) =
        Some (None, j2, (ps @ map (join_on slash) rs1) @ map (join_on slash) rs2)" "distinct rs2"
      "set rs2 = (\<Union>m \<in> {m \<in> fst ` set es. has_prefix m np}. files_below fs root (r @ [m]))"
      using rest[of j "ps @ map (join_on slash) rs1"] unfolding sb_result_def by blast
    have one: "n = m" if "x \<in> files_below fs root (r @ [n])" "x \<in> files_below fs root (r @ [m])" for m x
      using that by (auto simp: files_below_def prefix_def)
    have "set rs1 \<inter> set rs2 = {}"
    proof (rule ccontr)
      assume "set rs1 \<inter> set rs2 \<noteq> {}"
      then obtain x m where x: "x \<in> files_below fs root (r @ [n])" "m \<in> fst ` set es" "x \<in> files_below fs root (r @ [m])"
        unfolding 1(2) 2(3) by blast
      then have "n \<in> fst ` set es" using one[of x m] by simp
      then show False using Cons.prems(2) e by simp
    qed
    moreover have "set (rs1 @ rs2) = (\<Union>m \<in> {m \<in> fst ` set (e # es). has_prefix m np}. files_below fs root (r @ [m]))"
      using True unfolding set_append 1(2) 2(3) e by auto
    ultimately show ?thesis
      unfolding sb_result_def 1(3) 2(1) using 1(1) 2(2)
      by (intro exI[of _ j2] exI[of _ "rs1 @ rs2"]) simp
  qed
qed

context sftp_server
begin

lemma walkDir_lists:
  assumes fs: "view w = fs" "fs_ok fs" "faultless fs" and root: "path_clean root = root" "root \<noteq> dot"
  shows "names_place root r q \<Longrightarrow> node_at fs (locate fs root @ r) = Some FDir \<Longrightarrow> depth_ok fs (locate fs root @ r) f \<Longrightarrow>
    sb_result (sb_walkDir f c root background w q np (i, ps)) ps
      (\<Union>n \<in> {n. node_at fs (locate fs root @ r @ [n]) \<noteq> None \<and> has_prefix n np}. files_below fs root (r @ [n]))"
proof (induction f arbitrary: r q np i ps)
  case 0
  then show ?case by (auto simp: depth_ok_def)
next
  case (Suc f)
  let ?L = "locate fs root @ r"
  have L: "locate fs q = ?L" by (rule names_place_locate[OF Suc.prems(1)])
  have rd: "os_ReadDirNames q fs = Inr (child_names fs ?L)"
    using os_ReadDirNames_dir[OF fs(2,3), of q] Suc.prems(2) L by simp
  then obtain es where es: "scReadDir c q w = Inr es" "mset (map fst es) = mset (child_names fs ?L)"
    "\<forall>(n, d) \<in> set es. d = (node_at fs (?L @ [n]) = Some FDir)"
    using readdir_law[of w q] unfolding agrees_entries_def fs(1) rd L by auto
  have names: "fst ` set es = {n. node_at fs (?L @ [n]) \<noteq> None}"
    using arg_cong[OF es(2), of set_mset] child_names_set[of fs ?L] by simp
  have dist: "distinct (map fst es)"
    using mset_eq_imp_distinct_iff[OF es(2)] child_names_distinct[of fs ?L] by simp
  have entries: "if d then sb_result (sb_walkDir f c root background w (path_join [q, n]) [] (j, qs)) qs (files_below fs root (r @ [n]))
      else trim_prefix (trim_prefix (path_join [q, n]) root) [slash] = join_on slash (r @ [n]) \<and>
        files_below fs root (r @ [n]) = {r @ [n]}"
    if e: "(n, d) \<in> set es" for n d j qs
  proof -
    have "n \<in> fst ` set es" using e by force
    then obtain m where m: "node_at fs (locate fs root @ (r @ [n])) = Some m" using names by auto
    have pn: "proper_name n" by (rule fs_ok_names[OF fs(2) m]) simp
    then have np: "names_place root (r @ [n]) (path_join [q, n])" by (rule names_place_child[OF Suc.prems(1)])
    have d: "d = (m = FDir)" using es(3) e m by auto
    show ?thesis
    proof (cases m)
      case FDir
      have "depth_ok fs (locate fs root @ (r @ [n])) f" using Suc.prems(3) by (auto simp: depth_ok_def)
      then have "sb_result (sb_walkDir f c root background w (path_join [q, n]) [] (j, qs)) qs
          (\<Union>k \<in> {k. node_at fs (locate fs root @ (r @ [n]) @ [k]) \<noteq> None \<and> has_prefix k []}. files_below fs root ((r @ [n]) @ [k]))"
        using Suc.IH[OF np] m FDir by blast
      moreover have "files_below fs root (r @ [n]) =
          (\<Union>k \<in> {k. node_at fs (locate fs root @ (r @ [n]) @ [k]) \<noteq> None \<and> has_prefix k []}. files_below fs root ((r @ [n]) @ [k]))"
        using files_below_dir[OF fs(2), of root "r @ [n]"] m FDir child_names_set[of fs "locate fs root @ (r @ [n])"] by simp
      ultimately show ?thesis using d FDir by simp
    next
      case (FFile k)
      have "q \<noteq> []" "n \<noteq> []" using Suc.prems(1) pn by (auto simp: names_place_def proper_name_def)
      then have "path_clean (path_join [q, n]) = path_join [q, n]" by (simp add: join_two)
      then have "trim_prefix (trim_prefix (path_join [q, n]) root) [slash] = join_on slash (r @ [n])"
        by (intro trim_root[OF np root(1) _ root(2)]) simp_all
      then show ?thesis using d FFile files_below_file[OF fs(2), of root "r @ [n]" k] m by simp
    qed
  qed
  have "sb_walkDir (Suc f) c root background w q np (i, ps) = sb_walk_entries f c root background w q np es (i + 1, ps)"
    by (simp add: es(1))
  moreover have "{n \<in> fst ` set es. has_prefix n np} = {n. node_at fs (locate fs root @ r @ [n]) \<noteq> None \<and> has_prefix n np}"
    using names by auto
  ultimately show ?case using sb_walk_entries_lists[OF entries dist, of np "i + 1" ps] by simp
qed

end

lemma sb_fullPath_place:
  assumes "scfRoot (sbConfig b) = root" "path_clean root = root" "pre = [] \<and> r = [] \<or> sb_takes b pre \<and> r = cleaned pre"
  shows "names_place root r (sb_fullPath b pre)" "path_clean (sb_fullPath b pre) = sb_fullPath b pre"
proof -
  have root: "root \<noteq> []" using assms(2) path_clean_neq_Nil[of root] by auto
  have "names_place root r (sb_fullPath b pre) \<and> path_clean (sb_fullPath b pre) = sb_fullPath b pre"
  proof (cases "pre = []")
    case True
    then have "r = []" using assms(3) by (auto simp: fb_takes_def fb_validatePath_def)
    then show ?thesis using True root assms(1,2) by (simp add: sb_fullPath_def path_join_def names_place_def)
  next
    case False
    then have t: "sb_takes b pre" "r = cleaned pre" using assms(3) by auto
    then have "\<not> is_rooted pre" "\<forall>n \<in> set (cleaned pre). proper_name n"
      using valid_relative[of pre] by (auto simp: fb_takes_def)
    then show ?thesis
      using names_place_join[OF root False] t(2) root False assms(1) by (simp add: sb_fullPath_def join_two)
  qed
  then show "names_place root r (sb_fullPath b pre)" "path_clean (sb_fullPath b pre) = sb_fullPath b pre" by blast+
qed

lemma names_place_dir:
  assumes "names_place root r q" "path_clean q = q" "r \<noteq> []"
  shows "names_place root (butlast r) (path_dir q)" "path_base q = last r"
proof -
  have n: "is_rooted q = is_rooted root" "cleaned q = cleaned root @ r" "\<forall>n \<in> set r. proper_name n"
    using assms(1) unfolding names_place_def by blast+
  have ne: "cleaned q \<noteq> []" and l: "last (cleaned q) = last r" unfolding n(2) using assms(3) by simp_all
  have pn: "proper_name (last (cleaned q))" unfolding l using n(3) assms(3) by simp
  show "path_base q = last r" using path_base_clean[OF assms(2) ne pn] l by simp
  have "proper_name (last (split_on slash q))" using clean_path_shape(2)[OF assms(2) ne] pn by simp
  note D = cleaned_path_dir[OF this]
  have "cleaned (path_dir q) = cleaned root @ butlast r"
    unfolding D(1) n(2) using assms(3) by (simp add: butlast_append)
  moreover have "path_dir q \<noteq> []" by (simp add: path_dir_def)
  moreover have "\<forall>n \<in> set (butlast r). proper_name n" using n(3) in_set_butlastD by metis
  ultimately show "names_place root (butlast r) (path_dir q)" using D(2) n(1) by (simp add: names_place_def)
qed

text \<open>The names that \<open>List\<close> selects: everything below a directory; else, in the parent directory, what begins with the last name of the prefix, and everything below it.\<close>

definition selected :: "fsys \<Rightarrow> path \<Rightarrow> location \<Rightarrow> location set" where
  "selected fs root r =
     (if node_at fs (locate fs root @ r) = Some FDir then files_below fs root r
      else {r'. (\<exists>n rest. r' = butlast r @ n # rest \<and> has_prefix n (last r)) \<and> fs_file fs (locate fs root @ r') \<noteq> None})"

lemma files_below_children:
  assumes "fs_ok fs" "node_at fs (locate fs root @ r) = Some FDir"
  shows "(\<Union>n \<in> {n. node_at fs (locate fs root @ r @ [n]) \<noteq> None \<and> has_prefix n np}. files_below fs root (r @ [n])) =
    {r'. (\<exists>n rest. r' = r @ n # rest \<and> has_prefix n np) \<and> fs_file fs (locate fs root @ r') \<noteq> None}"
proof -
  have "node_at fs (locate fs root @ r @ [n]) \<noteq> None" if f: "fs_file fs (locate fs root @ r @ n # rest) \<noteq> None" for n rest
  proof -
    obtain m where "node_at fs ((locate fs root @ r @ [n]) @ rest) = Some m"
      using f by (auto simp: fs_file_def split: option.splits)
    then show ?thesis using dir_prefix[OF assms(1), of "locate fs root @ r @ [n]" rest m] by (cases rest) auto
  qed
  then show ?thesis by (auto simp: files_below_def prefix_def) blast
qed

context sftp_server
begin

text \<open>Where the walk starts, and what it finds from there.\<close>

lemma List_starts:
  assumes fs: "view w = fs" "fs_ok fs" "faultless fs" and b: "\<not> sbClosed b" "scfRoot (sbConfig b) = root"
    and root: "path_clean root = root" "root \<noteq> dot"
    and r: "pre = [] \<and> r = [] \<or> sb_takes b pre \<and> r = cleaned pre"
    and dir: "node_at fs (locate fs root @ butlast r) = Some FDir" and f: "gm_len (fsNodes fs) < f"
  shows "\<exists>dir np. (case scStat c (sb_fullPath b pre) w of
        Inr info \<Rightarrow> if stIsDir info then (sb_fullPath b pre, []) else (path_dir (sb_fullPath b pre), path_base (sb_fullPath b pre))
      | Inl _ \<Rightarrow> (path_dir (sb_fullPath b pre), path_base (sb_fullPath b pre))) = (dir, np) \<and>
      sb_result (sb_walkDir f c root background w dir np (1, [])) [] (selected fs root r)"
proof -
  let ?q = "sb_fullPath b pre"
  note P = sb_fullPath_place[OF b(2) root(1) r]
  have deep: "depth_ok fs l f" for l using depth_bound[OF fs(2)] f unfolding depth_ok_def by (meson le_less_trans trans_less_add2)
  have L: "locate fs ?q = locate fs root @ r" by (rule names_place_locate[OF P(1)])
  show ?thesis
  proof (cases "node_at fs (locate fs root @ r) = Some FDir")
    case True
    then obtain st where "os_Stat ?q fs = Inr st" "stIsDir st" using os_Stat_node[OF fs(2,3), of ?q FDir] L by auto
    then have "scStat c ?q w = Inr st \<and> stIsDir st" using stat_law[of ?q w] fs(1) by (simp add: agrees_value_def)
    moreover have "selected fs root r = (\<Union>n \<in> {n. node_at fs (locate fs root @ r @ [n]) \<noteq> None \<and> has_prefix n []}. files_below fs root (r @ [n]))"
      using True files_below_dir[OF fs(2) True] child_names_set[of fs "locate fs root @ r"] by (simp add: selected_def)
    ultimately show ?thesis using walkDir_lists[OF fs root P(1) True deep, of "[]" 1 "[]"] by simp
  next
    case False
    then have ne: "r \<noteq> []" using dir by auto
    have "\<not> (\<exists>st. scStat c ?q w = Inr st \<and> stIsDir st)"
    proof (cases "node_at fs (locate fs root @ r)")
      case None
      then have "\<exists>e. os_Stat ?q fs = Inl e"
        using find_node_iff[OF fs(2), of "locate fs root @ r"] fs(3) L
        by (cases "find_node fs (locate fs root @ r)") (auto simp: os_Stat_def Let_def faultless_def)
      then show ?thesis using stat_law[of ?q w] fs(1) by (auto simp: agrees_value_def)
    next
      case (Some n)
      then obtain st where "os_Stat ?q fs = Inr st" "\<not> stIsDir st" using os_Stat_node[OF fs(2,3), of ?q n] L False by auto
      then show ?thesis using stat_law[of ?q w] fs(1) by (auto simp: agrees_value_def)
    qed
    moreover have "selected fs root r =
        (\<Union>n \<in> {n. node_at fs (locate fs root @ butlast r @ [n]) \<noteq> None \<and> has_prefix n (last r)}. files_below fs root (butlast r @ [n]))"
      unfolding files_below_children[OF fs(2) dir] using False by (simp add: selected_def)
    ultimately show ?thesis
      using walkDir_lists[OF fs root names_place_dir(1)[OF P(1,2) ne] dir deep, of "last r" 1 "[]"] names_place_dir(2)[OF P(1,2) ne]
      by (auto split: sum.split)
  qed
qed

lemma List_selects:
  assumes fs: "view w = fs" "fs_ok fs" "faultless fs" and b: "\<not> sbClosed b" "scfRoot (sbConfig b) = root"
    and root: "path_clean root = root" "root \<noteq> dot"
    and r: "pre = [] \<and> r = [] \<or> sb_takes b pre \<and> r = cleaned pre"
    and dir: "node_at fs (locate fs root @ butlast r) = Some FDir" and f: "gm_len (fsNodes fs) < f"
  shows "\<exists>ps. sb_List f c background pre b w = Some (Inr ps) \<and> distinct ps \<and>
    set ps = join_on slash ` selected fs root r"
proof -
  let ?q = "sb_fullPath b pre"
  obtain dir np i rs where w: "(case scStat c ?q w of
        Inr info \<Rightarrow> if stIsDir info then (?q, []) else (path_dir ?q, path_base ?q)
      | Inl _ \<Rightarrow> (path_dir ?q, path_base ?q)) = (dir, np)"
    "sb_walkDir f c root background w dir np (1, []) = Some (None, i, map (join_on slash) rs)"
    "distinct rs" "set rs = selected fs root r"
    using List_starts [OF fs b root r dir f] unfolding sb_result_def by auto
  have names: "r' \<noteq> [] \<and> (\<forall>n \<in> set r'. proper_name n)" if "r' \<in> set rs" for r'
  proof -
    have f: "fs_file fs (locate fs root @ r') \<noteq> None"
      using that unfolding w(4) by (auto simp: selected_def files_below_def split: if_splits)
    then obtain m where m: "node_at fs (locate fs root @ r') = Some m" by (auto simp: fs_file_def split: option.splits)
    have "node_at fs (locate fs root) = Some FDir"
      using dir dir_prefix[OF fs(2), of "locate fs root" "butlast r" FDir] by (cases "butlast r = []") auto
    then show ?thesis using f fs_ok_names[OF fs(2) m] by (auto simp: fs_file_def)
  qed
  have "distinct (map (join_on slash) rs)"
    using w(3) names join_names_inj by (auto simp: distinct_map inj_on_def)
  moreover have "sb_List f c background pre b w = Some (Inr (map (join_on slash) rs))"
    using b w(1,2) by (simp add: sb_List_def sb_checkClosed_def Let_def)
  ultimately show ?thesis using w(4) by (intro exI[of _ "map (join_on slash) rs"]) simp
qed

end

text \<open>C26: \<open>List\<close> over SFTP, with a clean root: for a prefix that names a directory it returns every file below it, and otherwise the files of the prefix's directory whose path continues the prefix, each once and by its path from the root. Any fuel above the number of places of the server's tree is enough, so the recursion ends.\<close>

theorem sftp_list_exact:
  assumes "sftp_server c view" and "fs_ok (view w)" and "faultless (view w)" and "\<not> sbClosed b"
    and "path_clean (scfRoot (sbConfig b)) = scfRoot (sbConfig b)" and "scfRoot (sbConfig b) \<noteq> dot"
    and "pre = [] \<and> r = [] \<or> sb_takes b pre \<and> r = cleaned pre"
    and "node_at (view w) (locate (view w) (scfRoot (sbConfig b)) @ butlast r) = Some FDir"
    and "gm_len (fsNodes (view w)) < f"
  shows "\<exists>ps. sb_List f c background pre b w = Some (Inr ps) \<and> distinct ps \<and>
    set ps = join_on slash ` selected (view w) (scfRoot (sbConfig b)) r"
  by (rule sftp_server.List_selects[OF assms(1) refl assms(2-4) refl assms(5-9)])

text \<open>The whole tree, and the files that begin with \<open>a\<close>.\<close>

theorem sftp_list_exact_witness:
  "(\<exists>ps. sb_List (Suc (gm_len (fsNodes one_file_fs))) fs_client background [] (sample_sb ''/'') one_file_fs = Some (Inr ps) \<and>
      distinct ps \<and> set ps = {''a''}) \<and>
   (\<exists>ps. sb_List (Suc (gm_len (fsNodes one_file_fs))) fs_client background ''a'' (sample_sb ''/'') one_file_fs = Some (Inr ps) \<and>
      distinct ps \<and> set ps = {''a''})"
proof -
  have root: "scfRoot (sbConfig (sample_sb ''/'')) = ''/''" "\<not> sbClosed (sample_sb ''/'')" by (simp_all add: sample_sb_def)
  have loc: "locate one_file_fs ''/'' = []" "cleaned ''a'' = [''a'']" "path_clean ''/'' = ''/''" by code_simp+
  have s: "selected one_file_fs ''/'' [] = {[''a'']}" "selected one_file_fs ''/'' [''a''] = {[''a'']}"
    by (auto simp: selected_def files_below_def loc(1) one_file_fs_node one_file_fs_file has_prefix_def split: if_splits)
  have t: "sb_takes (sample_sb ''/'') ''a''" by (rule sample_sb_paths(1)) simp_all
  have 1: "\<exists>ps. sb_List (Suc (gm_len (fsNodes one_file_fs))) fs_client background pre (sample_sb ''/'') one_file_fs = Some (Inr ps) \<and>
      distinct ps \<and> set ps = join_on slash ` selected one_file_fs ''/'' r"
    if "pre = [] \<and> r = [] \<or> sb_takes (sample_sb ''/'') pre \<and> r = cleaned pre" "butlast r = []" for pre r
    using sftp_list_exact[OF fss.sftp_server_axioms sample_fs_ok(3,4) root(2), of pre r "Suc (gm_len (fsNodes one_file_fs))"] that
    by (simp add: root(1) loc)
  show ?thesis using 1[of "[]" "[]"] 1[of "''a''" "[''a'']"] t s loc(2) by simp
qed

text \<open>
  With a root that is not clean, or is the dot, the root is cut off wrongly: the listed paths are not
  those under which the files are stored.
\<close>

theorem sftp_unclean_root:
  "sb_walk_entries 0 c ''./data'' background w (path_join [''./data'']) [] [(''x'', False)] (1, []) = Some (None, 1, [''data/x'']) \<and>
   sb_walk_entries 0 c ''.'' background w (path_join [''.'']) [] [(''.git'', False)] (1, []) = Some (None, 1, [''git''])"
proof -
  have "trim_prefix (trim_prefix (path_join [path_join [''./data''], ''x'']) ''./data'') [slash] = ''data/x''"
    "trim_prefix (trim_prefix (path_join [path_join [''.''], ''.git'']) ''.'') [slash] = ''git''" by code_simp+
  then show ?thesis by (simp add: Let_def)
qed

subsection \<open>Connections\<close>

text \<open>The setting \<open>KnownHostsFile\<close> changes nothing but the stored configuration: to leave it empty does not disable the check of the host key.\<close>

theorem sftp_known_hosts_ignored:
  "sb_New L (cfg\<lparr>scfKnownHostsFile := f\<rparr>) w =
     (map_sum id (\<lambda>b. b\<lparr>sbConfig := (sbConfig b)\<lparr>scfKnownHostsFile := f\<rparr>\<rparr>) (fst (sb_New L cfg w)), snd (sb_New L cfg w))"
proof -
  let ?c = "cfg\<lparr>scfKnownHostsFile := f\<rparr>"
  have d: "sb_defaults ?c = (sb_defaults cfg)\<lparr>scfKnownHostsFile := f\<rparr>" by (simp add: sb_defaults_def Let_def)
  have a: "sb_auth L (x\<lparr>scfKnownHostsFile := f\<rparr>) = sb_auth L x" for x by (cases "keyFileAuth L (scfKeyFile x) (scfKeyPassphrase x)") (simp_all add: sb_auth_def Let_def)
  have k: "sb_connect L (x\<lparr>scfKnownHostsFile := f\<rparr>) = sb_connect L x" for x by (simp add: sb_connect_def fun_eq_iff)
  have v: "sftp_Validate ?c = sftp_Validate cfg" by (simp add: sftp_Validate_def)
  show ?thesis unfolding sb_New_def v d Let_def a k by (simp split: option.split sum.split prod.split)
qed

text \<open>A backend is connected only with a password or a key, and only with the host key callback of the user's \<open>known_hosts\<close> file; the server that answered is the configured one.\<close>

theorem sftp_New_checks_host:
  assumes "sb_New L cfg w = (Inr b, w')"
  shows "\<exists>home h auths w1. slUserHomeDir L = Inr home \<and>
      slKnownHosts L (path_join [home, ''.ssh'', ''known_hosts'']) = Inr h \<and> auths \<noteq> [] \<and>
      slDial L (scfHost cfg @ '':'' @ decimal (scfPort (sbConfig b))) (scfUser cfg) auths
        (duration_times (scfTimeout (sbConfig b)) second) h w = (None, w1) \<and> slNewClient L w1 = (None, w')"
proof -
  let ?c = "sb_defaults cfg"
  have c: "scfHost ?c = scfHost cfg" "scfUser ?c = scfUser cfg" by (simp_all add: sb_defaults_def Let_def)
  obtain auths h where a: "sb_auth L ?c = Inr auths" and h: "sb_hostKeys L = Inr h"
    and k: "sb_connect L ?c auths h w = (None, w')" and b: "sbConfig b = ?c"
    using assms by (auto simp: sb_New_def Let_def split: option.splits sum.splits prod.splits)
  obtain home where home: "slUserHomeDir L = Inr home" "slKnownHosts L (path_join [home, ''.ssh'', ''known_hosts'']) = Inr h"
    using h by (auto simp: sb_hostKeys_def split: sum.splits)
  have "auths \<noteq> []" using a by (auto simp: sb_auth_def Let_def split: sum.splits if_splits)
  moreover obtain w1 where "slDial L (scfHost ?c @ '':'' @ decimal (scfPort ?c)) (scfUser ?c) auths
      (duration_times (scfTimeout ?c) second) h w = (None, w1)" "slNewClient L w1 = (None, w')"
    using k by (auto simp: sb_connect_def split: prod.splits option.splits)
  ultimately show ?thesis using home b unfolding c by auto
qed

text \<open>A connection with a password, to a server that notes who connects.\<close>

definition sample_ssh :: "(unit, path, string list) ssh_libs" where
  "sample_ssh =
     \<lparr>slReadFile = \<lambda>_. Inl ''no such file'', slParsePrivateKey = \<lambda>_. Inr (), slParsePrivateKeyWithPassphrase = \<lambda>_ _. Inr (),
      slUserHomeDir = Inr ''/home/me'', slKnownHosts = Inr, slDial = \<lambda>addr user _ _ h w. (None, w @ [addr, user, h]),
      slNewClient = Pair None, slCloseSsh = Pair None\<rparr>"

theorem sftp_New_checks_host_witness:
  "\<exists>auths w1. slKnownHosts sample_ssh ''/home/me/.ssh/known_hosts'' = Inr ''/home/me/.ssh/known_hosts'' \<and> auths \<noteq> [] \<and>
     slDial sample_ssh ''example.org:22'' ''me'' auths (30 * second) ''/home/me/.ssh/known_hosts'' [] = (None, w1) \<and>
     slNewClient sample_ssh w1 = (None, [''example.org:22'', ''me'', ''/home/me/.ssh/known_hosts''])"
proof -
  let ?cfg = "sftp_DefaultConfig\<lparr>scfHost := ''example.org'', scfUser := ''me'', scfPassword := ''secret''\<rparr>"
  let ?w = "[''example.org:22'', ''me'', ''/home/me/.ssh/known_hosts'']"
  have k: "path_join [''/home/me'', ''.ssh'', ''known_hosts''] = ''/home/me/.ssh/known_hosts''" by code_simp
  have d: "decimal 22 = ''22''" "duration_times 30 second = 30 * second" by code_simp+
  have n: "sb_New sample_ssh ?cfg [] = (Inr \<lparr>sbConfig = ?cfg, sbClosed = False\<rparr>, ?w)"
    by (simp add: sb_New_def sftp_Validate_def sb_defaults_def sb_auth_def sb_hostKeys_def sb_connect_def sample_ssh_def
        sftp_DefaultConfig_def k d Let_def)
  show ?thesis using sftp_New_checks_host[OF n] by (simp add: k d sftp_DefaultConfig_def sample_ssh_def)
qed

end
