(* ===== verification/SftpStore.thy ===== *)
theory SftpStore
  imports StoreProduct FileStore SftpBackend
begin

section \<open>SFTP backends as stores\<close>

text \<open>
  The values of type \<open>Backend\<close> that the clients of SFTP backends call, each with a server of its own.
  For any client and server that do what \<open>sftp_server\<close> says, they keep the contract of
  \<open>BackendInterface\<close> on the trees that a convention of names tells files and directories apart in
  (\<open>FileStore\<close>). The contract is taken at the root only, with no base path: for a base that is not
  there, \<open>List\<close> returns what begins with its name.
\<close>

definition sftp_Writer :: "'w sftp_client \<Rightarrow> nat \<Rightarrow> 'w WriteCloser" where
  "sftp_Writer c h =
     \<lparr>wrWrite = (\<lambda>bs w. case scWrite c h bs w of (e, w1) \<Rightarrow> (map_option se_err e, w1)),
      wrClose = (\<lambda>w. case scCloseFile c h w of (e, w1) \<Rightarrow> (map_option se_err e, w1))\<rparr>"

text \<open>The reads of \<open>io.Copy\<close>, up to the first error; every one but the last delivers a byte.\<close>

fun sr_ReadAll :: "nat \<Rightarrow> 'w sftp_client \<Rightarrow> nat \<Rightarrow> sftp_reader \<Rightarrow> 'w \<Rightarrow> (bytes list \<times> object_error) option" where
  "sr_ReadAll 0 c n r w = None"
| "sr_ReadAll (Suc f) c n r w =
     (case sr_Read c n r w of
        ((d, Some e), _) \<Rightarrow> Some ([d], e)
      | ((d, None), r1, w1) \<Rightarrow> map_option (\<lambda>(ds, e). (d # ds, e)) (sr_ReadAll f c n r1 w1))"

definition sftp_Stream :: "'w sftp_client \<Rightarrow> nat \<Rightarrow> sftp_reader \<Rightarrow> 'w \<Rightarrow> Stream" where
  "sftp_Stream c f r w =
     (case sr_ReadAll f c io_copy_buffer r w of
        None \<Rightarrow> \<lparr>sChunks = [], sErr = None\<rparr>
      | Some (ds, e) \<Rightarrow> \<lparr>sChunks = ds, sErr = (if e = EOF then None else Some e)\<rparr>)"

definition sftp_Ext :: "'w sftp_client \<Rightarrow> sftp_backend \<Rightarrow> 'w ExtendedOps" where
  "sftp_Ext c b =
     \<lparr>exStat = (\<lambda>p w. sb_Stat c background p b w),
      exMkdir = (\<lambda>p w. sb_Mkdir c background p b w),
      exRmdir = (\<lambda>p w. sb_Rmdir c background p b w),
      exCopy = (\<lambda>p q w. sb_Copy c background p q b w),
      exMove = (\<lambda>p q w. sb_Move c background p q b w),
      exFeatures = sb_Features\<rparr>"

text \<open>
  The fuel of the loops is taken from the server's tree: the number of its places for \<open>List\<close>, and the
  number of bytes it stores for a read; on a server in order they do not run out.
\<close>

definition stored_bytes :: "fsys \<Rightarrow> nat" where
  "stored_bytes fs = sum_list (map (\<lambda>x. length (inData x)) (fsInodes fs))"

definition sftp_Backend :: "'w sftp_client \<Rightarrow> ('w \<Rightarrow> fsys) \<Rightarrow> sftp_backend \<Rightarrow> nat \<Rightarrow> 'w Backend" where
  "sftp_Backend c view b n =
     \<lparr>bkId = n,
      bkNewWriter = (\<lambda>p opts w. case sb_NewWriter c background p b w of
          (Inl e, w1) \<Rightarrow> (Inl e, w1) | (Inr h, w1) \<Rightarrow> (Inr (sftp_Writer c h), w1)),
      bkNewReader = (\<lambda>p opts w. case sb_NewReader c background p opts b w of
          (Inl e, _) \<Rightarrow> Inl e
        | (Inr r, w1) \<Rightarrow> Inr (sftp_Stream c (Suc (stored_bytes (view w1))) r w1)),
      bkExists = (\<lambda>p w. sb_Exists c background p b w),
      bkDelete = (\<lambda>p w. sb_Delete c background p b w),
      bkList = (\<lambda>p w. case sb_List (Suc (gm_len (fsNodes (view w)))) c background p b w of
          None \<Rightarrow> Inr [] | Some r \<Rightarrow> r),
      bkExt = Some (sftp_Ext c b)\<rparr>"

text \<open>A server in order for a backend: its root is written as \<open>path.Clean\<close> would, and is not the dot.\<close>

definition server_ok :: "(string \<Rightarrow> bool) \<Rightarrow> ('w \<Rightarrow> fsys) \<Rightarrow> sftp_backend \<Rightarrow> 'w \<Rightarrow> bool" where
  "server_ok leaf view b w \<longleftrightarrow>
     file_in_order leaf (on_server b) (view w) \<and>
     path_clean (scfRoot (sbConfig b)) = scfRoot (sbConfig b) \<and> scfRoot (sbConfig b) \<noteq> dot"

definition server_files :: "('w \<Rightarrow> fsys) \<Rightarrow> sftp_backend \<Rightarrow> 'w \<Rightarrow> path \<Rightarrow> bytes option" where
  "server_files view b w = file_data (on_server b) (view w)"

lemma stored_bytes_bound:
  assumes "fs_ok fs" "node_at fs l = Some (FFile i)"
  shows "length (inData (fsInodes fs ! i)) \<le> stored_bytes fs"
proof -
  have "i < length (fsInodes fs)" using assms by (auto simp: fs_ok_def inodes_ok_def)
  then show ?thesis
    using member_le_sum_list[of "length (inData (fsInodes fs ! i))" "map (\<lambda>x. length (inData x)) (fsInodes fs)"]
    by (simp add: stored_bytes_def)
qed

subsection \<open>What the calls do\<close>

context sftp_server
begin

text \<open>The facts about the file backend on the same tree hold for the paths and the state here.\<close>

lemma key_facts:
  assumes "server_ok leaf view b w" "file_key leaf p"
  shows "sb_takes b p" "sb_fullPath b p = fb_fullPath (on_server b) p" "sb_checkClosed b = None"
    "fs_ok (view w)" "faultless (view w)"
    "clear_way (view w) (butlast (locate (view w) (sb_fullPath b p)))" "\<not> fs_dir (view w) (locate (view w) (sb_fullPath b p))"
proof -
  have o: "file_in_order leaf (on_server b) (view w)" using assms(1) by (simp add: server_ok_def)
  note k = order_key[OF o assms(2)]
  show t: "sb_takes b p" by (rule k(1))
  show e: "sb_fullPath b p = fb_fullPath (on_server b) p" "sb_checkClosed b = None" using sb_takes_facts[OF t] by simp_all
  show "fs_ok (view w)" "faultless (view w)" using o by (simp_all add: file_in_order_def)
  show "clear_way (view w) (butlast (locate (view w) (sb_fullPath b p)))"
    "\<not> fs_dir (view w) (locate (view w) (sb_fullPath b p))" using k(3,4) by (simp_all add: e)
qed

lemma stored_file:
  assumes "server_ok leaf view b w" "server_files view b w p = Some d"
  shows "file_key leaf p" "fs_file (view w) (locate (view w) (sb_fullPath b p)) = Some d"
proof -
  have o: "file_in_order leaf (on_server b) (view w)" using assms(1) by (simp add: server_ok_def)
  have d: "file_data (on_server b) (view w) p = Some d" using assms(2) by (simp add: server_files_def)
  show k: "file_key leaf p" by (rule file_data_key(1)[OF o d])
  show "fs_file (view w) (locate (view w) (sb_fullPath b p)) = Some d"
    using file_data_key(2)[OF o d] order_key(2)[OF o k] key_facts(2)[OF assms(1) k] by simp
qed

text \<open>What changes one file of the tree keeps the server in order.\<close>

lemma server_change:
  assumes "server_ok leaf view b w" "file_key leaf p" "fs_ok (view w')" "same_system (view w) (view w')"
    and "\<forall>l. fs_dir (view w') l = (fs_dir (view w) l \<or> prefix l (butlast (locate (view w) (sb_fullPath b p)))) \<or>
      fs_dir (view w') l = fs_dir (view w) l"
    and "\<And>l. fs_file (view w') l \<noteq> None \<Longrightarrow> fs_file (view w) l \<noteq> None \<or> l = locate (view w) (sb_fullPath b p)"
  shows "server_ok leaf view b w'"
proof -
  have o: "file_in_order leaf (on_server b) (view w)" using assms(1) by (simp add: server_ok_def)
  have "file_in_order leaf (on_server b) (view w')"
    by (rule order_change[OF o assms(2-4)]) (use assms(5,6) in \<open>unfold key_facts(2)[OF assms(1,2)], blast\<close>)+
  then show ?thesis using assms(1) by (simp add: server_ok_def)
qed

lemma server_files_put:
  assumes "server_ok leaf view b w" "file_key leaf p" "same_system (view w) (view w')"
    and "fs_file (view w') = (fs_file (view w))(locate (view w) (sb_fullPath b p) := x)"
  shows "server_files view b w' = (server_files view b w)(p := x)"
  using file_data_put[OF assms(3,2), of "on_server b" x] assms(1,4) key_facts(2)[OF assms(1,2)]
  by (simp add: server_ok_def server_files_def)

lemma sb_delete:
  assumes "server_ok leaf view b w" "file_key leaf p"
  shows "\<exists>w'. sb_Delete c background p b w = (None, w') \<and> server_ok leaf view b w' \<and>
    server_files view b w' = (server_files view b w)(p := None)"
proof (cases "server_files view b w p")
  case None
  note k = key_facts[OF assms]
  have o: "file_in_order leaf (on_server b) (view w)" using assms(1) by (simp add: server_ok_def)
  have "find_node (view w) (locate (view w) (sb_fullPath b p)) = Inl ENOENT"
    using missing_key[OF o assms(2)] None by (simp add: server_files_def k(2))
  then have "os_Remove (sb_fullPath b p) (view w) = (Some ENOENT, view w)"
    using fault_free[OF o] by (simp add: os_Remove_def Let_def)
  then obtain y w1 where "scRemove c (sb_fullPath b p) w = (Some y, w1)" "view w1 = view w" "same_kind ENOENT y"
    using agrees_some remove_law[of "sb_fullPath b p" w] by metis
  then show ?thesis using assms(1) k(3) None
    by (intro exI[of _ w1]) (auto simp: sb_Delete_def same_kind_def IsNotExist_def server_ok_def server_files_def fun_upd_idem)
next
  case (Some d)
  note k = key_facts[OF assms] and f = stored_file(2)[OF assms(1) Some]
  obtain fs' where r: "os_Remove (sb_fullPath b p) (view w) = (None, fs')" "fs_ok fs'"
    "fs_file fs' = (fs_file (view w))(locate (view w) (sb_fullPath b p) := None)" "same_system (view w) fs'"
    "\<forall>l. fs_dir fs' l = fs_dir (view w) l"
    using os_Remove_file[OF k(4,5) f] by blast
  obtain w1 where w: "scRemove c (sb_fullPath b p) w = (None, w1)" "view w1 = fs'"
    using agrees_ok remove_law[of "sb_fullPath b p" w] r(1) by metis
  have "server_ok leaf view b w1"
    by (rule server_change[OF assms]) (use r w in \<open>auto split: if_splits\<close>)
  moreover have "server_files view b w1 = (server_files view b w)(p := None)"
    by (rule server_files_put[OF assms]) (use r w in auto)
  ultimately show ?thesis using w(1) k(3) by (simp add: sb_Delete_def)
qed

end

context sftp_server
begin

text \<open>Writing.\<close>

lemma sftp_writes:
  assumes "fs_ok (view w)" "writing (view w) h loc d"
  shows "\<exists>w'. io_copy_loop (sftp_Writer c h) cs n w = ((n + length (concat cs), None), w') \<and> fs_ok (view w') \<and>
    same_system (view w) (view w') \<and> node_at (view w') = node_at (view w) \<and>
    fs_file (view w') = (fs_file (view w))(loc := Some (d @ concat cs)) \<and> writing (view w') h loc (d @ concat cs)"
  using assms
proof (induction cs arbitrary: n w d)
  case Nil
  then show ?case by (auto simp: writing_def fun_upd_idem same_system_def)
next
  case (Cons x cs)
  obtain fs1 where 1: "os_Write h x (view w) = (None, fs1)" "fs_ok fs1" "same_system (view w) fs1" "node_at fs1 = node_at (view w)"
    "fs_file fs1 = (fs_file (view w))(loc := Some (d @ x))" "writing fs1 h loc (d @ x)"
    using os_Write_effect[OF Cons.prems] by blast
  obtain w1 where w1: "scWrite c h x w = (None, w1)" "view w1 = fs1" using agrees_ok write_law[of h x w] 1(1) by metis
  obtain w' where "io_copy_loop (sftp_Writer c h) cs (n + length x) w1 = ((n + length x + length (concat cs), None), w')"
    "fs_ok (view w')" "same_system fs1 (view w')" "node_at (view w') = node_at fs1"
    "fs_file (view w') = (fs_file fs1)(loc := Some ((d @ x) @ concat cs))" "writing (view w') h loc ((d @ x) @ concat cs)"
    using Cons.IH[of w1 "d @ x" "n + length x"] 1(2,6) unfolding w1(2) by blast
  then show ?case using 1 w1(1) by (intro exI[of _ w']) (simp add: sftp_Writer_def same_system_def)
qed

lemma sb_write:
  assumes "server_ok leaf view b w" "file_key leaf p"
  shows "\<exists>wr w1 w2 w3. bkNewWriter (sftp_Backend c view b m) p opts w = (Inr wr, w1) \<and>
    io_copy_loop wr cs n w1 = ((n + length (concat cs), None), w2) \<and> wrClose wr w2 = (None, w3) \<and> server_ok leaf view b w3 \<and>
    server_files view b w3 = (server_files view b w)(p := Some (concat cs))"
proof -
  note k = key_facts[OF assms]
  let ?h = "length (fsHandles (view w))" let ?L = "locate (view w) (sb_fullPath b p)"
  obtain fs0 fs1 where 1: "fb_parents (on_server b) (sb_fullPath b p) (view w) = (None, fs0)" "os_Create (sb_fullPath b p) fs0 = (Inr ?h, fs1)"
    "fs_ok fs1" "same_system (view w) fs1" "fs_file fs1 = (fs_file (view w))(?L := Some [])" "writing fs1 ?h ?L []"
    and d1: "\<And>l. fs_dir fs1 l = (fs_dir (view w) l \<or> prefix l (butlast ?L))"
    using fb_create_effect[OF k(4,5,1)] k(6,7) unfolding k(2) by blast
  obtain w0 where w0: "scMkdirAll c (path_dir (sb_fullPath b p)) w = (None, w0)" "view w0 = fs0"
    using agrees_ok mkdir_law[of "path_dir (sb_fullPath b p)" w] 1(1)[unfolded sb_parents] by metis
  obtain w1 where w1: "scCreate c (sb_fullPath b p) w0 = (Inr ?h, w1)" "view w1 = fs1"
    using agrees_inr create_law[of "sb_fullPath b p" w0] 1(2) w0(2) by metis
  obtain w2 where 2: "io_copy_loop (sftp_Writer c ?h) cs n w1 = ((n + length (concat cs), None), w2)" "fs_ok (view w2)"
    "same_system fs1 (view w2)" "node_at (view w2) = node_at fs1" "fs_file (view w2) = (fs_file fs1)(?L := Some (concat cs))"
    "writing (view w2) ?h ?L (concat cs)"
    using sftp_writes[of w1 ?h ?L "[]" cs n] 1(3,6) unfolding w1(2) by auto
  obtain fs3 where 3: "os_CloseFile ?h (view w2) = (None, fs3)" "fs_ok fs3" "same_system (view w2) fs3" "node_at fs3 = node_at (view w2)"
    "fs_file fs3 = fs_file (view w2)"
    using os_Close_effect[OF 2(2,6)] by blast
  obtain w3 where w3: "scCloseFile c ?h w2 = (None, w3)" "view w3 = fs3" using agrees_ok close_law[of ?h w2] 3(1) by metis
  have ss: "same_system (view w) (view w3)" using 1(4) 2(3) 3(3) by (simp add: same_system_def w3(2))
  have f3: "fs_file (view w3) = (fs_file (view w))(?L := Some (concat cs))" using 1(5) 2(5) 3(5) by (simp add: w3(2))
  have "server_ok leaf view b w3"
    by (rule server_change[OF assms _ ss]) (use 3(2,4) 2(4) d1 f3 in \<open>auto simp: w3(2) split: if_splits\<close>)
  moreover have "bkNewWriter (sftp_Backend c view b m) p opts w = (Inr (sftp_Writer c ?h), w1)"
    using w0(1) w1(1) k(3) by (simp add: sftp_Backend_def sb_NewWriter_def Let_def)
  moreover have "wrClose (sftp_Writer c ?h) w2 = (None, w3)" using w3(1) by (simp add: sftp_Writer_def)
  ultimately show ?thesis using 2(1) server_files_put[OF assms ss f3] by blast
qed

text \<open>Reading.\<close>

lemma sr_ReadAll_reads:
  assumes "0 < n" "reading (view w) h off d" "length (drop off d) < f"
  shows "\<exists>ds. sr_ReadAll f c n (SftpFile h) w = Some (ds, EOF) \<and> concat ds = drop off d"
  using assms(2,3)
proof (induction f arbitrary: w off)
  case (Suc f)
  obtain x e w1 where r: "scRead c h n w = ((x, e), w1)" "prefix x (drop off d)" "e = None \<and> x \<noteq> [] \<or> e = Some EOF \<and> x = drop off d"
    "reading (view w1) h (off + length x) d"
    using read_law[OF assms(1) Suc.prems(1)] by blast
  show ?case
  proof (cases e)
    case None
    then have x: "x \<noteq> []" using r(3) by simp
    obtain y where y: "drop off d = x @ y" using r(2) by (auto simp: prefix_def)
    then have z: "drop (off + length x) d = y" by (metis append_eq_conv_conj drop_drop add.commute)
    have "length y < f" using Suc.prems(2) y x by (cases x) simp_all
    then obtain ds where "sr_ReadAll f c n (SftpFile h) w1 = Some (ds, EOF)" "concat ds = y" using Suc.IH[OF r(4)] z by auto
    then show ?thesis using r(1) None y by (simp add: sr_Read_def)
  qed (use r(1,3) in \<open>auto simp: sr_Read_def\<close>)
qed simp

lemma sb_read:
  assumes "server_ok leaf view b w" "server_files view b w p = Some d"
  shows "\<exists>s. bkNewReader (sftp_Backend c view b m) p [] w = Inr s \<and> concat (sChunks s) = d \<and> sErr s = None"
proof -
  note f = stored_file[OF assms]
  note k = key_facts[OF assms(1) f(1)]
  obtain i where i: "os_Open (sb_fullPath b p) (view w) = (Inr (length (fsHandles (view w))),
      (view w)\<lparr>fsHandles := fsHandles (view w) @ [\<lparr>fhInode = Some i, fhOffset = 0, fhOpen = True\<rparr>]\<rparr>)"
    "node_at (view w) (locate (view w) (sb_fullPath b p)) = Some (FFile i)" "inData (fsInodes (view w) ! i) = d"
    using os_Open_file[OF k(4,5) f(2)] by blast
  obtain w1 where w1: "scOpen c (sb_fullPath b p) w = (Inr (length (fsHandles (view w))), w1)"
    "view w1 = (view w)\<lparr>fsHandles := fsHandles (view w) @ [\<lparr>fhInode = Some i, fhOffset = 0, fhOpen = True\<rparr>]\<rparr>"
    using agrees_inr open_law[of "sb_fullPath b p" w] i(1) by metis
  have r: "reading (view w1) (length (fsHandles (view w))) 0 d" using i(3) by (simp add: w1(2) reading_def)
  have "length (drop 0 d) < Suc (stored_bytes (view w1))"
    using stored_bytes_bound[OF k(4) i(2)] i(3) by (simp add: w1(2) stored_bytes_def)
  from sr_ReadAll_reads[OF io_copy_buffer_pos r this] obtain ds where
    "sr_ReadAll (Suc (stored_bytes (view w1))) c io_copy_buffer (SftpFile (length (fsHandles (view w)))) w1 = Some (ds, EOF)" "concat ds = d"
    by auto
  then show ?thesis
    using w1(1) k(3) by (simp add: sftp_Backend_def sb_NewReader_def sftp_Stream_def ApplyReaderOptions_def zeroReaderConfig_def Let_def)
qed

lemma key_Open_missing:
  assumes "server_ok leaf view b w" "file_key leaf p" "server_files view b w p = None"
  shows "\<exists>e w1. scOpen c (sb_fullPath b p) w = (Inl e, w1) \<and> seIsNotExist e \<and> view w1 = view w"
proof -
  have o: "file_in_order leaf (on_server b) (view w)" using assms(1) by (simp add: server_ok_def)
  have "os_Open (sb_fullPath b p) (view w) = (Inl ENOENT, view w)"
    using os_Open_missing[OF missing_key[OF o assms(2)] key_facts(5)[OF assms(1,2)]] assms(3) key_facts(2)[OF assms(1,2)]
    by (simp add: server_files_def)
  then have "agrees_res view (Inl ENOENT, view w) (scOpen c (sb_fullPath b p) w)" using open_law[of "sb_fullPath b p" w] by simp
  then show ?thesis
    by (cases "scOpen c (sb_fullPath b p) w") (auto simp: agrees_res_def same_kind_def IsNotExist_def)
qed

lemma sb_read_missing:
  assumes "server_ok leaf view b w" "file_key leaf p" "server_files view b w p = None"
  shows "bkNewReader (sftp_Backend c view b m) p [] w = Inl ErrNotFound"
  using key_Open_missing[OF assms] key_facts(3)[OF assms(1,2)]
  by (auto simp: sftp_Backend_def sb_NewReader_def translateError_def Let_def)

end

context sftp_server
begin

text \<open>Looking.\<close>

lemma key_Stat:
  assumes "server_ok leaf view b w" "file_key leaf p"
  shows "case server_files view b w p of
      None \<Rightarrow> \<exists>e. scStat c (sb_fullPath b p) w = Inl e \<and> seIsNotExist e
    | Some d \<Rightarrow> \<exists>st. scStat c (sb_fullPath b p) w = Inr st \<and> \<not> stIsDir st \<and> stSize st = int (length d)"
proof -
  have o: "file_in_order leaf (on_server b) (view w)" using assms(1) by (simp add: server_ok_def)
  show ?thesis
    using order_Stat[OF o assms(2)] stat_law[of "sb_fullPath b p" w] key_facts(2)[OF assms]
    by (auto simp: server_files_def agrees_value_def same_kind_def IsNotExist_def split: option.splits)
qed

lemma sb_exists:
  assumes "server_ok leaf view b w" "file_key leaf p"
  shows "sb_Exists c background p b w = Inr (server_files view b w p \<noteq> None)"
  using key_Stat[OF assms] key_facts(3)[OF assms] by (auto simp: sb_Exists_def split: option.splits)

lemma sb_stat:
  assumes "server_ok leaf view b w" "server_files view b w p = Some d"
  shows "\<exists>info. sb_Stat c background p b w = Inr info \<and> ObjectSize info = int (length d) \<and> \<not> ObjectIsDir info \<and> ObjectPath info = p"
  using key_Stat[OF assms(1) stored_file(1)[OF assms]] key_facts(3)[OF assms(1) stored_file(1)[OF assms]] assms(2)
  by (auto simp: sb_Stat_def)

lemma sb_list:
  assumes "server_ok leaf view b w"
  shows "\<exists>ps. bkList (sftp_Backend c view b m) [] w = Inr ps \<and> distinct ps \<and> set ps = {p. server_files view b w p \<noteq> None}"
proof -
  let ?root = "scfRoot (sbConfig b)"
  have o: "file_in_order leaf (on_server b) (view w)" using assms by (simp add: server_ok_def)
  then have s: "fs_ok (view w)" "faultless (view w)" "\<not> sbClosed b" "fs_dir (view w) (locate (view w) ?root @ butlast [])"
    by (simp_all add: file_in_order_def on_server_def fb_root_def)
  have r: "path_clean ?root = ?root" "?root \<noteq> dot" using assms by (simp_all add: server_ok_def)
  obtain ps where p: "sb_List (Suc (gm_len (fsNodes (view w)))) c background [] b w = Some (Inr ps)" "distinct ps"
    "set ps = join_on slash ` selected (view w) ?root []"
    using List_selects[OF refl s(1-3) refl r _ s(4), of "[]" "Suc (gm_len (fsNodes (view w)))"] by blast
  have "join_on slash ` selected (view w) ?root [] =
      {join_on slash r |r. prefix (place_of []) r \<and> fs_file (view w) (fb_root (on_server b) (view w) @ r) \<noteq> None}"
    using s(4) by (auto simp: selected_def files_below_def place_of_def fb_root_def on_server_def)
  then have "set ps = {p. server_files view b w p \<noteq> None}"
    using listed_files[OF o, of "[]"] p(3) by (simp add: file_under_def server_files_def)
  then show ?thesis using p(1,2) by (simp add: sftp_Backend_def)
qed

text \<open>Copying and moving.\<close>

lemma keys_apart:
  assumes "server_ok leaf view b w" "file_key leaf p" "file_key leaf q" "p \<noteq> q"
  shows "locate (view w) (sb_fullPath b p) \<noteq> locate (view w) (sb_fullPath b q)"
proof -
  have o: "file_in_order leaf (on_server b) (view w)" using assms(1) by (simp add: server_ok_def)
  show ?thesis
    using assms(4) plain_key_parts(3)[OF file_key_plain] assms(2,3)
    unfolding key_facts(2)[OF assms(1,2)] key_facts(2)[OF assms(1,3)] order_key(2)[OF o assms(2)] order_key(2)[OF o assms(3)]
    by (metis same_append_eq)
qed

lemma sb_copy:
  assumes "server_ok leaf view b w" "file_key leaf p" "file_key leaf q" "p \<noteq> q" "server_files view b w p = Some d"
  shows "\<exists>w'. sb_Copy c background p q b w = (None, w') \<and> server_ok leaf view b w' \<and>
    server_files view b w' = (server_files view b w)(q := Some d)"
proof -
  note p = key_facts[OF assms(1,2)] and q = key_facts[OF assms(1,3)] and ne = keys_apart[OF assms(1-4)]
  obtain w' where w: "sb_Copy c background p q b w = (None, w')" "fs_ok (view w')" "same_system (view w) (view w')"
    "fs_file (view w') = (fs_file (view w))(locate (view w) (sb_fullPath b q) := Some d)"
    "\<forall>l. fs_dir (view w') l = (fs_dir (view w) l \<or> prefix l (butlast (locate (view w) (sb_fullPath b q))))"
    using Copy_effect[OF refl p(4,5,1) q(1) stored_file(2)[OF assms(1,5)] q(6,7)] ne by auto
  have "server_ok leaf view b w'"
    by (rule server_change[OF assms(1,3) w(2,3)]) (use w(4,5) in \<open>auto split: if_splits\<close>)
  then show ?thesis using w(1) server_files_put[OF assms(1,3) w(3,4)] by blast
qed

lemma sb_move:
  assumes "server_ok leaf view b w" "file_key leaf p" "file_key leaf q" "p \<noteq> q" "server_files view b w p = Some d"
  shows "\<exists>w'. sb_Move c background p q b w = (None, w') \<and> server_ok leaf view b w' \<and>
    server_files view b w' = (server_files view b w)(q := Some d, p := None)"
proof -
  note p = key_facts[OF assms(1,2)] and q = key_facts[OF assms(1,3)] and ne = keys_apart[OF assms(1-4)]
  have o: "file_in_order leaf (on_server b) (view w)" using assms(1) by (simp add: server_ok_def)
  obtain w' where w: "sb_Move c background p q b w = (None, w')" "fs_ok (view w')" "same_system (view w) (view w')"
    and ff: "fs_file (view w') = (fs_file (view w))(locate (view w) (sb_fullPath b p) := None, locate (view w) (sb_fullPath b q) := Some d)"
    and dd: "\<forall>l. fs_dir (view w') l = (fs_dir (view w) l \<or> prefix l (butlast (locate (view w) (sb_fullPath b q))))"
    using Move_effect[OF refl p(4,5,1) q(1) stored_file(2)[OF assms(1,5)] q(6,7)] ne by auto
  have "server_ok leaf view b w'"
    by (rule server_change[OF assms(1,3) w(2,3)]) (use ff dd in \<open>auto split: if_splits\<close>)
  moreover have "server_files view b w' = (server_files view b w)(q := Some d, p := None)"
    unfolding server_files_def
    using file_data_move[OF o assms(2-4) w(3)] ff by (simp add: p(2) q(2))
  ultimately show ?thesis using w(1) by blast
qed

end

context sftp_server
begin

text \<open>A copy of a file that is not there makes the directories of the destination first.\<close>

lemma sb_copy_missing:
  assumes "server_ok leaf view b w" "file_key leaf p" "file_key leaf q" "server_files view b w p = None"
  shows "\<exists>w'. sb_Copy c background p q b w = (Some ErrNotFound, w') \<and> server_ok leaf view b w' \<and>
    server_files view b w' = server_files view b w"
proof -
  note q = key_facts[OF assms(1,3)]
  obtain fs1 where 1: "fb_parents (on_server b) (sb_fullPath b q) (view w) = (None, fs1)" "fs_ok fs1" "same_system (view w) fs1"
    "fs_file fs1 = fs_file (view w)"
    "node_at fs1 = (\<lambda>l. if prefix l (butlast (locate (view w) (sb_fullPath b q))) then Some FDir else node_at (view w) l)"
    using fb_parents_effect[OF q(4,5,1)] q(6) unfolding q(2) by blast
  obtain w1 where w1: "scMkdirAll c (path_dir (sb_fullPath b q)) w = (None, w1)" "view w1 = fs1"
    using agrees_ok mkdir_law[of "path_dir (sb_fullPath b q)" w] 1(1)[unfolded sb_parents] by metis
  have o1: "server_ok leaf view b w1"
    by (rule server_change[OF assms(1,3)]) (use 1 in \<open>auto simp: w1(2)\<close>)
  have f1: "server_files view b w1 = server_files view b w"
    using same_system_locate[OF 1(3)] 1(4) by (simp add: server_files_def file_data_def fun_eq_iff w1(2) fb_root_def)
  obtain e w2 where w2: "scOpen c (sb_fullPath b p) w1 = (Inl e, w2)" "seIsNotExist e" "view w2 = view w1"
    using key_Open_missing[OF o1 assms(2)] assms(4) f1 by auto
  have "sb_Copy c background p q b w = (Some ErrNotFound, w2)"
    using w1(1) w2(1,2) q(3) by (simp add: sb_Copy_def translateError_def Let_def)
  moreover have "server_ok leaf view b w2" using o1 w2(3) by (simp add: server_ok_def)
  moreover have "server_files view b w2 = server_files view b w" using f1 w2(3) by (simp add: server_files_def)
  ultimately show ?thesis by blast
qed

end

subsection \<open>A family of servers\<close>

text \<open>Each backend has a server of its own, a part of the world.\<close>

definition nth_part :: "nat \<Rightarrow> ('w, nat \<Rightarrow> 'w) part" where
  "nth_part i = (\<lambda>W. W i, \<lambda>w W. W(i := w))"

lemma nth_lawful: "lawful (nth_part i)"
  by (simp add: lawful_def nth_part_def)

definition sv_Backend :: "'w sftp_client \<Rightarrow> ('w \<Rightarrow> fsys) \<Rightarrow> (nat \<Rightarrow> sftp_backend) \<Rightarrow> nat \<Rightarrow> (nat \<Rightarrow> 'w) Backend" where
  "sv_Backend c view bs i = lift_Backend (nth_part i) i (sftp_Backend c view (bs i) i)"

definition sv_Ext :: "'w sftp_client \<Rightarrow> (nat \<Rightarrow> sftp_backend) \<Rightarrow> nat \<Rightarrow> (nat \<Rightarrow> 'w) ExtendedOps" where
  "sv_Ext c bs i = lift_Ext (nth_part i) (sftp_Ext c (bs i))"

definition sv_files :: "('w \<Rightarrow> fsys) \<Rightarrow> (nat \<Rightarrow> sftp_backend) \<Rightarrow> nat \<Rightarrow> (nat \<Rightarrow> 'w) \<Rightarrow> path \<Rightarrow> bytes option" where
  "sv_files view bs i W = server_files view (bs i) (W i)"

definition sv_ok :: "(string \<Rightarrow> bool) \<Rightarrow> ('w \<Rightarrow> fsys) \<Rightarrow> (nat \<Rightarrow> sftp_backend) \<Rightarrow> (nat \<Rightarrow> 'w) \<Rightarrow> bool" where
  "sv_ok leaf view bs W \<longleftrightarrow> (\<forall>i. server_ok leaf view (bs i) (W i))"

lemma sv_act:
  assumes "sv_ok leaf view bs W"
    and "\<exists>w. f (W i) = (r, w) \<and> server_ok leaf view (bs i) w \<and> server_files view (bs i) w = F"
  shows "\<exists>W'. in_part (nth_part i) f W = (r, W') \<and> sv_ok leaf view bs W' \<and> sv_files view bs i W' = F \<and>
    (\<forall>j. j \<noteq> i \<longrightarrow> sv_files view bs j W' = sv_files view bs j W)"
proof -
  obtain w where "f (W i) = (r, w)" "server_ok leaf view (bs i) w" "server_files view (bs i) w = F" using assms(2) by blast
  then show ?thesis using assms(1)
    by (intro exI[of _ "W(i := w)"]) (simp add: in_part_def nth_part_def sv_ok_def sv_files_def)
qed

locale sftp_servers = sftp_server c view
  for c :: "'w sftp_client" and view :: "'w \<Rightarrow> fsys" +
  fixes bs :: "nat \<Rightarrow> sftp_backend" and leaf :: "string \<Rightarrow> bool"
begin

lemma sv_write:
  assumes "sv_ok leaf view bs W" "file_key leaf p"
  shows "\<exists>wr w1 w2 w3. bkNewWriter (sv_Backend c view bs i) p opts W = (Inr wr, w1) \<and>
    io_copy_loop wr cs n w1 = ((n + length (concat cs), None), w2) \<and> wrClose wr w2 = (None, w3) \<and> sv_ok leaf view bs w3 \<and>
    sv_files view bs i w3 = (sv_files view bs i W)(p := Some (concat cs)) \<and>
    (\<forall>j. j \<noteq> i \<longrightarrow> sv_files view bs j w3 = sv_files view bs j W)"
proof -
  let ?p = "nth_part i"
  have o: "server_ok leaf view (bs i) (W i)" using assms(1) by (simp add: sv_ok_def)
  obtain wr w1 w2 w3 where w: "bkNewWriter (sftp_Backend c view (bs i) i) p opts (W i) = (Inr wr, w1)"
    "io_copy_loop wr cs n w1 = ((n + length (concat cs), None), w2)" "wrClose wr w2 = (None, w3)" "server_ok leaf view (bs i) w3"
    "server_files view (bs i) w3 = (server_files view (bs i) (W i))(p := Some (concat cs))"
    using sb_write[OF o assms(2), of i opts cs n] by blast
  have "bkNewWriter (sv_Backend c view bs i) p opts W = (Inr (lift_Writer ?p wr), W(i := w1))"
    using w(1) by (simp add: sv_Backend_def lift_Backend_def in_part_def nth_part_def)
  moreover have "io_copy_loop (lift_Writer ?p wr) cs n (W(i := w1)) = ((n + length (concat cs), None), W(i := w2))"
    using lift_io_copy_loop[OF nth_lawful, of wr cs n i "W(i := w1)"] w(2) by (simp add: nth_part_def)
  moreover have "wrClose (lift_Writer ?p wr) (W(i := w2)) = (None, W(i := w3))"
    using w(3) by (simp add: lift_Writer_def in_part_def nth_part_def)
  ultimately show ?thesis using w(4,5) assms(1)
    by (intro exI[of _ "lift_Writer ?p wr"] exI[of _ "W(i := w1)"] exI[of _ "W(i := w2)"] exI[of _ "W(i := w3)"])
      (simp add: sv_ok_def sv_files_def)
qed

end

text \<open>They keep the contract, with no base path but the root.\<close>

sublocale sftp_servers \<subseteq> served:
  extended_stores "sv_Backend c view bs" "sv_files view bs" "sv_ok leaf view bs" "file_key leaf" "\<lambda>_. False" "\<lambda>_ _ _. True" "sv_Ext c bs"
proof
  have o: "server_ok leaf view (bs i) (W i)" if "sv_ok leaf view bs W" for W i using that by (simp add: sv_ok_def)
  show "bkId (sv_Backend c view bs i) = i" for i by (simp add: sv_Backend_def lift_Backend_def)
  show "plain_key p" if "file_key leaf p" for p using that by (rule file_key_plain)
  show "file_key leaf p" if "sv_ok leaf view bs W" "sv_files view bs i W p = Some d" for W i p d
    using stored_file(1)[OF o[OF that(1)]] that(2) by (simp add: sv_files_def)
  show "\<exists>s. bkNewReader (sv_Backend c view bs i) p [] W = Inr s \<and> concat (sChunks s) = d \<and> sErr s = None"
    if "sv_ok leaf view bs W" "sv_files view bs i W p = Some d" for W i p d
    using sb_read[OF o[OF that(1)]] that(2) by (simp add: sv_files_def sv_Backend_def lift_Backend_def nth_part_def)
  show "bkNewReader (sv_Backend c view bs i) p [] W = Inl ErrNotFound"
    if "sv_ok leaf view bs W" "file_key leaf p" "sv_files view bs i W p = None" for W i p
    using sb_read_missing[OF o[OF that(1)] that(2)] that(3) by (simp add: sv_files_def sv_Backend_def lift_Backend_def nth_part_def)
  show "bkExists (sv_Backend c view bs i) p W = Inr (sv_files view bs i W p \<noteq> None)"
    if "sv_ok leaf view bs W" "file_key leaf p" for W i p
    using sb_exists[OF o[OF that(1)] that(2)] by (simp add: sv_files_def sv_Backend_def lift_Backend_def nth_part_def sftp_Backend_def)
  show "\<exists>W'. bkDelete (sv_Backend c view bs i) p W = (None, W') \<and> sv_ok leaf view bs W' \<and>
      sv_files view bs i W' = (sv_files view bs i W)(p := None) \<and> (\<forall>j. j \<noteq> i \<longrightarrow> sv_files view bs j W' = sv_files view bs j W)"
    if "sv_ok leaf view bs W" "file_key leaf p" for W i p
    using sv_act[where i = i and f = "sb_Delete c background p (bs i)", OF that(1) sb_delete[OF o[OF that(1)] that(2)]] by (simp add: sv_Backend_def lift_Backend_def sftp_Backend_def fun_upd_def flip: sv_files_def)
  show "\<exists>ps. bkList (sv_Backend c view bs i) base W = Inr ps \<and> distinct ps \<and> set ps = {p. sv_files view bs i W p \<noteq> None \<and> True}"
    if "sv_ok leaf view bs W" "base = [] \<or> False" for W base i
    using sb_list[OF o[OF that(1), of i], of i] that(2) by (auto simp: sv_files_def sv_Backend_def lift_Backend_def nth_part_def)
  show "bkExt (sv_Backend c view bs i) = Some (sv_Ext c bs i)" for i
    by (simp add: sv_Backend_def sv_Ext_def lift_Backend_def sftp_Backend_def)
  show "\<exists>info. exStat (sv_Ext c bs i) p W = Inr info \<and> ObjectSize info = int (length d) \<and> \<not> ObjectIsDir info \<and> ObjectPath info = p"
    if "sv_ok leaf view bs W" "sv_files view bs i W p = Some d" for W i p d
    using sb_stat[OF o[OF that(1)]] that(2) by (simp add: sv_files_def sv_Ext_def lift_Ext_def nth_part_def sftp_Ext_def)
  show "\<exists>W'. exCopy (sv_Ext c bs i) p q W = (None, W') \<and> sv_ok leaf view bs W' \<and>
      sv_files view bs i W' = (sv_files view bs i W)(q := Some d) \<and> (\<forall>j. j \<noteq> i \<longrightarrow> sv_files view bs j W' = sv_files view bs j W)"
    if "sv_ok leaf view bs W" "file_key leaf p" "file_key leaf q" "p \<noteq> q" "sv_files view bs i W p = Some d" for W p q i d
    using sv_act[where i = i and f = "sb_Copy c background p q (bs i)", OF that(1) sb_copy[OF o[OF that(1)] that(2-4)]] that(5) by (simp add: sv_Ext_def lift_Ext_def sftp_Ext_def fun_upd_def flip: sv_files_def)
  show "\<exists>W'. exMove (sv_Ext c bs i) p q W = (None, W') \<and> sv_ok leaf view bs W' \<and>
      sv_files view bs i W' = (sv_files view bs i W)(q := Some d, p := None) \<and> (\<forall>j. j \<noteq> i \<longrightarrow> sv_files view bs j W' = sv_files view bs j W)"
    if "sv_ok leaf view bs W" "file_key leaf p" "file_key leaf q" "p \<noteq> q" "sv_files view bs i W p = Some d" for W p q i d
    using sv_act[where i = i and f = "sb_Move c background p q (bs i)", OF that(1) sb_move[OF o[OF that(1)] that(2-4)]] that(5) by (simp add: sv_Ext_def lift_Ext_def sftp_Ext_def fun_upd_def flip: sv_files_def)
  show "\<exists>W'. exCopy (sv_Ext c bs i) p q W = (Some ErrNotFound, W') \<and> sv_ok leaf view bs W' \<and> (\<forall>j. sv_files view bs j W' = sv_files view bs j W)"
    if "sv_ok leaf view bs W" "file_key leaf p" "file_key leaf q" "sv_files view bs i W p = None" for W p q i
  proof -
    have n: "server_files view (bs i) (W i) p = None" using that(4) by (simp add: sv_files_def)
    note a = sv_act[where i = i and f = "sb_Copy c background p q (bs i)", OF that(1) sb_copy_missing[OF o[OF that(1)] that(2,3) n]]
    obtain W' where W: "in_part (nth_part i) (sb_Copy c background p q (bs i)) W = (Some ErrNotFound, W')" "sv_ok leaf view bs W'"
      "sv_files view bs i W' = server_files view (bs i) (W i)" "\<forall>j. j \<noteq> i \<longrightarrow> sv_files view bs j W' = sv_files view bs j W"
      using a by blast
    have "\<forall>j. sv_files view bs j W' = sv_files view bs j W" using W(3,4) unfolding sv_files_def by metis
    then show ?thesis using W(1,2) by (simp add: sv_Ext_def lift_Ext_def sftp_Ext_def)
  qed
  show "fCopy (exFeatures (sv_Ext c bs i))" "fMove (exFeatures (sv_Ext c bs i))" for i
    by (simp_all add: sv_Ext_def lift_Ext_def sftp_Ext_def sb_Features_def)
qed (use sv_write in simp_all)

interpretation fsv: sftp_servers fs_client "\<lambda>fs. fs" bs leaf for bs leaf
  by unfold_locales

end
