(* ===== verification/SftpSync.thy ===== *)
theory SftpSync
  imports SftpStore FileSync
begin

section \<open>Syncing directory trees with SFTP servers\<close>

text \<open>
  A program that holds file backends and SFTP backends: the even numbers are directory trees, the odd
  ones trees on servers. For any client and servers that do what \<open>sftp_server\<close> says, and one convention
  of names for all of them, the results about the sync engine hold between any two, at their roots.
\<close>

type_synonym 'w sftp_world = "fworld \<times> (nat \<Rightarrow> 'w)"

definition remote_Backend ::
  "(string \<Rightarrow> string) \<Rightarrow> (nat \<Rightarrow> file_backend) \<Rightarrow> 'w sftp_client \<Rightarrow> ('w \<Rightarrow> fsys) \<Rightarrow> (nat \<Rightarrow> sftp_backend) \<Rightarrow> nat \<Rightarrow> 'w sftp_world Backend" where
  "remote_Backend mime fbs c view bs = both_Backend (file_Backend mime fbs) (sv_Backend c view bs)"

definition remote_files ::
  "(nat \<Rightarrow> file_backend) \<Rightarrow> ('w \<Rightarrow> fsys) \<Rightarrow> (nat \<Rightarrow> sftp_backend) \<Rightarrow> nat \<Rightarrow> 'w sftp_world \<Rightarrow> path \<Rightarrow> bytes option" where
  "remote_files fbs view bs = both_files (fw_files fbs) (sv_files view bs)"

definition remote_ok ::
  "(string \<Rightarrow> bool) \<Rightarrow> (nat \<Rightarrow> file_backend) \<Rightarrow> ('w \<Rightarrow> fsys) \<Rightarrow> (nat \<Rightarrow> sftp_backend) \<Rightarrow> 'w sftp_world \<Rightarrow> bool" where
  "remote_ok leaf fbs view bs w \<longleftrightarrow> fw_ok leaf fbs (fst w) \<and> sv_ok leaf view bs (snd w)"

locale sftp_program = sftp_servers c view bs leaf
  for c :: "'w sftp_client" and view :: "'w \<Rightarrow> fsys" and bs leaf +
  fixes mime :: "string \<Rightarrow> string" and fbs :: "nat \<Rightarrow> file_backend"

sublocale sftp_program \<subseteq> remote: two_stores "file_Backend mime fbs" "fw_files fbs" "fw_ok leaf fbs" "file_key leaf" "file_dirp leaf"
    "\<lambda>i. file_under" "\<lambda>i. file_Ext mime (fbs i) i"
    "sv_Backend c view bs" "sv_files view bs" "sv_ok leaf view bs" "file_key leaf" "\<lambda>_. False" "\<lambda>_ _ _. True" "sv_Ext c bs"
  by unfold_locales

context sftp_program
begin

lemma remote_keys: "remote.key2 = file_key leaf" "remote.dir2 = (\<lambda>_. False)"
  by (simp_all add: fun_eq_iff remote.key2_def remote.dir2_def)

lemma remote_ok_both: "remote_ok leaf fbs view bs = remote.ok2"
proof
  fix w :: "'w sftp_world"
  have "file_key leaf p" if "fw_ok leaf fbs (fst w)" "sv_ok leaf view bs (snd w)" "remote.files2 n w p \<noteq> None" for n p
  proof (cases n rule: even_cases)
    case (left m)
    then show ?thesis using that file_stores.key_law[OF that(1)] by auto
  next
    case (right m)
    then show ?thesis using that served.key_law[OF that(2)] by auto
  qed
  then show "remote_ok leaf fbs view bs w = remote.ok2 w"
    unfolding remote_ok_def both_ok_def remote_keys by blast
qed

end

sublocale sftp_program \<subseteq> remote_sync: synced_stores "remote_Backend mime fbs c view bs" "remote_files fbs view bs" "remote_ok leaf fbs view bs"
    "file_key leaf" "\<lambda>_. False" "both_under (\<lambda>i. file_under) (\<lambda>_ _ _. True)" "both_Ext (\<lambda>i. file_Ext mime (fbs i) i) (sv_Ext c bs)"
  using remote.both.extended_stores_axioms
  by (simp add: synced_stores_def remote_keys remote_ok_both remote_Backend_def remote_files_def)

definition remote_detects ::
  "(string \<Rightarrow> string) \<Rightarrow> (nat \<Rightarrow> file_backend) \<Rightarrow> 'w sftp_client \<Rightarrow> ('w \<Rightarrow> fsys) \<Rightarrow> (nat \<Rightarrow> sftp_backend) \<Rightarrow>
   SyncEnv \<Rightarrow> SyncOptions \<Rightarrow> nat \<Rightarrow> nat \<Rightarrow> 'w sftp_world \<Rightarrow> bool" where
  "remote_detects mime fbs c view bs env opts i j w \<longleftrightarrow>
     (\<forall>r d d'. plain_key r \<longrightarrow> remote_files fbs view bs i w r = Some d \<longrightarrow> remote_files fbs view bs j w r = Some d' \<longrightarrow> d \<noteq> d' \<longrightarrow>
        NeedsUpdate env (file_info opts (remote_Backend mime fbs c view bs i) [] r w)
          (file_info opts (remote_Backend mime fbs c view bs j) [] r w) opts)"

text \<open>A full mirroring run between the roots of \<open>i\<close> and \<open>j\<close>.\<close>

definition remote_setting ::
  "(string \<Rightarrow> bool) \<Rightarrow> (nat \<Rightarrow> file_backend) \<Rightarrow> ('w \<Rightarrow> fsys) \<Rightarrow> (nat \<Rightarrow> sftp_backend) \<Rightarrow> nat \<Rightarrow> nat \<Rightarrow> SyncOptions \<Rightarrow> 'w sftp_world \<Rightarrow> bool" where
  "remote_setting leaf fbs view bs i j opts w \<longleftrightarrow>
     i \<noteq> j \<and> remote_ok leaf fbs view bs w \<and> soFilter opts = None \<and> \<not> soDryRun opts \<and> soDeleteExtra opts \<and> \<not> soIgnoreExisting opts"

context sftp_program
begin

lemma remote_clean: "remote_ok leaf fbs view bs w \<Longrightarrow> remote_sync.clean_under i [] w"
  unfolding remote_sync.clean_under_def
  by (metis file_key_plain not_None_eq path_join_empty_plain remote_sync.key_law)

lemma remote_detects_eq:
  "remote_sync.detects env opts i [] j [] w = remote_detects mime fbs c view bs env opts i j w"
  by (simp add: remote_detects_def remote_sync.detects_def remote_sync.rel_info_def path_join_empty_plain)

lemma remote_base: "remote_sync.base_ok []"
  by (simp add: remote_sync.base_ok_def)

lemma remote_mirror:
  assumes "remote_setting leaf fbs view bs i j opts w" "range_order ord" "\<And>n. ctx n = None"
    and "remote_detects mime fbs c view bs env opts i j w"
  shows "\<exists>r w'. Sync env ctx ord (remote_Backend mime fbs c view bs i) (remote_Backend mime fbs c view bs j) [] [] opts w =
      ((Some r, None), w') \<and> Success r"
    and "sync_outcome env ctx ord (remote_Backend mime fbs c view bs i) (remote_Backend mime fbs c view bs j) [] [] opts w (Some r, None) w' \<Longrightarrow>
      remote_ok leaf fbs view bs w' \<and> remote_files fbs view bs j w' = remote_files fbs view bs i w \<and>
      (\<forall>k. k \<noteq> j \<longrightarrow> remote_files fbs view bs k w' = remote_files fbs view bs k w)"
proof -
  have s: "i \<noteq> j" "remote_ok leaf fbs view bs w" "soFilter opts = None" "\<not> soDryRun opts" "soDeleteExtra opts" "\<not> soIgnoreExisting opts"
    using assms(1) by (simp_all add: remote_setting_def)
  have n: "([] :: path) = [] \<longrightarrow> ([] :: path) = []" by simp
  note facts = s(1,2) assms(2) remote_base remote_base n remote_clean[OF s(2)] remote_clean[OF s(2)] s(3,4) assms(3)
  show "\<exists>r w'. Sync env ctx ord (remote_Backend mime fbs c view bs i) (remote_Backend mime fbs c view bs j) [] [] opts w =
      ((Some r, None), w') \<and> Success r"
    using remote_sync.Sync_completes[where env = env and ctx = ctx, OF facts] by blast
  assume o: "sync_outcome env ctx ord (remote_Backend mime fbs c view bs i) (remote_Backend mime fbs c view bs j) [] [] opts w (Some r, None) w'"
  note e = remote_sync.Sync_effect[where ctx = ctx, OF facts o]
  have p: "remote_files fbs view bs j w' x = remote_files fbs view bs i w x" if x: "plain_key x" for x
    using remote_sync.Sync_mirror[where ctx = ctx, OF facts s(5,6) assms(4)[folded remote_detects_eq] o x] e(2) s(1)
    unfolding path_join_empty_plain[OF x] by metis
  moreover have "remote_files fbs view bs k v x = None" if "remote_ok leaf fbs view bs v" "\<not> plain_key x" for k v x
    using that remote_sync.key_law[OF that(1), of k x] file_key_plain by (cases "remote_files fbs view bs k v x") auto
  ultimately have "remote_files fbs view bs j w' = remote_files fbs view bs i w"
    using e(1) s(2) by (metis ext)
  then show "remote_ok leaf fbs view bs w' \<and> remote_files fbs view bs j w' = remote_files fbs view bs i w \<and>
      (\<forall>k. k \<noteq> j \<longrightarrow> remote_files fbs view bs k w' = remote_files fbs view bs k w)"
    using e(1,2) by blast
qed

end

interpretation local: sftp_program fs_client "\<lambda>fs. fs" bs leaf mime fbs for bs leaf mime fbs
  by unfold_locales

subsection \<open>Property\<close>


text \<open>The tree with one file is sent to an empty server.\<close>

definition witness_remote :: "fsys sftp_world" where
  "witness_remote = (witness_files, \<lambda>i. empty_fs)"

abbreviation witness_servers :: "nat \<Rightarrow> sftp_backend" where
  "witness_servers \<equiv> \<lambda>_. sample_sb ''/''"

lemma witness_server_ok: "server_ok letter_a (\<lambda>fs. fs) (sample_sb ''/'') empty_fs"
proof -
  have c: "path_clean ''/'' = ''/''" "locate empty_fs ''/'' = []" by code_simp+
  have r: "fb_root (on_server (sample_sb ''/'')) empty_fs = []"
    using c(2) by (simp add: fb_root_def on_server_def sample_sb_def)
  have "shaped letter_a empty_fs []" by (auto simp: shaped_def fs_file_def empty_fs_node)
  then show ?thesis
    using sample_fs_ok c(1) r by (simp add: server_ok_def file_in_order_def) (simp add: on_server_def sample_sb_def)
qed

lemma witness_remote_setting:
  "remote_setting letter_a (\<lambda>_. sample_fb) (\<lambda>fs. fs) witness_servers (2 * 0) (Suc (2 * 0)) (zeroOptions\<lparr>soDeleteExtra := True\<rparr>) witness_remote"
  using witness_files_ok witness_server_ok
  by (simp add: remote_setting_def remote_ok_def sv_ok_def witness_remote_def zeroOptions_def)

lemma witness_remote_files:
  "remote_files (\<lambda>_. sample_fb) (\<lambda>fs. fs) witness_servers (2 * 0) witness_remote ''a'' = Some [1, 2, 3]"
  "remote_files (\<lambda>_. sample_fb) (\<lambda>fs. fs) witness_servers (Suc (2 * 0)) witness_remote p = None"
  unfolding remote_files_def both_simps using witness_files_data(1)
  by (simp_all add: witness_remote_def sv_files_def server_files_def file_data_def fs_file_def empty_fs_node)


end
