(* ===== verification/Startup.thy ===== *)
theory Startup
  imports Registry MemoryBackend FileBackend ChannelBackend SftpBackend
begin

section \<open>The built-in backends (\<open>omnistorage.go\<close>)\<close>

text \<open>
  Package \<open>omnistorage\<close> imports the packages of the built-in backends, whose \<open>init\<close> functions add
  their factories to the registry before the program starts. A backend value of the interface is one
  of the four types. The package of Dropbox has its settings only: no \<open>init\<close>, and no factory.
\<close>

datatype opened =
    MemoryValue mem_backend
  | FileValue file_backend
  | ChannelValue ch_backend
  | SftpValue sftp_backend

type_synonym 'w omni_registry = "('w, opened) registry"

definition mem_NewFromConfig :: "(string, string) gomap \<Rightarrow> mem_backend" where
  "mem_NewFromConfig config = mem_New"

definition memory_init :: "'w omni_registry \<Rightarrow> string + 'w omni_registry" where
  "memory_init = Register ''memory'' (Some (\<lambda>config w. (Inr (MemoryValue (mem_NewFromConfig config)), w)))"

definition file_init :: "'w omni_registry \<Rightarrow> string + 'w omni_registry" where
  "file_init = Register ''file'' (Some (\<lambda>config w. (Inr (FileValue (file_NewFromConfig config)), w)))"

definition channel_init :: "(string \<Rightarrow> int option) \<Rightarrow> 'w omni_registry \<Rightarrow> string + 'w omni_registry" where
  "channel_init sscanf = Register ''channel'' (Some (\<lambda>config w. (Inr (ChannelValue (ch_NewFromConfig sscanf config)), w)))"

definition sftp_factory :: "('k, 'h, 'w) ssh_libs \<Rightarrow> ('w, opened) BackendFactory" where
  "sftp_factory L config w = (case sb_NewFromConfig L config w of (r, w1) \<Rightarrow> (map_sum id SftpValue r, w1))"

definition sftp_init :: "('k, 'h, 'w) ssh_libs \<Rightarrow> 'w omni_registry \<Rightarrow> string + 'w omni_registry" where
  "sftp_init L = Register ''sftp'' (Some (sftp_factory L))"

text \<open>The packages are initialised in the order of their import paths; a panic ends the program.\<close>

fun run_inits :: "('s \<Rightarrow> string + 's) list \<Rightarrow> 's \<Rightarrow> string + 's" where
  "run_inits [] s = Inr s"
| "run_inits (f # fs) s = (case f s of Inl panic \<Rightarrow> Inl panic | Inr s1 \<Rightarrow> run_inits fs s1)"

definition omnistorage_init ::
  "(string \<Rightarrow> int option) \<Rightarrow> ('k, 'h, 'w) ssh_libs \<Rightarrow> 'w omni_registry \<Rightarrow> string + 'w omni_registry" where
  "omnistorage_init sscanf L = run_inits [channel_init sscanf, file_init, memory_init, sftp_init L]"

lemmas init_defs = channel_init_def file_init_def memory_init_def sftp_init_def

text \<open>Any order of distinct names runs through on a registry without these names.\<close>

lemma run_inits_Register:
  assumes "distinct (map fst fs)" "\<forall>n \<in> fst ` set fs. \<not> IsRegistered n r"
  shows "run_inits (map (\<lambda>(n, f). Register n (Some f)) fs) r = Inr (fold (\<lambda>(n, f). gm_put n f) fs r)"
  using assms
proof (induction fs arbitrary: r)
  case (Cons p fs)
  obtain n f where p: "p = (n, f)" by (cases p)
  then have "Register n (Some f) r = Inr (gm_put n f r)" using Cons.prems(2) by (simp add: Register_Inr)
  moreover have "\<forall>m \<in> fst ` set fs. \<not> IsRegistered m (gm_put n f r)"
    using Cons.prems p by (auto simp: IsRegistered_def gomap_simps)
  ultimately show ?case using Cons p by simp
qed simp

lemma run_inits_panics:
  assumes "n \<in> fst ` set fs" "IsRegistered n r"
  shows "\<exists>m. run_inits (map (\<lambda>(n, f). Register n (Some f)) fs) r = Inl m"
  using assms
proof (induction fs arbitrary: r)
  case (Cons p fs)
  obtain m f where p: "p = (m, f)" by (cases p)
  show ?case
  proof (cases "IsRegistered m r")
    case True
    then show ?thesis using p by (auto simp: Register_def IsRegistered_def split: option.splits)
  next
    case False
    then have "Register m (Some f) r = Inr (gm_put m f r)" by (simp add: Register_Inr)
    moreover have "IsRegistered n (gm_put m f r)" using Cons.prems(2) by (auto simp: IsRegistered_def gomap_simps)
    moreover have "n \<in> fst ` set fs" using Cons.prems False p by auto
    ultimately show ?thesis using Cons.IH p by simp
  qed
qed simp

definition built_in :: "(string \<Rightarrow> int option) \<Rightarrow> ('k, 'h, 'w) ssh_libs \<Rightarrow> (string \<times> ('w, opened) BackendFactory) list" where
  "built_in sscanf L =
     [(''channel'', \<lambda>config w. (Inr (ChannelValue (ch_NewFromConfig sscanf config)), w)),
      (''file'', \<lambda>config w. (Inr (FileValue (file_NewFromConfig config)), w)),
      (''memory'', \<lambda>config w. (Inr (MemoryValue (mem_NewFromConfig config)), w)),
      (''sftp'', sftp_factory L)]"

lemma omnistorage_init_eq:
  "omnistorage_init sscanf L = run_inits (map (\<lambda>(n, f). Register n (Some f)) (built_in sscanf L))"
  by (simp add: omnistorage_init_def built_in_def init_defs)

subsection \<open>Property\<close>

text \<open>C32: After the \<open>init\<close> functions of the package the registry has exactly the backends channel, file, memory and sftp, and \<open>Open\<close> runs the constructor of the one it is asked for on the configuration: a memory backend is empty and open, a file backend has the root and the setting of the configuration, an SFTP backend connects. Every other name is unknown, among them dropbox, which the package documentation lists. Running the initialisation on a registry that has one of the names panics.\<close>

theorem startup_backends:
  "\<exists>r. omnistorage_init sscanf L gm_empty = Inr r \<and>
    Backends r = [''channel'', ''file'', ''memory'', ''sftp''] \<and>
    Open ''memory'' config r w = (Inr (MemoryValue mem_New), w) \<and>
    Open ''file'' config r w = (Inr (FileValue (file_NewFromConfig config)), w) \<and>
    Open ''channel'' config r w = (Inr (ChannelValue (ch_NewFromConfig sscanf config)), w) \<and>
    Open ''sftp'' config r w =
      (map_sum id SftpValue (fst (sb_NewFromConfig L config w)), snd (sb_NewFromConfig L config w)) \<and>
    Open ''dropbox'' config r w = (Inl (Wrapf ''dropbox'' ErrUnknownBackend), w) \<and>
    (\<exists>m. omnistorage_init sscanf L r = Inl m)"
proof -
  let ?r = "fold (\<lambda>(n, f). gm_put n f) (built_in sscanf L) gm_empty"
  have i: "omnistorage_init sscanf L gm_empty = Inr ?r"
    unfolding omnistorage_init_eq by (rule run_inits_Register) (simp_all add: built_in_def IsRegistered_def)
  have s: "set (Backends ?r) = set [''channel'', ''file'', ''memory'', ''sftp'']"
    by (auto simp: Backends_set IsRegistered_def built_in_def gomap_simps split: if_splits)
  have "sorted [''channel'', ''file'', ''memory'', ''sftp'']" by code_simp
  then have "Backends ?r = [''channel'', ''file'', ''memory'', ''sftp'']"
    using s Backends_sorted by (intro sorted_distinct_set_unique) simp_all
  moreover have "\<exists>m. omnistorage_init sscanf L ?r = Inl m"
    unfolding omnistorage_init_eq
    by (rule run_inits_panics[of "''file''"]) (simp_all add: built_in_def IsRegistered_def gomap_simps)
  ultimately show ?thesis
    using i by (intro exI[of _ ?r])
      (simp add: built_in_def Open_def gomap_simps sftp_factory_def mem_NewFromConfig_def split_beta)
qed

end
