(* ===== verification/KvsRedis.thy ===== *)
theory KvsRedis
  imports KvsMemory
begin

section \<open>The Redis key-value store (\<open>kvs/backend/redis/redis.go\<close>)\<close>

text \<open>
  The client of \<open>github.com/redis/go-redis\<close> is a parameter: a record of its calls over the state
  \<open>'w\<close> of the connection and the server. What Redis documents of them is the locale \<open>redis_server\<close>.
  Strings are byte strings, as Redis sees them; the loop of \<open>escapeGlob\<close> reads them as UTF-8.
\<close>

subsection \<open>Configuration\<close>

record redisConfig =
  rcURL :: string
  rcKeyPrefix :: string
  rcPoolSize :: int
  rcConnectTimeout :: duration
  rcAllowInsecure :: bool

definition redis_DefaultConfig :: redisConfig where
  "redis_DefaultConfig =
     \<lparr>rcURL = [], rcKeyPrefix = [], rcPoolSize = 10, rcConnectTimeout = 5 * second, rcAllowInsecure = False\<rparr>"

text \<open>The options that \<open>redis.ParseURL\<close> returns; \<open>roTLS\<close> is \<open>InsecureSkipVerify\<close> of \<open>TLSConfig\<close>, \<open>None\<close> for no TLS.\<close>

record redisOptions =
  roNetwork :: string
  roAddr :: string
  roTLS :: "bool option"
  roPassword :: string
  roPoolSize :: int

datatype redis_error =
    RedisURLRequired
  | InvalidURL string
  | ErrInsecureConnection string
  | RedisConnection string

text \<open>The host of \<open>net.SplitHostPort\<close>; \<open>None\<close> is an error. An address in brackets is followed by a colon and the port.\<close>

definition SplitHostPort :: "string \<Rightarrow> string option" where
  "SplitHostPort hostport =
     (if CHR '':'' \<notin> set hostport then None
      else let port = rev (takeWhile (\<lambda>ch. ch \<noteq> CHR '':'') (rev hostport));
               before = take (length hostport - length port - 1) hostport
           in if hd hostport = CHR ''['' then
                (let host = takeWhile (\<lambda>ch. ch \<noteq> CHR '']'') (tl hostport);
                     rest = drop (length host + 1) hostport
                 in if rest \<noteq> CHR '']'' # CHR '':'' # port then None
                    else if CHR ''['' \<in> set (tl hostport) \<or> CHR '']'' \<in> set port then None
                    else Some host)
              else if CHR '':'' \<in> set before \<or> CHR ''['' \<in> set hostport \<or> CHR '']'' \<in> set hostport then None
              else Some before)"

text \<open>\<open>loopback h\<close> is \<open>ip := net.ParseIP(h); ip != nil && ip.IsLoopback()\<close>.\<close>

definition checkSecure :: "(string \<Rightarrow> bool) \<Rightarrow> redisOptions \<Rightarrow> redis_error option" where
  "checkSecure loopback opt =
     (if roNetwork opt = ''unix'' then None
      else let host = (case SplitHostPort (roAddr opt) of Some h \<Rightarrow> h | None \<Rightarrow> roAddr opt)
           in if host = ''localhost'' then None
              else if loopback host then None
              else (case roTLS opt of
                      None \<Rightarrow> Some (ErrInsecureConnection (host @ '' does not use TLS''))
                    | Some skipVerify \<Rightarrow>
                        if skipVerify then Some (ErrInsecureConnection (host @ '' skips TLS certificate verification''))
                        else if roPassword opt = [] then Some (ErrInsecureConnection (host @ '' has no password''))
                        else None))"

subsection \<open>The client and the store\<close>

datatype redis_reply = RedisNil | RedisErr string

record 'w redis_client =
  rdGet :: "string \<Rightarrow> 'w \<Rightarrow> (redis_reply + bytes) \<times> 'w"
  rdSet :: "string \<Rightarrow> bytes \<Rightarrow> duration \<Rightarrow> 'w \<Rightarrow> string option \<times> 'w"
  rdDel :: "string \<Rightarrow> 'w \<Rightarrow> string option \<times> 'w"
  rdScan :: "nat \<Rightarrow> string \<Rightarrow> int \<Rightarrow> 'w \<Rightarrow> (string + string list \<times> nat) \<times> 'w"
  rdClose :: "'w \<Rightarrow> kvs_error option \<times> 'w"

record 'c redis_store =
  rsClient :: 'c
  rsKeyPrefix :: string
  rsClosed :: bool

text \<open>\<open>ping\<close> is \<open>Ping\<close> of a new client, with the time it may take.\<close>

definition rs_New ::
  "(string \<Rightarrow> string + redisOptions) \<Rightarrow> (string \<Rightarrow> bool) \<Rightarrow> (redisOptions \<Rightarrow> 'c) \<Rightarrow> ('c \<Rightarrow> duration \<Rightarrow> string option) \<Rightarrow>
   redisConfig \<Rightarrow> redis_error + 'c redis_store" where
  "rs_New ParseURL loopback NewClient ping cfg =
     (if rcURL cfg = [] then Inl RedisURLRequired
      else (case ParseURL (rcURL cfg) of
              Inl m \<Rightarrow> Inl (InvalidURL m)
            | Inr opt \<Rightarrow>
                (case (if \<not> rcAllowInsecure cfg then checkSecure loopback opt else None) of
                   Some e \<Rightarrow> Inl e
                 | None \<Rightarrow>
                     let opt' = (if rcPoolSize cfg > 0 then opt\<lparr>roPoolSize := rcPoolSize cfg\<rparr> else opt);
                         client = NewClient opt';
                         timeout = (if rcConnectTimeout cfg = 0 then 5 * second else rcConnectTimeout cfg)
                     in case ping client timeout of
                          Some m \<Rightarrow> Inl (RedisConnection m)
                        | None \<Rightarrow> Inr \<lparr>rsClient = client, rsKeyPrefix = rcKeyPrefix cfg, rsClosed = False\<rparr>)))"

definition rs_key :: "'c redis_store \<Rightarrow> string \<Rightarrow> string" where
  "rs_key s k = rsKeyPrefix s @ k"

definition rs_Get :: "string \<Rightarrow> 'w redis_client redis_store \<Rightarrow> 'w \<Rightarrow> (kvs_error + bytes) \<times> 'w" where
  "rs_Get key s w =
     (if rsClosed s then (Inl KvsClosed, w)
      else (case rdGet (rsClient s) (rs_key s key) w of
              (Inl RedisNil, w1) \<Rightarrow> (Inl KvsNotFound, w1)
            | (Inl (RedisErr m), w1) \<Rightarrow> (Inl (KvsOther (''redis get: '' @ m)), w1)
            | (Inr data, w1) \<Rightarrow> (Inr data, w1)))"

definition rs_Set :: "string \<Rightarrow> bytes \<Rightarrow> duration \<Rightarrow> 'w redis_client redis_store \<Rightarrow> 'w \<Rightarrow> kvs_error option \<times> 'w" where
  "rs_Set key v ttl s w =
     (if rsClosed s then (Some KvsClosed, w)
      else (case rdSet (rsClient s) (rs_key s key) v ttl w of
              (Some m, w1) \<Rightarrow> (Some (KvsOther (''redis set: '' @ m)), w1)
            | (None, w1) \<Rightarrow> (None, w1)))"

definition rs_Delete :: "string \<Rightarrow> 'w redis_client redis_store \<Rightarrow> 'w \<Rightarrow> kvs_error option \<times> 'w" where
  "rs_Delete key s w =
     (if rsClosed s then (Some KvsClosed, w)
      else (case rdDel (rsClient s) (rs_key s key) w of
              (Some m, w1) \<Rightarrow> (Some (KvsOther (''redis delete: '' @ m)), w1)
            | (None, w1) \<Rightarrow> (None, w1)))"

text \<open>
  The length of the UTF-8 encoding at the start of a string, 0 if there is none: what the range loop
  over a string decodes.
\<close>

definition cont :: "nat \<Rightarrow> nat \<Rightarrow> string \<Rightarrow> nat \<Rightarrow> bool" where
  "cont lo hi s i \<longleftrightarrow> i < length s \<and> lo \<le> of_char (s ! i) \<and> of_char (s ! i) \<le> hi"

definition utf8_len :: "string \<Rightarrow> nat" where
  "utf8_len s =
     (let b = (of_char (hd s) :: nat)
      in if b < 128 then 1
         else if 194 \<le> b \<and> b \<le> 223 \<and> cont 128 191 s 1 then 2
         else if 224 \<le> b \<and> b \<le> 239 \<and> cont (if b = 224 then 160 else 128) (if b = 237 then 159 else 191) s 1 \<and> cont 128 191 s 2 then 3
         else if 240 \<le> b \<and> b \<le> 244 \<and> cont (if b = 240 then 144 else 128) (if b = 244 then 143 else 191) s 1 \<and>
           cont 128 191 s 2 \<and> cont 128 191 s 3 then 4
         else 0)"

definition glob_special :: "char \<Rightarrow> bool" where
  "glob_special ch \<longleftrightarrow> ch \<in> set [CHR 0x5C, CHR ''*'', CHR ''?'', CHR ''['', CHR '']'']"

text \<open>A byte that is not UTF-8 is decoded, and then written, as the replacement character U+FFFD.\<close>

definition replacement :: string where
  "replacement = [CHR 0xEF, CHR 0xBF, CHR 0xBD]"

function escapeGlob :: "string \<Rightarrow> string" where
  "escapeGlob [] = []"
| "escapeGlob (a # t) =
     (let n = utf8_len (a # t)
      in if n = 0 then replacement @ escapeGlob t
         else (if glob_special a then [CHR 0x5C] else []) @ take n (a # t) @ escapeGlob (drop n (a # t)))"
  by pat_completeness auto
termination by (relation "measure length") auto

text \<open>
  The loop of \<open>List\<close>: it asks for batches until the cursor is 0, which the server decides; \<open>None\<close> is
  the end of the fuel.
\<close>

fun scan_loop :: "nat \<Rightarrow> 'w redis_client redis_store \<Rightarrow> string \<Rightarrow> string \<Rightarrow> nat \<Rightarrow> string list \<Rightarrow> 'w \<Rightarrow>
    ((kvs_error + string list) \<times> 'w) option" where
  "scan_loop 0 s fullPrefix pattern cursor keys w = None"
| "scan_loop (Suc f) s fullPrefix pattern cursor keys w =
     (case rdScan (rsClient s) cursor pattern 100 w of
        (Inl m, w1) \<Rightarrow> Some (Inl (KvsOther (''redis scan: '' @ m)), w1)
      | (Inr (scanKeys, cursor1), w1) \<Rightarrow>
          let keys1 = keys @ map (drop (length (rsKeyPrefix s)))
                (filter (\<lambda>k. has_prefix k fullPrefix \<and> length k > length (rsKeyPrefix s)) scanKeys)
          in if cursor1 = 0 then Some (Inr keys1, w1)
             else scan_loop f s fullPrefix pattern cursor1 keys1 w1)"

definition rs_List :: "nat \<Rightarrow> string \<Rightarrow> 'w redis_client redis_store \<Rightarrow> 'w \<Rightarrow> ((kvs_error + string list) \<times> 'w) option" where
  "rs_List f pre s w =
     (if rsClosed s then Some (Inl KvsClosed, w)
      else let fullPrefix = rs_key s pre; pattern = escapeGlob fullPrefix @ ''*''
           in scan_loop f s fullPrefix pattern 0 [] w)"

definition rs_Close :: "'w redis_client redis_store \<Rightarrow> 'w \<Rightarrow> kvs_error option \<times> 'w redis_client redis_store \<times> 'w" where
  "rs_Close s w =
     (if rsClosed s then (None, s, w)
      else (case rdClose (rsClient s) w of (e, w1) \<Rightarrow> (e, s\<lparr>rsClosed := True\<rparr>, w1)))"

definition rs_Client :: "'c redis_store \<Rightarrow> 'c" where
  "rs_Client s = rsClient s"

subsection \<open>Patterns\<close>

text \<open>A string whose every character is the start of a valid encoding, or inside of one.\<close>

function valid_utf8 :: "string \<Rightarrow> bool" where
  "valid_utf8 [] \<longleftrightarrow> True"
| "valid_utf8 (a # t) \<longleftrightarrow>
     (let n = utf8_len (a # t) in n \<noteq> 0 \<and> valid_utf8 (drop (max 1 n) (a # t)))"
  by pat_completeness auto
termination by (relation "measure length") auto

definition escape_byte :: "char \<Rightarrow> string" where
  "escape_byte ch = (if glob_special ch then [CHR 0x5C, ch] else [ch])"

lemma utf8_tail:
  assumes "utf8_len (a # t) \<noteq> 0"
  shows "\<forall>ch \<in> set (take (utf8_len (a # t) - 1) t). \<not> glob_special ch"
    "1 < utf8_len (a # t) \<Longrightarrow> \<not> glob_special a"
proof -
  have special: "(of_char ch :: nat) < 128" if "glob_special ch" for ch using that by (auto simp: glob_special_def)
  have "utf8_len (a # t) \<le> 4 \<and> (\<forall>i \<in> {1, 2, 3}. i < utf8_len (a # t) \<longrightarrow> 128 \<le> (of_char ((a # t) ! i) :: nat))"
    by (auto simp: utf8_len_def Let_def cont_def)
  then have "\<not> glob_special (t ! i)" if "i < utf8_len (a # t) - 1" for i
    using that special[of "t ! i"] by (cases "i = 0"; cases "i = 1"; cases "i = 2") (auto simp: numeral_3_eq_3 numeral_2_eq_2)
  then show "\<forall>ch \<in> set (take (utf8_len (a # t) - 1) t). \<not> glob_special ch"
    by (fastforce simp: in_set_conv_nth)
  show "\<not> glob_special a" if "1 < utf8_len (a # t)"
    using that special[of a] by (auto simp: utf8_len_def Let_def split: if_splits)
qed

lemma plain_bytes: "\<forall>ch \<in> set xs. \<not> glob_special ch \<Longrightarrow> concat (map escape_byte xs) = xs"
  by (induction xs) (auto simp: escape_byte_def)

text \<open>On valid UTF-8 the escaping is byte by byte.\<close>

lemma escapeGlob_valid: "valid_utf8 s \<Longrightarrow> escapeGlob s = concat (map escape_byte s)"
proof (induction s rule: escapeGlob.induct)
  case (2 a t)
  let ?n = "utf8_len (a # t)"
  have n: "?n \<noteq> 0" "valid_utf8 (drop ?n (a # t))" using 2(3) by (auto simp: Let_def max_def split: if_splits)
  obtain m where m: "?n = Suc m" using n(1) by (cases ?n) auto
  have IH: "escapeGlob (drop m t) = concat (map escape_byte (drop m t))"
    using 2(2)[OF refl n(1)] n(2) by (simp add: m)
  have rest: "concat (map escape_byte (take m t)) = take m t"
    using utf8_tail(1)[OF n(1)] by (intro plain_bytes) (simp add: m)
  have "escapeGlob (a # t) = escape_byte a @ take m t @ escapeGlob (drop m t)"
    by (simp add: Let_def m escape_byte_def)
  also have "\<dots> = escape_byte a @ concat (map escape_byte (take m t)) @ concat (map escape_byte (drop m t))"
    unfolding IH rest ..
  also have "\<dots> = concat (map escape_byte (a # t))"
    by (simp flip: concat_append map_append)
  finally show ?case .
qed simp

text \<open>What Redis documents of patterns, as far as the store relies on it.\<close>

locale redis_glob =
  fixes glob :: "string \<Rightarrow> string \<Rightarrow> bool"
  assumes glob_star: "glob ''*'' s"
    and glob_plain: "ch \<notin> {CHR 0x5C, CHR ''*'', CHR ''?'', CHR ''[''} \<Longrightarrow> glob (ch # p) s \<longleftrightarrow> (\<exists>t. s = ch # t \<and> glob p t)"
    and glob_escaped: "glob (CHR 0x5C # ch # p) s \<longleftrightarrow> (\<exists>t. s = ch # t \<and> glob p t)"
begin

lemma glob_prefix: "glob (concat (map escape_byte p) @ ''*'') s \<longleftrightarrow> has_prefix s p"
proof (induction p arbitrary: s)
  case (Cons ch p)
  have "glob (concat (map escape_byte (ch # p)) @ ''*'') s \<longleftrightarrow> (\<exists>t. s = ch # t \<and> has_prefix t p)"
    by (simp add: glob_plain glob_escaped escape_byte_def[of ch] glob_special_def Cons.IH)
  then show ?case by (cases s) (auto simp: has_prefix_def)
qed (simp add: glob_star)

end

subsection \<open>What the server does\<close>

text \<open>An iteration of \<open>SCAN\<close> from a cursor until the server returns the cursor 0.\<close>

fun scans :: "'w redis_client \<Rightarrow> string \<Rightarrow> nat \<Rightarrow> 'w \<Rightarrow> string list list \<Rightarrow> 'w \<Rightarrow> bool" where
  "scans c pattern cursor w [] w' \<longleftrightarrow> False"
| "scans c pattern cursor w (ks # kss) w' \<longleftrightarrow>
     (case rdScan c cursor pattern 100 w of
        (Inl m, w1) \<Rightarrow> False
      | (Inr (ks1, cursor1), w1) \<Rightarrow>
          ks1 = ks \<and> (if cursor1 = 0 then kss = [] \<and> w1 = w' else scans c pattern cursor1 w1 kss w'))"

text \<open>
  \<open>live w k\<close> is the value of a key. A full iteration of \<open>SCAN\<close> on a database that is not changed
  returns every key that matches, possibly more than once, and no other, and it ends. \<open>SET\<close> replaces
  a value; a time to live only matters once it has passed.
\<close>

locale redis_server = redis_glob glob
  for glob :: "string \<Rightarrow> string \<Rightarrow> bool" +
  fixes c :: "'w redis_client"
    and live :: "'w \<Rightarrow> string \<Rightarrow> bytes option"
  assumes redis_get: "\<exists>w1. rdGet c k w = ((case live w k of None \<Rightarrow> Inl RedisNil | Some v \<Rightarrow> Inr v), w1) \<and> live w1 = live w"
    and redis_set: "0 \<le> ttl \<Longrightarrow> \<exists>w1. rdSet c k v ttl w = (None, w1) \<and> live w1 = (live w)(k \<mapsto> v)"
    and redis_del: "\<exists>w1. rdDel c k w = (None, w1) \<and> live w1 = (live w)(k := None)"
    and redis_scan: "\<exists>kss w1. scans c pattern 0 w kss w1 \<and> live w1 = live w \<and>
          set (concat kss) = {k. live w k \<noteq> None \<and> glob pattern k}"
begin

lemma scan_loop_scans:
  assumes "rsClient s = c" "scans c pattern cursor w kss w'" "length kss \<le> f"
  shows "scan_loop f s full pattern cursor keys w =
    Some (Inr (keys @ map (drop (length (rsKeyPrefix s)))
      (filter (\<lambda>k. has_prefix k full \<and> length k > length (rsKeyPrefix s)) (concat kss))), w')"
  using assms
proof (induction kss arbitrary: f cursor keys w)
  case (Cons ks kss)
  obtain f1 where f: "f = Suc f1" using Cons.prems(3) by (cases f) auto
  obtain cursor1 w1 where r: "rdScan c cursor pattern 100 w = (Inr (ks, cursor1), w1)"
    "if cursor1 = 0 then kss = [] \<and> w1 = w' else scans c pattern cursor1 w1 kss w'"
    using Cons.prems(2) by (auto split: prod.splits sum.splits)
  show ?case
  proof (cases "cursor1 = 0")
    case True
    then show ?thesis using r Cons.prems(1) by (simp add: f Let_def)
  next
    case False
    then show ?thesis using r Cons.prems Cons.IH[of cursor1 w1 f1] by (simp add: f Let_def)
  qed
qed simp

lemma List_keys:
  assumes "rsClient s = c" "\<not> rsClosed s" "valid_utf8 (rsKeyPrefix s @ p)"
  shows "\<exists>n ks w1. (\<forall>f \<ge> n. rs_List f p s w = Some (Inr ks, w1)) \<and> live w1 = live w \<and>
    set ks = {k. k \<noteq> [] \<and> has_prefix k p \<and> live w (rsKeyPrefix s @ k) \<noteq> None}"
proof -
  let ?full = "rsKeyPrefix s @ p" and ?pattern = "escapeGlob (rsKeyPrefix s @ p) @ ''*''"
  obtain kss w1 where k: "scans c ?pattern 0 w kss w1" "live w1 = live w"
    "set (concat kss) = {k. live w k \<noteq> None \<and> glob ?pattern k}"
    using redis_scan by blast
  have g: "glob ?pattern k \<longleftrightarrow> has_prefix k ?full" for k
    by (simp only: escapeGlob_valid[OF assms(3)] glob_prefix)
  let ?ks = "map (drop (length (rsKeyPrefix s))) (filter (\<lambda>k. has_prefix k ?full \<and> length k > length (rsKeyPrefix s)) (concat kss))"
  have "rs_List f p s w = Some (Inr ?ks, w1)" if "length kss \<le> f" for f
    using scan_loop_scans[OF assms(1) k(1) that, of ?full "[]"] assms(2) by (simp add: rs_List_def rs_key_def Let_def)
  moreover have "set ?ks = {k. k \<noteq> [] \<and> has_prefix k p \<and> live w (rsKeyPrefix s @ k) \<noteq> None}"
  proof -
    have "k \<in> set ?ks \<longleftrightarrow> (\<exists>q. q \<in> set (concat kss) \<and> has_prefix q ?full \<and> length q > length (rsKeyPrefix s) \<and> k = drop (length (rsKeyPrefix s)) q)" for k
      by auto
    then have "k \<in> set ?ks \<longleftrightarrow> k \<noteq> [] \<and> has_prefix k p \<and> live w (rsKeyPrefix s @ k) \<noteq> None" for k
      unfolding k(3) g by (auto simp: has_prefix_def prefix_def)
    then show ?thesis by blast
  qed
  ultimately show ?thesis using k(2) by (intro exI[of _ "length kss"]) blast
qed

end

subsection \<open>A server in memory\<close>

text \<open>The documented patterns, without the classes in brackets.\<close>

fun glob_match :: "string \<Rightarrow> string \<Rightarrow> bool" where
  "glob_match [] s \<longleftrightarrow> s = []"
| "glob_match (ch # p) s \<longleftrightarrow>
     (if ch = CHR ''*'' then glob_match p s \<or> (case s of [] \<Rightarrow> False | d # t \<Rightarrow> glob_match (ch # p) t)
      else if ch = CHR 0x5C \<and> p \<noteq> []
      then (case s of [] \<Rightarrow> False | d # t \<Rightarrow> d = hd p \<and> glob_match (tl p) t)
      else (case s of [] \<Rightarrow> False | d # t \<Rightarrow> (ch = CHR ''?'' \<or> d = ch) \<and> glob_match p t))"

lemma glob_match_star: "glob_match ''*'' s"
  by (induction s) simp_all

text \<open>The memory key-value store with a clock behind the calls of the client, which returns all keys in one batch.\<close>

abbreviation mem_of :: "(string, kv_entry) gomap \<Rightarrow> kv_mem" where
  "mem_of m \<equiv> \<lparr>kvData = m, kvClosed = False\<rparr>"

definition mem_client :: "(nat \<times> (string, kv_entry) gomap) redis_client" where
  "mem_client =
     \<lparr>rdGet = \<lambda>k (t, m). ((case kvm_Get (int t) k (mem_of m) of Inr v \<Rightarrow> Inr v | Inl _ \<Rightarrow> Inl RedisNil), (t, m)),
      rdSet = \<lambda>k v ttl (t, m). (None, (t, kvData (snd (kvm_Set (int t) k v ttl (mem_of m))))),
      rdDel = \<lambda>k (t, m). (None, (t, kvData (snd (kvm_Delete k (mem_of m))))),
      rdScan = \<lambda>cursor pattern count (t, m).
        (Inr (filter (glob_match pattern) (kvm_list_loop (int t) [] (gm_entries m) []), 0), (t, m)),
      rdClose = Pair None\<rparr>"

definition mem_client_live :: "nat \<times> (string, kv_entry) gomap \<Rightarrow> string \<Rightarrow> bytes option" where
  "mem_client_live w = kvm_live (int (fst w)) (mem_of (snd w))"

interpretation mc: redis_server glob_match mem_client mem_client_live
proof
  show "glob_match ''*'' s" for s by (rule glob_match_star)
  show "glob_match (ch # p) s \<longleftrightarrow> (\<exists>t. s = ch # t \<and> glob_match p t)" if "ch \<notin> {CHR 0x5C, CHR ''*'', CHR ''?'', CHR ''[''}" for ch p s
    using that by (cases s) auto
  show "glob_match (CHR 0x5C # ch # p) s \<longleftrightarrow> (\<exists>t. s = ch # t \<and> glob_match p t)" for ch p s
    by (cases s) auto
  show "\<exists>w1. rdGet mem_client k w = ((case mem_client_live w k of None \<Rightarrow> Inl RedisNil | Some v \<Rightarrow> Inr v), w1) \<and>
      mem_client_live w1 = mem_client_live w" for k w
    by (cases w) (simp add: mem_client_def mem_client_live_def kvm_Get_live split: option.split)
  show "\<exists>w1. rdSet mem_client k v ttl w = (None, w1) \<and> mem_client_live w1 = (mem_client_live w)(k \<mapsto> v)" if "0 \<le> ttl" for k v ttl w
  proof (cases w)
    case (Pair t m)
    have "mem_of (kvData (snd (kvm_Set (int t) k v ttl (mem_of m)))) = snd (kvm_Set (int t) k v ttl (mem_of m))"
      by (simp add: kvm_Set_def Let_def)
    then show ?thesis
      using Pair kvm_live_Set[of "mem_of m" "int t" "int t" k v ttl] that
      by (simp add: mem_client_def mem_client_live_def kvm_lasts_def)
  qed
  show "\<exists>w1. rdDel mem_client k w = (None, w1) \<and> mem_client_live w1 = (mem_client_live w)(k := None)" for k w
  proof (cases w)
    case (Pair t m)
    have "mem_of (kvData (snd (kvm_Delete k (mem_of m)))) = snd (kvm_Delete k (mem_of m))" by (simp add: kvm_Delete_def)
    then show ?thesis
      using Pair kvm_live_Delete[of "mem_of m" "int t" k] by (simp add: mem_client_def mem_client_live_def)
  qed
  show "\<exists>kss w1. scans mem_client pattern 0 w kss w1 \<and> mem_client_live w1 = mem_client_live w \<and>
      set (concat kss) = {k. mem_client_live w k \<noteq> None \<and> glob_match pattern k}" for pattern w
  proof (cases w)
    case (Pair t m)
    let ?ks = "filter (glob_match pattern) (kvm_list_loop (int t) [] (gm_entries m) [])"
    have "set ?ks = {k. mem_client_live w k \<noteq> None \<and> glob_match pattern k}"
      using kvm_list_loop_set[of _ "int t" "[]" "mem_of m"] Pair by (auto simp: mem_client_live_def)
    then show ?thesis using Pair by (intro exI[of _ "[?ks]"] exI[of _ w]) (simp add: mem_client_def)
  qed
qed

subsection \<open>Properties\<close>

text \<open>C27: \<open>List\<close> ends, changes nothing, and returns exactly the keys of the database below the store's prefix that begin with the prefix asked for, whatever pattern characters the two contain: the escaped pattern of a UTF-8 text matches itself only. Only the empty key is never listed, although it can be set. A key may be returned more than once, as \<open>SCAN\<close> may.\<close>

theorem redis_list_exact:
  assumes "redis_server glob c live" and "rsClient s = c" and "\<not> rsClosed s" and "valid_utf8 (rsKeyPrefix s @ p)"
  shows "\<exists>n ks w1. (\<forall>f \<ge> n. rs_List f p s w = Some (Inr ks, w1)) \<and> live w1 = live w \<and>
    set ks = {k. k \<noteq> [] \<and> has_prefix k p \<and> live w (rsKeyPrefix s @ k) \<noteq> None}"
  by (rule redis_server.List_keys[OF assms])

text \<open>A prefix that ends in a star lists only the key that has the star.\<close>

definition sample_rs :: "(nat \<times> (string, kv_entry) gomap) redis_client redis_store" where
  "sample_rs = \<lparr>rsClient = mem_client, rsKeyPrefix = ''app:'', rsClosed = False\<rparr>"

definition sample_rs_world :: "nat \<times> (string, kv_entry) gomap" where
  "sample_rs_world = (7, gm_put ''app:u*1'' \<lparr>kvValue = [1], kvExpiresAt = 0\<rparr> (gm_put ''app:ux1'' \<lparr>kvValue = [2], kvExpiresAt = 0\<rparr> gm_empty))"

theorem redis_list_exact_witness:
  "\<exists>f ks w1. rs_List f ''u*'' sample_rs sample_rs_world = Some (Inr ks, w1) \<and> set ks = {''u*1''}"
proof -
  have v: "valid_utf8 (rsKeyPrefix sample_rs @ ''u*'')" by code_simp
  have s: "rsClient sample_rs = mem_client" "\<not> rsClosed sample_rs" by (simp_all add: sample_rs_def)
  obtain n ks w1 where l: "\<forall>f \<ge> n. rs_List f ''u*'' sample_rs sample_rs_world = Some (Inr ks, w1)"
    "set ks = {k. k \<noteq> [] \<and> has_prefix k ''u*'' \<and> mem_client_live sample_rs_world (rsKeyPrefix sample_rs @ k) \<noteq> None}"
    using redis_list_exact[OF mc.redis_server_axioms s v] by blast
  have "set ks = {''u*1''}"
    by (auto simp: l(2) has_prefix_def mem_client_live_def sample_rs_world_def sample_rs_def kvm_live_def gomap_simps
        kv_expired_def is_zero_time_def split: if_splits)
  then show ?thesis using l(1) by blast
qed

text \<open>A value that is set is read back, and no key outside of the store's own changes.\<close>

theorem redis_set_get:
  assumes "redis_server glob c live" and "rsClient s = c" and "\<not> rsClosed s" and "0 \<le> ttl"
  shows "\<exists>w1. rs_Set k v ttl s w = (None, w1) \<and> fst (rs_Get k s w1) = Inr v \<and>
    (\<forall>q. live w1 q = (if q = rsKeyPrefix s @ k then Some v else live w q))"
proof -
  obtain w1 where w1: "rdSet c (rsKeyPrefix s @ k) v ttl w = (None, w1)" "live w1 = (live w)(rsKeyPrefix s @ k \<mapsto> v)"
    using redis_server.redis_set[OF assms(1,4)] by blast
  obtain w2 where "rdGet c (rsKeyPrefix s @ k) w1 = (Inr v, w2)"
    using redis_server.redis_get[OF assms(1), of "rsKeyPrefix s @ k" w1] w1(2) by auto
  then show ?thesis using w1 assms(2,3) by (intro exI[of _ w1]) (simp add: rs_Set_def rs_Get_def rs_key_def)
qed

theorem redis_set_get_witness:
  "\<exists>w1. rs_Set ''k'' [5] 0 sample_rs sample_rs_world = (None, w1) \<and> fst (rs_Get ''k'' sample_rs w1) = Inr [5]"
  using redis_set_get[OF mc.redis_server_axioms, of sample_rs 0 "''k''" "[5]" sample_rs_world]
  by (auto simp: sample_rs_def)

text \<open>Unless insecure connections are allowed, \<open>New\<close> only returns a store whose server is on a Unix socket or on the machine itself, or is reached over TLS with a verified certificate and a password.\<close>

theorem redis_new_secure:
  assumes "rs_New ParseURL loopback NewClient ping cfg = Inr s" and "\<not> rcAllowInsecure cfg"
  shows "\<exists>opt pool. ParseURL (rcURL cfg) = Inr opt \<and> rsClient s = NewClient (opt\<lparr>roPoolSize := pool\<rparr>) \<and>
    (roNetwork opt = ''unix'' \<or>
     (\<exists>host. (SplitHostPort (roAddr opt) = Some host \<or> SplitHostPort (roAddr opt) = None \<and> host = roAddr opt) \<and>
        (host = ''localhost'' \<or> loopback host)) \<or>
     roTLS opt = Some False \<and> roPassword opt \<noteq> [])"
proof -
  obtain opt where o: "ParseURL (rcURL cfg) = Inr opt" "checkSecure loopback opt = None"
    and s: "rsClient s = NewClient (if rcPoolSize cfg > 0 then opt\<lparr>roPoolSize := rcPoolSize cfg\<rparr> else opt)"
    using assms by (auto simp: rs_New_def Let_def split: if_splits sum.splits option.splits)
  have p: "(if rcPoolSize cfg > 0 then opt\<lparr>roPoolSize := rcPoolSize cfg\<rparr> else opt) =
      opt\<lparr>roPoolSize := (if rcPoolSize cfg > 0 then rcPoolSize cfg else roPoolSize opt)\<rparr>" by simp
  have "roNetwork opt = ''unix'' \<or>
     (\<exists>host. (SplitHostPort (roAddr opt) = Some host \<or> SplitHostPort (roAddr opt) = None \<and> host = roAddr opt) \<and>
        (host = ''localhost'' \<or> loopback host)) \<or>
     roTLS opt = Some False \<and> roPassword opt \<noteq> []"
    using o(2) by (auto simp: checkSecure_def Let_def split: if_splits option.splits)
  then show ?thesis using o(1) s unfolding p by blast
qed

text \<open>A remote server over verified TLS with a password, and addresses with and without a port.\<close>

theorem redis_new_secure_witness:
  "(\<exists>pool. rsClient (projr (rs_New (\<lambda>u. Inr \<lparr>roNetwork = ''tcp'', roAddr = u, roTLS = Some False, roPassword = ''p'', roPoolSize = 0\<rparr>)
        (\<lambda>_. False) id (\<lambda>_ _. None) (redis_DefaultConfig\<lparr>rcURL := ''r:1''\<rparr>))) =
      \<lparr>roNetwork = ''tcp'', roAddr = ''r:1'', roTLS = Some False, roPassword = ''p'', roPoolSize = pool\<rparr>) \<and>
   SplitHostPort ''[::1]:6379'' = Some ''::1'' \<and> SplitHostPort ''::1'' = None \<and> SplitHostPort ''localhost:6379'' = Some ''localhost''"
proof -
  let ?parse = "\<lambda>u. Inr \<lparr>roNetwork = ''tcp'', roAddr = u, roTLS = Some False, roPassword = ''p'', roPoolSize = 0\<rparr> :: string + redisOptions"
  let ?cfg = "redis_DefaultConfig\<lparr>rcURL := ''r:1''\<rparr>"
  have "rs_New ?parse (\<lambda>_. False) id (\<lambda>_ _. None) ?cfg =
      Inr \<lparr>rsClient = \<lparr>roNetwork = ''tcp'', roAddr = ''r:1'', roTLS = Some False, roPassword = ''p'', roPoolSize = 10\<rparr>,
        rsKeyPrefix = [], rsClosed = False\<rparr>" by code_simp
  note n = this redis_new_secure[OF this]
  have "SplitHostPort ''[::1]:6379'' = Some ''::1''" "SplitHostPort ''::1'' = None" "SplitHostPort ''localhost:6379'' = Some ''localhost''"
    by code_simp+
  then show ?thesis using n by (auto simp: redis_DefaultConfig_def)
qed

text \<open>A prefix that is not UTF-8 is replaced in the pattern, which then matches none of its keys.\<close>

theorem redis_not_utf8: "escapeGlob [CHR 0xFF] = [CHR 0xEF, CHR 0xBF, CHR 0xBD]" "\<not> valid_utf8 [CHR 0xFF]"
  by code_simp+

end
