(* ===== verification/KvsSqlite.thy ===== *)
theory KvsSqlite
  imports SessionKvs FileBackend
begin

section \<open>The SQLite key-value store (\<open>kvs/backend/sqlite/sqlite.go\<close>)\<close>

text \<open>
  The statements that the store sends are translated to operations on the table \<open>kv\<close>, a map from the
  primary key to a row. What the source leaves to the database is a parameter: whether a call fails
  (\<open>dbFail\<close> and \<open>dbRowsEnd\<close>, by the number of the call) and how \<open>LIKE\<close> matches (the argument
  \<open>like\<close>); its documented behaviour is the locale \<open>sql_like\<close>. A time in the table is in whole
  seconds (\<open>Unix\<close>).
\<close>

subsection \<open>The table\<close>

record sql_row =
  rwValue :: bytes
  rwExpiresAt :: "int option"

datatype rows_end = RowsDone | ScanFailed string | RowsFailed string

record sql_db =
  dbRows :: "(string, sql_row) gomap"
  dbCalls :: nat
  dbFail :: "nat \<Rightarrow> string option"
  dbRowsEnd :: "nat \<Rightarrow> rows_end"
  dbOpen :: bool

definition sql_call :: "sql_db \<Rightarrow> string option \<times> sql_db" where
  "sql_call db = (dbFail db (dbCalls db), db\<lparr>dbCalls := dbCalls db + 1\<rparr>)"

text \<open>Seconds since 1970; the zero time is the first of January of the year 1.\<close>

definition Unix :: "time \<Rightarrow> int" where
  "Unix t = t div second - 62135596800"

text \<open>\<open>SELECT value, expires_at FROM kv WHERE key = ?\<close>\<close>

definition select_value :: "string \<Rightarrow> sql_db \<Rightarrow> (string + sql_row option) \<times> sql_db" where
  "select_value key db =
     (case sql_call db of
        (Some m, db1) \<Rightarrow> (Inl m, db1)
      | (None, db1) \<Rightarrow> (Inr (gm_get (dbRows db) key), db1))"

text \<open>\<open>INSERT INTO kv ... ON CONFLICT(key) DO UPDATE SET value = excluded.value, expires_at = excluded.expires_at\<close>\<close>

definition upsert :: "string \<Rightarrow> bytes \<Rightarrow> int option \<Rightarrow> sql_db \<Rightarrow> string option \<times> sql_db" where
  "upsert key v expiresAt db =
     (case sql_call db of
        (Some m, db1) \<Rightarrow> (Some m, db1)
      | (None, db1) \<Rightarrow> (None, db1\<lparr>dbRows := gm_put key \<lparr>rwValue = v, rwExpiresAt = expiresAt\<rparr> (dbRows db1)\<rparr>))"

text \<open>\<open>DELETE FROM kv WHERE key = ?\<close>\<close>

definition delete_key :: "string \<Rightarrow> sql_db \<Rightarrow> string option \<times> sql_db" where
  "delete_key key db =
     (case sql_call db of
        (Some m, db1) \<Rightarrow> (Some m, db1)
      | (None, db1) \<Rightarrow> (None, db1\<lparr>dbRows := gm_del key (dbRows db1)\<rparr>))"

text \<open>\<open>SELECT key FROM kv WHERE (... AND) (expires_at IS NULL OR expires_at > ?) ORDER BY key\<close>\<close>

definition select_keys :: "(string \<Rightarrow> bool) \<Rightarrow> int \<Rightarrow> sql_db \<Rightarrow> (string + string list) \<times> sql_db" where
  "select_keys cond now db =
     (case sql_call db of
        (Some m, db1) \<Rightarrow> (Inl m, db1)
      | (None, db1) \<Rightarrow>
          (Inr (sort (map fst (filter (\<lambda>(k, r). cond k \<and> (case rwExpiresAt r of None \<Rightarrow> True | Some e \<Rightarrow> e > now))
             (gm_entries (dbRows db1))))), db1))"

text \<open>\<open>DELETE FROM kv WHERE expires_at IS NOT NULL AND expires_at < ?\<close>\<close>

definition delete_expired :: "int \<Rightarrow> sql_db \<Rightarrow> string option \<times> sql_db" where
  "delete_expired now db =
     (case sql_call db of
        (Some m, db1) \<Rightarrow> (Some m, db1)
      | (None, db1) \<Rightarrow>
          (None, db1\<lparr>dbRows := gm_del_all (map fst (filter
             (\<lambda>(k, r). case rwExpiresAt r of None \<Rightarrow> False | Some e \<Rightarrow> e < now) (gm_entries (dbRows db1)))) (dbRows db1)\<rparr>))"

text \<open>\<open>CREATE TABLE IF NOT EXISTS\<close> leaves the rows of an existing table.\<close>

definition createTables :: "sql_db \<Rightarrow> string option \<times> sql_db" where
  "createTables db = sql_call db"

subsection \<open>The store\<close>

record sqlite_store =
  sqDb :: sql_db
  sqPath :: path
  sqClosed :: bool

definition sq_New :: "(string \<Rightarrow> string + sql_db) \<Rightarrow> path \<Rightarrow> fsys \<Rightarrow> (string + sqlite_store) \<times> fsys" where
  "sq_New sql_Open cfgPath fs =
     (let p = (if cfgPath = [] then ''kvstore.db'' else cfgPath);
          dir = path_dir p
      in case (if dir \<noteq> [] \<and> dir \<noteq> dot then os_MkdirAll dir fs else (None, fs)) of
           (Some _, fs1) \<Rightarrow> (Inl ''create directory'', fs1)
         | (None, fs1) \<Rightarrow>
             (case sql_Open (p @ ''?_journal_mode=WAL&_busy_timeout=5000'') of
                Inl m \<Rightarrow> (Inl (''open database: '' @ m), fs1)
              | Inr db \<Rightarrow>
                  (case createTables db of
                     (Some m, _) \<Rightarrow> (Inl (''create tables: '' @ m), fs1)
                   | (None, db1) \<Rightarrow> (Inr \<lparr>sqDb = db1, sqPath = p, sqClosed = False\<rparr>, fs1))))"

definition sq_Delete :: "string \<Rightarrow> sqlite_store \<Rightarrow> kvs_error option \<times> sqlite_store" where
  "sq_Delete key s =
     (if sqClosed s then (Some KvsClosed, s)
      else (case delete_key key (sqDb s) of
              (Some m, db) \<Rightarrow> (Some (KvsOther (''delete: '' @ m)), s\<lparr>sqDb := db\<rparr>)
            | (None, db) \<Rightarrow> (None, s\<lparr>sqDb := db\<rparr>)))"

definition sq_Get :: "time \<Rightarrow> string \<Rightarrow> sqlite_store \<Rightarrow> (kvs_error + bytes) \<times> sqlite_store" where
  "sq_Get now key s =
     (if sqClosed s then (Inl KvsClosed, s)
      else (case select_value key (sqDb s) of
              (Inl m, db) \<Rightarrow> (Inl (KvsOther (''query: '' @ m)), s\<lparr>sqDb := db\<rparr>)
            | (Inr None, db) \<Rightarrow> (Inl KvsNotFound, s\<lparr>sqDb := db\<rparr>)
            | (Inr (Some r), db) \<Rightarrow>
                (case rwExpiresAt r of
                   Some e \<Rightarrow>
                     if Unix now > e then (Inl KvsNotFound, snd (sq_Delete key (s\<lparr>sqDb := db\<rparr>)))
                     else (Inr (rwValue r), s\<lparr>sqDb := db\<rparr>)
                 | None \<Rightarrow> (Inr (rwValue r), s\<lparr>sqDb := db\<rparr>))))"

definition sq_Set :: "time \<Rightarrow> string \<Rightarrow> bytes \<Rightarrow> duration \<Rightarrow> sqlite_store \<Rightarrow> kvs_error option \<times> sqlite_store" where
  "sq_Set now key v ttl s =
     (if sqClosed s then (Some KvsClosed, s)
      else (case upsert key v (if ttl > 0 then Some (Unix (now + ttl)) else None) (sqDb s) of
              (Some m, db) \<Rightarrow> (Some (KvsOther (''insert: '' @ m)), s\<lparr>sqDb := db\<rparr>)
            | (None, db) \<Rightarrow> (None, s\<lparr>sqDb := db\<rparr>)))"

definition sq_List :: "(string \<Rightarrow> string \<Rightarrow> bool) \<Rightarrow> time \<Rightarrow> string \<Rightarrow> sqlite_store \<Rightarrow> (kvs_error + string list) \<times> sqlite_store" where
  "sq_List like now pre s =
     (if sqClosed s then (Inl KvsClosed, s)
      else (case select_keys (if pre = [] then (\<lambda>_. True) else like (pre @ ''%'')) (Unix now) (sqDb s) of
              (Inl m, db) \<Rightarrow> (Inl (KvsOther (''query: '' @ m)), s\<lparr>sqDb := db\<rparr>)
            | (Inr keys, db) \<Rightarrow>
                (case dbRowsEnd db (dbCalls db) of
                   ScanFailed m \<Rightarrow> (Inl (KvsOther (''scan: '' @ m)), s\<lparr>sqDb := db\<rparr>)
                 | RowsFailed m \<Rightarrow> (Inl (KvsOther (''rows: '' @ m)), s\<lparr>sqDb := db\<rparr>)
                 | RowsDone \<Rightarrow> (Inr keys, s\<lparr>sqDb := db\<rparr>))))"

definition sq_Close :: "(sql_db \<Rightarrow> kvs_error option) \<Rightarrow> sqlite_store \<Rightarrow> kvs_error option \<times> sqlite_store" where
  "sq_Close closeErr s =
     (if sqClosed s then (None, s)
      else (closeErr (sqDb s), s\<lparr>sqClosed := True, sqDb := (sqDb s)\<lparr>dbOpen := False\<rparr>\<rparr>))"

definition sq_removeExpired :: "time \<Rightarrow> sqlite_store \<Rightarrow> sqlite_store" where
  "sq_removeExpired now s =
     (if sqClosed s then s else s\<lparr>sqDb := snd (delete_expired (Unix now) (sqDb s))\<rparr>)"

definition sq_Path :: "sqlite_store \<Rightarrow> path" where
  "sq_Path s = sqPath s"

text \<open>One tick of \<open>cleanupLoop\<close>: the loop ends when the store is closed.\<close>

definition sq_tick :: "time \<Rightarrow> sqlite_store \<Rightarrow> sqlite_store option" where
  "sq_tick now s = (if sqClosed s then None else Some (sq_removeExpired now s))"

definition sq_store :: "(string \<Rightarrow> string \<Rightarrow> bool) \<Rightarrow> (sql_db \<Rightarrow> kvs_error option) \<Rightarrow> sqlite_store KVStore" where
  "sq_store like closeErr =
     \<lparr>ksGet = sq_Get, ksSet = sq_Set, ksDelete = (\<lambda>_. sq_Delete), ksList = sq_List like, ksClose = sq_Close closeErr\<rparr>"

subsection \<open>What a reader sees\<close>

definition sq_live :: "time \<Rightarrow> sqlite_store \<Rightarrow> string \<Rightarrow> bytes option" where
  "sq_live t s k =
     (case gm_get (dbRows (sqDb s)) k of
        None \<Rightarrow> None
      | Some r \<Rightarrow> (case rwExpiresAt r of
                     None \<Rightarrow> Some (rwValue r)
                   | Some e \<Rightarrow> if Unix t > e then None else Some (rwValue r)))"

definition sq_ok :: "sqlite_store \<Rightarrow> bool" where
  "sq_ok s \<longleftrightarrow> \<not> sqClosed s \<and> dbFail (sqDb s) = (\<lambda>_. None) \<and> dbRowsEnd (sqDb s) = (\<lambda>_. RowsDone)"

definition sq_lasts :: "time \<Rightarrow> duration \<Rightarrow> time \<Rightarrow> bool" where
  "sq_lasts now ttl t \<longleftrightarrow> ttl \<le> 0 \<or> Unix t \<le> Unix (now + ttl)"

lemma Unix_mono: "t \<le> t' \<Longrightarrow> Unix t \<le> Unix t'"
  by (simp add: Unix_def second_def zdiv_mono1)

interpretation sq: kv_store "sq_store like closeErr" sq_live sq_ok sq_lasts for like closeErr
proof
  show "\<exists>s'. ksGet (sq_store like closeErr) now k s =
      ((case sq_live now s k of None \<Rightarrow> Inl KvsNotFound | Some v \<Rightarrow> Inr v), s') \<and>
      sq_ok s' \<and> (\<forall>t \<ge> now. sq_live t s' = sq_live t s)" if "sq_ok s" for s now k
    using that
    by (auto simp: sq_store_def sq_Get_def sq_Delete_def sq_live_def sq_ok_def select_value_def delete_key_def sql_call_def
        gomap_simps fun_eq_iff split: option.splits dest: Unix_mono)
  show "\<exists>s'. ksSet (sq_store like closeErr) now k v ttl s = (None, s') \<and> sq_ok s' \<and>
      (\<forall>t \<ge> now. sq_live t s' = (sq_live t s)(k := if sq_lasts now ttl t then Some v else None))"
    if "sq_ok s" "0 \<le> now" for s now k v ttl
    using that by (auto simp: sq_store_def sq_Set_def sq_ok_def upsert_def sql_call_def sq_live_def sq_lasts_def gomap_simps fun_eq_iff)
  show "\<exists>s'. ksDelete (sq_store like closeErr) now k s = (None, s') \<and> sq_ok s' \<and>
      (\<forall>t \<ge> now. sq_live t s' = (sq_live t s)(k := None))" if "sq_ok s" for s now k
    using that by (auto simp: sq_store_def sq_Delete_def sq_ok_def delete_key_def sql_call_def sq_live_def gomap_simps fun_eq_iff)
  show "sq_lasts now ttl t" if "t \<le> now + ttl \<or> ttl \<le> 0" for now ttl t
    using that Unix_mono[of t "now + ttl"] by (auto simp: sq_lasts_def)
qed

interpretation sqs: session_kvs "sq_store like closeErr" sq_live sq_ok sq_lasts L for like closeErr L
  by unfold_locales

subsection \<open>Sessions in the database\<close>

definition empty_db :: sql_db where
  "empty_db = \<lparr>dbRows = gm_empty, dbCalls = 0, dbFail = \<lambda>_. None, dbRowsEnd = \<lambda>_. RowsDone, dbOpen = True\<rparr>"

definition sample_sq :: sqlite_store where
  "sample_sq = \<lparr>sqDb = empty_db, sqPath = ''kvstore.db'', sqClosed = False\<rparr>"

text \<open>C29: A session created through the session store over a SQLite store whose database does not fail is read back unchanged until it expires, although the table keeps times in whole seconds; no read of another identifier changes.\<close>

theorem sqlite_session_roundtrip:
  assumes "sq_ok (skBackend s)" "\<not> skClosed s" "0 \<le> now" "now \<le> t" "ValidSessionID (sID x)"
    "klMarshal L x = Inr d" "klUnmarshal L d = Inr x" "\<not> IsExpired t x" "t \<le> now + maxDuration"
    "sExpiresAt x = 0 \<longrightarrow> cfgDefaultTTL (skConfig s) \<le> 0 \<or> t \<le> now + cfgDefaultTTL (skConfig s)"
  shows "\<exists>s'. sk_Create (sq_store like closeErr) L now (Some x) s = (None, s') \<and> sq_ok (skBackend s') \<and>
    fst (sk_Get (sq_store like closeErr) L t (sID x) s') = Inr x \<and>
    (\<forall>j. j \<noteq> sID x \<longrightarrow> fst (sk_Get (sq_store like closeErr) L t j s') = fst (sk_Get (sq_store like closeErr) L t j s))"
  by (rule sqs.Create_then_Get [OF assms])

theorem sqlite_session_roundtrip_witness:
  "\<exists>s'. sk_Create (sq_store (\<lambda>_ _. True) (\<lambda>_. None)) sample_libs 10 (Some sample_a) (sk_New sample_sq DefaultConfig) = (None, s') \<and>
    fst (sk_Get (sq_store (\<lambda>_ _. True) (\<lambda>_. None)) sample_libs 20 ''a'' s') = Inr sample_a"
proof -
  have v: "ValidSessionID (sID sample_a)" by code_simp
  have u: "klMarshal sample_libs sample_a = Inr [97]" by code_simp
  have ok: "sq_ok (skBackend (sk_New sample_sq DefaultConfig))"
    by (simp add: sk_New_def sample_sq_def sq_ok_def empty_db_def)
  have "\<exists>s'. sk_Create (sq_store (\<lambda>_ _. True) (\<lambda>_. None)) sample_libs 10 (Some sample_a) (sk_New sample_sq DefaultConfig) = (None, s') \<and>
      sq_ok (skBackend s') \<and> fst (sk_Get (sq_store (\<lambda>_ _. True) (\<lambda>_. None)) sample_libs 20 (sID sample_a) s') = Inr sample_a \<and>
      (\<forall>j. j \<noteq> sID sample_a \<longrightarrow> fst (sk_Get (sq_store (\<lambda>_ _. True) (\<lambda>_. None)) sample_libs 20 j s') =
        fst (sk_Get (sq_store (\<lambda>_ _. True) (\<lambda>_. None)) sample_libs 20 j (sk_New sample_sq DefaultConfig)))"
    by (rule sqlite_session_roundtrip[OF ok _ _ _ v u])
      (simp_all add: sk_New_def sample_libs_def sample_a_def witness_session_def IsExpired_def maxDuration_def is_zero_time_def)
  moreover have "sID sample_a = ''a''" by (simp add: sample_a_def witness_session_def)
  ultimately show ?thesis by auto
qed

subsection \<open>Listing\<close>

definition ascii :: "char \<Rightarrow> bool" where
  "ascii ch \<longleftrightarrow> (of_char ch :: nat) < 128"

definition ascii_lower :: "char \<Rightarrow> char" where
  "ascii_lower ch = (if 65 \<le> (of_char ch :: nat) \<and> (of_char ch :: nat) \<le> 90 then char_of ((of_char ch :: nat) + 32) else ch)"

text \<open>
  What SQLite documents of \<open>LIKE\<close>, on ASCII characters: \<open>%\<close> matches any text, \<open>_\<close> any one character,
  any other character itself in upper or lower case.
\<close>

locale sql_like =
  fixes like :: "string \<Rightarrow> string \<Rightarrow> bool"
  assumes like_percent: "like ''%'' s"
    and like_char: "ascii ch \<Longrightarrow> ch \<notin> {CHR ''%'', CHR ''_''} \<Longrightarrow>
      like (ch # p) s \<longleftrightarrow> (\<exists>d t. s = d # t \<and> ascii_lower d = ascii_lower ch \<and> like p t)"
    and like_any: "list_all ascii s \<Longrightarrow> like (CHR ''_'' # p) s \<longleftrightarrow> (\<exists>d t. s = d # t \<and> like p t)"

text \<open>The keys that a prefix selects.\<close>

definition like_prefix :: "string \<Rightarrow> string \<Rightarrow> bool" where
  "like_prefix p k \<longleftrightarrow>
     length p \<le> length k \<and> list_all2 (\<lambda>ch d. ch = CHR ''_'' \<or> ascii_lower d = ascii_lower ch) p (take (length p) k)"

context sql_like
begin

lemma like_prefix_iff:
  "list_all ascii p \<Longrightarrow> CHR ''%'' \<notin> set p \<Longrightarrow> list_all ascii k \<Longrightarrow> like (p @ ''%'') k \<longleftrightarrow> like_prefix p k"
proof (induction p arbitrary: k)
  case Nil
  then show ?case by (simp add: like_prefix_def like_percent)
next
  case (Cons ch p)
  have "like ((ch # p) @ ''%'') k \<longleftrightarrow>
      (\<exists>d t. k = d # t \<and> (ch = CHR ''_'' \<or> ascii_lower d = ascii_lower ch) \<and> like (p @ ''%'') t)"
    using Cons.prems like_char[of ch "p @ ''%''" k] like_any[of k "p @ ''%''"] by (cases "ch = CHR ''_''") auto
  also have "\<dots> \<longleftrightarrow> like_prefix (ch # p) k"
    using Cons by (cases k) (auto simp: like_prefix_def)
  finally show ?case .
qed

end

text \<open>A matcher of the documented kind: upper and lower case are folded on both sides.\<close>

fun like_ascii :: "string \<Rightarrow> string \<Rightarrow> bool" where
  "like_ascii [] s \<longleftrightarrow> s = []"
| "like_ascii (ch # p) [] \<longleftrightarrow> ch = CHR ''%'' \<and> like_ascii p []"
| "like_ascii (ch # p) (d # t) \<longleftrightarrow>
     (if ch = CHR ''%'' then like_ascii p (d # t) \<or> like_ascii (ch # p) t
      else (ch = CHR ''_'' \<or> ascii_lower d = ascii_lower ch) \<and> like_ascii p t)"

lemma like_ascii_percent: "like_ascii ''%'' s"
  by (induction s) simp_all

interpretation la: sql_like like_ascii
proof
  show "like_ascii (ch # p) s \<longleftrightarrow> (\<exists>d t. s = d # t \<and> ascii_lower d = ascii_lower ch \<and> like_ascii p t)"
    if "ascii ch" "ch \<notin> {CHR ''%'', CHR ''_''}" for ch p s
    using that by (cases s) auto
  show "like_ascii (CHR ''_'' # p) s \<longleftrightarrow> (\<exists>d t. s = d # t \<and> like_ascii p t)" if "list_all ascii s" for s p
    by (cases s) auto
qed (rule like_ascii_percent)

text \<open>C28: \<open>List\<close> returns, sorted and once each, the keys whose time to live has more than the current second left and whose text begins with the prefix as \<open>LIKE\<close> compares it: upper and lower case do not differ, and an underscore of the prefix stands for any character. So every listed key is found by \<open>Get\<close>, but a key in its last second, which \<open>Get\<close> still returns, is not listed, and keys outside of the prefix are.\<close>

theorem sqlite_list_exact:
  assumes "sql_like like" and "sq_ok s" and "list_all ascii pre" and "CHR ''%'' \<notin> set pre"
    and "\<And>k. gm_get (dbRows (sqDb s)) k \<noteq> None \<Longrightarrow> list_all ascii k"
  shows "\<exists>ks s'. sq_List like now pre s = (Inr ks, s') \<and> sorted ks \<and> distinct ks \<and>
    set ks = {k. sq_live (now + second) s k \<noteq> None \<and> like_prefix pre k}"
proof -
  let ?db = "snd (sql_call (sqDb s))"
  have ok: "\<not> sqClosed s" "dbFail (sqDb s) = (\<lambda>_. None)" "dbRowsEnd (sqDb s) = (\<lambda>_. RowsDone)" using assms(2) by (simp_all add: sq_ok_def)
  let ?cond = "if pre = [] then (\<lambda>_. True) else like (pre @ ''%'')"
  let ?es = "filter (\<lambda>(k, r). ?cond k \<and> (case rwExpiresAt r of None \<Rightarrow> True | Some e \<Rightarrow> e > Unix now)) (gm_entries (dbRows (sqDb s)))"
  have l: "sq_List like now pre s = (Inr (sort (map fst ?es)), s\<lparr>sqDb := ?db\<rparr>)"
    using ok by (simp add: sq_List_def select_keys_def sql_call_def)
  have u: "Unix (now + second) = Unix now + 1" by (simp add: Unix_def second_def)
  have c: "?cond k = like_prefix pre k" if "gm_get (dbRows (sqDb s)) k \<noteq> None" for k
    using sql_like.like_prefix_iff[OF assms(1,3,4) assms(5)[OF that]] by (simp add: like_prefix_def)
  have "k \<in> set (map fst ?es) \<longleftrightarrow> sq_live (now + second) s k \<noteq> None \<and> like_prefix pre k" for k
  proof -
    have "k \<in> set (map fst ?es) \<longleftrightarrow>
        (\<exists>r. gm_get (dbRows (sqDb s)) k = Some r \<and> ?cond k \<and> (case rwExpiresAt r of None \<Rightarrow> True | Some e \<Rightarrow> e > Unix now))"
      by (force simp: gm_get_iff_entry)
    then show ?thesis using c[of k] by (auto simp: sq_live_def u split: option.splits)
  qed
  moreover have "distinct (map fst ?es)" by (simp add: distinct_map_filter)
  ultimately show ?thesis using l by (intro exI[of _ "sort (map fst ?es)"] exI) (auto simp: set_eq_iff)
qed

text \<open>A key of another name is listed, and a key in its last second is not, though it is found.\<close>

definition sample_listed :: sqlite_store where
  "sample_listed = snd (sq_Set 0 ''user_1'' [2] second (snd (sq_Set 0 ''userXa'' [1] 0 sample_sq)))"

lemma sample_listed_rows:
  "gm_get (dbRows (sqDb sample_listed)) =
     [''userXa'' \<mapsto> \<lparr>rwValue = [1], rwExpiresAt = None\<rparr>, ''user_1'' \<mapsto> \<lparr>rwValue = [2], rwExpiresAt = Some (Unix second)\<rparr>]"
  by (auto simp: sample_listed_def sq_Set_def sample_sq_def empty_db_def upsert_def sql_call_def gomap_simps second_def fun_eq_iff)

theorem sqlite_list_exact_witness:
  "(\<exists>ks s'. sq_List like_ascii second ''user_'' sample_listed = (Inr ks, s') \<and> sorted ks \<and> distinct ks \<and> set ks = {''userXa''}) \<and>
   fst (sq_Get second ''user_1'' sample_listed) = Inr [2]"
proof
  have ok: "sq_ok sample_listed"
    by (simp add: sq_ok_def sample_listed_def sq_Set_def sample_sq_def empty_db_def upsert_def sql_call_def second_def)
  have a: "list_all ascii ''user_''" "list_all ascii ''userXa''" "list_all ascii ''user_1''" "CHR ''%'' \<notin> set ''user_''" by code_simp+
  have p: "like_prefix ''user_'' ''userXa''" by code_simp
  have "{k. sq_live (second + second) sample_listed k \<noteq> None \<and> like_prefix ''user_'' k} = {''userXa''}"
    using p by (auto simp: sq_live_def sample_listed_rows Unix_def second_def split: if_splits)
  moreover have "list_all ascii k" if "gm_get (dbRows (sqDb sample_listed)) k \<noteq> None" for k
    using that a(2,3) by (auto simp: sample_listed_rows split: if_splits)
  ultimately show "\<exists>ks s'. sq_List like_ascii second ''user_'' sample_listed = (Inr ks, s') \<and> sorted ks \<and> distinct ks \<and> set ks = {''userXa''}"
    using sqlite_list_exact[OF la.sql_like_axioms ok a(1,4), of second] by simp
  show "fst (sq_Get second ''user_1'' sample_listed) = Inr [2]"
    using ok by (simp add: sq_Get_def select_value_def sql_call_def sq_ok_def sample_listed_rows split: option.split)
qed

text \<open>The cleanup changes no read at its time or later.\<close>

theorem sqlite_cleanup_invisible:
  assumes "sq_ok s" and "now \<le> t"
  shows "sq_live t (sq_removeExpired now s) = sq_live t s"
proof
  fix k
  have ok: "\<not> sqClosed s" "dbFail (sqDb s) = (\<lambda>_. None)" using assms(1) by (simp_all add: sq_ok_def)
  let ?old = "map fst (filter (\<lambda>(k, r). case rwExpiresAt r of None \<Rightarrow> False | Some e \<Rightarrow> e < Unix now) (gm_entries (dbRows (sqDb s))))"
  have rows: "gm_get (dbRows (sqDb (sq_removeExpired now s))) k = (if k \<in> set ?old then None else gm_get (dbRows (sqDb s)) k)"
    using ok by (simp add: sq_removeExpired_def delete_expired_def sql_call_def gomap_simps)
  have old: "k \<in> set ?old \<longleftrightarrow> (\<exists>r e. gm_get (dbRows (sqDb s)) k = Some r \<and> rwExpiresAt r = Some e \<and> e < Unix now)"
    by (force simp: gm_get_iff_entry split: option.splits)
  show "sq_live t (sq_removeExpired now s) k = sq_live t s k"
    using Unix_mono[OF assms(2)] old unfolding sq_live_def rows by (auto split: option.splits)
qed

theorem sqlite_cleanup_invisible_witness:
  "sq_live (3 * second) (sq_removeExpired (3 * second) sample_listed) = sq_live (3 * second) sample_listed"
  by (rule sqlite_cleanup_invisible)
    (simp_all add: sq_ok_def sample_listed_def sq_Set_def sample_sq_def empty_db_def upsert_def sql_call_def second_def)

end
