(* ===== verification/Compress.thy ===== *)
theory Compress
  imports BackendInterface
begin

section \<open>Compressing writers and readers (\<open>object/compress/gzip/\<close>, \<open>object/compress/zstd/\<close>)\<close>

text \<open>
  Both packages wrap an encoder or decoder of a library around a writer or reader. The library is a
  parameter: its calls over its own state \<open>'z\<close> and the state \<open>'w\<close> that holds the wrapped stream. The
  two packages differ in the levels and in what closing a decoder returns; what their methods have
  in common is written once (\<open>comp_Write\<close> ...). A locked method is one step.
\<close>

record ('z, 'w) encoder =
  enNew :: "int \<Rightarrow> 'w \<Rightarrow> 'z res \<times> 'w"
  enWrite :: "bytes \<Rightarrow> 'z \<Rightarrow> 'w \<Rightarrow> (nat \<times> object_error option) \<times> 'z \<times> 'w"
  enFlush :: "'z \<Rightarrow> 'w \<Rightarrow> object_error option \<times> 'z \<times> 'w"
  enClose :: "'z \<Rightarrow> 'w \<Rightarrow> object_error option \<times> 'z \<times> 'w"

record ('z, 'w) decoder =
  deNew :: "'w \<Rightarrow> 'z res \<times> 'w"
  deRead :: "nat \<Rightarrow> 'z \<Rightarrow> 'w \<Rightarrow> (bytes \<times> object_error option) \<times> 'z \<times> 'w"
  deClose :: "'z \<Rightarrow> 'w \<Rightarrow> object_error option \<times> 'z \<times> 'w"

text \<open>The struct of a writer or reader; \<open>closer\<close> below is \<open>Close\<close> of the wrapped stream.\<close>

record 'z compressor =
  cpCodec :: 'z
  cpClosed :: bool

subsection \<open>The common methods\<close>

definition comp_Write ::
  "('z, 'w) encoder \<Rightarrow> bytes \<Rightarrow> 'z compressor \<Rightarrow> 'w \<Rightarrow> (nat \<times> object_error option) \<times> 'z compressor \<times> 'w" where
  "comp_Write E p z w =
     (if cpClosed z then ((0, Some ErrClosedPipe), z, w)
      else (case enWrite E p (cpCodec z) w of (r, y, w1) \<Rightarrow> (r, z\<lparr>cpCodec := y\<rparr>, w1)))"

definition comp_Flush :: "('z, 'w) encoder \<Rightarrow> 'z compressor \<Rightarrow> 'w \<Rightarrow> object_error option \<times> 'z compressor \<times> 'w" where
  "comp_Flush E z w =
     (if cpClosed z then (Some ErrClosedPipe, z, w)
      else (case enFlush E (cpCodec z) w of (e, y, w1) \<Rightarrow> (e, z\<lparr>cpCodec := y\<rparr>, w1)))"

text \<open>The codec is closed first; the wrapped stream is closed also when that fails, and its error is then dropped.\<close>

definition comp_Close ::
  "('z \<Rightarrow> 'w \<Rightarrow> object_error option \<times> 'z \<times> 'w) \<Rightarrow> ('w \<Rightarrow> object_error option \<times> 'w) \<Rightarrow> 'z compressor \<Rightarrow> 'w \<Rightarrow>
   object_error option \<times> 'z compressor \<times> 'w" where
  "comp_Close closeCodec closer z w =
     (if cpClosed z then (None, z, w)
      else (case closeCodec (cpCodec z) w of
              (Some e, y, w1) \<Rightarrow> (Some e, \<lparr>cpCodec = y, cpClosed = True\<rparr>, snd (closer w1))
            | (None, y, w1) \<Rightarrow> (case closer w1 of (e, w2) \<Rightarrow> (e, \<lparr>cpCodec = y, cpClosed = True\<rparr>, w2))))"

definition comp_Read ::
  "('z, 'w) decoder \<Rightarrow> nat \<Rightarrow> 'z compressor \<Rightarrow> 'w \<Rightarrow> (bytes \<times> object_error option) \<times> 'z compressor \<times> 'w" where
  "comp_Read D n z w =
     (if cpClosed z then (([], Some ErrClosedPipe), z, w)
      else (case deRead D n (cpCodec z) w of (r, y, w1) \<Rightarrow> (r, z\<lparr>cpCodec := y\<rparr>, w1)))"

subsection \<open>\<open>gzip\<close>\<close>

definition gz_NoCompression :: int where "gz_NoCompression = 0"
definition gz_BestSpeed :: int where "gz_BestSpeed = 1"
definition gz_BestCompression :: int where "gz_BestCompression = 9"
definition gz_DefaultCompression :: int where "gz_DefaultCompression = - 1"
definition gz_HuffmanOnly :: int where "gz_HuffmanOnly = - 2"

definition gz_NewWriterLevel :: "('z, 'w) encoder \<Rightarrow> int \<Rightarrow> 'w \<Rightarrow> 'z compressor res \<times> 'w" where
  "gz_NewWriterLevel E level w =
     (case enNew E level w of
        (Inl e, w1) \<Rightarrow> (Inl e, w1)
      | (Inr y, w1) \<Rightarrow> (Inr \<lparr>cpCodec = y, cpClosed = False\<rparr>, w1))"

definition gz_NewWriter :: "('z, 'w) encoder \<Rightarrow> 'w \<Rightarrow> 'z compressor res \<times> 'w" where
  "gz_NewWriter E w = gz_NewWriterLevel E gz_DefaultCompression w"

definition gz_Write :: "('z, 'w) encoder \<Rightarrow> bytes \<Rightarrow> 'z compressor \<Rightarrow> 'w \<Rightarrow> (nat \<times> object_error option) \<times> 'z compressor \<times> 'w" where
  "gz_Write = comp_Write"

definition gz_Flush :: "('z, 'w) encoder \<Rightarrow> 'z compressor \<Rightarrow> 'w \<Rightarrow> object_error option \<times> 'z compressor \<times> 'w" where
  "gz_Flush = comp_Flush"

definition gz_CloseWriter ::
  "('z, 'w) encoder \<Rightarrow> ('w \<Rightarrow> object_error option \<times> 'w) \<Rightarrow> 'z compressor \<Rightarrow> 'w \<Rightarrow> object_error option \<times> 'z compressor \<times> 'w" where
  "gz_CloseWriter E = comp_Close (enClose E)"

definition gz_NewReader :: "('z, 'w) decoder \<Rightarrow> 'w \<Rightarrow> 'z compressor res \<times> 'w" where
  "gz_NewReader D w =
     (case deNew D w of
        (Inl e, w1) \<Rightarrow> (Inl e, w1)
      | (Inr y, w1) \<Rightarrow> (Inr \<lparr>cpCodec = y, cpClosed = False\<rparr>, w1))"

definition gz_Read :: "('z, 'w) decoder \<Rightarrow> nat \<Rightarrow> 'z compressor \<Rightarrow> 'w \<Rightarrow> (bytes \<times> object_error option) \<times> 'z compressor \<times> 'w" where
  "gz_Read = comp_Read"

definition gz_CloseReader ::
  "('z, 'w) decoder \<Rightarrow> ('w \<Rightarrow> object_error option \<times> 'w) \<Rightarrow> 'z compressor \<Rightarrow> 'w \<Rightarrow> object_error option \<times> 'z compressor \<times> 'w" where
  "gz_CloseReader D = comp_Close (deClose D)"

definition gz_Header :: "('z \<Rightarrow> 'h) \<Rightarrow> 'z compressor \<Rightarrow> 'h" where
  "gz_Header header z = header (cpCodec z)"

subsection \<open>\<open>zstd\<close>\<close>

datatype zstd_level = ZSpeedFastest | ZSpeedDefault | ZSpeedBetterCompression | ZSpeedBestCompression

definition SpeedFastest :: int where "SpeedFastest = 1"
definition SpeedDefault :: int where "SpeedDefault = 2"
definition SpeedBetterCompression :: int where "SpeedBetterCompression = 3"
definition SpeedBestCompression :: int where "SpeedBestCompression = 4"

definition toZstdLevel :: "int \<Rightarrow> zstd_level" where
  "toZstdLevel l =
     (if l = SpeedFastest then ZSpeedFastest
      else if l = SpeedDefault then ZSpeedDefault
      else if l = SpeedBetterCompression then ZSpeedBetterCompression
      else if l = SpeedBestCompression then ZSpeedBestCompression
      else ZSpeedDefault)"

text \<open>The library takes a list of options \<open>'o\<close>; \<open>zstd.WithEncoderLevel\<close> is the argument \<open>withLevel\<close>.\<close>

definition zs_NewWriterWithOptions :: "('o list \<Rightarrow> 'w \<Rightarrow> 'z res \<times> 'w) \<Rightarrow> 'o list \<Rightarrow> 'w \<Rightarrow> 'z compressor res \<times> 'w" where
  "zs_NewWriterWithOptions libNew opts w =
     (case libNew opts w of
        (Inl e, w1) \<Rightarrow> (Inl e, w1)
      | (Inr y, w1) \<Rightarrow> (Inr \<lparr>cpCodec = y, cpClosed = False\<rparr>, w1))"

definition zs_NewWriterLevel ::
  "('o list \<Rightarrow> 'w \<Rightarrow> 'z res \<times> 'w) \<Rightarrow> (zstd_level \<Rightarrow> 'o) \<Rightarrow> int \<Rightarrow> 'w \<Rightarrow> 'z compressor res \<times> 'w" where
  "zs_NewWriterLevel libNew withLevel level w =
     (case libNew [withLevel (toZstdLevel level)] w of
        (Inl e, w1) \<Rightarrow> (Inl e, w1)
      | (Inr y, w1) \<Rightarrow> (Inr \<lparr>cpCodec = y, cpClosed = False\<rparr>, w1))"

definition zs_NewWriter :: "('o list \<Rightarrow> 'w \<Rightarrow> 'z res \<times> 'w) \<Rightarrow> (zstd_level \<Rightarrow> 'o) \<Rightarrow> 'w \<Rightarrow> 'z compressor res \<times> 'w" where
  "zs_NewWriter libNew withLevel w = zs_NewWriterLevel libNew withLevel SpeedDefault w"

definition zs_Write :: "('z, 'w) encoder \<Rightarrow> bytes \<Rightarrow> 'z compressor \<Rightarrow> 'w \<Rightarrow> (nat \<times> object_error option) \<times> 'z compressor \<times> 'w" where
  "zs_Write = comp_Write"

definition zs_Flush :: "('z, 'w) encoder \<Rightarrow> 'z compressor \<Rightarrow> 'w \<Rightarrow> object_error option \<times> 'z compressor \<times> 'w" where
  "zs_Flush = comp_Flush"

definition zs_CloseWriter ::
  "('z, 'w) encoder \<Rightarrow> ('w \<Rightarrow> object_error option \<times> 'w) \<Rightarrow> 'z compressor \<Rightarrow> 'w \<Rightarrow> object_error option \<times> 'z compressor \<times> 'w" where
  "zs_CloseWriter E = comp_Close (enClose E)"

definition zs_NewReader :: "('z, 'w) decoder \<Rightarrow> 'w \<Rightarrow> 'z compressor res \<times> 'w" where
  "zs_NewReader D w =
     (case deNew D w of
        (Inl e, w1) \<Rightarrow> (Inl e, w1)
      | (Inr y, w1) \<Rightarrow> (Inr \<lparr>cpCodec = y, cpClosed = False\<rparr>, w1))"

definition zs_NewReaderWithOptions :: "('o list \<Rightarrow> 'w \<Rightarrow> 'z res \<times> 'w) \<Rightarrow> 'o list \<Rightarrow> 'w \<Rightarrow> 'z compressor res \<times> 'w" where
  "zs_NewReaderWithOptions libNew opts w =
     (case libNew opts w of
        (Inl e, w1) \<Rightarrow> (Inl e, w1)
      | (Inr y, w1) \<Rightarrow> (Inr \<lparr>cpCodec = y, cpClosed = False\<rparr>, w1))"

definition zs_Read :: "('z, 'w) decoder \<Rightarrow> nat \<Rightarrow> 'z compressor \<Rightarrow> 'w \<Rightarrow> (bytes \<times> object_error option) \<times> 'z compressor \<times> 'w" where
  "zs_Read = comp_Read"

text \<open>Closing the decoder of this library returns nothing.\<close>

definition zs_CloseReader ::
  "('z \<Rightarrow> 'w \<Rightarrow> 'z \<times> 'w) \<Rightarrow> ('w \<Rightarrow> object_error option \<times> 'w) \<Rightarrow> 'z compressor \<Rightarrow> 'w \<Rightarrow> object_error option \<times> 'z compressor \<times> 'w" where
  "zs_CloseReader closeDecoder closer z w =
     (if cpClosed z then (None, z, w)
      else (case closeDecoder (cpCodec z) w of
              (y, w1) \<Rightarrow> (case closer w1 of (e, w2) \<Rightarrow> (e, \<lparr>cpCodec = y, cpClosed = True\<rparr>, w2))))"

subsection \<open>Sequences of calls\<close>

datatype comp_call = CallWrite bytes | CallFlush | CallClose

text \<open>The error that a call of a writer returns, and the errors of a sequence of calls.\<close>

definition comp_step ::
  "('z, 'w) encoder \<Rightarrow> ('w \<Rightarrow> object_error option \<times> 'w) \<Rightarrow> comp_call \<Rightarrow> 'z compressor \<Rightarrow> 'w \<Rightarrow>
   object_error option \<times> 'z compressor \<times> 'w" where
  "comp_step E closer x z w =
     (case x of
        CallWrite p \<Rightarrow> (case gz_Write E p z w of ((_, e), z1, w1) \<Rightarrow> (e, z1, w1))
      | CallFlush \<Rightarrow> gz_Flush E z w
      | CallClose \<Rightarrow> gz_CloseWriter E closer z w)"

fun comp_run ::
  "('z, 'w) encoder \<Rightarrow> ('w \<Rightarrow> object_error option \<times> 'w) \<Rightarrow> comp_call list \<Rightarrow> 'z compressor \<Rightarrow> 'w \<Rightarrow>
   object_error option list \<times> 'z compressor \<times> 'w" where
  "comp_run E closer [] z w = ([], z, w)"
| "comp_run E closer (x # xs) z w =
     (case comp_step E closer x z w of
        (e, z1, w1) \<Rightarrow> (case comp_run E closer xs z1 w1 of (es, z2, w2) \<Rightarrow> (e # es, z2, w2)))"

lemma comp_run_append:
  "comp_run E closer (xs @ ys) z w =
     (case comp_run E closer xs z w of (es, z1, w1) \<Rightarrow>
        (case comp_run E closer ys z1 w1 of (es', z2, w2) \<Rightarrow> (es @ es', z2, w2)))"
  by (induction xs arbitrary: z w) (auto split: prod.split)

lemma comp_run_open:
  "CallClose \<notin> set xs \<Longrightarrow> \<not> cpClosed z \<Longrightarrow> \<not> cpClosed (fst (snd (comp_run E closer xs z w)))"
proof (induction xs arbitrary: z w)
  case (Cons x xs)
  obtain e z1 w1 where s: "comp_step E closer x z w = (e, z1, w1)" by (metis prod_cases3)
  then have "\<not> cpClosed z1"
    using Cons.prems by (cases x) (auto simp: comp_step_def gz_Write_def gz_Flush_def comp_Write_def comp_Flush_def split: prod.splits)
  then show ?case using Cons.IH[of z1 w1] Cons.prems(1) by (cases "comp_run E closer xs z1 w1") (simp add: s)
qed simp

lemma comp_run_closed:
  "cpClosed z \<Longrightarrow> comp_run E closer xs z w = (map (\<lambda>x. if x = CallClose then None else Some ErrClosedPipe) xs, z, w)"
  by (induction xs)
    (auto simp: comp_step_def gz_Write_def gz_Flush_def gz_CloseWriter_def comp_Write_def comp_Flush_def comp_Close_def
      split: comp_call.split)

text \<open>Whatever calls follow the first \<open>Close\<close> of a compressing writer, the encoder and the wrapped writer see none of them: the wrapped writer is closed exactly once, after the encoder has written its end, also when the encoder fails; a later \<open>Write\<close> or \<open>Flush\<close> is refused as a closed pipe and a later \<open>Close\<close> does nothing.\<close>

theorem compress_close_once:
  assumes "\<not> cpClosed z" and "CallClose \<notin> set xs"
    and "comp_run E closer xs z w = (es, z1, w1)" and "enClose E (cpCodec z1) w1 = (e, y, w2)"
  shows "comp_run E closer (xs @ CallClose # ys) z w =
    (es @ (case e of Some e' \<Rightarrow> Some e' | None \<Rightarrow> fst (closer w2)) #
       map (\<lambda>x. if x = CallClose then None else Some ErrClosedPipe) ys,
     \<lparr>cpCodec = y, cpClosed = True\<rparr>, snd (closer w2))"
proof -
  have "\<not> cpClosed z1" using comp_run_open[OF assms(2,1), of E closer w] assms(3) by simp
  then have "gz_CloseWriter E closer z1 w1 =
      ((case e of Some e' \<Rightarrow> Some e' | None \<Rightarrow> fst (closer w2)), \<lparr>cpCodec = y, cpClosed = True\<rparr>, snd (closer w2))"
    using assms(4) by (cases "closer w2") (simp add: gz_CloseWriter_def comp_Close_def split: option.split)
  then show ?thesis by (simp add: comp_run_append assms(3) comp_run_closed comp_step_def)
qed

text \<open>An encoder that keeps the bytes until it is closed, around a writer that collects them.\<close>

definition sample_encoder :: "(bytes, bytes \<times> nat) encoder" where
  "sample_encoder =
     \<lparr>enNew = \<lambda>level w. (Inr [], w), enWrite = \<lambda>p z w. ((length p, None), z @ p, w), enFlush = \<lambda>z w. (None, z, w),
      enClose = \<lambda>z (d, n). (None, [], (d @ z, n))\<rparr>"

theorem compress_close_once_witness:
  "comp_run sample_encoder (\<lambda>(d, n). (None, (d, n + 1))) [CallWrite [1, 2], CallClose, CallWrite [3], CallClose]
     \<lparr>cpCodec = [], cpClosed = False\<rparr> ([], 0) =
   ([None, None, Some ErrClosedPipe, None], \<lparr>cpCodec = [], cpClosed = True\<rparr>, ([1, 2], 1))"
  using compress_close_once[of "\<lparr>cpCodec = [], cpClosed = False\<rparr>" "[CallWrite [1, 2]]" sample_encoder "\<lambda>(d, n). (None, (d, n + 1))"
      "([], 0)" "[None]" "\<lparr>cpCodec = [1, 2], cpClosed = False\<rparr>" "([], 0)" None "[]" "([1, 2], 0)" "[CallWrite [3], CallClose]"]
  by (simp add: sample_encoder_def comp_step_def gz_Write_def comp_Write_def)

end
